(* ===== verification/Hcu_Prelude.thy ===== *)
theory Hcu_Prelude
  imports Main "HOL-Library.Word"
begin

text \<open>
  Shared vocabulary of the development: the exceptions the sources raise, results as sums,
  the guard chains of the validation methods, Python slices and row splitting of one-dimensional
  tensors, insertion-ordered dictionaries, and the generic lemmas the components use.
\<close>

named_theorems guard_simps \<open>the guard chains of validation methods\<close>
named_theorems dict_simps \<open>insertion-ordered dictionaries\<close>

section \<open>Exceptions and results\<close>

text \<open>
  An exception is its class with the fixed text of its message; values that the f-strings of the
  sources interpolate into a message are left out, since no code reads them back.
\<close>

datatype exn =
    ValueError string
  | RuntimeError string
  | KeyError string
  | AssertionError string
  | AttributeError string
  | BlockFirstFormatError string
  | OSError string
  | HIPfileException string
  | UnsupportedMetadataVersion string
  | StructError
  | OverflowError
  | MemoryError
  | IndexError
  | ZeroDivisionError
  | UnboundLocalError string
  | StopIteration
  | TypeError string

type_synonym 'a res = "exn + 'a"

text \<open>
  \<open>first_error\<close> runs a chain of \<^verbatim>\<open>if bad: raise e\<close> statements: the error of the first guard
  that holds, \<open>None\<close> when the chain runs to its end.
\<close>

fun first_error :: "(bool \<times> 'e) list \<Rightarrow> 'e option" where
  "first_error [] = None"
| "first_error ((bad, e) # gs) = (if bad then Some e else first_error gs)"

lemma first_error_None_iff [guard_simps]:
  "first_error gs = None \<longleftrightarrow> (\<forall>(bad, e) \<in> set gs. \<not> bad)"
  by (induction gs rule: first_error.induct) auto

lemma first_error_append [guard_simps]:
  "first_error (gs @ hs) = (case first_error gs of Some e \<Rightarrow> Some e | None \<Rightarrow> first_error hs)"
  by (induction gs rule: first_error.induct) auto

lemma first_error_Some_in: "first_error gs = Some e \<Longrightarrow> (True, e) \<in> set gs"
  by (induction gs rule: first_error.induct) (auto split: if_splits)

text \<open>The first error of a guard chain run for every element of a list, in order.\<close>

fun first_error_in :: "('a \<Rightarrow> 'e option) \<Rightarrow> 'a list \<Rightarrow> 'e option" where
  "first_error_in f [] = None"
| "first_error_in f (x # xs) = (case f x of Some e \<Rightarrow> Some e | None \<Rightarrow> first_error_in f xs)"

lemma first_error_in_None_iff [guard_simps]:
  "first_error_in f xs = None \<longleftrightarrow> (\<forall>x \<in> set xs. f x = None)"
  by (induction xs) (auto split: option.splits)

section \<open>Slices and rows\<close>

text \<open>\<open>xs[a:b]\<close> for non-negative bounds; like Python's, it stops at the end of the list.\<close>

definition py_slice :: "'a list \<Rightarrow> int \<Rightarrow> int \<Rightarrow> 'a list" where
  "py_slice xs a b = take (nat (b - a)) (drop (nat a) xs)"

lemma length_py_slice:
  assumes "0 \<le> a" and "a \<le> b" and "b \<le> int (length xs)"
  shows "length (py_slice xs a b) = nat (b - a)"
  using assms by (simp add: py_slice_def)

lemma nth_py_slice:
  assumes "0 \<le> a" and "b \<le> int (length xs)" and "i < nat (b - a)"
  shows "py_slice xs a b ! i = xs ! (nat a + i)"
  using assms by (simp add: py_slice_def)

text \<open>
  \<open>t.reshape(-1, n)\<close> of a one-dimensional tensor as the list of its rows, for a length that is a
  multiple of \<open>n > 0\<close>.
\<close>

function rows :: "nat \<Rightarrow> 'a list \<Rightarrow> 'a list list" where
  "rows n xs = (if n = 0 \<or> xs = [] then [] else take n xs # rows n (drop n xs))"
  by pat_completeness auto
termination
  by (relation "measure (\<lambda>(n, xs). length xs)") auto

declare rows.simps [simp del]

lemma rows_Nil [simp]: "rows n [] = []"
  by (simp add: rows.simps)

lemma rows_step: "0 < n \<Longrightarrow> xs \<noteq> [] \<Longrightarrow> rows n xs = take n xs # rows n (drop n xs)"
  by (subst rows.simps) simp

lemma concat_rows: "0 < n \<Longrightarrow> concat (rows n xs) = xs"
proof (induction n xs rule: rows.induct)
  case (1 n xs)
  then show ?case by (cases "xs = []") (auto simp: rows_step [of n xs])
qed

lemma rows_length:
  "0 < n \<Longrightarrow> length xs = k * n \<Longrightarrow> length (rows n xs) = k \<and> (\<forall>r \<in> set (rows n xs). length r = n)"
proof (induction k arbitrary: xs)
  case 0
  then show ?case by simp
next
  case (Suc k)
  then have "xs \<noteq> []" and "length (drop n xs) = k * n" by auto
  with Suc.IH [of "drop n xs"] Suc.prems show ?case
    by (simp add: rows_step [of n xs])
qed

lemma concat_uniform_nth:
  assumes "\<forall>r \<in> set rs. length r = n" and "j < length rs" and "o' < n"
  shows "concat rs ! (j * n + o') = rs ! j ! o'"
  using assms
proof (induction rs arbitrary: j)
  case Nil
  then show ?case by simp
next
  case (Cons r rs)
  show ?case
  proof (cases j)
    case 0
    with Cons.prems show ?thesis by (simp add: nth_append)
  next
    case (Suc j')
    with Cons show ?thesis by (simp add: nth_append)
  qed
qed

lemma length_concat_uniform:
  "\<forall>r \<in> set rs. length r = n \<Longrightarrow> length (concat rs) = length rs * n"
  by (induction rs) auto

section \<open>Loops that may raise\<close>

text \<open>A loop that appends \<open>f x\<close> for every \<open>x\<close>, abandoned at the first exception.\<close>

fun traverse :: "('a \<Rightarrow> 'b res) \<Rightarrow> 'a list \<Rightarrow> 'b list res" where
  "traverse f [] = Inr []"
| "traverse f (x # xs) =
     (case f x of Inl e \<Rightarrow> Inl e
      | Inr y \<Rightarrow> (case traverse f xs of Inl e \<Rightarrow> Inl e | Inr ys \<Rightarrow> Inr (y # ys)))"

lemma traverse_Inr_iff:
  "traverse f xs = Inr ys \<longleftrightarrow> list_all2 (\<lambda>x y. f x = Inr y) xs ys"
proof (induction xs arbitrary: ys)
  case Nil
  then show ?case by auto
next
  case (Cons x xs)
  show ?case
    by (cases ys) (auto simp: Cons.IH [symmetric] split: sum.splits)
qed

lemma traverse_total: "(\<And>x. x \<in> set xs \<Longrightarrow> \<exists>y. f x = Inr y) \<Longrightarrow> \<exists>ys. traverse f xs = Inr ys"
proof (induction xs)
  case Nil
  then show ?case by simp
next
  case (Cons x xs)
  then obtain y ys where "f x = Inr y" and "traverse f xs = Inr ys" by (meson list.set_intros)
  then show ?case by simp
qed

section \<open>Sorting a list that is in order\<close>

lemma sort_key_sorted: "sorted (map f xs) \<Longrightarrow> sort_key f xs = xs"
proof (induction xs)
  case Nil
  then show ?case by simp
next
  case (Cons x xs)
  then show ?case by (cases xs) auto
qed

section \<open>Consecutive integers\<close>

text \<open>\<open>int_range a n\<close> is \<open>[a, a + 1, \<dots>, a + n - 1]\<close>.\<close>

definition int_range :: "int \<Rightarrow> nat \<Rightarrow> int list" where
  "int_range a n = map (\<lambda>i. a + int i) [0..<n]"

lemma length_int_range [simp]: "length (int_range a n) = n"
  by (simp add: int_range_def)

lemma int_range_0 [simp]: "int_range a 0 = []"
  by (simp add: int_range_def)

lemma nth_int_range [simp]: "i < n \<Longrightarrow> int_range a n ! i = a + int i"
  by (simp add: int_range_def)

lemma int_range_append: "int_range a n @ int_range (a + int n) m = int_range a (n + m)"
  by (rule nth_equalityI) (auto simp: nth_append)

lemma set_int_range: "set (int_range a n) = {a..<a + int n}"
proof
  show "set (int_range a n) \<subseteq> {a..<a + int n}" by (auto simp: int_range_def)
  show "{a..<a + int n} \<subseteq> set (int_range a n)"
  proof
    fix x assume "x \<in> {a..<a + int n}"
    then have "x = a + int (nat (x - a))" and "nat (x - a) \<in> {0..<n}" by auto
    then have "x \<in> (\<lambda>i. a + int i) ` {0..<n}" by (rule image_eqI)
    then show "x \<in> set (int_range a n)" by (simp add: int_range_def)
  qed
qed

lemma int_range_nat_append:
  "0 \<le> b \<Longrightarrow> 0 \<le> c \<Longrightarrow> int_range a (nat b) @ int_range (a + b) (nat c) = int_range a (nat (b + c))"
  using int_range_append [of a "nat b" "nat c"] by (simp add: nat_add_distrib)

lemma distinct_int_range [simp]: "distinct (int_range a n)"
  by (simp add: int_range_def distinct_map inj_on_def)

lemma int_range_Suc: "int_range a (Suc n) = a # int_range (a + 1) n"
  using int_range_append [of a 1 n] by (simp add: int_range_def [of a "Suc 0"])

lemma int_range_one [simp]: "int_range a (Suc 0) = [a]"
  by (simp add: int_range_def)

lemma int_range_eq_Nil [simp]: "int_range a n = [] \<longleftrightarrow> n = 0"
  by (simp add: int_range_def)

lemma hd_int_range: "0 < n \<Longrightarrow> hd (int_range a n) = a"
  by (cases n) (simp_all add: int_range_Suc)

section \<open>Division\<close>

lemma div_less_if_less_mult:
  fixes u k b :: int
  assumes "0 < b" and "u < k * b"
  shows "u div b < k"
proof -
  have "u div b * b \<le> u" using assms(1) by (simp add: minus_mod_eq_div_mult [symmetric])
  with assms(2) have "u div b * b < k * b" by linarith
  with assms(1) show ?thesis by (simp add: mult_less_cancel_right)
qed

lemma div_add_mult: "b dvd a \<Longrightarrow> (a + u) div b = a div b + u div b" for a b u :: int
  by (metis div_plus_div_distrib_dvd_left)

lemma mod_add_mult: "b dvd a \<Longrightarrow> (a + u) mod b = u mod b" for a b u :: int
  by (auto elim!: dvdE)

section \<open>Insertion-ordered dictionaries\<close>

text \<open>
  A Python dictionary as the list of its items: assignment keeps the place of a key that is present
  and appends a new one, \<^verbatim>\<open>pop\<close> and \<^verbatim>\<open>del\<close> drop the item. Lookup is \<open>map_of\<close>.
\<close>

definition dict_put :: "'k \<Rightarrow> 'v \<Rightarrow> ('k \<times> 'v) list \<Rightarrow> ('k \<times> 'v) list" where
  "dict_put k v d =
     (if k \<in> fst ` set d then map (\<lambda>(k', w). if k' = k then (k, v) else (k', w)) d else d @ [(k, v)])"

definition dict_del :: "'k \<Rightarrow> ('k \<times> 'v) list \<Rightarrow> ('k \<times> 'v) list" where
  "dict_del k d = filter (\<lambda>(k', w). k' \<noteq> k) d"

lemma map_of_dict_del [dict_simps]: "map_of (dict_del k d) = (map_of d)(k := None)"
proof
  fix x
  show "map_of (dict_del k d) x = ((map_of d)(k := None)) x"
    by (induction d) (auto simp: dict_del_def)
qed

lemma map_of_replace:
  "map_of (map (\<lambda>(k', w). if k' = k then (k, v) else (k', w)) d) x =
     (if x = k \<and> k \<in> fst ` set d then Some v else map_of d x)"
proof (induction d)
  case Nil
  then show ?case by simp
next
  case (Cons y d)
  obtain k' u where y: "y = (k', u)" by (cases y)
  show ?case
  proof (cases "k' = k")
    case True
    with Cons show ?thesis by (simp add: y)
  next
    case False
    with Cons show ?thesis by (cases "x = k"; cases "k \<in> fst ` set d") (auto simp: y)
  qed
qed

lemma map_fst_replace: "map fst (map (\<lambda>(k', w). if k' = k then (k, v) else (k', w)) d) = map fst d"
  by (induction d) auto

lemma map_of_append_new:
  assumes "k \<notin> fst ` set d"
  shows "map_of (d @ [(k, v)]) = (map_of d)(k \<mapsto> v)"
proof
  fix x
  have "map_of d k = None" using assms by (simp add: map_of_eq_None_iff)
  then show "map_of (d @ [(k, v)]) x = ((map_of d)(k \<mapsto> v)) x"
    by (cases "x = k"; cases "map_of d x") (auto simp: map_add_def)
qed

lemma map_of_dict_put [dict_simps]: "map_of (dict_put k v d) = (map_of d)(k \<mapsto> v)"
proof (cases "k \<in> fst ` set d")
  case True
  then show ?thesis by (intro ext) (simp add: dict_put_def map_of_replace)
next
  case False
  then show ?thesis unfolding dict_put_def if_not_P [OF False] by (rule map_of_append_new)
qed

lemma dict_put_keys [dict_simps]: "fst ` set (dict_put k v d) = insert k (fst ` set d)"
  using dom_map_of_conv_image_fst [of "dict_put k v d"] dom_map_of_conv_image_fst [of d]
  by (simp add: map_of_dict_put)

lemma dict_del_keys [dict_simps]: "fst ` set (dict_del k d) = fst ` set d - {k}"
  by (auto simp: dict_del_def)

lemma distinct_dict_del [dict_simps]: "distinct (map fst d) \<Longrightarrow> distinct (map fst (dict_del k d))"
  by (induction d) (auto simp: dict_del_def)

lemma distinct_dict_put [dict_simps]: "distinct (map fst d) \<Longrightarrow> distinct (map fst (dict_put k v d))"
  unfolding dict_put_def by (cases "k \<in> fst ` set d") (simp_all add: map_fst_replace del: map_map)

lemma dict_del_absent [dict_simps]: "map_of d k = None \<Longrightarrow> dict_del k d = d"
  unfolding dict_del_def by (rule filter_True) (auto simp: map_of_eq_None_iff image_iff)

text \<open>The sum of a quantity over the values of a dictionary.\<close>

definition dict_sum :: "('v \<Rightarrow> int) \<Rightarrow> ('k \<times> 'v) list \<Rightarrow> int" where
  "dict_sum f d = sum_list (map (\<lambda>(k, v). f v) d)"

lemma dict_sum_simps [simp]:
  "dict_sum f [] = 0" "dict_sum f ((k, v) # d) = f v + dict_sum f d"
  "dict_sum f (d @ d') = dict_sum f d + dict_sum f d'"
  by (simp_all add: dict_sum_def)

lemma dict_sum_del:
  "distinct (map fst d) \<Longrightarrow> map_of d k = Some v \<Longrightarrow> dict_sum f (dict_del k d) = dict_sum f d - f v"
proof (induction d)
  case Nil
  then show ?case by simp
next
  case (Cons kv d)
  obtain k' w where kv: "kv = (k', w)" by (cases kv)
  show ?case
  proof (cases "k' = k")
    case True
    have "map_of d k = None" using Cons.prems(1) True by (simp add: kv map_of_eq_None_iff)
    then have "dict_del k (kv # d) = d" using dict_del_absent [of d k] True by (simp add: kv dict_del_def)
    with True Cons.prems(2) show ?thesis by (simp add: kv)
  next
    case False
    with Cons have "dict_sum f (dict_del k d) = dict_sum f d - f v" by (simp add: kv)
    with False show ?thesis by (simp add: kv dict_del_def)
  qed
qed

lemma dict_sum_put_new: "map_of d k = None \<Longrightarrow> dict_sum f (dict_put k v d) = dict_sum f d + f v"
  by (auto simp: dict_put_def map_of_eq_None_iff image_iff)

lemma dict_sum_put_old:
  assumes "distinct (map fst d)" and "map_of d k = Some w"
  shows "dict_sum f (dict_put k v d) = dict_sum f d - f w + f v"
proof -
  have "dict_sum f (map (\<lambda>(k', u). if k' = k then (k, v) else (k', u)) d) =
      dict_sum f d - f w + f v" if "distinct (map fst d)" "map_of d k = Some w" for d
    using that
  proof (induction d)
    case Nil
    then show ?case by simp
  next
    case (Cons x d)
    obtain k' u where x: "x = (k', u)" by (cases x)
    show ?case
    proof (cases "k' = k")
      case True
      then have "map (\<lambda>(k', u). if k' = k then (k, v) else (k', u)) d = d"
        using Cons.prems(1) by (intro map_idI) (force simp: x)
      with True Cons.prems show ?thesis by (simp add: x)
    qed (use Cons in \<open>simp add: x\<close>)
  qed
  moreover have "k \<in> fst ` set d" using assms(2) by (force dest: map_of_SomeD)
  ultimately show ?thesis using assms by (simp add: dict_put_def)
qed

lemma dict_sum_nonneg: "(\<And>k v. (k, v) \<in> set d \<Longrightarrow> 0 \<le> f v) \<Longrightarrow> 0 \<le> dict_sum f d"
  by (induction d) (auto, fastforce)

end
