(* ===== verification/Py_Text.thy ===== *)
theory Py_Text
  imports Py_Hash
begin

text \<open>
  Text functions of Python's standard library that the sources call: \<^verbatim>\<open>str(int)\<close>, compact
  \<^verbatim>\<open>json.dumps\<close> of flat objects, \<^verbatim>\<open>urllib.parse.quote/unquote\<close> with \<^verbatim>\<open>safe=""\<close> and
  \<^verbatim>\<open>os.path.join\<close>. In JSON text a \<open>char\<close> is a code point below 256; in file names a
  \<open>string\<close> is the UTF-8 byte string that the operating system sees.
\<close>

section \<open>Decimal integers\<close>

fun nat_str :: "nat \<Rightarrow> string" where
  "nat_str n = (if n < 10 then [] else nat_str (n div 10)) @ [char_of (48 + n mod 10)]"

declare nat_str.simps [simp del]

definition int_str :: "int \<Rightarrow> string" where
  "int_str i = (if i < 0 then ''-'' @ nat_str (nat (- i)) else nat_str (nat i))"

lemma nat_str_nonempty [simp]: "nat_str n \<noteq> []"
  by (subst nat_str.simps) simp

section \<open>Compact JSON\<close>

definition json_escape_char :: "char \<Rightarrow> string" where
  "json_escape_char c =
     (let n = of_char c :: nat in
      if c = CHR 0x22 then [CHR 0x5C, CHR 0x22]
      else if c = CHR 0x5C then [CHR 0x5C, CHR 0x5C]
      else if n = 10 then [CHR 0x5C, CHR ''n'']
      else if n = 13 then [CHR 0x5C, CHR ''r'']
      else if n = 9 then [CHR 0x5C, CHR ''t'']
      else if n = 12 then [CHR 0x5C, CHR ''f'']
      else if n = 8 then [CHR 0x5C, CHR ''b'']
      else if n < 32 \<or> 126 < n then [CHR 0x5C, CHR ''u''] @ hex_word 4 n
      else [c])"

definition json_str :: "string \<Rightarrow> string" where
  "json_str s = [CHR 0x22] @ concat (map json_escape_char s) @ [CHR 0x22]"

datatype json = JInt int | JStr string | JList "json list" | JObj "(string \<times> json) list"

fun join_with :: "string \<Rightarrow> string list \<Rightarrow> string" where
  "join_with sep [] = []"
| "join_with sep [x] = x"
| "join_with sep (x # y # ys) = x @ sep @ join_with sep (y # ys)"

text \<open>\<^verbatim>\<open>json.dumps(v, separators=(",", ":"))\<close>; the callers list object fields in key order.\<close>

fun json_dumps :: "json \<Rightarrow> string" where
  "json_dumps (JInt i) = int_str i"
| "json_dumps (JStr s) = json_str s"
| "json_dumps (JList vs) = ''['' @ join_with '','' (map json_dumps vs) @ '']''"
| "json_dumps (JObj kvs) =
     ''{'' @ join_with '','' (map (\<lambda>(k, v). json_str k @ '':'' @ json_dumps v) kvs) @ ''}''"

section \<open>Percent encoding\<close>

definition quote_safe :: "char \<Rightarrow> bool" where
  "quote_safe c \<longleftrightarrow>
     (let n = of_char c :: nat in
      (48 \<le> n \<and> n \<le> 57) \<or> (65 \<le> n \<and> n \<le> 90) \<or> (97 \<le> n \<and> n \<le> 122) \<or>
      c \<in> {CHR ''_'', CHR ''.'', CHR ''-'', CHR ''~''})"

definition hex_upper :: "nat \<Rightarrow> char" where
  "hex_upper n = ''0123456789ABCDEF'' ! (n mod 16)"

definition hex_digit_value :: "char \<Rightarrow> nat option" where
  "hex_digit_value c =
     (let n = of_char c :: nat in
      if 48 \<le> n \<and> n \<le> 57 then Some (n - 48)
      else if 65 \<le> n \<and> n \<le> 70 then Some (n - 55)
      else if 97 \<le> n \<and> n \<le> 102 then Some (n - 87)
      else None)"

fun quote :: "string \<Rightarrow> string" where
  "quote [] = []"
| "quote (c # cs) =
     (if quote_safe c then [c]
      else let n = of_char c :: nat in [CHR ''%'', hex_upper (n div 16), hex_upper n]) @ quote cs"

fun unquote :: "string \<Rightarrow> string" where
  "unquote [] = []"
| "unquote (c # a # b # cs) =
     (if c = CHR ''%'' then
        (case (hex_digit_value a, hex_digit_value b) of
           (Some x, Some y) \<Rightarrow> char_of (16 * x + y) # unquote cs
         | _ \<Rightarrow> c # unquote (a # b # cs))
      else c # unquote (a # b # cs))"
| "unquote (c # cs) = c # unquote cs"

lemma hex_upper_value: "n < 16 \<Longrightarrow> hex_digit_value (hex_upper n) = Some n"
proof -
  assume "n < 16"
  then have "n \<in> set [0..<16]" by simp
  then show ?thesis
    by (auto simp: upt_conv_Cons hex_upper_def hex_digit_value_def)
qed

lemma hex_upper_mod: "hex_upper (n mod 16) = hex_upper n"
  by (simp add: hex_upper_def)

lemma quote_safe_not_percent: "quote_safe c \<Longrightarrow> c \<noteq> CHR ''%''"
  by (auto simp: quote_safe_def Let_def)

lemma unquote_Cons_other: "c \<noteq> CHR ''%'' \<Longrightarrow> unquote (c # cs) = c # unquote cs"
  by (cases "c # cs" rule: unquote.cases) auto

text \<open>Every string survives quoting: no key is rejected and no two keys share a file name.\<close>

lemma unquote_quote [simp]: "unquote (quote s) = s"
proof (induction s)
  case Nil
  then show ?case by simp
next
  case (Cons c cs)
  show ?case
  proof (cases "quote_safe c")
    case True
    with Cons quote_safe_not_percent [OF True] show ?thesis by (simp add: unquote_Cons_other)
  next
    case False
    define n where "n = (of_char c :: nat)"
    have n: "n < 256" unfolding n_def by (rule nat_of_char_less_256)
    have hi: "hex_digit_value (hex_upper (n div 16)) = Some (n div 16)"
      by (rule hex_upper_value) (use n in simp)
    have lo: "hex_digit_value (hex_upper n) = Some (n mod 16)"
      using hex_upper_value [of "n mod 16"] by (simp add: hex_upper_mod)
    have c: "char_of n = c" by (simp add: n_def)
    from False Cons.IH hi lo c show ?thesis by (simp add: n_def [symmetric])
  qed
qed

lemma quote_inject [simp]: "quote s = quote t \<longleftrightarrow> s = t"
  by (metis unquote_quote)

lemma hex_upper_no_slash: "hex_upper n \<noteq> CHR ''/''"
proof -
  have "n mod 16 \<in> set [0..<16]" by simp
  then show ?thesis by (auto simp: upt_conv_Cons hex_upper_def)
qed

lemma quote_no_slash: "CHR ''/'' \<notin> set (quote s)"
proof (induction s)
  case Nil
  then show ?case by simp
next
  case (Cons c cs)
  have "quote_safe c \<Longrightarrow> c \<noteq> CHR ''/''" by (auto simp: quote_safe_def Let_def)
  with Cons show ?case by (auto simp: Let_def hex_upper_no_slash [symmetric])
qed

section \<open>Paths\<close>

definition path_join :: "string \<Rightarrow> string \<Rightarrow> string" where
  "path_join a b =
     (if b \<noteq> [] \<and> hd b = CHR ''/'' then b
      else if a = [] \<or> last a = CHR ''/'' then a @ b
      else a @ ''/'' @ b)"

definition ends_with :: "string \<Rightarrow> string \<Rightarrow> bool" where
  "ends_with s suf \<longleftrightarrow> length suf \<le> length s \<and> drop (length s - length suf) s = suf"

lemma ends_with_append [simp]: "ends_with (s @ suf) suf"
  by (simp add: ends_with_def)

text \<open>The text after the last slash.\<close>

definition basename :: "string \<Rightarrow> string" where
  "basename p = rev (takeWhile (\<lambda>c. c \<noteq> CHR ''/'') (rev p))"

lemma basename_no_slash_append:
  assumes "CHR ''/'' \<notin> set f"
  shows "basename (d @ ''/'' @ f) = f"
proof -
  have "takeWhile (\<lambda>c. c \<noteq> CHR ''/'') (rev f @ CHR ''/'' # rev d) = rev f"
    using assms by (subst takeWhile_append2) auto
  then show ?thesis by (simp add: basename_def)
qed

lemma basename_path_join:
  assumes "CHR ''/'' \<notin> set f" and "d \<noteq> []"
  shows "basename (path_join d f) = f"
proof (cases "last d = CHR ''/''")
  case True
  with assms(2) obtain d' where "d = d' @ ''/''" by (metis append_butlast_last_id)
  moreover have "\<not> (f \<noteq> [] \<and> hd f = CHR ''/'')" using assms(1) by (cases f) auto
  ultimately show ?thesis
    using basename_no_slash_append [OF assms(1), of d'] by (auto simp: path_join_def)
next
  case False
  moreover have "\<not> (f \<noteq> [] \<and> hd f = CHR ''/'')" using assms(1) by (cases f) auto
  ultimately show ?thesis
    using basename_no_slash_append [OF assms(1), of d] assms(2) by (auto simp: path_join_def)
qed

end
