(* ===== verification/Disk_Layout.thy ===== *)
theory Disk_Layout
  imports Py_Text
begin

text \<open>
  The versioned block-first disk layout (\<^verbatim>\<open>storage_backend/block_first_disk.py\<close>): alignment,
  the shape of the physical payload, the conversions between the logical \<^verbatim>\<open>[2, NL, T, D]\<close> chunk
  and the physical \<^verbatim>\<open>[CB, NL, 2, BS, D]\<close> payload, and the self-describing metadata with its
  creation and validation. PyTorch is not part of the sources: a data type is an element of a type
  parameter, and what the code asks torch about it is the argument \<open>torch_api\<close>.
\<close>

section \<open>Torch values\<close>

record torch_device =
  dev_type :: string
  dev_index :: "int option"

definition device_str :: "torch_device \<Rightarrow> string" where
  "device_str d = dev_type d @ (case dev_index d of None \<Rightarrow> [] | Some i \<Rightarrow> '':'' @ int_str i)"

text \<open>
  \<^verbatim>\<open>str(dtype)\<close>, \<^verbatim>\<open>getattr(torch, name)\<close> restricted to data types, and \<^verbatim>\<open>itemsize\<close>.
  \<open>torch_api_ok\<close> is what torch documents of them: a data type prints as \<^verbatim>\<open>torch.<name>\<close>, is the
  attribute of that name, and has a positive element size.
\<close>

record 'd torch_api =
  dtype_repr :: "'d \<Rightarrow> string"
  torch_getattr :: "string \<Rightarrow> 'd option"
  itemsize :: "'d \<Rightarrow> int"

definition torch_api_ok :: "'d torch_api \<Rightarrow> bool" where
  "torch_api_ok T \<longleftrightarrow>
     (\<forall>d. (\<exists>n. dtype_repr T d = ''torch.'' @ n \<and> torch_getattr T n = Some d) \<and> 0 < itemsize T d)"

record ('a, 'd) tensor =
  t_shape :: "int list"
  t_data :: "'a list"
  t_contiguous :: bool
  t_dtype :: 'd
  t_device :: torch_device

section \<open>Constants and alignment\<close>

definition BLOCK_FIRST_ALIGNMENT :: int where "BLOCK_FIRST_ALIGNMENT = 4096"
definition BLOCK_FIRST_HEADER_SIZE :: int where "BLOCK_FIRST_HEADER_SIZE = 4096"
definition BLOCK_FIRST_LAYOUT :: string where "BLOCK_FIRST_LAYOUT = ''block_first_v1''"
definition BLOCK_FIRST_VERSION :: int where "BLOCK_FIRST_VERSION = 1"

definition align_up :: "int \<Rightarrow> int \<Rightarrow> int res" where
  "align_up sz alignment =
     (if sz < 0 then Inl (BlockFirstFormatError ''size must be non-negative'')
      else if alignment \<le> 0 then Inl (BlockFirstFormatError ''alignment must be positive'')
      else Inr ((sz + alignment - 1) div alignment * alignment))"

lemma ceil_mult_bounds:
  fixes s a :: int
  assumes "0 < a"
  shows "s \<le> (s + a - 1) div a * a" and "(s + a - 1) div a * a < s + a"
    and "a dvd (s + a - 1) div a * a"
proof -
  have "(s + a - 1) div a * a = (s + a - 1) - (s + a - 1) mod a"
    by (simp add: minus_mod_eq_div_mult [symmetric])
  moreover have "0 \<le> (s + a - 1) mod a" and "(s + a - 1) mod a < a"
    using assms by simp_all
  ultimately show "s \<le> (s + a - 1) div a * a" and "(s + a - 1) div a * a < s + a" by linarith+
  show "a dvd (s + a - 1) div a * a" by simp
qed

text \<open>Two multiples of \<open>a\<close> that are less than \<open>a\<close> apart are in order.\<close>

lemma dvd_less_add_le:
  fixes a m n :: int
  assumes "0 < a" and "a dvd m" and "a dvd n" and "n < m + a"
  shows "n \<le> m"
proof -
  from assms(2,3) obtain j k where jk: "m = a * j" "n = a * k" by (auto elim!: dvdE)
  from assms(4) have "a * k < a * (j + 1)" by (simp add: jk algebra_simps)
  with assms(1) have "k \<le> j" by simp
  with assms(1) show ?thesis by (simp add: jk)
qed

lemma align_up_Inr:
  "align_up s a = Inr r \<longleftrightarrow> 0 \<le> s \<and> 0 < a \<and> r = (s + a - 1) div a * a"
  by (auto simp: align_up_def)

lemma align_up_exact: "0 \<le> s \<Longrightarrow> 0 < a \<Longrightarrow> a dvd s \<Longrightarrow> align_up s a = Inr s"
  using ceil_mult_bounds [of a s] dvd_less_add_le [of a s "(s + a - 1) div a * a"]
  by (simp add: align_up_Inr order_antisym)

text \<open>
  \<open>align_up\<close> fails exactly on a negative size or a non-positive alignment; otherwise its result
  is the least multiple of the alignment that is not below the size, so less than one alignment unit
  of padding is written and an aligned size is left alone.
\<close>

theorem align_up_least:
  "case align_up s a of
     Inl e \<Rightarrow> s < 0 \<or> a \<le> 0
   | Inr r \<Rightarrow> 0 \<le> s \<and> 0 < a \<and> a dvd r \<and> s \<le> r \<and> r < s + a \<and> {m. a dvd m \<and> s \<le> m \<and> m < r} = {}"
proof (cases "s < 0 \<or> a \<le> 0")
  case True
  then show ?thesis by (auto simp: align_up_def)
next
  case False
  then have pos: "0 < a" and s: "0 \<le> s" by auto
  define r where "r = (s + a - 1) div a * a"
  have r: "align_up s a = Inr r" using pos s by (simp add: align_up_Inr r_def)
  have b: "s \<le> r" "r < s + a" "a dvd r" using ceil_mult_bounds [OF pos, of s] by (simp_all add: r_def)
  have "r \<le> m" if "a dvd m" and "s \<le> m" for m
    by (rule dvd_less_add_le [OF pos that(1) b(3)]) (use that(2) b(2) in simp)
  then show ?thesis using r b pos s by force
qed

section \<open>The physical shape\<close>

fun block_first_shape :: "int list \<Rightarrow> int \<Rightarrow> (int list) res" where
  "block_first_shape [two, num_layers, num_tokens, hidden_dim] block_size =
     (if two \<noteq> 2 then Inl (BlockFirstFormatError ''logical KV shape must be [2, NL, T, D]'')
      else if \<exists>d \<in> set [two, num_layers, num_tokens, hidden_dim]. d \<le> 0
        then Inl (BlockFirstFormatError ''logical KV dimensions must be positive'')
      else if block_size \<le> 0 then Inl (BlockFirstFormatError ''block_size must be positive'')
      else if num_tokens mod block_size \<noteq> 0
        then Inl (BlockFirstFormatError ''token count is not divisible by block size'')
      else Inr [num_tokens div block_size, num_layers, 2, block_size, hidden_dim])"
| "block_first_shape _ _ = Inl (BlockFirstFormatError ''logical KV shape must be [2, NL, T, D]'')"

lemma block_first_shape_Inr:
  "block_first_shape sh bs = Inr ps \<longleftrightarrow>
     (\<exists>nl t d. sh = [2, nl, t, d] \<and> 0 < nl \<and> 0 < t \<and> 0 < d \<and> 0 < bs \<and> bs dvd t \<and>
        ps = [t div bs, nl, 2, bs, d])"
  by (cases "(sh, bs)" rule: block_first_shape.cases)
     (auto simp: dvd_eq_mod_eq_0 not_le split: if_splits)

lemma block_first_shape_prod:
  "block_first_shape sh bs = Inr ps \<Longrightarrow> prod_list ps = prod_list sh"
  by (auto simp: block_first_shape_Inr elim!: dvdE)

section \<open>Layout conversion\<close>

text \<open>
  \<open>enum n f\<close> lists \<open>f 0, \<dots>, f (n - 1)\<close> one after the other: nested, it is the row-major order of a
  tensor. \<^verbatim>\<open>logical.view(2, NL, NB, BS, D).permute(2, 1, 0, 3, 4)\<close> copied into a contiguous
  tensor is the enumeration of the permuted coordinates.
\<close>

definition enum :: "nat \<Rightarrow> (nat \<Rightarrow> 'a list) \<Rightarrow> 'a list" where
  "enum n f = concat (map f [0..<n])"

definition index5 :: "nat \<Rightarrow> nat \<Rightarrow> nat \<Rightarrow> nat \<Rightarrow> nat \<Rightarrow> nat \<Rightarrow> nat \<Rightarrow> nat \<Rightarrow> nat \<Rightarrow> nat" where
  "index5 n2 n3 n4 n5 i1 i2 i3 i4 i5 = (((i1 * n2 + i2) * n3 + i3) * n4 + i4) * n5 + i5"

definition permute_view :: "nat \<Rightarrow> nat \<Rightarrow> nat \<Rightarrow> nat \<Rightarrow> nat \<Rightarrow> 'a list \<Rightarrow> 'a list" where
  "permute_view n1 n2 n3 n4 n5 xs =
     enum n3 (\<lambda>i3. enum n2 (\<lambda>i2. enum n1 (\<lambda>i1. enum n4 (\<lambda>i4.
       map (\<lambda>i5. xs ! index5 n2 n3 n4 n5 i1 i2 i3 i4 i5) [0..<n5]))))"

definition logical_to_block_first ::
    "('a, 'd) tensor \<Rightarrow> int \<Rightarrow> ('a, 'd) tensor option \<Rightarrow> (('a, 'd) tensor) res" where
  "logical_to_block_first logical block_size out =
     (case block_first_shape (t_shape logical) block_size of
        Inl e \<Rightarrow> Inl e
      | Inr target_shape \<Rightarrow>
          if \<not> t_contiguous logical
            then Inl (BlockFirstFormatError ''logical KV tensor must be contiguous'')
          else
            let out' = (case out of Some o' \<Rightarrow> o' | None \<Rightarrow>
                  logical\<lparr>t_shape := target_shape, t_data := [], t_contiguous := True\<rparr>) in
            if t_shape out' \<noteq> target_shape
              then Inl (BlockFirstFormatError ''block-first output shape mismatch'')
            else if t_dtype out' \<noteq> t_dtype logical \<or> t_device out' \<noteq> t_device logical
              then Inl (BlockFirstFormatError
                ''block-first output must have the same dtype and device as the input'')
            else
              let nb = nat (target_shape ! 0); nl = nat (target_shape ! 1); d = nat (target_shape ! 4)
              in Inr (out'\<lparr>t_data := permute_view 2 nl nb (nat block_size) d (t_data logical)\<rparr>))"

text \<open>
  \<open>block_first_to_logical\<close> for a contiguous output tensor, such as that of a memory object; the error of
  \<^verbatim>\<open>view\<close> on another one is not modelled.
\<close>

definition block_first_to_logical ::
    "('a, 'd) tensor \<Rightarrow> ('a, 'd) tensor option \<Rightarrow> (('a, 'd) tensor) res" where
  "block_first_to_logical physical out =
     (case t_shape physical of
        [num_blocks, num_layers, two, block_size, hidden_dim] \<Rightarrow>
          if two \<noteq> 2 then Inl (BlockFirstFormatError ''block-first KV shape must be [CB, NL, 2, BS, D]'')
          else if \<not> t_contiguous physical
            then Inl (BlockFirstFormatError ''block-first KV tensor must be contiguous'')
          else
            let logical_shape = [2, num_layers, num_blocks * block_size, hidden_dim];
                out' = (case out of Some o' \<Rightarrow> o' | None \<Rightarrow>
                  physical\<lparr>t_shape := logical_shape, t_data := [], t_contiguous := True\<rparr>) in
            if t_shape out' \<noteq> logical_shape
              then Inl (BlockFirstFormatError ''logical output shape mismatch'')
            else if t_dtype out' \<noteq> t_dtype physical \<or> t_device out' \<noteq> t_device physical
              then Inl (BlockFirstFormatError
                ''logical output must have the same dtype and device as the input'')
            else Inr (out'\<lparr>t_data := permute_view (nat num_blocks) (nat num_layers) 2
                   (nat block_size) (nat hidden_dim) (t_data physical)\<rparr>)
      | _ \<Rightarrow> Inl (BlockFirstFormatError ''block-first KV shape must be [CB, NL, 2, BS, D]''))"

lemma enum_cong: "n = m \<Longrightarrow> (\<And>i. i < m \<Longrightarrow> f i = g i) \<Longrightarrow> enum n f = enum m g"
  by (auto simp: enum_def intro!: arg_cong [where f = concat])

lemma length_enum: "(\<And>i. i < n \<Longrightarrow> length (f i) = w) \<Longrightarrow> length (enum n f) = n * w"
  using length_concat_uniform [of "map f [0..<n]" w] by (simp add: enum_def)

lemma nth_enum:
  assumes "\<And>i. i < n \<Longrightarrow> length (f i) = w" and "i < n" and "r < w"
  shows "enum n f ! (i * w + r) = f i ! r"
  using concat_uniform_nth [of "map f [0..<n]" w i r] assms by (simp add: enum_def)

lemma enum_flatten: "enum n (\<lambda>i. map (\<lambda>r. g (i * w + r)) [0..<w]) = map g [0..<n * w]"
proof (induction n)
  case 0
  then show ?case by (simp add: enum_def)
next
  case (Suc n)
  have split: "[0..<n * w] @ map (\<lambda>r. n * w + r) [0..<w] = [0..<Suc n * w]"
    using upt_add_eq_append [of 0 "n * w" w] map_add_upt [of "n * w" w]
    by (simp add: add.commute)
  have "enum (Suc n) (\<lambda>i. map (\<lambda>r. g (i * w + r)) [0..<w]) =
      map g [0..<n * w] @ map g (map (\<lambda>r. n * w + r) [0..<w])"
    using Suc by (simp add: enum_def)
  also have "\<dots> = map g [0..<Suc n * w]"
    by (simp only: map_append [symmetric] split)
  finally show ?case .
qed

text \<open>Enumerating all coordinates in row-major order lists the tensor's own elements.\<close>

lemma enum5_flatten:
  "enum n1 (\<lambda>i1. enum n2 (\<lambda>i2. enum n3 (\<lambda>i3. enum n4 (\<lambda>i4.
      map (\<lambda>i5. g (index5 n2 n3 n4 n5 i1 i2 i3 i4 i5)) [0..<n5])))) =
   map g [0..<n1 * (n2 * (n3 * (n4 * n5)))]"
proof -
  have 1: "enum n4 (\<lambda>i4. map (\<lambda>i5. g (index5 n2 n3 n4 n5 i1 i2 i3 i4 i5)) [0..<n5]) =
      map (\<lambda>r. g (((i1 * n2 + i2) * n3 + i3) * (n4 * n5) + r)) [0..<n4 * n5]" for i1 i2 i3
    using enum_flatten [of n4 "\<lambda>r. g (((i1 * n2 + i2) * n3 + i3) * (n4 * n5) + r)" n5]
    by (simp add: index5_def algebra_simps)
  have 2: "enum n3 (\<lambda>i3. map (\<lambda>r. g (((i1 * n2 + i2) * n3 + i3) * (n4 * n5) + r)) [0..<n4 * n5]) =
      map (\<lambda>r. g ((i1 * n2 + i2) * (n3 * (n4 * n5)) + r)) [0..<n3 * (n4 * n5)]" for i1 i2
    using enum_flatten [of n3 "\<lambda>r. g ((i1 * n2 + i2) * (n3 * (n4 * n5)) + r)" "n4 * n5"]
    by (simp add: algebra_simps)
  have 3: "enum n2 (\<lambda>i2. map (\<lambda>r. g ((i1 * n2 + i2) * (n3 * (n4 * n5)) + r)) [0..<n3 * (n4 * n5)]) =
      map (\<lambda>r. g (i1 * (n2 * (n3 * (n4 * n5))) + r)) [0..<n2 * (n3 * (n4 * n5))]" for i1
    using enum_flatten [of n2 "\<lambda>r. g (i1 * (n2 * (n3 * (n4 * n5))) + r)" "n3 * (n4 * n5)"]
    by (simp add: algebra_simps)
  show ?thesis
    unfolding 1 2 3 by (rule enum_flatten)
qed

lemma length_permute_view: "length (permute_view n1 n2 n3 n4 n5 xs) = n3 * (n2 * (n1 * (n4 * n5)))"
  unfolding permute_view_def
  by (intro length_enum) simp

lemma nth_permute_view:
  assumes "i1 < n1" and "i2 < n2" and "i3 < n3" and "i4 < n4" and "i5 < n5"
  shows "permute_view n1 n2 n3 n4 n5 xs ! index5 n2 n1 n4 n5 i3 i2 i1 i4 i5 =
    xs ! index5 n2 n3 n4 n5 i1 i2 i3 i4 i5"
proof -
  let ?e5 = "\<lambda>i3 i2 i1 i4. map (\<lambda>i5. xs ! index5 n2 n3 n4 n5 i1 i2 i3 i4 i5) [0..<n5]"
  let ?e4 = "\<lambda>i3 i2 i1. enum n4 (?e5 i3 i2 i1)"
  let ?e3 = "\<lambda>i3 i2. enum n1 (?e4 i3 i2)"
  let ?e2 = "\<lambda>i3. enum n2 (?e3 i3)"
  have l4: "length (?e4 i3 i2 i1) = n4 * n5" for i3 i2 i1 by (rule length_enum) simp
  have l3: "length (?e3 i3 i2) = n1 * (n4 * n5)" for i3 i2 by (rule length_enum) (rule l4)
  have l2: "length (?e2 i3) = n2 * (n1 * (n4 * n5))" for i3 by (rule length_enum) (rule l3)
  have mono: "i * w + r < n * w" if "i < n" and "r < w" for i n r w :: nat
    using that by (metis add.commute add_less_cancel_left less_le_trans mult.commute mult_Suc_right
        mult_le_mono2 Suc_leI)
  define r4 where "r4 = i4 * n5 + i5"
  define r3 where "r3 = i1 * (n4 * n5) + r4"
  define r2 where "r2 = i2 * (n1 * (n4 * n5)) + r3"
  have b4: "r4 < n4 * n5" unfolding r4_def by (rule mono) (use assms in auto)
  have b3: "r3 < n1 * (n4 * n5)" unfolding r3_def by (rule mono) (use assms b4 in auto)
  have b2: "r2 < n2 * (n1 * (n4 * n5))" unfolding r2_def by (rule mono) (use assms b3 in auto)
  have "index5 n2 n1 n4 n5 i3 i2 i1 i4 i5 = i3 * (n2 * (n1 * (n4 * n5))) + r2"
    by (simp add: index5_def r2_def r3_def r4_def algebra_simps)
  then have "permute_view n1 n2 n3 n4 n5 xs ! index5 n2 n1 n4 n5 i3 i2 i1 i4 i5 = ?e2 i3 ! r2"
    unfolding permute_view_def using nth_enum [of n3 ?e2, OF l2 assms(3) b2] by simp
  also have "\<dots> = ?e3 i3 i2 ! r3"
    unfolding r2_def by (rule nth_enum [OF l3 assms(2) b3])
  also have "\<dots> = ?e4 i3 i2 i1 ! r4"
    unfolding r3_def by (rule nth_enum [OF l4 assms(1) b4])
  also have "\<dots> = ?e5 i3 i2 i1 i4 ! i5"
    unfolding r4_def by (rule nth_enum [OF _ assms(4,5)]) simp
  finally show ?thesis using assms(5) by simp
qed

lemma permute_view_inverse:
  assumes "length xs = n1 * (n2 * (n3 * (n4 * n5)))"
  shows "permute_view n3 n2 n1 n4 n5 (permute_view n1 n2 n3 n4 n5 xs) = xs"
proof -
  have "permute_view n3 n2 n1 n4 n5 (permute_view n1 n2 n3 n4 n5 xs) =
    enum n1 (\<lambda>i1. enum n2 (\<lambda>i2. enum n3 (\<lambda>i3. enum n4 (\<lambda>i4.
      map (\<lambda>i5. xs ! index5 n2 n3 n4 n5 i1 i2 i3 i4 i5) [0..<n5]))))"
    unfolding permute_view_def [of n3 n2 n1]
    by (intro enum_cong refl map_cong) (auto intro: nth_permute_view)
  also have "\<dots> = map (\<lambda>i. xs ! i) [0..<length xs]"
    unfolding assms by (rule enum5_flatten)
  finally show ?thesis by (simp add: map_nth)
qed

text \<open>A tensor holds as many elements as its shape says.\<close>

definition tensor_wf :: "('a, 'd) tensor \<Rightarrow> bool" where
  "tensor_wf t \<longleftrightarrow> int (length (t_data t)) = prod_list (t_shape t) \<and> (\<forall>d \<in> set (t_shape t). 0 \<le> d)"

lemma logical_to_block_first_None:
  assumes "block_first_shape (t_shape x) bs = Inr ps" and "t_contiguous x"
  shows "logical_to_block_first x bs None =
    Inr (x\<lparr>t_shape := ps, t_data := permute_view 2 (nat (ps ! 1)) (nat (ps ! 0)) (nat bs)
      (nat (ps ! 4)) (t_data x)\<rparr>)"
  using assms by (simp add: logical_to_block_first_def Let_def)

text \<open>
  C36: A complete chunk survives the trip to disk layout and back. For every contiguous chunk whose
  shape the layout accepts, the conversion to block-first form succeeds and converting its result
  back returns the chunk itself, element for element.
\<close>

theorem block_first_roundtrip:
  assumes "tensor_wf x" and "t_contiguous x" and "block_first_shape (t_shape x) bs = Inr ps"
  shows "\<exists>p. logical_to_block_first x bs None = Inr p \<and> tensor_wf p \<and> t_shape p = ps \<and>
    block_first_to_logical p None = Inr x"
proof -
  obtain nl t d where sh: "t_shape x = [2, nl, t, d]" "0 < nl" "0 < t" "0 < d" "0 < bs"
      and dvd: "bs dvd t" and ps: "ps = [t div bs, nl, 2, bs, d]"
    using assms(3) by (auto simp: block_first_shape_Inr)
  define nb where "nb = t div bs"
  have t: "t = nb * bs" and nb: "0 \<le> nb"
    using dvd sh by (auto simp: nb_def pos_imp_zdiv_nonneg_iff)
  let ?p = "permute_view 2 (nat nl) (nat nb) (nat bs) (nat d) (t_data x)"
  have len: "length (t_data x) = 2 * (nat nl * (nat nb * (nat bs * nat d)))"
  proof -
    have "int (length (t_data x)) = 2 * (nl * (nb * (bs * d)))"
      using assms(1) sh t by (simp add: tensor_wf_def)
    also have "\<dots> = int (2 * (nat nl * (nat nb * (nat bs * nat d))))"
      using sh nb by simp
    finally show ?thesis by (simp only: of_nat_eq_iff)
  qed
  have fwd: "logical_to_block_first x bs None = Inr (x\<lparr>t_shape := ps, t_data := ?p\<rparr>)"
    using logical_to_block_first_None [OF assms(3,2)] by (simp add: ps nb_def)
  have wf: "tensor_wf (x\<lparr>t_shape := ps, t_data := ?p\<rparr>)"
    using sh nb by (simp add: tensor_wf_def ps length_permute_view nb_def [symmetric] algebra_simps)
  have "block_first_to_logical (x\<lparr>t_shape := ps, t_data := ?p\<rparr>) None =
      Inr (x\<lparr>t_shape := [2, nl, nb * bs, d], t_data := t_data x\<rparr>)"
    using assms(2) permute_view_inverse [OF len]
    by (simp add: block_first_to_logical_def ps nb_def [symmetric] Let_def)
  with fwd wf sh t show ?thesis by auto
qed

theorem block_first_roundtrip_witness:
  "\<exists>p. logical_to_block_first
      \<lparr>t_shape = [2, 1, 4, 1], t_data = [10, 11, 12, 13, 20, 21, 22, 23 :: nat], t_contiguous = True,
       t_dtype = (), t_device = \<lparr>dev_type = ''cpu'', dev_index = None\<rparr>\<rparr> 2 None = Inr p \<and> tensor_wf p \<and>
    t_shape p = [2, 1, 2, 2, 1] \<and>
    block_first_to_logical p None = Inr
      \<lparr>t_shape = [2, 1, 4, 1], t_data = [10, 11, 12, 13, 20, 21, 22, 23], t_contiguous = True,
       t_dtype = (), t_device = \<lparr>dev_type = ''cpu'', dev_index = None\<rparr>\<rparr>"
  by (rule block_first_roundtrip) (simp_all add: tensor_wf_def)

text \<open>
  In the block-first file the element of key/value \<open>k\<close>, layer \<open>l\<close>, token \<open>b * BS + t\<close> and hidden
  coordinate \<open>d\<close> lies at the row-major position \<open>[b, l, k, t, d]\<close>: all layers of one token block are
  contiguous, which is what lets a block be transferred as one byte range.
\<close>

theorem logical_to_block_first_coordinates:
  assumes "logical_to_block_first x bs None = Inr p"
    and "t_shape x = [2, int nl, int (nb * tb), int nd]" and "bs = int tb"
    and "k < 2" and "l < nl" and "b < nb" and "t < tb" and "d < nd"
  shows "t_data p ! index5 nl 2 tb nd b l k t d = t_data x ! ((k * nl + l) * (nb * tb) * nd + (b * tb + t) * nd + d)"
proof -
  obtain ps where ps: "block_first_shape (t_shape x) bs = Inr ps" and c: "t_contiguous x"
    using assms(1) by (auto simp: logical_to_block_first_def split: sum.splits if_splits)
  have ps': "ps = [int nb, int nl, 2, bs, int nd]"
    using ps assms(2,3,7) by (auto split: if_splits)
  have "t_data p = permute_view 2 nl nb tb nd (t_data x)"
    using assms(1) logical_to_block_first_None [OF ps c] assms(3) by (auto simp: ps')
  then have "t_data p ! index5 nl 2 tb nd b l k t d = t_data x ! index5 nl nb tb nd k l b t d"
    using assms(4-8) by (simp add: nth_permute_view)
  then show ?thesis by (simp add: index5_def algebra_simps)
qed

theorem logical_to_block_first_coordinates_witness:
  "\<exists>p. logical_to_block_first
      \<lparr>t_shape = [2, 1, 4, 1], t_data = [10, 11, 12, 13, 20, 21, 22, 23 :: nat], t_contiguous = True,
       t_dtype = (), t_device = \<lparr>dev_type = ''cpu'', dev_index = None\<rparr>\<rparr> 2 None = Inr p \<and>
     t_data p ! 6 = 22"
proof -
  let ?x = "\<lparr>t_shape = [2, 1, 4, 1], t_data = [10, 11, 12, 13, 20, 21, 22, 23 :: nat],
    t_contiguous = True, t_dtype = (), t_device = \<lparr>dev_type = ''cpu'', dev_index = None\<rparr>\<rparr>"
  obtain p where p: "logical_to_block_first ?x 2 None = Inr p"
    by (simp add: logical_to_block_first_def)
  have sh: "t_shape ?x = [2, int 1, int (2 * 2), int 1]" by simp
  have "t_data p ! index5 1 2 2 1 1 0 1 0 0 = t_data ?x ! ((1 * 1 + 0) * (2 * 2) * 1 + (1 * 2 + 0) * 1 + 0)"
    by (rule logical_to_block_first_coordinates [OF p sh]) simp_all
  with p show ?thesis by (simp add: index5_def)
qed

end
