(* ===== verification/Disk_Metadata.thy ===== *)
theory Disk_Metadata
  imports Disk_Layout
begin

text \<open>
  \<^verbatim>\<open>BlockFirstDiskMetadata\<close> of \<^verbatim>\<open>storage_backend/block_first_disk.py\<close>: the layout signature, the
  creation of the metadata of a chunk, its validation and its comparison with the running engine.
\<close>

section \<open>Data types by name\<close>

definition dtype_name :: "'d torch_api \<Rightarrow> 'd \<Rightarrow> string res" where
  "dtype_name T d =
     (let name = dtype_repr T d in
      if take 6 name \<noteq> ''torch.''
        then Inl (BlockFirstFormatError ''Unsupported dtype representation'')
      else Inr (drop 6 name))"

definition parse_dtype :: "'d torch_api \<Rightarrow> string \<Rightarrow> 'd res" where
  "parse_dtype T name =
     (case torch_getattr T name of
        None \<Rightarrow> Inl (BlockFirstFormatError ''Unsupported dtype name'')
      | Some d \<Rightarrow> Inr d)"

lemma dtype_name_parse:
  assumes "torch_api_ok T"
  shows "\<exists>n. dtype_name T d = Inr n \<and> parse_dtype T n = Inr d"
proof -
  obtain n where "dtype_repr T d = ''torch.'' @ n" "torch_getattr T n = Some d"
    using assms by (auto simp: torch_api_ok_def)
  then show ?thesis by (simp add: dtype_name_def parse_dtype_def)
qed

section \<open>The layout signature\<close>

definition make_layout_signature ::
    "'d torch_api \<Rightarrow> string \<Rightarrow> int \<Rightarrow> int \<Rightarrow> int \<Rightarrow> int \<Rightarrow> int \<Rightarrow> int \<Rightarrow> int \<Rightarrow> 'd \<Rightarrow> string res" where
  "make_layout_signature T model_name world_size worker_id tensor_parallel_size
       pipeline_parallel_size num_layers block_size hidden_dim dtype =
     (case dtype_name T dtype of
        Inl e \<Rightarrow> Inl e
      | Inr name \<Rightarrow>
          Inr (sha256_hexdigest (map byte_of_char (json_dumps (JObj
            [(''block_size'', JInt block_size), (''dtype'', JStr name),
             (''hidden_dim'', JInt hidden_dim), (''layout'', JStr BLOCK_FIRST_LAYOUT),
             (''model_name'', JStr model_name), (''num_layers'', JInt num_layers),
             (''pipeline_parallel_size'', JInt pipeline_parallel_size),
             (''tensor_parallel_size'', JInt tensor_parallel_size),
             (''worker_id'', JInt worker_id), (''world_size'', JInt world_size)])))))"

lemma make_layout_signature_total:
  "torch_api_ok T \<Longrightarrow> \<exists>s. make_layout_signature T mn ws wi tp pp nl bs hdim d = Inr s"
  using dtype_name_parse [of T d] by (auto simp: make_layout_signature_def)

section \<open>The metadata record\<close>

record disk_metadata =
  m_layout :: string
  m_version :: int
  m_logical_shape :: "int list"
  m_payload_shape :: "int list"
  m_dtype :: string
  m_valid_tokens :: int
  m_num_layers :: int
  m_block_size :: int
  m_hidden_dim :: int
  m_payload_nbytes :: int
  m_io_nbytes :: int
  m_model_name :: string
  m_world_size :: int
  m_worker_id :: int
  m_tensor_parallel_size :: int
  m_pipeline_parallel_size :: int
  m_layout_signature :: string

definition torch_dtype :: "'d torch_api \<Rightarrow> disk_metadata \<Rightarrow> 'd res" where
  "torch_dtype T m = parse_dtype T (m_dtype m)"

text \<open>\<^verbatim>\<open>validate\<close>: \<open>None\<close> when the metadata is accepted, the raised error otherwise.\<close>

definition validate :: "'d torch_api \<Rightarrow> disk_metadata \<Rightarrow> exn option" where
  "validate T m =
     (if m_layout m \<noteq> BLOCK_FIRST_LAYOUT \<or> m_version m \<noteq> BLOCK_FIRST_VERSION
        then Some (BlockFirstFormatError ''unsupported layout/version'')
      else case block_first_shape (m_logical_shape m) (m_block_size m) of
        Inl e \<Rightarrow> Some e
      | Inr expected_payload_shape \<Rightarrow>
          (case first_error
             [(m_payload_shape m \<noteq> expected_payload_shape,
                BlockFirstFormatError ''payload shape does not match logical coordinates''),
              (m_valid_tokens m \<noteq> m_logical_shape m ! 2,
                BlockFirstFormatError ''block_first_v1 only accepts complete chunks''),
              (m_num_layers m \<noteq> m_logical_shape m ! 1,
                BlockFirstFormatError ''num_layers does not match logical shape''),
              (m_hidden_dim m \<noteq> m_logical_shape m ! 3,
                BlockFirstFormatError ''hidden_dim does not match logical shape''),
              (min (m_world_size m) (min (m_tensor_parallel_size m) (m_pipeline_parallel_size m)) \<le> 0,
                BlockFirstFormatError ''parallel sizes must be positive''),
              (m_worker_id m < 0 \<or> m_world_size m \<le> m_worker_id m,
                BlockFirstFormatError ''worker_id is outside world_size'')] of
             Some e \<Rightarrow> Some e
           | None \<Rightarrow>
               (case torch_dtype T m of
                  Inl e \<Rightarrow> Some e
                | Inr d \<Rightarrow>
                    if m_payload_nbytes m \<noteq> prod_list (m_payload_shape m) * itemsize T d
                      then Some (BlockFirstFormatError ''unexpected payload size'')
                    else case align_up (m_payload_nbytes m) BLOCK_FIRST_ALIGNMENT of
                      Inl e \<Rightarrow> Some e
                    | Inr aligned \<Rightarrow>
                        if m_io_nbytes m \<noteq> aligned
                          then Some (BlockFirstFormatError ''I/O size is not the aligned payload size'')
                        else case make_layout_signature T (m_model_name m) (m_world_size m) (m_worker_id m)
                            (m_tensor_parallel_size m) (m_pipeline_parallel_size m) (m_num_layers m)
                            (m_block_size m) (m_hidden_dim m) d of
                          Inl e \<Rightarrow> Some e
                        | Inr sig \<Rightarrow>
                            if m_layout_signature m \<noteq> sig
                              then Some (BlockFirstFormatError ''layout signature mismatch'')
                            else None)))"

text \<open>
  \<^verbatim>\<open>create\<close> from a logical tensor, of which it reads the shape, the data type and the element size
  (\<^verbatim>\<open>numel()\<close> is the product of the shape).
\<close>

definition create ::
    "'d torch_api \<Rightarrow> int list \<Rightarrow> 'd \<Rightarrow> int \<Rightarrow> string \<Rightarrow> int \<Rightarrow> int \<Rightarrow> int \<Rightarrow> int \<Rightarrow> disk_metadata res" where
  "create T shape d bs mn ws wi tp pp =
     (case block_first_shape shape bs of
        Inl e \<Rightarrow> Inl e
      | Inr payload \<Rightarrow>
          let nbytes = prod_list shape * itemsize T d in
          (case dtype_name T d of
             Inl e \<Rightarrow> Inl e
           | Inr name \<Rightarrow>
               (case align_up nbytes BLOCK_FIRST_ALIGNMENT of
                  Inl e \<Rightarrow> Inl e
                | Inr io \<Rightarrow>
                    (case make_layout_signature T mn ws wi tp pp (shape ! 1) bs (shape ! 3) d of
                       Inl e \<Rightarrow> Inl e
                     | Inr sig \<Rightarrow>
                         let m = \<lparr>m_layout = BLOCK_FIRST_LAYOUT, m_version = BLOCK_FIRST_VERSION,
                               m_logical_shape = shape, m_payload_shape = payload, m_dtype = name,
                               m_valid_tokens = shape ! 2, m_num_layers = shape ! 1, m_block_size = bs,
                               m_hidden_dim = shape ! 3, m_payload_nbytes = nbytes, m_io_nbytes = io,
                               m_model_name = mn, m_world_size = ws, m_worker_id = wi,
                               m_tensor_parallel_size = tp, m_pipeline_parallel_size = pp,
                               m_layout_signature = sig\<rparr> in
                         (case validate T m of Some e \<Rightarrow> Inl e | None \<Rightarrow> Inr m)))))"

text \<open>
  \<^verbatim>\<open>validate_runtime\<close>. The engine's expected shape comes from \<^verbatim>\<open>get_shapes\<close>, which returns four
  dimensions; \<^verbatim>\<open>expected_shape[3]\<close> of a shorter one raises \<^verbatim>\<open>IndexError\<close>.
\<close>

definition validate_runtime ::
    "'d torch_api \<Rightarrow> disk_metadata \<Rightarrow> int list \<Rightarrow> 'd \<Rightarrow> string \<Rightarrow> int \<Rightarrow> int \<Rightarrow> int \<Rightarrow> int \<Rightarrow> int \<Rightarrow>
     exn option" where
  "validate_runtime T m shape d mn ws wi tp pp bs =
     (case validate T m of
        Some e \<Rightarrow> Some e
      | None \<Rightarrow>
          if length shape < 4 then Some IndexError
          else case make_layout_signature T mn ws wi tp pp (shape ! 1) bs (shape ! 3) d of
            Inl e \<Rightarrow> Some e
          | Inr sig \<Rightarrow>
              if m_logical_shape m \<noteq> shape then Some (BlockFirstFormatError ''logical shape mismatch'')
              else case torch_dtype T m of
                Inl e \<Rightarrow> Some e
              | Inr d' \<Rightarrow>
                  if d' \<noteq> d then Some (BlockFirstFormatError ''dtype mismatch'')
                  else if m_layout_signature m \<noteq> sig
                    then Some (BlockFirstFormatError ''runtime layout signature mismatch'')
                  else None)"

section \<open>Accepted metadata is consistent\<close>

lemma validate_None_iff:
  "validate T m = None \<longleftrightarrow>
     m_layout m = BLOCK_FIRST_LAYOUT \<and> m_version m = BLOCK_FIRST_VERSION \<and>
     block_first_shape (m_logical_shape m) (m_block_size m) = Inr (m_payload_shape m) \<and>
     m_valid_tokens m = m_logical_shape m ! 2 \<and> m_num_layers m = m_logical_shape m ! 1 \<and>
     m_hidden_dim m = m_logical_shape m ! 3 \<and>
     0 < m_world_size m \<and> 0 < m_tensor_parallel_size m \<and> 0 < m_pipeline_parallel_size m \<and>
     0 \<le> m_worker_id m \<and> m_worker_id m < m_world_size m \<and>
     (\<exists>d. torch_dtype T m = Inr d \<and> m_payload_nbytes m = prod_list (m_payload_shape m) * itemsize T d \<and>
        align_up (m_payload_nbytes m) BLOCK_FIRST_ALIGNMENT = Inr (m_io_nbytes m) \<and>
        make_layout_signature T (m_model_name m) (m_world_size m) (m_worker_id m)
          (m_tensor_parallel_size m) (m_pipeline_parallel_size m) (m_num_layers m) (m_block_size m)
          (m_hidden_dim m) d = Inr (m_layout_signature m))"
  by (auto simp: validate_def guard_simps split: if_splits sum.splits option.splits)

text \<open>
  Metadata that passes validation describes its file exactly: the payload is the whole chunk,
  its tokens fill whole blocks, the payload size is blocks times layers times two times block size
  times hidden dimension times the element size, and the padded size is the least multiple of 4096
  that holds it.
\<close>

theorem validate_sound:
  assumes "validate T m = None"
  shows "\<exists>nb d. torch_dtype T m = Inr d \<and> 0 < nb \<and> m_valid_tokens m = nb * m_block_size m \<and>
     m_logical_shape m = [2, m_num_layers m, m_valid_tokens m, m_hidden_dim m] \<and>
     m_payload_shape m = [nb, m_num_layers m, 2, m_block_size m, m_hidden_dim m] \<and>
     m_payload_nbytes m = nb * m_num_layers m * 2 * m_block_size m * m_hidden_dim m * itemsize T d \<and>
     0 \<le> m_payload_nbytes m \<and> m_payload_nbytes m \<le> m_io_nbytes m \<and>
     m_io_nbytes m < m_payload_nbytes m + 4096 \<and> 4096 dvd m_io_nbytes m"
proof -
  obtain d where d: "torch_dtype T m = Inr d"
      "m_payload_nbytes m = prod_list (m_payload_shape m) * itemsize T d"
      and al: "align_up (m_payload_nbytes m) BLOCK_FIRST_ALIGNMENT = Inr (m_io_nbytes m)"
    using assms by (auto simp: validate_None_iff)
  obtain nl t h where sh: "m_logical_shape m = [2, nl, t, h]" "0 < t" "0 < m_block_size m"
      "m_block_size m dvd t" "m_payload_shape m = [t div m_block_size m, nl, 2, m_block_size m, h]"
    using assms by (auto simp: validate_None_iff block_first_shape_Inr)
  have f: "m_valid_tokens m = t" "m_num_layers m = nl" "m_hidden_dim m = h"
    using assms sh by (auto simp: validate_None_iff)
  have nb: "t = (t div m_block_size m) * m_block_size m" "0 < t div m_block_size m"
    using sh by (auto simp: pos_imp_zdiv_pos_iff zdvd_imp_le)
  have "m_io_nbytes m = (m_payload_nbytes m + 4096 - 1) div 4096 * 4096" and "0 \<le> m_payload_nbytes m"
    using al by (auto simp: align_up_Inr BLOCK_FIRST_ALIGNMENT_def)
  then have al': "0 \<le> m_payload_nbytes m \<and> m_payload_nbytes m \<le> m_io_nbytes m \<and>
     m_io_nbytes m < m_payload_nbytes m + 4096 \<and> 4096 dvd m_io_nbytes m"
    using ceil_mult_bounds [of 4096 "m_payload_nbytes m"] by simp
  show ?thesis
    by (rule exI [of _ "t div m_block_size m"], rule exI [of _ d])
       (use d sh f nb al' in \<open>auto simp: algebra_simps\<close>)
qed

lemma create_fields:
  "create T shape d bs mn ws wi tp pp = Inr m \<Longrightarrow>
     validate T m = None \<and> m_logical_shape m = shape \<and> m_valid_tokens m = shape ! 2 \<and>
     m_block_size m = bs \<and> m_num_layers m = shape ! 1 \<and> m_hidden_dim m = shape ! 3 \<and>
     m_payload_nbytes m = prod_list shape * itemsize T d"
  by (auto simp: create_def Let_def split: sum.splits option.splits)

lemma create_ok:
  assumes "torch_api_ok T" and "block_first_shape shape bs = Inr ps"
    and "0 < ws" and "0 < tp" and "0 < pp" and "0 \<le> wi" and "wi < ws"
  shows "\<exists>m. create T shape d bs mn ws wi tp pp = Inr m \<and> validate T m = None \<and>
     validate_runtime T m shape d mn ws wi tp pp bs = None"
proof -
  obtain n where n: "dtype_name T d = Inr n" "parse_dtype T n = Inr d"
    using dtype_name_parse [OF assms(1), of d] by auto
  obtain nl t h where sh: "shape = [2, nl, t, h]" "0 < nl" "0 < t" "0 < h" "0 < bs"
    using assms(2) by (auto simp: block_first_shape_Inr)
  have pos: "0 < itemsize T d" using assms(1) by (auto simp: torch_api_ok_def)
  define nbytes where "nbytes = prod_list shape * itemsize T d"
  have "0 \<le> nbytes" using sh pos by (simp add: nbytes_def)
  then obtain io where io: "align_up nbytes BLOCK_FIRST_ALIGNMENT = Inr io"
    by (simp add: align_up_def BLOCK_FIRST_ALIGNMENT_def)
  obtain sg where sg: "make_layout_signature T mn ws wi tp pp (shape ! 1) bs (shape ! 3) d = Inr sg"
    using make_layout_signature_total [OF assms(1)] by blast
  let ?m = "\<lparr>m_layout = BLOCK_FIRST_LAYOUT, m_version = BLOCK_FIRST_VERSION, m_logical_shape = shape,
    m_payload_shape = ps, m_dtype = n, m_valid_tokens = shape ! 2, m_num_layers = shape ! 1, m_block_size = bs,
    m_hidden_dim = shape ! 3, m_payload_nbytes = nbytes, m_io_nbytes = io, m_model_name = mn,
    m_world_size = ws, m_worker_id = wi, m_tensor_parallel_size = tp, m_pipeline_parallel_size = pp,
    m_layout_signature = sg\<rparr>"
  have v: "validate T ?m = None"
    using assms n io sg block_first_shape_prod [OF assms(2)]
    by (simp add: validate_None_iff torch_dtype_def nbytes_def)
  have "create T shape d bs mn ws wi tp pp = Inr ?m"
    using assms(2) n io sg v by (simp add: create_def Let_def nbytes_def)
  moreover have "validate_runtime T ?m shape d mn ws wi tp pp bs = None"
    using v sg n sh by (simp add: validate_runtime_def torch_dtype_def)
  ultimately show ?thesis using v by blast
qed

text \<open>
  A complete chunk of a well-configured engine always gets metadata: \<open>create\<close> succeeds, what it
  returns is accepted by \<open>validate\<close>, and the running engine with the same configuration accepts it
  when the file is found again.
\<close>

theorem create_validates:
  assumes "torch_api_ok T" and "block_first_shape shape bs = Inr ps"
    and "0 < ws" and "0 < tp" and "0 < pp" and "0 \<le> wi" and "wi < ws"
  shows "\<exists>m. create T shape d bs mn ws wi tp pp = Inr m \<and> validate T m = None \<and>
     validate_runtime T m shape d mn ws wi tp pp bs = None"
  using assms by (rule create_ok)

text \<open>
  A concrete instance of the torch interface: two data types, with the names and element sizes that
  torch gives them.
\<close>

datatype demo_dtype = Float16 | Float32

definition demo_torch :: "demo_dtype torch_api" where
  "demo_torch =
     \<lparr>dtype_repr = (\<lambda>d. case d of Float16 \<Rightarrow> ''torch.float16'' | Float32 \<Rightarrow> ''torch.float32''),
      torch_getattr = (\<lambda>n. if n = ''float16'' then Some Float16
        else if n = ''float32'' then Some Float32 else None),
      itemsize = (\<lambda>d. case d of Float16 \<Rightarrow> 2 | Float32 \<Rightarrow> 4)\<rparr>"

lemma demo_torch_ok: "torch_api_ok demo_torch"
  unfolding torch_api_ok_def
proof (intro allI conjI)
  fix d
  show "\<exists>n. dtype_repr demo_torch d = ''torch.'' @ n \<and> torch_getattr demo_torch n = Some d"
    by (cases d) (auto simp: demo_torch_def)
  show "0 < itemsize demo_torch d" by (cases d) (auto simp: demo_torch_def)
qed

theorem create_validates_witness:
  "\<exists>m. create demo_torch [2, 3, 8, 16] Float16 4 ''m'' 2 1 2 1 = Inr m \<and> validate demo_torch m = None \<and>
     validate_runtime demo_torch m [2, 3, 8, 16] Float16 ''m'' 2 1 2 1 4 = None"
  by (rule create_validates [OF demo_torch_ok, of _ _ "[2, 3, 2, 4, 16]"]) simp_all

lemma demo_metadata:
  "\<exists>m. create demo_torch [2, 3, 8, 16] Float16 4 ''m'' 2 1 2 1 = Inr m \<and> validate demo_torch m = None \<and>
    validate_runtime demo_torch m [2, 3, 8, 16] Float16 ''m'' 2 1 2 1 4 = None \<and> m_valid_tokens m = 8"
proof -
  obtain m where m: "create demo_torch [2, 3, 8, 16] Float16 4 ''m'' 2 1 2 1 = Inr m"
      "validate demo_torch m = None"
      "validate_runtime demo_torch m [2, 3, 8, 16] Float16 ''m'' 2 1 2 1 4 = None"
    using create_ok [OF demo_torch_ok, of "[2, 3, 8, 16]" 4 "[2, 3, 2, 4, 16]" 2 2 1 1 Float16 "''m''"]
    by auto
  have "m_valid_tokens m = 8" using create_fields [OF m(1)] by simp
  with m show ?thesis by blast
qed

theorem validate_sound_witness:
  "\<exists>m nb. validate demo_torch m = None \<and> m_valid_tokens m = 8 \<and> 0 < nb \<and> m_valid_tokens m = nb * m_block_size m \<and>
     4096 dvd m_io_nbytes m"
proof -
  obtain m where "validate demo_torch m = None" "m_valid_tokens m = 8"
    using demo_metadata by blast
  with validate_sound [of demo_torch m] show ?thesis by blast
qed

text \<open>
  The running engine takes a file only if it is its own: whenever the runtime check accepts
  metadata, the file holds exactly the engine's chunk shape in the engine's data type, and its
  recorded signature is the engine's signature for its model, ranks, block size and dimensions.
\<close>

theorem validate_runtime_sound:
  assumes "validate_runtime T m shape d mn ws wi tp pp bs = None"
  shows "validate T m = None \<and> m_logical_shape m = shape \<and> torch_dtype T m = Inr d \<and>
     make_layout_signature T mn ws wi tp pp (m_num_layers m) bs (m_hidden_dim m) d =
       Inr (m_layout_signature m) \<and>
     make_layout_signature T (m_model_name m) (m_world_size m) (m_worker_id m) (m_tensor_parallel_size m)
       (m_pipeline_parallel_size m) (m_num_layers m) (m_block_size m) (m_hidden_dim m) d =
       Inr (m_layout_signature m)"
  using assms
  by (auto simp: validate_runtime_def validate_None_iff split: option.splits sum.splits if_splits)

theorem validate_runtime_sound_witness:
  "\<exists>m. create demo_torch [2, 3, 8, 16] Float16 4 ''m'' 2 1 2 1 = Inr m \<and> m_logical_shape m = [2, 3, 8, 16]"
proof -
  obtain m where "create demo_torch [2, 3, 8, 16] Float16 4 ''m'' 2 1 2 1 = Inr m"
    and r: "validate_runtime demo_torch m [2, 3, 8, 16] Float16 ''m'' 2 1 2 1 4 = None"
    using demo_metadata by blast
  with validate_runtime_sound [OF r] show ?thesis by blast
qed

end
