(* ===== verification/Py_Json.thy ===== *)
theory Py_Json
  imports Py_Text
begin

text \<open>
  \<^verbatim>\<open>json.loads\<close> on the documents that the compact \<^verbatim>\<open>json.dumps\<close> of flat objects writes: integers,
  strings, and lists of integers as the values of one object, no white space. Any other document,
  also one that Python would decode to other types, is \<open>None\<close> here. The main lemma is the round
  trip with \<open>json_dumps\<close>.
\<close>

section \<open>Integers\<close>

definition is_digit :: "char \<Rightarrow> bool" where
  "is_digit c \<longleftrightarrow> 48 \<le> (of_char c :: nat) \<and> (of_char c :: nat) \<le> 57"

fun digits_value :: "nat \<Rightarrow> string \<Rightarrow> nat" where
  "digits_value acc [] = acc"
| "digits_value acc (c # cs) = digits_value (10 * acc + (of_char c - 48)) cs"

text \<open>An unsigned integer: digits without a leading zero, and what follows them.\<close>

definition parse_nat :: "string \<Rightarrow> (nat \<times> string) option" where
  "parse_nat s =
     (let ds = takeWhile is_digit s in
      if ds = [] \<or> (hd ds = CHR ''0'' \<and> 1 < length ds) then None
      else Some (digits_value 0 ds, drop (length ds) s))"

definition parse_int :: "string \<Rightarrow> (int \<times> string) option" where
  "parse_int s =
     (case s of
        c # s' \<Rightarrow> if c = CHR ''-'' then map_option (\<lambda>(n, r). (- int n, r)) (parse_nat s')
                 else map_option (\<lambda>(n, r). (int n, r)) (parse_nat s)
      | [] \<Rightarrow> None)"

lemma of_char_digit: "n < 10 \<Longrightarrow> (of_char (char_of (48 + n) :: char) :: nat) = 48 + n"
  by simp

lemma nat_str_digits: "\<forall>c \<in> set (nat_str n). is_digit c"
proof (induction n rule: nat_str.induct)
  case (1 n)
  have "is_digit (char_of (48 + n mod 10))" by (simp add: is_digit_def)
  with 1 show ?case by (subst nat_str.simps) auto
qed

lemma digits_value_append: "digits_value acc (xs @ ys) = digits_value (digits_value acc xs) ys"
  by (induction xs arbitrary: acc) auto

lemma digits_value_nat_str: "digits_value 0 (nat_str n) = n"
proof (induction n rule: nat_str.induct)
  case (1 n)
  then show ?case
    by (subst nat_str.simps) (simp add: digits_value_append)
qed

lemma nat_str_hd: "0 < n \<Longrightarrow> hd (nat_str n) \<noteq> CHR ''0''"
proof (induction n rule: nat_str.induct)
  case (1 n)
  show ?case
  proof (cases "n < 10")
    case True
    have "char_of (48 + n mod 10) \<noteq> CHR ''0''"
    proof
      assume "char_of (48 + n mod 10) = CHR ''0''"
      then have "(of_char (char_of (48 + n mod 10) :: char) :: nat) = of_char (CHR ''0'')" by simp
      with True 1(2) show False by simp
    qed
    with True show ?thesis by (subst nat_str.simps) simp
  next
    case False
    then have "0 < n div 10" by (simp add: div_greater_zero_iff)
    with 1 False show ?thesis by (subst nat_str.simps) (simp add: hd_append)
  qed
qed

lemma parse_nat_nat_str:
  assumes "rest = [] \<or> \<not> is_digit (hd rest)"
  shows "parse_nat (nat_str n @ rest) = Some (n, rest)"
proof -
  have t: "takeWhile is_digit (nat_str n @ rest) = nat_str n"
    using nat_str_digits [of n] assms by (cases rest) (auto simp: takeWhile_append)
  have z: "\<not> (hd (nat_str n) = CHR ''0'' \<and> 1 < length (nat_str n))"
  proof (cases "n = 0")
    case True
    then show ?thesis by (simp add: nat_str.simps [of 0])
  qed (use nat_str_hd in auto)
  show ?thesis using z by (simp add: parse_nat_def t Let_def digits_value_nat_str)
qed

lemma hd_nat_str_digit: "is_digit (hd (nat_str n))"
  using nat_str_digits [of n] by (metis hd_in_set nat_str_nonempty)

lemma parse_int_int_str:
  assumes "rest = [] \<or> \<not> is_digit (hd rest)"
  shows "parse_int (int_str i @ rest) = Some (i, rest)"
proof (cases "i < 0")
  case True
  then show ?thesis using parse_nat_nat_str [OF assms] by (simp add: parse_int_def int_str_def)
next
  case False
  obtain c cs where c: "nat_str (nat i) = c # cs" by (cases "nat_str (nat i)") auto
  have "is_digit c" using hd_nat_str_digit [of "nat i"] by (simp add: c)
  then have "c \<noteq> CHR ''-''" by (auto simp: is_digit_def)
  then show ?thesis
    using False parse_nat_nat_str [OF assms, of "nat i"] by (simp add: parse_int_def int_str_def c)
qed

section \<open>Strings\<close>

definition hex4 :: "char \<Rightarrow> char \<Rightarrow> char \<Rightarrow> char \<Rightarrow> nat option" where
  "hex4 a b c d =
     (case (hex_digit_value a, hex_digit_value b, hex_digit_value c, hex_digit_value d) of
        (Some w, Some x, Some y, Some z) \<Rightarrow> Some (4096 * w + 256 * x + 16 * y + z)
      | _ \<Rightarrow> None)"

definition unescape :: "char \<Rightarrow> char option" where
  "unescape e =
     (if e = CHR 0x22 then Some (CHR 0x22) else if e = CHR 0x5C then Some (CHR 0x5C)
      else if e = CHR ''/'' then Some (CHR ''/'') else if e = CHR ''n'' then Some (char_of (10 :: nat))
      else if e = CHR ''r'' then Some (char_of (13 :: nat)) else if e = CHR ''t'' then Some (char_of (9 :: nat))
      else if e = CHR ''f'' then Some (char_of (12 :: nat)) else if e = CHR ''b'' then Some (char_of (8 :: nat))
      else None)"

text \<open>The characters of a string after its opening quote, up to the closing one.\<close>

function parse_chars :: "string \<Rightarrow> (string \<times> string) option" where
  "parse_chars s =
     (case s of
        [] \<Rightarrow> None
      | c # s1 \<Rightarrow>
          if c = CHR 0x22 then Some ([], s1)
          else if (of_char c :: nat) < 32 then None
          else if c = CHR 0x5C then
            (case s1 of
               [] \<Rightarrow> None
             | e # s2 \<Rightarrow>
                 if e = CHR ''u'' then
                   (if length s2 < 4 then None
                    else case hex4 (s2 ! 0) (s2 ! 1) (s2 ! 2) (s2 ! 3) of
                      None \<Rightarrow> None
                    | Some v \<Rightarrow> if 256 \<le> v then None
                        else map_option (\<lambda>(cs, r). (char_of v # cs, r)) (parse_chars (drop 4 s2)))
                 else (case unescape e of
                         None \<Rightarrow> None
                       | Some x \<Rightarrow> map_option (\<lambda>(cs, r). (x # cs, r)) (parse_chars s2)))
          else map_option (\<lambda>(cs, r). (c # cs, r)) (parse_chars s1))"
  by pat_completeness auto
termination
  by (relation "measure length") auto

declare parse_chars.simps [simp del]

lemma hex_digit_value_lower: "n < 16 \<Longrightarrow> hex_digit_value (hex_digit n) = Some n"
proof -
  assume "n < 16"
  then have "n \<in> set [0..<16]" by simp
  then show ?thesis by (auto simp: upt_conv_Cons hex_digit_def hex_digit_value_def)
qed

lemma hex_digit_mod: "hex_digit (n mod 16) = hex_digit n"
  by (simp add: hex_digit_def)

lemma hex4_hex_word:
  assumes "n < 256"
  shows "\<exists>a b c d. hex_word 4 n = [a, b, c, d] \<and> hex4 a b c d = Some n"
proof -
  have v: "hex_digit_value (hex_digit m) = Some (m mod 16)" for m
    using hex_digit_value_lower [of "m mod 16"] by (simp add: hex_digit_mod)
  have "n div 16 div 16 = 0" using assms by simp
  then have "4096 * (n div 16 div 16 div 16 mod 16) + 256 * (n div 16 div 16 mod 16) +
      16 * (n div 16 mod 16) + n mod 16 = n" using assms by simp
  moreover have "hex_word 4 n = [hex_digit (n div 16 div 16 div 16), hex_digit (n div 16 div 16),
      hex_digit (n div 16), hex_digit n]"
  proof -
    have "(4 :: nat) = Suc (Suc (Suc (Suc 0)))" by simp
    then show ?thesis by (simp only:) (simp only: hex_word.simps append.simps)
  qed
  moreover have "hex4 (hex_digit a) (hex_digit b) (hex_digit c) (hex_digit d) =
      Some (4096 * (a mod 16) + 256 * (b mod 16) + 16 * (c mod 16) + d mod 16)" for a b c d
    by (simp only: hex4_def v option.case prod.case)
  ultimately show ?thesis by metis
qed

lemma parse_chars_escaped:
  "parse_chars (json_escape_char c @ s) = map_option (\<lambda>(cs, r). (c # cs, r)) (parse_chars s)"
proof -
  define n where "n = (of_char c :: nat)"
  have n: "n < 256" unfolding n_def by (rule nat_of_char_less_256)
  have cn: "char_of n = c" by (simp add: n_def)
  show ?thesis
  proof (cases "c = CHR 0x22 \<or> c = CHR 0x5C \<or> n \<in> {8, 9, 10, 12, 13}")
    case True
    then show ?thesis
      using cn by (subst parse_chars.simps) (auto simp: json_escape_char_def n_def [symmetric] unescape_def)
  next
    case False
    show ?thesis
    proof (cases "n < 32 \<or> 126 < n")
      case True
      obtain a b x d where h: "hex_word 4 n = [a, b, x, d]" "hex4 a b x d = Some n"
        using hex4_hex_word [OF n] by blast
      have "json_escape_char c = [CHR 0x5C, CHR ''u'', a, b, x, d]"
        using True False h by (simp add: json_escape_char_def n_def [symmetric])
      then show ?thesis
        using n cn h by (subst parse_chars.simps) simp
    next
      case F: False
      then have "json_escape_char c = [c]"
        using False by (simp add: json_escape_char_def n_def [symmetric])
      then show ?thesis
        using False F by (subst parse_chars.simps) (simp add: n_def [symmetric])
    qed
  qed
qed

lemma parse_chars_concat:
  "parse_chars (concat (map json_escape_char cs) @ CHR 0x22 # rest) = Some (cs, rest)"
proof (induction cs)
  case Nil
  then show ?case by (simp add: parse_chars.simps)
next
  case (Cons c cs)
  then show ?case by (simp add: parse_chars_escaped)
qed

definition parse_str :: "string \<Rightarrow> (string \<times> string) option" where
  "parse_str s = (case s of c # s' \<Rightarrow> if c = CHR 0x22 then parse_chars s' else None | [] \<Rightarrow> None)"

lemma parse_str_json_str: "parse_str (json_str cs @ rest) = Some (cs, rest)"
  by (simp add: parse_str_def json_str_def parse_chars_concat)

section \<open>Values and objects\<close>

text \<open>The elements of a list of integers after its opening bracket; the fuel bounds their number.\<close>

fun parse_items :: "nat \<Rightarrow> string \<Rightarrow> (json list \<times> string) option" where
  "parse_items 0 s = None"
| "parse_items (Suc n) s =
     (case parse_int s of
        None \<Rightarrow> None
      | Some (i, r) \<Rightarrow>
          (case r of
             [] \<Rightarrow> None
           | c # r' \<Rightarrow>
               if c = CHR '','' then map_option (\<lambda>(vs, z). (JInt i # vs, z)) (parse_items n r')
               else if c = CHR '']'' then Some ([JInt i], r') else None))"

definition parse_value :: "string \<Rightarrow> (json \<times> string) option" where
  "parse_value s =
     (case s of
        [] \<Rightarrow> None
      | c # r \<Rightarrow>
          if c = CHR 0x22 then map_option (\<lambda>(t, z). (JStr t, z)) (parse_chars r)
          else if c = CHR ''['' then
            (if r \<noteq> [] \<and> hd r = CHR '']'' then Some (JList [], tl r)
             else map_option (\<lambda>(vs, z). (JList vs, z)) (parse_items (length r) r))
          else map_option (\<lambda>(i, z). (JInt i, z)) (parse_int s))"

fun parse_fields :: "nat \<Rightarrow> string \<Rightarrow> ((string \<times> json) list \<times> string) option" where
  "parse_fields 0 s = None"
| "parse_fields (Suc n) s =
     (case parse_str s of
        None \<Rightarrow> None
      | Some (k, r) \<Rightarrow>
          if r = [] \<or> hd r \<noteq> CHR '':'' then None
          else case parse_value (tl r) of
            None \<Rightarrow> None
          | Some (v, r2) \<Rightarrow>
              (case r2 of
                 [] \<Rightarrow> None
               | c # r3 \<Rightarrow>
                   if c = CHR '','' then map_option (\<lambda>(kvs, z). ((k, v) # kvs, z)) (parse_fields n r3)
                   else if c = CHR ''}'' then Some ([(k, v)], r3) else None))"

text \<open>The fields of an object in the order of the text.\<close>

definition json_loads :: "string \<Rightarrow> (string \<times> json) list option" where
  "json_loads s =
     (case s of
        c # r \<Rightarrow>
          if c \<noteq> CHR ''{'' then None
          else if r = ''}'' then Some []
          else (case parse_fields (length r) r of Some (kvs, []) \<Rightarrow> Some kvs | _ \<Rightarrow> None)
      | [] \<Rightarrow> None)"

section \<open>Reading back what was written\<close>

fun flat :: "json \<Rightarrow> bool" where
  "flat (JInt i) = True"
| "flat (JStr s) = True"
| "flat (JList vs) = list_all (\<lambda>v. case v of JInt i \<Rightarrow> True | _ \<Rightarrow> False) vs"
| "flat (JObj kvs) = False"

lemma join_with_Cons:
  "join_with sep (x # xs) = x @ (if xs = [] then [] else sep @ join_with sep xs)"
  by (cases xs) auto

lemma length_join_with: "\<forall>x \<in> set xs. x \<noteq> [] \<Longrightarrow> length xs \<le> length (join_with sep xs)"
proof (induction xs)
  case Nil
  then show ?case by simp
next
  case (Cons x xs)
  then have "1 \<le> length x" by (cases x) auto
  with Cons show ?case by (auto simp: join_with_Cons)
qed

lemma not_digit_punct: "\<not> is_digit (CHR '','')" "\<not> is_digit (CHR '']'')" "\<not> is_digit (CHR ''}'')"
  by (simp_all add: is_digit_def)

lemma int_str_nonempty: "int_str i \<noteq> []"
  by (simp add: int_str_def)

lemma int_str_hd: "hd (int_str i) = CHR ''-'' \<or> is_digit (hd (int_str i))"
  using hd_nat_str_digit by (simp add: int_str_def)

lemma parse_items_join:
  "js0 \<noteq> [] \<Longrightarrow> length js0 \<le> n \<Longrightarrow>
   parse_items n (join_with '','' (map int_str js0) @ CHR '']'' # rest) = Some (map JInt js0, rest)"
proof (induction js0 arbitrary: n)
  case Nil
  then show ?case by simp
next
  case (Cons i js)
  then obtain m where n: "n = Suc m" by (cases n) auto
  show ?case
  proof (cases "js = []")
    case True
    then show ?thesis
      using parse_int_int_str [of "CHR '']'' # rest" i] by (simp add: n not_digit_punct)
  next
    case False
    have "parse_int (int_str i @ CHR '','' # join_with '','' (map int_str js) @ CHR '']'' # rest) =
        Some (i, CHR '','' # join_with '','' (map int_str js) @ CHR '']'' # rest)"
      by (rule parse_int_int_str) (simp add: not_digit_punct)
    with False Cons n show ?thesis by (simp add: join_with_Cons)
  qed
qed

lemma json_dumps_list_ints: "map json_dumps (map JInt js0) = map int_str js0"
  by simp

lemma parse_value_dumps:
  assumes "flat v" and "rest = [] \<or> \<not> is_digit (hd rest)"
  shows "parse_value (json_dumps v @ rest) = Some (v, rest)"
proof (cases v)
  case (JInt i)
  obtain c cs where c: "int_str i = c # cs" using int_str_nonempty by (cases "int_str i") auto
  then have "c = CHR ''-'' \<or> is_digit c" using int_str_hd [of i] by simp
  then have "c \<noteq> CHR 0x22" "c \<noteq> CHR ''[''" by (auto simp: is_digit_def)
  then show ?thesis using parse_int_int_str [OF assms(2), of i] by (simp add: JInt parse_value_def c)
next
  case (JStr s)
  then show ?thesis by (simp add: parse_value_def json_str_def parse_chars_concat)
next
  case (JList vs)
  obtain js0 where vs: "vs = map JInt js0"
  proof -
    have "\<exists>js0. vs = map JInt js0"
      using assms(1) unfolding JList
    proof (induction vs)
      case Nil
      then show ?case by simp
    next
      case (Cons v vs)
      then obtain i js where "v = JInt i" "vs = map JInt js" by (auto split: json.splits)
      then have "v # vs = map JInt (i # js)" by simp
      then show ?case by (rule exI)
    qed
    then show ?thesis using that by blast
  qed
  have d: "json_dumps v @ rest = CHR ''['' # join_with '','' (map int_str js0) @ CHR '']'' # rest"
    unfolding JList vs json_dumps.simps json_dumps_list_ints by simp
  show ?thesis
  proof (cases "js0 = []")
    case True
    then show ?thesis by (simp add: parse_value_def d) (simp add: JList vs)
  next
    case False
    then obtain i js where i: "js0 = i # js" by (cases js0) auto
    obtain c cs where c: "int_str i = c # cs" using int_str_nonempty by (cases "int_str i") auto
    have "c = CHR ''-'' \<or> is_digit c" using int_str_hd [of i] c by simp
    then have nb: "c \<noteq> CHR '']''" by (auto simp: is_digit_def)
    have h: "hd (join_with '','' (map int_str js0) @ CHR '']'' # rest) = c"
      by (simp add: i join_with_Cons c)
    have "length js0 \<le> length (join_with '','' (map int_str js0) @ CHR '']'' # rest)"
      using length_join_with [of "map int_str js0" "'',''"] int_str_nonempty by auto
    note p = parse_items_join [OF False this]
    show ?thesis
      using nb h p by (simp add: parse_value_def d) (simp add: JList vs)
  qed
next
  case (JObj kvs)
  with assms show ?thesis by simp
qed

abbreviation field_text :: "string \<times> json \<Rightarrow> string" where
  "field_text kv \<equiv> (case kv of (k, v) \<Rightarrow> json_str k @ '':'' @ json_dumps v)"

lemma parse_fields_join:
  "kvs \<noteq> [] \<Longrightarrow> length kvs \<le> n \<Longrightarrow> \<forall>(k, v) \<in> set kvs. flat v \<Longrightarrow>
   parse_fields n (join_with '','' (map field_text kvs) @ CHR ''}'' # rest) = Some (kvs, rest)"
proof (induction kvs arbitrary: n)
  case Nil
  then show ?case by simp
next
  case (Cons kv kvs)
  then obtain m where n: "n = Suc m" by (cases n) auto
  obtain k v where kv: "kv = (k, v)" by (cases kv)
  have fl: "flat v" using Cons.prems(3) by (simp add: kv)
  let ?tail = "if kvs = [] then CHR ''}'' # rest
    else CHR '','' # join_with '','' (map field_text kvs) @ CHR ''}'' # rest"
  have ftext: "join_with '','' (map field_text (kv # kvs)) @ CHR ''}'' # rest =
      json_str k @ CHR '':'' # json_dumps v @ ?tail"
    by (simp add: kv join_with_Cons)
  have "parse_value (json_dumps v @ ?tail) = Some (v, ?tail)"
    by (rule parse_value_dumps [OF fl]) (simp add: not_digit_punct)
  moreover have "kvs \<noteq> [] \<Longrightarrow>
      parse_fields m (join_with '','' (map field_text kvs) @ CHR ''}'' # rest) = Some (kvs, rest)"
    by (rule Cons.IH) (use Cons.prems n in auto)
  ultimately show ?case
    unfolding ftext n parse_fields.simps parse_str_json_str by (simp add: kv)
qed

theorem json_loads_dumps:
  assumes "\<forall>(k, v) \<in> set kvs. flat v"
  shows "json_loads (json_dumps (JObj kvs)) = Some kvs"
proof (cases "kvs = []")
  case True
  then show ?thesis by (simp add: json_loads_def)
next
  case False
  let ?t = "join_with '','' (map field_text kvs) @ ''}''"
  have "length kvs \<le> length ?t"
    using length_join_with [of "map field_text kvs" "'',''"] by (force simp: json_str_def)
  from parse_fields_join [OF False this assms, of "[]"]
  have p: "parse_fields (length ?t) ?t = Some (kvs, [])" by simp
  have "?t \<noteq> ''}''"
  proof -
    obtain kv kvs' where "kvs = kv # kvs'" using False by (cases kvs) auto
    then show ?thesis by (cases kv) (simp add: join_with_Cons json_str_def)
  qed
  with p show ?thesis by (simp add: json_loads_def)
qed

end
