(* ===== verification/Disk_Header.thy ===== *)
theory Disk_Header
  imports Disk_Metadata Py_Json
begin

text \<open>
  The 4 KiB header of a block-first file (\<^verbatim>\<open>pack_block_first_header\<close>,
  \<^verbatim>\<open>unpack_block_first_header\<close> and \<^verbatim>\<open>from_mapping\<close> of \<^verbatim>\<open>storage_backend/block_first_disk.py\<close>):
  a magic number, the length and the CRC-32 of the metadata, the metadata as compact JSON, padding.
  The reader is exact on the headers that the writer makes, and on any other compact ASCII document of
  one object whose values are integers, strings and lists of integers. Every other document is answered
  with a format error here. That is narrower than \<^verbatim>\<open>json.loads\<close> and the dataclass: Python also takes
  white space and UTF-8, takes floats and booleans that equal the expected integers, and lets some a
  \<^verbatim>\<open>TypeError\<close> of a wrongly typed field escape; nothing is claimed about such documents.
\<close>

section \<open>Metadata as a mapping\<close>

definition ints_json :: "int list \<Rightarrow> json" where
  "ints_json xs = JList (map JInt xs)"

text \<open>\<^verbatim>\<open>asdict(metadata)\<close> in the order of \<^verbatim>\<open>sort_keys=True\<close>.\<close>

definition metadata_fields :: "disk_metadata \<Rightarrow> (string \<times> json) list" where
  "metadata_fields m =
     [(''block_size'', JInt (m_block_size m)), (''dtype'', JStr (m_dtype m)),
      (''hidden_dim'', JInt (m_hidden_dim m)), (''io_nbytes'', JInt (m_io_nbytes m)),
      (''layout'', JStr (m_layout m)), (''layout_signature'', JStr (m_layout_signature m)),
      (''logical_shape'', ints_json (m_logical_shape m)), (''model_name'', JStr (m_model_name m)),
      (''num_layers'', JInt (m_num_layers m)), (''payload_nbytes'', JInt (m_payload_nbytes m)),
      (''payload_shape'', ints_json (m_payload_shape m)),
      (''pipeline_parallel_size'', JInt (m_pipeline_parallel_size m)),
      (''tensor_parallel_size'', JInt (m_tensor_parallel_size m)),
      (''valid_tokens'', JInt (m_valid_tokens m)), (''version'', JInt (m_version m)),
      (''worker_id'', JInt (m_worker_id m)), (''world_size'', JInt (m_world_size m))]"

definition field_int :: "(string \<times> json) list \<Rightarrow> string \<Rightarrow> int option" where
  "field_int kvs k = (case map_of (rev kvs) k of Some (JInt i) \<Rightarrow> Some i | _ \<Rightarrow> None)"

definition field_str :: "(string \<times> json) list \<Rightarrow> string \<Rightarrow> string option" where
  "field_str kvs k = (case map_of (rev kvs) k of Some (JStr s) \<Rightarrow> Some s | _ \<Rightarrow> None)"

fun json_ints :: "json list \<Rightarrow> int list option" where
  "json_ints [] = Some []"
| "json_ints (JInt i # vs) = map_option ((#) i) (json_ints vs)"
| "json_ints (v # vs) = None"

definition field_ints :: "(string \<times> json) list \<Rightarrow> string \<Rightarrow> int list option" where
  "field_ints kvs k = (case map_of (rev kvs) k of Some (JList vs) \<Rightarrow> json_ints vs | _ \<Rightarrow> None)"

definition field_names :: "string list" where
  "field_names = map fst (metadata_fields undefined)"

text \<open>
  \<^verbatim>\<open>cls(**data)\<close> needs every field and no other; of a repeated key \<^verbatim>\<open>json.loads\<close> keeps the last value.
\<close>

definition metadata_of_fields :: "(string \<times> json) list \<Rightarrow> disk_metadata option" where
  "metadata_of_fields kvs =
     (if \<not> set (map fst kvs) \<subseteq> set field_names then None
      else case (field_str kvs ''layout'', field_int kvs ''version'', field_ints kvs ''logical_shape'',
          field_ints kvs ''payload_shape'', field_str kvs ''dtype'', field_int kvs ''valid_tokens'') of
        (Some layout, Some version, Some logical, Some payload, Some dtype, Some tokens) \<Rightarrow>
          (case (field_int kvs ''num_layers'', field_int kvs ''block_size'', field_int kvs ''hidden_dim'',
              field_int kvs ''payload_nbytes'', field_int kvs ''io_nbytes'', field_str kvs ''model_name'') of
             (Some layers, Some bs, Some hidden, Some nbytes, Some io, Some model) \<Rightarrow>
               (case (field_int kvs ''world_size'', field_int kvs ''worker_id'',
                   field_int kvs ''tensor_parallel_size'', field_int kvs ''pipeline_parallel_size'',
                   field_str kvs ''layout_signature'') of
                  (Some ws, Some wi, Some tp, Some pp, Some sig) \<Rightarrow>
                    Some \<lparr>m_layout = layout, m_version = version, m_logical_shape = logical,
                      m_payload_shape = payload, m_dtype = dtype, m_valid_tokens = tokens,
                      m_num_layers = layers, m_block_size = bs, m_hidden_dim = hidden,
                      m_payload_nbytes = nbytes, m_io_nbytes = io, m_model_name = model,
                      m_world_size = ws, m_worker_id = wi, m_tensor_parallel_size = tp,
                      m_pipeline_parallel_size = pp, m_layout_signature = sig\<rparr>
                | _ \<Rightarrow> None)
           | _ \<Rightarrow> None)
      | _ \<Rightarrow> None)"

definition from_mapping :: "'d torch_api \<Rightarrow> (string \<times> json) list \<Rightarrow> disk_metadata res" where
  "from_mapping T kvs =
     (case metadata_of_fields kvs of
        None \<Rightarrow> Inl (BlockFirstFormatError ''invalid block-first metadata'')
      | Some m \<Rightarrow> (case validate T m of Some e \<Rightarrow> Inl e | None \<Rightarrow> Inr m))"

section \<open>The header\<close>

definition header_magic :: bytes where
  "header_magic = map byte_of_char ''LMCBFV1'' @ [0]"

definition header_payload :: "disk_metadata \<Rightarrow> bytes" where
  "header_payload m = map byte_of_char (json_dumps (JObj (metadata_fields m)))"

definition pack_block_first_header :: "'d torch_api \<Rightarrow> disk_metadata \<Rightarrow> bytes res" where
  "pack_block_first_header T m =
     (case validate T m of
        Some e \<Rightarrow> Inl e
      | None \<Rightarrow>
          let payload = header_payload m in
          if nat BLOCK_FIRST_HEADER_SIZE - 16 < length payload
            then Inl (BlockFirstFormatError ''metadata is too large for the 4 KiB header'')
          else
            let prefix = header_magic @ le_bytes 4 (length payload) @ le_bytes 4 (unat (crc32 payload)) in
            Inr (prefix @ payload @
              replicate (nat BLOCK_FIRST_HEADER_SIZE - length prefix - length payload) 0))"

definition ascii_text :: "bytes \<Rightarrow> string option" where
  "ascii_text bs = (if \<forall>b \<in> set bs. unat b < 128 then Some (map char_of_byte bs) else None)"

definition unpack_block_first_header :: "'d torch_api \<Rightarrow> bytes \<Rightarrow> disk_metadata res" where
  "unpack_block_first_header T buffer =
     (if length buffer < nat BLOCK_FIRST_HEADER_SIZE
        then Inl (BlockFirstFormatError ''short block-first header'')
      else
        let magic = take 8 buffer;
            payload_len = le_value (take 4 (drop 8 buffer));
            checksum = le_value (take 4 (drop 12 buffer)) in
        if magic \<noteq> header_magic then Inl (BlockFirstFormatError ''block-first header magic mismatch'')
        else if payload_len = 0 \<or> nat BLOCK_FIRST_HEADER_SIZE - 16 < payload_len
          then Inl (BlockFirstFormatError ''invalid metadata length'')
        else
          let payload = take payload_len (drop 16 buffer) in
          if unat (crc32 payload) \<noteq> checksum
            then Inl (BlockFirstFormatError ''block-first header checksum mismatch'')
          else (case ascii_text payload of
              None \<Rightarrow> Inl (BlockFirstFormatError ''invalid block-first JSON'')
            | Some t \<Rightarrow>
                (case json_loads t of
                   None \<Rightarrow> Inl (BlockFirstFormatError ''invalid block-first JSON'')
                 | Some kvs \<Rightarrow> from_mapping T kvs)))"

section \<open>Round trip\<close>

lemma json_ints_map: "json_ints (map JInt xs) = Some xs"
  by (induction xs) auto

lemma metadata_of_fields_fields: "metadata_of_fields (metadata_fields m) = Some m"
  by (simp add: metadata_of_fields_def metadata_fields_def field_names_def field_int_def field_str_def
      field_ints_def ints_json_def json_ints_map)

lemma flat_fields: "\<forall>(k, v) \<in> set (metadata_fields m). flat v"
  by (auto simp: metadata_fields_def ints_json_def list_all_iff)

text \<open>JSON text is ASCII.\<close>

definition ascii :: "string \<Rightarrow> bool" where
  "ascii s \<longleftrightarrow> (\<forall>c \<in> set s. (of_char c :: nat) < 128)"

lemma ascii_append [simp]: "ascii (s @ t) \<longleftrightarrow> ascii s \<and> ascii t"
  by (auto simp: ascii_def)

lemma ascii_Nil [simp]: "ascii []"
  by (simp add: ascii_def)

lemma ascii_Cons: "ascii (c # s) \<longleftrightarrow> (of_char c :: nat) < 128 \<and> ascii s"
  by (simp add: ascii_def)

lemma ascii_concat: "(\<And>x. x \<in> set xs \<Longrightarrow> ascii x) \<Longrightarrow> ascii (concat xs)"
  by (induction xs) auto

lemma ascii_join: "ascii sep \<Longrightarrow> (\<And>x. x \<in> set xs \<Longrightarrow> ascii x) \<Longrightarrow> ascii (join_with sep xs)"
  by (induction sep xs rule: join_with.induct) auto

lemma ascii_hex_digit: "(of_char (hex_digit n) :: nat) < 128"
proof -
  have "n mod 16 \<in> set [0..<16]" by simp
  then show ?thesis by (auto simp: upt_conv_Cons hex_digit_def)
qed

lemma ascii_hex_word: "ascii (hex_word k n)"
  by (induction k arbitrary: n) (auto simp: ascii_Cons ascii_hex_digit)

lemma ascii_int_str: "ascii (int_str i)"
proof -
  have "ascii (nat_str n)" for n
    using nat_str_digits [of n] by (fastforce simp: ascii_def is_digit_def)
  then show ?thesis by (simp add: int_str_def ascii_Cons)
qed

lemma ascii_json_str: "ascii (json_str s)"
proof -
  have "ascii (json_escape_char c)" for c
    by (auto simp: json_escape_char_def Let_def ascii_Cons ascii_hex_word)
  then show ?thesis by (auto simp: json_str_def ascii_Cons intro!: ascii_concat)
qed

lemma ascii_json_dumps: "ascii (json_dumps v)"
proof (induction v)
  case (JList vs)
  then show ?case by (auto simp: ascii_Cons intro!: ascii_join)
next
  case (JObj kvs)
  then show ?case by (fastforce simp: ascii_Cons ascii_json_str intro!: ascii_join)
qed (simp_all add: ascii_int_str ascii_json_str)

lemma ascii_text_bytes: "ascii s \<Longrightarrow> ascii_text (map byte_of_char s) = Some s"
proof -
  have "unat (byte_of_char c) = (of_char c :: nat)" for c
    using nat_of_char_less_256 [of c] by (simp add: byte_of_char_def unat_byte_of_nat)
  moreover assume "ascii s"
  ultimately show ?thesis by (auto simp: ascii_text_def ascii_def comp_def)
qed

lemma header_payload_nonempty: "header_payload m \<noteq> []"
  by (simp add: header_payload_def)

lemma unpack_packed:
  assumes "validate T m = None" and "length (header_payload m) \<le> 4080"
  shows "\<exists>buf. pack_block_first_header T m = Inr buf \<and> length buf = 4096 \<and>
    unpack_block_first_header T (buf @ rest) = Inr m"
proof -
  let ?p = "header_payload m"
  let ?pre = "header_magic @ le_bytes 4 (length ?p) @ le_bytes 4 (unat (crc32 ?p))"
  let ?buf = "?pre @ ?p @ replicate (4096 - length ?pre - length ?p) 0"
  have hm: "length header_magic = 8" by (simp add: header_magic_def)
  have pk: "pack_block_first_header T m = Inr ?buf"
    using assms by (simp add: pack_block_first_header_def Let_def BLOCK_FIRST_HEADER_SIZE_def)
  have len: "length ?buf = 4096" using assms(2) hm by simp
  have crc: "unat (crc32 ?p) < 256 ^ 4"
    by (rule order.strict_trans2 [OF unsigned_less]) simp
  have lv: "le_value (le_bytes 4 (length ?p)) = length ?p" "le_value (le_bytes 4 (unat (crc32 ?p))) = unat (crc32 ?p)"
    using assms(2) crc by (simp_all add: le_value_le_bytes)
  have tk: "take 8 (?buf @ rest) = header_magic" "take 4 (drop 8 (?buf @ rest)) = le_bytes 4 (length ?p)"
      "take 4 (drop 12 (?buf @ rest)) = le_bytes 4 (unat (crc32 ?p))"
      "take (length ?p) (drop 16 (?buf @ rest)) = ?p"
    using hm by simp_all
  have js: "ascii_text ?p = Some (json_dumps (JObj (metadata_fields m)))"
    unfolding header_payload_def by (rule ascii_text_bytes [OF ascii_json_dumps])
  have ne: "length ?p \<noteq> 0" using header_payload_nonempty by simp
  have ge: "\<not> length (?buf @ rest) < nat BLOCK_FIRST_HEADER_SIZE"
    using len by (simp add: BLOCK_FIRST_HEADER_SIZE_def)
  have "unpack_block_first_header T (?buf @ rest) = from_mapping T (metadata_fields m)"
    unfolding unpack_block_first_header_def Let_def tk lv js
    using ne ge assms(2)
    by (simp add: BLOCK_FIRST_HEADER_SIZE_def json_loads_dumps [OF flat_fields] del: json_dumps.simps)
  also have "\<dots> = Inr m" using assms(1) by (simp add: from_mapping_def metadata_of_fields_fields)
  finally show ?thesis using pk len by blast
qed

section \<open>The codec is sound\<close>

text \<open>
  C39: What the writer puts on disk the reader takes back: for valid metadata whose JSON text fits, the
  header is exactly 4 KiB, and the reader returns the same metadata from it, whatever follows in the
  file; metadata that does not fit or is not valid is refused, never truncated.
\<close>

theorem header_roundtrip:
  shows "case pack_block_first_header T m of
      Inr buf \<Rightarrow> length buf = 4096 \<and> unpack_block_first_header T (buf @ rest) = Inr m
    | Inl e \<Rightarrow> validate T m = Some e \<or> 4080 < length (header_payload m)"
proof (cases "validate T m = None \<and> length (header_payload m) \<le> 4080")
  case True
  then show ?thesis using unpack_packed [of T m rest] by auto
next
  case False
  then show ?thesis
    by (auto simp: pack_block_first_header_def Let_def BLOCK_FIRST_HEADER_SIZE_def split: option.splits)
qed

text \<open>
  In the fragment that is modelled the reader accepts nothing it cannot vouch for: any metadata it returns was read from at least
  4 KiB, under the magic number, from a payload whose CRC-32 equals the stored checksum, and passes
  validation.
\<close>

theorem unpack_sound:
  assumes "unpack_block_first_header T buffer = Inr m"
  shows "4096 \<le> length buffer \<and> take 8 buffer = header_magic \<and> validate T m = None \<and>
    (\<exists>n. 0 < n \<and> n \<le> 4080 \<and> le_value (take 4 (drop 8 buffer)) = n \<and>
       le_value (take 4 (drop 12 buffer)) = unat (crc32 (take n (drop 16 buffer))))"
  using assms
  by (auto simp: unpack_block_first_header_def from_mapping_def Let_def BLOCK_FIRST_HEADER_SIZE_def not_less
      split: if_splits option.splits)

lemma length_json_str: "length (json_str s) \<le> 6 * length s + 2"
proof -
  have "length (json_escape_char c) \<le> 6" for c by (simp add: json_escape_char_def Let_def)
  then have "length (concat (map json_escape_char s)) \<le> 6 * length s"
    by (induction s) (auto simp: add_le_mono)
  then show ?thesis by (simp add: json_str_def)
qed

lemma demo_header_fits:
  assumes "create demo_torch [2, 3, 8, 16] Float16 4 ''m'' 2 1 2 1 = Inr m"
  shows "length (header_payload m) \<le> 4080"
proof -
  obtain sg where sg: "length sg = 64" and m: "m = \<lparr>m_layout = BLOCK_FIRST_LAYOUT, m_version = 1,
      m_logical_shape = [2, 3, 8, 16], m_payload_shape = [2, 3, 2, 4, 16], m_dtype = ''float16'',
      m_valid_tokens = 8, m_num_layers = 3, m_block_size = 4, m_hidden_dim = 16, m_payload_nbytes = 1536,
      m_io_nbytes = 4096, m_model_name = ''m'', m_world_size = 2, m_worker_id = 1,
      m_tensor_parallel_size = 2, m_pipeline_parallel_size = 1, m_layout_signature = sg\<rparr>"
  proof -
    have n: "dtype_name demo_torch Float16 = Inr ''float16''"
      by (simp add: dtype_name_def demo_torch_def)
    obtain sg where sg: "make_layout_signature demo_torch ''m'' 2 1 2 1 3 4 16 Float16 = Inr sg"
      using make_layout_signature_total [OF demo_torch_ok] by blast
    then have "length sg = 64" using n by (auto simp: make_layout_signature_def)
    moreover have "align_up 1536 BLOCK_FIRST_ALIGNMENT = Inr 4096"
      by (simp add: align_up_def BLOCK_FIRST_ALIGNMENT_def)
    ultimately show thesis
      using assms n sg that
      by (auto simp: create_def Let_def demo_torch_def BLOCK_FIRST_VERSION_def split: option.splits)
  qed
  have "length (json_str sg) \<le> 386" using length_json_str [of sg] sg by simp
  then show ?thesis
    by (simp add: header_payload_def metadata_fields_def m ints_json_def BLOCK_FIRST_LAYOUT_def
        int_str_def nat_str.simps json_str_def json_escape_char_def)
qed

theorem unpack_sound_witness:
  "\<exists>buf m. unpack_block_first_header demo_torch buf = Inr m \<and> validate demo_torch m = None \<and>
     take 8 buf = header_magic"
proof -
  obtain m where m: "create demo_torch [2, 3, 8, 16] Float16 4 ''m'' 2 1 2 1 = Inr m"
      "validate demo_torch m = None" using demo_metadata by blast
  obtain buf where "unpack_block_first_header demo_torch (buf @ []) = Inr m"
    using unpack_packed [OF m(2) demo_header_fits [OF m(1)], of "[]"] by blast
  with unpack_sound [OF this] show ?thesis by blast
qed

end
