(* ===== verification/Direct_Io.thy ===== *)
theory Direct_Io
  imports Disk_Layout "HOL-Library.Multiset"
begin

text \<open>
  The byte-range descriptors of synchronous direct I/O (\<^verbatim>\<open>storage_backend/direct_io.py\<close>): their
  data, their validation, and the planner for block-first KV allocations, which turns token slots
  into runs of physical blocks. The planners for per-layer allocations are in the theory
  \<open>Layer_Plans\<close>. Byte counts, block numbers and token numbers are Python integers.
\<close>

section \<open>Data\<close>

datatype direction = STORE | RETRIEVE

record block_run =
  run_logical :: int
  run_physical :: int
  run_count :: int

record leading_edge =
  edge_logical_block :: int
  edge_physical_block :: int
  edge_token_offset :: int
  edge_token_count :: int

text \<open>
  A lifetime token only keeps tensors alive: it is the list of the identities of the tensors held,
  \<open>None\<close> where the source has \<^verbatim>\<open>None\<close>.
\<close>

type_synonym lifetime = "nat list option"

record allocation =
  alloc_device :: torch_device
  alloc_base :: int
  alloc_nbytes :: int
  alloc_lifetime :: lifetime

record byte_segment =
  seg_file_offset :: int
  seg_allocation :: int
  seg_allocation_offset :: int
  seg_nbytes :: int

record descriptor =
  d_direction :: direction
  d_device :: torch_device
  d_allocation_base :: int
  d_allocation_nbytes :: int
  d_engine_group_id :: int
  d_block_nbytes :: int
  d_block_size :: int
  d_logical_block_start :: int
  d_logical_block_count :: int
  d_valid_token_start :: int
  d_valid_token_count :: int
  d_runs :: "block_run list"
  d_leading_edge :: "leading_edge option"
  d_file_payload_offset :: int
  d_synchronous :: bool
  d_lifetime :: lifetime
  d_allocations :: "allocation list"
  d_byte_segments :: "byte_segment list"
  d_physical_block_ids :: "int list"

type_synonym alloc_identity = "string \<times> int \<times> int"

definition identity :: "allocation \<Rightarrow> alloc_identity" where
  "identity a = (device_str (alloc_device a), alloc_base a, alloc_nbytes a)"

definition registration_allocations :: "descriptor \<Rightarrow> allocation list" where
  "registration_allocations d =
     (if d_allocations d \<noteq> [] then d_allocations d
      else [\<lparr>alloc_device = d_device d, alloc_base = d_allocation_base d,
             alloc_nbytes = d_allocation_nbytes d, alloc_lifetime = d_lifetime d\<rparr>])"

definition transferred_nbytes :: "descriptor \<Rightarrow> int" where
  "transferred_nbytes d =
     (if d_byte_segments d \<noteq> [] then sum_list (map seg_nbytes (d_byte_segments d))
      else d_logical_block_count d * d_block_nbytes d)"

section \<open>Validation\<close>

text \<open>
  The loop over the runs returns the number of blocks they transfer, or the error it raises.
\<close>

fun check_runs :: "int \<Rightarrow> int \<Rightarrow> int \<Rightarrow> block_run list \<Rightarrow> int res" where
  "check_runs capacity expected_logical transferred [] = Inr transferred"
| "check_runs capacity expected_logical transferred (r # rs) =
     (if run_logical r \<noteq> expected_logical \<or> run_physical r < 0 \<or> run_count r \<le> 0
        then Inl (ValueError ''direct I/O runs are invalid or not logically contiguous'')
      else if capacity < run_physical r + run_count r
        then Inl (ValueError ''direct I/O run exceeds the registered allocation'')
      else check_runs capacity (expected_logical + run_count r) (transferred + run_count r) rs)"

definition check_allocation :: "torch_device \<Rightarrow> bool \<Rightarrow> bool \<Rightarrow> allocation \<Rightarrow> exn option" where
  "check_allocation dev require_cuda require_alignment a = first_error
     [(require_cuda \<and> dev_type (alloc_device a) \<noteq> ''cuda'',
        ValueError ''direct I/O requires CUDA allocations''),
      (alloc_device a \<noteq> dev, ValueError ''direct I/O allocations must use one device''),
      (alloc_base a \<le> 0 \<or> alloc_nbytes a \<le> 0,
        ValueError ''direct I/O allocation range must be positive''),
      (alloc_lifetime a = None, ValueError ''direct I/O allocation must retain its lifetime''),
      (require_alignment \<and> (alloc_base a mod BLOCK_FIRST_ALIGNMENT \<noteq> 0 \<or>
          alloc_nbytes a mod BLOCK_FIRST_ALIGNMENT \<noteq> 0),
        ValueError ''direct I/O allocation is not 4 KiB aligned'')]"

text \<open>The loop over the sorted segments returns the file offset it expects after the last one.\<close>

fun check_segments :: "allocation list \<Rightarrow> bool \<Rightarrow> int \<Rightarrow> byte_segment list \<Rightarrow> int res" where
  "check_segments allocs require_alignment expected [] = Inr expected"
| "check_segments allocs require_alignment expected (s # ss) =
     (if seg_file_offset s \<noteq> expected
        then Inl (ValueError ''direct I/O byte segments do not exactly cover the file'')
      else if seg_allocation s < 0 \<or> int (length allocs) \<le> seg_allocation s
        then Inl (ValueError ''direct I/O segment references an unknown allocation'')
      else if seg_allocation_offset s < 0 \<or> seg_nbytes s \<le> 0 \<or>
          alloc_nbytes (allocs ! nat (seg_allocation s)) < seg_allocation_offset s + seg_nbytes s
        then Inl (ValueError ''direct I/O segment exceeds its registered allocation'')
      else if require_alignment \<and> (\<exists>v \<in> set [seg_file_offset s, seg_allocation_offset s, seg_nbytes s].
          v mod BLOCK_FIRST_ALIGNMENT \<noteq> 0)
        then Inl (ValueError ''direct I/O byte segment is not 4 KiB aligned'')
      else check_segments allocs require_alignment (expected + seg_nbytes s) ss)"

definition validate_byte_segments :: "descriptor \<Rightarrow> bool \<Rightarrow> bool \<Rightarrow> exn option" where
  "validate_byte_segments d require_cuda require_alignment =
     (case first_error
        [(d_direction d \<noteq> RETRIEVE, ValueError ''byte-segment direct I/O only supports retrieve''),
         (d_runs d \<noteq> [] \<or> d_leading_edge d \<noteq> None,
           ValueError ''byte-segment direct I/O cannot contain block runs or edges''),
         (d_allocations d = [] \<or> d_byte_segments d = [],
           ValueError ''byte-segment direct I/O requires allocations and segments''),
         (d_valid_token_start d \<noteq> d_logical_block_start d * d_block_size d,
           ValueError ''byte-segment direct I/O requires a block-aligned token start''),
         (d_valid_token_count d \<noteq> d_logical_block_count d * d_block_size d,
           ValueError ''byte-segment direct I/O token count is inconsistent'')] of
        Some e \<Rightarrow> Some e
      | None \<Rightarrow>
          (case first_error_in (check_allocation (d_device d) require_cuda require_alignment)
              (d_allocations d) of
             Some e \<Rightarrow> Some e
           | None \<Rightarrow>
               (case check_segments (d_allocations d) require_alignment
                   (d_file_payload_offset d + d_logical_block_start d * d_block_nbytes d)
                   (sort_key seg_file_offset (d_byte_segments d)) of
                  Inl e \<Rightarrow> Some e
                | Inr file_end \<Rightarrow>
                    if file_end \<noteq> d_file_payload_offset d +
                        (d_logical_block_start d + d_logical_block_count d) * d_block_nbytes d
                      then Some (ValueError ''direct I/O byte segments do not cover the declared blocks'')
                    else None)))"

definition check_tokens :: "descriptor \<Rightarrow> int \<Rightarrow> exn option" where
  "check_tokens d capacity =
     (case d_leading_edge d of
        None \<Rightarrow> first_error
          [(d_valid_token_start d \<noteq> d_logical_block_start d * d_block_size d,
             ValueError ''valid token start does not match the logical block range''),
           (d_valid_token_count d \<noteq> d_logical_block_count d * d_block_size d,
             ValueError ''valid token count does not match the direct I/O ranges'')]
      | Some e \<Rightarrow> first_error
          [(d_direction d \<noteq> RETRIEVE, ValueError ''only direct retrieve can contain a leading edge''),
           (edge_logical_block e < 0 \<or> edge_physical_block e < 0 \<or> capacity \<le> edge_physical_block e \<or>
              edge_token_offset e \<le> 0 \<or> d_block_size d \<le> edge_token_offset e \<or>
              edge_token_count e \<noteq> d_block_size d - edge_token_offset e,
             ValueError ''direct I/O leading edge is invalid''),
           (d_logical_block_start d \<noteq> edge_logical_block e + 1,
             ValueError ''direct I/O full runs must follow the leading edge''),
           (d_valid_token_start d \<noteq> edge_logical_block e * d_block_size d + edge_token_offset e,
             ValueError ''valid token start does not match the leading edge''),
           (d_valid_token_count d \<noteq> edge_token_count e + d_logical_block_count d * d_block_size d,
             ValueError ''valid token count does not match the direct I/O ranges'')])"

definition validate_descriptor :: "descriptor \<Rightarrow> bool \<Rightarrow> bool \<Rightarrow> exn option" where
  "validate_descriptor d require_cuda require_alignment =
     (case first_error
        [(require_cuda \<and> dev_type (d_device d) \<noteq> ''cuda'',
           ValueError ''direct I/O requires a CUDA allocation''),
         (d_allocation_base d \<le> 0 \<or> d_allocation_nbytes d \<le> 0,
           ValueError ''direct I/O allocation address and size must be positive''),
         (d_engine_group_id d < 0, ValueError ''engine_group_id must be non-negative''),
         (d_block_nbytes d \<le> 0 \<or> d_block_size d \<le> 0,
           ValueError ''direct I/O block sizes must be positive''),
         (d_logical_block_start d < 0 \<or> d_logical_block_count d < 0,
           ValueError ''direct I/O logical block range is invalid''),
         (d_logical_block_count d = 0 \<and> d_leading_edge d = None,
           ValueError ''direct I/O descriptor has no transferable blocks''),
         (d_lifetime d = None, ValueError ''direct I/O descriptor must hold its allocation lifetime''),
         (\<not> d_synchronous d, ValueError ''0.4.2 direct I/O only supports synchronous completion''),
         (d_file_payload_offset d \<noteq> BLOCK_FIRST_HEADER_SIZE,
           ValueError ''unexpected block_first_v1 payload offset'')] of
        Some e \<Rightarrow> Some e
      | None \<Rightarrow>
          if d_byte_segments d \<noteq> [] then validate_byte_segments d require_cuda require_alignment
          else
            let capacity = d_allocation_nbytes d div d_block_nbytes d in
            (case check_runs capacity (d_logical_block_start d) 0 (d_runs d) of
               Inl e \<Rightarrow> Some e
             | Inr transferred \<Rightarrow>
                 if transferred \<noteq> d_logical_block_count d
                   then Some (ValueError ''direct I/O runs do not cover the declared logical range'')
                 else if (d_runs d \<noteq> []) \<noteq> (0 < d_logical_block_count d)
                   then Some (ValueError ''direct I/O runs do not match the declared block count'')
                 else case check_tokens d capacity of
                   Some e \<Rightarrow> Some e
                 | None \<Rightarrow>
                     if require_alignment
                       then first_error (map (\<lambda>v. (v mod BLOCK_FIRST_ALIGNMENT \<noteq> 0,
                              ValueError ''direct I/O value is not 4 KiB aligned''))
                            [d_allocation_base d, d_allocation_nbytes d, d_block_nbytes d,
                             d_file_payload_offset d])
                     else None))"

section \<open>What an accepted descriptor guarantees\<close>

text \<open>
  The blocks a run moves: file block \<open>run_logical + i\<close> and device block \<open>run_physical + i\<close>.
\<close>

definition run_pairs :: "block_run \<Rightarrow> (int \<times> int) list" where
  "run_pairs r =
     zip (int_range (run_logical r) (nat (run_count r))) (int_range (run_physical r) (nat (run_count r)))"

definition block_pairs :: "descriptor \<Rightarrow> (int \<times> int) list" where
  "block_pairs d = concat (map run_pairs (d_runs d))"

lemma map_fst_run_pairs: "map fst (run_pairs r) = int_range (run_logical r) (nat (run_count r))"
  by (simp add: run_pairs_def)

lemma set_run_pairs_physical:
  "(l, p) \<in> set (run_pairs r) \<Longrightarrow> run_physical r \<le> p \<and> p < run_physical r + run_count r"
  by (auto simp: run_pairs_def dest!: set_zip_rightD simp: set_int_range split: if_splits)

lemma check_runs_Inr:
  assumes "check_runs cap l t rs = Inr t'"
  shows "t \<le> t' \<and> map fst (concat (map run_pairs rs)) = int_range l (nat (t' - t)) \<and>
    (\<forall>(l, p) \<in> set (concat (map run_pairs rs)). 0 \<le> p \<and> p < cap)"
  using assms
proof (induction cap l t rs rule: check_runs.induct)
  case (1 cap l t)
  then show ?case by simp
next
  case (2 cap l t r rs)
  from "2.prems" have c: "run_logical r = l" "0 \<le> run_physical r" "0 < run_count r"
      "run_physical r + run_count r \<le> cap"
    and rest: "check_runs cap (l + run_count r) (t + run_count r) rs = Inr t'"
    by (auto split: if_splits)
  have IH: "t + run_count r \<le> t' \<and>
      map fst (concat (map run_pairs rs)) = int_range (l + run_count r) (nat (t' - (t + run_count r))) \<and>
      (\<forall>(l, p) \<in> set (concat (map run_pairs rs)). 0 \<le> p \<and> p < cap)"
    by (rule "2.IH") (use c rest in auto)
  have "map fst (concat (map run_pairs (r # rs))) =
      int_range l (nat (run_count r)) @ int_range (l + run_count r) (nat (t' - (t + run_count r)))"
    using IH c by (simp add: map_fst_run_pairs)
  also have "\<dots> = int_range l (nat (t' - t))"
    using IH c by (subst int_range_nat_append) auto
  finally show ?case
    using IH c by (fastforce dest: set_run_pairs_physical)
qed

lemma validate_descriptor_runs:
  assumes "validate_descriptor d rc ra = None" and "d_byte_segments d = []"
  shows "check_runs (d_allocation_nbytes d div d_block_nbytes d) (d_logical_block_start d) 0 (d_runs d) =
      Inr (d_logical_block_count d)"
    and "check_tokens d (d_allocation_nbytes d div d_block_nbytes d) = None"
    and "0 < d_block_nbytes d" and "0 < d_allocation_nbytes d" and "0 < d_block_size d"
    and "0 \<le> d_logical_block_start d" and "0 \<le> d_logical_block_count d"
  using assms
  by (auto simp: validate_descriptor_def guard_simps Let_def split: option.splits sum.splits if_splits)

text \<open>
  A run descriptor that passes validation moves every block of its declared logical range exactly
  once, in file order, and every device range it touches, the blocks of its runs and the block of its
  leading edge alike, lies inside the registered allocation.
\<close>

theorem validated_runs_cover:
  assumes "validate_descriptor d rc ra = None" and "d_byte_segments d = []"
  shows "map fst (block_pairs d) = int_range (d_logical_block_start d) (nat (d_logical_block_count d)) \<and>
    (\<forall>(l, p) \<in> set (block_pairs d).
       0 \<le> p * d_block_nbytes d \<and> (p + 1) * d_block_nbytes d \<le> d_allocation_nbytes d) \<and>
    (case d_leading_edge d of None \<Rightarrow> True
     | Some e \<Rightarrow> edge_logical_block e + 1 = d_logical_block_start d \<and>
         0 \<le> edge_physical_block e * d_block_nbytes d \<and>
         (edge_physical_block e + 1) * d_block_nbytes d \<le> d_allocation_nbytes d)"
proof -
  note v = validate_descriptor_runs [OF assms]
  have inside: "0 \<le> p * d_block_nbytes d \<and> (p + 1) * d_block_nbytes d \<le> d_allocation_nbytes d"
    if "0 \<le> p" and "p < d_allocation_nbytes d div d_block_nbytes d" for p
  proof -
    have "(p + 1) * d_block_nbytes d \<le> d_allocation_nbytes d div d_block_nbytes d * d_block_nbytes d"
      using that v(3) by (intro mult_right_mono) auto
    also have "\<dots> \<le> d_allocation_nbytes d"
      using v(3) by (simp add: minus_mod_eq_div_mult [symmetric])
    finally show ?thesis using that v(3) by simp
  qed
  have runs: "map fst (block_pairs d) = int_range (d_logical_block_start d) (nat (d_logical_block_count d)) \<and>
      (\<forall>(l, p) \<in> set (block_pairs d). 0 \<le> p \<and> p < d_allocation_nbytes d div d_block_nbytes d)"
    using check_runs_Inr [OF v(1)] by (simp add: block_pairs_def)
  have edge: "edge_logical_block e + 1 = d_logical_block_start d \<and> 0 \<le> edge_physical_block e \<and>
      edge_physical_block e < d_allocation_nbytes d div d_block_nbytes d" if "d_leading_edge d = Some e" for e
    using v(2) that by (auto simp: check_tokens_def guard_simps split: if_splits)
  show ?thesis using runs edge inside by (fastforce split: option.splits)
qed

lemma check_segments_Inr:
  assumes "check_segments allocs ra e ss = Inr e'"
  shows "e' = e + sum_list (map seg_nbytes ss) \<and> e \<le> e' \<and>
    (\<forall>i < length ss. seg_file_offset (ss ! i) = e + sum_list (map seg_nbytes (take i ss))) \<and>
    (\<forall>s \<in> set ss. 0 \<le> seg_allocation s \<and> nat (seg_allocation s) < length allocs \<and> 0 < seg_nbytes s \<and>
       0 \<le> seg_allocation_offset s \<and>
       seg_allocation_offset s + seg_nbytes s \<le> alloc_nbytes (allocs ! nat (seg_allocation s)))"
  using assms
proof (induction allocs ra e ss rule: check_segments.induct)
  case (1 allocs ra e)
  then show ?case by simp
next
  case (2 allocs ra e s ss)
  from "2.prems" have c: "seg_file_offset s = e" "0 \<le> seg_allocation s" "0 < seg_nbytes s"
      "nat (seg_allocation s) < length allocs" "0 \<le> seg_allocation_offset s"
      "seg_allocation_offset s + seg_nbytes s \<le> alloc_nbytes (allocs ! nat (seg_allocation s))"
    and rest: "check_segments allocs ra (e + seg_nbytes s) ss = Inr e'"
    by (auto split: if_splits)
  have "e' = e + seg_nbytes s + sum_list (map seg_nbytes ss) \<and> e + seg_nbytes s \<le> e' \<and>
    (\<forall>i < length ss. seg_file_offset (ss ! i) = e + seg_nbytes s + sum_list (map seg_nbytes (take i ss))) \<and>
    (\<forall>s \<in> set ss. 0 \<le> seg_allocation s \<and> nat (seg_allocation s) < length allocs \<and> 0 < seg_nbytes s \<and>
       0 \<le> seg_allocation_offset s \<and>
       seg_allocation_offset s + seg_nbytes s \<le> alloc_nbytes (allocs ! nat (seg_allocation s)))"
    by (rule "2.IH") (use "2.prems" c rest in \<open>auto split: if_splits\<close>)
  with c show ?case by (auto simp: less_Suc_eq_0_disj)
qed

text \<open>
  A byte-segment descriptor that passes validation reads the file range of its declared blocks
  without gap or overlap: in file order each segment starts where the one before ends, the first at
  the range's start and the last at its end; the bytes it reports as transferred are that range; and
  every segment lies inside the allocation it names.
\<close>

theorem validated_segments_tile:
  assumes "validate_descriptor d rc ra = None" and "d_byte_segments d \<noteq> []"
  defines "ss \<equiv> sort_key seg_file_offset (d_byte_segments d)"
    and "base \<equiv> 4096 + d_logical_block_start d * d_block_nbytes d"
  shows "(\<forall>i < length ss. seg_file_offset (ss ! i) = base + sum_list (map seg_nbytes (take i ss))) \<and>
    transferred_nbytes d = d_logical_block_count d * d_block_nbytes d \<and>
    (\<forall>s \<in> set (d_byte_segments d). 0 < seg_nbytes s \<and> 0 \<le> seg_allocation_offset s \<and>
       nat (seg_allocation s) < length (registration_allocations d) \<and>
       seg_allocation_offset s + seg_nbytes s \<le>
         alloc_nbytes (registration_allocations d ! nat (seg_allocation s)))"
proof -
  have vb: "validate_byte_segments d rc ra = None" and off: "d_file_payload_offset d = 4096"
    using assms(1,2)
    by (auto simp: validate_descriptor_def guard_simps BLOCK_FIRST_HEADER_SIZE_def split: option.splits if_splits)
  have seg: "check_segments (d_allocations d) ra base ss =
      Inr (4096 + (d_logical_block_start d + d_logical_block_count d) * d_block_nbytes d)"
    and al: "d_allocations d \<noteq> []"
    using vb off by (auto simp: validate_byte_segments_def guard_simps ss_def base_def
        split: option.splits sum.splits if_splits)
  note c = check_segments_Inr [OF seg]
  have "mset ss = mset (d_byte_segments d)" by (simp add: ss_def)
  then have "sum_list (map seg_nbytes ss) = sum_list (map seg_nbytes (d_byte_segments d))"
    by (metis mset_map sum_mset_sum_list)
  moreover have "sum_list (map seg_nbytes ss) = d_logical_block_count d * d_block_nbytes d"
    using c by (simp add: base_def algebra_simps)
  moreover have "set ss = set (d_byte_segments d)" by (simp add: ss_def)
  ultimately show ?thesis
    using c assms(2) al by (simp add: transferred_nbytes_def registration_allocations_def)
qed

definition demo_device :: torch_device where
  "demo_device = \<lparr>dev_type = ''cuda'', dev_index = Some 0\<rparr>"

definition demo_runs_descriptor :: descriptor where
  "demo_runs_descriptor =
     \<lparr>d_direction = RETRIEVE, d_device = demo_device, d_allocation_base = 8192,
      d_allocation_nbytes = 65536, d_engine_group_id = 0, d_block_nbytes = 4096, d_block_size = 16,
      d_logical_block_start = 1, d_logical_block_count = 3, d_valid_token_start = 4,
      d_valid_token_count = 60,
      d_runs = [\<lparr>run_logical = 1, run_physical = 7, run_count = 2\<rparr>,
                \<lparr>run_logical = 3, run_physical = 2, run_count = 1\<rparr>],
      d_leading_edge = Some \<lparr>edge_logical_block = 0, edge_physical_block = 5, edge_token_offset = 4,
        edge_token_count = 12\<rparr>,
      d_file_payload_offset = 4096, d_synchronous = True, d_lifetime = Some [1], d_allocations = [],
      d_byte_segments = [], d_physical_block_ids = [7, 8, 2]\<rparr>"

theorem validated_runs_cover_witness:
  "validate_descriptor demo_runs_descriptor True True = None \<and>
   map fst (block_pairs demo_runs_descriptor) = int_range 1 3"
proof -
  have v: "validate_descriptor demo_runs_descriptor True True = None"
    by (simp add: validate_descriptor_def demo_runs_descriptor_def demo_device_def check_tokens_def
        BLOCK_FIRST_HEADER_SIZE_def BLOCK_FIRST_ALIGNMENT_def)
  with validated_runs_cover [OF v] show ?thesis by (simp add: demo_runs_descriptor_def)
qed

definition demo_segments_descriptor :: descriptor where
  "demo_segments_descriptor = demo_runs_descriptor
     \<lparr>d_logical_block_start := 0, d_logical_block_count := 1, d_valid_token_start := 0,
      d_valid_token_count := 16, d_runs := [], d_leading_edge := None, d_block_nbytes := 8192,
      d_allocations := [\<lparr>alloc_device = demo_device, alloc_base = 8192, alloc_nbytes = 65536,
        alloc_lifetime = Some [1]\<rparr>],
      d_byte_segments :=
        [\<lparr>seg_file_offset = 8192, seg_allocation = 0, seg_allocation_offset = 0, seg_nbytes = 4096\<rparr>,
         \<lparr>seg_file_offset = 4096, seg_allocation = 0, seg_allocation_offset = 16384, seg_nbytes = 4096\<rparr>]\<rparr>"

theorem validated_segments_tile_witness:
  "validate_descriptor demo_segments_descriptor True True = None \<and>
   transferred_nbytes demo_segments_descriptor = 8192"
proof -
  have v: "validate_descriptor demo_segments_descriptor True True = None"
    by (simp add: validate_descriptor_def demo_segments_descriptor_def demo_runs_descriptor_def
        demo_device_def validate_byte_segments_def check_allocation_def
        BLOCK_FIRST_HEADER_SIZE_def BLOCK_FIRST_ALIGNMENT_def)
  have ne: "d_byte_segments demo_segments_descriptor \<noteq> []"
    by (simp add: demo_segments_descriptor_def)
  have "transferred_nbytes demo_segments_descriptor =
      d_logical_block_count demo_segments_descriptor * d_block_nbytes demo_segments_descriptor"
    using validated_segments_tile [OF v ne] by blast
  with v show ?thesis by (simp add: demo_segments_descriptor_def)
qed

end
