(* ===== verification/Block_Plans.thy ===== *)
theory Block_Plans
  imports Direct_Io
begin

text \<open>
  \<^verbatim>\<open>build_block_first_direct_plans\<close> of \<^verbatim>\<open>storage_backend/direct_io.py\<close>: the translation of
  token slots into runs of physical blocks of one block-first KV allocation. A plan carries a
  descriptor, or the reason for which the caller falls back to staged I/O.
\<close>

section \<open>Tensors as the planner sees them\<close>

text \<open>
  What the planners read of a KV cache tensor: its shape, strides, element size, addresses and the
  storage behind it. The identity stands for the tensor object in lifetime tokens.
\<close>

record 'd kv_tensor =
  kv_shape :: "int list"
  kv_stride :: "int list"
  kv_contiguous :: bool
  kv_dtype :: 'd
  kv_device :: torch_device
  kv_element_size :: int
  kv_data_ptr :: int
  kv_storage_ptr :: int
  kv_storage_nbytes :: int
  kv_identity :: nat

record plan =
  plan_descriptor :: "descriptor option"
  plan_reason :: "string option"

definition fallback :: "string \<Rightarrow> plan" where
  "fallback reason = \<lparr>plan_descriptor = None, plan_reason = Some reason\<rparr>"

definition direct :: "descriptor \<Rightarrow> plan" where
  "direct d = \<lparr>plan_descriptor = Some d, plan_reason = None\<rparr>"

lemma plan_descriptor_simps [simp]:
  "plan_descriptor (fallback r) = None" "plan_descriptor (direct d) = Some d"
  by (simp_all add: fallback_def direct_def)

section \<open>The range checks all planners share\<close>

text \<open>
  The chain of checks on the token ranges that opens every planner, run once the starts are known
  to be non-empty: \<^verbatim>\<open>min(starts) < 0\<close>, an empty range, a slot mapping that is too short.
\<close>

definition check_ranges :: "int list \<Rightarrow> int list \<Rightarrow> int list \<Rightarrow> exn option" where
  "check_ranges slot_mapping starts ends = first_error
     [((\<exists>s \<in> set starts. s < 0) \<or> (\<exists>(s, e) \<in> set (zip starts ends). e \<le> s),
        ValueError ''direct I/O token ranges must be non-empty and non-negative''),
      (\<exists>e \<in> set ends. int (length slot_mapping) < e,
        ValueError ''slot mapping is shorter than the requested token range'')]"

section \<open>Slots to physical blocks\<close>

fun scan_blocks :: "int \<Rightarrow> int \<Rightarrow> int list list \<Rightarrow> string + int list" where
  "scan_blocks block_size num_physical_blocks [] = Inr []"
| "scan_blocks block_size num_physical_blocks (slot_block # rest) =
     (let first_slot = hd slot_block in
      if first_slot < 0 \<or> first_slot mod block_size \<noteq> 0
        then Inl ''physical block does not start at slot offset zero''
      else
        let physical_block = first_slot div block_size in
        if num_physical_blocks \<le> physical_block
          then Inl ''slot mapping references a block outside the allocation''
        else if slot_block \<noteq> int_range (physical_block * block_size) (nat block_size)
          then Inl ''tokens do not cover one complete physical block''
        else (case scan_blocks block_size num_physical_blocks rest of
                Inl reason \<Rightarrow> Inl reason
              | Inr bs \<Rightarrow> Inr (physical_block # bs)))"

text \<open>
  The loop that merges consecutive physical blocks into runs, with the source's variables: the
  logical start, the offset of the next block, and the start and length of the open run.
\<close>

fun coalesce :: "int \<Rightarrow> int \<Rightarrow> int \<Rightarrow> int \<Rightarrow> int \<Rightarrow> int list \<Rightarrow> block_run list" where
  "coalesce logical_start offset run_l run_p run_c [] =
     [\<lparr>run_logical = run_l, run_physical = run_p, run_count = run_c\<rparr>]"
| "coalesce logical_start offset run_l run_p run_c (physical_block # bs) =
     (if physical_block = run_p + run_c then coalesce logical_start (offset + 1) run_l run_p (run_c + 1) bs
      else \<lparr>run_logical = run_l, run_physical = run_p, run_count = run_c\<rparr> #
        coalesce logical_start (offset + 1) (logical_start + offset) physical_block 1 bs)"

definition runs_of_blocks :: "int \<Rightarrow> int list \<Rightarrow> block_run list" where
  "runs_of_blocks logical_start physical_blocks =
     (case physical_blocks of [] \<Rightarrow> [] | p # bs \<Rightarrow> coalesce logical_start 1 logical_start p 1 bs)"

section \<open>The plan of one chunk\<close>

definition leading_edge_of ::
    "int list \<Rightarrow> int \<Rightarrow> int \<Rightarrow> int \<Rightarrow> int \<Rightarrow> leading_edge option" where
  "leading_edge_of slot_mapping block_size num_physical_blocks start skip_tokens =
     (let edge_offset = skip_tokens mod block_size;
          edge_token_count = block_size - edge_offset;
          edge_slots = py_slice slot_mapping (start + skip_tokens) (start + skip_tokens + edge_token_count);
          first_slot = hd edge_slots;
          physical_block = first_slot div block_size
      in if first_slot < 0 \<or> first_slot mod block_size \<noteq> edge_offset \<or>
            num_physical_blocks \<le> physical_block \<or>
            edge_slots \<noteq> int_range (physical_block * block_size + edge_offset) (nat edge_token_count)
         then None
         else Some \<lparr>edge_logical_block = skip_tokens div block_size,
                    edge_physical_block = physical_block, edge_token_offset = edge_offset,
                    edge_token_count = edge_token_count\<rparr>)"

definition finish_plan ::
    "'d kv_tensor \<Rightarrow> int list \<Rightarrow> direction \<Rightarrow> int \<Rightarrow> int \<Rightarrow> int \<Rightarrow> int \<Rightarrow> leading_edge option \<Rightarrow> int \<Rightarrow> plan res" where
  "finish_plan kv slot_mapping dir block_size start fin skip_tokens edge full_start_tokens =
     (let chunk_tokens = fin - start;
          allocation_nbytes = prod_list (kv_shape kv) * kv_element_size kv;
          block_nbytes = kv_shape kv ! 1 * kv_shape kv ! 2 * kv_shape kv ! 3 * kv_shape kv ! 4 *
            kv_shape kv ! 5 * kv_element_size kv;
          slots = py_slice slot_mapping (start + full_start_tokens) fin
      in if int (length slots) mod block_size \<noteq> 0 then Inr (fallback ''slot range is not block aligned'')
         else (case scan_blocks block_size (kv_shape kv ! 0) (rows (nat block_size) slots) of
             Inl reason \<Rightarrow> Inr (fallback reason)
           | Inr physical_blocks \<Rightarrow>
               let logical_start = full_start_tokens div block_size;
                   d = \<lparr>d_direction = dir, d_device = kv_device kv, d_allocation_base = kv_data_ptr kv,
                        d_allocation_nbytes = allocation_nbytes, d_engine_group_id = 0,
                        d_block_nbytes = block_nbytes, d_block_size = block_size,
                        d_logical_block_start = logical_start,
                        d_logical_block_count = int (length physical_blocks),
                        d_valid_token_start = skip_tokens,
                        d_valid_token_count = chunk_tokens - skip_tokens,
                        d_runs = runs_of_blocks logical_start physical_blocks, d_leading_edge = edge,
                        d_file_payload_offset = BLOCK_FIRST_HEADER_SIZE, d_synchronous = True,
                        d_lifetime = Some [kv_identity kv], d_allocations = [], d_byte_segments = [],
                        d_physical_block_ids = physical_blocks\<rparr>
               in (case validate_descriptor d False False of Some e \<Rightarrow> Inl e | None \<Rightarrow> Inr (direct d))))"

definition chunk_plan ::
    "'d kv_tensor \<Rightarrow> int list \<Rightarrow> direction \<Rightarrow> int \<Rightarrow> int \<Rightarrow> int \<times> int \<Rightarrow> plan res" where
  "chunk_plan kv slot_mapping dir block_size skip_before rng =
     (case rng of (start, fin) \<Rightarrow>
       let chunk_tokens = fin - start in
       if chunk_tokens mod block_size \<noteq> 0 then Inr (fallback ''chunk is not a whole number of blocks'')
       else
         let skip_tokens = (if dir = RETRIEVE then min chunk_tokens (max 0 (skip_before - start)) else 0) in
         if skip_tokens = chunk_tokens then Inr (fallback ''no uncached physical blocks remain'')
         else if skip_tokens mod block_size \<noteq> 0 then
           (case leading_edge_of slot_mapping block_size (kv_shape kv ! 0) start skip_tokens of
              None \<Rightarrow> Inr (fallback ''leading edge does not map one physical block'')
            | Some edge \<Rightarrow> finish_plan kv slot_mapping dir block_size start fin skip_tokens (Some edge)
                (skip_tokens + edge_token_count edge))
         else finish_plan kv slot_mapping dir block_size start fin skip_tokens None skip_tokens)"

definition build_block_first_direct_plans ::
    "'d kv_tensor \<Rightarrow> int list \<Rightarrow> int list \<Rightarrow> int list \<Rightarrow> direction \<Rightarrow> int \<Rightarrow> int \<Rightarrow> plan list res" where
  "build_block_first_direct_plans kv slot_mapping starts ends dir block_size skip_before =
     (let all_fallback = (\<lambda>reason. Inr (replicate (length starts) (fallback reason))) in
      if length (kv_shape kv) \<noteq> 6 \<or> kv_shape kv ! 2 \<noteq> 2
        then all_fallback ''KV allocation is not [NB, NL, 2, BS, NH, HS]''
      else if \<not> kv_contiguous kv then all_fallback ''KV allocation is not contiguous''
      else if block_size \<le> 0 \<or> kv_shape kv ! 3 \<noteq> block_size then all_fallback ''KV block size mismatch''
      else if length starts \<noteq> length ends
        then Inl (ValueError ''starts and ends must have the same length'')
      else if starts = [] then Inr []
      else case check_ranges slot_mapping starts ends of
        Some e \<Rightarrow> Inl e
      | None \<Rightarrow> traverse (chunk_plan kv slot_mapping dir block_size skip_before) (zip starts ends))"

section \<open>The loops\<close>

lemma scan_blocks_Inr:
  assumes "scan_blocks bs nb rs = Inr ps"
  shows "length ps = length rs \<and> (\<forall>p \<in> set ps. 0 \<le> p * bs \<and> p < nb) \<and>
    (\<forall>i < length rs. rs ! i = int_range (ps ! i * bs) (nat bs))"
  using assms
proof (induction bs nb rs arbitrary: ps rule: scan_blocks.induct)
  case (1 bs nb)
  then show ?case by simp
next
  case (2 bs nb r rs)
  let ?p = "hd r div bs"
  from "2.prems" have c: "0 \<le> hd r" "hd r mod bs = 0" "?p < nb" "r = int_range (?p * bs) (nat bs)"
    by (auto simp: Let_def split: if_splits)
  from "2.prems" c obtain ps' where ps': "scan_blocks bs nb rs = Inr ps'" and ps: "ps = ?p # ps'"
    by (auto simp: Let_def split: if_splits sum.splits)
  have IH: "length ps' = length rs \<and> (\<forall>p \<in> set ps'. 0 \<le> p * bs \<and> p < nb) \<and>
      (\<forall>i < length rs. rs ! i = int_range (ps' ! i * bs) (nat bs))"
    by (rule "2.IH") (use c ps' in auto)
  have "?p * bs = hd r" using c(2) by (metis add.right_neutral div_mult_mod_eq)
  with c IH show ?case by (auto simp: ps less_Suc_eq_0_disj)
qed

lemma scan_blocks_complete:
  assumes "0 < bs"
    and "list_all2 (\<lambda>r p. r = int_range (p * bs) (nat bs) \<and> 0 \<le> p \<and> p < nb) rs ps"
  shows "scan_blocks bs nb rs = Inr ps"
  using assms(2)
proof (induction rs ps rule: list_all2_induct)
  case Nil
  then show ?case by simp
next
  case (Cons r rs p ps)
  from assms(1) have "hd (int_range (p * bs) (nat bs)) = p * bs"
    by (simp add: hd_int_range)
  with Cons assms(1) show ?case by (simp add: Let_def mult_less_0_iff)
qed

lemma coalesce_pairs:
  assumes "run_l + run_c = ls + off" and "0 < run_c"
  shows "concat (map run_pairs (coalesce ls off run_l run_p run_c bs)) =
    zip (int_range run_l (nat run_c)) (int_range run_p (nat run_c)) @ zip (int_range (ls + off) (length bs)) bs"
  using assms
proof (induction ls off run_l run_p run_c bs rule: coalesce.induct)
  case (1 ls off run_l run_p run_c)
  then show ?case by (simp add: run_pairs_def)
next
  case (2 ls off run_l run_p run_c b bs)
  have tail: "zip (int_range (ls + off) (Suc (length bs))) (b # bs) =
      (ls + off, b) # zip (int_range (ls + (off + 1)) (length bs)) bs"
    by (simp add: int_range_Suc algebra_simps)
  have one: "int_range x (nat 1) = [x]" for x by simp
  show ?case
  proof (cases "b = run_p + run_c")
    case True
    have snoc: "int_range x (nat (run_c + 1)) = int_range x (nat run_c) @ [x + run_c]" for x
      using int_range_nat_append [of run_c 1 x] "2.prems" by (simp add: one)
    have "concat (map run_pairs (coalesce ls off run_l run_p run_c (b # bs))) =
        zip (int_range run_l (nat (run_c + 1))) (int_range run_p (nat (run_c + 1))) @
        zip (int_range (ls + (off + 1)) (length bs)) bs"
      using True "2.IH"(1) "2.prems" by simp
    with True "2.prems" show ?thesis by (simp add: snoc int_range_Suc add.assoc)
  next
    case False
    have "concat (map run_pairs (coalesce ls off run_l run_p run_c (b # bs))) =
        run_pairs \<lparr>run_logical = run_l, run_physical = run_p, run_count = run_c\<rparr> @
        zip (int_range (ls + off) (nat 1)) (int_range b (nat 1)) @
        zip (int_range (ls + (off + 1)) (length bs)) bs"
      using False "2.IH"(2) by simp
    then show ?thesis by (simp only: one tail list.size(4) add_0_right add_Suc_right) (simp add: run_pairs_def)
  qed
qed

lemma runs_of_blocks_pairs:
  "concat (map run_pairs (runs_of_blocks ls ps)) = zip (int_range ls (length ps)) ps"
proof (cases ps)
  case Nil
  then show ?thesis by (simp add: runs_of_blocks_def)
next
  case (Cons p bs)
  have one: "int_range x (nat 1) = [x]" for x by simp
  have "concat (map run_pairs (runs_of_blocks ls ps)) =
      [(ls, p)] @ zip (int_range (ls + 1) (length bs)) bs"
    using coalesce_pairs [of ls 1 ls 1 p bs] by (simp add: runs_of_blocks_def Cons)
  then show ?thesis by (simp add: Cons int_range_Suc)
qed

lemma check_runs_coalesce:
  assumes "0 < run_c" and "0 \<le> run_p" and "run_p + run_c \<le> cap" and "run_l + run_c = ls + off"
    and "\<forall>b \<in> set bs. 0 \<le> b \<and> b < cap"
  shows "check_runs cap run_l t (coalesce ls off run_l run_p run_c bs) = Inr (t + run_c + int (length bs))"
  using assms
proof (induction ls off run_l run_p run_c bs arbitrary: t rule: coalesce.induct)
  case (1 ls off run_l run_p run_c)
  then show ?case by simp
next
  case (2 ls off run_l run_p run_c b bs)
  show ?case
  proof (cases "b = run_p + run_c")
    case True
    with 2 show ?thesis by simp
  next
    case False
    with "2.IH"(2) [OF False, of "t + run_c"] "2.prems" show ?thesis by simp
  qed
qed

lemma check_runs_of_blocks:
  assumes "\<forall>b \<in> set ps. 0 \<le> b \<and> b < cap"
  shows "check_runs cap l 0 (runs_of_blocks l ps) = Inr (int (length ps))"
  using assms check_runs_coalesce [of 1 "hd ps" cap l l 1 "tl ps" 0]
  by (cases ps) (auto simp: runs_of_blocks_def)

lemma runs_of_blocks_Nil_iff: "runs_of_blocks l ps = [] \<longleftrightarrow> ps = []"
proof (cases ps)
  case (Cons p bs)
  have "coalesce a b c d e xs \<noteq> []" for a b c d e xs
    by (induction a b c d e xs rule: coalesce.induct) auto
  then show ?thesis by (simp add: runs_of_blocks_def Cons)
qed (simp add: runs_of_blocks_def)

section \<open>What a descriptor does to a token\<close>

text \<open>
  The device slot into which a run descriptor moves token \<open>t\<close> of the chunk: through the run that
  holds the token's block, or through the leading edge; \<open>None\<close> when the token is not moved.
\<close>

definition token_slot :: "descriptor \<Rightarrow> int \<Rightarrow> int option" where
  "token_slot d t =
     (let b = t div d_block_size d; j = t mod d_block_size d in
      case map_of (block_pairs d) b of
        Some p \<Rightarrow> Some (p * d_block_size d + j)
      | None \<Rightarrow>
          (case d_leading_edge d of
             None \<Rightarrow> None
           | Some e \<Rightarrow>
               if b = edge_logical_block e \<and> edge_token_offset e \<le> j
                 then Some (edge_physical_block e * d_block_size d + j) else None))"

lemma map_of_zip_int_range:
  assumes "i < length ps"
  shows "map_of (zip (int_range a (length ps)) ps) (a + int i) = Some (ps ! i)"
  using map_of_zip_nth [of "int_range a (length ps)" ps i] assms by simp

lemma map_of_zip_int_range_None:
  "b < a \<Longrightarrow> map_of (zip (int_range a (length ps)) ps) b = None"
  by (auto simp: map_of_eq_None_iff set_int_range dest: set_zip_leftD)

text \<open>The slots of whole blocks, read row by row.\<close>

lemma scanned_slot:
  assumes sc: "scan_blocks bs nb (rows (nat bs) (py_slice slots a b)) = Inr ps"
    and "0 < bs" and "0 \<le> a" and "a \<le> b" and "b \<le> int (length slots)" and "b - a = k * bs"
    and "0 \<le> u" and "u < b - a"
  shows "length ps = nat k" and "nat (u div bs) < length ps"
    and "slots ! nat (a + u) = ps ! nat (u div bs) * bs + u mod bs"
proof -
  let ?s = "py_slice slots a b"
  let ?n = "nat bs"
  have k: "0 \<le> k" using assms by (metis diff_ge_0_iff_ge mult_neg_pos not_le not_less_iff_gr_or_eq)
  have n: "0 < ?n" using assms(2) by simp
  have len: "length ?s = nat k * ?n"
    using assms k by (simp add: length_py_slice nat_mult_distrib)
  have rl: "length (rows ?n ?s) = nat k" "\<forall>r \<in> set (rows ?n ?s). length r = ?n"
    using rows_length [OF n len] by auto
  note s = scan_blocks_Inr [OF sc]
  show lp: "length ps = nat k" using s rl by simp
  have "u div bs < k"
    using assms(2,6,8) by (intro div_less_if_less_mult) auto
  then show i: "nat (u div bs) < length ps"
    using lp k assms(2,7) pos_imp_zdiv_nonneg_iff [of bs u] by simp
  define i where "i = nat (u div bs)"
  define j where "j = nat (u mod bs)"
  have j: "j < ?n" using assms(2) by (simp add: j_def nat_less_iff)
  have "int (i * ?n + j) = u"
    using assms(2,7) pos_imp_zdiv_nonneg_iff [of bs u] by (simp add: i_def j_def)
  then have u: "nat u = i * ?n + j" by linarith
  have "slots ! nat (a + u) = slots ! (nat a + nat u)" using assms by (simp add: nat_add_distrib)
  also have "\<dots> = ?s ! nat u"
    using nth_py_slice [of a b slots "nat u"] assms by simp
  also have "\<dots> = concat (rows ?n ?s) ! (i * ?n + j)" using concat_rows [OF n, of ?s] u by simp
  also have "\<dots> = rows ?n ?s ! i ! j"
    by (rule concat_uniform_nth [OF rl(2)]) (use i rl lp j in \<open>auto simp: i_def\<close>)
  also have "\<dots> = ps ! i * bs + u mod bs"
    using s i rl lp j assms(2) by (simp add: i_def j_def)
  finally show "slots ! nat (a + u) = ps ! nat (u div bs) * bs + u mod bs" by (simp add: i_def)
qed

section \<open>Descriptors of the planner\<close>

text \<open>What torch guarantees of a non-empty allocation with six dimensions.\<close>

definition kv_tensor_ok :: "'d kv_tensor \<Rightarrow> bool" where
  "kv_tensor_ok kv \<longleftrightarrow>
     (\<forall>d \<in> set (kv_shape kv). 0 < d) \<and> 0 < kv_element_size kv \<and> 0 < kv_data_ptr kv"

definition skip_of :: "direction \<Rightarrow> int \<Rightarrow> int \<Rightarrow> int \<Rightarrow> int" where
  "skip_of dir skip_before start chunk_tokens =
     (if dir = RETRIEVE then min chunk_tokens (max 0 (skip_before - start)) else 0)"

lemma finish_plan_sound:
  assumes fin: "finish_plan kv slots dir bs start fn skip edge full = Inr pl" "plan_descriptor pl = Some d"
    and rng: "0 < bs" "0 \<le> start" "fn \<le> int (length slots)" "0 \<le> full" "start + full \<le> fn"
    and blk: "bs dvd full" "fn - (start + full) = k * bs"
  shows "validate_descriptor d False False = None \<and> d_block_size d = bs \<and> d_leading_edge d = edge \<and>
    d_valid_token_start d = skip \<and>
    (\<forall>t \<in> {full..<fn - start}. token_slot d t = Some (slots ! nat (start + t))) \<and>
    (\<forall>b < full div bs. map_of (block_pairs d) b = None)"
proof -
  obtain ps where sc: "scan_blocks bs (kv_shape kv ! 0) (rows (nat bs) (py_slice slots (start + full) fn)) = Inr ps"
    and d: "validate_descriptor d False False = None" "d_block_size d = bs" "d_leading_edge d = edge"
      "d_valid_token_start d = skip" "d_runs d = runs_of_blocks (full div bs) ps"
    using fin by (auto simp: finish_plan_def Let_def split: if_splits sum.splits option.splits)
  have bp: "block_pairs d = zip (int_range (full div bs) (length ps)) ps"
    by (simp add: block_pairs_def d runs_of_blocks_pairs)
  have "token_slot d t = Some (slots ! nat (start + t))" if t: "t \<in> {full..<fn - start}" for t
  proof -
    define u where "u = t - full"
    have u: "0 \<le> u" "u < fn - (start + full)" and t': "t = full + u" using t by (auto simp: u_def)
    note sl = scanned_slot [OF sc rng(1) _ rng(5,3) blk(2) u]
    have i: "nat (u div bs) < length ps" and v: "slots ! nat (start + full + u) = ps ! nat (u div bs) * bs + u mod bs"
      using sl rng by simp_all
    have "t div bs = full div bs + int (nat (u div bs))"
      using u(1) rng(1) pos_imp_zdiv_nonneg_iff [of bs u] by (simp add: t' div_add_mult [OF blk(1)])
    moreover have "t mod bs = u mod bs" by (simp add: t' mod_add_mult [OF blk(1)])
    ultimately show ?thesis
      using map_of_zip_int_range [OF i, of "full div bs"] v
      by (simp add: token_slot_def Let_def d bp t' add.assoc)
  qed
  with d bp show ?thesis by (auto simp: map_of_zip_int_range_None)
qed

lemma chunk_plan_skip:
  "chunk_plan kv slots dir bs skip_before (start, fn) =
     (let skip = skip_of dir skip_before start (fn - start) in
      if (fn - start) mod bs \<noteq> 0 then Inr (fallback ''chunk is not a whole number of blocks'')
      else if skip = fn - start then Inr (fallback ''no uncached physical blocks remain'')
      else if skip mod bs \<noteq> 0 then
        (case leading_edge_of slots bs (kv_shape kv ! 0) start skip of
           None \<Rightarrow> Inr (fallback ''leading edge does not map one physical block'')
         | Some edge \<Rightarrow> finish_plan kv slots dir bs start fn skip (Some edge) (skip + edge_token_count edge))
      else finish_plan kv slots dir bs start fn skip None skip)"
  by (simp only: chunk_plan_def skip_of_def Let_def prod.case)

lemma chunk_plan_sound:
  assumes pl: "chunk_plan kv slots dir bs skip_before (start, fn) = Inr pl" "plan_descriptor pl = Some d"
    and rng: "0 < bs" "0 \<le> start" "start < fn" "fn \<le> int (length slots)"
  defines "skip \<equiv> skip_of dir skip_before start (fn - start)"
  shows "validate_descriptor d False False = None \<and> d_valid_token_start d = skip \<and>
    (\<forall>t \<in> {skip..<fn - start}. token_slot d t = Some (slots ! nat (start + t))) \<and>
    (\<forall>t \<in> {0..<skip}. token_slot d t = None)"
proof -
  note cp = chunk_plan_skip [of kv slots dir bs skip_before start fn, folded skip_def, unfolded Let_def]
  have chunk0: "(fn - start) mod bs = 0" and lt: "skip \<noteq> fn - start"
    using pl unfolding cp by (auto split: if_splits)
  then have chunk: "bs dvd fn - start" by (simp add: mod_0_imp_dvd)
  have sk: "0 \<le> skip" "skip < fn - start"
    using lt rng by (auto simp: skip_def skip_of_def split: if_splits)
  show ?thesis
  proof (cases "bs dvd skip")
    case True
    have f: "finish_plan kv slots dir bs start fn skip None skip = Inr pl"
      using pl(1) chunk0 lt dvd_imp_mod_0 [OF True] unfolding cp by simp
    have "bs dvd fn - (start + skip)" using chunk True by (metis diff_diff_eq dvd_diff)
    then obtain k where k: "fn - (start + skip) = k * bs" by (metis dvd_def mult.commute)
    note s = finish_plan_sound [OF f pl(2) rng(1,2,4) sk(1) _ True k]
    have below: "token_slot d t = None" if "t \<in> {0..<skip}" for t
    proof -
      have "t div bs < skip div bs"
        using that rng(1) True by (intro div_less_if_less_mult) auto
      then show ?thesis using s sk by (simp add: token_slot_def Let_def)
    qed
    show ?thesis using s sk below by simp
  next
    case False
    then have part: "skip mod bs \<noteq> 0" by (metis mod_0_imp_dvd)
    obtain e where e: "leading_edge_of slots bs (kv_shape kv ! 0) start skip = Some e"
      using pl chunk0 lt part unfolding cp by (auto split: option.splits)
    let ?o = "skip mod bs"
    let ?full = "skip + edge_token_count e"
    have f: "finish_plan kv slots dir bs start fn skip (Some e) ?full = Inr pl"
      using pl(1) part chunk0 lt e unfolding cp by simp
    have ef: "edge_token_count e = bs - ?o" "edge_logical_block e = skip div bs" "edge_token_offset e = ?o"
      and es: "py_slice slots (start + skip) (start + skip + (bs - ?o)) =
          int_range (edge_physical_block e * bs + ?o) (nat (bs - ?o))"
      using e by (auto simp: leading_edge_of_def Let_def split: if_splits)
    have o: "0 < ?o" "?o < bs"
      using part rng(1) pos_mod_sign [of bs skip] pos_mod_bound [of bs skip] by linarith+
    have full: "?full = (skip div bs + 1) * bs"
      using div_mult_mod_eq [of skip bs] by (simp add: ef algebra_simps)
    have fdiv: "?full div bs = skip div bs + 1" and fdvd: "bs dvd ?full" using full rng(1) by simp_all
    have "skip div bs < (fn - start) div bs"
    proof (rule div_less_if_less_mult [OF rng(1)])
      show "skip < (fn - start) div bs * bs" using sk chunk by simp
    qed
    then have "(skip div bs + 1) * bs \<le> (fn - start) div bs * bs"
      using rng(1) by (intro mult_right_mono) auto
    then have le: "start + ?full \<le> fn" using full chunk by simp
    have "bs dvd fn - (start + ?full)" using chunk fdvd by (metis diff_diff_eq dvd_diff)
    then obtain k where k: "fn - (start + ?full) = k * bs" by (metis dvd_def mult.commute)
    have full0: "0 \<le> ?full" using sk o ef by simp
    note s = finish_plan_sound [OF f pl(2) rng(1,2,4) full0 le fdvd k]
    have below: "\<forall>b < ?full div bs. map_of (block_pairs d) b = None" using s by simp
    have edge: "token_slot d t = (if skip \<le> t then Some (edge_physical_block e * bs + t mod bs) else None)"
      if "t \<in> {0..<?full}" for t
    proof -
      have tb: "t div bs < ?full div bs"
        using that fdvd by (intro div_less_if_less_mult [OF rng(1)]) auto
      then have none: "map_of (block_pairs d) (t div bs) = None" by (rule below [rule_format])
      have "skip \<le> t \<longleftrightarrow> t div bs = skip div bs \<and> ?o \<le> t mod bs"
      proof
        assume "skip \<le> t"
        then have "skip div bs \<le> t div bs" using rng(1) by (rule zdiv_mono1)
        with tb have "t div bs = skip div bs" by (simp add: fdiv)
        moreover from this have "t div bs * bs = skip div bs * bs" by simp
        with \<open>skip \<le> t\<close> have "?o \<le> t mod bs"
          using div_mult_mod_eq [of t bs] div_mult_mod_eq [of skip bs] by linarith
        ultimately show "t div bs = skip div bs \<and> ?o \<le> t mod bs" by simp
      next
        assume "t div bs = skip div bs \<and> ?o \<le> t mod bs"
        moreover from this have "t div bs * bs = skip div bs * bs" by simp
        ultimately show "skip \<le> t"
          using div_mult_mod_eq [of t bs] div_mult_mod_eq [of skip bs] by linarith
      qed
      then show ?thesis using s none by (auto simp: token_slot_def Let_def ef)
    qed
    have val: "slots ! nat (start + t) = edge_physical_block e * bs + t mod bs" if "t \<in> {skip..<?full}" for t
    proof -
      have ti: "nat (t - skip) < nat (bs - ?o)" using that ef by simp
      have le': "start + skip + (bs - ?o) \<le> int (length slots)" using le ef rng(4) by simp
      have "slots ! nat (start + t) = slots ! (nat (start + skip) + nat (t - skip))"
        using that sk rng(2) by (simp add: nat_add_distrib [symmetric])
      also have "\<dots> = py_slice slots (start + skip) (start + skip + (bs - ?o)) ! nat (t - skip)"
        using nth_py_slice [of "start + skip" "start + skip + (bs - ?o)" slots "nat (t - skip)"]
          ti sk rng(2) le' by simp
      also have "\<dots> = edge_physical_block e * bs + (?o + (t - skip))"
        using ti that by (simp add: es)
      also have "?o + (t - skip) = t mod bs"
      proof -
        have "t = skip div bs * bs + (?o + (t - skip))" using div_mult_mod_eq [of skip bs] by linarith
        moreover have "0 \<le> ?o + (t - skip)" "?o + (t - skip) < bs" using that ef o by auto
        ultimately show ?thesis
          by (metis mod_mult_self3 mod_pos_pos_trivial)
      qed
      finally show ?thesis by simp
    qed
    have "token_slot d t = Some (slots ! nat (start + t))" if "t \<in> {skip..<fn - start}" for t
    proof (cases "t < ?full")
      case True
      then show ?thesis using edge [of t] val [of t] that sk by auto
    next
      case False
      then show ?thesis using s that by auto
    qed
    moreover have "token_slot d t = None" if "t \<in> {0..<skip}" for t
      using edge [of t] that o ef by auto
    ultimately show ?thesis using s by blast
  qed
qed

lemma build_block_first_Inr:
  assumes "build_block_first_direct_plans kv slots starts ends dir bs skip_before = Inr plans"
    and "i < length plans" and "plan_descriptor (plans ! i) \<noteq> None"
  shows "length plans = length starts" and "length ends = length starts" and "0 < bs"
    and "chunk_plan kv slots dir bs skip_before (starts ! i, ends ! i) = Inr (plans ! i)"
    and "0 \<le> starts ! i" and "starts ! i < ends ! i" and "ends ! i \<le> int (length slots)"
proof -
  have run: "traverse (chunk_plan kv slots dir bs skip_before) (zip starts ends) = Inr plans"
    and c: "length starts = length ends" "0 < bs" "check_ranges slots starts ends = None"
    using assms by (auto simp: build_block_first_direct_plans_def Let_def split: if_splits option.splits)
  have l2: "list_all2 (\<lambda>x y. chunk_plan kv slots dir bs skip_before x = Inr y) (zip starts ends) plans"
    using run by (simp add: traverse_Inr_iff)
  then show len: "length plans = length starts" "length ends = length starts" "0 < bs"
    using c by (auto dest: list_all2_lengthD)
  show "chunk_plan kv slots dir bs skip_before (starts ! i, ends ! i) = Inr (plans ! i)"
    using list_all2_nthD2 [OF l2 assms(2)] assms(2) len by simp
  have i: "i < length starts" "i < length ends" using len assms(2) by auto
  then have "(starts ! i, ends ! i) \<in> set (zip starts ends)" "starts ! i \<in> set starts" "ends ! i \<in> set ends"
    by (force simp: set_zip)+
  then have "0 \<le> starts ! i \<and> starts ! i < ends ! i \<and> ends ! i \<le> int (length slots)"
    using c(3) unfolding check_ranges_def guard_simps by (force simp: not_less)
  then show "0 \<le> starts ! i" "starts ! i < ends ! i" "ends ! i \<le> int (length slots)" by auto
qed

section \<open>The planner never raises on valid ranges\<close>

definition kv_block_first :: "'d kv_tensor \<Rightarrow> int \<Rightarrow> bool" where
  "kv_block_first kv bs \<longleftrightarrow>
     length (kv_shape kv) = 6 \<and> kv_shape kv ! 2 = 2 \<and> kv_shape kv ! 3 = bs \<and> kv_contiguous kv"

lemma six_dims:
  assumes "length xs = 6"
  shows "xs = [xs ! 0, xs ! 1, xs ! 2, xs ! 3, xs ! 4, xs ! 5]"
  using assms by (auto simp: numeral_eq_Suc length_Suc_conv)

lemma block_capacity:
  assumes "kv_tensor_ok kv" and "length (kv_shape kv) = 6"
  defines "block \<equiv> kv_shape kv ! 1 * kv_shape kv ! 2 * kv_shape kv ! 3 * kv_shape kv ! 4 * kv_shape kv ! 5 *
      kv_element_size kv"
  shows "0 < block" and "0 < prod_list (kv_shape kv) * kv_element_size kv"
    and "prod_list (kv_shape kv) * kv_element_size kv div block = kv_shape kv ! 0"
proof -
  obtain a b c d e f where s: "kv_shape kv = [a, b, c, d, e, f]" using six_dims [OF assms(2)] by blast
  have pos: "0 < a" "0 < b" "0 < c" "0 < d" "0 < e" "0 < f" "0 < kv_element_size kv"
    using assms(1) by (simp_all add: kv_tensor_ok_def s)
  have bl: "block = b * c * d * e * f * kv_element_size kv" by (simp add: block_def s)
  show bp: "0 < block" using pos by (simp add: bl)
  have al: "prod_list (kv_shape kv) * kv_element_size kv = a * block"
    by (simp add: s bl algebra_simps)
  show "0 < prod_list (kv_shape kv) * kv_element_size kv" using pos bp unfolding al by simp
  show "prod_list (kv_shape kv) * kv_element_size kv div block = kv_shape kv ! 0"
    using bp unfolding al by (simp add: s)
qed

text \<open>The block ids a scan collects are blocks of the allocation.\<close>

lemma scan_blocks_range:
  assumes "scan_blocks bs nb rs = Inr ps" and "0 < bs"
  shows "\<forall>p \<in> set ps. 0 \<le> p \<and> p < nb"
  using scan_blocks_Inr [OF assms(1)] assms(2) by (simp add: zero_le_mult_iff)

definition edge_ok :: "direction \<Rightarrow> int \<Rightarrow> int \<Rightarrow> int \<Rightarrow> int \<Rightarrow> leading_edge option \<Rightarrow> bool" where
  "edge_ok dir bs nb skip full edge \<longleftrightarrow>
     (case edge of
        None \<Rightarrow> full = skip
      | Some e \<Rightarrow> dir = RETRIEVE \<and> edge_logical_block e = skip div bs \<and> 0 \<le> edge_physical_block e \<and>
          edge_physical_block e < nb \<and> edge_token_offset e = skip mod bs \<and> 0 < skip mod bs \<and>
          edge_token_count e = bs - skip mod bs \<and> full = skip + edge_token_count e)"

lemma validate_run_descriptor:
  assumes "d_allocation_base d > 0" "d_allocation_nbytes d > 0" "d_engine_group_id d = 0"
    "d_block_nbytes d > 0" "d_block_size d > 0" "d_logical_block_start d \<ge> 0"
    "d_logical_block_count d \<ge> 0" "d_logical_block_count d = 0 \<Longrightarrow> d_leading_edge d \<noteq> None"
    "d_lifetime d \<noteq> None" "d_synchronous d" "d_file_payload_offset d = BLOCK_FIRST_HEADER_SIZE"
    "d_byte_segments d = []"
    "check_runs (d_allocation_nbytes d div d_block_nbytes d) (d_logical_block_start d) 0 (d_runs d) =
      Inr (d_logical_block_count d)"
    "(d_runs d \<noteq> []) = (0 < d_logical_block_count d)"
    "check_tokens d (d_allocation_nbytes d div d_block_nbytes d) = None"
  shows "validate_descriptor d False False = None"
  using assms by (cases "d_logical_block_count d = 0") (simp_all add: validate_descriptor_def Let_def)

lemma finish_plan_total:
  assumes kv: "kv_tensor_ok kv" "length (kv_shape kv) = 6"
    and rng: "0 < bs" "0 \<le> start" "fn \<le> int (length slots)" "0 \<le> skip" "skip < fn - start"
      "0 \<le> full" "start + full \<le> fn"
    and blk: "bs dvd full" "fn - (start + full) = k * bs"
    and e: "edge_ok dir bs (kv_shape kv ! 0) skip full edge"
    and sc: "scan_blocks bs (kv_shape kv ! 0) (rows (nat bs) (py_slice slots (start + full) fn)) = Inr ps"
  shows "\<exists>d. finish_plan kv slots dir bs start fn skip edge full = Inr (direct d) \<and>
    d_physical_block_ids d = ps \<and> d_direction d = dir \<and> d_valid_token_start d = skip \<and>
    d_valid_token_count d = fn - start - skip"
proof -
  let ?s = "py_slice slots (start + full) fn"
  have k: "0 \<le> k" using blk(2) rng by (metis diff_ge_0_iff_ge mult_neg_pos not_le not_less_iff_gr_or_eq)
  have len: "length ?s = nat k * nat bs"
    using rng blk k by (simp add: length_py_slice nat_mult_distrib)
  have lps: "int (length ps) = k"
    using scan_blocks_Inr [OF sc] rows_length [of "nat bs" ?s "nat k"] len rng(1) k by simp
  have mod0: "int (length ?s) mod bs = 0" using len rng(1) by simp
  have fdm: "full div bs * bs = full" using blk(1) by simp
  note cap = block_capacity [OF kv]
  note cr = check_runs_of_blocks [OF scan_blocks_range [OF sc rng(1)], of "full div bs"]
  have fl: "0 \<le> full div bs" using rng by (simp add: pos_imp_zdiv_nonneg_iff)
  have cnt: "fn - start - full = k * bs" using blk(2) by simp
  have ne: "edge = None \<Longrightarrow> length ps \<noteq> 0"
    using e rng cnt lps by (auto simp: edge_ok_def)
  have re: "(runs_of_blocks (full div bs) ps \<noteq> []) = (0 < int (length ps))"
    by (simp add: runs_of_blocks_Nil_iff)
  have edge: "\<And>x. edge = Some x \<Longrightarrow> dir = RETRIEVE \<and> 0 \<le> edge_logical_block x \<and> 0 \<le> edge_physical_block x \<and>
      edge_physical_block x < kv_shape kv ! 0 \<and> 0 < edge_token_offset x \<and> edge_token_offset x < bs \<and>
      edge_token_count x = bs - edge_token_offset x \<and> full div bs = edge_logical_block x + 1 \<and>
      skip = edge_logical_block x * bs + edge_token_offset x \<and>
      fn - start - skip = edge_token_count x + int (length ps) * bs"
  proof -
    fix x assume x: "edge = Some x"
    have f: "skip + (bs - skip mod bs) = (skip div bs + 1) * bs"
      by (simp add: distrib_right minus_mod_eq_div_mult)
    have fd: "(skip + (bs - skip mod bs)) div bs = skip div bs + 1"
      unfolding f using rng(1) by simp
    show "dir = RETRIEVE \<and> 0 \<le> edge_logical_block x \<and> 0 \<le> edge_physical_block x \<and>
      edge_physical_block x < kv_shape kv ! 0 \<and> 0 < edge_token_offset x \<and> edge_token_offset x < bs \<and>
      edge_token_count x = bs - edge_token_offset x \<and> full div bs = edge_logical_block x + 1 \<and>
      skip = edge_logical_block x * bs + edge_token_offset x \<and>
      fn - start - skip = edge_token_count x + int (length ps) * bs"
      using e rng fd cnt lps pos_mod_bound [OF rng(1), of skip]
      by (simp add: edge_ok_def x pos_imp_zdiv_nonneg_iff)
  qed
  let ?d = "\<lparr>d_direction = dir, d_device = kv_device kv, d_allocation_base = kv_data_ptr kv,
      d_allocation_nbytes = prod_list (kv_shape kv) * kv_element_size kv, d_engine_group_id = 0,
      d_block_nbytes = kv_shape kv ! 1 * kv_shape kv ! 2 * kv_shape kv ! 3 * kv_shape kv ! 4 *
        kv_shape kv ! 5 * kv_element_size kv, d_block_size = bs,
      d_logical_block_start = full div bs, d_logical_block_count = int (length ps),
      d_valid_token_start = skip, d_valid_token_count = fn - start - skip,
      d_runs = runs_of_blocks (full div bs) ps, d_leading_edge = edge,
      d_file_payload_offset = BLOCK_FIRST_HEADER_SIZE, d_synchronous = True,
      d_lifetime = Some [kv_identity kv], d_allocations = [], d_byte_segments = [],
      d_physical_block_ids = ps\<rparr>"
  have tok: "check_tokens ?d (kv_shape kv ! 0) = None"
  proof (cases edge)
    case None
    with e have "full = skip" by (simp add: edge_ok_def)
    with None fdm cnt lps show ?thesis by (simp add: check_tokens_def)
  next
    case (Some x)
    with edge [OF Some] show ?thesis by (simp add: check_tokens_def)
  qed
  have val: "validate_descriptor ?d False False = None"
    by (rule validate_run_descriptor, simp_all only: descriptor.select_convs cap(3) tok)
      (use kv cap(1,2) cr re fl rng(1) ne in \<open>auto simp: kv_tensor_ok_def\<close>)
  show ?thesis
    unfolding finish_plan_def Let_def using mod0 sc val
    by (simp only: if_False simp_thms sum.case option.case) (intro exI [of _ ?d], simp)
qed

lemma next_block_bounds:
  fixes bs skip chunk :: int
  assumes "0 < bs" and "bs dvd chunk" and "skip < chunk"
  defines "full \<equiv> skip + (bs - skip mod bs)"
  shows "full = (skip div bs + 1) * bs" and "bs dvd full" and "full \<le> chunk"
proof -
  show f: "full = (skip div bs + 1) * bs"
    by (simp add: full_def distrib_right minus_mod_eq_div_mult)
  then show "bs dvd full" by simp
  have "skip div bs < chunk div bs"
    by (rule div_less_if_less_mult [OF assms(1)]) (use assms in simp)
  then have "(skip div bs + 1) * bs \<le> chunk div bs * bs"
    using assms(1) by (intro mult_right_mono) auto
  then show "full \<le> chunk" using f assms(2) by simp
qed

lemma leading_edge_ok:
  assumes "leading_edge_of slots bs nb start skip = Some e" and "0 < bs" and "skip mod bs \<noteq> 0"
    and "dir = RETRIEVE"
  shows "edge_ok dir bs nb skip (skip + edge_token_count e) (Some e)"
    and "edge_token_count e = bs - skip mod bs"
proof -
  have "0 < skip mod bs" using assms(2,3) pos_mod_sign [of bs skip] by linarith
  then show "edge_ok dir bs nb skip (skip + edge_token_count e) (Some e)"
      "edge_token_count e = bs - skip mod bs"
    using assms by (auto simp: leading_edge_of_def edge_ok_def Let_def pos_imp_zdiv_nonneg_iff split: if_splits)
qed

text \<open>
  A chunk whose uncached part starts at token \<open>full\<close> is planned: directly when the scan of its
  blocks succeeds, as a fallback otherwise.
\<close>

lemma chunk_plan_total:
  assumes kv: "kv_tensor_ok kv" "length (kv_shape kv) = 6"
    and rng: "0 < bs" "0 \<le> start" "start < fn" "fn \<le> int (length slots)"
  shows "\<exists>pl. chunk_plan kv slots dir bs skip_before (start, fn) = Inr pl"
proof -
  define skip where "skip = skip_of dir skip_before start (fn - start)"
  note cp = chunk_plan_skip [of kv slots dir bs skip_before start fn, folded skip_def, unfolded Let_def]
  have sk: "0 \<le> skip" "skip \<le> fn - start"
    using rng by (auto simp: skip_def skip_of_def)
  have fin: "\<exists>pl. finish_plan kv slots dir bs start fn skip edge full = Inr pl"
    if "edge_ok dir bs (kv_shape kv ! 0) skip full edge" "bs dvd full" "skip \<le> full" "full \<le> fn - start"
      "bs dvd fn - start" "skip < fn - start" for edge full
  proof (cases "scan_blocks bs (kv_shape kv ! 0) (rows (nat bs) (py_slice slots (start + full) fn))")
    case (Inl r)
    then show ?thesis by (auto simp: finish_plan_def Let_def)
  next
    case (Inr ps)
    have "bs dvd fn - (start + full)" using that by (metis diff_diff_eq dvd_diff)
    then obtain k where k: "fn - (start + full) = k * bs" by (metis dvd_def mult.commute)
    have "0 \<le> full" "start + full \<le> fn" using that sk by auto
    from finish_plan_total [OF kv rng(1,2,4) sk(1) that(6) this that(2) k that(1) Inr]
    show ?thesis by blast
  qed
  show ?thesis
  proof (cases "(fn - start) mod bs = 0 \<and> skip \<noteq> fn - start")
    case False
    then show ?thesis unfolding cp by auto
  next
    case True
    then have dv: "bs dvd fn - start" and lt: "skip < fn - start" using sk by (auto simp: mod_0_imp_dvd)
    show ?thesis
    proof (cases "skip mod bs = 0")
      case T: True
      have "\<exists>pl. finish_plan kv slots dir bs start fn skip None skip = Inr pl"
        by (rule fin) (use T dv lt in \<open>auto simp: edge_ok_def mod_0_imp_dvd\<close>)
      then show ?thesis unfolding cp using True T by simp
    next
      case F: False
      then have dir: "dir = RETRIEVE" by (auto simp: skip_def skip_of_def split: if_splits)
      show ?thesis
      proof (cases "leading_edge_of slots bs (kv_shape kv ! 0) start skip")
        case None
        then show ?thesis unfolding cp using True F by simp
      next
        case (Some e)
        note le = leading_edge_ok [OF Some rng(1) F dir]
        note nb = next_block_bounds [OF rng(1) dv lt]
        have "skip \<le> skip + (bs - skip mod bs)" using pos_mod_bound [OF rng(1), of skip] by simp
        then have "\<exists>pl. finish_plan kv slots dir bs start fn skip (Some e) (skip + edge_token_count e) = Inr pl"
          by (intro fin) (use le nb dv lt in simp_all)
        then show ?thesis unfolding cp using True F Some by simp
      qed
    qed
  qed
qed

lemma check_ranges_None:
  assumes "length starts = length ends"
    and "\<forall>i < length starts. 0 \<le> starts ! i \<and> starts ! i < ends ! i \<and> ends ! i \<le> int (length slots)"
  shows "check_ranges slots starts ends = None"
proof -
  have "\<forall>s \<in> set starts. 0 \<le> s" "\<forall>e \<in> set ends. e \<le> int (length slots)"
    using assms by (metis in_set_conv_nth)+
  moreover have "\<forall>(s, e) \<in> set (zip starts ends). s < e" using assms by (auto simp: set_zip)
  ultimately show ?thesis by (fastforce simp: check_ranges_def guard_simps not_less not_le)
qed

lemma block_first_plans_exist:
  assumes "kv_tensor_ok kv" and "length starts = length ends"
    and "\<forall>i < length starts. 0 \<le> starts ! i \<and> starts ! i < ends ! i \<and> ends ! i \<le> int (length slots)"
  shows "\<exists>plans. build_block_first_direct_plans kv slots starts ends dir bs skip_before = Inr plans \<and>
    length plans = length starts"
proof (cases "length (kv_shape kv) \<noteq> 6 \<or> kv_shape kv ! 2 \<noteq> 2 \<or> \<not> kv_contiguous kv \<or> bs \<le> 0 \<or>
    kv_shape kv ! 3 \<noteq> bs \<or> starts = []")
  case True
  then show ?thesis using assms(2) by (auto simp: build_block_first_direct_plans_def Let_def)
next
  case False
  have "\<exists>y. chunk_plan kv slots dir bs skip_before x = Inr y" if "x \<in> set (zip starts ends)" for x
    using that assms False chunk_plan_total [OF assms(1), of bs "fst x" "snd x" slots dir skip_before]
    by (auto simp: set_zip)
  then obtain ys where "traverse (chunk_plan kv slots dir bs skip_before) (zip starts ends) = Inr ys"
    using traverse_total by blast
  moreover from this have "length ys = length starts"
    using assms(2) by (auto simp: traverse_Inr_iff dest: list_all2_lengthD)
  ultimately show ?thesis
    using False assms(2) check_ranges_None [OF assms(2,3)]
    by (simp add: build_block_first_direct_plans_def Let_def)
qed

text \<open>
  C7: Every descriptor the block-first planner returns is valid, starts at the first uncached token of
  its chunk, and moves exactly the uncached tokens: token \<open>t\<close> goes to the very slot the engine
  mapped it to, cached tokens are not moved at all.
\<close>

theorem block_first_plan_faithful:
  assumes "build_block_first_direct_plans kv slots starts ends dir bs skip_before = Inr plans"
    and "i < length plans" and "plan_descriptor (plans ! i) = Some d"
  defines "chunk \<equiv> ends ! i - starts ! i"
  defines "cached \<equiv> (if dir = RETRIEVE then min chunk (max 0 (skip_before - starts ! i)) else 0)"
  shows "validate_descriptor d False False = None \<and> d_valid_token_start d = cached \<and>
    (\<forall>t \<in> {0..<chunk}. token_slot d t =
       (if t < cached then None else Some (slots ! nat (starts ! i + t))))"
proof -
  have ne: "plan_descriptor (plans ! i) \<noteq> None" using assms(3) by simp
  note b = build_block_first_Inr [OF assms(1,2) ne]
  note c = chunk_plan_sound [OF b(4) assms(3) b(3,5,6,7)]
  have "cached = skip_of dir skip_before (starts ! i) (ends ! i - starts ! i)"
    by (simp add: cached_def chunk_def skip_of_def)
  with c show ?thesis by (auto simp: chunk_def)
qed

text \<open>
  C40: On non-empty token ranges inside the slot mapping, and for valid KV tensors, the block-first planner
  never raises, in either direction: it returns one plan per chunk, whatever slots the engine chose.
\<close>

theorem block_first_plan_total:
  assumes "kv_tensor_ok kv" and "length starts = length ends"
    and "\<forall>i < length starts. 0 \<le> starts ! i \<and> starts ! i < ends ! i \<and> ends ! i \<le> int (length slots)"
  shows "\<exists>plans. build_block_first_direct_plans kv slots starts ends dir bs skip_before = Inr plans \<and>
    length plans = length starts"
  by (rule block_first_plans_exist [OF assms])

section \<open>Block-structured slots are planned directly\<close>

lemma rows_concat:
  "0 < n \<Longrightarrow> \<forall>r \<in> set rs. length r = n \<Longrightarrow> rows n (concat rs) = rs"
proof (induction rs)
  case Nil
  then show ?case by simp
next
  case (Cons r rs)
  then have "concat (r # rs) \<noteq> []" by auto
  with Cons show ?case by (simp add: rows_step)
qed

lemma chunk_plan_complete:
  assumes kv: "kv_tensor_ok kv" "length (kv_shape kv) = 6"
    and rng: "0 < bs" "0 \<le> start" "start < fn" "fn \<le> int (length slots)"
    and sl: "py_slice slots start fn = concat (map (\<lambda>p. int_range (p * bs) (nat bs)) ps)"
    and ps: "\<forall>p \<in> set ps. 0 \<le> p \<and> p < kv_shape kv ! 0"
  shows "\<exists>d. chunk_plan kv slots STORE bs skip_before (start, fn) = Inr (direct d) \<and>
    d_physical_block_ids d = ps \<and> d_direction d = STORE \<and> d_valid_token_start d = 0 \<and>
    d_valid_token_count d = fn - start"
proof -
  let ?rs = "map (\<lambda>p. int_range (p * bs) (nat bs)) ps"
  have u: "\<forall>r \<in> set ?rs. length r = nat bs" by simp
  have "length (py_slice slots start fn) = length ps * nat bs"
    unfolding sl using length_concat_uniform [OF u] by simp
  then have "int (nat (fn - start)) = int (length ps * nat bs)" using rng by (simp add: length_py_slice)
  then have k: "fn - start = int (length ps) * bs" using rng by simp
  have sc: "scan_blocks bs (kv_shape kv ! 0) (rows (nat bs) (py_slice slots (start + 0) fn)) = Inr ps"
    using rng(1) ps rows_concat [OF _ u]
    by (intro scan_blocks_complete) (auto simp: sl list_all2_conv_all_nth)
  have "\<exists>d. finish_plan kv slots STORE bs start fn 0 None 0 = Inr (direct d) \<and>
      d_physical_block_ids d = ps \<and> d_direction d = STORE \<and> d_valid_token_start d = 0 \<and>
      d_valid_token_count d = fn - start - 0"
    by (rule finish_plan_total [OF kv rng(1,2,4) _ _ _ _ _ _ _ sc])
      (use rng k in \<open>auto simp: edge_ok_def\<close>)
  then show ?thesis using rng k by (auto simp: chunk_plan_def Let_def)
qed

text \<open>
  A store whose chunks are made of complete physical blocks of the allocation, in any order, is
  planned directly: each chunk gets a descriptor that names exactly its blocks, in token order, and
  covers all its tokens.
\<close>

theorem block_first_store_direct:
  assumes "kv_tensor_ok kv" and "kv_block_first kv bs" and "0 < bs" and "length starts = length ends"
    and "\<forall>i < length starts. 0 \<le> starts ! i \<and> starts ! i < ends ! i \<and> ends ! i \<le> int (length slots)"
    and "\<forall>i < length starts. py_slice slots (starts ! i) (ends ! i) =
        concat (map (\<lambda>p. int_range (p * bs) (nat bs)) (blocks ! i)) \<and>
      (\<forall>p \<in> set (blocks ! i). 0 \<le> p \<and> p < kv_shape kv ! 0)"
  shows "\<exists>plans. build_block_first_direct_plans kv slots starts ends STORE bs skip_before = Inr plans \<and>
    length plans = length starts \<and>
    (\<forall>i < length starts. \<exists>d. plan_descriptor (plans ! i) = Some d \<and> d_physical_block_ids d = blocks ! i \<and>
       d_direction d = STORE \<and> d_valid_token_start d = 0 \<and> d_valid_token_count d = ends ! i - starts ! i)"
proof -
  obtain plans where p: "build_block_first_direct_plans kv slots starts ends STORE bs skip_before = Inr plans"
      "length plans = length starts"
    using block_first_plans_exist [OF assms(1,4,5)] by blast
  have kv: "length (kv_shape kv) = 6" "kv_shape kv ! 2 = 2" "kv_contiguous kv" "kv_shape kv ! 3 = bs"
    using assms(2) by (simp_all add: kv_block_first_def)
  have tr: "traverse (chunk_plan kv slots STORE bs skip_before) (zip starts ends) = Inr plans"
    using p kv assms(3,4) check_ranges_None [OF assms(4,5)]
    by (auto simp: build_block_first_direct_plans_def Let_def split: if_splits)
  have "\<exists>d. plan_descriptor (plans ! i) = Some d \<and> d_physical_block_ids d = blocks ! i \<and>
       d_direction d = STORE \<and> d_valid_token_start d = 0 \<and> d_valid_token_count d = ends ! i - starts ! i"
    if i: "i < length starts" for i
  proof -
    have "chunk_plan kv slots STORE bs skip_before (starts ! i, ends ! i) = Inr (plans ! i)"
      using list_all2_nthD2 [OF tr [unfolded traverse_Inr_iff], of i] i p(2) assms(4) by simp
    moreover have "\<exists>d. chunk_plan kv slots STORE bs skip_before (starts ! i, ends ! i) = Inr (direct d) \<and>
        d_physical_block_ids d = blocks ! i \<and> d_direction d = STORE \<and> d_valid_token_start d = 0 \<and>
        d_valid_token_count d = ends ! i - starts ! i"
      by (rule chunk_plan_complete) (use assms kv i in auto)
    ultimately show ?thesis by auto
  qed
  with p show ?thesis by blast
qed

section \<open>Instances\<close>

definition demo_kv :: "string kv_tensor" where
  "demo_kv =
     \<lparr>kv_shape = [8, 1, 2, 2, 1, 1], kv_stride = [4, 4, 2, 1, 1, 1], kv_contiguous = True,
      kv_dtype = ''float16'', kv_device = demo_device, kv_element_size = 2, kv_data_ptr = 8192,
      kv_storage_ptr = 8192, kv_storage_nbytes = 64, kv_identity = 1\<rparr>"

definition demo_slots :: "int list" where
  "demo_slots = [6, 7, 10, 11, 4, 5, 8, 9]"

lemma demo_kv_ok: "kv_tensor_ok demo_kv" "kv_block_first demo_kv 2"
  by (simp_all add: kv_tensor_ok_def kv_block_first_def demo_kv_def)

theorem block_first_plan_faithful_witness:
  "\<exists>plans d. build_block_first_direct_plans demo_kv demo_slots [0, 4] [4, 8] RETRIEVE 2 1 = Inr plans \<and>
     plan_descriptor (plans ! 0) = Some d \<and> map (token_slot d) [0, 1, 2, 3] = [None, Some 7, Some 10, Some 11]"
proof -
  obtain plans d where p: "build_block_first_direct_plans demo_kv demo_slots [0, 4] [4, 8] RETRIEVE 2 1 = Inr plans"
      "0 < length plans" "plan_descriptor (plans ! 0) = Some d"
  proof -
    have "case build_block_first_direct_plans demo_kv demo_slots [0, 4] [4, 8] RETRIEVE 2 1 of
        Inl e \<Rightarrow> False | Inr plans \<Rightarrow> plans \<noteq> [] \<and> plan_descriptor (plans ! 0) \<noteq> None"
      by code_simp
    then show ?thesis using that by (auto split: sum.splits)
  qed
  have "validate_descriptor d False False = None \<and>
      d_valid_token_start d = (if RETRIEVE = RETRIEVE then min ([4, 8] ! 0 - [0, 4] ! 0) (max 0 (1 - [0, 4] ! 0)) else 0) \<and>
      (\<forall>t \<in> {0..<[4, 8] ! 0 - [0, 4] ! 0}. token_slot d t =
        (if t < (if RETRIEVE = RETRIEVE then min ([4, 8] ! 0 - [0, 4] ! 0) (max 0 (1 - [0, 4] ! 0)) else 0)
         then None else Some (demo_slots ! nat ([0, 4] ! 0 + t))))"
    by (rule block_first_plan_faithful [OF p])
  then have "map (token_slot d) [0, 1, 2, 3] = [None, Some 7, Some 10, Some 11]"
    by (simp add: demo_slots_def)
  with p(1,3) show ?thesis by (intro exI [of _ plans] exI [of _ d] conjI)
qed

theorem block_first_plan_total_witness:
  "\<exists>plans. build_block_first_direct_plans demo_kv demo_slots [0, 3] [4, 8] RETRIEVE 2 1 = Inr plans \<and>
     length plans = 2"
proof -
  have "\<exists>plans. build_block_first_direct_plans demo_kv demo_slots [0, 3] [4, 8] RETRIEVE 2 1 = Inr plans \<and>
     length plans = length [0, 3 :: int]"
    by (rule block_first_plan_total [OF demo_kv_ok(1)])
      (auto simp: demo_slots_def less_Suc_eq nth_Cons')
  then show ?thesis by (simp add: numeral_2_eq_2)
qed

theorem block_first_store_direct_witness:
  "\<exists>plans d. build_block_first_direct_plans demo_kv demo_slots [0, 4] [4, 8] STORE 2 0 = Inr plans \<and>
     plan_descriptor (plans ! 1) = Some d \<and> d_physical_block_ids d = [2, 4]"
proof -
  have "\<exists>plans. build_block_first_direct_plans demo_kv demo_slots [0, 4] [4, 8] STORE 2 0 = Inr plans \<and>
    length plans = length [0, 4 :: int] \<and>
    (\<forall>i < length [0, 4 :: int]. \<exists>d. plan_descriptor (plans ! i) = Some d \<and>
       d_physical_block_ids d = [[3, 5], [2, 4]] ! i \<and> d_direction d = STORE \<and> d_valid_token_start d = 0 \<and>
       d_valid_token_count d = [4, 8] ! i - [0, 4] ! i)"
    by (rule block_first_store_direct [OF demo_kv_ok])
      (auto simp: demo_slots_def demo_kv_def less_Suc_eq nth_Cons' py_slice_def int_range_def upt_rec numeral_eq_Suc)
  then obtain plans where p: "build_block_first_direct_plans demo_kv demo_slots [0, 4] [4, 8] STORE 2 0 = Inr plans"
    and all: "\<forall>i < length [0, 4 :: int]. \<exists>d. plan_descriptor (plans ! i) = Some d \<and>
       d_physical_block_ids d = [[3, 5], [2, 4]] ! i" by blast
  from all [rule_format, of 1] p show ?thesis by auto
qed

end
