(* ===== verification/Layer_Plans.thy ===== *)
theory Layer_Plans
  imports Block_Plans
begin

text \<open>
  The two planners of \<^verbatim>\<open>storage_backend/direct_io.py\<close> for per-layer KV caches, which read a
  block-first file straight into the allocations of the engine: one tensor per layer
  (\<^verbatim>\<open>build_per_layer_direct_plans\<close>), or a key and a value tensor per layer with different layouts
  (\<^verbatim>\<open>build_asymmetric_per_layer_direct_plans\<close>). Their descriptors carry byte segments; the theory
  follows every file byte to the device address it is read into.
\<close>

section \<open>The allocations behind a list of tensors\<close>

type_synonym alloc_table = "allocation list \<times> (alloc_identity \<Rightarrow> nat option)"

definition kv_alloc_identity :: "'d kv_tensor \<Rightarrow> alloc_identity" where
  "kv_alloc_identity t = (device_str (kv_device t), kv_storage_ptr t, kv_storage_nbytes t)"

text \<open>
  One step of the loop over the tensors: the storage behind the tensor gets an index, a new one only
  if no tensor before shares it, and the tensor its offset in the storage.
\<close>

definition add_allocation :: "'d kv_tensor \<Rightarrow> alloc_table \<Rightarrow> alloc_table \<times> (nat \<times> int)" where
  "add_allocation t tab =
     (case tab of (allocs, idx) \<Rightarrow>
       let ident = kv_alloc_identity t; offset = kv_data_ptr t - kv_storage_ptr t in
       case idx ident of
         Some i \<Rightarrow> ((allocs, idx), (i, offset))
       | None \<Rightarrow>
           ((allocs @ [\<lparr>alloc_device = kv_device t, alloc_base = kv_storage_ptr t,
                        alloc_nbytes = kv_storage_nbytes t, alloc_lifetime = Some [kv_identity t]\<rparr>],
             idx(ident \<mapsto> length allocs)),
            (length allocs, offset)))"

fun layer_allocations :: "'d kv_tensor list \<Rightarrow> alloc_table \<Rightarrow> alloc_table \<times> (nat \<times> int) list" where
  "layer_allocations [] tab = (tab, [])"
| "layer_allocations (t # ts) tab =
     (case add_allocation t tab of (tab', la) \<Rightarrow>
       case layer_allocations ts tab' of (tab'', las) \<Rightarrow> (tab'', la # las))"

fun pair_allocations ::
    "('d kv_tensor \<times> 'd kv_tensor) list \<Rightarrow> alloc_table \<Rightarrow> alloc_table \<times> ((nat \<times> int) \<times> (nat \<times> int)) list" where
  "pair_allocations [] tab = (tab, [])"
| "pair_allocations ((key, val) # ts) tab =
     (case add_allocation key tab of (tab1, kla) \<Rightarrow>
       case add_allocation val tab1 of (tab2, vla) \<Rightarrow>
         case pair_allocations ts tab2 of (tab3, las) \<Rightarrow> (tab3, (kla, vla) # las))"

section \<open>The uncached part of a chunk\<close>

text \<open>
  Both planners start a chunk in the same way: whole blocks only, cached tokens skipped, no partial
  leading block. The result is the number of cached tokens, or the reason for the fallback; a zero
  block size makes \<^verbatim>\<open>chunk_tokens % block_size\<close> raise.
\<close>

definition whole_blocks :: "string \<Rightarrow> int \<Rightarrow> int \<Rightarrow> int \<Rightarrow> int \<Rightarrow> (string + int) res" where
  "whole_blocks partial_reason block_size skip_before start fin =
     (let chunk_tokens = fin - start in
      if block_size = 0 then Inl ZeroDivisionError
      else if chunk_tokens mod block_size \<noteq> 0 then Inr (Inl ''chunk is not a whole number of blocks'')
      else
        let skip_tokens = min chunk_tokens (max 0 (skip_before - start)) in
        if skip_tokens = chunk_tokens then Inr (Inl ''no uncached physical blocks remain'')
        else if skip_tokens mod block_size \<noteq> 0 then Inr (Inl partial_reason)
        else Inr (Inr skip_tokens))"

section \<open>One tensor per layer\<close>

definition nhd_segment :: "int \<Rightarrow> int \<Rightarrow> int \<Rightarrow> int \<Rightarrow> int \<Rightarrow> nat \<times> (nat \<times> int) \<Rightarrow> int \<Rightarrow> byte_segment" where
  "nhd_segment num_blocks lbn block_nbytes logical_block physical_block layer kv_index =
     (case layer of (layer_index, (allocation_index, tensor_offset)) \<Rightarrow>
       \<lparr>seg_file_offset = BLOCK_FIRST_HEADER_SIZE + logical_block * block_nbytes +
          (int layer_index * 2 + kv_index) * lbn,
        seg_allocation = int allocation_index,
        seg_allocation_offset = tensor_offset + (kv_index * num_blocks + physical_block) * lbn,
        seg_nbytes = lbn\<rparr>)"

definition nhd_segments :: "int \<Rightarrow> int \<Rightarrow> int \<Rightarrow> int \<Rightarrow> int list \<Rightarrow> (nat \<times> int) list \<Rightarrow> byte_segment list" where
  "nhd_segments num_blocks lbn block_nbytes logical_start physical_blocks las =
     concat (map (\<lambda>(block_offset, physical_block).
       concat (map (\<lambda>layer.
         map (nhd_segment num_blocks lbn block_nbytes (logical_start + int block_offset) physical_block layer)
           [0, 1])
         (enumerate 0 las)))
       (enumerate 0 physical_blocks))"

definition segment_descriptor ::
    "torch_device \<Rightarrow> int \<Rightarrow> int \<Rightarrow> int \<Rightarrow> int \<Rightarrow> nat list \<Rightarrow> allocation list \<Rightarrow> int list \<Rightarrow> byte_segment list \<Rightarrow>
     descriptor" where
  "segment_descriptor dev block_nbytes block_size chunk_tokens skip_tokens lifetime allocs physical_blocks segs =
     \<lparr>d_direction = RETRIEVE, d_device = dev, d_allocation_base = alloc_base (allocs ! 0),
      d_allocation_nbytes = alloc_nbytes (allocs ! 0), d_engine_group_id = 0, d_block_nbytes = block_nbytes,
      d_block_size = block_size, d_logical_block_start = skip_tokens div block_size,
      d_logical_block_count = int (length physical_blocks), d_valid_token_start = skip_tokens,
      d_valid_token_count = chunk_tokens - skip_tokens, d_runs = [], d_leading_edge = None,
      d_file_payload_offset = BLOCK_FIRST_HEADER_SIZE, d_synchronous = True, d_lifetime = Some lifetime,
      d_allocations = allocs, d_byte_segments = segs, d_physical_block_ids = physical_blocks\<rparr>"

definition nhd_chunk_plan ::
    "'d kv_tensor list \<Rightarrow> allocation list \<Rightarrow> (nat \<times> int) list \<Rightarrow> int list \<Rightarrow> int \<Rightarrow> int \<Rightarrow> int \<times> int \<Rightarrow> plan res" where
  "nhd_chunk_plan kvs allocs las slot_mapping block_size skip_before rng =
     (case rng of (start, fin) \<Rightarrow>
       let first = hd kvs; num_blocks = kv_shape first ! 1;
           lbn = kv_shape first ! 2 * kv_shape first ! 3 * kv_shape first ! 4 * kv_element_size first;
           block_nbytes = int (length kvs) * 2 * lbn
       in case whole_blocks ''per-layer direct retrieve does not support a partial leading block''
           block_size skip_before start fin of
         Inl e \<Rightarrow> Inl e
       | Inr (Inl reason) \<Rightarrow> Inr (fallback reason)
       | Inr (Inr skip_tokens) \<Rightarrow>
           (case scan_blocks block_size num_blocks
               (rows (nat block_size) (py_slice slot_mapping (start + skip_tokens) fin)) of
              Inl reason \<Rightarrow> Inr (fallback reason)
            | Inr physical_blocks \<Rightarrow>
                let d = segment_descriptor (kv_device first) block_nbytes block_size (fin - start) skip_tokens
                    (map kv_identity kvs) allocs physical_blocks
                    (nhd_segments num_blocks lbn block_nbytes (skip_tokens div block_size) physical_blocks las)
                in (case validate_descriptor d False False of Some e \<Rightarrow> Inl e | None \<Rightarrow> Inr (direct d))))"

definition nhd_tensor_bad :: "'d kv_tensor \<Rightarrow> 'd kv_tensor \<Rightarrow> bool" where
  "nhd_tensor_bad first t \<longleftrightarrow>
     length (kv_shape t) \<noteq> 5 \<or> kv_shape t \<noteq> kv_shape first \<or> kv_dtype t \<noteq> kv_dtype first \<or>
     kv_device t \<noteq> kv_device first \<or> \<not> kv_contiguous t"

definition build_per_layer_direct_plans ::
    "'d kv_tensor list \<Rightarrow> int list \<Rightarrow> int list \<Rightarrow> int list \<Rightarrow> direction \<Rightarrow> int \<Rightarrow> int \<Rightarrow> plan list res" where
  "build_per_layer_direct_plans kvs slot_mapping starts ends dir block_size skip_before =
     (let all_fallback = (\<lambda>reason. Inr (replicate (length starts) (fallback reason))); first = hd kvs in
      if dir \<noteq> RETRIEVE then all_fallback ''per-layer direct I/O only supports retrieve''
      else if kvs = [] then all_fallback ''vLLM per-layer KV cache is empty''
      else if length starts \<noteq> length ends
        then Inl (ValueError ''starts and ends must have the same length'')
      else if starts = [] then Inr []
      else case check_ranges slot_mapping starts ends of
        Some e \<Rightarrow> Inl e
      | None \<Rightarrow>
          if length (kv_shape first) \<noteq> 5 \<or> kv_shape first ! 0 \<noteq> 2
            then all_fallback ''per-layer KV cache is not [2, NB, BS, NH, HS]''
          else if kv_shape first ! 2 \<noteq> block_size then all_fallback ''KV block size mismatch''
          else if \<exists>t \<in> set kvs. nhd_tensor_bad first t
            then all_fallback ''per-layer KV allocations are non-uniform or non-contiguous''
          else (case layer_allocations kvs ([], Map.empty) of ((allocs, idx), las) \<Rightarrow>
            traverse (nhd_chunk_plan kvs allocs las slot_mapping block_size skip_before) (zip starts ends)))"

section \<open>Separate key and value tensors per layer\<close>

text \<open>
  \<^verbatim>\<open>append_segment\<close>: a head vector that continues the last segment in the file and in the same
  allocation extends it, any other becomes a segment of its own.
\<close>

definition append_segment :: "byte_segment list \<Rightarrow> byte_segment \<Rightarrow> byte_segment list" where
  "append_segment segments s =
     (if segments \<noteq> [] \<and> seg_allocation (last segments) = seg_allocation s \<and>
         seg_file_offset (last segments) + seg_nbytes (last segments) = seg_file_offset s \<and>
         seg_allocation_offset (last segments) + seg_nbytes (last segments) = seg_allocation_offset s
      then butlast segments @ [(last segments)\<lparr>seg_nbytes := seg_nbytes (last segments) + seg_nbytes s\<rparr>]
      else segments @ [s])"

text \<open>The head vectors of one token block in one cache, in the order of the file.\<close>

definition head_vectors ::
    "int \<Rightarrow> int \<Rightarrow> int \<Rightarrow> int \<Rightarrow> 'd kv_tensor \<Rightarrow> nat \<times> int \<Rightarrow> nat \<Rightarrow> int \<Rightarrow> int \<Rightarrow> byte_segment list" where
  "head_vectors element_size head_nbytes block_size num_heads cache la token_dim region_offset physical_block =
     concat (map (\<lambda>token_offset. map (\<lambda>head_index.
       \<lparr>seg_file_offset = region_offset + (token_offset * num_heads + head_index) * head_nbytes,
        seg_allocation = int (fst la),
        seg_allocation_offset = snd la +
          (physical_block * kv_stride cache ! 0 + head_index * kv_stride cache ! 1 +
           token_offset * kv_stride cache ! token_dim) * element_size,
        seg_nbytes = head_nbytes\<rparr>)
       (int_range 0 (nat num_heads))) (int_range 0 (nat block_size)))"

definition asymmetric_vectors ::
    "('d kv_tensor \<times> 'd kv_tensor) list \<Rightarrow> ((nat \<times> int) \<times> (nat \<times> int)) list \<Rightarrow> int \<Rightarrow> int \<Rightarrow> int \<Rightarrow> int \<Rightarrow> int list \<Rightarrow>
     byte_segment list" where
  "asymmetric_vectors kvs las element_size head_nbytes block_size logical_start physical_blocks =
     (let num_heads = kv_shape (fst (hd kvs)) ! 1;
          lbn = block_size * num_heads * head_nbytes;
          block_nbytes = int (length kvs) * 2 * lbn
      in concat (map (\<lambda>(block_offset, physical_block).
           concat (map (\<lambda>(layer_index, ((key, val), (kla, vla))).
             let region = (\<lambda>kv_index. BLOCK_FIRST_HEADER_SIZE +
               (logical_start + int block_offset) * block_nbytes + (int layer_index * 2 + kv_index) * lbn)
             in head_vectors element_size head_nbytes block_size num_heads key kla 2 (region 0) physical_block @
                head_vectors element_size head_nbytes block_size num_heads val vla 3 (region 1) physical_block)
             (enumerate 0 (zip kvs las))))
           (enumerate 0 physical_blocks)))"

definition asymmetric_chunk_plan ::
    "('d kv_tensor \<times> 'd kv_tensor) list \<Rightarrow> allocation list \<Rightarrow> ((nat \<times> int) \<times> (nat \<times> int)) list \<Rightarrow> int list \<Rightarrow> int \<Rightarrow>
     int \<Rightarrow> int \<times> int \<Rightarrow> plan res" where
  "asymmetric_chunk_plan kvs allocs las slot_mapping block_size skip_before rng =
     (case rng of (start, fin) \<Rightarrow>
       let first_key = fst (hd kvs); num_blocks = kv_shape first_key ! 0; num_heads = kv_shape first_key ! 1;
           head_nbytes = kv_shape first_key ! 3 * kv_element_size first_key;
           block_nbytes = int (length kvs) * 2 * (block_size * num_heads * head_nbytes)
       in case whole_blocks ''asymmetric direct retrieve does not support a partial leading block''
           block_size skip_before start fin of
         Inl e \<Rightarrow> Inl e
       | Inr (Inl reason) \<Rightarrow> Inr (fallback reason)
       | Inr (Inr skip_tokens) \<Rightarrow>
           (case scan_blocks block_size num_blocks
               (rows (nat block_size) (py_slice slot_mapping (start + skip_tokens) fin)) of
              Inl reason \<Rightarrow> Inr (fallback ''tokens do not cover one complete physical block'')
            | Inr physical_blocks \<Rightarrow>
                let d = segment_descriptor (kv_device first_key) block_nbytes block_size (fin - start) skip_tokens
                    (concat (map (\<lambda>(key, val). [kv_identity key, kv_identity val]) kvs)) allocs physical_blocks
                    (foldl append_segment []
                      (asymmetric_vectors kvs las (kv_element_size first_key) head_nbytes block_size
                        (skip_tokens div block_size) physical_blocks))
                in (case validate_descriptor d False True of
                      Some (ValueError msg) \<Rightarrow> Inr (fallback msg)
                    | Some e \<Rightarrow> Inl e
                    | None \<Rightarrow> Inr (direct d))))"

definition asymmetric_pair_bad :: "'d kv_tensor \<Rightarrow> int \<Rightarrow> 'd kv_tensor \<times> 'd kv_tensor \<Rightarrow> bool" where
  "asymmetric_pair_bad first_key block_size pair =
     (case pair of (key, val) \<Rightarrow>
       length (kv_shape key) \<noteq> 4 \<or> length (kv_shape val) \<noteq> 4 \<or> kv_shape key \<noteq> kv_shape first_key \<or>
       kv_shape val \<noteq> [kv_shape first_key ! 0, kv_shape first_key ! 1, kv_shape first_key ! 3, block_size] \<or>
       kv_dtype key \<noteq> kv_dtype first_key \<or> kv_dtype val \<noteq> kv_dtype first_key \<or>
       kv_device key \<noteq> kv_device first_key \<or> kv_device val \<noteq> kv_device first_key \<or>
       kv_stride key ! 3 \<noteq> 1 \<or> kv_stride val ! 2 \<noteq> 1)"

definition build_asymmetric_per_layer_direct_plans ::
    "('d kv_tensor \<times> 'd kv_tensor) list \<Rightarrow> int list \<Rightarrow> int list \<Rightarrow> int list \<Rightarrow> direction \<Rightarrow> int \<Rightarrow> int \<Rightarrow>
     plan list res" where
  "build_asymmetric_per_layer_direct_plans kvs slot_mapping starts ends dir block_size skip_before =
     (let all_fallback = (\<lambda>reason. Inr (replicate (length starts) (fallback reason)));
          first_key = fst (hd kvs); first_value = snd (hd kvs) in
      if dir \<noteq> RETRIEVE then all_fallback ''asymmetric per-layer direct I/O only supports retrieve''
      else if kvs = [] then all_fallback ''asymmetric per-layer KV cache is empty''
      else if length starts \<noteq> length ends
        then Inl (ValueError ''starts and ends must have the same length'')
      else if starts = [] then Inr []
      else case check_ranges slot_mapping starts ends of
        Some e \<Rightarrow> Inl e
      | None \<Rightarrow>
          if length (kv_shape first_key) \<noteq> 4 \<or> length (kv_shape first_value) \<noteq> 4 \<or>
              kv_shape first_key ! 2 \<noteq> block_size \<or> kv_shape first_value ! 3 \<noteq> block_size
            then all_fallback ''asymmetric KV cache is not K=[NB, NH, BS, HS], V=[NB, NH, HS, BS]''
          else if kv_shape first_value \<noteq>
              [kv_shape first_key ! 0, kv_shape first_key ! 1, kv_shape first_key ! 3, block_size]
            then all_fallback ''asymmetric K/V cache shapes do not match''
          else if kv_dtype first_key \<noteq> kv_dtype first_value \<or> kv_device first_key \<noteq> kv_device first_value \<or>
              kv_stride first_key ! 3 \<noteq> 1 \<or> kv_stride first_value ! 2 \<noteq> 1
            then all_fallback ''asymmetric K/V cache head vectors are not contiguous in storage''
          else if \<exists>pair \<in> set kvs. asymmetric_pair_bad first_key block_size pair
            then all_fallback ''asymmetric per-layer K/V allocations are non-uniform or unsupported''
          else (case pair_allocations kvs ([], Map.empty) of ((allocs, idx), las) \<Rightarrow>
            traverse (asymmetric_chunk_plan kvs allocs las slot_mapping block_size skip_before)
              (zip starts ends)))"

section \<open>The allocation table\<close>

text \<open>The dictionary of a table maps each identity to the position of the allocation that has it.\<close>

definition table_ok :: "alloc_table \<Rightarrow> bool" where
  "table_ok tab \<longleftrightarrow> (case tab of (allocs, idx) \<Rightarrow>
     \<forall>ident i. idx ident = Some i \<longleftrightarrow> i < length allocs \<and> identity (allocs ! i) = ident)"

text \<open>An index and an offset that denote the first byte of a tensor.\<close>

definition refers :: "allocation list \<Rightarrow> 'd kv_tensor \<Rightarrow> nat \<times> int \<Rightarrow> bool" where
  "refers allocs t la \<longleftrightarrow> fst la < length allocs \<and> alloc_base (allocs ! fst la) = kv_storage_ptr t \<and>
     alloc_nbytes (allocs ! fst la) = kv_storage_nbytes t \<and> snd la = kv_data_ptr t - kv_storage_ptr t"

definition drawn_from :: "'d kv_tensor set \<Rightarrow> allocation \<Rightarrow> bool" where
  "drawn_from ts a \<longleftrightarrow> (\<exists>t \<in> ts. alloc_device a = kv_device t \<and> alloc_base a = kv_storage_ptr t \<and>
     alloc_nbytes a = kv_storage_nbytes t \<and> alloc_lifetime a \<noteq> None)"

lemma refers_append: "refers allocs t la \<Longrightarrow> refers (allocs @ ext) t la"
  by (simp add: refers_def nth_append)

lemma table_okD:
  "table_ok (allocs, idx) \<Longrightarrow> idx ident = Some i \<longleftrightarrow> i < length allocs \<and> identity (allocs ! i) = ident"
  unfolding table_ok_def prod.case by blast

lemma table_ok_distinct:
  assumes "table_ok (allocs, idx)"
  shows "distinct (map identity allocs)"
  unfolding distinct_conv_nth
proof (intro allI impI)
  fix i j
  assume "i < length (map identity allocs)" and "j < length (map identity allocs)" and "i \<noteq> j"
  then have "idx (identity (allocs ! i)) = Some i" "idx (identity (allocs ! j)) = Some j"
    by (simp_all add: table_okD [OF assms])
  with \<open>i \<noteq> j\<close> show "map identity allocs ! i \<noteq> map identity allocs ! j"
    using \<open>i < _\<close> \<open>j < _\<close> by auto
qed

lemma table_ok_empty: "table_ok ([], Map.empty)"
  by (simp add: table_ok_def)

lemma add_allocation_ok:
  assumes "table_ok (allocs, idx)" and "add_allocation t (allocs, idx) = ((allocs', idx'), la)"
  shows "table_ok (allocs', idx') \<and> refers allocs' t la \<and>
    (\<exists>ext. allocs' = allocs @ ext \<and> (\<forall>a \<in> set ext. drawn_from {t} a))"
proof (cases "idx (kv_alloc_identity t)")
  case (Some i)
  then have "i < length allocs" "identity (allocs ! i) = kv_alloc_identity t"
    using table_okD [OF assms(1)] by blast+
  with Some assms show ?thesis
    by (auto simp: add_allocation_def Let_def refers_def identity_def kv_alloc_identity_def)
next
  case None
  let ?a = "\<lparr>alloc_device = kv_device t, alloc_base = kv_storage_ptr t,
    alloc_nbytes = kv_storage_nbytes t, alloc_lifetime = Some [kv_identity t]\<rparr>"
  have e: "allocs' = allocs @ [?a]" "idx' = idx(kv_alloc_identity t \<mapsto> length allocs)"
      "la = (length allocs, kv_data_ptr t - kv_storage_ptr t)"
    using None assms(2) by (auto simp: add_allocation_def Let_def)
  have new: "identity ?a = kv_alloc_identity t" by (simp add: identity_def kv_alloc_identity_def)
  have old: "idx ident = Some i \<longleftrightarrow> i < length allocs \<and> identity (allocs ! i) = ident" for ident i
    by (rule table_okD [OF assms(1)])
  have "\<forall>i < length allocs. identity (allocs ! i) \<noteq> kv_alloc_identity t"
    using None old [of "kv_alloc_identity t"] by auto
  then have "table_ok (allocs', idx')"
    using None old new by (auto simp: table_ok_def e nth_append less_Suc_eq)
  moreover have "drawn_from {t} ?a" by (simp add: drawn_from_def)
  ultimately show ?thesis by (auto simp: e refers_def)
qed

lemma layer_allocations_ok:
  assumes "table_ok (allocs, idx)" and "layer_allocations ts (allocs, idx) = ((allocs', idx'), las)"
  shows "table_ok (allocs', idx') \<and> list_all2 (refers allocs') ts las \<and>
    (\<exists>ext. allocs' = allocs @ ext \<and> (\<forall>a \<in> set ext. drawn_from (set ts) a))"
  using assms
proof (induction ts arbitrary: allocs idx las)
  case Nil
  then show ?case by simp
next
  case (Cons t ts)
  obtain al ix la where a: "add_allocation t (allocs, idx) = ((al, ix), la)" by (metis surj_pair)
  obtain las' where r: "layer_allocations ts (al, ix) = ((allocs', idx'), las')" and las: "las = la # las'"
    using Cons.prems(2) a by (auto split: prod.splits)
  note s = add_allocation_ok [OF Cons.prems(1) a]
  then have IH: "table_ok (allocs', idx') \<and> list_all2 (refers allocs') ts las' \<and>
      (\<exists>ext. allocs' = al @ ext \<and> (\<forall>a \<in> set ext. drawn_from (set ts) a))"
    using Cons.IH r by blast
  then obtain ext ext' where e: "allocs' = al @ ext" "\<forall>a \<in> set ext. drawn_from (set ts) a"
      "al = allocs @ ext'" "\<forall>a \<in> set ext'. drawn_from {t} a" using s by blast
  then have "\<forall>a \<in> set (ext' @ ext). drawn_from (set (t # ts)) a" by (auto simp: drawn_from_def)
  moreover have "refers allocs' t la" unfolding e(1) using s by (blast intro: refers_append)
  ultimately show ?case using IH e by (auto simp: las)
qed

definition pair_refers ::
    "allocation list \<Rightarrow> 'd kv_tensor \<times> 'd kv_tensor \<Rightarrow> (nat \<times> int) \<times> (nat \<times> int) \<Rightarrow> bool" where
  "pair_refers allocs kv la \<longleftrightarrow> refers allocs (fst kv) (fst la) \<and> refers allocs (snd kv) (snd la)"

lemma pair_allocations_ok:
  assumes "table_ok (allocs, idx)" and "pair_allocations kvs (allocs, idx) = ((allocs', idx'), las)"
  shows "table_ok (allocs', idx') \<and> list_all2 (pair_refers allocs') kvs las \<and> (\<exists>ext. allocs' = allocs @ ext)"
  using assms
proof (induction kvs arbitrary: allocs idx las)
  case Nil
  then show ?case by simp
next
  case (Cons kv kvs)
  obtain key val where kv: "kv = (key, val)" by (cases kv)
  obtain al1 ix1 la1 where a1: "add_allocation key (allocs, idx) = ((al1, ix1), la1)" by (metis surj_pair)
  obtain al2 ix2 la2 where a2: "add_allocation val (al1, ix1) = ((al2, ix2), la2)" by (metis surj_pair)
  obtain las' where r: "pair_allocations kvs (al2, ix2) = ((allocs', idx'), las')"
    and las: "las = (la1, la2) # las'"
    using Cons.prems(2) a1 a2 by (auto simp: kv split: prod.splits)
  note s1 = add_allocation_ok [OF Cons.prems(1) a1]
  note s2 = add_allocation_ok [OF conjunct1 [OF s1] a2]
  note IH = Cons.IH [OF conjunct1 [OF s2] r]
  from s1 s2 IH obtain e1 e2 e3 where e: "al1 = allocs @ e1" "al2 = al1 @ e2" "allocs' = al2 @ e3" by blast
  have "refers allocs' key la1" unfolding e(3) unfolding e(2) using s1 by (blast intro: refers_append)
  moreover have "refers allocs' val la2" unfolding e(3) using s2 by (blast intro: refers_append)
  ultimately show ?case using IH e by (auto simp: las kv pair_refers_def)
qed

section \<open>Where a file byte goes\<close>

definition contains_byte :: "int \<Rightarrow> byte_segment \<Rightarrow> bool" where
  "contains_byte f s \<longleftrightarrow> seg_file_offset s \<le> f \<and> f < seg_file_offset s + seg_nbytes s"

text \<open>The device addresses into which the segments of a descriptor read the file byte \<open>f\<close>.\<close>

definition file_targets :: "allocation list \<Rightarrow> byte_segment list \<Rightarrow> int \<Rightarrow> int list" where
  "file_targets allocs segs f =
     map (\<lambda>s. alloc_base (allocs ! nat (seg_allocation s)) + seg_allocation_offset s + (f - seg_file_offset s))
       (filter (contains_byte f) segs)"

lemma file_targets_simps [simp]:
  "file_targets allocs [] f = []"
  "file_targets allocs (xs @ ys) f = file_targets allocs xs f @ file_targets allocs ys f"
  by (simp_all add: file_targets_def)

fun tiles :: "int \<Rightarrow> int \<Rightarrow> byte_segment list \<Rightarrow> bool" where
  "tiles base h [] = True"
| "tiles base h (s # ss) = (seg_file_offset s = base \<and> seg_nbytes s = h \<and> tiles (base + h) h ss)"

lemma tiles_append: "tiles base h (xs @ ys) \<longleftrightarrow> tiles base h xs \<and> tiles (base + int (length xs) * h) h ys"
  by (induction xs arbitrary: base) (auto simp: algebra_simps)

lemma tiles_concat:
  assumes "\<forall>i < length rss. tiles (base + int i * w) h (rss ! i) \<and> int (length (rss ! i)) * h = w"
  shows "tiles base h (concat rss) \<and> int (length (concat rss)) * h = int (length rss) * w"
  using assms
proof (induction rss arbitrary: base)
  case Nil
  then show ?case by simp
next
  case (Cons r rss)
  have "\<forall>i < length rss. tiles (base + w + int i * w) h (rss ! i) \<and> int (length (rss ! i)) * h = w"
  proof (intro allI impI)
    fix i assume "i < length rss"
    then show "tiles (base + w + int i * w) h (rss ! i) \<and> int (length (rss ! i)) * h = w"
      using Cons.prems [rule_format, of "Suc i"] by (simp add: distrib_right add.assoc)
  qed
  from Cons.IH [OF this] have t: "tiles (base + w) h (concat rss)"
      "int (length (concat rss)) * h = int (length rss) * w" by blast+
  have r: "tiles base h r" "int (length r) * h = w" using Cons.prems [rule_format, of 0] by simp_all
  show ?case using t r by (simp add: tiles_append distrib_right)
qed

lemma tiles_above: "tiles base h ss \<Longrightarrow> 0 \<le> h \<Longrightarrow> s \<in> set ss \<Longrightarrow> base \<le> seg_file_offset s"
proof (induction ss arbitrary: base)
  case Nil
  then show ?case by simp
next
  case (Cons x ss)
  show ?case
  proof (cases "s = x")
    case False
    with Cons.prems Cons.IH [of "base + h"] show ?thesis by auto
  qed (use Cons.prems in auto)
qed

lemma tiles_nbytes: "tiles base h ss \<Longrightarrow> s \<in> set ss \<Longrightarrow> seg_nbytes s = h"
  by (induction ss arbitrary: base) auto

lemma tiles_none: "tiles base h ss \<Longrightarrow> 0 \<le> h \<Longrightarrow> f < base \<Longrightarrow> filter (contains_byte f) ss = []"
  using tiles_above [of base h ss] by (force simp: filter_empty_conv contains_byte_def)

lemma tiles_member:
  "tiles base h ss \<Longrightarrow> 0 \<le> h \<Longrightarrow> s \<in> set ss \<Longrightarrow> contains_byte f s \<Longrightarrow> filter (contains_byte f) ss = [s]"
proof (induction ss arbitrary: base)
  case Nil
  then show ?case by simp
next
  case (Cons x ss)
  have t: "tiles (base + h) h ss" and x: "seg_file_offset x = base" "seg_nbytes x = h"
    using Cons.prems by auto
  show ?case
  proof (cases "contains_byte f x")
    case True
    then have "f < base + h" by (simp add: contains_byte_def x)
    then have none: "filter (contains_byte f) ss = []" using tiles_none [OF t Cons.prems(2)] by simp
    then have "s \<notin> set ss" using Cons.prems(4) by (auto simp: filter_empty_conv)
    with True none Cons.prems(3) show ?thesis by simp
  next
    case False
    then have "s \<in> set ss" using Cons.prems by auto
    with False Cons.IH [OF t Cons.prems(2)] Cons.prems(4) show ?thesis by simp
  qed
qed

lemma file_targets_member:
  assumes "tiles base h ss" and "0 \<le> h" and "s \<in> set ss" and "contains_byte f s"
  shows "file_targets allocs ss f =
    [alloc_base (allocs ! nat (seg_allocation s)) + seg_allocation_offset s + (f - seg_file_offset s)]"
  by (simp add: file_targets_def tiles_member [OF assms])

lemma append_segment_targets:
  assumes "\<forall>x \<in> set segs. 0 \<le> seg_nbytes x" and "0 \<le> seg_nbytes s"
  shows "file_targets allocs (append_segment segs s) f = file_targets allocs segs f @ file_targets allocs [s] f
    \<and> (\<forall>x \<in> set (append_segment segs s). 0 \<le> seg_nbytes x)"
proof (cases "segs \<noteq> [] \<and> seg_allocation (last segs) = seg_allocation s \<and>
         seg_file_offset (last segs) + seg_nbytes (last segs) = seg_file_offset s \<and>
         seg_allocation_offset (last segs) + seg_nbytes (last segs) = seg_allocation_offset s")
  case True
  then obtain xs p where segs: "segs = xs @ [p]" by (metis append_butlast_last_id)
  have m: "seg_allocation p = seg_allocation s" "seg_file_offset p + seg_nbytes p = seg_file_offset s"
      "seg_allocation_offset p + seg_nbytes p = seg_allocation_offset s" using True by (simp_all add: segs)
  have nb: "0 \<le> seg_nbytes p" using assms(1) by (simp add: segs)
  have a: "append_segment segs s = xs @ [p\<lparr>seg_nbytes := seg_nbytes p + seg_nbytes s\<rparr>]"
    using m by (simp add: append_segment_def segs)
  have "file_targets allocs [p\<lparr>seg_nbytes := seg_nbytes p + seg_nbytes s\<rparr>] f =
      file_targets allocs [p] f @ file_targets allocs [s] f"
    using m nb assms(2) by (auto simp: file_targets_def contains_byte_def)
  then show ?thesis unfolding a using assms nb by (auto simp: segs)
next
  case False
  then have a: "append_segment segs s = segs @ [s]" by (simp only: append_segment_def if_False)
  show ?thesis unfolding a using assms by auto
qed

lemma foldl_append_segment_targets:
  assumes "\<forall>x \<in> set ss. 0 \<le> seg_nbytes x" and "\<forall>x \<in> set acc. 0 \<le> seg_nbytes x"
  shows "file_targets allocs (foldl append_segment acc ss) f = file_targets allocs acc f @ file_targets allocs ss f"
  using assms
proof (induction ss arbitrary: acc)
  case Nil
  then show ?case by simp
next
  case (Cons s ss)
  have a: "file_targets allocs (append_segment acc s) f = file_targets allocs acc f @ file_targets allocs [s] f
      \<and> (\<forall>x \<in> set (append_segment acc s). 0 \<le> seg_nbytes x)"
    using Cons.prems by (intro append_segment_targets) auto
  then have "file_targets allocs (foldl append_segment (append_segment acc s) ss) f =
      file_targets allocs (append_segment acc s) f @ file_targets allocs ss f"
    using Cons.prems by (intro Cons.IH) auto
  then show ?case using a by (simp add: file_targets_def)
qed

lemma tiles_enumerate:
  assumes "\<forall>i < length xs. tiles (base + int i * w) h (g (i, xs ! i)) \<and> int (length (g (i, xs ! i))) * h = w"
  shows "tiles base h (concat (map g (enumerate 0 xs))) \<and>
    int (length (concat (map g (enumerate 0 xs)))) * h = int (length xs) * w"
  using tiles_concat [of "map g (enumerate 0 xs)" base w h] assms by (simp add: nth_enumerate_eq)

lemma in_concat_enumerate:
  assumes "i < length xs" and "y \<in> set (g (i, xs ! i))"
  shows "y \<in> set (concat (map g (enumerate 0 xs)))"
proof -
  have "(i, xs ! i) \<in> set (enumerate 0 xs)" using assms(1) by (simp add: in_set_enumerate_eq)
  with assms(2) show ?thesis by auto
qed

section \<open>The segments of one tensor per layer\<close>

lemma nhd_segments_tile:
  assumes "B = int (length las) * 2 * lbn"
  shows "tiles (4096 + ls * B) lbn (nhd_segments nb lbn B ls ps las) \<and>
    int (length (nhd_segments nb lbn B ls ps las)) * lbn = int (length ps) * B"
  unfolding nhd_segments_def
proof (rule tiles_enumerate, intro allI impI)
  fix i assume "i < length ps"
  have "tiles (4096 + ls * B + int i * B) lbn
      (concat (map (\<lambda>layer. map (nhd_segment nb lbn B (ls + int i) (ps ! i) layer) [0, 1]) (enumerate 0 las))) \<and>
    int (length (concat (map (\<lambda>layer. map (nhd_segment nb lbn B (ls + int i) (ps ! i) layer) [0, 1])
      (enumerate 0 las)))) * lbn = int (length las) * (2 * lbn)"
    by (rule tiles_enumerate)
      (auto simp: nhd_segment_def BLOCK_FIRST_HEADER_SIZE_def algebra_simps split: prod.splits)
  then show "tiles (4096 + ls * B + int i * B) lbn (case (i, ps ! i) of (block_offset, physical_block) \<Rightarrow>
        concat (map (\<lambda>layer. map (nhd_segment nb lbn B (ls + int block_offset) physical_block layer) [0, 1])
          (enumerate 0 las))) \<and>
      int (length (case (i, ps ! i) of (block_offset, physical_block) \<Rightarrow>
        concat (map (\<lambda>layer. map (nhd_segment nb lbn B (ls + int block_offset) physical_block layer) [0, 1])
          (enumerate 0 las)))) * lbn = B"
    by (simp add: assms mult.assoc)
qed

lemma nhd_segment_in:
  assumes "i < length ps" and "l < length las" and "k = 0 \<or> k = 1"
  shows "nhd_segment nb lbn B (ls + int i) (ps ! i) (l, las ! l) k \<in> set (nhd_segments nb lbn B ls ps las)"
  unfolding nhd_segments_def
proof (rule in_concat_enumerate [OF assms(1)], simp only: prod.case, rule in_concat_enumerate [OF assms(2)])
  show "nhd_segment nb lbn B (ls + int i) (ps ! i) (l, las ! l) k \<in>
      set (map (nhd_segment nb lbn B (ls + int i) (ps ! i) (l, las ! l)) [0, 1])"
    using assms(3) by auto
qed

lemma whole_blocks_Inr:
  assumes "whole_blocks reason bs skip_before start fn = Inr (Inr skip)" and "start < fn"
  shows "skip = min (fn - start) (max 0 (skip_before - start))" and "bs dvd fn - start" and "bs dvd skip"
    and "0 \<le> skip" and "skip < fn - start" and "bs \<noteq> 0"
proof -
  define k where "k = min (fn - start) (max 0 (skip_before - start))"
  have "bs \<noteq> 0 \<and> (fn - start) mod bs = 0 \<and> k \<noteq> fn - start \<and> k mod bs = 0 \<and> skip = k"
    using assms(1) unfolding whole_blocks_def Let_def k_def [symmetric] by (simp split: if_splits)
  then have c: "bs \<noteq> 0" "(fn - start) mod bs = 0" "k \<noteq> fn - start" "k mod bs = 0" "skip = k" by blast+
  show "skip = min (fn - start) (max 0 (skip_before - start))" using c(5) by (simp only: k_def)
  show "bs dvd fn - start" "bs dvd skip" "bs \<noteq> 0" using c by (simp_all add: mod_0_imp_dvd)
  have "0 \<le> k" "k \<le> fn - start" using assms(2) by (simp_all add: k_def)
  with c(3,5) show "0 \<le> skip" "skip < fn - start" by simp_all
qed

text \<open>A token of a planned chunk, in terms of its block and its place in the block.\<close>

lemma planned_token:
  assumes sc: "scan_blocks bs nb (rows (nat bs) (py_slice slots (start + skip) fn)) = Inr ps"
    and rng: "0 < bs" "0 \<le> start" "fn \<le> int (length slots)" "0 \<le> skip" "skip < fn - start"
    and dv: "bs dvd fn - start" "bs dvd skip"
    and t: "skip \<le> t" "t < fn - start"
  defines "i \<equiv> nat ((t - skip) div bs)"
  shows "i < length ps" and "skip div bs + int i = t div bs" and "ps ! i = slots ! nat (start + t) div bs"
    and "t mod bs = slots ! nat (start + t) mod bs"
proof -
  have "bs dvd fn - (start + skip)" using dv by (metis diff_diff_eq dvd_diff)
  then obtain k where k: "fn - (start + skip) = k * bs" by (metis dvd_def mult.commute)
  have u: "0 \<le> t - skip" "t - skip < fn - (start + skip)" using t by auto
  have a: "0 \<le> start + skip" "start + skip \<le> fn" using rng by auto
  note sl = scanned_slot [OF sc rng(1) a rng(3) k u]
  show "i < length ps" using sl by (simp add: i_def)
  have m: "(t - skip) mod bs = t mod bs" using mod_add_mult [OF dv(2), of "t - skip"] by simp
  have s: "slots ! nat (start + t) = ps ! i * bs + t mod bs"
    using sl(3) m by (simp add: i_def)
  show "skip div bs + int i = t div bs"
    using div_add_mult [OF dv(2), of "t - skip"] u rng(1) by (simp add: i_def pos_imp_zdiv_nonneg_iff)
  show "ps ! i = slots ! nat (start + t) div bs" unfolding s using rng(1) by simp
  show "t mod bs = slots ! nat (start + t) mod bs" unfolding s by simp
qed

lemma cached_block_below:
  fixes bs skip t B x :: int
  assumes "0 < bs" and "bs dvd skip" and "t < skip" and "0 \<le> x" and "x < B"
  shows "t div bs * B + x < skip div bs * B"
proof -
  have "t div bs < skip div bs" using assms(1-3) by (intro div_less_if_less_mult) auto
  then have "(t div bs + 1) * B \<le> skip div bs * B" using assms by (intro mult_right_mono) auto
  then show ?thesis using assms by (simp add: distrib_right)
qed

lemma slot_row_address:
  fixes s bs row c :: int
  shows "(c + s div bs) * (bs * row) + (s mod bs) * row = (c * bs + s) * row"
proof -
  have "(c + s div bs) * (bs * row) + (s mod bs) * row = (c * bs + (s div bs * bs + s mod bs)) * row"
    by (simp only: distrib_right mult.assoc)
  then show ?thesis by simp
qed

lemma nhd_segments_target:
  assumes sc: "scan_blocks bs nb (rows (nat bs) (py_slice slots (start + skip) fn)) = Inr ps"
    and rng: "0 < bs" "0 \<le> start" "fn \<le> int (length slots)" "0 \<le> skip" "skip < fn - start"
    and dv: "bs dvd fn - start" "bs dvd skip"
    and las: "list_all2 (refers allocs) kvs las" and l: "l < length kvs" and k: "k = 0 \<or> k = 1"
    and t: "0 \<le> t" "t < fn - start" and r: "0 \<le> r" "r < row"
  defines "B \<equiv> int (length kvs) * 2 * (bs * row)"
  shows "file_targets allocs (nhd_segments nb (bs * row) B (skip div bs) ps las)
      (4096 + t div bs * B + (int l * 2 + k) * (bs * row) + t mod bs * row + r) =
    (if t < skip then []
     else [kv_data_ptr (kvs ! l) + (k * nb * bs + slots ! nat (start + t)) * row + r])"
proof -
  let ?f = "4096 + t div bs * B + (int l * 2 + k) * (bs * row) + t mod bs * row + r"
  have len: "length las = length kvs" using las by (auto dest: list_all2_lengthD)
  have lb: "0 \<le> bs * row" using rng(1) r by simp
  have til: "tiles (4096 + skip div bs * B) (bs * row) (nhd_segments nb (bs * row) B (skip div bs) ps las)"
    using nhd_segments_tile [of B las "bs * row"] len by (simp add: B_def)
  have mb: "0 \<le> t mod bs" "t mod bs < bs" using rng(1) by simp_all
  have "(t mod bs + 1) * row \<le> bs * row" using mb r by (intro mult_right_mono) auto
  then have in_block: "0 \<le> t mod bs * row + r" "t mod bs * row + r < bs * row"
    using mb r by (simp_all add: distrib_right)
  show ?thesis
  proof (cases "t < skip")
    case True
    have "(int l * 2 + k + 1) * (bs * row) \<le> (int (length kvs) * 2) * (bs * row)"
      using l k lb by (intro mult_right_mono) auto
    then have "(int l * 2 + k) * (bs * row) + t mod bs * row + r < B"
      using in_block by (simp add: B_def distrib_right)
    moreover have "0 \<le> (int l * 2 + k) * (bs * row) + t mod bs * row + r"
    proof -
      have "0 \<le> (int l * 2 + k) * (bs * row)" using k lb by (intro mult_nonneg_nonneg [of _ "bs * row"]) auto
      with in_block show ?thesis by linarith
    qed
    ultimately have "?f < 4096 + skip div bs * B"
      using cached_block_below [OF rng(1) dv(2) True] by (simp add: add.assoc)
    then show ?thesis using tiles_none [OF til lb] True by (simp add: file_targets_def)
  next
    case False
    let ?s = "slots ! nat (start + t)"
    let ?i = "nat ((t - skip) div bs)"
    have sk: "skip \<le> t" using False by simp
    note pt = planned_token [OF sc rng dv sk t(2)]
    have ll: "l < length las" using l len by simp
    let ?seg = "nhd_segment nb (bs * row) B (t div bs) (?s div bs) (l, las ! l) k"
    have mem: "?seg \<in> set (nhd_segments nb (bs * row) B (skip div bs) ps las)"
      using nhd_segment_in [OF pt(1) ll k, of nb "bs * row" B "skip div bs"] pt(2,3) by simp
    have ref: "refers allocs (kvs ! l) (las ! l)" using las l by (rule list_all2_nthD)
    have fields: "seg_file_offset ?seg = 4096 + t div bs * B + (int l * 2 + k) * (bs * row)"
        "seg_nbytes ?seg = bs * row" "nat (seg_allocation ?seg) = fst (las ! l)"
        "seg_allocation_offset ?seg = snd (las ! l) + (k * nb + ?s div bs) * (bs * row)"
      by (simp_all add: nhd_segment_def BLOCK_FIRST_HEADER_SIZE_def split: prod.splits)
    have "contains_byte ?f ?seg" using in_block by (simp add: contains_byte_def fields)
    from file_targets_member [OF til lb mem this, of allocs]
    have "file_targets allocs (nhd_segments nb (bs * row) B (skip div bs) ps las) ?f =
        [kv_data_ptr (kvs ! l) + ((k * nb + ?s div bs) * (bs * row) + t mod bs * row) + r]"
      using ref by (simp add: fields refers_def)
    then show ?thesis using False slot_row_address [of "k * nb" ?s bs row] pt(4) by simp
  qed
qed

lemma planned_chunk:
  assumes "traverse f (zip starts ends) = Inr plans" and "length starts = length ends" and "i < length plans"
    and "check_ranges slots starts ends = None"
  shows "f (starts ! i, ends ! i) = Inr (plans ! i)" and "length plans = length starts"
    and "0 \<le> starts ! i" and "starts ! i < ends ! i" and "ends ! i \<le> int (length slots)"
proof -
  have l2: "list_all2 (\<lambda>x y. f x = Inr y) (zip starts ends) plans"
    using assms(1) by (simp add: traverse_Inr_iff)
  then show len: "length plans = length starts" using assms(2) by (auto dest: list_all2_lengthD)
  show "f (starts ! i, ends ! i) = Inr (plans ! i)"
    using list_all2_nthD2 [OF l2 assms(3)] assms(2,3) len by simp
  have i: "i < length starts" "i < length ends" using len assms by auto
  then have "(starts ! i, ends ! i) \<in> set (zip starts ends)" "starts ! i \<in> set starts" "ends ! i \<in> set ends"
    by (force simp: set_zip)+
  then have "0 \<le> starts ! i \<and> starts ! i < ends ! i \<and> ends ! i \<le> int (length slots)"
    using assms(4) unfolding check_ranges_def guard_simps by (force simp: not_less)
  then show "0 \<le> starts ! i" "starts ! i < ends ! i" "ends ! i \<le> int (length slots)" by auto
qed

lemma nhd_chunk_plan_Some:
  assumes "nhd_chunk_plan kvs allocs las slots bs skip_before (start, fn) = Inr pl"
    and "plan_descriptor pl = Some d"
    and "kv_shape (hd kvs) ! 2 * kv_shape (hd kvs) ! 3 * kv_shape (hd kvs) ! 4 * kv_element_size (hd kvs) = lbn"
  obtains skip ps where
    "whole_blocks ''per-layer direct retrieve does not support a partial leading block''
       bs skip_before start fn = Inr (Inr skip)"
    and "scan_blocks bs (kv_shape (hd kvs) ! 1) (rows (nat bs) (py_slice slots (start + skip) fn)) = Inr ps"
    and "validate_descriptor d False False = None"
    and "d = segment_descriptor (kv_device (hd kvs)) (int (length kvs) * 2 * lbn) bs (fn - start) skip
      (map kv_identity kvs) allocs ps
      (nhd_segments (kv_shape (hd kvs) ! 1) lbn (int (length kvs) * 2 * lbn) (skip div bs) ps las)"
  using assms(1,2) unfolding nhd_chunk_plan_def Let_def prod.case assms(3)
  by (auto simp: Let_def split: sum.splits option.splits)

lemma build_per_layer_Inr:
  assumes "build_per_layer_direct_plans kvs slots starts ends RETRIEVE bs skip_before = Inr plans"
    and "i < length plans" and "plan_descriptor (plans ! i) = Some d"
  obtains allocs idx las where "layer_allocations kvs ([], Map.empty) = ((allocs, idx), las)"
    and "nhd_chunk_plan kvs allocs las slots bs skip_before (starts ! i, ends ! i) = Inr (plans ! i)"
    and "0 \<le> starts ! i" and "starts ! i < ends ! i" and "ends ! i \<le> int (length slots)"
    and "kv_shape (hd kvs) ! 2 = bs" and "kvs \<noteq> []"
    and "\<forall>t \<in> set kvs. \<not> nhd_tensor_bad (hd kvs) t"
proof -
  obtain allocs idx las where la: "layer_allocations kvs ([], Map.empty) = ((allocs, idx), las)"
    by (metis surj_pair)
  have run: "traverse (nhd_chunk_plan kvs allocs las slots bs skip_before) (zip starts ends) = Inr plans"
    and c: "length starts = length ends" "check_ranges slots starts ends = None"
      "kv_shape (hd kvs) ! 2 = bs" "kvs \<noteq> []"
      "\<forall>t \<in> set kvs. \<not> nhd_tensor_bad (hd kvs) t"
    using assms la
    by (auto simp: build_per_layer_direct_plans_def Let_def split: if_splits option.splits)
  note p = planned_chunk [OF run c(1) assms(2) c(2)]
  show thesis using that [OF la p(1,3,4,5) c(3,4,5)] .
qed

text \<open>
  C25: The direct plans for one KV tensor per layer are faithful to the last byte. In an accepted plan
  byte \<open>r\<close> of the row of token \<open>t\<close>, as the block-first file stores it for layer \<open>l\<close> and for keys
  (\<open>k = 0\<close>) or values (\<open>k = 1\<close>), is read exactly once, into byte \<open>r\<close> of
  \<open>tensor[k, slot // block_size, slot % block_size]\<close> of that layer, \<open>slot\<close> being the slot the
  engine gave the token; bytes of cached tokens are not read at all, and no allocation is named twice.
\<close>

theorem per_layer_plan_faithful:
  assumes "build_per_layer_direct_plans kvs slots starts ends RETRIEVE bs skip_before = Inr plans"
    and "i < length plans" and "plan_descriptor (plans ! i) = Some d" and "0 < bs"
    and "l < length kvs" and "k = 0 \<or> k = 1" and "0 \<le> t" and "t < ends ! i - starts ! i"
    and "0 \<le> r" and "r < row"
  assumes row: "row = kv_shape (hd kvs) ! 3 * kv_shape (hd kvs) ! 4 * kv_element_size (hd kvs)"
  shows "validate_descriptor d False False = None \<and> distinct (map identity (d_allocations d)) \<and>
    d_block_nbytes d = int (length kvs) * 2 * (bs * row) \<and>
    file_targets (d_allocations d) (d_byte_segments d)
      (4096 + t div bs * d_block_nbytes d + (int l * 2 + k) * (bs * row) + t mod bs * row + r) =
    (if t < min (ends ! i - starts ! i) (max 0 (skip_before - starts ! i)) then []
     else [kv_data_ptr (kvs ! l) + (k * kv_shape (hd kvs) ! 1 * bs + slots ! nat (starts ! i + t)) * row + r])"
proof -
  obtain allocs idx las where la: "layer_allocations kvs ([], Map.empty) = ((allocs, idx), las)"
    and ch: "nhd_chunk_plan kvs allocs las slots bs skip_before (starts ! i, ends ! i) = Inr (plans ! i)"
    and rng: "0 \<le> starts ! i" "starts ! i < ends ! i" "ends ! i \<le> int (length slots)"
    and sh: "kv_shape (hd kvs) ! 2 = bs"
    using build_per_layer_Inr [OF assms(1-3)] by metis
  have tab: "table_ok (allocs, idx)" "list_all2 (refers allocs) kvs las"
    using layer_allocations_ok [OF table_ok_empty la] by blast+
  let ?nb = "kv_shape (hd kvs) ! 1"
  let ?B = "int (length kvs) * 2 * (bs * row)"
  have lbn: "kv_shape (hd kvs) ! 2 * kv_shape (hd kvs) ! 3 * kv_shape (hd kvs) ! 4 *
      kv_element_size (hd kvs) = bs * row" by (simp add: sh row mult.assoc)
  obtain skip ps where wb: "whole_blocks ''per-layer direct retrieve does not support a partial leading block''
        bs skip_before (starts ! i) (ends ! i) = Inr (Inr skip)"
    and sc: "scan_blocks bs ?nb (rows (nat bs) (py_slice slots (starts ! i + skip) (ends ! i))) = Inr ps"
    and d: "validate_descriptor d False False = None"
      "d = segment_descriptor (kv_device (hd kvs)) ?B bs (ends ! i - starts ! i) skip (map kv_identity kvs)
        allocs ps (nhd_segments ?nb (bs * row) ?B (skip div bs) ps las)"
    using nhd_chunk_plan_Some [OF ch assms(3) lbn] by metis
  note w = whole_blocks_Inr [OF wb rng(2)]
  have fields: "d_allocations d = allocs" "d_block_nbytes d = ?B"
      "d_byte_segments d = nhd_segments ?nb (bs * row) ?B (skip div bs) ps las"
    by (simp_all add: d(2) segment_descriptor_def)
  note tgt = nhd_segments_target [OF sc assms(4) rng(1,3) w(4,5,2,3) tab(2) assms(5-10)]
  show ?thesis
    unfolding fields using tgt d(1) table_ok_distinct [OF tab(1)] w(1) by simp
qed

section \<open>The planner for one tensor per layer never raises\<close>

text \<open>What torch guarantees of a contiguous tensor: it lies inside its storage.\<close>

definition kv_storage_ok :: "'d kv_tensor \<Rightarrow> bool" where
  "kv_storage_ok t \<longleftrightarrow> kv_tensor_ok t \<and> 0 < kv_storage_ptr t \<and> kv_storage_ptr t \<le> kv_data_ptr t \<and>
     kv_data_ptr t + prod_list (kv_shape t) * kv_element_size t \<le> kv_storage_ptr t + kv_storage_nbytes t"

lemma prod_list_pos: "\<forall>d \<in> set xs. 0 < d \<Longrightarrow> 0 < prod_list xs" for xs :: "int list"
  by (induction xs) auto

lemma kv_storage_pos:
  assumes "kv_storage_ok t"
  shows "0 < kv_storage_nbytes t"
proof -
  have "0 < prod_list (kv_shape t) * kv_element_size t"
    using assms prod_list_pos by (simp add: kv_storage_ok_def kv_tensor_ok_def)
  then show ?thesis using assms unfolding kv_storage_ok_def by linarith
qed

lemma tiles_sorted: "tiles base h ss \<Longrightarrow> 0 \<le> h \<Longrightarrow> sorted (map seg_file_offset ss)"
proof (induction ss arbitrary: base)
  case Nil
  then show ?case by simp
next
  case (Cons s ss)
  then have "tiles (base + h) h ss" "seg_file_offset s = base" by auto
  with Cons tiles_above [of "base + h" h ss] show ?case by force
qed

definition segment_in_range :: "allocation list \<Rightarrow> byte_segment \<Rightarrow> bool" where
  "segment_in_range allocs s \<longleftrightarrow> 0 \<le> seg_allocation s \<and> nat (seg_allocation s) < length allocs \<and>
     0 \<le> seg_allocation_offset s \<and>
     seg_allocation_offset s + seg_nbytes s \<le> alloc_nbytes (allocs ! nat (seg_allocation s))"

lemma check_segments_tiles:
  assumes "tiles base h ss" and "0 < h" and "\<forall>s \<in> set ss. segment_in_range allocs s"
  shows "check_segments allocs False base ss = Inr (base + int (length ss) * h)"
  using assms
proof (induction ss arbitrary: base)
  case Nil
  then show ?case by simp
next
  case (Cons s ss)
  then have "check_segments allocs False (base + h) ss = Inr (base + h + int (length ss) * h)" by simp
  with Cons.prems show ?case by (auto simp: segment_in_range_def algebra_simps)
qed

lemma validate_segment_descriptor:
  assumes d: "d = segment_descriptor dev B bs chunk skip life allocs ps segs"
    and pos: "0 < B" "0 < bs" "0 \<le> skip" "bs dvd skip" "chunk - skip = int (length ps) * bs" "ps \<noteq> []"
    and al: "allocs \<noteq> []"
      "\<forall>a \<in> set allocs. alloc_device a = dev \<and> 0 < alloc_base a \<and> 0 < alloc_nbytes a \<and> alloc_lifetime a \<noteq> None"
    and sg: "tiles (4096 + skip div bs * B) h segs" "0 < h" "int (length segs) * h = int (length ps) * B"
      "\<forall>s \<in> set segs. segment_in_range allocs s"
  shows "validate_descriptor d False False = None"
proof -
  have "segs \<noteq> []" using sg(2,3) pos(1,6) by auto
  have so: "sort_key seg_file_offset segs = segs"
    using sort_key_sorted [OF tiles_sorted [OF sg(1)]] sg(2) by simp
  have ck: "check_segments allocs False (4096 + skip div bs * B) segs =
      Inr (4096 + (skip div bs + int (length ps)) * B)"
    using check_segments_tiles [OF sg(1,2,4)] sg(3) by (simp add: distrib_right)
  have ca: "first_error_in (check_allocation dev False False) allocs = None"
    using al(2) by (auto simp: guard_simps check_allocation_def)
  have a0: "0 < alloc_base (allocs ! 0)" "0 < alloc_nbytes (allocs ! 0)" using al by (simp_all add: nth_mem)
  have vb: "validate_byte_segments d False False = None"
    using al(1) \<open>segs \<noteq> []\<close> so ck ca pos
    by (simp add: validate_byte_segments_def d segment_descriptor_def BLOCK_FIRST_HEADER_SIZE_def)
  have "0 \<le> skip div bs" using pos by (simp add: pos_imp_zdiv_nonneg_iff)
  then have fe: "first_error
      [(False \<and> dev_type (d_device d) \<noteq> ''cuda'', ValueError ''direct I/O requires a CUDA allocation''),
       (d_allocation_base d \<le> 0 \<or> d_allocation_nbytes d \<le> 0,
         ValueError ''direct I/O allocation address and size must be positive''),
       (d_engine_group_id d < 0, ValueError ''engine_group_id must be non-negative''),
       (d_block_nbytes d \<le> 0 \<or> d_block_size d \<le> 0,
         ValueError ''direct I/O block sizes must be positive''),
       (d_logical_block_start d < 0 \<or> d_logical_block_count d < 0,
         ValueError ''direct I/O logical block range is invalid''),
       (d_logical_block_count d = 0 \<and> d_leading_edge d = None,
         ValueError ''direct I/O descriptor has no transferable blocks''),
       (d_lifetime d = None, ValueError ''direct I/O descriptor must hold its allocation lifetime''),
       (\<not> d_synchronous d, ValueError ''0.4.2 direct I/O only supports synchronous completion''),
       (d_file_payload_offset d \<noteq> BLOCK_FIRST_HEADER_SIZE,
         ValueError ''unexpected block_first_v1 payload offset'')] = None"
    using a0 pos unfolding first_error_None_iff by (auto simp: d segment_descriptor_def)
  have "d_byte_segments d \<noteq> []" using \<open>segs \<noteq> []\<close> by (simp add: d segment_descriptor_def)
  with vb show ?thesis unfolding validate_descriptor_def fe by simp
qed

lemma nhd_segment_in_range:
  assumes "kv_storage_ok t" and "kv_shape t = [2, nb, bs, nh, hs]"
    and "lbn = bs * nh * hs * kv_element_size t" and "refers allocs t la" and "k = 0 \<or> k = 1"
    and "0 \<le> p" and "p < nb"
  shows "segment_in_range allocs (nhd_segment nb lbn B b p (l, la) k)"
proof -
  have pos: "0 < lbn" using assms(1-3) by (simp add: kv_storage_ok_def kv_tensor_ok_def)
  have "prod_list (kv_shape t) * kv_element_size t = 2 * nb * lbn" by (simp add: assms(2,3) algebra_simps)
  then have st: "kv_storage_ptr t \<le> kv_data_ptr t" "kv_data_ptr t + 2 * nb * lbn \<le> kv_storage_ptr t + kv_storage_nbytes t"
    using assms(1) by (simp_all add: kv_storage_ok_def)
  have "(k * nb + p + 1) * lbn \<le> 2 * nb * lbn" using assms(5-7) pos by (intro mult_right_mono) auto
  then have "(k * nb + p) * lbn + lbn \<le> 2 * nb * lbn" by (simp add: distrib_right)
  moreover have "0 \<le> (k * nb + p) * lbn"
    using assms(5-7) pos by (intro mult_nonneg_nonneg) auto
  ultimately show ?thesis
    using assms(4) st by (auto simp: segment_in_range_def nhd_segment_def refers_def split: prod.splits)
qed

lemma nhd_segments_elem:
  assumes "s \<in> set (nhd_segments nb lbn B ls ps las)"
  obtains i l k where "i < length ps" and "l < length las" and "k = 0 \<or> k = 1"
    and "s = nhd_segment nb lbn B (ls + int i) (ps ! i) (l, las ! l) k"
  using assms by (auto simp: nhd_segments_def in_set_enumerate_eq) metis+

definition uniform_layers :: "'d kv_tensor list \<Rightarrow> bool" where
  "uniform_layers kvs \<longleftrightarrow> (\<forall>t \<in> set kvs. kv_storage_ok t \<and>
     (kv_dtype t = kv_dtype (hd kvs) \<longrightarrow> kv_element_size t = kv_element_size (hd kvs)))"

lemma nhd_chunk_plan_total:
  assumes la: "layer_allocations kvs ([], Map.empty) = ((allocs, idx), las)" and ne: "kvs \<noteq> []"
    and un: "uniform_layers kvs" "\<forall>t \<in> set kvs. \<not> nhd_tensor_bad (hd kvs) t" "kv_shape (hd kvs) ! 0 = 2"
      "kv_shape (hd kvs) ! 2 = bs"
    and rng: "0 \<le> start" "start < fn" "fn \<le> int (length slots)"
  shows "\<exists>pl. nhd_chunk_plan kvs allocs las slots bs skip_before (start, fn) = Inr pl"
proof -
  let ?t = "hd kvs"
  have hd: "?t \<in> set kvs" using ne by simp
  then have "length (kv_shape ?t) = 5" using un(2) unfolding nhd_tensor_bad_def by blast
  then obtain nb nh hs where sh: "kv_shape ?t = [2, nb, bs, nh, hs]"
    using un(3,4) by (auto simp: numeral_eq_Suc length_Suc_conv)
  have el: "kv_storage_ok t \<and> kv_device t = kv_device ?t \<and> kv_shape t = [2, nb, bs, nh, hs] \<and>
      kv_element_size t = kv_element_size ?t" if "t \<in> set kvs" for t
    unfolding sh [symmetric] using un(1,2) that unfolding uniform_layers_def nhd_tensor_bad_def by blast
  have tk: "kv_storage_ok ?t" using el [OF hd] by blast
  then have bs: "0 < bs" "0 < nb" "0 < nh" "0 < hs" "0 < kv_element_size ?t"
    by (simp_all add: kv_storage_ok_def kv_tensor_ok_def sh)
  define lbn where "lbn = bs * nh * hs * kv_element_size ?t"
  have lb: "0 < lbn" using bs by (simp add: lbn_def)
  define B where "B = int (length kvs) * 2 * lbn"
  have tab: "list_all2 (refers allocs) kvs las" "\<forall>a \<in> set allocs. drawn_from (set kvs) a"
    using layer_allocations_ok [OF table_ok_empty la] by auto
  have len: "length las = length kvs" using tab(1) by (auto dest: list_all2_lengthD)
  have al: "\<forall>a \<in> set allocs. alloc_device a = kv_device ?t \<and> 0 < alloc_base a \<and> 0 < alloc_nbytes a \<and>
      alloc_lifetime a \<noteq> None"
  proof
    fix a assume "a \<in> set allocs"
    then obtain t where t: "t \<in> set kvs" "alloc_device a = kv_device t" "alloc_base a = kv_storage_ptr t"
        "alloc_nbytes a = kv_storage_nbytes t" "alloc_lifetime a \<noteq> None"
      using tab(2) by (auto simp: drawn_from_def)
    have ok: "kv_storage_ok t" "kv_device t = kv_device ?t" "kv_shape t = [2, nb, bs, nh, hs]"
      using el [OF t(1)] by blast+
    with t kv_storage_pos [OF ok(1)] show "alloc_device a = kv_device ?t \<and> 0 < alloc_base a \<and> 0 < alloc_nbytes a \<and>
        alloc_lifetime a \<noteq> None" by (auto simp: kv_storage_ok_def)
  qed
  have ane: "allocs \<noteq> []" using tab(1) ne by (cases kvs; cases las) (auto simp: refers_def)
  show ?thesis
  proof (cases "whole_blocks ''per-layer direct retrieve does not support a partial leading block''
      bs skip_before start fn")
    case (Inl e)
    then show ?thesis using bs by (auto simp: whole_blocks_def Let_def split: if_splits)
  next
    case wb: (Inr w)
    show ?thesis
    proof (cases w)
      case (Inl r)
      with wb show ?thesis by (simp add: nhd_chunk_plan_def Let_def)
    next
      case (Inr skip)
      note w = whole_blocks_Inr [OF wb [unfolded Inr] rng(2)]
      show ?thesis
      proof (cases "scan_blocks bs nb (rows (nat bs) (py_slice slots (start + skip) fn))")
        case (Inl r)
        with wb Inr show ?thesis by (simp add: nhd_chunk_plan_def Let_def sh)
      next
        case sc: (Inr ps)
        have "bs dvd fn - (start + skip)" using w by (metis diff_diff_eq dvd_diff)
        then obtain k where k: "fn - (start + skip) = k * bs" by (metis dvd_def mult.commute)
        have u: "start + skip \<le> fn" "0 \<le> start + skip" "0 \<le> (0 :: int)" "0 < fn - (start + skip)"
          using w rng by auto
        have lps: "length ps = nat k" "ps \<noteq> []"
          using scanned_slot [OF sc bs(1) u(2,1) rng(3) k u(3,4)] by auto
        have k0: "0 < k" using u(4) k bs(1) by (simp add: zero_less_mult_iff)
        have ps: "\<forall>p \<in> set ps. 0 \<le> p \<and> p < nb" by (rule scan_blocks_range [OF sc bs(1)])
        let ?segs = "nhd_segments nb lbn B (skip div bs) ps las"
        have til: "tiles (4096 + skip div bs * B) lbn ?segs" "int (length ?segs) * lbn = int (length ps) * B"
          using nhd_segments_tile [of B las lbn] len by (simp_all add: B_def)
        have rg: "\<forall>s \<in> set ?segs. segment_in_range allocs s"
        proof
          fix s assume "s \<in> set ?segs"
          then obtain i l k where s: "i < length ps" "l < length las" "k = 0 \<or> k = 1"
              "s = nhd_segment nb lbn B (skip div bs + int i) (ps ! i) (l, las ! l) k"
            by (rule nhd_segments_elem)
          have t: "kvs ! l \<in> set kvs" using s(2) len by simp
          then have "kv_storage_ok (kvs ! l)" "kv_shape (kvs ! l) = [2, nb, bs, nh, hs]"
              "kv_element_size (kvs ! l) = kv_element_size ?t"
            using el by blast+
          moreover have "refers allocs (kvs ! l) (las ! l)"
            using tab(1) s(2) len by (simp add: list_all2_nthD2)
          ultimately show "segment_in_range allocs s"
            unfolding s(4) using ps s(1,3)
            by (intro nhd_segment_in_range) (auto simp: lbn_def)
        qed
        have "validate_descriptor (segment_descriptor (kv_device ?t) B bs (fn - start) skip
            (map kv_identity kvs) allocs ps ?segs) False False = None"
          by (rule validate_segment_descriptor [OF refl _ bs(1) w(4,3) _ lps(2) ane al til(1) lb til(2) rg])
            (use lb ne k lps k0 in \<open>auto simp: B_def\<close>)
        with wb Inr sc show ?thesis
          by (simp add: nhd_chunk_plan_def Let_def sh lbn_def B_def)
      qed
    qed
  qed
qed

text \<open>
  For layers whose tensors lie inside their storages the per-layer planner never raises on
  non-empty token ranges inside the slot mapping: the validation it ends with accepts every descriptor
  it builds, and each chunk gets a plan.
\<close>

theorem per_layer_plan_total:
  assumes "uniform_layers kvs" and "length starts = length ends"
    and "\<forall>i < length starts. 0 \<le> starts ! i \<and> starts ! i < ends ! i \<and> ends ! i \<le> int (length slots)"
  shows "\<exists>plans. build_per_layer_direct_plans kvs slots starts ends dir bs skip_before = Inr plans \<and>
    length plans = length starts"
proof -
  obtain allocs idx las where la: "layer_allocations kvs ([], Map.empty) = ((allocs, idx), las)"
    by (metis surj_pair)
  let ?run = "traverse (nhd_chunk_plan kvs allocs las slots bs skip_before) (zip starts ends)"
  have ck: "check_ranges slots starts ends = None" by (rule check_ranges_None [OF assms(2,3)])
  have run: "\<exists>plans. ?run = Inr plans \<and> length plans = length starts"
    if "kvs \<noteq> []" "\<forall>t \<in> set kvs. \<not> nhd_tensor_bad (hd kvs) t" "kv_shape (hd kvs) ! 0 = 2"
      "kv_shape (hd kvs) ! 2 = bs"
  proof -
    have "\<exists>y. nhd_chunk_plan kvs allocs las slots bs skip_before x = Inr y" if "x \<in> set (zip starts ends)" for x
    proof -
      from that obtain i where "i < length starts" "x = (starts ! i, ends ! i)" by (auto simp: set_zip)
      then show ?thesis
        using nhd_chunk_plan_total [OF la \<open>kvs \<noteq> []\<close> assms(1) \<open>Ball _ _\<close> \<open>_ ! 0 = 2\<close> \<open>_ ! 2 = bs\<close>] assms(3)
        by auto
    qed
    then obtain ys where "?run = Inr ys" using traverse_total by blast
    moreover from this have "length ys = length starts"
      using assms(2) by (auto simp: traverse_Inr_iff dest: list_all2_lengthD)
    ultimately show ?thesis by blast
  qed
  show ?thesis
  proof (cases "dir = RETRIEVE \<and> kvs \<noteq> [] \<and> starts \<noteq> [] \<and> length (kv_shape (hd kvs)) = 5 \<and>
      kv_shape (hd kvs) ! 0 = 2 \<and> kv_shape (hd kvs) ! 2 = bs \<and> (\<forall>t \<in> set kvs. \<not> nhd_tensor_bad (hd kvs) t)")
    case True
    then have "build_per_layer_direct_plans kvs slots starts ends dir bs skip_before = ?run"
      using ck la assms(2) by (simp add: build_per_layer_direct_plans_def)
    with True run show ?thesis by simp
  next
    case False
    then show ?thesis
      using ck assms(2) by (auto simp: build_per_layer_direct_plans_def Let_def)
  qed
qed

section \<open>The segments of separate key and value tensors\<close>

lemma head_vectors_tile:
  assumes "0 \<le> bs" and "0 \<le> nh"
  shows "tiles region hn (head_vectors es hn bs nh cache la dim region p) \<and>
    int (length (head_vectors es hn bs nh cache la dim region p)) * hn = bs * nh * hn"
proof -
  let ?g = "\<lambda>j h. \<lparr>seg_file_offset = region + (j * nh + h) * hn, seg_allocation = int (fst la),
    seg_allocation_offset = snd la + (p * kv_stride cache ! 0 + h * kv_stride cache ! 1 +
      j * kv_stride cache ! dim) * es, seg_nbytes = hn\<rparr>"
  have row: "tiles (region + (j * nh + a) * hn) hn (map (?g j) (int_range a n))" for j a n
  proof (induction n arbitrary: a)
    case (Suc n)
    then show ?case using Suc.IH [of "a + 1"] by (simp add: int_range_Suc algebra_simps)
  qed simp
  have "tiles region hn (concat (map (\<lambda>j. map (?g j) (int_range 0 (nat nh))) (int_range 0 (nat bs)))) \<and>
      int (length (concat (map (\<lambda>j. map (?g j) (int_range 0 (nat nh))) (int_range 0 (nat bs))))) * hn =
      int (length (map (\<lambda>j. map (?g j) (int_range 0 (nat nh))) (int_range 0 (nat bs)))) * (nh * hn)"
    using row [of _ 0] assms by (intro tiles_concat) (simp add: mult.assoc)
  then show ?thesis using assms by (simp add: head_vectors_def mult.assoc)
qed

lemma head_vector_in:
  assumes "0 \<le> j" and "j < bs" and "0 \<le> h" and "h < nh"
  shows "\<lparr>seg_file_offset = region + (j * nh + h) * hn, seg_allocation = int (fst la),
      seg_allocation_offset = snd la + (p * kv_stride cache ! 0 + h * kv_stride cache ! 1 +
        j * kv_stride cache ! dim) * es, seg_nbytes = hn\<rparr>
    \<in> set (head_vectors es hn bs nh cache la dim region p)"
proof -
  have "j \<in> set (int_range 0 (nat bs))" "h \<in> set (int_range 0 (nat nh))"
    using assms by (simp_all add: set_int_range)
  then show ?thesis unfolding head_vectors_def set_concat set_map image_image by blast
qed

lemma asymmetric_vectors_tile:
  fixes es hn bs nh :: int
  assumes "length las = length kvs" and "nh = kv_shape (fst (hd kvs)) ! 1" and "0 \<le> bs" and "0 \<le> nh"
  defines "B \<equiv> int (length kvs) * 2 * (bs * nh * hn)"
  shows "tiles (4096 + ls * B) hn (asymmetric_vectors kvs las es hn bs ls ps)"
proof -
  let ?lbn = "bs * nh * hn"
  let ?region = "\<lambda>i l k. BLOCK_FIRST_HEADER_SIZE + (ls + int i) * B + (int l * 2 + k) * ?lbn"
  let ?layer = "\<lambda>i p (l, ((key, val), (kla, vla))).
    head_vectors es hn bs nh key kla 2 (?region i l 0) p @ head_vectors es hn bs nh val vla 3 (?region i l 1) p"
  let ?block = "\<lambda>(i, p). concat (map (?layer i p) (enumerate 0 (zip kvs las)))"
  have layer: "tiles (4096 + ls * B + int i * B + int l * (2 * ?lbn)) hn (?layer i p (l, z)) \<and>
      int (length (?layer i p (l, z))) * hn = 2 * ?lbn" for i l p z
  proof -
    obtain key val kla vla where z: "z = ((key, val), (kla, vla))" by (metis surj_pair)
    let ?K = "head_vectors es hn bs nh key kla 2 (?region i l 0) p"
    let ?V = "head_vectors es hn bs nh val vla 3 (?region i l 1) p"
    note t1 = head_vectors_tile [OF assms(3,4), of "?region i l 0" hn es key kla 2 p]
    note t2 = head_vectors_tile [OF assms(3,4), of "?region i l 1" hn es val vla 3 p]
    have nx: "?region i l 0 + int (length ?K) * hn = ?region i l 1"
      unfolding conjunct2 [OF t1] by (simp add: algebra_simps)
    have "tiles (?region i l 0) hn (?K @ ?V)" unfolding tiles_append nx using t1 t2 by blast
    moreover have "int (length (?K @ ?V)) * hn = 2 * ?lbn"
      using conjunct2 [OF t1] conjunct2 [OF t2] by (simp only: length_append of_nat_add distrib_right mult_2)
    moreover have "?region i l 0 = 4096 + ls * B + int i * B + int l * (2 * ?lbn)"
      by (simp add: BLOCK_FIRST_HEADER_SIZE_def algebra_simps)
    ultimately show ?thesis unfolding z prod.case by metis
  qed
  have "tiles (4096 + ls * B) hn (concat (map ?block (enumerate 0 ps))) \<and>
      int (length (concat (map ?block (enumerate 0 ps)))) * hn = int (length ps) * B"
  proof (rule tiles_enumerate, intro allI impI)
    fix i assume "i < length ps"
    have "tiles (4096 + ls * B + int i * B) hn (concat (map (?layer i (ps ! i)) (enumerate 0 (zip kvs las)))) \<and>
      int (length (concat (map (?layer i (ps ! i)) (enumerate 0 (zip kvs las))))) * hn =
        int (length (zip kvs las)) * (2 * ?lbn)"
      by (rule tiles_enumerate) (use layer in blast)
    then show "tiles (4096 + ls * B + int i * B) hn (?block (i, ps ! i)) \<and>
        int (length (?block (i, ps ! i))) * hn = B"
      using assms(1) by (simp add: B_def mult.assoc)
  qed
  then show ?thesis
    unfolding asymmetric_vectors_def Let_def assms(2) [symmetric] B_def [symmetric] by simp
qed

text \<open>The head vector of one token of a layer, for keys (\<open>k = 0\<close>) or values (\<open>k = 1\<close>).\<close>

definition vector_of ::
    "'d kv_tensor \<times> 'd kv_tensor \<Rightarrow> (nat \<times> int) \<times> (nat \<times> int) \<Rightarrow> nat \<Rightarrow> 'd kv_tensor \<times> (nat \<times> int)" where
  "vector_of kv la k = (if k = 0 then (fst kv, fst la) else (snd kv, snd la))"

lemma asymmetric_vector_in:
  fixes hn :: int
  assumes "length las = length kvs" and "nh = kv_shape (fst (hd kvs)) ! 1"
    and "i < length ps" and "l < length kvs" and "k = 0 \<or> k = 1"
    and "0 \<le> j" and "j < bs" and "0 \<le> h" and "h < nh"
  defines "B \<equiv> int (length kvs) * 2 * (bs * nh * hn)"
  shows "\<lparr>seg_file_offset = 4096 + (ls + int i) * B + (int l * 2 + int k) * (bs * nh * hn) + (j * nh + h) * hn,
      seg_allocation = int (fst (snd (vector_of (kvs ! l) (las ! l) k))),
      seg_allocation_offset = snd (snd (vector_of (kvs ! l) (las ! l) k)) +
        (ps ! i * kv_stride (fst (vector_of (kvs ! l) (las ! l) k)) ! 0 +
         h * kv_stride (fst (vector_of (kvs ! l) (las ! l) k)) ! 1 +
         j * kv_stride (fst (vector_of (kvs ! l) (las ! l) k)) ! (2 + k)) * es,
      seg_nbytes = hn\<rparr> \<in> set (asymmetric_vectors kvs las es hn bs ls ps)"
proof -
  obtain key val kla vla where z: "kvs ! l = (key, val)" "las ! l = (kla, vla)" by (metis surj_pair)
  have l: "l < length (zip kvs las)" "zip kvs las ! l = ((key, val), (kla, vla))"
    using assms(1,4) z by simp_all
  show ?thesis
    unfolding asymmetric_vectors_def Let_def assms(2) [symmetric] B_def [symmetric]
  proof (rule in_concat_enumerate [OF assms(3)], simp only: prod.case,
      rule in_concat_enumerate [OF l(1)], simp only: prod.case l(2) set_append Un_iff)
    show "\<lparr>seg_file_offset = 4096 + (ls + int i) * B + (int l * 2 + int k) * (bs * nh * hn) + (j * nh + h) * hn,
      seg_allocation = int (fst (snd (vector_of (kvs ! l) (las ! l) k))),
      seg_allocation_offset = snd (snd (vector_of (kvs ! l) (las ! l) k)) +
        (ps ! i * kv_stride (fst (vector_of (kvs ! l) (las ! l) k)) ! 0 +
         h * kv_stride (fst (vector_of (kvs ! l) (las ! l) k)) ! 1 +
         j * kv_stride (fst (vector_of (kvs ! l) (las ! l) k)) ! (2 + k)) * es,
      seg_nbytes = hn\<rparr> \<in> set (head_vectors es hn bs nh key kla 2 (BLOCK_FIRST_HEADER_SIZE +
          (ls + int i) * B + (int l * 2 + 0) * (bs * nh * hn)) (ps ! i)) \<or>
      \<lparr>seg_file_offset = 4096 + (ls + int i) * B + (int l * 2 + int k) * (bs * nh * hn) + (j * nh + h) * hn,
      seg_allocation = int (fst (snd (vector_of (kvs ! l) (las ! l) k))),
      seg_allocation_offset = snd (snd (vector_of (kvs ! l) (las ! l) k)) +
        (ps ! i * kv_stride (fst (vector_of (kvs ! l) (las ! l) k)) ! 0 +
         h * kv_stride (fst (vector_of (kvs ! l) (las ! l) k)) ! 1 +
         j * kv_stride (fst (vector_of (kvs ! l) (las ! l) k)) ! (2 + k)) * es,
      seg_nbytes = hn\<rparr> \<in> set (head_vectors es hn bs nh val vla 3 (BLOCK_FIRST_HEADER_SIZE +
          (ls + int i) * B + (int l * 2 + 1) * (bs * nh * hn)) (ps ! i))"
      using assms(5)
        head_vector_in [OF assms(6-9), of "4096 + (ls + int i) * B + int l * 2 * (bs * nh * hn)" hn kla "ps ! i" key 2 es]
        head_vector_in [OF assms(6-9), of "4096 + (ls + int i) * B + (int l * 2 + 1) * (bs * nh * hn)" hn vla "ps ! i" val 3 es]
      by (elim disjE) (simp_all add: z vector_of_def BLOCK_FIRST_HEADER_SIZE_def)
  qed
qed

lemma asymmetric_vectors_target:
  assumes sc: "scan_blocks bs nb (rows (nat bs) (py_slice slots (start + skip) fn)) = Inr ps"
    and rng: "0 < bs" "0 \<le> start" "fn \<le> int (length slots)" "0 \<le> skip" "skip < fn - start"
    and dv: "bs dvd fn - start" "bs dvd skip"
    and las: "list_all2 (pair_refers allocs) kvs las" and l: "l < length kvs" and k: "k = 0 \<or> k = 1"
    and t: "0 \<le> t" "t < fn - start" and h: "0 \<le> h" "h < nh" and r: "0 \<le> r" "r < hn"
    and nh: "nh = kv_shape (fst (hd kvs)) ! 1"
  defines "B \<equiv> int (length kvs) * 2 * (bs * nh * hn)"
    and "c \<equiv> (if k = 0 then fst (kvs ! l) else snd (kvs ! l))"
    and "s \<equiv> slots ! nat (start + t)"
  shows "file_targets allocs (asymmetric_vectors kvs las es hn bs (skip div bs) ps)
      (4096 + t div bs * B + (int l * 2 + int k) * (bs * nh * hn) + (t mod bs * nh + h) * hn + r) =
    (if t < skip then []
     else [kv_data_ptr c + (s div bs * kv_stride c ! 0 + h * kv_stride c ! 1 + s mod bs * kv_stride c ! (2 + k)) * es + r])"
proof -
  let ?f = "4096 + t div bs * B + (int l * 2 + int k) * (bs * nh * hn) + (t mod bs * nh + h) * hn + r"
  have len: "length las = length kvs" using las by (auto dest: list_all2_lengthD)
  have lb: "0 \<le> bs * nh * hn" "0 \<le> hn" using rng(1) r h by simp_all
  have til: "tiles (4096 + skip div bs * B) hn (asymmetric_vectors kvs las es hn bs (skip div bs) ps)"
    unfolding B_def using h rng(1) by (intro asymmetric_vectors_tile [OF len nh]) auto
  have mb: "0 \<le> t mod bs" "t mod bs < bs" using rng(1) by simp_all
  have "(t mod bs * nh + h + 1) * hn \<le> bs * nh * hn"
  proof (rule mult_right_mono [OF _ lb(2)])
    have "(t mod bs + 1) * nh \<le> bs * nh" using mb h by (intro mult_right_mono) auto
    then show "t mod bs * nh + h + 1 \<le> bs * nh" using h(2) by (simp add: distrib_right)
  qed
  moreover have "0 \<le> (t mod bs * nh + h) * hn" using mb h r by simp
  ultimately have in_block: "0 \<le> (t mod bs * nh + h) * hn + r" "(t mod bs * nh + h) * hn + r < bs * nh * hn"
    using r by (simp_all add: distrib_right)
  show ?thesis
  proof (cases "t < skip")
    case True
    have "(int l * 2 + int k + 1) * (bs * nh * hn) \<le> (int (length kvs) * 2) * (bs * nh * hn)"
      using l k lb by (intro mult_right_mono) auto
    then have "(int l * 2 + int k) * (bs * nh * hn) + bs * nh * hn \<le> B"
      unfolding B_def distrib_right [of _ 1] by simp
    then have "(int l * 2 + int k) * (bs * nh * hn) + ((t mod bs * nh + h) * hn + r) < B"
      using in_block by linarith
    moreover have "0 \<le> (int l * 2 + int k) * (bs * nh * hn) + ((t mod bs * nh + h) * hn + r)"
      using in_block lb by (simp add: add_nonneg_nonneg)
    ultimately have "?f < 4096 + skip div bs * B"
      using cached_block_below [OF rng(1) dv(2) True] by (simp add: add.assoc)
    then show ?thesis using tiles_none [OF til lb(2)] True by (simp add: file_targets_def)
  next
    case False
    let ?i = "nat ((t - skip) div bs)"
    have sk: "skip \<le> t" using False by simp
    note pt = planned_token [OF sc rng dv sk t(2), folded s_def]
    let ?v = "vector_of (kvs ! l) (las ! l) k"
    let ?seg = "\<lparr>seg_file_offset = 4096 + t div bs * B + (int l * 2 + int k) * (bs * nh * hn) + (t mod bs * nh + h) * hn,
      seg_allocation = int (fst (snd ?v)),
      seg_allocation_offset = snd (snd ?v) + (s div bs * kv_stride c ! 0 + h * kv_stride c ! 1 +
         t mod bs * kv_stride c ! (2 + k)) * es, seg_nbytes = hn\<rparr>"
    have c: "fst ?v = c" by (simp add: vector_of_def c_def)
    have mem: "?seg \<in> set (asymmetric_vectors kvs las es hn bs (skip div bs) ps)"
      using asymmetric_vector_in [OF len nh pt(1) l k mb h, of "skip div bs" hn es]
      unfolding B_def [symmetric] pt(2,3) c .
    have "pair_refers allocs (kvs ! l) (las ! l)" using las l by (rule list_all2_nthD)
    then have ref: "refers allocs c (snd ?v)"
      using k by (auto simp: pair_refers_def vector_of_def c_def)
    have "contains_byte ?f ?seg" using r by (simp add: contains_byte_def)
    from file_targets_member [OF til lb(2) mem this, of allocs]
    show ?thesis using False ref pt(4) by (simp add: refers_def)
  qed
qed

lemma asymmetric_chunk_plan_Some:
  assumes "asymmetric_chunk_plan kvs allocs las slots bs skip_before (start, fn) = Inr pl"
    and "plan_descriptor pl = Some d"
  defines "key \<equiv> fst (hd kvs)"
  defines "hn \<equiv> kv_shape key ! 3 * kv_element_size key" and "nh \<equiv> kv_shape key ! 1"
  obtains skip ps where
    "whole_blocks ''asymmetric direct retrieve does not support a partial leading block''
       bs skip_before start fn = Inr (Inr skip)"
    and "scan_blocks bs (kv_shape key ! 0) (rows (nat bs) (py_slice slots (start + skip) fn)) = Inr ps"
    and "validate_descriptor d False True = None"
    and "d_block_nbytes d = int (length kvs) * 2 * (bs * nh * hn)" and "d_allocations d = allocs"
    and "d_byte_segments d = foldl append_segment []
      (asymmetric_vectors kvs las (kv_element_size key) hn bs (skip div bs) ps)"
  using assms(1,2) unfolding asymmetric_chunk_plan_def Let_def prod.case assms(3-5)
  by (auto simp: segment_descriptor_def split: sum.splits option.splits exn.splits)

lemma build_asymmetric_Inr:
  assumes "build_asymmetric_per_layer_direct_plans kvs slots starts ends RETRIEVE bs skip_before = Inr plans"
    and "i < length plans" and "plan_descriptor (plans ! i) = Some d"
  obtains allocs idx las where "pair_allocations kvs ([], Map.empty) = ((allocs, idx), las)"
    and "asymmetric_chunk_plan kvs allocs las slots bs skip_before (starts ! i, ends ! i) = Inr (plans ! i)"
    and "0 \<le> starts ! i" and "starts ! i < ends ! i" and "ends ! i \<le> int (length slots)"
proof -
  obtain allocs idx las where la: "pair_allocations kvs ([], Map.empty) = ((allocs, idx), las)"
    by (metis surj_pair)
  have run: "traverse (asymmetric_chunk_plan kvs allocs las slots bs skip_before) (zip starts ends) = Inr plans"
    and c: "length starts = length ends" "check_ranges slots starts ends = None"
    using assms la
    by (auto simp: build_asymmetric_per_layer_direct_plans_def Let_def split: if_splits option.splits)
  note p = planned_chunk [OF run c(1) assms(2) c(2)]
  show thesis using that [OF la p(1,3,4,5)] .
qed

text \<open>
  C26: The direct plans for separate key and value tensors are faithful to the last byte, strides and
  merged segments included. In an accepted plan byte \<open>r\<close> of the vector of token \<open>t\<close> and head
  \<open>h\<close>, as the token-major file stores it for layer \<open>l\<close>, is read exactly once, into byte \<open>r\<close>
  of the same head vector of the token's slot in the key tensor (\<open>k = 0\<close>) or the value tensor
  (\<open>k = 1\<close>) of that layer; bytes of cached tokens are not read; every segment is 4 KiB aligned.
\<close>

theorem asymmetric_plan_faithful:
  assumes "build_asymmetric_per_layer_direct_plans kvs slots starts ends RETRIEVE bs skip_before = Inr plans"
    and "i < length plans" and "plan_descriptor (plans ! i) = Some d" and "0 < bs"
    and "l < length kvs" and "k = 0 \<or> k = 1" and "0 \<le> t" and "t < ends ! i - starts ! i"
    and "0 \<le> h" and "h < nh" and "0 \<le> r" and "r < hn"
  assumes nh: "nh = kv_shape (fst (hd kvs)) ! 1"
    and hn: "hn = kv_shape (fst (hd kvs)) ! 3 * kv_element_size (fst (hd kvs))"
    and c: "c = (if k = 0 then fst (kvs ! l) else snd (kvs ! l))"
    and s: "s = slots ! nat (starts ! i + t)"
  shows "validate_descriptor d False True = None \<and> distinct (map identity (d_allocations d)) \<and>
    file_targets (d_allocations d) (d_byte_segments d)
      (4096 + t div bs * d_block_nbytes d + (int l * 2 + int k) * (bs * nh * hn) + (t mod bs * nh + h) * hn + r) =
    (if t < min (ends ! i - starts ! i) (max 0 (skip_before - starts ! i)) then []
     else [kv_data_ptr c + (s div bs * kv_stride c ! 0 + h * kv_stride c ! 1 + s mod bs * kv_stride c ! (2 + k)) *
       kv_element_size (fst (hd kvs)) + r])"
proof -
  obtain allocs idx las where la: "pair_allocations kvs ([], Map.empty) = ((allocs, idx), las)"
    and ch: "asymmetric_chunk_plan kvs allocs las slots bs skip_before (starts ! i, ends ! i) = Inr (plans ! i)"
    and rng: "0 \<le> starts ! i" "starts ! i < ends ! i" "ends ! i \<le> int (length slots)"
    using build_asymmetric_Inr [OF assms(1-3)] by metis
  have tab: "table_ok (allocs, idx)" "list_all2 (pair_refers allocs) kvs las"
    using pair_allocations_ok [OF table_ok_empty la] by blast+
  let ?B = "int (length kvs) * 2 * (bs * nh * hn)"
  let ?es = "kv_element_size (fst (hd kvs))"
  obtain skip ps where wb: "whole_blocks ''asymmetric direct retrieve does not support a partial leading block''
        bs skip_before (starts ! i) (ends ! i) = Inr (Inr skip)"
    and sc: "scan_blocks bs (kv_shape (fst (hd kvs)) ! 0)
        (rows (nat bs) (py_slice slots (starts ! i + skip) (ends ! i))) = Inr ps"
    and v: "validate_descriptor d False True = None"
    and f: "d_block_nbytes d = ?B" "d_allocations d = allocs"
      "d_byte_segments d = foldl append_segment [] (asymmetric_vectors kvs las ?es hn bs (skip div bs) ps)"
    using asymmetric_chunk_plan_Some [OF ch assms(3), folded nh hn] by metis
  note w = whole_blocks_Inr [OF wb rng(2)]
  have len: "length las = length kvs" using tab(2) by (auto dest: list_all2_lengthD)
  have til: "tiles (4096 + skip div bs * ?B) hn (asymmetric_vectors kvs las ?es hn bs (skip div bs) ps)"
    using assms(4,9,10) by (intro asymmetric_vectors_tile [OF len nh]) auto
  have "\<forall>x \<in> set (asymmetric_vectors kvs las ?es hn bs (skip div bs) ps). 0 \<le> seg_nbytes x"
    using tiles_nbytes [OF til] assms(11,12) by simp
  note merged = foldl_append_segment_targets [OF this, of "[]" allocs]
  note tgt = asymmetric_vectors_target [OF sc assms(4) rng(1,3) w(4,5,2,3) tab(2) assms(5-12) nh, of ?es,
      folded c s]
  show ?thesis
    unfolding f using merged tgt v table_ok_distinct [OF tab(1)] w(1) by simp
qed

section \<open>Instances\<close>

definition demo_layer :: "int \<Rightarrow> nat \<Rightarrow> string kv_tensor" where
  "demo_layer address n =
     \<lparr>kv_shape = [2, 8, 2, 1, 1], kv_stride = [16, 2, 1, 1, 1], kv_contiguous = True,
      kv_dtype = ''float16'', kv_device = demo_device, kv_element_size = 2, kv_data_ptr = address,
      kv_storage_ptr = 8192, kv_storage_nbytes = 4096, kv_identity = n\<rparr>"

definition demo_layers :: "string kv_tensor list" where
  "demo_layers = [demo_layer 8192 1, demo_layer 8256 2]"

theorem per_layer_plan_faithful_witness:
  "\<exists>plans d. build_per_layer_direct_plans demo_layers demo_slots [0, 4] [4, 8] RETRIEVE 2 2 = Inr plans \<and>
     plan_descriptor (plans ! 0) = Some d \<and>
     file_targets (d_allocations d) (d_byte_segments d)
       (4096 + 2 div 2 * d_block_nbytes d + (int 1 * 2 + 1) * (2 * 2) + 2 mod 2 * 2 + 1) =
     [8256 + (1 * 8 * 2 + 10) * 2 + 1]"
proof -
  obtain plans d where p: "build_per_layer_direct_plans demo_layers demo_slots [0, 4] [4, 8] RETRIEVE 2 2 = Inr plans"
      "0 < length plans" "plan_descriptor (plans ! 0) = Some d"
  proof -
    have "case build_per_layer_direct_plans demo_layers demo_slots [0, 4] [4, 8] RETRIEVE 2 2 of
        Inl e \<Rightarrow> False | Inr plans \<Rightarrow> plans \<noteq> [] \<and> plan_descriptor (plans ! 0) \<noteq> None"
      by code_simp
    then show ?thesis using that by (auto split: sum.splits)
  qed
  have len: "1 < length demo_layers" by (simp add: demo_layers_def)
  have pre: "(0 :: int) < 2" "(1 :: int) = 0 \<or> (1 :: int) = 1" "(0 :: int) \<le> 2" "2 < [4, 8] ! 0 - [0, 4 :: int] ! 0"
      "(0 :: int) \<le> 1" "(1 :: int) < 2" by simp_all
  have row: "2 = kv_shape (hd demo_layers) ! 3 * kv_shape (hd demo_layers) ! 4 * kv_element_size (hd demo_layers)"
    by (simp add: demo_layers_def demo_layer_def)
  note f = per_layer_plan_faithful [OF p pre(1) len pre(2-) row]
  have v: "[0, 4] ! 0 = (0 :: int)" "[4, 8] ! 0 = (4 :: int)" "kv_data_ptr (demo_layers ! Suc 0) = 8256"
      "kv_shape (hd demo_layers) ! Suc 0 = 8" "demo_slots ! 2 = 10" "length demo_layers = 2"
    by (simp_all add: demo_layers_def demo_layer_def demo_slots_def)
  have "file_targets (d_allocations d) (d_byte_segments d)
       (4096 + 2 div 2 * d_block_nbytes d + (int 1 * 2 + 1) * (2 * 2) + 2 mod 2 * 2 + 1) =
     [8256 + (1 * 8 * 2 + 10) * 2 + 1]"
    using conjunct2 [OF conjunct2 [OF conjunct2 [OF f]]] by (simp add: v)
  with p(1,3) show ?thesis by (intro exI [of _ plans] exI [of _ d] conjI)
qed

theorem per_layer_plan_total_witness:
  "\<exists>plans. build_per_layer_direct_plans demo_layers demo_slots [0, 3] [4, 8] RETRIEVE 2 1 = Inr plans \<and>
     length plans = 2"
proof -
  have u: "uniform_layers demo_layers"
    by (simp add: uniform_layers_def demo_layers_def demo_layer_def kv_storage_ok_def kv_tensor_ok_def)
  have "\<exists>plans. build_per_layer_direct_plans demo_layers demo_slots [0, 3] [4, 8] RETRIEVE 2 1 = Inr plans \<and>
     length plans = length [0, 3 :: int]"
    by (rule per_layer_plan_total [OF u]) (auto simp: demo_slots_def less_Suc_eq nth_Cons')
  then show ?thesis by (simp add: numeral_2_eq_2)
qed

definition demo_key :: "string kv_tensor" where
  "demo_key =
     \<lparr>kv_shape = [4, 1, 2, 2048], kv_stride = [4096, 4096, 2048, 1], kv_contiguous = True,
      kv_dtype = ''float16'', kv_device = demo_device, kv_element_size = 2, kv_data_ptr = 8192,
      kv_storage_ptr = 8192, kv_storage_nbytes = 32768, kv_identity = 1\<rparr>"

definition demo_value :: "string kv_tensor" where
  "demo_value =
     \<lparr>kv_shape = [4, 1, 2048, 2], kv_stride = [4096, 4096, 1, 2048], kv_contiguous = False,
      kv_dtype = ''float16'', kv_device = demo_device, kv_element_size = 2, kv_data_ptr = 65536,
      kv_storage_ptr = 65536, kv_storage_nbytes = 32768, kv_identity = 2\<rparr>"

theorem asymmetric_plan_faithful_witness:
  "\<exists>plans d. build_asymmetric_per_layer_direct_plans [(demo_key, demo_value)] [4, 5, 2, 3] [0] [4] RETRIEVE 2 2 =
       Inr plans \<and>
     plan_descriptor (plans ! 0) = Some d \<and>
     file_targets (d_allocations d) (d_byte_segments d)
       (4096 + 3 div 2 * d_block_nbytes d + (int 0 * 2 + int 1) * (2 * 1 * 4096) + (3 mod 2 * 1 + 0) * 4096 + 9) =
     [65536 + (1 * 4096 + 0 * 4096 + 1 * 2048) * 2 + 9]"
proof -
  let ?build = "build_asymmetric_per_layer_direct_plans [(demo_key, demo_value)] [4, 5, 2, 3] [0] [4] RETRIEVE 2 2"
  obtain plans d where p: "?build = Inr plans" "0 < length plans" "plan_descriptor (plans ! 0) = Some d"
  proof -
    have "case ?build of Inl e \<Rightarrow> False | Inr plans \<Rightarrow> plans \<noteq> [] \<and> plan_descriptor (plans ! 0) \<noteq> None"
      by code_simp
    then show ?thesis using that by (auto split: sum.splits)
  qed
  have len: "0 < length [(demo_key, demo_value)]" by simp
  have pre: "(0 :: int) < 2" "(1 :: nat) = 0 \<or> (1 :: nat) = 1" "(0 :: int) \<le> 3" "3 < [4] ! 0 - [0 :: int] ! 0"
      "(0 :: int) \<le> 0" "(0 :: int) < 1" "(0 :: int) \<le> 9" "(9 :: int) < 4096" by simp_all
  have eqs: "1 = kv_shape (fst (hd [(demo_key, demo_value)])) ! 1"
      "4096 = kv_shape (fst (hd [(demo_key, demo_value)])) ! 3 * kv_element_size (fst (hd [(demo_key, demo_value)]))"
      "demo_value = (if (1 :: nat) = 0 then fst ([(demo_key, demo_value)] ! 0) else snd ([(demo_key, demo_value)] ! 0))"
      "3 = [4, 5, 2, 3 :: int] ! nat ([0] ! 0 + 3)"
    by (simp_all add: demo_key_def)
  note f = asymmetric_plan_faithful [OF p pre(1) len pre(2-) eqs]
  have v: "kv_data_ptr demo_value = 65536" "kv_stride demo_value = [4096, 4096, 1, 2048]"
      "kv_element_size demo_key = 2" by (simp_all add: demo_key_def demo_value_def)
  have "file_targets (d_allocations d) (d_byte_segments d)
       (4096 + 3 div 2 * d_block_nbytes d + (int 0 * 2 + int 1) * (2 * 1 * 4096) + (3 mod 2 * 1 + 0) * 4096 + 9) =
     [65536 + (1 * 4096 + 0 * 4096 + 1 * 2048) * 2 + 9]"
    using conjunct2 [OF conjunct2 [OF f]] by (simp add: v)
  with p(1,3) show ?thesis by (intro exI [of _ plans] exI [of _ d] conjI)
qed

end
