(* ===== verification/Driver_Guard.thy ===== *)
theory Driver_Guard
  imports Hcu_Prelude
begin

text \<open>
  The reader-writer guard of \<^verbatim>\<open>HyFileDDS\<close> (\<^verbatim>\<open>_read_driver_guard\<close> and \<^verbatim>\<open>_write_driver_guard\<close> of
  \<^verbatim>\<open>storage_backend/xds_backend.py\<close>): concurrent driver writes corrupt payloads, so reads may
  overlap each other but a write overlaps nothing. Each critical section of the condition's lock is
  one atomic operation; threads interleave between them. Shown: exclusion, and that no thread sleeps
  through the wakeup it waits for.
\<close>

datatype access = Read_access | Write_access

datatype phase = Outside | Woken access | Sleeping access | Inside access

record guard =
  g_readers :: int
  g_writer :: bool
  g_phase :: "nat \<Rightarrow> phase"

definition guard_init :: guard where
  "guard_init = \<lparr>g_readers = 0, g_writer = False, g_phase = (\<lambda>_. Outside)\<rparr>"

text \<open>
  The loop condition of the entry, evaluated when a thread holds the lock: at its first attempt and
  after every wakeup. A thread whose condition holds sleeps; otherwise it enters.
\<close>

fun guard_blocked :: "access \<Rightarrow> guard \<Rightarrow> bool" where
  "guard_blocked Read_access g = g_writer g"
| "guard_blocked Write_access g = (g_writer g \<or> g_readers g \<noteq> 0)"

definition set_phase :: "nat \<Rightarrow> phase \<Rightarrow> guard \<Rightarrow> guard" where
  "set_phase t p g = g\<lparr>g_phase := (g_phase g)(t := p)\<rparr>"

fun guard_count :: "access \<Rightarrow> guard \<Rightarrow> guard" where
  "guard_count Read_access g = g\<lparr>g_readers := g_readers g + 1\<rparr>"
| "guard_count Write_access g = g\<lparr>g_writer := True\<rparr>"

definition guard_enter :: "access \<Rightarrow> nat \<Rightarrow> guard \<Rightarrow> guard" where
  "guard_enter a t g =
     (if guard_blocked a g then set_phase t (Sleeping a) g
      else set_phase t (Inside a) (guard_count a g))"

definition notify_all :: "guard \<Rightarrow> guard" where
  "notify_all g = g\<lparr>g_phase := (\<lambda>t. case g_phase g t of Sleeping a \<Rightarrow> Woken a | p \<Rightarrow> p)\<rparr>"

fun guard_exit :: "access \<Rightarrow> nat \<Rightarrow> guard \<Rightarrow> guard" where
  "guard_exit Read_access t g =
     (let g1 = set_phase t Outside (g\<lparr>g_readers := g_readers g - 1\<rparr>)
      in if g_readers g1 = 0 then notify_all g1 else g1)"
| "guard_exit Write_access t g = notify_all (set_phase t Outside (g\<lparr>g_writer := False\<rparr>))"

inductive guard_step :: "guard \<Rightarrow> guard \<Rightarrow> bool" where
  arrive: "g_phase g t = Outside \<Longrightarrow> guard_step g (guard_enter a t g)"
| retry: "g_phase g t = Woken a \<Longrightarrow> guard_step g (guard_enter a t g)"
| leave: "g_phase g t = Inside a \<Longrightarrow> guard_step g (guard_exit a t g)"

inductive guard_reachable :: "guard \<Rightarrow> bool" where
  start: "guard_reachable guard_init"
| step: "guard_reachable g \<Longrightarrow> guard_step g g' \<Longrightarrow> guard_reachable g'"

inductive_cases guard_stepE: "guard_step g g'"

text \<open>The invariant: the counters count who is inside, and every sleeper has a reason to sleep.\<close>

definition inside :: "access \<Rightarrow> guard \<Rightarrow> nat set" where
  "inside a g = {t. g_phase g t = Inside a}"

definition guard_counts :: "guard \<Rightarrow> bool" where
  "guard_counts g \<longleftrightarrow>
     finite (inside Read_access g) \<and> finite (inside Write_access g) \<and>
     g_readers g = int (card (inside Read_access g)) \<and>
     card (inside Write_access g) = (if g_writer g then 1 else 0) \<and>
     (g_writer g \<longrightarrow> g_readers g = 0)"

definition guard_sleepers :: "guard \<Rightarrow> bool" where
  "guard_sleepers g \<longleftrightarrow> (\<forall>t a. g_phase g t = Sleeping a \<longrightarrow> guard_blocked a g)"

lemma inside_set_phase:
  "inside a (set_phase t p g) = (if p = Inside a then insert t (inside a g) else inside a g - {t})"
  by (auto simp: inside_def set_phase_def)

lemma set_phase_fields [simp]:
  "g_readers (set_phase t p g) = g_readers g" "g_writer (set_phase t p g) = g_writer g"
  "g_phase (set_phase t p g) = (g_phase g)(t := p)"
  by (simp_all add: set_phase_def)

lemma notify_all_fields [simp]:
  "g_readers (notify_all g) = g_readers g" "g_writer (notify_all g) = g_writer g"
  "inside a (notify_all g) = inside a g"
  by (simp add: notify_all_def, simp add: notify_all_def)
    (auto simp: notify_all_def inside_def split: phase.splits, metis phase.exhaust)

lemma guard_blocked_phase [simp]:
  "guard_blocked a (g\<lparr>g_phase := f\<rparr>) = guard_blocked a g"
  "guard_blocked a (set_phase t p g) = guard_blocked a g"
  by (cases a; simp add: set_phase_def)+

lemma inside_fields [simp]:
  "inside a (g\<lparr>g_readers := n\<rparr>) = inside a g" "inside a (g\<lparr>g_writer := b\<rparr>) = inside a g"
  "inside a (guard_count c g) = inside a g"
  by (cases c; simp add: inside_def)+

lemma guard_sleepers_notify [simp]: "guard_sleepers (notify_all g)"
  by (auto simp: guard_sleepers_def notify_all_def split: phase.splits)

lemma guard_counts_enter:
  assumes "guard_counts g" "g_phase g t = Outside \<or> g_phase g t = Woken a"
  shows "guard_counts (guard_enter a t g)"
proof -
  have out: "t \<notin> inside c g" for c using assms(2) by (auto simp: inside_def)
  then show ?thesis using assms(1)
    by (cases a) (auto simp: guard_enter_def guard_counts_def inside_set_phase)
qed

lemma guard_sleepers_enter:
  assumes "guard_sleepers g" "guard_counts g"
  shows "guard_sleepers (guard_enter a t g)"
proof -
  have "guard_blocked c (guard_count a g)" if "guard_blocked c g" for c
    using assms(2) that by (cases a; cases c) (auto simp: guard_counts_def)
  moreover have "g_phase (guard_count a g) = g_phase g" by (cases a) simp_all
  ultimately show ?thesis using assms(1) by (auto simp: guard_enter_def guard_sleepers_def)
qed

lemma guard_counts_exit:
  assumes "guard_counts g" "g_phase g t = Inside a"
  shows "guard_counts (guard_exit a t g)"
proof -
  have t: "t \<in> inside a g" using assms(2) by (simp add: inside_def)
  have other: "t \<notin> inside b g" if "b \<noteq> a" for b using assms(2) that by (auto simp: inside_def)
  have "finite (inside a g)" using assms(1) by (cases a) (auto simp: guard_counts_def)
  then have pos: "0 < card (inside a g)" using t by (auto simp: card_gt_0_iff)
  show ?thesis
  proof (cases a)
    case Read_access
    then show ?thesis using assms(1) t other [of Write_access] pos
      by (auto simp: guard_counts_def inside_set_phase Let_def)
  next
    case Write_access
    then have "card (inside Write_access g) = 1" "g_readers g = 0"
      using assms(1) pos by (cases "g_writer g"; simp add: guard_counts_def)+
    then show ?thesis using assms(1) t other [of Read_access] pos Write_access
      by (simp add: guard_counts_def inside_set_phase)
  qed
qed

lemma guard_sleepers_exit:
  assumes "guard_sleepers g" "guard_counts g" "g_phase g t = Inside a"
  shows "guard_sleepers (guard_exit a t g)"
proof (cases a)
  case Read_access
  have "t \<in> inside Read_access g" using assms(3) Read_access by (simp add: inside_def)
  then have "\<not> g_writer g" using assms(2) by (auto simp: guard_counts_def card_gt_0_iff)
  then have w: "g_phase g u \<noteq> Sleeping Read_access" for u
    using assms(1) by (metis guard_sleepers_def guard_blocked.simps(1))
  have "guard_blocked c (g\<lparr>g_readers := g_readers g - 1\<rparr>)"
    if "g_phase g u = Sleeping c" "g_readers g \<noteq> 1" for u c
    using w [of u] that by (cases c) auto
  then show ?thesis using Read_access
    by (auto simp: Let_def guard_sleepers_def [of "set_phase _ _ _"])
qed simp

lemma guard_invariant: "guard_reachable g \<Longrightarrow> guard_counts g \<and> guard_sleepers g"
proof (induction rule: guard_reachable.induct)
  case start
  then show ?case by (simp add: guard_init_def guard_counts_def guard_sleepers_def inside_def)
next
  case (step g g')
  from step.hyps(2) show ?case
    by (cases rule: guard_step.cases)
      (use step.IH in \<open>auto intro: guard_counts_enter guard_sleepers_enter guard_counts_exit guard_sleepers_exit\<close>)
qed

lemma reachable_steps: "guard_step\<^sup>*\<^sup>* g g' \<Longrightarrow> guard_reachable g \<Longrightarrow> guard_reachable g'"
  by (induction rule: rtranclp_induct) (auto intro: guard_reachable.step)

lemma exit_keeps_waiting:
  assumes "g_phase g t = Sleeping a \<or> g_phase g t = Woken a" "g_phase g u = Inside b"
  shows "g_phase (guard_exit b u g) t = Sleeping a \<or> g_phase (guard_exit b u g) t = Woken a"
  using assms by (cases b) (auto simp: Let_def notify_all_def)

lemma inside_exit: "inside c (guard_exit b u g) = inside c g - {u}"
  by (cases b) (auto simp: Let_def inside_set_phase)

text \<open>When the threads that are inside leave one after the other, a waiting thread ends up runnable.\<close>

inductive leave_step :: "guard \<Rightarrow> guard \<Rightarrow> bool" where
  leaving: "g_phase g t = Inside a \<Longrightarrow> leave_step g (guard_exit a t g)"

lemma everyone_leaves:
  assumes "guard_reachable g" "g_phase g t = Sleeping a \<or> g_phase g t = Woken a"
  shows "\<exists>g'. leave_step\<^sup>*\<^sup>* g g' \<and> g_phase g' t = Woken a \<and> \<not> guard_blocked a g'"
  using assms
proof (induction "card (inside Read_access g \<union> inside Write_access g)" arbitrary: g rule: less_induct)
  case less
  note inv = guard_invariant [OF less.prems(1)]
  let ?in = "\<lambda>g. inside Read_access g \<union> inside Write_access g"
  have fin: "finite (?in g)" using inv by (simp add: guard_counts_def)
  show ?case
  proof (cases "?in g = {}")
    case True
    then have free: "\<not> guard_blocked b g" for b using inv
      by (cases b) (auto simp: guard_counts_def split: if_splits)
    then have "g_phase g t = Woken a" using inv less.prems(2) by (auto simp: guard_sleepers_def)
    then show ?thesis using free by blast
  next
    case False
    then obtain u b where u: "g_phase g u = Inside b" by (auto simp: inside_def)
    let ?g = "guard_exit b u g"
    have s: "guard_step g ?g" "leave_step g ?g" using u by (rule guard_step.leave leave_step.leaving)+
    have "u \<in> ?in g" using u by (cases b) (auto simp: inside_def)
    then have "card (?in ?g) < card (?in g)" using fin
      by (simp only: inside_exit Un_Diff [symmetric]) (rule card_Diff1_less)
    from less.hyps [OF this guard_reachable.step [OF less.prems(1) s(1)] exit_keeps_waiting [OF less.prems(2) u]]
    show ?thesis using s(2) by (meson converse_rtranclp_into_rtranclp)
  qed
qed

text \<open>
  C30: At every point of every interleaving of threads through the driver guard, a thread that is
  writing to the driver is alone in it: no other thread is inside, whether to read or to write.
\<close>

theorem driver_guard_excludes:
  assumes "guard_reachable g" "g_phase g t = Inside Write_access" "g_phase g u = Inside a"
  shows "u = t \<and> a = Write_access"
proof -
  note inv = guard_invariant [OF assms(1)]
  have t: "t \<in> inside Write_access g" and u: "u \<in> inside a g" using assms by (auto simp: inside_def)
  then have w: "g_writer g" "card (inside Write_access g) = 1" "inside Read_access g = {}" using inv
    by (auto simp: guard_counts_def split: if_splits)
  then have "a = Write_access" using u by (cases a) auto
  then show ?thesis using t u w(2) by (auto simp: card_1_singleton_iff)
qed

definition guard_demo :: guard where
  "guard_demo = guard_enter Read_access 1 (guard_enter Write_access 0 guard_init)"

lemma guard_demo_reachable: "guard_reachable guard_demo"
  unfolding guard_demo_def
  by (rule guard_reachable.step [OF guard_reachable.step [OF guard_reachable.start]]; rule guard_step.arrive)
    (simp_all add: guard_init_def guard_enter_def)

lemma guard_demo_phases: "g_phase guard_demo 0 = Inside Write_access" "g_phase guard_demo 1 = Sleeping Read_access"
  by (simp_all add: guard_demo_def guard_init_def guard_enter_def)

theorem driver_guard_excludes_witness:
  "inside Read_access guard_demo = {} \<and> inside Write_access guard_demo = {0}"
  using driver_guard_excludes [OF guard_demo_reachable guard_demo_phases(1)] guard_demo_phases(1)
  by (fastforce simp: inside_def)

text \<open>
  C33: No wakeup is lost at the driver guard: in every reachable state a sleeping thread is excluded by a
  thread inside, by a writing one if it wants to read. So when the threads inside leave, and nothing
  else happens, a state is reached in which it is awake and gets in at its next attempt.
\<close>

theorem driver_guard_no_lost_wakeup:
  assumes "guard_reachable g" "g_phase g t = Sleeping a"
  shows "(\<exists>u b. g_phase g u = Inside b \<and> (a = Read_access \<longrightarrow> b = Write_access)) \<and>
    (\<exists>g'. leave_step\<^sup>*\<^sup>* g g' \<and> g_phase g' t = Woken a \<and> g_phase (guard_enter a t g') t = Inside a)"
proof
  note inv = guard_invariant [OF assms(1)]
  have "guard_blocked a g" using inv assms(2) by (auto simp: guard_sleepers_def)
  then have "inside Write_access g \<noteq> {} \<or> (a = Write_access \<and> inside Read_access g \<noteq> {})"
    using inv by (cases a) (auto simp: guard_counts_def)
  then show "\<exists>u b. g_phase g u = Inside b \<and> (a = Read_access \<longrightarrow> b = Write_access)"
    by (auto simp: inside_def)
next
  obtain g' where g': "leave_step\<^sup>*\<^sup>* g g'" "g_phase g' t = Woken a" "\<not> guard_blocked a g'"
    using everyone_leaves [OF assms(1) disjI1 [OF assms(2)]] by blast
  then show "\<exists>g'. leave_step\<^sup>*\<^sup>* g g' \<and> g_phase g' t = Woken a \<and> g_phase (guard_enter a t g') t = Inside a"
    by (intro exI [of _ g']) (simp add: guard_enter_def)
qed

theorem driver_guard_no_lost_wakeup_witness:
  "\<exists>u g'. g_phase guard_demo u = Inside Write_access \<and> leave_step\<^sup>*\<^sup>* guard_demo g' \<and>
    g_phase g' 1 = Woken Read_access \<and> g_phase (guard_enter Read_access 1 g') 1 = Inside Read_access"
  using driver_guard_no_lost_wakeup [OF guard_demo_reachable guard_demo_phases(2)] by blast

end
