(* ===== verification/Hip_File.thy ===== *)
theory Hip_File
  imports Direct_Io
begin

text \<open>
  The process-wide state of the HyFile driver (\<^verbatim>\<open>lmcache_hcu/v1/hipfile.py\<close>): the library instance,
  the driver, the reference-counted global buffers; the allocator that shares them
  (\<^verbatim>\<open>HyFileMemoryAllocator\<close> of \<^verbatim>\<open>v1/memory_management.py\<close>) and the registrations that the XDS
  backend holds for direct I/O. The C library is the list of its coming answers: each call takes the
  next one, \<open>True\<close> for success, and succeeds when the list is exhausted; what the library believes
  is registered is kept beside what the Python side believes.
\<close>

section \<open>State\<close>

record hip =
  hip_lib :: bool
  hip_open :: bool
  hip_bufs :: "(int \<times> (int \<times> int)) list"
  drv_open :: bool
  drv_bufs :: "(int \<times> int) list"
  drv_answers :: "bool list"

definition driver_answer :: "hip \<Rightarrow> bool \<times> hip" where
  "driver_answer s = (case drv_answers s of [] \<Rightarrow> (True, s) | b # bs \<Rightarrow> (b, s\<lparr>drv_answers := bs\<rparr>))"

section \<open>The library wrapper\<close>

definition new_lib :: "hip \<Rightarrow> exn option \<times> hip" where
  "new_lib s = (case driver_answer s of (ok, s') \<Rightarrow>
     if ok then (None, s'\<lparr>hip_lib := True\<rparr>) else (Some (OSError ''Cannot find libhyfile.so''), s'))"

definition driver_open :: "hip \<Rightarrow> exn option \<times> hip" where
  "driver_open s = (case driver_answer s of (ok, s') \<Rightarrow>
     if ok then (None, s'\<lparr>drv_open := True\<rparr>)
     else (Some (HIPfileException ''Failed to open HIPFile driver''), s'))"

definition driver_close :: "hip \<Rightarrow> exn option \<times> hip" where
  "driver_close s = (case driver_answer s of (ok, s') \<Rightarrow>
     if ok then (None, s'\<lparr>drv_open := False\<rparr>)
     else (Some (HIPfileException ''Failed to close HIPFile driver''), s'))"

definition lib_register_buffer :: "int \<Rightarrow> int \<Rightarrow> hip \<Rightarrow> exn option \<times> hip" where
  "lib_register_buffer ptr n s = (case driver_answer s of (ok, s') \<Rightarrow>
     if ok then (None, s'\<lparr>drv_bufs := dict_put ptr n (drv_bufs s')\<rparr>)
     else (Some (HIPfileException ''Failed to register buffer''), s'))"

definition lib_deregister_buffer :: "int \<Rightarrow> hip \<Rightarrow> exn option \<times> hip" where
  "lib_deregister_buffer ptr s = (case driver_answer s of (ok, s') \<Rightarrow>
     if ok then (None, s'\<lparr>drv_bufs := dict_del ptr (drv_bufs s')\<rparr>)
     else (Some (HIPfileException ''Failed to deregister buffer''), s'))"

section \<open>Class methods of \<open>HIPFile\<close>\<close>

text \<open>Every class method first creates the library instance it needs.\<close>

definition ensure_lib :: "hip \<Rightarrow> exn option \<times> hip" where
  "ensure_lib s = (if hip_lib s then (None, s) else new_lib s)"

definition init_driver :: "hip \<Rightarrow> exn option \<times> hip" where
  "init_driver s =
     (case ensure_lib s of
        (Some e, s1) \<Rightarrow> (Some e, s1)
      | (None, s1) \<Rightarrow>
          if hip_open s1 then (None, s1)
          else (case driver_open s1 of
                  (Some e, s2) \<Rightarrow> (Some e, s2)
                | (None, s2) \<Rightarrow> (None, s2\<lparr>hip_open := True\<rparr>)))"

definition close_driver :: "hip \<Rightarrow> exn option \<times> hip" where
  "close_driver s =
     (if hip_open s \<and> hip_lib s
        then (case driver_close s of
                (Some e, s1) \<Rightarrow> (Some e, s1)
              | (None, s1) \<Rightarrow> (None, s1\<lparr>hip_open := False\<rparr>))
      else (None, s))"

definition register_global_buffer :: "int \<Rightarrow> int \<Rightarrow> hip \<Rightarrow> exn option \<times> hip" where
  "register_global_buffer ptr n s =
     (case ensure_lib s of
        (Some e, s1) \<Rightarrow> (Some e, s1)
      | (None, s1) \<Rightarrow>
          if \<not> hip_open s1
            then (Some (RuntimeError ''Driver not opened. Call HIPFile.init_driver() first.''), s1)
          else (case map_of (hip_bufs s1) ptr of
                  Some (old_size, refcount) \<Rightarrow>
                    if old_size \<noteq> n
                      then (Some (ValueError ''Buffer already registered with different size''), s1)
                    else (None, s1\<lparr>hip_bufs := dict_put ptr (n, refcount + 1) (hip_bufs s1)\<rparr>)
                | None \<Rightarrow>
                    (case lib_register_buffer ptr n s1 of
                       (Some e, s2) \<Rightarrow> (Some e, s2)
                     | (None, s2) \<Rightarrow> (None, s2\<lparr>hip_bufs := dict_put ptr (n, 1) (hip_bufs s2)\<rparr>))))"

definition deregister_global_buffer :: "int \<Rightarrow> hip \<Rightarrow> exn option \<times> hip" where
  "deregister_global_buffer ptr s =
     (case map_of (hip_bufs s) ptr of
        None \<Rightarrow> (None, s)
      | Some (n, refcount) \<Rightarrow>
          if 1 < refcount then (None, s\<lparr>hip_bufs := dict_put ptr (n, refcount - 1) (hip_bufs s)\<rparr>)
          else (case (if hip_lib s then lib_deregister_buffer ptr s else (None, s)) of
                  (Some e, s1) \<Rightarrow> (Some e, s1)
                | (None, s1) \<Rightarrow> (None, s1\<lparr>hip_bufs := dict_del ptr (hip_bufs s1)\<rparr>)))"

definition is_buffer_registered :: "int \<Rightarrow> hip \<Rightarrow> bool" where
  "is_buffer_registered ptr s \<longleftrightarrow>
     map_of (hip_bufs s) ptr \<noteq> None \<or>
     (\<exists>(base, (n, refcount)) \<in> set (hip_bufs s). base \<le> ptr \<and> ptr < base + n)"

definition should_skip_registration :: "bool \<Rightarrow> int list \<Rightarrow> int \<Rightarrow> hip \<Rightarrow> bool" where
  "should_skip_registration skip_flag local_buffers ptr s \<longleftrightarrow>
     skip_flag \<or> ptr \<in> set local_buffers \<or> is_buffer_registered ptr s"

definition hip_align_up :: "int \<Rightarrow> int \<Rightarrow> int" where
  "hip_align_up v alignment = (v + alignment - 1) div alignment * alignment"

definition hip_align_down :: "int \<Rightarrow> int \<Rightarrow> int" where
  "hip_align_down v alignment = v div alignment * alignment"

section \<open>The two sides agree\<close>

definition hip_ok :: "hip \<Rightarrow> bool" where
  "hip_ok s \<longleftrightarrow> distinct (map fst (hip_bufs s)) \<and> distinct (map fst (drv_bufs s)) \<and>
     (\<forall>p n rc. map_of (hip_bufs s) p = Some (n, rc) \<longrightarrow> 1 \<le> rc) \<and>
     map_of (drv_bufs s) = (\<lambda>p. map_option fst (map_of (hip_bufs s) p)) \<and>
     (hip_open s \<longrightarrow> hip_lib s) \<and> (hip_bufs s \<noteq> [] \<longrightarrow> hip_lib s) \<and> drv_open s = hip_open s"

definition hip_refs :: "hip \<Rightarrow> int \<Rightarrow> int" where
  "hip_refs s p = (case map_of (hip_bufs s) p of None \<Rightarrow> 0 | Some (n, rc) \<Rightarrow> rc)"

lemma driver_answer_fields:
  assumes "driver_answer s = (ok, s')"
  shows "hip_lib s' = hip_lib s" "hip_open s' = hip_open s" "hip_bufs s' = hip_bufs s"
    "drv_open s' = drv_open s" "drv_bufs s' = drv_bufs s"
  using assms by (auto simp: driver_answer_def split: list.splits)

lemma hip_ok_answer: "driver_answer s = (ok, s') \<Longrightarrow> hip_ok s' = hip_ok s"
  using driver_answer_fields [of s ok s'] by (simp add: hip_ok_def)

lemma hip_refs_answer: "driver_answer s = (ok, s') \<Longrightarrow> hip_refs s' = hip_refs s"
  using driver_answer_fields [of s ok s'] by (auto simp: hip_refs_def)

lemma hip_refs_cong: "hip_bufs s' = hip_bufs s \<Longrightarrow> hip_refs s' = hip_refs s"
  by (rule ext) (simp add: hip_refs_def)

text \<open>Calls that leave the buffers alone.\<close>

lemma hip_ok_cong:
  assumes "hip_ok s" and "hip_bufs s' = hip_bufs s" and "drv_bufs s' = drv_bufs s"
    and "hip_lib s \<longrightarrow> hip_lib s'" and "hip_open s' \<longrightarrow> hip_lib s'" and "drv_open s' = hip_open s'"
  shows "hip_ok s'"
  using assms by (simp add: hip_ok_def)

lemma ensure_lib_ok:
  assumes "ensure_lib s = (r, s')" and "hip_ok s"
  shows "hip_ok s' \<and> hip_bufs s' = hip_bufs s \<and> hip_open s' = hip_open s \<and> (r = None \<longrightarrow> hip_lib s')"
proof (cases "hip_lib s")
  case True
  then show ?thesis using assms by (auto simp: ensure_lib_def)
next
  case False
  obtain ok s1 where a: "driver_answer s = (ok, s1)" by (cases "driver_answer s")
  note f = driver_answer_fields [OF a]
  have o: "hip_open s \<longrightarrow> hip_lib s" "drv_open s = hip_open s" using assms(2) by (simp_all add: hip_ok_def)
  show ?thesis
  proof (intro conjI)
    show "hip_ok s'"
      by (rule hip_ok_cong [OF assms(2)])
        (use assms(1) False a f o in \<open>auto simp: ensure_lib_def new_lib_def split: if_splits\<close>)
  qed (use assms(1) False a f in \<open>auto simp: ensure_lib_def new_lib_def split: if_splits\<close>)
qed

lemma init_driver_ok:
  assumes "init_driver s = (r, s')" and "hip_ok s"
  shows "hip_ok s' \<and> hip_bufs s' = hip_bufs s \<and> (r = None \<longrightarrow> hip_open s') \<and>
    (r \<noteq> None \<longrightarrow> hip_open s' = hip_open s)"
proof -
  obtain r1 s1 where e: "ensure_lib s = (r1, s1)" by (cases "ensure_lib s")
  note l = ensure_lib_ok [OF e assms(2)]
  then have ok1: "hip_ok s1" by blast
  then have o: "hip_open s1 \<longrightarrow> hip_lib s1" "drv_open s1 = hip_open s1" by (simp_all add: hip_ok_def)
  obtain ok s2 where a: "driver_answer s1 = (ok, s2)" by (cases "driver_answer s1")
  note f = driver_answer_fields [OF a]
  show ?thesis
  proof (intro conjI)
    show "hip_ok s'"
      by (rule hip_ok_cong [OF ok1])
        (use assms(1) e l a f o in
          \<open>auto simp: init_driver_def driver_open_def split: option.splits if_splits\<close>)
  qed (use assms(1) e l a f in \<open>auto simp: init_driver_def driver_open_def split: option.splits if_splits\<close>)
qed

lemma close_driver_ok:
  assumes "close_driver s = (r, s')" and "hip_ok s"
  shows "hip_ok s' \<and> hip_bufs s' = hip_bufs s \<and> (r = None \<longrightarrow> \<not> hip_open s') \<and> (r \<noteq> None \<longrightarrow> hip_open s')"
proof -
  obtain ok s1 where a: "driver_answer s = (ok, s1)" by (cases "driver_answer s")
  note f = driver_answer_fields [OF a]
  have o: "hip_open s \<longrightarrow> hip_lib s" "drv_open s = hip_open s" using assms(2) by (simp_all add: hip_ok_def)
  show ?thesis
  proof (intro conjI)
    show "hip_ok s'"
      by (rule hip_ok_cong [OF assms(2)])
        (use assms a f o in \<open>auto simp: close_driver_def driver_close_def split: if_splits\<close>)
  qed (use assms a f o in \<open>auto simp: close_driver_def driver_close_def split: if_splits\<close>)
qed

lemma register_global_buffer_ok:
  assumes "register_global_buffer p n s = (r, s')" and "hip_ok s"
  shows "hip_ok s' \<and> hip_open s' = hip_open s \<and>
    (r = None \<longrightarrow> hip_open s \<and> hip_refs s' = (hip_refs s)(p := hip_refs s p + 1)) \<and>
    (r \<noteq> None \<longrightarrow> hip_refs s' = hip_refs s)"
proof -
  obtain r1 s1 where e: "ensure_lib s = (r1, s1)" by (cases "ensure_lib s")
  note l = ensure_lib_ok [OF e assms(2)]
  then have k: "hip_ok s1" "hip_bufs s1 = hip_bufs s" "hip_open s1 = hip_open s" by auto
  have rf: "hip_refs s1 = hip_refs s" by (rule hip_refs_cong [OF k(2)])
  show ?thesis
  proof (cases "r1 = None \<and> hip_open s1")
    case False
    then show ?thesis
      using assms(1) e k rf by (auto simp: register_global_buffer_def split: option.splits)
  next
    case True
    then have lib: "hip_lib s1" using l by simp
    show ?thesis
    proof (cases "map_of (hip_bufs s1) p")
      case (Some old)
      obtain n' rc where o: "old = (n', rc)" by (cases old)
      show ?thesis
      proof (cases "n' = n")
        case False
        then show ?thesis
          using assms(1) e True Some o k rf by (auto simp: register_global_buffer_def)
      next
        case eq: True
        have s': "s' = s1\<lparr>hip_bufs := dict_put p (n, rc + 1) (hip_bufs s1)\<rparr>" "r = None"
          using assms(1) e True Some o eq by (simp_all add: register_global_buffer_def)
        have "1 \<le> rc" using k(1) Some o by (simp add: hip_ok_def)
        then have "0 \<le> rc" by simp
        then have "hip_ok s'"
          using k(1) lib Some o eq by (auto simp: s' hip_ok_def dict_simps fun_eq_iff)
        moreover have "hip_refs s' = (hip_refs s)(p := hip_refs s p + 1)"
          unfolding rf [symmetric] using Some o by (auto simp: s' hip_refs_def dict_simps fun_eq_iff)
        ultimately show ?thesis using True k s' by simp
      qed
    next
      case None
      obtain ok s2 where a: "driver_answer s1 = (ok, s2)" by (cases "driver_answer s1")
      note f = driver_answer_fields [OF a]
      have k2: "hip_ok s2" using hip_ok_answer [OF a] k(1) by simp
      have rf2: "hip_refs s2 = hip_refs s" using hip_refs_cong [of s2 s] f k(2) by simp
      show ?thesis
      proof (cases ok)
        case False
        then have "s' = s2" "r \<noteq> None"
          using assms(1) e True None a
          by (auto simp: register_global_buffer_def lib_register_buffer_def)
        then show ?thesis using k2 rf2 f k by auto
      next
        case okT: True
        have s': "s' = s2\<lparr>drv_bufs := dict_put p n (drv_bufs s2), hip_bufs := dict_put p (n, 1) (hip_bufs s2)\<rparr>"
            "r = None"
          using assms(1) e True None a okT
          by (auto simp: register_global_buffer_def lib_register_buffer_def)
        have "hip_ok s'"
          using k2 lib f None by (auto simp: s' hip_ok_def dict_simps fun_eq_iff)
        moreover have "hip_refs s' = (hip_refs s)(p := hip_refs s p + 1)"
          unfolding rf2 [symmetric] using None f by (auto simp: s' hip_refs_def dict_simps fun_eq_iff)
        ultimately show ?thesis using True k f s' by simp
      qed
    qed
  qed
qed

lemma deregister_global_buffer_ok:
  assumes "deregister_global_buffer p s = (r, s')" and "hip_ok s"
  shows "hip_ok s' \<and> hip_open s' = hip_open s \<and>
    (r = None \<longrightarrow> hip_refs s' = (hip_refs s)(p := max 0 (hip_refs s p - 1))) \<and>
    (r \<noteq> None \<longrightarrow> hip_refs s' = hip_refs s)"
proof (cases "map_of (hip_bufs s) p")
  case None
  then have "s' = s" "r = None" using assms(1) by (auto simp: deregister_global_buffer_def)
  then show ?thesis using assms(2) None by (auto simp: hip_refs_def fun_eq_iff)
next
  case (Some old)
  obtain n rc where o: "old = (n, rc)" by (cases old)
  have rc: "1 \<le> rc" using assms(2) Some o by (simp add: hip_ok_def)
  have lib: "hip_lib s" using assms(2) Some by (auto simp: hip_ok_def)
  show ?thesis
  proof (cases "1 < rc")
    case True
    then have s': "s' = s\<lparr>hip_bufs := dict_put p (n, rc - 1) (hip_bufs s)\<rparr>" "r = None"
      using assms(1) Some o by (simp_all add: deregister_global_buffer_def)
    have "hip_ok s'" using assms(2) lib Some o True by (auto simp: s' hip_ok_def dict_simps fun_eq_iff)
    moreover have "hip_refs s' = (hip_refs s)(p := max 0 (hip_refs s p - 1))"
      using Some o True by (auto simp: s' hip_refs_def dict_simps fun_eq_iff)
    ultimately show ?thesis using s' by simp
  next
    case False
    then have r1: "rc = 1" using rc by simp
    obtain ok s1 where a: "driver_answer s = (ok, s1)" by (cases "driver_answer s")
    note f = driver_answer_fields [OF a]
    show ?thesis
    proof (cases ok)
      case F: False
      then have "s' = s1" "r \<noteq> None"
        using assms(1) Some o r1 lib a by (auto simp: deregister_global_buffer_def lib_deregister_buffer_def)
      then show ?thesis using hip_ok_answer [OF a] hip_refs_answer [OF a] assms(2) f by auto
    next
      case T: True
      have s': "s' = s1\<lparr>drv_bufs := dict_del p (drv_bufs s1), hip_bufs := dict_del p (hip_bufs s1)\<rparr>" "r = None"
        using assms(1) Some o r1 lib a T
        by (auto simp: deregister_global_buffer_def lib_deregister_buffer_def)
      have "hip_ok s'"
        using assms(2) lib f by (auto simp: s' hip_ok_def dict_simps fun_eq_iff split: if_splits)
      moreover have "hip_refs s' = (hip_refs s)(p := max 0 (hip_refs s p - 1))"
        using Some o r1 f by (auto simp: s' hip_refs_def dict_simps fun_eq_iff)
      ultimately show ?thesis using s' f by simp
    qed
  qed
qed

lemma hip_refs_nonneg: "hip_ok s \<Longrightarrow> 0 \<le> hip_refs s p"
proof -
  assume "hip_ok s"
  then have "map_of (hip_bufs s) p = Some (n, rc) \<Longrightarrow> 1 \<le> rc" for n rc by (simp add: hip_ok_def)
  then show ?thesis by (force simp: hip_refs_def split: option.split)
qed

section \<open>Holding registrations\<close>

text \<open>
  Two loops of the XDS backend over a registry: register every allocation whose identity is not in the
  dictionary yet, and deregister every identity of the dictionary. An exception ends a loop at once;
  what it did so far stays.
\<close>

type_synonym registrations = "(alloc_identity \<times> lifetime) list"

fun register_missing ::
    "(int \<Rightarrow> int \<Rightarrow> 's \<Rightarrow> exn option \<times> 's) \<Rightarrow> allocation list \<Rightarrow> registrations \<times> 's \<Rightarrow>
     exn option \<times> (registrations \<times> 's)" where
  "register_missing reg [] st = (None, st)"
| "register_missing reg (a # as) st =
     (case st of (regs, s) \<Rightarrow>
       if map_of regs (identity a) \<noteq> None then register_missing reg as (regs, s)
       else (case reg (alloc_base a) (alloc_nbytes a) s of
               (Some e, s') \<Rightarrow> (Some e, (regs, s'))
             | (None, s') \<Rightarrow>
                 register_missing reg as (dict_put (identity a) (alloc_lifetime a) regs, s')))"

fun deregister_held ::
    "(int \<Rightarrow> 's \<Rightarrow> exn option \<times> 's) \<Rightarrow> alloc_identity list \<Rightarrow> registrations \<times> 's \<Rightarrow>
     exn option \<times> (registrations \<times> 's)" where
  "deregister_held dereg [] st = (None, st)"
| "deregister_held dereg (i # is) st =
     (case st of (regs, s) \<Rightarrow>
       (case dereg (fst (snd i)) s of
          (Some e, s') \<Rightarrow> (Some e, (regs, s'))
        | (None, s') \<Rightarrow> deregister_held dereg is (dict_del i regs, s')))"

definition ensure_direct_registration ::
    "descriptor \<Rightarrow> registrations \<times> hip \<Rightarrow> exn option \<times> (registrations \<times> hip)" where
  "ensure_direct_registration d = register_missing register_global_buffer (registration_allocations d)"

definition close_direct_registrations :: "registrations \<times> hip \<Rightarrow> exn option \<times> (registrations \<times> hip)" where
  "close_direct_registrations st =
     deregister_held deregister_global_buffer (map fst (fst st)) st"

text \<open>The registrations of the dictionary that hold the address \<open>p\<close>.\<close>

definition held :: "registrations \<Rightarrow> int \<Rightarrow> int" where
  "held regs p = int (length (filter (\<lambda>(i, l). fst (snd i) = p) regs))"

lemma held_put: "map_of regs i = None \<Longrightarrow> held (dict_put i l regs) p = held regs p + (if fst (snd i) = p then 1 else 0)"
  by (auto simp: held_def dict_put_def map_of_eq_None_iff image_iff)

lemma held_del:
  "distinct (map fst regs) \<Longrightarrow> i \<in> fst ` set regs \<Longrightarrow>
   held (dict_del i regs) p = held regs p - (if fst (snd i) = p then 1 else 0)"
proof (induction regs)
  case Nil
  then show ?case by simp
next
  case (Cons x regs)
  obtain j l where x: "x = (j, l)" by (cases x)
  show ?case
  proof (cases "j = i")
    case True
    then have "i \<notin> fst ` set regs" using Cons.prems(1) by (simp add: x)
    then have "dict_del i (x # regs) = regs"
      using dict_del_absent [of regs i] True by (simp add: x dict_del_def map_of_eq_None_iff)
    with True show ?thesis by (simp add: x held_def)
  next
    case False
    with Cons have "held (dict_del i regs) p = held regs p - (if fst (snd i) = p then 1 else 0)"
      by (simp add: x)
    with False show ?thesis
      by (cases "fst (snd i) = p"; cases "fst (snd j) = p") (simp_all add: x held_def dict_del_def)
  qed
qed

text \<open>
  The contract of a reference-counted buffer registry: registering adds one reference or, when it
  fails, changes nothing; deregistering takes one reference or changes nothing.
\<close>

locale buffer_registry =
  fixes reg :: "int \<Rightarrow> int \<Rightarrow> 's \<Rightarrow> exn option \<times> 's"
    and dereg :: "int \<Rightarrow> 's \<Rightarrow> exn option \<times> 's"
    and refs :: "'s \<Rightarrow> int \<Rightarrow> int"
    and ok :: "'s \<Rightarrow> bool"
  assumes reg_ok: "reg p n s = (r, s') \<Longrightarrow> ok s \<Longrightarrow>
      ok s' \<and> refs s' = (if r = None then (refs s)(p := refs s p + 1) else refs s)"
    and dereg_ok: "dereg p s = (r, s') \<Longrightarrow> ok s \<Longrightarrow>
      ok s' \<and> refs s' = (if r = None then (refs s)(p := max 0 (refs s p - 1)) else refs s)"
    and refs_nonneg: "ok s \<Longrightarrow> 0 \<le> refs s p"
begin

lemma register_missing_balance:
  "register_missing reg as (regs, s) = (r, (regs', s')) \<Longrightarrow> ok s \<Longrightarrow> distinct (map fst regs) \<Longrightarrow>
   ok s' \<and> distinct (map fst regs') \<and> (\<forall>p. refs s' p - held regs' p = refs s p - held regs p) \<and>
   fst ` set regs \<subseteq> fst ` set regs' \<and> (r = None \<longrightarrow> identity ` set as \<subseteq> fst ` set regs')"
proof (induction as arbitrary: regs s)
  case Nil
  then show ?case by simp
next
  case (Cons a as)
  show ?case
  proof (cases "map_of regs (identity a)")
    case (Some l)
    then have "identity a \<in> fst ` set regs" by (force dest: map_of_SomeD)
    moreover have "register_missing reg as (regs, s) = (r, (regs', s'))"
      using Cons.prems(1) Some by simp
    note Cons.IH [OF this Cons.prems(2,3)]
    ultimately show ?thesis by auto
  next
    case None
    obtain r1 s1 where g: "reg (alloc_base a) (alloc_nbytes a) s = (r1, s1)"
      by (cases "reg (alloc_base a) (alloc_nbytes a) s")
    note law = reg_ok [OF g Cons.prems(2)]
    show ?thesis
    proof (cases r1)
      case (Some e)
      then show ?thesis using Cons.prems None g law by auto
    next
      case N: None
      let ?regs = "dict_put (identity a) (alloc_lifetime a) regs"
      have run: "register_missing reg as (?regs, s1) = (r, (regs', s'))"
        using Cons.prems(1) None g N by simp
      have "ok s1" using law by simp
      note IH = Cons.IH [OF run this distinct_dict_put [OF Cons.prems(3)]]
      have "refs s1 p - held ?regs p = refs s p - held regs p" for p
        using law N held_put [OF None] by (auto simp: identity_def)
      then show ?thesis using IH by (auto simp: dict_simps)
    qed
  qed
qed

lemma deregister_held_balance:
  "deregister_held dereg is (regs, s) = (r, (regs', s')) \<Longrightarrow> ok s \<Longrightarrow> distinct (map fst regs) \<Longrightarrow>
   distinct is \<Longrightarrow> set is \<subseteq> fst ` set regs \<Longrightarrow> (\<forall>p. held regs p \<le> refs s p) \<Longrightarrow>
   ok s' \<and> distinct (map fst regs') \<and> (\<forall>p. refs s' p - held regs' p = refs s p - held regs p) \<and>
   (r = None \<longrightarrow> fst ` set regs' = fst ` set regs - set is)"
proof (induction "is" arbitrary: regs s)
  case Nil
  then show ?case by simp
next
  case (Cons i js)
  obtain r1 s1 where g: "dereg (fst (snd i)) s = (r1, s1)" by (cases "dereg (fst (snd i)) s")
  note law = dereg_ok [OF g Cons.prems(2)]
  show ?case
  proof (cases r1)
    case (Some e)
    then show ?thesis using Cons.prems g law by auto
  next
    case None
    have run: "deregister_held dereg js (dict_del i regs, s1) = (r, (regs', s'))"
      using Cons.prems(1) g None by simp
    have ok1: "ok s1" using law by simp
    have i: "i \<in> fst ` set regs" using Cons.prems(5) by simp
    have d: "distinct (map fst (dict_del i regs))" using Cons.prems(3) by (rule distinct_dict_del)
    have sub: "set js \<subseteq> fst ` set (dict_del i regs)"
      using Cons.prems(4,5) by (auto simp: dict_simps)
    have bal: "refs s1 p - held (dict_del i regs) p = refs s p - held regs p" for p
    proof (cases "p = fst (snd i)")
      case True
      have "1 \<le> held regs p"
        using i True unfolding held_def
        by (force simp: Suc_le_eq length_greater_0_conv filter_empty_conv)
      then have "1 \<le> refs s p" using Cons.prems(6) order_trans by blast
      then show ?thesis using True law None held_del [OF Cons.prems(3) i] by simp
    next
      case False
      then show ?thesis using law None held_del [OF Cons.prems(3) i] by simp
    qed
    then have le: "\<forall>p. held (dict_del i regs) p \<le> refs s1 p"
      using Cons.prems(6) by (metis diff_ge_0_iff_ge)
    have dj: "distinct js" using Cons.prems(4) by simp
    note IH = Cons.IH [OF run ok1 d dj sub le]
    show ?thesis using IH bal by (auto simp: dict_simps)
  qed
qed

end

interpretation hf: buffer_registry register_global_buffer deregister_global_buffer hip_refs hip_ok
proof
  fix p n s r s'
  assume "register_global_buffer p n s = (r, s')" and "hip_ok s"
  then show "hip_ok s' \<and> hip_refs s' = (if r = None then (hip_refs s)(p := hip_refs s p + 1) else hip_refs s)"
    using register_global_buffer_ok [of p n s r s'] by simp
next
  fix p s r s'
  assume "deregister_global_buffer p s = (r, s')" and "hip_ok s"
  then show "hip_ok s' \<and>
      hip_refs s' = (if r = None then (hip_refs s)(p := max 0 (hip_refs s p - 1)) else hip_refs s)"
    using deregister_global_buffer_ok [of p s r s'] by simp
next
  fix s p
  assume "hip_ok s"
  then show "0 \<le> hip_refs s p" by (rule hip_refs_nonneg)
qed

section \<open>Direct registrations are balanced\<close>

text \<open>The registrations of one transfer after another, each of which may fail part way.\<close>

fun ensure_each :: "descriptor list \<Rightarrow> registrations \<times> hip \<Rightarrow> registrations \<times> hip" where
  "ensure_each [] st = st"
| "ensure_each (d # ds) st = ensure_each ds (snd (ensure_direct_registration d st))"

lemma ensure_each_balance:
  "ensure_each ds (regs, s) = (regs', s') \<Longrightarrow> hip_ok s \<Longrightarrow> distinct (map fst regs) \<Longrightarrow>
   hip_ok s' \<and> distinct (map fst regs') \<and> (\<forall>p. hip_refs s' p - held regs' p = hip_refs s p - held regs p)"
proof (induction ds arbitrary: regs s)
  case Nil
  then show ?case by simp
next
  case (Cons d ds)
  obtain r regs1 s1 where e: "ensure_direct_registration d (regs, s) = (r, (regs1, s1))"
    by (metis surj_pair)
  note b = hf.register_missing_balance [OF e [unfolded ensure_direct_registration_def] Cons.prems(2,3)]
  have "ensure_each ds (regs1, s1) = (regs', s')" using Cons.prems(1) e by simp
  from Cons.IH [OF this] b show ?case by simp
qed

text \<open>
  Direct I/O leaks no driver registration. However many transfers ran, with whatever descriptors
  and however many of their registrations failed half way, closing the backend's registrations gives
  back every reference it took: afterwards the driver's buffers are referenced exactly as before, and
  the Python tables and the driver still agree.
\<close>

theorem direct_registrations_balanced:
  assumes "hip_ok s" and "ensure_each ds ([], s) = st" and "close_direct_registrations st = (None, (regs, s'))"
  shows "regs = [] \<and> hip_refs s' = hip_refs s \<and> hip_ok s'"
proof -
  obtain regs1 s1 where st: "st = (regs1, s1)" by (cases st)
  have b: "hip_ok s1" "distinct (map fst regs1)" "\<forall>p. hip_refs s1 p - held regs1 p = hip_refs s p"
    using ensure_each_balance [OF assms(2) [unfolded st] assms(1)] by (simp_all add: held_def)
  have le: "\<forall>p. held regs1 p \<le> hip_refs s1 p"
    using b(3) hip_refs_nonneg [OF assms(1)] by (metis diff_ge_0_iff_ge)
  have "set (map fst regs1) \<subseteq> fst ` set regs1" by simp
  note c = hf.deregister_held_balance [OF assms(3) [unfolded st close_direct_registrations_def fst_conv]
      b(1,2,2) this le]
  then have regs: "regs = []" by simp
  have "hip_refs s' p = hip_refs s p" for p
    using c b(3) [rule_format, of p] unfolding regs by (simp add: held_def)
  then show ?thesis using regs c by (simp add: fun_eq_iff)
qed

definition demo_hip :: hip where
  "demo_hip = \<lparr>hip_lib = True, hip_open = True, hip_bufs = [(4096, (8192, 1))], drv_open = True,
     drv_bufs = [(4096, 8192)], drv_answers = [False, True]\<rparr>"

theorem direct_registrations_balanced_witness:
  "\<exists>s'. close_direct_registrations (ensure_each [demo_runs_descriptor, demo_segments_descriptor] ([], demo_hip)) =
     (None, ([], s')) \<and> hip_refs s' = hip_refs demo_hip"
proof -
  have ok: "hip_ok demo_hip" by (auto simp: hip_ok_def demo_hip_def)
  let ?st = "ensure_each [demo_runs_descriptor, demo_segments_descriptor] ([], demo_hip)"
  have "fst (close_direct_registrations ?st) = None" by code_simp
  then obtain regs s' where c: "close_direct_registrations ?st = (None, (regs, s'))"
    by (metis fst_conv surj_pair)
  from direct_registrations_balanced [OF ok refl c] c show ?thesis by blast
qed

section \<open>The registered GPU pool\<close>

text \<open>
  \<^verbatim>\<open>HyFileMemoryAllocator\<close>: its flags, its pool, and the class counter that decides which
  allocator opens and which one closes the driver. Allocating the pool is torch's work: its address,
  or \<open>None\<close> when it raises, is an argument of the constructor. A constructor that raises leaves an object
  whose flags make a later \<^verbatim>\<open>close\<close> return at once; it is not recorded.
\<close>

record pool =
  pool_closed :: bool
  pool_registered :: bool
  pool_counted :: bool
  pool_base :: int

record pools =
  p_hip :: hip
  p_active :: int
  p_objs :: "(nat \<times> pool) list"

definition pool_rollback :: "bool \<Rightarrow> hip \<Rightarrow> hip" where
  "pool_rollback opens_driver s = (if opens_driver then snd (close_driver s) else s)"

definition pool_init :: "nat \<Rightarrow> int \<Rightarrow> int option \<Rightarrow> pools \<Rightarrow> exn option \<times> pools" where
  "pool_init name n base ps =
     (let opens_driver = p_active ps = 0 in
      case (if opens_driver then init_driver (p_hip ps) else (None, p_hip ps)) of
        (Some e, s1) \<Rightarrow> (Some e, ps\<lparr>p_hip := pool_rollback opens_driver s1\<rparr>)
      | (None, s1) \<Rightarrow>
          (case base of
             None \<Rightarrow> (Some (RuntimeError ''out of memory''), ps\<lparr>p_hip := pool_rollback opens_driver s1\<rparr>)
           | Some b \<Rightarrow>
               (case register_global_buffer b n s1 of
                  (Some e, s2) \<Rightarrow> (Some e, ps\<lparr>p_hip := pool_rollback opens_driver s2\<rparr>)
                | (None, s2) \<Rightarrow>
                    (None, ps\<lparr>p_hip := s2, p_active := p_active ps + 1,
                      p_objs := dict_put name \<lparr>pool_closed = True, pool_registered = True, pool_counted = True,
                        pool_base = b\<rparr> (p_objs ps)\<rparr>))))"

definition pool_close :: "nat \<Rightarrow> pools \<Rightarrow> exn option \<times> pools" where
  "pool_close name ps =
     (case map_of (p_objs ps) name of
        None \<Rightarrow> (None, ps)
      | Some a \<Rightarrow>
          if pool_closed a \<and> \<not> pool_registered a \<and> \<not> pool_counted a then (None, ps)
          else
            let a1 = a\<lparr>pool_closed := True\<rparr> in
            (case (if pool_registered a1 then deregister_global_buffer (pool_base a1) (p_hip ps)
                   else (None, p_hip ps)) of
               (Some e, s1) \<Rightarrow> (Some e, ps\<lparr>p_hip := s1, p_objs := dict_put name a1 (p_objs ps)\<rparr>)
             | (None, s1) \<Rightarrow>
                 let a2 = a1\<lparr>pool_registered := False\<rparr> in
                 if \<not> pool_counted a2 then (None, ps\<lparr>p_hip := s1, p_objs := dict_put name a2 (p_objs ps)\<rparr>)
                 else (case (if p_active ps = 1 then close_driver s1 else (None, s1)) of
                         (Some e, s2) \<Rightarrow> (Some e, ps\<lparr>p_hip := s2, p_objs := dict_put name a2 (p_objs ps)\<rparr>)
                       | (None, s2) \<Rightarrow>
                           (None, ps\<lparr>p_hip := s2, p_active := p_active ps - 1,
                             p_objs := dict_put name (a2\<lparr>pool_counted := False\<rparr>) (p_objs ps)\<rparr>))))"

text \<open>The life of the process: pools are made and closed in any order, a pool possibly many times.\<close>

datatype pool_op = New_pool int "int option" | Close_pool nat

definition pool_step :: "pool_op \<Rightarrow> pools \<Rightarrow> pools" where
  "pool_step opn ps =
     (case opn of
        New_pool n base \<Rightarrow> snd (pool_init (length (p_objs ps)) n base ps)
      | Close_pool name \<Rightarrow> snd (pool_close name ps))"

definition counted :: "pools \<Rightarrow> int" where
  "counted ps = dict_sum (\<lambda>a. if pool_counted a then 1 else 0) (p_objs ps)"

definition holders :: "pools \<Rightarrow> int \<Rightarrow> int" where
  "holders ps p = dict_sum (\<lambda>a. if pool_registered a \<and> pool_base a = p then 1 else 0) (p_objs ps)"

definition pools_ok :: "pools \<Rightarrow> bool" where
  "pools_ok ps \<longleftrightarrow> hip_ok (p_hip ps) \<and> map fst (p_objs ps) = [0..<length (p_objs ps)] \<and>
     (\<forall>i a. map_of (p_objs ps) i = Some a \<longrightarrow> pool_registered a \<longrightarrow> pool_counted a) \<and>
     p_active ps = counted ps \<and> (p_active ps \<noteq> 0 \<longrightarrow> hip_open (p_hip ps)) \<and>
     (\<forall>p. holders ps p \<le> hip_refs (p_hip ps) p)"

lemma map_of_fresh: "map fst d = [0..<length d] \<Longrightarrow> map_of d (length d) = None"
  by (metis atLeastLessThan_iff image_set less_irrefl map_of_eq_None_iff set_upt)

lemma dict_put_fresh: "map fst d = [0..<length d] \<Longrightarrow> dict_put (length d) v d = d @ [(length d, v)]"
  using map_of_fresh [of d] by (simp add: dict_put_def map_of_eq_None_iff)

lemma dict_put_old_keys:
  "map_of d i \<noteq> None \<Longrightarrow> map fst (dict_put i v d) = map fst d \<and> length (dict_put i v d) = length d"
  by (auto simp: dict_put_def map_fst_replace map_of_eq_None_iff simp del: map_map)

lemma pool_rollback_ok:
  assumes "hip_ok s"
  shows "hip_ok (pool_rollback b s)" and "hip_refs (pool_rollback b s) = hip_refs s"
    and "\<not> b \<Longrightarrow> hip_open (pool_rollback b s) = hip_open s"
proof -
  obtain r s' where c: "close_driver s = (r, s')" by (cases "close_driver s")
  from close_driver_ok [OF c assms] hip_refs_cong [of s' s]
  show "hip_ok (pool_rollback b s)" "hip_refs (pool_rollback b s) = hip_refs s"
      "\<not> b \<Longrightarrow> hip_open (pool_rollback b s) = hip_open s"
    using assms by (auto simp: pool_rollback_def c)
qed

lemma pool_init_cases:
  assumes "pool_init name n base ps = (r, ps')" and "pools_ok ps"
  shows "hip_ok (p_hip ps') \<and>
    (if r = None
     then \<exists>b. base = Some b \<and> hip_open (p_hip ps') \<and> p_active ps' = p_active ps + 1 \<and>
        p_objs ps' = dict_put name \<lparr>pool_closed = True, pool_registered = True, pool_counted = True,
          pool_base = b\<rparr> (p_objs ps) \<and>
        hip_refs (p_hip ps') = (hip_refs (p_hip ps))(b := hip_refs (p_hip ps) b + 1)
     else p_active ps' = p_active ps \<and> p_objs ps' = p_objs ps \<and> hip_refs (p_hip ps') = hip_refs (p_hip ps) \<and>
        (p_active ps \<noteq> 0 \<longrightarrow> hip_open (p_hip ps') = hip_open (p_hip ps)))"
proof -
  let ?o = "p_active ps = 0"
  have ok: "hip_ok (p_hip ps)" "p_active ps \<noteq> 0 \<longrightarrow> hip_open (p_hip ps)"
    using assms(2) by (simp_all add: pools_ok_def)
  obtain r1 s1 where i: "(if ?o then init_driver (p_hip ps) else (None, p_hip ps)) = (r1, s1)"
    by (cases "if ?o then init_driver (p_hip ps) else (None, p_hip ps)")
  have k1: "hip_ok s1 \<and> hip_refs s1 = hip_refs (p_hip ps) \<and> (r1 = None \<longrightarrow> hip_open s1) \<and>
      (p_active ps \<noteq> 0 \<longrightarrow> hip_open s1 = hip_open (p_hip ps))"
  proof (cases ?o)
    case True
    with i have "init_driver (p_hip ps) = (r1, s1)" by simp
    from init_driver_ok [OF this ok(1)] show ?thesis using True hip_refs_cong [of s1] by auto
  next
    case False
    then show ?thesis using i ok by auto
  qed
  have un: "pool_init name n base ps =
      (case (r1, s1) of
        (Some e, s1) \<Rightarrow> (Some e, ps\<lparr>p_hip := pool_rollback ?o s1\<rparr>)
      | (None, s1) \<Rightarrow>
          (case base of
             None \<Rightarrow> (Some (RuntimeError ''out of memory''), ps\<lparr>p_hip := pool_rollback ?o s1\<rparr>)
           | Some b \<Rightarrow>
               (case register_global_buffer b n s1 of
                  (Some e, s2) \<Rightarrow> (Some e, ps\<lparr>p_hip := pool_rollback ?o s2\<rparr>)
                | (None, s2) \<Rightarrow>
                    (None, ps\<lparr>p_hip := s2, p_active := p_active ps + 1,
                      p_objs := dict_put name \<lparr>pool_closed = True, pool_registered = True, pool_counted = True,
                        pool_base = b\<rparr> (p_objs ps)\<rparr>))))"
    unfolding pool_init_def Let_def i ..
  have fail: "?thesis" if "r = Some e" "ps' = ps\<lparr>p_hip := pool_rollback ?o s\<rparr>" "hip_ok s"
      "hip_refs s = hip_refs (p_hip ps)" "p_active ps \<noteq> 0 \<longrightarrow> hip_open s = hip_open (p_hip ps)" for e s
    using that pool_rollback_ok [OF that(3), of ?o] by simp
  show ?thesis
  proof (cases r1)
    case (Some e)
    then have "r = Some e" "ps' = ps\<lparr>p_hip := pool_rollback ?o s1\<rparr>" using assms(1) un by simp_all
    from fail [OF this] k1 show ?thesis by blast
  next
    case None
    show ?thesis
    proof (cases base)
      case N: None
      then have "r = Some (RuntimeError ''out of memory'')" "ps' = ps\<lparr>p_hip := pool_rollback ?o s1\<rparr>"
        using assms(1) un None by simp_all
      from fail [OF this] k1 show ?thesis by blast
    next
      case (Some b)
      obtain r2 s2 where g: "register_global_buffer b n s1 = (r2, s2)" by (cases "register_global_buffer b n s1")
      have k2: "hip_ok s2 \<and> hip_open s2 = hip_open s1 \<and>
          hip_refs s2 = (if r2 = None then (hip_refs s1)(b := hip_refs s1 b + 1) else hip_refs s1)"
        using register_global_buffer_ok [OF g] k1 by simp
      show ?thesis
      proof (cases r2)
        case R: None
        then show ?thesis using assms(1) un k1 k2 None Some g by auto
      next
        case E: (Some e)
        then have "r = Some e" "ps' = ps\<lparr>p_hip := pool_rollback ?o s2\<rparr>"
          using assms(1) un None Some g by simp_all
        from fail [OF this] k1 k2 E show ?thesis by simp
      qed
    qed
  qed
qed

lemma pool_init_preserves:
  assumes "pool_init (length (p_objs ps)) n base ps = (r, ps')" and ok: "pools_ok ps"
  shows "pools_ok ps'"
proof -
  note c = pool_init_cases [OF assms]
  have keys: "map fst (p_objs ps) = [0..<length (p_objs ps)]" using ok by (simp add: pools_ok_def)
  show ?thesis
  proof (cases r)
    case None
    then obtain b where b: "hip_ok (p_hip ps')" "hip_open (p_hip ps')" "p_active ps' = p_active ps + 1"
        "p_objs ps' = p_objs ps @ [(length (p_objs ps), \<lparr>pool_closed = True, pool_registered = True,
          pool_counted = True, pool_base = b\<rparr>)]"
        "hip_refs (p_hip ps') = (hip_refs (p_hip ps))(b := hip_refs (p_hip ps) b + 1)"
      using c by (auto simp: dict_put_fresh [OF keys])
    have "counted ps' = counted ps + 1" by (simp add: counted_def b(4))
    moreover have "holders ps' p = holders ps p + (if b = p then 1 else 0)" for p
      by (simp add: holders_def b(4))
    moreover have "\<forall>i a. map_of (p_objs ps') i = Some a \<longrightarrow> pool_registered a \<longrightarrow> pool_counted a"
      using ok map_of_fresh [OF keys]
      by (auto simp: b(4) pools_ok_def map_add_def split: option.splits if_splits)
    ultimately show ?thesis using ok b keys by (auto simp: pools_ok_def)
  next
    case (Some e)
    then show ?thesis using c ok by (auto simp: pools_ok_def counted_def holders_def)
  qed
qed

lemma pools_ok_update:
  assumes ok: "pools_ok ps" and a: "map_of (p_objs ps) name = Some a"
    and h: "hip_ok h'" and reg: "pool_registered a' \<longrightarrow> pool_counted a'"
    and k: "k' = p_active ps - (if pool_counted a then 1 else 0) + (if pool_counted a' then 1 else 0)"
    and op: "k' \<noteq> 0 \<longrightarrow> hip_open h'"
    and refs: "\<forall>p. holders ps p - (if pool_registered a \<and> pool_base a = p then 1 else 0) +
        (if pool_registered a' \<and> pool_base a' = p then 1 else 0) \<le> hip_refs h' p"
    and ps': "p_hip ps' = h'" "p_active ps' = k'" "p_objs ps' = dict_put name a' (p_objs ps)"
  shows "pools_ok ps'"
proof -
  have keys: "map fst (p_objs ps) = [0..<length (p_objs ps)]" using ok by (simp add: pools_ok_def)
  have d: "distinct (map fst (p_objs ps))" unfolding keys by simp
  have "map fst (p_objs ps') = [0..<length (p_objs ps')]"
    using dict_put_old_keys [of "p_objs ps" name a'] a keys unfolding ps' by simp
  moreover have "counted ps' = counted ps - (if pool_counted a then 1 else 0) + (if pool_counted a' then 1 else 0)"
    unfolding counted_def ps' by (rule dict_sum_put_old [OF d a])
  moreover have "holders ps' p = holders ps p - (if pool_registered a \<and> pool_base a = p then 1 else 0) +
        (if pool_registered a' \<and> pool_base a' = p then 1 else 0)" for p
    unfolding holders_def ps' by (rule dict_sum_put_old [OF d a])
  moreover have "\<forall>i x. map_of (p_objs ps') i = Some x \<longrightarrow> pool_registered x \<longrightarrow> pool_counted x"
    using ok reg unfolding pools_ok_def ps' map_of_dict_put by (auto split: if_splits)
  ultimately show ?thesis using ok h k op refs by (simp add: pools_ok_def ps')
qed

lemma dict_sum_count:
  assumes "distinct (map fst d)" and "map_of d i = Some a" and "P a"
  shows "1 \<le> dict_sum (\<lambda>x. if P x then 1 else 0) d"
proof -
  have "0 \<le> dict_sum (\<lambda>x. if P x then 1 else 0) (dict_del i d)" by (rule dict_sum_nonneg) simp
  then show ?thesis
    using dict_sum_del [OF assms(1,2), of "\<lambda>x. if P x then 1 else 0"] assms(3) by simp
qed

lemma pools_ok_distinct: "pools_ok ps \<Longrightarrow> distinct (map fst (p_objs ps))"
  unfolding pools_ok_def by (metis distinct_upt)

lemma counted_active:
  assumes "pools_ok ps" and "map_of (p_objs ps) i = Some a" and "pool_counted a"
  shows "1 \<le> p_active ps"
  using dict_sum_count [OF pools_ok_distinct [OF assms(1)] assms(2), of pool_counted] assms(1,3)
  by (simp add: pools_ok_def counted_def)

lemma holders_le_refs: "pools_ok ps \<Longrightarrow> holders ps p \<le> hip_refs (p_hip ps) p"
  by (simp add: pools_ok_def)

lemma pool_close_ok:
  assumes c: "pool_close name ps = (r, ps')" and ok: "pools_ok ps"
  shows "pools_ok ps' \<and> (r = None \<longrightarrow> pool_close name ps' = (None, ps'))"
proof (cases "map_of (p_objs ps) name")
  case None
  then show ?thesis using c ok by (auto simp: pool_close_def)
next
  case (Some a)
  have hok: "hip_ok (p_hip ps)" and op: "p_active ps \<noteq> 0 \<longrightarrow> hip_open (p_hip ps)"
    and rc: "pool_registered a \<longrightarrow> pool_counted a"
    using ok Some by (auto simp: pools_ok_def)
  show ?thesis
  proof (cases "pool_closed a \<and> \<not> pool_registered a \<and> \<not> pool_counted a")
    case True
    then show ?thesis using c ok Some by (auto simp: pool_close_def)
  next
    case False
    let ?a1 = "a\<lparr>pool_closed := True\<rparr>"
    let ?a2 = "?a1\<lparr>pool_registered := False\<rparr>"
    let ?a3 = "?a2\<lparr>pool_counted := False\<rparr>"
    obtain r1 s1 where g: "(if pool_registered a then deregister_global_buffer (pool_base a) (p_hip ps)
        else (None, p_hip ps)) = (r1, s1)" by (metis surj_pair)
    have k1: "hip_ok s1 \<and> hip_open s1 = hip_open (p_hip ps) \<and>
        hip_refs s1 = (if pool_registered a \<and> r1 = None
          then (hip_refs (p_hip ps))(pool_base a := max 0 (hip_refs (p_hip ps) (pool_base a) - 1))
          else hip_refs (p_hip ps))"
    proof (cases "pool_registered a")
      case True
      with g have "deregister_global_buffer (pool_base a) (p_hip ps) = (r1, s1)" by simp
      from deregister_global_buffer_ok [OF this hok] show ?thesis using True by simp
    next
      case False
      then show ?thesis using g hok by auto
    qed
    have refs1: "\<forall>p. holders ps p - (if pool_registered a \<and> pool_base a = p then 1 else 0) \<le> hip_refs s1 p"
    proof
      fix p
      have le: "holders ps p \<le> hip_refs (p_hip ps) p" by (rule holders_le_refs [OF ok])
      show "holders ps p - (if pool_registered a \<and> pool_base a = p then 1 else 0) \<le> hip_refs s1 p"
        using k1 le by (cases "pool_registered a"; cases r1; cases "pool_base a = p") auto
    qed
    have g': "(if pool_registered ?a1 then deregister_global_buffer (pool_base ?a1) (p_hip ps)
        else (None, p_hip ps)) = (r1, s1)" using g by (cases "pool_registered a") simp_all
    show ?thesis
    proof (cases r1)
      case (Some e)
      have ps': "ps' = ps\<lparr>p_hip := s1, p_objs := dict_put name ?a1 (p_objs ps)\<rparr>" "r = Some e"
        using c \<open>map_of (p_objs ps) name = Some a\<close> False g' Some
        by (auto simp: pool_close_def Let_def simp del: if_split)
      have reg: "hip_refs s1 = hip_refs (p_hip ps)" using k1 Some by simp
      have "pools_ok ps'"
        by (rule pools_ok_update [OF ok \<open>map_of (p_objs ps) name = Some a\<close>, of s1 ?a1 "p_active ps"])
          (use k1 rc op reg holders_le_refs [OF ok] in \<open>auto simp: ps'\<close>)
      then show ?thesis using ps' by simp
    next
      case N1: None
      show ?thesis
      proof (cases "pool_counted a")
        case nc: False
        have ps': "ps' = ps\<lparr>p_hip := s1, p_objs := dict_put name ?a2 (p_objs ps)\<rparr>" "r = None"
          using c Some False g' N1 nc by (auto simp: pool_close_def Let_def simp del: if_split)
        have "pools_ok ps'"
          by (rule pools_ok_update [OF ok Some, of s1 ?a2 "p_active ps"])
            (use k1 rc op refs1 nc in \<open>auto simp: ps'\<close>)
        moreover have "pool_close name ps' = (None, ps')"
          using nc by (simp add: pool_close_def ps' dict_simps)
        ultimately show ?thesis using ps' by simp
      next
        case cn: True
        obtain r2 s2 where h: "(if p_active ps = 1 then close_driver s1 else (None, s1)) = (r2, s2)"
          by (metis surj_pair)
        have k2: "hip_ok s2 \<and> hip_refs s2 = hip_refs s1 \<and> (p_active ps \<noteq> 1 \<longrightarrow> hip_open s2 = hip_open s1) \<and>
            (r2 \<noteq> None \<longrightarrow> hip_open s2)"
        proof (cases "p_active ps = 1")
          case True
          with h have "close_driver s1 = (r2, s2)" by simp
          from close_driver_ok [OF this] k1 hip_refs_cong [of s2 s1] True show ?thesis by auto
        next
          case False
          then show ?thesis using h k1 by auto
        qed
        show ?thesis
        proof (cases r2)
          case (Some e)
          have ps': "ps' = ps\<lparr>p_hip := s2, p_objs := dict_put name ?a2 (p_objs ps)\<rparr>" "r = Some e"
            using c \<open>map_of (p_objs ps) name = Some a\<close> False g' N1 cn h Some
            by (auto simp: pool_close_def Let_def simp del: if_split)
          have "pools_ok ps'"
            by (rule pools_ok_update [OF ok \<open>map_of (p_objs ps) name = Some a\<close>, of s2 ?a2 "p_active ps"])
              (use k1 k2 cn refs1 Some in \<open>auto simp: ps'\<close>)
          then show ?thesis using ps' by simp
        next
          case N2: None
          have ps': "ps' = ps\<lparr>p_hip := s2, p_active := p_active ps - 1, p_objs := dict_put name ?a3 (p_objs ps)\<rparr>"
              "r = None"
            using c Some False g' N1 cn h N2 by (auto simp: pool_close_def Let_def simp del: if_split)
          have "p_active ps - 1 \<noteq> 0 \<longrightarrow> hip_open s2"
            using k1 k2 op counted_active [OF ok Some cn] by auto
          then have "pools_ok ps'"
            by (intro pools_ok_update [OF ok Some, of s2 ?a3 "p_active ps - 1"])
              (use k1 k2 cn refs1 in \<open>auto simp: ps'\<close>)
          moreover have "pool_close name ps' = (None, ps')"
            by (simp add: pool_close_def ps' dict_simps)
          ultimately show ?thesis using ps' by simp
        qed
      qed
    qed
  qed
qed

lemma pool_step_ok: "pools_ok ps \<Longrightarrow> pools_ok (pool_step opn ps)"
proof (cases opn)
  case (New_pool n base)
  assume ok: "pools_ok ps"
  obtain r ps' where p: "pool_init (length (p_objs ps)) n base ps = (r, ps')" by (metis surj_pair)
  from pool_init_preserves [OF p ok] show ?thesis by (simp add: pool_step_def New_pool p)
next
  case (Close_pool name)
  assume ok: "pools_ok ps"
  obtain r ps' where p: "pool_close name ps = (r, ps')" by (metis surj_pair)
  from pool_close_ok [OF p ok] show ?thesis by (simp add: pool_step_def Close_pool p)
qed

lemma pool_run_ok: "pools_ok ps \<Longrightarrow> pools_ok (fold pool_step ops ps)"
  by (induction ops arbitrary: ps) (auto intro: pool_step_ok)

text \<open>The state before the process makes its first pool.\<close>

definition fresh_pools :: "pools \<Rightarrow> bool" where
  "fresh_pools ps \<longleftrightarrow> \<not> hip_open (p_hip ps) \<and> hip_bufs (p_hip ps) = [] \<and> \<not> drv_open (p_hip ps) \<and>
     drv_bufs (p_hip ps) = [] \<and> p_active ps = 0 \<and> p_objs ps = []"

lemma fresh_pools_ok: "fresh_pools ps \<Longrightarrow> pools_ok ps"
  by (simp add: fresh_pools_def pools_ok_def hip_ok_def counted_def holders_def hip_refs_def)

text \<open>
  C34: In every run of a fresh process, pools made and closed in any order, closed repeatedly, with driver
  calls failing anywhere: the class counter is the number of live pools; while there is one the driver
  is open; the buffer of every registered pool is registered with the driver, with at least one
  reference for each pool that shares it; and a successful close can be repeated without effect.
\<close>

theorem pools_lifecycle:
  assumes "fresh_pools start" and "ps = fold pool_step ops start"
  shows "p_active ps = counted ps \<and> (0 < p_active ps \<longrightarrow> drv_open (p_hip ps)) \<and>
    (\<forall>i a. map_of (p_objs ps) i = Some a \<longrightarrow> pool_registered a \<longrightarrow>
       map_of (drv_bufs (p_hip ps)) (pool_base a) \<noteq> None) \<and>
    (\<forall>p. holders ps p \<le> hip_refs (p_hip ps) p) \<and>
    (\<forall>i ps'. pool_close i ps = (None, ps') \<longrightarrow> pool_close i ps' = (None, ps'))"
proof -
  have ok: "pools_ok ps" unfolding assms(2) by (rule pool_run_ok [OF fresh_pools_ok [OF assms(1)]])
  have "map_of (drv_bufs (p_hip ps)) (pool_base a) \<noteq> None"
    if a: "map_of (p_objs ps) i = Some a" "pool_registered a" for i a
  proof -
    have "1 \<le> holders ps (pool_base a)"
      unfolding holders_def using a(2) by (intro dict_sum_count [OF pools_ok_distinct [OF ok] a(1)]) simp
    then have "1 \<le> hip_refs (p_hip ps) (pool_base a)"
      using holders_le_refs [OF ok] order_trans by blast
    then show ?thesis using ok by (auto simp: hip_refs_def pools_ok_def hip_ok_def split: option.splits)
  qed
  moreover have "pool_close i ps' = (None, ps')" if "pool_close i ps = (None, ps')" for i ps'
    using pool_close_ok [OF that ok] by simp
  ultimately show ?thesis using ok by (auto simp: pools_ok_def hip_ok_def)
qed

definition demo_pools :: pools where
  "demo_pools = \<lparr>p_hip = \<lparr>hip_lib = False, hip_open = False, hip_bufs = [], drv_open = False, drv_bufs = [],
     drv_answers = [True, True, True, False]\<rparr>, p_active = 0, p_objs = []\<rparr>"

theorem pools_lifecycle_witness:
  "fresh_pools demo_pools \<and>
   p_active (fold pool_step [New_pool 8192 (Some 4096), New_pool 8192 None, Close_pool 0, Close_pool 0] demo_pools) =
   counted (fold pool_step [New_pool 8192 (Some 4096), New_pool 8192 None, Close_pool 0, Close_pool 0] demo_pools)"
proof -
  have ok: "fresh_pools demo_pools" by (simp add: fresh_pools_def demo_pools_def)
  from pools_lifecycle [OF ok refl] ok show ?thesis by blast
qed

end
