(* ===== verification/Hyfile_Io.thy ===== *)
theory Hyfile_Io
  imports Py_Hash Hip_File
begin

text \<open>
  Transfers between files and device memory: \<^verbatim>\<open>HyFileDDS\<close> of \<^verbatim>\<open>storage_backend/xds_backend.py\<close>
  with its CPU fallback, and the contract every storage interface has towards the backend. Device
  memory maps addresses to bytes; a file is its bytes. The DMA engine and \<^verbatim>\<open>hipMemcpy\<close> are the
  list of their coming answers: a DMA call fails before the file is open, raises, or moves a number of
  bytes and returns it; a copy returns its error code. The operating system answers the same way to
  the file calls of the theory \<open>Os_Files\<close>. An exhausted list means that calls succeed in full.
\<close>

section \<open>Memory, files and the driver's answers\<close>

datatype dma = Dma_closed | Dma_raise | Dma_count int

datatype os = Os_raise | Os_count int

record world =
  w_mem :: "int \<Rightarrow> byte"
  w_files :: "string \<Rightarrow> bytes option"
  w_dma :: "dma list"
  w_copy :: "int list"
  w_os :: "os list"

definition next_dma :: "int \<Rightarrow> world \<Rightarrow> dma \<times> world" where
  "next_dma n w = (case w_dma w of [] \<Rightarrow> (Dma_count n, w) | d # ds \<Rightarrow> (d, w\<lparr>w_dma := ds\<rparr>))"

definition next_copy :: "world \<Rightarrow> int \<times> world" where
  "next_copy w = (case w_copy w of [] \<Rightarrow> (0, w) | c # cs \<Rightarrow> (c, w\<lparr>w_copy := cs\<rparr>))"

text \<open>A byte of a mapped file; the rest of the last page reads as zero.\<close>

definition byte_at :: "bytes \<Rightarrow> int \<Rightarrow> byte" where
  "byte_at f i = (if 0 \<le> i \<and> i < int (length f) then f ! nat i else 0)"

text \<open>\<open>n\<close> bytes of file \<open>f\<close> from offset \<open>fo\<close> copied to address \<open>a\<close>.\<close>

definition put_mem :: "int \<Rightarrow> int \<Rightarrow> bytes \<Rightarrow> int \<Rightarrow> (int \<Rightarrow> byte) \<Rightarrow> int \<Rightarrow> byte" where
  "put_mem a n f fo mem = (\<lambda>x. if a \<le> x \<and> x < a + n then byte_at f (fo + (x - a)) else mem x)"

definition mem_bytes :: "(int \<Rightarrow> byte) \<Rightarrow> int \<Rightarrow> int \<Rightarrow> bytes" where
  "mem_bytes mem a n = map mem (int_range a (nat n))"

text \<open>Bytes written into a file at an offset; a gap is filled with zeros.\<close>

definition put_file :: "bytes \<Rightarrow> int \<Rightarrow> bytes \<Rightarrow> bytes" where
  "put_file f fo data =
     take (nat fo) (f @ replicate (nat fo - length f) 0) @ data @ drop (nat fo + length data) f"

section \<open>HyFileDDS\<close>

text \<open>
  \<^verbatim>\<open>read\<close> and \<^verbatim>\<open>write\<close>: the DMA first, then, where it is allowed and the HIP runtime is there, a
  copy through a mapping of the file. The result is the requested size or \<open>- 1\<close>. A DMA read moves at most
  what the file has.
\<close>

record dds =
  dds_fallback :: bool
  dds_runtime :: bool

definition cpu_read :: "string \<Rightarrow> int \<Rightarrow> int \<Rightarrow> int \<Rightarrow> world \<Rightarrow> int \<times> world" where
  "cpu_read path addr n fo w =
     (case w_files w path of
        None \<Rightarrow> (- 1, w)
      | Some f \<Rightarrow>
          if f = [] then (- 1, w)
          else (case next_copy w of (code, w1) \<Rightarrow>
            if code \<noteq> 0 then (- 1, w1) else (n, w1\<lparr>w_mem := put_mem addr n f fo (w_mem w1)\<rparr>)))"

definition dds_read :: "dds \<Rightarrow> string \<Rightarrow> int \<Rightarrow> int \<Rightarrow> int \<Rightarrow> int \<Rightarrow> world \<Rightarrow> int \<times> world" where
  "dds_read cfg path addr n fo dev w =
     (case w_files w path of
        None \<Rightarrow> (- 1, w)
      | Some f \<Rightarrow>
          (case next_dma n w of (answer, w1) \<Rightarrow>
            let (done, w2) =
              (case answer of
                 Dma_closed \<Rightarrow> (None, w1)
               | Dma_raise \<Rightarrow> (None, w1)
               | Dma_count k \<Rightarrow>
                   let moved = min (min k n) (max 0 (int (length f) - fo)) in
                   if k < 0 then (None, w1)
                   else (Some moved, w1\<lparr>w_mem := put_mem (addr + dev) moved f fo (w_mem w1)\<rparr>))
            in if done = Some n then (n, w2)
               else if \<not> dds_fallback cfg \<or> \<not> dds_runtime cfg then (- 1, w2)
               else cpu_read path (addr + dev) n fo w2))"

text \<open>
  A write opens the file with \<^verbatim>\<open>"w"\<close> at offset zero, which truncates or creates it, and with
  \<^verbatim>\<open>"r+"\<close> otherwise, which needs the file. The fallback needs the file too, and cuts it to
  \<^verbatim>\<open>file_offset + size\<close> bytes.
\<close>

definition cpu_write :: "string \<Rightarrow> int \<Rightarrow> int \<Rightarrow> int \<Rightarrow> world \<Rightarrow> int \<times> world" where
  "cpu_write path addr n fo w =
     (case w_files w path of
        None \<Rightarrow> (- 1, w)
      | Some f \<Rightarrow>
          if fo + n < 0 then (- 1, w)
          else
            let cut = take (nat (fo + n)) (f @ replicate (nat (fo + n) - length f) 0);
                w1 = w\<lparr>w_files := (w_files w)(path \<mapsto> cut)\<rparr>
            in if fo + n = 0 then (- 1, w1)
               else (case next_copy w1 of (code, w2) \<Rightarrow>
                 if code \<noteq> 0 then (- 1, w2)
                 else (n, w2\<lparr>w_files := (w_files w2)(path \<mapsto>
                   put_file cut fo (mem_bytes (w_mem w2) addr n))\<rparr>)))"

definition dds_write :: "dds \<Rightarrow> string \<Rightarrow> int \<Rightarrow> int \<Rightarrow> int \<Rightarrow> int \<Rightarrow> world \<Rightarrow> int \<times> world" where
  "dds_write cfg path addr n fo dev w =
     (let opened = (if fo = 0 then Some [] else w_files w path);
          (done, w2) =
            (case opened of
               None \<Rightarrow> (None, w)
             | Some f \<Rightarrow>
                 (case next_dma n w of
                    (Dma_closed, w1) \<Rightarrow> (None, w1)
                  | (Dma_raise, w1) \<Rightarrow> (None, w1\<lparr>w_files := (w_files w1)(path \<mapsto> f)\<rparr>)
                  | (Dma_count k, w1) \<Rightarrow>
                      if k < 0 then (None, w1\<lparr>w_files := (w_files w1)(path \<mapsto> f)\<rparr>)
                      else
                        let moved = min k n in
                        (Some moved, w1\<lparr>w_files := (w_files w1)(path \<mapsto>
                          put_file f fo (mem_bytes (w_mem w1) (addr + dev) moved))\<rparr>)))
      in if done = Some n then (n, w2)
         else if \<not> dds_fallback cfg \<or> \<not> dds_runtime cfg then (- 1, w2)
         else cpu_write path (addr + dev) n fo w2)"

section \<open>The contract of a storage interface\<close>

text \<open>
  What the backend relies on. A read never touches files; when it returns the size, exactly the
  requested range of memory holds the requested range of the file. A write never touches memory or
  other files; when it returns the size, the requested range of the file holds the requested range of
  memory, after the bytes the file already had; at offset zero it replaces the file.
\<close>

locale storage_interface =
  fixes rd :: "string \<Rightarrow> int \<Rightarrow> int \<Rightarrow> int \<Rightarrow> int \<Rightarrow> world \<Rightarrow> int \<times> world"
    and wr :: "string \<Rightarrow> int \<Rightarrow> int \<Rightarrow> int \<Rightarrow> int \<Rightarrow> world \<Rightarrow> int \<times> world"
  assumes read_files: "rd path addr n fo dev w = (r, w') \<Longrightarrow> w_files w' = w_files w"
    and read_full: "rd path addr n fo dev w = (n, w') \<Longrightarrow> 0 \<le> n \<Longrightarrow> w_files w path = Some f \<Longrightarrow>
      w_mem w' = put_mem (addr + dev) n f fo (w_mem w)"
    and read_missing: "rd path addr n fo dev w = (n, w') \<Longrightarrow> 0 \<le> n \<Longrightarrow> w_files w path \<noteq> None"
    and write_mem: "wr path addr n fo dev w = (r, w') \<Longrightarrow> w_mem w' = w_mem w"
    and write_others: "wr path addr n fo dev w = (r, w') \<Longrightarrow> p \<noteq> path \<Longrightarrow> w_files w' p = w_files w p"
    and write_full: "wr path addr n fo dev w = (n, w') \<Longrightarrow> 0 < n \<Longrightarrow> 0 \<le> fo \<Longrightarrow>
      (if fo = 0 then Some [] else w_files w path) = Some f \<Longrightarrow> fo = int (length f) \<Longrightarrow>
      w_files w' path = Some (f @ mem_bytes (w_mem w) (addr + dev) n)"

section \<open>HyFileDDS meets it\<close>

lemma next_dma_fields:
  assumes "next_dma n w = (d, w')"
  shows "w_mem w' = w_mem w \<and> w_files w' = w_files w"
  using assms by (auto simp: next_dma_def split: list.splits)

lemma next_copy_fields:
  assumes "next_copy w = (c, w')"
  shows "w_mem w' = w_mem w \<and> w_files w' = w_files w"
  using assms by (auto simp: next_copy_def split: list.splits)

lemma put_mem_idem:
  "0 \<le> m \<Longrightarrow> m \<le> n \<Longrightarrow> put_mem a n f fo (put_mem a m f fo mem) = put_mem a n f fo mem"
  by (auto simp: put_mem_def fun_eq_iff)

lemma put_mem_0 [simp]: "put_mem a 0 f fo mem = mem"
  by (auto simp: put_mem_def fun_eq_iff)

lemma cpu_read_ok:
  assumes "cpu_read path a n fo w = (r, w')"
  shows "w_files w' = w_files w \<and> (r = n \<longrightarrow> 0 \<le> n \<longrightarrow>
    (\<exists>f. w_files w path = Some f \<and> w_mem w' = put_mem a n f fo (w_mem w)))"
  using assms by (auto simp: cpu_read_def dest!: next_copy_fields split: option.splits if_splits prod.splits)

lemma dds_read_ok:
  assumes "dds_read cfg path addr n fo dev w = (r, w')"
  shows "w_files w' = w_files w \<and> (r = n \<longrightarrow> 0 \<le> n \<longrightarrow>
    (\<exists>f. w_files w path = Some f \<and> w_mem w' = put_mem (addr + dev) n f fo (w_mem w)))"
proof (cases "w_files w path")
  case None
  then show ?thesis using assms by (auto simp: dds_read_def)
next
  case (Some f)
  obtain answer w1 where d: "next_dma n w = (answer, w1)" by (cases "next_dma n w")
  note df = next_dma_fields [OF d]
  define res where "res = (case answer of
      Dma_closed \<Rightarrow> (None, w1)
    | Dma_raise \<Rightarrow> (None, w1)
    | Dma_count k \<Rightarrow>
        let moved = min (min k n) (max 0 (int (length f) - fo)) in
        if k < 0 then (None, w1)
        else (Some moved, w1\<lparr>w_mem := put_mem (addr + dev) moved f fo (w_mem w1)\<rparr>))"
  obtain did w2 where r2: "res = (did, w2)" by (cases res)
  have k: "w_files w2 = w_files w \<and> (0 \<le> n \<longrightarrow> (\<exists>m \<le> n. 0 \<le> m \<and> (did \<noteq> None \<longrightarrow> did = Some m) \<and>
      w_mem w2 = put_mem (addr + dev) m f fo (w_mem w)))"
  proof (cases answer)
    case Dma_closed
    have "put_mem (addr + dev) 0 f fo (w_mem w) = w_mem w" by (rule put_mem_0)
    then show ?thesis using r2 df Dma_closed by (auto simp: res_def intro!: exI [of _ 0])
  next
    case Dma_raise
    have "put_mem (addr + dev) 0 f fo (w_mem w) = w_mem w" by (rule put_mem_0)
    then show ?thesis using r2 df Dma_raise by (auto simp: res_def intro!: exI [of _ 0])
  next
    case (Dma_count k)
    let ?m = "min (min k n) (max 0 (int (length f) - fo))"
    show ?thesis
    proof (cases "k < 0")
      case True
      then show ?thesis using r2 df Dma_count by (auto simp: res_def intro!: exI [of _ 0])
    next
      case False
      then show ?thesis using r2 df Dma_count by (auto simp: res_def Let_def intro!: exI [of _ ?m])
    qed
  qed
  have run: "dds_read cfg path addr n fo dev w =
      (if did = Some n then (n, w2) else if \<not> dds_fallback cfg \<or> \<not> dds_runtime cfg then (- 1, w2)
       else cpu_read path (addr + dev) n fo w2)"
    using Some d r2 by (simp add: dds_read_def res_def)
  show ?thesis
  proof (cases "did = Some n")
    case True
    then show ?thesis using assms run k Some by auto
  next
    case False
    show ?thesis
    proof (cases "\<not> dds_fallback cfg \<or> \<not> dds_runtime cfg")
      case True
      then show ?thesis using assms run False k by auto
    next
      case F: False
      then have c: "cpu_read path (addr + dev) n fo w2 = (r, w')" using assms run False by simp
      show ?thesis using cpu_read_ok [OF c] k Some by (auto simp: put_mem_idem)
    qed
  qed
qed

lemma length_mem_bytes [simp]: "length (mem_bytes mem a n) = nat n"
  by (simp add: mem_bytes_def)

lemma put_file_append: "int (length f) = fo \<Longrightarrow> put_file f fo data = f @ data"
  by (auto simp: put_file_def)

lemma cut_put_file:
  assumes "length f \<le> m" "length data = n"
  shows "put_file (take (m + n) (f @ ys)) (int (length f)) data = f @ data @ drop n (take (m + n - length f) ys)"
  using assms by (auto simp: put_file_def)

lemma cpu_write_ok:
  assumes "cpu_write path a n fo w = (r, w')"
  shows "w_mem w' = w_mem w \<and> (\<forall>p. p \<noteq> path \<longrightarrow> w_files w' p = w_files w p) \<and>
    (r = n \<longrightarrow> 0 < n \<longrightarrow> w_files w path \<noteq> None \<and> (\<forall>f g. w_files w path = Some (f @ g) \<longrightarrow> fo = int (length f) \<longrightarrow>
      w_files w' path = Some (f @ mem_bytes (w_mem w) a n)))"
  using assms
  by (auto simp: cpu_write_def Let_def put_file_def nat_add_distrib dest!: next_copy_fields
      split: option.splits if_splits prod.splits)

lemma dds_write_ok:
  assumes "dds_write cfg path addr n fo dev w = (r, w')"
  shows "w_mem w' = w_mem w \<and> (\<forall>p. p \<noteq> path \<longrightarrow> w_files w' p = w_files w p) \<and>
    (r = n \<longrightarrow> 0 < n \<longrightarrow> (\<forall>f. (if fo = 0 then Some [] else w_files w path) = Some f \<longrightarrow>
      fo = int (length f) \<longrightarrow> w_files w' path = Some (f @ mem_bytes (w_mem w) (addr + dev) n)))"
proof -
  define opened where "opened = (if fo = 0 then Some [] else w_files w path)"
  define res where "res = (case opened of
      None \<Rightarrow> (None, w)
    | Some f \<Rightarrow>
        (case next_dma n w of
           (Dma_closed, w1) \<Rightarrow> (None, w1)
         | (Dma_raise, w1) \<Rightarrow> (None, w1\<lparr>w_files := (w_files w1)(path \<mapsto> f)\<rparr>)
         | (Dma_count k, w1) \<Rightarrow>
             if k < 0 then (None, w1\<lparr>w_files := (w_files w1)(path \<mapsto> f)\<rparr>)
             else
               let moved = min k n in
               (Some moved, w1\<lparr>w_files := (w_files w1)(path \<mapsto>
                 put_file f fo (mem_bytes (w_mem w1) (addr + dev) moved))\<rparr>)))"
  obtain did w2 where r2: "res = (did, w2)" by (cases res)
  have k: "w_mem w2 = w_mem w \<and> (\<forall>p. p \<noteq> path \<longrightarrow> w_files w2 p = w_files w p)"
    using r2 by (auto simp: res_def Let_def dest!: next_dma_fields
        split: option.splits prod.splits dma.splits if_splits)
  have d: "(did = Some n \<longrightarrow> w_files w2 path = Some (f @ mem_bytes (w_mem w) (addr + dev) n)) \<and>
      (w_files w2 path = None \<or> (\<exists>g. w_files w2 path = Some (f @ g)))"
    if o: "opened = Some f" and "fo = int (length f)" "0 < n" for f
  proof -
    obtain a w1 where a: "next_dma n w = (a, w1)" by (cases "next_dma n w")
    note af = next_dma_fields [OF a]
    have "w_files w path = None \<or> (\<exists>g. w_files w path = Some (f @ g))"
      using o by (cases "w_files w path") (auto simp: opened_def split: if_splits)
    then show ?thesis using r2 that a af
      by (cases a) (auto simp: res_def Let_def put_file_append split: if_splits)
  qed
  have run: "dds_write cfg path addr n fo dev w =
      (if did = Some n then (n, w2) else if \<not> dds_fallback cfg \<or> \<not> dds_runtime cfg then (- 1, w2)
       else cpu_write path (addr + dev) n fo w2)"
    using r2 by (simp add: dds_write_def res_def opened_def Let_def)
  show ?thesis
  proof (cases "did = Some n")
    case True
    then have "r = n" "w' = w2" using assms run by simp_all
    moreover have "w_files w2 path = Some (f @ mem_bytes (w_mem w) (addr + dev) n)"
      if "0 < n" "opened = Some f" "fo = int (length f)" for f
      using d [OF that(2,3,1)] True by blast
    ultimately show ?thesis using k unfolding opened_def [symmetric] by simp
  next
    case False
    show ?thesis
    proof (cases "\<not> dds_fallback cfg \<or> \<not> dds_runtime cfg")
      case True
      then have "r = - 1" "w' = w2" using assms run False by simp_all
      then show ?thesis using k by simp
    next
      case F: False
      then have c: "cpu_write path (addr + dev) n fo w2 = (r, w')" using assms run False by simp
      note ok = cpu_write_ok [OF c]
      have "w_files w' path = Some (f @ mem_bytes (w_mem w) (addr + dev) n)"
        if "r = n" "0 < n" "opened = Some f" "fo = int (length f)" for f
        using ok d [OF that(3,4,2)] that k by auto
      then show ?thesis using ok k unfolding opened_def [symmetric] by simp
    qed
  qed
qed

interpretation dds: storage_interface "dds_read cfg" "dds_write cfg" for cfg
  by unfold_locales (use dds_read_ok dds_write_ok in \<open>fastforce+\<close>)

end
