(* ===== verification/Os_Files.thy ===== *)
theory Os_Files
  imports Hyfile_Io Py_Text
begin

text \<open>
  The file-system calls of the backends: \<^verbatim>\<open>os.open\<close> with truncation, \<^verbatim>\<open>os.write\<close>, \<^verbatim>\<open>os.replace\<close>,
  \<^verbatim>\<open>os.remove\<close>, each of which may raise \<^verbatim>\<open>OSError\<close> or, for a write, move fewer bytes than asked; and
  the discipline that every writer of a cache file follows: build the file under a temporary name,
  rename it, remove the temporary file when anything raises.
\<close>

section \<open>Calls\<close>

definition os_call :: "world \<Rightarrow> os option \<times> world" where
  "os_call w = (case w_os w of [] \<Rightarrow> (None, w) | a # as \<Rightarrow> (Some a, w\<lparr>w_os := as\<rparr>))"

definition put_content :: "string \<Rightarrow> bytes option \<Rightarrow> world \<Rightarrow> world" where
  "put_content p c w = w\<lparr>w_files := (w_files w)(p := c)\<rparr>"

definition os_open_trunc :: "string \<Rightarrow> world \<Rightarrow> exn option \<times> world" where
  "os_open_trunc p w =
     (case os_call w of
        (Some Os_raise, w') \<Rightarrow> (Some (OSError ''open''), w')
      | (_, w') \<Rightarrow> (None, put_content p (Some []) w'))"

text \<open>A write at the end of the file; the file may have lost its name, then nothing is visible.\<close>

definition os_append :: "string \<Rightarrow> bytes \<Rightarrow> world \<Rightarrow> world" where
  "os_append p data w = (case w_files w p of None \<Rightarrow> w | Some f \<Rightarrow> put_content p (Some (f @ data)) w)"

definition os_write :: "string \<Rightarrow> bytes \<Rightarrow> world \<Rightarrow> nat res \<times> world" where
  "os_write p data w =
     (case os_call w of
        (Some Os_raise, w') \<Rightarrow> (Inl (OSError ''write''), w')
      | (Some (Os_count k), w') \<Rightarrow>
          let n = min (nat k) (length data) in (Inr n, os_append p (take n data) w')
      | (None, w') \<Rightarrow> (Inr (length data), os_append p data w'))"

text \<open>A write through a buffered file object moves everything or raises.\<close>

definition py_write :: "string \<Rightarrow> bytes \<Rightarrow> world \<Rightarrow> exn option \<times> world" where
  "py_write p data w =
     (case os_call w of
        (Some Os_raise, w') \<Rightarrow> (Some (OSError ''write''), w')
      | (_, w') \<Rightarrow> (None, os_append p data w'))"

definition os_replace :: "string \<Rightarrow> string \<Rightarrow> world \<Rightarrow> exn option \<times> world" where
  "os_replace src dst w =
     (case os_call w of
        (Some Os_raise, w') \<Rightarrow> (Some (OSError ''rename''), w')
      | (_, w') \<Rightarrow>
          (case w_files w' src of
             None \<Rightarrow> (Some (OSError ''No such file''), w')
           | Some f \<Rightarrow> (None, put_content src None (put_content dst (Some f) w'))))"

text \<open>\<open>os_remove\<close> of a missing file raises \<^verbatim>\<open>FileNotFoundError\<close>, which every caller ignores.\<close>

definition os_remove :: "string \<Rightarrow> world \<Rightarrow> exn option \<times> world" where
  "os_remove p w =
     (if w_files w p = None then (None, w)
      else case os_call w of
        (Some Os_raise, w') \<Rightarrow> (Some (OSError ''remove''), w')
      | (_, w') \<Rightarrow> (None, put_content p None w'))"

definition file_size :: "string \<Rightarrow> world \<Rightarrow> int" where
  "file_size p w = (case w_files w p of None \<Rightarrow> - 1 | Some f \<Rightarrow> int (length f))"

text \<open>
  \<^verbatim>\<open>while written < len(data): count = os.write(fd, data[written:])\<close>. It ends because a count that
  is not positive raises.
\<close>

function write_all :: "string \<Rightarrow> bytes \<Rightarrow> world \<Rightarrow> exn option \<times> world" where
  "write_all p data w =
     (if data = [] then (None, w)
      else case os_write p data w of
        (Inl e, w') \<Rightarrow> (Some e, w')
      | (Inr n, w') \<Rightarrow>
          if n = 0 then (Some (OSError ''write made no progress''), w')
          else write_all p (drop n data) w')"
  by pat_completeness auto
termination by (relation "measure (\<lambda>(p, data, w). length data)") auto

declare write_all.simps [simp del]

fun write_each :: "string \<Rightarrow> bytes list \<Rightarrow> world \<Rightarrow> exn option \<times> world" where
  "write_each p [] w = (None, w)"
| "write_each p (d # ds) w =
     (case write_all p d w of (Some e, w') \<Rightarrow> (Some e, w') | (None, w') \<Rightarrow> write_each p ds w')"

section \<open>The temporary-file discipline\<close>

text \<open>
  What runs when the body or the rename raised: \<open>quiet\<close> removers swallow an error of the removal and
  re-raise the original exception, the others let it replace that exception.
\<close>

definition abandon :: "bool \<Rightarrow> string \<Rightarrow> exn \<Rightarrow> world \<Rightarrow> 'a res \<times> world" where
  "abandon quiet tmp e w =
     (case os_remove tmp w of
        (Some e', w') \<Rightarrow> (Inl (if quiet then e else e'), w')
      | (None, w') \<Rightarrow> (Inl e, w'))"

definition publish ::
    "bool \<Rightarrow> string \<Rightarrow> string \<Rightarrow> (world \<Rightarrow> exn option \<times> world) \<Rightarrow> 'a \<Rightarrow> world \<Rightarrow> 'a res \<times> world" where
  "publish quiet tmp path body x w =
     (case body w of
        (Some e, w1) \<Rightarrow> abandon quiet tmp e w1
      | (None, w1) \<Rightarrow>
          (case os_replace tmp path w1 of
             (Some e, w2) \<Rightarrow> abandon quiet tmp e w2
           | (None, w2) \<Rightarrow> (Inr x, w2)))"

text \<open>A step that changes no file but \<open>p\<close>, and no device memory.\<close>

definition only_file :: "string \<Rightarrow> world \<Rightarrow> world \<Rightarrow> bool" where
  "only_file p w w' \<longleftrightarrow> w_mem w' = w_mem w \<and> (\<forall>q. q \<noteq> p \<longrightarrow> w_files w' q = w_files w q)"

lemma only_file_refl [simp]: "only_file p w w"
  by (simp add: only_file_def)

lemma only_file_trans: "only_file p w w' \<Longrightarrow> only_file p w' w'' \<Longrightarrow> only_file p w w''"
  by (simp add: only_file_def)

lemma put_content_simps [simp]:
  "w_mem (put_content p c w) = w_mem w" "w_files (put_content p c w) = (w_files w)(p := c)"
  by (simp_all add: put_content_def)

lemma os_call_fields:
  "os_call w = (a, w') \<Longrightarrow> w_mem w' = w_mem w \<and> w_files w' = w_files w"
  by (auto simp: os_call_def split: list.splits)

lemma os_open_trunc_ok:
  assumes "os_open_trunc p w = (r, w')"
  shows "only_file p w w' \<and> (r = None \<longrightarrow> w_files w' p = Some [])"
  using assms by (auto simp: os_open_trunc_def only_file_def dest!: os_call_fields
      split: prod.splits option.splits os.splits)

lemma os_append_ok: "only_file p w (os_append p data w)"
  by (simp add: os_append_def only_file_def split: option.split)

lemma os_append_files:
  "w_files w p = Some f \<Longrightarrow> w_files (os_append p data w) p = Some (f @ data)"
  by (simp add: os_append_def)

lemma only_file_call: "os_call w = (a, w') \<Longrightarrow> only_file p w w'"
  using os_call_fields [of w a w'] by (simp add: only_file_def)

lemma os_write_ok:
  assumes "os_write p data w = (r, w')"
  shows "only_file p w w'"
    and "r = Inr n \<Longrightarrow> n \<le> length data \<and> (\<forall>f. w_files w p = Some f \<longrightarrow> w_files w' p = Some (f @ take n data))"
proof -
  obtain a w1 where a: "os_call w = (a, w1)" by (cases "os_call w")
  note o = only_file_call [OF a, of p] and f = os_call_fields [OF a]
  show "only_file p w w'"
    using assms a o by (auto simp: os_write_def Let_def intro: only_file_trans [OF o os_append_ok]
        split: option.splits os.splits)
  show "r = Inr n \<Longrightarrow> n \<le> length data \<and> (\<forall>f. w_files w p = Some f \<longrightarrow> w_files w' p = Some (f @ take n data))"
    using assms a f by (auto simp: os_write_def Let_def os_append_files split: option.splits os.splits)
qed

lemma py_write_ok:
  assumes "py_write p data w = (r, w')"
  shows "only_file p w w'"
    and "r = None \<Longrightarrow> w_files w p = Some f \<Longrightarrow> w_files w' p = Some (f @ data)"
proof -
  obtain a w1 where a: "os_call w = (a, w1)" by (cases "os_call w")
  note o = only_file_call [OF a, of p] and f = os_call_fields [OF a]
  show "only_file p w w'"
    using assms a o by (auto simp: py_write_def intro: only_file_trans [OF o os_append_ok]
        split: option.splits os.splits)
  show "r = None \<Longrightarrow> w_files w p = Some f \<Longrightarrow> w_files w' p = Some (f @ data)"
    using assms a f by (auto simp: py_write_def os_append_files split: option.splits os.splits)
qed

lemma write_all_ok:
  assumes "write_all p data w = (r, w')"
  shows "only_file p w w' \<and> (r = None \<longrightarrow> (\<forall>f. w_files w p = Some f \<longrightarrow> w_files w' p = Some (f @ data)))"
  using assms
proof (induction p data w rule: write_all.induct)
  case (1 p data w)
  show ?case
  proof (cases "data = []")
    case True
    then show ?thesis using 1(2) by (simp add: write_all.simps [of p "[]"])
  next
    case False
    obtain a w1 where a: "os_write p data w = (a, w1)" by (cases "os_write p data w")
    note ow = os_write_ok [OF a]
    show ?thesis
    proof (cases a)
      case (Inl e)
      then show ?thesis using 1(2) False a ow(1) by (auto simp: write_all.simps [of p data])
    next
      case (Inr n)
      show ?thesis
      proof (cases "n = 0")
        case True
        then show ?thesis using 1(2) False a ow(1) Inr by (auto simp: write_all.simps [of p data])
      next
        case n: False
        then have run: "write_all p (drop n data) w1 = (r, w')"
          using 1(2) False a Inr by (simp add: write_all.simps [of p data])
        have ih: "only_file p w1 w' \<and> (r = None \<longrightarrow> (\<forall>f. w_files w1 p = Some f \<longrightarrow> w_files w' p = Some (f @ drop n data)))"
          using 1(1) [OF False a [symmetric] Inr n run] .
        then show ?thesis using ow(1) ow(2) [OF Inr] only_file_trans by fastforce
      qed
    qed
  qed
qed

lemma write_each_ok:
  assumes "write_each p ds w = (r, w')"
  shows "only_file p w w' \<and> (r = None \<longrightarrow> (\<forall>f. w_files w p = Some f \<longrightarrow> w_files w' p = Some (f @ concat ds)))"
  using assms
proof (induction ds arbitrary: w)
  case Nil
  then show ?case by simp
next
  case (Cons d ds)
  obtain a w1 where a: "write_all p d w = (a, w1)" by (cases "write_all p d w")
  note wa = write_all_ok [OF a]
  show ?case
  proof (cases a)
    case (Some e)
    then show ?thesis using Cons.prems a wa by auto
  next
    case None
    then have "write_each p ds w1 = (r, w')" using Cons.prems a by simp
    from Cons.IH [OF this] wa None show ?thesis using only_file_trans by fastforce
  qed
qed

lemma os_replace_ok:
  assumes "os_replace src dst w = (r, w')"
  shows "w_mem w' = w_mem w \<and> (r \<noteq> None \<longrightarrow> w_files w' = w_files w) \<and>
    (r = None \<longrightarrow> (\<exists>f. w_files w src = Some f \<and> w_files w' = (w_files w)(dst \<mapsto> f, src := None)))"
  using assms by (auto simp: os_replace_def dest!: os_call_fields
      split: prod.splits option.splits os.splits)

lemma os_remove_ok:
  assumes "os_remove p w = (r, w')"
  shows "only_file p w w' \<and> (r = None \<longrightarrow> w_files w' p = None)"
  using assms by (auto simp: os_remove_def only_file_def dest!: os_call_fields
      split: prod.splits option.splits os.splits if_splits)

lemma abandon_ok:
  assumes "abandon quiet tmp e w = (r, w')"
  shows "only_file tmp w w' \<and> (\<exists>e'. r = Inl e')"
  using assms os_remove_ok [of tmp w] by (auto simp: abandon_def split: prod.splits option.splits)

text \<open>
  Publishing is atomic for every reader of \<open>path\<close>: the file there is untouched until the complete one
  replaces it in a single step, and nothing else but the temporary file is touched at all.
\<close>

lemma publish_atomic:
  assumes "publish quiet tmp path body x w = (r, w')" and "tmp \<noteq> path"
    and body: "\<And>b w1. body w = (b, w1) \<Longrightarrow> only_file tmp w w1 \<and> (b = None \<longrightarrow> w_files w1 tmp = Some c)"
  shows "w_mem w' = w_mem w \<and> (\<forall>q. q \<noteq> tmp \<longrightarrow> q \<noteq> path \<longrightarrow> w_files w' q = w_files w q) \<and>
    (case r of Inr y \<Rightarrow> y = x \<and> w_files w' path = Some c \<and> w_files w' tmp = None
             | Inl e \<Rightarrow> w_files w' path = w_files w path)"
proof -
  obtain b w1 where b: "body w = (b, w1)" by (cases "body w")
  note bo = body [OF b]
  show ?thesis
  proof (cases b)
    case (Some e)
    then have "abandon quiet tmp e w1 = (r, w')" using assms(1) b by (simp add: publish_def)
    from abandon_ok [OF this] bo assms(2) show ?thesis by (auto simp: only_file_def)
  next
    case None
    obtain b2 w2 where b2: "os_replace tmp path w1 = (b2, w2)" by (cases "os_replace tmp path w1")
    note ro = os_replace_ok [OF b2]
    show ?thesis
    proof (cases b2)
      case (Some e)
      then have "abandon quiet tmp e w2 = (r, w')" using assms(1) b None b2 by (simp add: publish_def)
      from abandon_ok [OF this] bo ro Some assms(2) show ?thesis by (auto simp: only_file_def)
    next
      case n2: None
      then have "r = Inr x" "w' = w2" using assms(1) b None b2 by (simp_all add: publish_def)
      then show ?thesis using bo ro n2 None assms(2) by (auto simp: only_file_def)
    qed
  qed
qed

end
