(* ===== verification/Xds_Sidecar.thy ===== *)
theory Xds_Sidecar
  imports Py_Hash Hcu_Prelude
begin

text \<open>
  The metadata sidecar of the legacy XDS files (\<^verbatim>\<open>pack_metadata\<close>, \<^verbatim>\<open>unpack_metadata\<close> and the size
  checks of \<^verbatim>\<open>_read_metadata\<close> in \<^verbatim>\<open>storage_backend/xds_backend.py\<close>): little-endian 64-bit words for
  version, data type, size, rank and shape. Data types are their names; \<^verbatim>\<open>torch.half\<close> and
  \<^verbatim>\<open>torch.double\<close> are the objects \<^verbatim>\<open>torch.float16\<close> and \<^verbatim>\<open>torch.float64\<close>.
\<close>

definition METADATA_MAX_SIZE :: nat where "METADATA_MAX_SIZE = 72"

definition METADATA_VERSION :: nat where "METADATA_VERSION = 1"

definition torch_dtypes :: "string list" where
  "torch_dtypes =
     [''float16'', ''float16'', ''bfloat16'', ''float32'', ''float32'', ''float64'', ''float64'',
      ''uint8'', ''float8_e4m3fn'', ''float8_e5m2'']"

text \<open>A dictionary built over the enumeration keeps the last index of an object that occurs twice.\<close>

definition dtype_to_idx :: "string \<Rightarrow> nat option" where
  "dtype_to_idx d = map_of (rev (zip torch_dtypes [0..<length torch_dtypes])) d"

definition fits_u64 :: "int \<Rightarrow> bool" where
  "fits_u64 x \<longleftrightarrow> 0 \<le> x \<and> x < 2 ^ 64"

definition pack_metadata :: "int list \<Rightarrow> string \<Rightarrow> int \<Rightarrow> bytes res" where
  "pack_metadata shape dtype n =
     (if METADATA_MAX_SIZE < 32 + 8 * length shape
        then Inl (ValueError ''Metadata size exceeds max size'')
      else case dtype_to_idx dtype of
        None \<Rightarrow> Inl (KeyError dtype)
      | Some idx \<Rightarrow>
          if \<not> fits_u64 n \<or> \<not> list_all fits_u64 shape then Inl StructError
          else Inr (concat (map (le_bytes 8)
            ([METADATA_VERSION, idx, nat n, length shape] @ map nat shape))))"

text \<open>
  Reading. \<open>word_at\<close> is the \<open>i\<close>th 64-bit word. The format string \<^verbatim>\<open>ndim * "Q"\<close> is built before anything
  is unpacked with it: a rank beyond an index raises \<^verbatim>\<open>OverflowError\<close>, one that needs a longer string
  than the interpreter can hold (\<open>memory\<close> characters) \<^verbatim>\<open>MemoryError\<close>; neither is a \<^verbatim>\<open>struct.error\<close>.
\<close>

definition word_at :: "bytes \<Rightarrow> nat \<Rightarrow> nat" where
  "word_at buf i = le_value (take 8 (drop (8 * i) buf))"

definition unpack_metadata :: "nat \<Rightarrow> bytes \<Rightarrow> (int list \<times> string \<times> int) res" where
  "unpack_metadata memory buf =
     (if length buf < 32 then Inl (UnsupportedMetadataVersion ''corrupt metadata'')
      else
        let version = word_at buf 0; dt_idx = word_at buf 1; n = word_at buf 2; ndim = word_at buf 3 in
        if version \<noteq> 1 then Inl (UnsupportedMetadataVersion ''Unsupported metadata version'')
        else if length torch_dtypes \<le> dt_idx then Inl (UnsupportedMetadataVersion ''bad dtype code'')
        else if 2 ^ 63 \<le> ndim then Inl OverflowError
        else if memory < ndim then Inl MemoryError
        else if length buf < 32 + 8 * ndim then Inl (UnsupportedMetadataVersion ''corrupt metadata'')
        else Inr (map (\<lambda>i. int (word_at buf (4 + i))) [0..<ndim], torch_dtypes ! dt_idx, int n))"

text \<open>
  The checks of \<^verbatim>\<open>_read_metadata\<close> before an entry is made: \<open>isize\<close> is \<^verbatim>\<open>dtype.itemsize\<close>, \<open>staged\<close> says
  whether an XDS buffer is configured, whose allocator aligns to 4 KiB.
\<close>

definition check_sidecar :: "(string \<Rightarrow> int) \<Rightarrow> bool \<Rightarrow> int list \<times> string \<times> int \<Rightarrow> exn option" where
  "check_sidecar isize staged info =
     (case info of (shape, dtype, n) \<Rightarrow>
        let raw = prod_list shape * isize dtype in
        if n < raw then Some (UnsupportedMetadataVersion ''metadata size < raw payload'')
        else if staged \<and> n \<noteq> (raw + 4096 - 1) div 4096 * 4096
          then Some (UnsupportedMetadataVersion ''metadata size != aligned'')
        else None)"

definition read_sidecar ::
    "nat \<Rightarrow> (string \<Rightarrow> int) \<Rightarrow> bool \<Rightarrow> bytes \<Rightarrow> (int list \<times> string \<times> int) res" where
  "read_sidecar memory isize staged file =
     (case unpack_metadata memory (take METADATA_MAX_SIZE file) of
        Inl e \<Rightarrow> Inl e
      | Inr info \<Rightarrow> (case check_sidecar isize staged info of Some e \<Rightarrow> Inl e | None \<Rightarrow> Inr info))"

text \<open>The exceptions that the startup scan catches around the reading of a sidecar.\<close>

fun scan_catches :: "exn \<Rightarrow> bool" where
  "scan_catches (UnsupportedMetadataVersion m) = True"
| "scan_catches e = False"

section \<open>Round trip\<close>

lemma word_at_concat:
  assumes "i < length ws" "ws ! i < 2 ^ 64"
  shows "word_at (concat (map (le_bytes 8) ws) @ rest) i = ws ! i"
proof -
  have d: "drop (8 * i) (concat (map (le_bytes 8) ws)) = concat (map (le_bytes 8) (drop i ws))"
    if "i \<le> length ws" for i and ws :: "nat list"
    using that
  proof (induction ws arbitrary: i)
    case Nil
    then show ?case by simp
  next
    case (Cons w ws)
    then show ?case by (cases i) simp_all
  qed
  have len: "length (concat (map (le_bytes 8) ws)) = 8 * length ws" for ws :: "nat list"
    by (induction ws) auto
  have "drop i ws = ws ! i # drop (Suc i) ws" using assms(1) by (rule Cons_nth_drop_Suc [symmetric])
  then have "take 8 (drop (8 * i) (concat (map (le_bytes 8) ws) @ rest)) = le_bytes 8 (ws ! i)"
    using assms(1) by (simp add: d len)
  moreover have "ws ! i < 256 ^ 8" using assms(2) by simp
  ultimately show ?thesis unfolding word_at_def by (simp only: le_value_le_bytes)
qed

lemma dtype_to_idx_ok:
  assumes "dtype_to_idx d = Some i"
  shows "i < length torch_dtypes" "torch_dtypes ! i = d"
proof -
  have "(d, i) \<in> set (zip torch_dtypes [0..<length torch_dtypes])"
    using map_of_SomeD [OF assms [unfolded dtype_to_idx_def]] by simp
  then show "i < length torch_dtypes" "torch_dtypes ! i = d" by (auto simp: set_zip)
qed

lemma pack_metadata_unpack:
  assumes "pack_metadata shape d n = Inr b" "5 \<le> memory"
  shows "unpack_metadata memory (b @ rest) = Inr (shape, d, n) \<and> length b \<le> METADATA_MAX_SIZE"
proof -
  obtain idx where idx: "dtype_to_idx d = Some idx"
    and n: "fits_u64 n" and s: "list_all fits_u64 shape" and l: "length shape \<le> 5"
    and b: "b = concat (map (le_bytes 8) ([METADATA_VERSION, idx, nat n, length shape] @ map nat shape))"
    using assms(1) by (auto simp: pack_metadata_def METADATA_MAX_SIZE_def split: if_splits option.splits)
  note i = dtype_to_idx_ok [OF idx]
  define ws where "ws = [METADATA_VERSION, idx, nat n, length shape] @ map nat shape"
  have lw: "length ws = 4 + length shape" by (simp add: ws_def)
  have lb: "length b = 32 + 8 * length shape"
    by (simp add: b ws_def [symmetric] length_concat sum_list_triv o_def lw)
  have idx10: "idx < 10" using i(1) by (simp add: torch_dtypes_def)
  have bounds: "w < 2 ^ 64" if "w \<in> set ws" for w
    using that n s l idx10 by (auto simp: ws_def METADATA_VERSION_def fits_u64_def list_all_iff)
  have w: "word_at (b @ rest) k = ws ! k" if "k < length ws" for k
    unfolding b ws_def [symmetric] using that bounds nth_mem [OF that] by (intro word_at_concat) auto
  have head: "word_at (b @ rest) 0 = 1" "word_at (b @ rest) 1 = idx" "word_at (b @ rest) 2 = nat n"
      "word_at (b @ rest) 3 = length shape"
    using w [of 0] w [of 1] w [of 2] w [of 3] by (simp_all add: lw ws_def METADATA_VERSION_def)
  have "map (\<lambda>i. int (word_at (b @ rest) (4 + i))) [0..<length shape] = shape"
  proof (rule nth_equalityI)
    fix k assume k: "k < length (map (\<lambda>i. int (word_at (b @ rest) (4 + i))) [0..<length shape])"
    then have "word_at (b @ rest) (4 + k) = nat (shape ! k)" using w [of "4 + k"] by (simp add: lw ws_def)
    moreover have "0 \<le> shape ! k" using s k by (simp add: list_all_length fits_u64_def)
    ultimately show "map (\<lambda>i. int (word_at (b @ rest) (4 + i))) [0..<length shape] ! k = shape ! k"
      using k by simp
  qed simp
  moreover have "0 \<le> n" using n by (simp add: fits_u64_def)
  ultimately show ?thesis
    using lb l assms(2) i unfolding unpack_metadata_def Let_def head by (simp add: METADATA_MAX_SIZE_def)
qed

text \<open>
  A sidecar that was written is read back as written: shape, data type and size survive, whatever
  follows them in the file, since the packed form always fits the 72 bytes that are read.
\<close>

theorem sidecar_roundtrip:
  assumes "pack_metadata shape d n = Inr b" "5 \<le> memory"
  shows "unpack_metadata memory (take METADATA_MAX_SIZE (b @ rest)) = Inr (shape, d, n)"
  using pack_metadata_unpack [OF assms, of "take (METADATA_MAX_SIZE - length b) rest"]
    pack_metadata_unpack [OF assms, of rest] by simp

lemma demo_pack: "\<exists>b. pack_metadata [2, 4, 256, 128] ''bfloat16'' 524288 = Inr b"
  by (auto simp: pack_metadata_def METADATA_MAX_SIZE_def dtype_to_idx_def torch_dtypes_def fits_u64_def
      upt_conv_Cons)

theorem sidecar_roundtrip_witness:
  "\<exists>b. pack_metadata [2, 4, 256, 128] ''bfloat16'' 524288 = Inr b \<and>
    unpack_metadata 100 (take METADATA_MAX_SIZE (b @ [7])) = Inr ([2, 4, 256, 128], ''bfloat16'', 524288)"
proof -
  obtain b where "pack_metadata [2, 4, 256, 128] ''bfloat16'' 524288 = Inr b" using demo_pack by blast
  moreover note sidecar_roundtrip [OF this, of 100 "[7]"]
  ultimately show ?thesis by simp
qed

lemma unpack_metadata_error:
  assumes "unpack_metadata memory buf = Inl e"
  shows "scan_catches e \<or>
    (32 \<le> length buf \<and> (2 ^ 63 \<le> word_at buf 3 \<or> memory < word_at buf 3) \<and> (e = OverflowError \<or> e = MemoryError))"
  using assms unfolding unpack_metadata_def Let_def by (auto split: if_split_asm)

lemma unpack_metadata_dtype:
  "unpack_metadata memory buf = Inr (shape, d, n) \<Longrightarrow> d \<in> set torch_dtypes"
  unfolding unpack_metadata_def Let_def by (auto split: if_splits)

lemma word_at_take: "32 \<le> k \<Longrightarrow> word_at (take k bs) 3 = word_at bs 3"
  by (simp add: word_at_def drop_take min_def)

lemma read_sidecar_error:
  assumes "read_sidecar memory isize staged file = Inl e"
  shows "scan_catches e \<or>
    (32 \<le> length file \<and> (2 ^ 63 \<le> word_at file 3 \<or> memory < word_at file 3) \<and> (e = OverflowError \<or> e = MemoryError))"
proof (cases "unpack_metadata memory (take METADATA_MAX_SIZE file)")
  case (Inl e')
  then show ?thesis using assms unpack_metadata_error [OF Inl] word_at_take [of METADATA_MAX_SIZE]
    by (auto simp: read_sidecar_def METADATA_MAX_SIZE_def)
next
  case (Inr info)
  then show ?thesis using assms
    by (auto simp: read_sidecar_def check_sidecar_def Let_def split: option.splits prod.splits if_splits)
qed

lemma read_sidecar_accepts:
  assumes "read_sidecar memory isize staged file = Inr (shape, d, n)"
  shows "d \<in> set torch_dtypes \<and> prod_list shape * isize d \<le> n \<and>
       (staged \<longrightarrow> n = (prod_list shape * isize d + 4095) div 4096 * 4096)"
proof (cases "unpack_metadata memory (take METADATA_MAX_SIZE file)")
  case (Inl e')
  then show ?thesis using assms by (simp add: read_sidecar_def)
next
  case (Inr info)
  then have i: "info = (shape, d, n)" "check_sidecar isize staged (shape, d, n) = None"
    using assms by (simp_all add: read_sidecar_def split: option.splits)
  then have "\<not> n < prod_list shape * isize d"
      "staged \<Longrightarrow> n = (prod_list shape * isize d + 4096 - 1) div 4096 * 4096"
    by (auto simp: check_sidecar_def Let_def split: if_splits)
  moreover have "d \<in> set torch_dtypes" using unpack_metadata_dtype Inr i(1) by blast
  ultimately show ?thesis by (simp add: add.commute)
qed

text \<open>
  A sidecar that cannot be read surfaces as \<^verbatim>\<open>UnsupportedMetadataVersion\<close>, the one exception the
  startup scan catches, as long as the rank it announces is one the interpreter can build a format
  string for; what is accepted has the payload its shape and data type ask for.
\<close>

theorem sidecar_checked:
  "case read_sidecar memory isize staged file of
     Inl e \<Rightarrow> scan_catches e \<or>
       (32 \<le> length file \<and> (2 ^ 63 \<le> word_at file 3 \<or> memory < word_at file 3) \<and> (e = OverflowError \<or> e = MemoryError))
   | Inr (shape, d, n) \<Rightarrow> d \<in> set torch_dtypes \<and> prod_list shape * isize d \<le> n \<and>
       (staged \<longrightarrow> n = (prod_list shape * isize d + 4095) div 4096 * 4096)"
proof (cases "read_sidecar memory isize staged file")
  case (Inl e)
  then show ?thesis using read_sidecar_error [OF Inl] by simp
next
  case (Inr info)
  obtain shape d n where i: "info = (shape, d, n)" by (cases info)
  then have "read_sidecar memory isize staged file = Inr (shape, d, n)" using Inr by simp
  from read_sidecar_accepts [OF this] show ?thesis by (simp add: Inr i)
qed

theorem sidecar_checked_witness:
  "\<exists>e. read_sidecar 1000 (\<lambda>_. 2) True [1, 0, 0] = Inl e \<and> scan_catches e"
proof -
  obtain e where e: "read_sidecar 1000 (\<lambda>_. 2) True [1, 0, 0] = Inl e"
    by (simp add: read_sidecar_def unpack_metadata_def METADATA_MAX_SIZE_def)
  with sidecar_checked [of "[1, 0, 0]" 1000 "\<lambda>_. 2" True] show ?thesis by simp
qed

text \<open>The exception to it: a sidecar that announces \<open>2 ^ 63\<close> dimensions raises \<^verbatim>\<open>OverflowError\<close>.\<close>

lemma sidecar_overflow:
  assumes "n < 2 ^ 64" "2 ^ 63 \<le> n"
  shows "unpack_metadata memory (concat (map (le_bytes 8) [1, 0, 0, n])) = Inl OverflowError"
proof -
  let ?ws = "[1, 0, 0, n]"
  let ?b = "concat (map (le_bytes 8) ?ws) @ []"
  have "word_at ?b 0 = 1" "word_at ?b 1 = 0" "word_at ?b 3 = n"
    using word_at_concat [of 0 ?ws "[]"] word_at_concat [of 1 ?ws "[]"] word_at_concat [of 3 ?ws "[]"] assms(1)
    by simp_all
  moreover have "length ?b = 32" by simp
  ultimately show ?thesis using assms(2) unfolding unpack_metadata_def Let_def append_Nil2
    by (simp add: torch_dtypes_def)
qed

end
