(* ===== verification/Xds_Files.thy ===== *)
theory Xds_Files
  imports Os_Files Disk_Header Xds_Sidecar
begin

text \<open>
  The cache files of the XDS backend (\<^verbatim>\<open>storage_backend/xds_backend.py\<close>): their names, and every
  way of writing and reading one from a memory object: through the storage interface (staged, legacy
  layout or block-first), through plain files, or from CPU memory. A tensor's elements are their
  bytes. The storage interface is an argument, so that the proofs rest on its contract alone.
\<close>

section \<open>File names\<close>

definition DATA_SUFFIX :: string where "DATA_SUFFIX = ''.kvdata''"
definition DATA_SUFFIX_TMP :: string where "DATA_SUFFIX_TMP = ''.KVDATA''"
definition METADATA_SUFFIX :: string where "METADATA_SUFFIX = ''.metadata''"
definition METADATA_SUFFIX_TMP :: string where "METADATA_SUFFIX_TMP = ''.METADATA''"
definition BLOCK_FIRST_SUFFIX :: string where "BLOCK_FIRST_SUFFIX = ''.block_first_v1.kvdata''"
definition BLOCK_FIRST_SUFFIX_TMP :: string where "BLOCK_FIRST_SUFFIX_TMP = ''.BLOCK_FIRST_V1_TMP''"

text \<open>\<^verbatim>\<open>s.replace(old, new)\<close> for a non-empty \<open>old\<close>.\<close>

function str_replace :: "string \<Rightarrow> string \<Rightarrow> string \<Rightarrow> string" where
  "str_replace old new s =
     (if old = [] \<or> s = [] then s
      else if take (length old) s = old then new @ str_replace old new (drop (length old) s)
      else hd s # str_replace old new (tl s))"
  by pat_completeness auto
termination by (relation "measure (\<lambda>(old, new, s). length s)") auto

declare str_replace.simps [simp del]

text \<open>
  \<^verbatim>\<open>_key_to_path\<close>: the hash of the key as text chooses two directory levels, the quoted key is the
  file name.
\<close>

definition key_to_path :: "string \<Rightarrow> string \<Rightarrow> string \<Rightarrow> bool \<Rightarrow> string" where
  "key_to_path root hash_str key_str block_first =
     path_join (path_join (path_join root (take 2 hash_str)) (take 2 (drop 2 hash_str)))
       (quote key_str @ (if block_first then BLOCK_FIRST_SUFFIX else DATA_SUFFIX))"

definition legacy_tmp :: "string \<Rightarrow> string" where
  "legacy_tmp path = str_replace DATA_SUFFIX DATA_SUFFIX_TMP path"

definition block_first_tmp :: "string \<Rightarrow> string" where
  "block_first_tmp path = path @ BLOCK_FIRST_SUFFIX_TMP"

lemma str_replace_fixed:
  assumes "str_replace old new s = s" "length old = length new" "old \<noteq> new" "old \<noteq> []"
  shows "take (length old) (drop i s) \<noteq> old"
  using assms(1)
proof (induction s arbitrary: i rule: length_induct)
  case (1 s)
  show ?case
  proof (cases "s = []")
    case True
    then show ?thesis using assms(4) by simp
  next
    case False
    have h: "take (length old) s \<noteq> old"
    proof
      assume t: "take (length old) s = old"
      then have "str_replace old new s = new @ str_replace old new (drop (length old) s)"
        using False assms(4) by (subst str_replace.simps) simp
      then have "take (length old) s = new"
        using 1(2) assms(2) by (metis append_eq_conv_conj)
      with t assms(3) show False by simp
    qed
    have "str_replace old new s = hd s # str_replace old new (tl s)"
      using h False assms(4) by (subst str_replace.simps) simp
    then have "str_replace old new (tl s) = tl s" using 1(2) False by (metis list.sel(3))
    then have "take (length old) (drop j (tl s)) \<noteq> old" for j using 1(1) False by simp
    then show ?thesis using h by (cases i) (auto simp: drop_Suc)
  qed
qed

lemma legacy_tmp_neq:
  assumes "ends_with path DATA_SUFFIX"
  shows "legacy_tmp path \<noteq> path"
proof
  assume "legacy_tmp path = path"
  from str_replace_fixed [OF this [unfolded legacy_tmp_def], of "length path - length DATA_SUFFIX"] assms
  show False by (auto simp: ends_with_def DATA_SUFFIX_def DATA_SUFFIX_TMP_def)
qed

lemma block_first_tmp_neq: "block_first_tmp path \<noteq> path"
  by (simp add: block_first_tmp_def BLOCK_FIRST_SUFFIX_TMP_def)

section \<open>Configuration and memory objects\<close>

text \<open>
  What the backend holds: its setup and the engine metadata. \<open>x_shapes\<close> and \<open>x_dtypes\<close> are
  \<^verbatim>\<open>metadata.get_shapes(chunk_size)\<close> and \<^verbatim>\<open>metadata.get_dtypes()\<close>.
\<close>

record 'd xds_cfg =
  x_torch :: "'d torch_api"
  x_root :: string
  x_chunk_size :: int
  x_block_size :: "int option"
  x_shapes :: "int list list"
  x_dtypes :: "'d list"
  x_model :: string
  x_world :: int
  x_worker :: int
  x_tp :: int
  x_pp :: int
  x_device :: torch_device
  x_block_first :: bool
  x_direct :: bool
  x_direct_store :: bool
  x_direct_retrieve :: bool
  x_cpu_store :: bool
  x_staged :: bool
  x_max_size :: "int option"
  x_store_pipeline :: bool
  x_retrieve_pipeline :: bool

type_synonym 'd chunk = "(bytes, 'd) tensor"

definition chunk_bytes :: "'d chunk \<Rightarrow> bytes" where
  "chunk_bytes t = concat (t_data t)"

text \<open>A chunk whose elements all have the size of its data type.\<close>

definition chunk_wf :: "'d torch_api \<Rightarrow> 'd chunk \<Rightarrow> bool" where
  "chunk_wf T t \<longleftrightarrow> tensor_wf t \<and> t_contiguous t \<and> 0 < itemsize T (t_dtype t) \<and>
     (\<forall>e \<in> set (t_data t). int (length e) = itemsize T (t_dtype t))"

definition dtype_label :: "'d torch_api \<Rightarrow> 'd \<Rightarrow> string" where
  "dtype_label T d = drop 6 (dtype_repr T d)"

definition make_block_first_metadata :: "'d xds_cfg \<Rightarrow> 'd chunk \<Rightarrow> disk_metadata res" where
  "make_block_first_metadata c t =
     (case x_block_size c of
        None \<Rightarrow> Inl (AssertionError ''block_size'')
      | Some bs \<Rightarrow> create (x_torch c) (t_shape t) (t_dtype t) bs (x_model c) (x_world c) (x_worker c)
                    (x_tp c) (x_pp c))"

definition use_block_first_for_tensor :: "'d xds_cfg \<Rightarrow> 'd chunk \<Rightarrow> bool res" where
  "use_block_first_for_tensor c t =
     (if \<not> x_block_first c then Inr False
      else if length (t_shape t) \<noteq> 4 \<or> t_shape t ! 0 \<noteq> 2
        then Inl (BlockFirstFormatError ''block_first_v1 source must use logical [2, NL, T, D] layout'')
      else Inr (t_shape t ! 2 = x_chunk_size c))"

section \<open>Legacy files\<close>

type_synonym storage_read = "string \<Rightarrow> int \<Rightarrow> int \<Rightarrow> int \<Rightarrow> int \<Rightarrow> world \<Rightarrow> int \<times> world"

text \<open>\<open>_save_xds\<close>: the tensor lies at \<open>addr + dev\<close> in device memory; \<open>n\<close> is its physical size.\<close>

definition save_xds_body :: "storage_read \<Rightarrow> string \<Rightarrow> int \<Rightarrow> int \<Rightarrow> int \<Rightarrow> world \<Rightarrow> exn option \<times> world" where
  "save_xds_body wr tmp addr n dev w =
     (case os_open_trunc tmp w of
        (Some e, w1) \<Rightarrow> (Some e, w1)
      | (None, w1) \<Rightarrow>
          (case wr tmp addr n 0 dev w1 of (ret, w2) \<Rightarrow>
            if ret < 0 then (Some (RuntimeError ''XDS write failed''), w2)
            else if ret \<noteq> n then (Some (RuntimeError ''XDS write incomplete''), w2)
            else (None, w2)))"

definition save_xds ::
    "storage_read \<Rightarrow> 'd torch_api \<Rightarrow> string \<Rightarrow> 'd chunk \<Rightarrow> int \<Rightarrow> int \<Rightarrow> int \<Rightarrow> world \<Rightarrow> bytes res \<times> world" where
  "save_xds wr T path t n addr dev w =
     (case pack_metadata (t_shape t) (dtype_label T (t_dtype t)) n of
        Inl e \<Rightarrow> (Inl e, w)
      | Inr meta \<Rightarrow>
          publish True (legacy_tmp path) path (save_xds_body wr (legacy_tmp path) addr n dev) meta w)"

definition load_xds :: "storage_read \<Rightarrow> string \<Rightarrow> int \<Rightarrow> int \<Rightarrow> int \<Rightarrow> int \<Rightarrow> world \<Rightarrow> int \<times> world" where
  "load_xds rd path fo addr n dev w = rd path addr n fo dev w"

text \<open>
  \<^verbatim>\<open>Posix.write\<close>. Unless the size is a multiple of the file system's block size the temporary file is
  truncated when it is opened; with \<^verbatim>\<open>O_DIRECT\<close> it is opened as it is, and written from its start.
\<close>

definition posix_body :: "int \<Rightarrow> string \<Rightarrow> int \<Rightarrow> bytes \<Rightarrow> world \<Rightarrow> exn option \<times> world" where
  "posix_body fs_block tmp n buffer w =
     (if n mod fs_block \<noteq> 0 then
        (case os_open_trunc tmp w of
           (Some e, w1) \<Rightarrow> (Some e, w1)
         | (None, w1) \<Rightarrow> py_write tmp buffer w1)
      else
        (case os_call w of
           (Some Os_raise, w1) \<Rightarrow> (Some (OSError ''open''), w1)
         | (_, w1) \<Rightarrow>
             let old = (case w_files w1 tmp of Some f \<Rightarrow> f | None \<Rightarrow> []) in
             (case os_call w1 of
                (Some Os_raise, w2) \<Rightarrow> (Some (OSError ''write''), put_content tmp (Some old) w2)
              | (a, w2) \<Rightarrow>
                  let k = (case a of Some (Os_count k) \<Rightarrow> min (nat k) (length buffer) | _ \<Rightarrow> length buffer);
                      w3 = put_content tmp (Some (put_file old 0 (take k buffer))) w2
                  in if int k \<noteq> n then (Some (OSError ''POSIX write incomplete''), w3) else (None, w3))))"

definition posix_write ::
    "int \<Rightarrow> 'd torch_api \<Rightarrow> string \<Rightarrow> 'd chunk \<Rightarrow> int \<Rightarrow> bytes \<Rightarrow> world \<Rightarrow> bytes res \<times> world" where
  "posix_write fs_block T path t n buffer w =
     (if int (length buffer) \<noteq> n then (Inl (AssertionError ''buffer''), w)
      else case pack_metadata (t_shape t) (dtype_label T (t_dtype t)) n of
        Inl e \<Rightarrow> (Inl e, w)
      | Inr meta \<Rightarrow>
          publish True (legacy_tmp path) path (posix_body fs_block (legacy_tmp path) n buffer) meta w)"

text \<open>\<^verbatim>\<open>Posix.read\<close> into a buffer of \<open>n\<close> bytes: how many bytes were read, and them.\<close>

definition posix_read :: "string \<Rightarrow> int \<Rightarrow> world \<Rightarrow> int \<times> bytes" where
  "posix_read path n w =
     (case w_files w path of
        None \<Rightarrow> (- 1, [])
      | Some f \<Rightarrow> (int (min (length f) (nat n)), take (nat n) f))"

text \<open>
  \<open>_save_cpu_xds\<close>: \<open>buffer\<close> is the memory object's byte array, \<open>raw\<close> its logical size.
\<close>

definition save_cpu_body :: "string \<Rightarrow> bytes \<Rightarrow> int \<Rightarrow> int \<Rightarrow> world \<Rightarrow> exn option \<times> world" where
  "save_cpu_body tmp buffer raw physical w =
     (case os_open_trunc tmp w of
        (Some e, w1) \<Rightarrow> (Some e, w1)
      | (None, w1) \<Rightarrow>
          (case write_each tmp [buffer, replicate (nat (physical - raw)) 0] w1 of
             (Some e, w2) \<Rightarrow> (Some e, w2)
           | (None, w2) \<Rightarrow>
               if file_size tmp w2 \<noteq> physical then (Some (OSError ''CPU XDS file size''), w2)
               else (None, w2)))"

definition save_cpu_xds ::
    "'d torch_api \<Rightarrow> string \<Rightarrow> 'd chunk \<Rightarrow> int \<Rightarrow> bytes \<Rightarrow> world \<Rightarrow> bytes res \<times> world" where
  "save_cpu_xds T path t raw buffer w =
     (if dev_type (t_device t) \<noteq> ''cpu'' then (Inl (ValueError ''xds_cpu_store requires a CPU MemoryObj''), w)
      else case align_up raw BLOCK_FIRST_ALIGNMENT of
        Inl e \<Rightarrow> (Inl e, w)
      | Inr physical \<Rightarrow>
          if int (length buffer) \<noteq> raw then (Inl (RuntimeError ''CPU MemoryObj byte size''), w)
          else case pack_metadata (t_shape t) (dtype_label T (t_dtype t)) physical of
            Inl e \<Rightarrow> (Inl e, w)
          | Inr meta \<Rightarrow>
              publish False (legacy_tmp path) path (save_cpu_body (legacy_tmp path) buffer raw physical) meta w)"

text \<open>\<^verbatim>\<open>save_metadata\<close>: the sidecar, under the data path's temporary name and then beside the data.\<close>

definition save_sidecar :: "string \<Rightarrow> bytes \<Rightarrow> world \<Rightarrow> exn option \<times> world" where
  "save_sidecar path metadata w =
     (let tmp = legacy_tmp path @ METADATA_SUFFIX_TMP in
      case os_open_trunc tmp w of
        (Some e, w1) \<Rightarrow> (Some e, w1)
      | (None, w1) \<Rightarrow>
          (case py_write tmp metadata w1 of
             (Some e, w2) \<Rightarrow> (Some e, w2)
           | (None, w2) \<Rightarrow> os_replace tmp (path @ METADATA_SUFFIX) w2))"

section \<open>Block-first files\<close>

text \<open>
  The staging buffer: a registered allocation of \<open>st_nbytes\<close> bytes at \<open>st_base\<close>, in which a tensor of
  the payload shape lies at offset \<open>st_address\<close>.
\<close>

record 'd staging =
  st_base :: int
  st_nbytes :: int
  st_address :: int
  st_shape :: "int list"
  st_dtype :: 'd
  st_device :: torch_device

definition zero_mem :: "int \<Rightarrow> int \<Rightarrow> world \<Rightarrow> world" where
  "zero_mem a n w = w\<lparr>w_mem := put_mem a n [] 0 (w_mem w)\<rparr>"

definition store_mem :: "int \<Rightarrow> bytes \<Rightarrow> world \<Rightarrow> world" where
  "store_mem a bs w = w\<lparr>w_mem := put_mem a (int (length bs)) bs 0 (w_mem w)\<rparr>"

definition staging_tensor :: "'d staging \<Rightarrow> bytes list \<Rightarrow> 'd chunk" where
  "staging_tensor st data =
     \<lparr>t_shape = st_shape st, t_data = data, t_contiguous = True, t_dtype = st_dtype st, t_device = st_device st\<rparr>"

text \<open>
  \<open>_save_block_first_xds\<close>. The zeroing covers the padding of the last 4 KiB page; the header is written
  first, so that the storage interface writes behind it.
\<close>

definition block_first_body ::
    "storage_read \<Rightarrow> string \<Rightarrow> bytes \<Rightarrow> int \<Rightarrow> int \<Rightarrow> int \<Rightarrow> world \<Rightarrow> exn option \<times> world" where
  "block_first_body wr tmp header io_nbytes addr dev w =
     (case os_open_trunc tmp w of
        (Some e, w1) \<Rightarrow> (Some e, w1)
      | (None, w1) \<Rightarrow>
          (case py_write tmp header w1 of
             (Some e, w2) \<Rightarrow> (Some e, w2)
           | (None, w2) \<Rightarrow>
               (case wr tmp addr io_nbytes BLOCK_FIRST_HEADER_SIZE dev w2 of (ret, w3) \<Rightarrow>
                 if ret \<noteq> io_nbytes then (Some (RuntimeError ''block-first XDS write incomplete''), w3)
                 else if file_size tmp w3 \<noteq> BLOCK_FIRST_HEADER_SIZE + io_nbytes
                   then (Some (RuntimeError ''block-first file size''), w3)
                 else (None, w3))))"

definition save_block_first_xds ::
    "storage_read \<Rightarrow> 'd xds_cfg \<Rightarrow> 'd staging option \<Rightarrow> string \<Rightarrow> 'd chunk \<Rightarrow> world \<Rightarrow>
     disk_metadata res \<times> world" where
  "save_block_first_xds wr c staging path t w =
     (case make_block_first_metadata c t of
        Inl e \<Rightarrow> (Inl e, w)
      | Inr m \<Rightarrow>
          (case pack_block_first_header (x_torch c) m of
             Inl e \<Rightarrow> (Inl e, w)
           | Inr header \<Rightarrow>
               (case staging of
                  None \<Rightarrow> (Inl (RuntimeError ''block_first_v1 staging buffer is unavailable''), w)
                | Some st \<Rightarrow>
                    if st_shape st \<noteq> m_payload_shape m
                      then (Inl (BlockFirstFormatError ''block-first staging shape''), w)
                    else
                      let tmp = block_first_tmp path;
                          w1 = zero_mem (st_base st) (st_nbytes st) w
                      in (case logical_to_block_first t (m_block_size m) (Some (staging_tensor st [])) of
                            Inl e \<Rightarrow> abandon False tmp e w1
                          | Inr p \<Rightarrow>
                              publish False tmp path
                                (block_first_body wr tmp header (m_io_nbytes m) (st_base st) (st_address st))
                                m (store_mem (st_base st + st_address st) (chunk_bytes p) w1)))))"

text \<open>
  \<open>_load_block_first_xds\<close>: the number that the storage interface returned, and the chunk when that was
  everything. The elements are cut out of the staging buffer.
\<close>

definition load_block_first_xds ::
    "storage_read \<Rightarrow> 'd xds_cfg \<Rightarrow> 'd staging option \<Rightarrow> string \<Rightarrow> disk_metadata \<Rightarrow> 'd chunk \<Rightarrow> world \<Rightarrow>
     (int \<times> 'd chunk) res \<times> world" where
  "load_block_first_xds rd c staging path m out w =
     (case w_files w path of
        None \<Rightarrow> (Inl (OSError ''No such file''), w)
      | Some f \<Rightarrow>
          (case unpack_block_first_header (x_torch c) (take (nat BLOCK_FIRST_HEADER_SIZE) f) of
             Inl e \<Rightarrow> (Inl e, w)
           | Inr current \<Rightarrow>
               if current \<noteq> m
                 then (Inl (BlockFirstFormatError ''block-first header changed after indexing''), w)
               else if int (length f) \<noteq> BLOCK_FIRST_HEADER_SIZE + m_io_nbytes m
                 then (Inl (BlockFirstFormatError ''block-first payload size changed after indexing''), w)
               else
                 (case staging of
                    None \<Rightarrow> (Inl (RuntimeError ''block_first_v1 staging buffer is unavailable''), w)
                  | Some st \<Rightarrow>
                      if st_shape st \<noteq> m_payload_shape m
                        then (Inl (BlockFirstFormatError ''block-first staging shape mismatch during load''), w)
                      else
                        (case load_xds rd path BLOCK_FIRST_HEADER_SIZE (st_base st) (m_io_nbytes m) (st_address st)
                            (zero_mem (st_base st) (st_nbytes st) w) of (ret, w1) \<Rightarrow>
                          if ret \<noteq> m_io_nbytes m then (Inr (ret, out), w1)
                          else
                            let isz = nat (itemsize (x_torch c) (st_dtype st));
                                n = prod_list (st_shape st) * int isz;
                                raw = mem_bytes (w_mem w1) (st_base st + st_address st) n
                            in (case block_first_to_logical (staging_tensor st (rows isz raw)) (Some out) of
                                  Inl e \<Rightarrow> (Inl e, w1)
                                | Inr t \<Rightarrow> (Inr (ret, t), w1))))))"

text \<open>
  \<open>_save_cpu_block_first_xds\<close>: the slices \<^verbatim>\<open>tensor[kv, layer, start:end]\<close> of the CPU tensor, in the
  order of the payload.
\<close>

definition source_slice :: "disk_metadata \<Rightarrow> bytes list \<Rightarrow> nat \<Rightarrow> nat \<Rightarrow> nat \<Rightarrow> bytes" where
  "source_slice m data block layer kv =
     (let nl = nat (m_num_layers m); t = nat (m_valid_tokens m); d = nat (m_hidden_dim m);
          bs = nat (m_block_size m); start = block * bs
      in concat (take (bs * d) (drop (((kv * nl + layer) * t + start) * d) data)))"

definition cpu_slices :: "disk_metadata \<Rightarrow> bytes list \<Rightarrow> bytes list" where
  "cpu_slices m data =
     concat (map (\<lambda>block. concat (map (\<lambda>layer. map (source_slice m data block layer) [0..<2])
       [0..<nat (m_num_layers m)])) [0..<nat (m_payload_shape m ! 0)])"

fun write_slices :: "string \<Rightarrow> int \<Rightarrow> bytes list \<Rightarrow> world \<Rightarrow> exn option \<times> world" where
  "write_slices tmp expected [] w = (None, w)"
| "write_slices tmp expected (s # ss) w =
     (if int (length s) \<noteq> expected
        then (Some (BlockFirstFormatError ''CPU block-first source slice has unexpected size''), w)
      else case write_all tmp s w of
        (Some e, w1) \<Rightarrow> (Some e, w1)
      | (None, w1) \<Rightarrow> write_slices tmp expected ss w1)"

definition cpu_block_first_body ::
    "string \<Rightarrow> bytes \<Rightarrow> disk_metadata \<Rightarrow> int \<Rightarrow> bytes list \<Rightarrow> world \<Rightarrow> exn option \<times> world" where
  "cpu_block_first_body tmp header m element_bytes data w =
     (case os_open_trunc tmp w of
        (Some e, w1) \<Rightarrow> (Some e, w1)
      | (None, w1) \<Rightarrow>
          (case write_all tmp header w1 of
             (Some e, w2) \<Rightarrow> (Some e, w2)
           | (None, w2) \<Rightarrow>
               (case write_slices tmp (m_block_size m * m_hidden_dim m * element_bytes) (cpu_slices m data) w2 of
                  (Some e, w3) \<Rightarrow> (Some e, w3)
                | (None, w3) \<Rightarrow>
                    (case write_all tmp (replicate (nat (m_io_nbytes m - m_payload_nbytes m)) 0) w3 of
                       (Some e, w4) \<Rightarrow> (Some e, w4)
                     | (None, w4) \<Rightarrow>
                         if file_size tmp w4 \<noteq> BLOCK_FIRST_HEADER_SIZE + m_io_nbytes m
                           then (Some (OSError ''CPU block-first file size''), w4)
                         else (None, w4)))))"

definition save_cpu_block_first_xds ::
    "'d xds_cfg \<Rightarrow> string \<Rightarrow> 'd chunk \<Rightarrow> world \<Rightarrow> disk_metadata res \<times> world" where
  "save_cpu_block_first_xds c path t w =
     (if dev_type (t_device t) \<noteq> ''cpu''
        then (Inl (ValueError ''CPU block-first store requires a CPU MemoryObj''), w)
      else if \<not> t_contiguous t
        then (Inl (BlockFirstFormatError ''CPU block-first source must be contiguous''), w)
      else case make_block_first_metadata c t of
        Inl e \<Rightarrow> (Inl e, w)
      | Inr m \<Rightarrow>
          (case pack_block_first_header (x_torch c) m of
             Inl e \<Rightarrow> (Inl e, w)
           | Inr header \<Rightarrow>
               publish False (block_first_tmp path) path
                 (cpu_block_first_body (block_first_tmp path) header m (itemsize (x_torch c) (t_dtype t))
                   (t_data t)) m w))"

section \<open>What the files hold\<close>

definition payload_bytes :: "disk_metadata \<Rightarrow> bytes list \<Rightarrow> bytes" where
  "payload_bytes m data = concat (permute_view 2 (nat (m_num_layers m)) (nat (m_payload_shape m ! 0))
     (nat (m_block_size m)) (nat (m_hidden_dim m)) data)"

definition block_first_file :: "bytes \<Rightarrow> disk_metadata \<Rightarrow> bytes list \<Rightarrow> bytes" where
  "block_first_file header m data =
     header @ payload_bytes m data @ replicate (nat (m_io_nbytes m - m_payload_nbytes m)) 0"

lemma concat_enum: "concat (enum n f) = enum n (\<lambda>i. concat (f i))"
proof -
  have "concat (concat (map f ks)) = concat (map (\<lambda>i. concat (f i)) ks)" for ks
    by (induction ks) auto
  then show ?thesis by (simp add: enum_def)
qed

lemma enum_slice:
  assumes "s + n * d \<le> length xs"
  shows "enum n (\<lambda>i. map (\<lambda>j. xs ! (s + (i * d + j))) [0..<d]) = take (n * d) (drop s xs)"
  unfolding enum_flatten [of n "\<lambda>r. xs ! (s + r)" d]
  using assms by (intro nth_equalityI) auto

lemma cpu_slices_payload:
  assumes len: "length data = 2 * nl * (nb * bs) * d"
    and m: "m_num_layers m = int nl" "m_valid_tokens m = int (nb * bs)" "m_hidden_dim m = int d"
      "m_block_size m = int bs" "m_payload_shape m ! 0 = int nb"
  shows "concat (cpu_slices m data) = payload_bytes m data"
proof -
  let ?s = "\<lambda>k l b. take (bs * d) (drop (((k * nl + l) * nb + b) * bs * d) data)"
  have bound: "((k * nl + l) * nb + b) * bs * d + bs * d \<le> length data" if "k < 2" "l < nl" "b < nb" for k l b
  proof -
    have "k * nl + l + 1 \<le> 2 * nl" using that(1,2) by (cases k) auto
    then have "(k * nl + l) * nb + b + 1 \<le> 2 * nl * nb"
      using that(3) mult_le_mono1 [of "k * nl + l + 1" "2 * nl" nb] by (simp add: algebra_simps)
    then have "((k * nl + l) * nb + b + 1) * (bs * d) \<le> 2 * nl * nb * (bs * d)" by (rule mult_le_mono1)
    then show ?thesis by (simp add: len algebra_simps)
  qed
  have inner: "enum bs (\<lambda>i4. map (\<lambda>i5. data ! index5 nl nb bs d k l b i4 i5) [0..<d]) = ?s k l b"
    if "k < 2" "l < nl" "b < nb" for k l b
  proof -
    have "index5 nl nb bs d k l b i4 i5 = ((k * nl + l) * nb + b) * bs * d + (i4 * d + i5)" for i4 i5
      by (simp add: index5_def algebra_simps)
    then show ?thesis using enum_slice [OF bound [OF that]] by (simp only:)
  qed
  have pb: "payload_bytes m data = enum nb (\<lambda>b. enum nl (\<lambda>l. enum 2 (\<lambda>k. concat (?s k l b))))"
    unfolding payload_bytes_def permute_view_def m nat_int
    by (subst concat_enum, intro enum_cong refl, subst concat_enum, intro enum_cong refl, subst concat_enum,
        intro enum_cong refl) (simp only: inner)
  have sl: "source_slice m data b l k = concat (?s k l b)" for b l k
    unfolding source_slice_def m nat_int Let_def by (simp only: algebra_simps)
  have sl': "source_slice m data b l = (\<lambda>k. concat (?s k l b))" for b l
    by (rule ext) (rule sl)
  have "concat (cpu_slices m data) = enum nb (\<lambda>b. enum nl (\<lambda>l. enum 2 (source_slice m data b l)))"
    unfolding cpu_slices_def m nat_int enum_def [symmetric] by (simp only: concat_enum enum_def [of 2])
  then have "concat (cpu_slices m data) = enum nb (\<lambda>b. enum nl (\<lambda>l. enum 2 (\<lambda>k. concat (?s k l b))))"
    by (simp only: sl')
  with pb show ?thesis by simp
qed

lemma packed_header:
  assumes "pack_block_first_header T m = Inr h"
  shows "length h = 4096 \<and> unpack_block_first_header T (h @ rest) = Inr m \<and> validate T m = None"
proof -
  have v: "validate T m = None" and l: "length (header_payload m) \<le> 4080"
    using assms by (auto simp: pack_block_first_header_def Let_def BLOCK_FIRST_HEADER_SIZE_def
        split: option.splits if_splits)
  from unpack_packed [OF v l, of rest] assms v show ?thesis by auto
qed

lemma made_metadata:
  assumes "make_block_first_metadata c t = Inr m" and "tensor_wf t"
  obtains nl nb bs d where "t_shape t = [2, int nl, int (nb * bs), int d]"
    "m_num_layers m = int nl" "m_valid_tokens m = int (nb * bs)" "m_hidden_dim m = int d"
    "m_block_size m = int bs" "m_payload_shape m = [int nb, int nl, 2, int bs, int d]"
    "block_first_shape (t_shape t) (int bs) = Inr (m_payload_shape m)"
    "length (t_data t) = 2 * nl * (nb * bs) * d"
    "m_payload_nbytes m = int (length (t_data t)) * itemsize (x_torch c) (t_dtype t)"
    "0 \<le> m_payload_nbytes m" "m_payload_nbytes m \<le> m_io_nbytes m"
proof -
  obtain bs where bs: "x_block_size c = Some bs" and cr: "create (x_torch c) (t_shape t) (t_dtype t) bs
      (x_model c) (x_world c) (x_worker c) (x_tp c) (x_pp c) = Inr m"
    using assms(1) by (auto simp: make_block_first_metadata_def split: option.splits)
  note f = create_fields [OF cr]
  have v: "block_first_shape (t_shape t) bs = Inr (m_payload_shape m)"
    "align_up (m_payload_nbytes m) BLOCK_FIRST_ALIGNMENT = Inr (m_io_nbytes m)"
    using f by (auto simp: validate_None_iff)
  obtain nl T d where sh: "t_shape t = [2, nl, T, d]" "0 < nl" "0 < T" "0 < d" "0 < bs" "bs dvd T"
      "m_payload_shape m = [T div bs, nl, 2, bs, d]"
    using v(1) by (auto simp: block_first_shape_Inr)
  have T: "T = int (nat (T div bs) * nat bs)" using sh by (auto simp: pos_imp_zdiv_nonneg_iff)
  have len: "int (length (t_data t)) = 2 * nl * T * d"
    using assms(2) sh(1) by (simp add: tensor_wf_def)
  then have "length (t_data t) = nat (2 * nl * T * d)" by linarith
  also have "\<dots> = 2 * nat nl * nat T * nat d" using sh by (simp add: nat_mult_distrib)
  also have "nat T = nat (T div bs) * nat bs" using T by (metis nat_int)
  finally have l: "length (t_data t) = 2 * nat nl * (nat (T div bs) * nat bs) * nat d" .
  have io: "m_io_nbytes m = (m_payload_nbytes m + 4096 - 1) div 4096 * 4096" and nn: "0 \<le> m_payload_nbytes m"
    using v(2) by (auto simp: align_up_Inr BLOCK_FIRST_ALIGNMENT_def)
  have "m_payload_nbytes m \<le> m_io_nbytes m" using ceil_mult_bounds(1) [of 4096 "m_payload_nbytes m"] io by simp
  then show ?thesis
    using that [of "nat nl" "nat (T div bs)" "nat bs" "nat d"] sh f v T l nn len
    by (simp add: pos_imp_zdiv_nonneg_iff)
qed

lemma length_concat_elems:
  assumes "\<forall>e \<in> set xs. int (length e) = n"
  shows "int (length (concat xs)) = int (length xs) * n"
  using assms by (induction xs) (auto simp: algebra_simps)

lemma set_permute_view:
  assumes "length xs = n1 * (n2 * (n3 * (n4 * n5)))"
  shows "set (permute_view n1 n2 n3 n4 n5 xs) \<subseteq> set xs"
proof
  fix x assume "x \<in> set (permute_view n1 n2 n3 n4 n5 xs)"
  then obtain i1 i2 i3 i4 i5 where i: "i1 < n1" "i2 < n2" "i3 < n3" "i4 < n4" "i5 < n5"
      and x: "x = xs ! index5 n2 n3 n4 n5 i1 i2 i3 i4 i5"
    by (auto simp: permute_view_def enum_def)
  have step: "a * n + b < m * n" if "a < m" "b < n" for a b m n :: nat
    using that by (metis add.commute add_less_cancel_left less_le_trans mult_Suc mult_le_mono1 Suc_leI)
  have "index5 n2 n3 n4 n5 i1 i2 i3 i4 i5 < n1 * n2 * n3 * n4 * n5"
    unfolding index5_def by (intro step i)
  then show "x \<in> set xs" using assms by (simp add: x algebra_simps)
qed

lemma length_payload_bytes:
  assumes "make_block_first_metadata c t = Inr m" and "chunk_wf (x_torch c) t"
  shows "int (length (payload_bytes m (t_data t))) = m_payload_nbytes m"
proof -
  have wf: "tensor_wf t" using assms(2) by (simp add: chunk_wf_def)
  from assms(1) wf show ?thesis
  proof (rule made_metadata)
    fix nl nb bs d
    assume f: "m_num_layers m = int nl" "m_hidden_dim m = int d" "m_block_size m = int bs"
      "m_payload_shape m = [int nb, int nl, 2, int bs, int d]"
      and l: "length (t_data t) = 2 * nl * (nb * bs) * d"
      and p: "m_payload_nbytes m = int (length (t_data t)) * itemsize (x_torch c) (t_dtype t)"
    let ?p = "permute_view 2 nl nb bs d (t_data t)"
    have "length (t_data t) = 2 * (nl * (nb * (bs * d)))" using l by (simp add: algebra_simps)
    from set_permute_view [OF this] have "\<forall>e \<in> set ?p. int (length e) = itemsize (x_torch c) (t_dtype t)"
      using assms(2) by (auto simp: chunk_wf_def)
    from length_concat_elems [OF this] show ?thesis
      by (simp add: payload_bytes_def f p l length_permute_view algebra_simps)
  qed
qed

lemma write_slices_ok:
  assumes "write_slices p n ss w = (r, w')"
  shows "only_file p w w' \<and> (r = None \<longrightarrow> (\<forall>f. w_files w p = Some f \<longrightarrow> w_files w' p = Some (f @ concat ss)))"
  using assms
proof (induction ss arbitrary: w)
  case Nil
  then show ?case by simp
next
  case (Cons s ss)
  obtain a w1 where a: "write_all p s w = (a, w1)" by (cases "write_all p s w")
  note wa = write_all_ok [OF a]
  show ?case
  proof (cases "int (length s) = n \<and> a = None")
    case True
    then have "write_slices p n ss w1 = (r, w')" using Cons.prems a by simp
    from Cons.IH [OF this] wa True show ?thesis using only_file_trans by fastforce
  next
    case False
    then show ?thesis using Cons.prems a wa by (auto split: if_splits option.splits)
  qed
qed

text \<open>A body made of steps on the temporary file.\<close>

lemma then_step:
  assumes "only_file p w w1" and "only_file p w1 w2"
  shows "only_file p w w2"
  using assms by (rule only_file_trans)

lemma save_cpu_body_ok:
  assumes "save_cpu_body tmp buffer raw physical w = (r, w')"
  shows "only_file tmp w w' \<and> (r = None \<longrightarrow> w_files w' tmp = Some (buffer @ replicate (nat (physical - raw)) 0))"
proof -
  obtain a w1 where a: "os_open_trunc tmp w = (a, w1)" by (cases "os_open_trunc tmp w")
  obtain b w2 where b: "write_each tmp [buffer, replicate (nat (physical - raw)) 0] w1 = (b, w2)"
    by (cases "write_each tmp [buffer, replicate (nat (physical - raw)) 0] w1")
  note o = os_open_trunc_ok [OF a] and e = write_each_ok [OF b]
  show ?thesis
    using assms a b o e by (auto simp: save_cpu_body_def intro: then_step split: option.splits if_splits)
qed

lemma cpu_block_first_body_ok:
  assumes "cpu_block_first_body tmp header m n data w = (r, w')"
  shows "only_file tmp w w' \<and> (r = None \<longrightarrow> w_files w' tmp =
    Some (header @ concat (cpu_slices m data) @ replicate (nat (m_io_nbytes m - m_payload_nbytes m)) 0))"
proof -
  let ?z = "replicate (nat (m_io_nbytes m - m_payload_nbytes m)) 0"
  let ?n = "m_block_size m * m_hidden_dim m * n"
  obtain a w1 where a: "os_open_trunc tmp w = (a, w1)" by (cases "os_open_trunc tmp w")
  obtain b w2 where b: "write_all tmp header w1 = (b, w2)" by (cases "write_all tmp header w1")
  obtain d w3 where d: "write_slices tmp ?n (cpu_slices m data) w2 = (d, w3)"
    by (cases "write_slices tmp ?n (cpu_slices m data) w2")
  obtain e w4 where e: "write_all tmp ?z w3 = (e, w4)" by (cases "write_all tmp ?z w3")
  note s = os_open_trunc_ok [OF a] write_all_ok [OF b] write_slices_ok [OF d] write_all_ok [OF e]
  have o: "only_file tmp w w1" "only_file tmp w w2" "only_file tmp w w3" "only_file tmp w w4"
    using s by (meson only_file_trans)+
  show ?thesis
  proof (cases "a = None \<and> b = None \<and> d = None \<and> e = None")
    case True
    then have "w' = w4" using assms a b d e by (auto simp: cpu_block_first_body_def split: if_splits)
    then show ?thesis using True s o by simp
  next
    case False
    then show ?thesis using assms a b d e o
      by (auto simp: cpu_block_first_body_def split: option.splits if_splits)
  qed
qed

lemma cpu_block_first_published:
  assumes run: "save_cpu_block_first_xds c path t w = (r, w')" and wf: "tensor_wf t"
  shows "w_mem w' = w_mem w \<and>
    (\<forall>q. q \<noteq> path \<longrightarrow> q \<noteq> block_first_tmp path \<longrightarrow> w_files w' q = w_files w q) \<and>
    (case r of
       Inl e \<Rightarrow> w_files w' path = w_files w path
     | Inr m \<Rightarrow> make_block_first_metadata c t = Inr m \<and> w_files w' (block_first_tmp path) = None \<and>
         (\<exists>header. pack_block_first_header (x_torch c) m = Inr header \<and>
            w_files w' path = Some (block_first_file header m (t_data t))))"
proof (cases "make_block_first_metadata c t")
  case (Inl e)
  have "\<exists>e. r = Inl e \<and> w' = w"
    using run by (auto simp: Inl save_cpu_block_first_xds_def split: if_splits)
  then show ?thesis by auto
next
  case (Inr m)
  show ?thesis
  proof (cases "pack_block_first_header (x_torch c) m")
    case (Inl e)
    then show ?thesis using run Inr by (auto simp: save_cpu_block_first_xds_def split: if_splits)
  next
    case h: (Inr header)
    let ?body = "cpu_block_first_body (block_first_tmp path) header m (itemsize (x_torch c) (t_dtype t)) (t_data t)"
    have cs: "concat (cpu_slices m (t_data t)) = payload_bytes m (t_data t)"
      using Inr wf by (rule made_metadata) (rule cpu_slices_payload, simp_all)
    show ?thesis
    proof (cases "dev_type (t_device t) = ''cpu'' \<and> t_contiguous t")
      case False
      then show ?thesis using run by (auto simp: save_cpu_block_first_xds_def split: if_splits)
    next
      case True
      then have "publish False (block_first_tmp path) path ?body m w = (r, w')"
        using run Inr h by (simp add: save_cpu_block_first_xds_def)
      from publish_atomic [OF this block_first_tmp_neq, of "block_first_file header m (t_data t)"]
      show ?thesis using h Inr cpu_block_first_body_ok cs
        by (fastforce simp: block_first_file_def split: sum.splits)
    qed
  qed
qed

section \<open>Device memory\<close>

lemma byte_at_nth: "0 \<le> i \<Longrightarrow> i < int (length f) \<Longrightarrow> byte_at f i = f ! nat i"
  by (simp add: byte_at_def)

lemma mem_bytes_put:
  assumes "0 \<le> k" "k \<le> n" "0 \<le> fo" "fo + k \<le> int (length f)"
  shows "mem_bytes (put_mem a n f fo mem) a k = take (nat k) (drop (nat fo) f)"
proof (rule nth_equalityI)
  show "length (mem_bytes (put_mem a n f fo mem) a k) = length (take (nat k) (drop (nat fo) f))"
    using assms by simp
next
  fix i assume "i < length (mem_bytes (put_mem a n f fo mem) a k)"
  then have i: "int i < k" by simp
  then have "nat (fo + int i) = nat fo + i" using assms(3) by (simp add: nat_add_distrib)
  then show "mem_bytes (put_mem a n f fo mem) a k ! i = take (nat k) (drop (nat fo) f) ! i"
    using i assms by (simp add: mem_bytes_def put_mem_def byte_at_nth nth_append)
qed

text \<open>A buffer that was zeroed and then filled from its start holds the data and zeros behind it.\<close>

lemma mem_bytes_staged:
  assumes "b \<le> a" "a + k \<le> b + n" "int (length bs) \<le> k"
  shows "mem_bytes (put_mem a (int (length bs)) bs 0 (put_mem b n [] 0 mem)) a k =
    bs @ replicate (nat (k - int (length bs))) 0"
  using assms by (intro nth_equalityI) (auto simp: mem_bytes_def put_mem_def byte_at_def nth_append)

lemma mem_rows_concat:
  assumes "0 < n" "\<forall>x \<in> set xs. length x = n"
  shows "rows n (concat xs) = xs"
  using assms(2)
proof (induction xs)
  case Nil
  then show ?case by simp
next
  case (Cons x xs)
  then have "x @ concat xs \<noteq> []" using assms(1) by auto
  then show ?case using Cons assms(1) by (simp add: rows_step)
qed

definition staging_fits :: "'d staging \<Rightarrow> disk_metadata \<Rightarrow> bool" where
  "staging_fits st m \<longleftrightarrow> 0 \<le> st_address st \<and> st_address st + m_io_nbytes m \<le> st_nbytes st"

section \<open>Staged block-first files\<close>

context storage_interface
begin

lemma block_first_body_ok:
  assumes run: "block_first_body wr tmp header n addr dev w = (r, w')"
    and "length header = 4096" "0 < n"
  shows "only_file tmp w w' \<and> (r = None \<longrightarrow> w_files w' tmp = Some (header @ mem_bytes (w_mem w) (addr + dev) n))"
proof -
  obtain a w1 where a: "os_open_trunc tmp w = (a, w1)" by (cases "os_open_trunc tmp w")
  obtain b w2 where b: "py_write tmp header w1 = (b, w2)" by (cases "py_write tmp header w1")
  obtain ret w3 where d: "wr tmp addr n 4096 dev w2 = (ret, w3)" by (cases "wr tmp addr n 4096 dev w2")
  have o1: "only_file tmp w w1" "a = None \<Longrightarrow> w_files w1 tmp = Some []" using os_open_trunc_ok [OF a] by auto
  have o2: "only_file tmp w w2" using py_write_ok(1) [OF b] o1(1) only_file_trans by blast
  have f2: "w_files w2 tmp = Some header" if "a = None" "b = None"
    using py_write_ok(2) [OF b that(2) o1(2) [OF that(1)]] by simp
  have "only_file tmp w2 w3" using write_mem [OF d] write_others [OF d] by (simp add: only_file_def)
  then have o3: "only_file tmp w w3" using o2 only_file_trans by blast
  have f3: "w_files w3 tmp = Some (header @ mem_bytes (w_mem w) (addr + dev) n)"
    if "a = None" "b = None" "ret = n"
  proof -
    have m2: "w_mem w2 = w_mem w" using o2 unfolding only_file_def by blast
    have h: "4096 = int (length header)" unfolding assms(2) by simp
    have o: "(if (4096::int) = 0 then Some [] else w_files w2 tmp) = Some header"
      unfolding f2 [OF that(1,2)] by simp
    have "wr tmp addr n 4096 dev w2 = (n, w3)" using d that(3) by blast
    from write_full [OF this assms(3) _ o h] show ?thesis unfolding m2 by simp
  qed
  show ?thesis
  proof (cases "a = None \<and> b = None \<and> ret = n")
    case True
    then have "w' = w3" using run a b d
      by (auto simp: block_first_body_def BLOCK_FIRST_HEADER_SIZE_def split: if_splits)
    then show ?thesis using True o3 f3 by simp
  next
    case False
    then have "r \<noteq> None \<and> w' \<in> {w1, w2, w3}" using run a b d
      by (simp add: block_first_body_def BLOCK_FIRST_HEADER_SIZE_def split: option.splits if_splits)
        auto
    then show ?thesis using o1(1) o2 o3 by auto
  qed
qed

lemma save_xds_body_ok:
  assumes run: "save_xds_body wr tmp addr n dev w = (r, w')" and "0 < n"
  shows "only_file tmp w w' \<and> (r = None \<longrightarrow> w_files w' tmp = Some (mem_bytes (w_mem w) (addr + dev) n))"
proof -
  obtain a w1 where a: "os_open_trunc tmp w = (a, w1)" by (cases "os_open_trunc tmp w")
  obtain ret w2 where d: "wr tmp addr n 0 dev w1 = (ret, w2)" by (cases "wr tmp addr n 0 dev w1")
  note o1 = os_open_trunc_ok [OF a]
  have "only_file tmp w1 w2" using write_mem [OF d] write_others [OF d] by (simp add: only_file_def)
  then have o2: "only_file tmp w w2" using o1 only_file_trans by blast
  have f2: "w_files w2 tmp = Some (mem_bytes (w_mem w) (addr + dev) n)" if "ret = n"
    using write_full [OF d [unfolded that] assms(2), of "[]"] o1 by (simp add: only_file_def)
  show ?thesis using run a d o1 o2 f2
    by (auto simp: save_xds_body_def split: option.splits if_splits)
qed

lemma block_first_published:
  assumes run: "save_block_first_xds wr c (Some st) path t w = (r, w')"
    and wf: "chunk_wf (x_torch c) t" and fits: "\<And>m. make_block_first_metadata c t = Inr m \<Longrightarrow> staging_fits st m \<and> 0 < m_io_nbytes m"
  shows "(\<forall>q. q \<noteq> path \<longrightarrow> q \<noteq> block_first_tmp path \<longrightarrow> w_files w' q = w_files w q) \<and>
    (case r of
       Inl e \<Rightarrow> w_files w' path = w_files w path
     | Inr m \<Rightarrow> make_block_first_metadata c t = Inr m \<and> w_files w' (block_first_tmp path) = None \<and>
         (\<exists>header. pack_block_first_header (x_torch c) m = Inr header \<and>
            w_files w' path = Some (block_first_file header m (t_data t))))"
proof (cases "make_block_first_metadata c t")
  case (Inl e)
  then have "r = Inl e" "w' = w" using run by (simp_all add: Inl save_block_first_xds_def)
  then show ?thesis by simp
next
  case (Inr m)
  show ?thesis
  proof (cases "pack_block_first_header (x_torch c) m")
    case (Inl e)
    then show ?thesis using run Inr by (auto simp: save_block_first_xds_def)
  next
    case h: (Inr header)
    show ?thesis
    proof (cases "st_shape st = m_payload_shape m")
      case False
      then show ?thesis using run Inr h by (auto simp: save_block_first_xds_def)
    next
      case shape: True
      let ?w1 = "zero_mem (st_base st) (st_nbytes st) w"
      show ?thesis
      proof (cases "logical_to_block_first t (m_block_size m) (Some (staging_tensor st []))")
        case (Inl e)
        then have "abandon False (block_first_tmp path) e ?w1 = (r, w')"
          using run Inr h shape by (simp add: save_block_first_xds_def Let_def)
        from abandon_ok [OF this] block_first_tmp_neq [of path] show ?thesis
          by (auto simp: only_file_def zero_mem_def)
      next
        case p: (Inr p)
        let ?w2 = "store_mem (st_base st + st_address st) (chunk_bytes p) ?w1"
        let ?body = "block_first_body wr (block_first_tmp path) header (m_io_nbytes m) (st_base st) (st_address st)"
        have pub: "publish False (block_first_tmp path) path ?body m ?w2 = (r, w')"
          using run Inr h shape p by (simp add: save_block_first_xds_def Let_def)
        have data: "chunk_bytes p = payload_bytes m (t_data t)"
          using Inr wf [unfolded chunk_wf_def, THEN conjunct1]
          by (rule made_metadata) (use p in \<open>auto simp: logical_to_block_first_def Let_def chunk_bytes_def
            payload_bytes_def staging_tensor_def split: if_splits\<close>)
        note len = length_payload_bytes [OF Inr wf]
        note fit = fits [OF Inr, unfolded staging_fits_def]
        have le: "m_payload_nbytes m \<le> m_io_nbytes m"
          using Inr wf [unfolded chunk_wf_def, THEN conjunct1] by (rule made_metadata)
        have mem: "mem_bytes (w_mem ?w2) (st_base st + st_address st) (m_io_nbytes m) =
            payload_bytes m (t_data t) @ replicate (nat (m_io_nbytes m - m_payload_nbytes m)) 0"
          using fit len le mem_bytes_staged [of "st_base st" "st_base st + st_address st" "m_io_nbytes m"
              "st_nbytes st" "payload_bytes m (t_data t)" "w_mem w"]
          by (simp add: zero_mem_def store_mem_def data)
        have hl: "length header = 4096" using packed_header [OF h] by blast
        have "only_file (block_first_tmp path) ?w2 w1 \<and>
            (b = None \<longrightarrow> w_files w1 (block_first_tmp path) = Some (block_first_file header m (t_data t)))"
          if "?body ?w2 = (b, w1)" for b w1
          using block_first_body_ok [OF that hl] fit by (simp add: mem block_first_file_def)
        note pa = publish_atomic [OF pub block_first_tmp_neq this]
        have fw: "w_files ?w2 = w_files w" by (simp add: zero_mem_def store_mem_def)
        show ?thesis using h Inr pa unfolding fw by (cases r) simp_all
      qed
    qed
  qed
qed

lemma load_block_first_content:
  assumes run: "load_block_first_xds rd c (Some st) path m out w = (Inr (m_io_nbytes m, t'), w')"
    and fl: "w_files w path = Some (block_first_file header m (t_data t))"
    and m: "make_block_first_metadata c t = Inr m" and wf: "chunk_wf (x_torch c) t"
    and h: "pack_block_first_header (x_torch c) m = Inr header"
    and dt: "st_dtype st = t_dtype t"
  shows "t_data t' = t_data t \<and> t_shape t' = t_shape t \<and> w_files w' = w_files w"
  using m wf [unfolded chunk_wf_def, THEN conjunct1]
proof (rule made_metadata)
  fix nl nb bs d
  assume sh: "t_shape t = [2, int nl, int (nb * bs), int d]"
    and mf: "m_num_layers m = int nl" "m_hidden_dim m = int d" "m_block_size m = int bs"
      "m_payload_shape m = [int nb, int nl, 2, int bs, int d]"
    and len: "length (t_data t) = 2 * nl * (nb * bs) * d"
    and pay: "m_payload_nbytes m = int (length (t_data t)) * itemsize (x_torch c) (t_dtype t)"
    and le: "0 \<le> m_payload_nbytes m" "m_payload_nbytes m \<le> m_io_nbytes m"
  let ?isz = "itemsize (x_torch c) (t_dtype t)"
  let ?f = "block_first_file header m (t_data t)"
  let ?perm = "permute_view 2 nl nb bs d (t_data t)"
  have hl: "length header = 4096" and up: "unpack_block_first_header (x_torch c) header = Inr m"
    using packed_header [OF h, of "[]"] by auto
  have isz: "0 < ?isz" using wf by (simp add: chunk_wf_def)
  have tk: "take 4096 ?f = header" using hl by (simp add: block_first_file_def)
  have shape: "st_shape st = m_payload_shape m"
    using run fl tk up by (auto simp: load_block_first_xds_def BLOCK_FIRST_HEADER_SIZE_def split: if_splits)
  obtain ret w1 where r: "rd path (st_base st) (m_io_nbytes m) 4096 (st_address st)
      (zero_mem (st_base st) (st_nbytes st) w) = (ret, w1)"
    by (cases "rd path (st_base st) (m_io_nbytes m) 4096 (st_address st) (zero_mem (st_base st) (st_nbytes st) w)")
  let ?n = "prod_list (st_shape st) * int (nat ?isz)"
  let ?raw = "mem_bytes (w_mem w1) (st_base st + st_address st) ?n"
  have ret: "ret = m_io_nbytes m"
    using run fl tk up shape r
    by (auto simp: load_block_first_xds_def load_xds_def BLOCK_FIRST_HEADER_SIZE_def Let_def
        split: if_splits sum.splits)
  then have t': "block_first_to_logical (staging_tensor st (rows (nat ?isz) ?raw)) (Some out) = Inr t'"
    and w': "w' = w1"
    using run fl tk up shape r dt
    by (auto simp: load_block_first_xds_def load_xds_def BLOCK_FIRST_HEADER_SIZE_def Let_def
        split: if_splits sum.splits)
  have fz: "w_files (zero_mem (st_base st) (st_nbytes st) w) = w_files w" by (simp add: zero_mem_def)
  have io0: "0 \<le> m_io_nbytes m" using le by simp
  have mem: "w_mem w1 = put_mem (st_base st + st_address st) (m_io_nbytes m) ?f 4096
      (w_mem (zero_mem (st_base st) (st_nbytes st) w))"
    using read_full [OF r [unfolded ret] io0, of ?f] fl fz by simp
  have n: "?n = m_payload_nbytes m"
    using isz by (simp add: shape mf pay len algebra_simps)
  have lp: "int (length (payload_bytes m (t_data t))) = m_payload_nbytes m"
    by (rule length_payload_bytes [OF m wf])
  have "?raw = take (nat (m_payload_nbytes m)) (drop 4096 ?f)"
    unfolding mem n using le hl lp
    by (subst mem_bytes_put) (simp_all add: block_first_file_def)
  also have "\<dots> = payload_bytes m (t_data t)" using hl lp by (simp add: block_first_file_def)
  also have "\<dots> = concat ?perm" by (simp add: payload_bytes_def mf)
  finally have raw: "?raw = concat ?perm" .
  have len': "length (t_data t) = 2 * (nl * (nb * (bs * d)))" using len by (simp add: algebra_simps)
  have "length e = nat ?isz" if "e \<in> set (t_data t)" for e
    using wf that unfolding chunk_wf_def by (metis nat_int)
  then have "\<forall>e \<in> set ?perm. length e = nat ?isz" using set_permute_view [OF len'] by blast
  then have rw: "rows (nat ?isz) ?raw = ?perm" unfolding raw using isz by (intro mem_rows_concat) auto
  have "t_data t' = permute_view nb nl 2 bs d ?perm \<and> t_shape t' = t_shape t"
    using t' unfolding rw by (auto simp: block_first_to_logical_def staging_tensor_def shape mf sh Let_def
        split: if_splits)
  moreover have "permute_view nb nl 2 bs d ?perm = t_data t" by (rule permute_view_inverse [OF len'])
  moreover have "w_files w' = w_files w" using read_files [OF r] fz w' by simp
  ultimately show ?thesis by simp
qed

lemma legacy_published:
  assumes run: "save_xds wr T path t n addr dev w = (r, w')" and "0 < n" and "ends_with path DATA_SUFFIX"
  shows "w_mem w' = w_mem w \<and> (\<forall>q. q \<noteq> path \<longrightarrow> q \<noteq> legacy_tmp path \<longrightarrow> w_files w' q = w_files w q) \<and>
    (case r of
       Inl e \<Rightarrow> w_files w' path = w_files w path
     | Inr meta \<Rightarrow> pack_metadata (t_shape t) (dtype_label T (t_dtype t)) n = Inr meta \<and>
         w_files w' path = Some (mem_bytes (w_mem w) (addr + dev) n))"
proof (cases "pack_metadata (t_shape t) (dtype_label T (t_dtype t)) n")
  case (Inl e)
  then have "r = Inl e" "w' = w" using run by (simp_all add: Inl save_xds_def)
  then show ?thesis by simp
next
  case (Inr meta)
  then have pub: "publish True (legacy_tmp path) path (save_xds_body wr (legacy_tmp path) addr n dev) meta w = (r, w')"
    using run by (simp add: save_xds_def)
  note pa = publish_atomic [OF pub legacy_tmp_neq [OF assms(3)] save_xds_body_ok [OF _ assms(2)]]
  show ?thesis using pa Inr by (cases r) simp_all
qed

end

section \<open>Runs in which every call succeeds\<close>

definition quiet_world :: "world \<Rightarrow> bool" where
  "quiet_world w \<longleftrightarrow> w_os w = [] \<and> w_dma w = []"

lemma quiet_simps:
  "quiet_world w \<Longrightarrow> os_call w = (None, w)" "quiet_world w \<Longrightarrow> next_dma n w = (Dma_count n, w)"
  "quiet_world (put_content p c w) = quiet_world w" "quiet_world (zero_mem a n w) = quiet_world w"
  "quiet_world (store_mem a bs w) = quiet_world w" "quiet_world (w\<lparr>w_files := fs\<rparr>) = quiet_world w"
  "quiet_world (w\<lparr>w_mem := mm\<rparr>) = quiet_world w"
  by (simp_all add: quiet_world_def os_call_def next_dma_def put_content_def zero_mem_def store_mem_def)

lemma quiet_steps:
  assumes "quiet_world w"
  shows "os_open_trunc p w = (None, put_content p (Some []) w)"
    and "w_files w p = Some f \<Longrightarrow> py_write p data w = (None, put_content p (Some (f @ data)) w)"
    and "w_files w p = Some f \<Longrightarrow> os_replace p q w = (None, put_content p None (put_content q (Some f) w))"
    and "w_files w p = Some f \<Longrightarrow> 0 \<le> n \<Longrightarrow> 0 < fo \<Longrightarrow> int (length f) = fo \<Longrightarrow>
      dds_write g p a n fo dev w = (n, put_content p (Some (f @ mem_bytes (w_mem w) (a + dev) n)) w)"
    and "w_files w p = Some f \<Longrightarrow> 0 \<le> n \<Longrightarrow> 0 \<le> fo \<Longrightarrow> fo + n \<le> int (length f) \<Longrightarrow>
      dds_read g p a n fo dev w = (n, w\<lparr>w_mem := put_mem (a + dev) n f fo (w_mem w)\<rparr>)"
  using assms
  by (auto simp: os_open_trunc_def py_write_def os_append_def os_replace_def dds_write_def dds_read_def
      quiet_simps Let_def put_content_def put_file_append)

lemma save_block_first_quiet:
  assumes q: "quiet_world w" and m: "make_block_first_metadata c t = Inr m" and wf: "chunk_wf (x_torch c) t"
    and h: "pack_block_first_header (x_torch c) m = Inr header" and "staging_fits st m"
    and st: "st_shape st = m_payload_shape m" "st_dtype st = t_dtype t" "st_device st = t_device t"
  shows "\<exists>w'. save_block_first_xds (dds_write g) c (Some st) path t w = (Inr m, w') \<and> quiet_world w'"
  using m wf [unfolded chunk_wf_def, THEN conjunct1]
proof (rule made_metadata)
  fix nl nb bs d
  assume bs: "m_block_size m = int bs"
    and ps: "m_payload_shape m = [int nb, int nl, 2, int bs, int d]"
    and shape: "block_first_shape (t_shape t) (int bs) = Inr (m_payload_shape m)"
    and io: "0 \<le> m_payload_nbytes m" "m_payload_nbytes m \<le> m_io_nbytes m"
  obtain p where p: "logical_to_block_first t (m_block_size m) (Some (staging_tensor st [])) = Inr p"
    using shape st wf by (auto simp: logical_to_block_first_def bs staging_tensor_def Let_def chunk_wf_def)
  have hl: "length header = 4096" using packed_header [OF h] by blast
  let ?w2 = "store_mem (st_base st + st_address st) (chunk_bytes p) (zero_mem (st_base st) (st_nbytes st) w)"
  have q2: "quiet_world ?w2" using q by (simp add: quiet_simps)
  show ?thesis
    using m h st p q2 hl io block_first_tmp_neq [of path]
    by (simp add: save_block_first_xds_def Let_def publish_def block_first_body_def quiet_steps quiet_simps
        BLOCK_FIRST_HEADER_SIZE_def file_size_def)
qed

lemma load_block_first_quiet:
  assumes q: "quiet_world w" and m: "make_block_first_metadata c t = Inr m" and wf: "chunk_wf (x_torch c) t"
    and h: "pack_block_first_header (x_torch c) m = Inr header"
    and f: "w_files w path = Some (block_first_file header m (t_data t))"
    and st: "st_shape st = m_payload_shape m" "st_dtype st = t_dtype t" "st_device st = t_device t"
    and out: "t_shape out = t_shape t" "t_dtype out = t_dtype t" "t_device out = t_device t"
  shows "\<exists>t' w'. load_block_first_xds (dds_read g) c (Some st) path m out w = (Inr (m_io_nbytes m, t'), w')"
  using m wf [unfolded chunk_wf_def, THEN conjunct1]
proof (rule made_metadata)
  fix nl nb bs d
  assume ps: "m_payload_shape m = [int nb, int nl, 2, int bs, int d]"
    and sh: "t_shape t = [2, int nl, int (nb * bs), int d]"
    and io: "0 \<le> m_payload_nbytes m" "m_payload_nbytes m \<le> m_io_nbytes m"
  have hl: "length header = 4096" and up: "unpack_block_first_header (x_torch c) header = Inr m"
    using packed_header [OF h, of "[]"] by auto
  let ?f = "block_first_file header m (t_data t)"
  have lf: "int (length ?f) = 4096 + m_io_nbytes m"
    using length_payload_bytes [OF m wf] hl io by (simp add: block_first_file_def)
  have tk: "take 4096 ?f = header" using hl by (simp add: block_first_file_def)
  have qz: "quiet_world (zero_mem (st_base st) (st_nbytes st) w)" using q by (simp add: quiet_simps)
  have fz: "w_files (zero_mem (st_base st) (st_nbytes st) w) path = Some ?f" using f by (simp add: zero_mem_def)
  have ne: "block_first_to_logical (staging_tensor st data) (Some out) \<noteq> Inl e" for data e
    using st out by (simp add: block_first_to_logical_def staging_tensor_def ps sh Let_def)
  then show ?thesis
    using ne f up lf tk st io quiet_steps(5) [OF qz fz, of "m_io_nbytes m" 4096]
    by (auto simp: load_block_first_xds_def load_xds_def BLOCK_FIRST_HEADER_SIZE_def Let_def split: sum.splits)
qed

section \<open>Properties\<close>

text \<open>
  C27: What a staged block-first load returns is what was stored, whatever the driver did in between:
  if the store reported success and a later load of the unchanged file reports all its bytes, the
  loaded chunk has the elements of the stored one, be the transfers by DMA, in part by DMA, or by the
  CPU fallback.
\<close>

theorem staged_roundtrip:
  assumes "save_block_first_xds (dds_write g) c (Some st) path t w = (Inr m, w1)"
    and "load_block_first_xds (dds_read g') c (Some st) path m out w2 = (Inr (m_io_nbytes m, t'), w3)"
    and "w_files w2 path = w_files w1 path"
    and "chunk_wf (x_torch c) t" and "staging_fits st m" and "0 < m_io_nbytes m" and "st_dtype st = t_dtype t"
  shows "t_data t' = t_data t \<and> t_shape t' = t_shape t"
proof -
  have mk: "make_block_first_metadata c t = Inr m"
    using assms(1) by (auto simp: save_block_first_xds_def publish_def abandon_def Let_def
        split: sum.splits option.splits if_splits prod.splits)
  have "m' = m" if "make_block_first_metadata c t = Inr m'" for m' using mk that by simp
  then have fits: "make_block_first_metadata c t = Inr m' \<Longrightarrow> staging_fits st m' \<and> 0 < m_io_nbytes m'" for m'
    using assms(5,6) by blast
  from dds.block_first_published [OF assms(1,4) fits]
  obtain header where h: "pack_block_first_header (x_torch c) m = Inr header"
    and f: "w_files w1 path = Some (block_first_file header m (t_data t))" by auto
  from dds.load_block_first_content [OF assms(2) f [folded assms(3)] mk assms(4) h assms(7)]
  show ?thesis by blast
qed

definition demo_cfg :: "demo_dtype xds_cfg" where
  "demo_cfg =
     \<lparr>x_torch = demo_torch, x_root = ''/xds'', x_chunk_size = 8, x_block_size = Some 4,
      x_shapes = [[2, 3, 8, 16]], x_dtypes = [Float16], x_model = ''m'', x_world = 2, x_worker = 1, x_tp = 2,
      x_pp = 1, x_device = \<lparr>dev_type = ''cuda'', dev_index = None\<rparr>, x_block_first = True, x_direct = True,
      x_direct_store = True, x_direct_retrieve = True, x_cpu_store = False, x_staged = True,
      x_max_size = Some 10000, x_store_pipeline = False, x_retrieve_pipeline = False\<rparr>"

definition demo_chunk :: "demo_dtype chunk" where
  "demo_chunk =
     \<lparr>t_shape = [2, 3, 8, 16], t_data = replicate 768 [1, 2], t_contiguous = True, t_dtype = Float16,
      t_device = \<lparr>dev_type = ''cpu'', dev_index = None\<rparr>\<rparr>"

definition demo_staging :: "demo_dtype staging" where
  "demo_staging =
     \<lparr>st_base = 8192, st_nbytes = 4096, st_address = 0, st_shape = [2, 3, 2, 4, 16], st_dtype = Float16,
      st_device = \<lparr>dev_type = ''cpu'', dev_index = None\<rparr>\<rparr>"

definition demo_dds :: dds where
  "demo_dds = \<lparr>dds_fallback = True, dds_runtime = True\<rparr>"

definition demo_world :: world where
  "demo_world = \<lparr>w_mem = (\<lambda>_. 7), w_files = (\<lambda>_. None), w_dma = [], w_copy = [], w_os = []\<rparr>"

lemma demo_world_quiet: "quiet_world demo_world"
  by (simp add: quiet_world_def demo_world_def)

lemma demo_chunk_wf: "chunk_wf (x_torch demo_cfg) demo_chunk"
  by (simp add: chunk_wf_def demo_chunk_def demo_cfg_def demo_torch_def tensor_wf_def)

lemma demo_made:
  "\<exists>m header. make_block_first_metadata demo_cfg demo_chunk = Inr m \<and>
    pack_block_first_header (x_torch demo_cfg) m = Inr header \<and> m_payload_shape m = [2, 3, 2, 4, 16] \<and>
    staging_fits demo_staging m \<and> 0 < m_io_nbytes m"
proof -
  obtain m where m: "create demo_torch [2, 3, 8, 16] Float16 4 ''m'' 2 1 2 1 = Inr m"
    and v: "validate demo_torch m = None" using demo_metadata by blast
  note f = create_fields [OF m]
  have "block_first_shape [2, 3, 8, 16] 4 = Inr (m_payload_shape m)"
    "align_up (m_payload_nbytes m) BLOCK_FIRST_ALIGNMENT = Inr (m_io_nbytes m)"
    using v f by (auto simp: validate_None_iff)
  then have "m_payload_shape m = [2, 3, 2, 4, 16]" "m_io_nbytes m = 4096"
    using f by (auto simp: block_first_shape_Inr align_up_Inr BLOCK_FIRST_ALIGNMENT_def demo_torch_def)
  moreover obtain header where "pack_block_first_header demo_torch m = Inr header"
    using unpack_packed [OF v demo_header_fits [OF m]] by blast
  ultimately show ?thesis
    using m by (auto simp: make_block_first_metadata_def demo_cfg_def demo_chunk_def staging_fits_def
        demo_staging_def)
qed

theorem staged_roundtrip_witness:
  "\<exists>m w1 t' w3. save_block_first_xds (dds_write demo_dds) demo_cfg (Some demo_staging) ''f'' demo_chunk demo_world = (Inr m, w1) \<and>
    load_block_first_xds (dds_read demo_dds) demo_cfg (Some demo_staging) ''f'' m (demo_chunk\<lparr>t_data := []\<rparr>) w1 =
      (Inr (m_io_nbytes m, t'), w3) \<and> t_data t' = t_data demo_chunk"
proof -
  obtain m header where m: "make_block_first_metadata demo_cfg demo_chunk = Inr m"
    and h: "pack_block_first_header (x_torch demo_cfg) m = Inr header"
    and ps: "m_payload_shape m = [2, 3, 2, 4, 16]"
    and fit: "staging_fits demo_staging m" "0 < m_io_nbytes m" using demo_made by blast
  have st: "st_shape demo_staging = m_payload_shape m" "st_dtype demo_staging = t_dtype demo_chunk"
      "st_device demo_staging = t_device demo_chunk" by (simp_all add: demo_staging_def demo_chunk_def ps)
  obtain w1 where s: "save_block_first_xds (dds_write demo_dds) demo_cfg (Some demo_staging) ''f'' demo_chunk demo_world = (Inr m, w1)"
    and q: "quiet_world w1"
    using save_block_first_quiet [OF demo_world_quiet m demo_chunk_wf h fit(1) st] by blast
  have fits: "make_block_first_metadata demo_cfg demo_chunk = Inr m' \<Longrightarrow> staging_fits demo_staging m' \<and> 0 < m_io_nbytes m'" for m'
    using m fit by simp
  have f: "w_files w1 ''f'' = Some (block_first_file header m (t_data demo_chunk))"
    using dds.block_first_published [OF s demo_chunk_wf fits] h by simp
  obtain t' w3 where l: "load_block_first_xds (dds_read demo_dds) demo_cfg (Some demo_staging) ''f'' m
      (demo_chunk\<lparr>t_data := []\<rparr>) w1 = (Inr (m_io_nbytes m, t'), w3)"
    using load_block_first_quiet [OF q m demo_chunk_wf h f st, of "demo_chunk\<lparr>t_data := []\<rparr>" demo_dds] by auto
  from staged_roundtrip [OF s l refl demo_chunk_wf fit st(2)] s l show ?thesis by blast
qed

lemma put_content_twice [simp]: "put_content p c (put_content p b w) = put_content p c w"
  by (simp add: put_content_def)

lemma write_all_quiet:
  assumes "quiet_world w" "w_files w p = Some f"
  shows "write_all p data w = (None, put_content p (Some (f @ data)) w)"
proof (cases "data = []")
  case True
  have "put_content p (Some f) w = w" using assms(2) by (simp add: put_content_def map_upd_triv)
  then show ?thesis using True by (simp add: write_all.simps)
next
  case False
  then show ?thesis using assms
    by (simp add: write_all.simps [of p data] os_write_def os_append_def quiet_simps)
      (simp add: write_all.simps)
qed

lemma write_slices_quiet:
  assumes "quiet_world w" "w_files w p = Some f" "\<forall>s \<in> set ss. int (length s) = n"
  shows "write_slices p n ss w = (None, put_content p (Some (f @ concat ss)) w)"
  using assms
proof (induction ss arbitrary: w f)
  case Nil
  then show ?case by (simp add: put_content_def map_upd_triv)
next
  case (Cons s ss)
  then show ?case by (simp add: write_all_quiet quiet_simps)
qed

lemma length_cpu_slices:
  assumes m: "make_block_first_metadata c t = Inr m" and wf: "chunk_wf (x_torch c) t"
  shows "\<forall>s \<in> set (cpu_slices m (t_data t)).
    int (length s) = m_block_size m * m_hidden_dim m * itemsize (x_torch c) (t_dtype t)"
  using m wf [unfolded chunk_wf_def, THEN conjunct1]
proof (rule made_metadata)
  fix nl nb bs d
  assume mf: "m_num_layers m = int nl" "m_valid_tokens m = int (nb * bs)" "m_hidden_dim m = int d"
      "m_block_size m = int bs" "m_payload_shape m = [int nb, int nl, 2, int bs, int d]"
    and len: "length (t_data t) = 2 * nl * (nb * bs) * d"
  let ?isz = "itemsize (x_torch c) (t_dtype t)"
  have "int (length (source_slice m (t_data t) b l k)) = int bs * int d * ?isz"
    if b: "k < 2" "l < nl" "b < nb" for b l k
  proof -
    let ?s = "take (bs * d) (drop (((k * nl + l) * (nb * bs) + b * bs) * d) (t_data t))"
    have "((k * nl + l) * nb + b) * bs * d + bs * d \<le> length (t_data t)"
    proof -
      have "k * nl + l + 1 \<le> 2 * nl" using b(1,2) by (cases k) auto
      then have "(k * nl + l) * nb + b + 1 \<le> 2 * nl * nb"
        using b(3) mult_le_mono1 [of "k * nl + l + 1" "2 * nl" nb] by (simp add: algebra_simps)
      then have "((k * nl + l) * nb + b + 1) * (bs * d) \<le> 2 * nl * nb * (bs * d)" by (rule mult_le_mono1)
      then show ?thesis by (simp add: len algebra_simps)
    qed
    then have "length ?s = bs * d" by (simp add: algebra_simps)
    moreover have "\<forall>e \<in> set ?s. int (length e) = ?isz"
      using wf by (auto simp: chunk_wf_def dest!: in_set_takeD in_set_dropD)
    ultimately show ?thesis using length_concat_elems [of ?s ?isz]
      unfolding source_slice_def Let_def mf nat_int by simp
  qed
  then show ?thesis by (auto simp: cpu_slices_def mf)
qed

lemma save_cpu_block_first_quiet:
  assumes q: "quiet_world w" and m: "make_block_first_metadata c t = Inr m" and wf: "chunk_wf (x_torch c) t"
    and h: "pack_block_first_header (x_torch c) m = Inr header" and dev: "dev_type (t_device t) = ''cpu''"
  shows "\<exists>w'. save_cpu_block_first_xds c path t w = (Inr m, w')"
proof -
  have io: "0 \<le> m_payload_nbytes m" "m_payload_nbytes m \<le> m_io_nbytes m"
    using m wf [unfolded chunk_wf_def, THEN conjunct1] by (rule made_metadata, simp)+
  have cs: "concat (cpu_slices m (t_data t)) = payload_bytes m (t_data t)"
    using m wf [unfolded chunk_wf_def, THEN conjunct1]
    by (rule made_metadata) (rule cpu_slices_payload, simp_all)
  have hl: "length header = 4096" using packed_header [OF h] by blast
  note lp = length_payload_bytes [OF m wf]
  show ?thesis
    using q m wf h dev hl io lp block_first_tmp_neq [of path] length_cpu_slices [OF m wf]
    by (simp add: save_cpu_block_first_xds_def publish_def cpu_block_first_body_def quiet_steps quiet_simps
        write_all_quiet write_slices_quiet cs BLOCK_FIRST_HEADER_SIZE_def file_size_def chunk_wf_def)
qed

text \<open>
  The CPU store and the staged store of the same chunk make the same file, byte for byte: writing
  the block slices of the CPU tensor one by one in place is equivalent to converting the chunk in the
  staging buffer and writing that through the driver.
\<close>

theorem cpu_store_equals_staged_store:
  assumes "save_cpu_block_first_xds c path t w = (Inr m, w1)"
    and "save_block_first_xds (dds_write g) c (Some st) path' (t\<lparr>t_device := dev\<rparr>) v = (Inr m', v1)"
    and "chunk_wf (x_torch c) t" and "staging_fits st m" and "0 < m_io_nbytes m"
  shows "m' = m \<and> w_files w1 path = w_files v1 path' \<and> w_files w1 path \<noteq> None"
proof -
  have wf: "tensor_wf t" "chunk_wf (x_torch c) (t\<lparr>t_device := dev\<rparr>)"
    using assms(3) by (simp_all add: chunk_wf_def tensor_wf_def)
  have eq: "make_block_first_metadata c (t\<lparr>t_device := dev\<rparr>) = make_block_first_metadata c t"
    by (cases "x_block_size c") (simp_all add: make_block_first_metadata_def)
  from cpu_block_first_published [OF assms(1) wf(1)] have mk: "make_block_first_metadata c t = Inr m"
    and f: "\<exists>header. pack_block_first_header (x_torch c) m = Inr header \<and>
      w_files w1 path = Some (block_first_file header m (t_data t))" by auto
  have fits: "make_block_first_metadata c (t\<lparr>t_device := dev\<rparr>) = Inr m'' \<Longrightarrow> staging_fits st m'' \<and> 0 < m_io_nbytes m''" for m''
    using assms(4,5) mk eq by simp
  from dds.block_first_published [OF assms(2) wf(2) fits] f mk eq show ?thesis by auto
qed

theorem cpu_store_equals_staged_store_witness:
  "\<exists>m w1 v1. save_cpu_block_first_xds demo_cfg ''f'' demo_chunk demo_world = (Inr m, w1) \<and>
    save_block_first_xds (dds_write demo_dds) demo_cfg (Some demo_staging) ''g'' demo_chunk demo_world = (Inr m, v1) \<and>
    w_files w1 ''f'' = w_files v1 ''g'' \<and> w_files w1 ''f'' \<noteq> None"
proof -
  obtain m header where m: "make_block_first_metadata demo_cfg demo_chunk = Inr m"
    and h: "pack_block_first_header (x_torch demo_cfg) m = Inr header"
    and ps: "m_payload_shape m = [2, 3, 2, 4, 16]"
    and fit: "staging_fits demo_staging m" "0 < m_io_nbytes m" using demo_made by blast
  have st: "st_shape demo_staging = m_payload_shape m" "st_dtype demo_staging = t_dtype demo_chunk"
      "st_device demo_staging = t_device demo_chunk" by (simp_all add: demo_staging_def demo_chunk_def ps)
  have dev: "dev_type (t_device demo_chunk) = ''cpu''" by (simp add: demo_chunk_def)
  obtain v1 where s: "save_block_first_xds (dds_write demo_dds) demo_cfg (Some demo_staging) ''g'' demo_chunk demo_world = (Inr m, v1)"
    using save_block_first_quiet [OF demo_world_quiet m demo_chunk_wf h fit(1) st] by blast
  obtain w1 where cp: "save_cpu_block_first_xds demo_cfg ''f'' demo_chunk demo_world = (Inr m, w1)"
    using save_cpu_block_first_quiet [OF demo_world_quiet m demo_chunk_wf h dev] by blast
  have "demo_chunk\<lparr>t_device := t_device demo_chunk\<rparr> = demo_chunk" by simp
  with s have s': "save_block_first_xds (dds_write demo_dds) demo_cfg (Some demo_staging) ''g''
      (demo_chunk\<lparr>t_device := t_device demo_chunk\<rparr>) demo_world = (Inr m, v1)" by simp
  from cpu_store_equals_staged_store [OF cp s' demo_chunk_wf fit] cp s show ?thesis by blast
qed

text \<open>
  A store is all or nothing. Whatever the file system and the driver do during a CPU block-first
  store, the file under the chunk's name is afterwards the complete new file, if the store reports
  success, or what it was before, and no other cache file has changed.
\<close>

theorem cpu_store_atomic:
  assumes "save_cpu_block_first_xds c path t w = (r, w')" and "tensor_wf t"
  shows "(\<forall>q. q \<noteq> path \<longrightarrow> q \<noteq> block_first_tmp path \<longrightarrow> w_files w' q = w_files w q) \<and>
    (case r of
       Inl e \<Rightarrow> w_files w' path = w_files w path
     | Inr m \<Rightarrow> (\<exists>header. pack_block_first_header (x_torch c) m = Inr header \<and>
         w_files w' path = Some (block_first_file header m (t_data t))))"
  using cpu_block_first_published [OF assms] by (cases r) simp_all

definition failing_world :: world where
  "failing_world = demo_world\<lparr>w_files := (\<lambda>_. None)(''f'' \<mapsto> [9]), w_os := [Os_count 0, Os_count 1, Os_raise]\<rparr>"

theorem cpu_store_atomic_witness:
  "case save_cpu_block_first_xds demo_cfg ''f'' demo_chunk failing_world of
     (Inl e, w') \<Rightarrow> w_files w' ''f'' = Some [9]
   | (Inr m, w') \<Rightarrow> w_files w' ''f'' \<noteq> None"
proof -
  obtain r w' where run: "save_cpu_block_first_xds demo_cfg ''f'' demo_chunk failing_world = (r, w')"
    by (cases "save_cpu_block_first_xds demo_cfg ''f'' demo_chunk failing_world")
  have "tensor_wf demo_chunk" using demo_chunk_wf by (simp add: chunk_wf_def)
  from cpu_store_atomic [OF run this] run show ?thesis
    by (auto simp: failing_world_def split: sum.splits)
qed

lemma posix_body_ok:
  assumes run: "posix_body fs_block tmp n buffer w = (r, w')" and len: "int (length buffer) = n"
  shows "only_file tmp w w' \<and> (r = None \<longrightarrow> (\<exists>tail. w_files w' tmp = Some (buffer @ tail)))"
proof (cases "n mod fs_block \<noteq> 0")
  case True
  obtain a w1 where a: "os_open_trunc tmp w = (a, w1)" by (cases "os_open_trunc tmp w")
  note o1 = os_open_trunc_ok [OF a]
  show ?thesis
  proof (cases a)
    case (Some e)
    then show ?thesis using run True a o1 by (auto simp: posix_body_def)
  next
    case None
    then have p: "py_write tmp buffer w1 = (r, w')" using run True a by (simp add: posix_body_def)
    have "w_files w1 tmp = Some []" using o1 None by simp
    from py_write_ok [OF p] this o1 show ?thesis using only_file_trans by fastforce
  qed
next
  case False
  obtain a w1 where a: "os_call w = (a, w1)" by (cases "os_call w")
  obtain b w2 where b: "os_call w1 = (b, w2)" by (cases "os_call w1")
  have f: "w_mem w2 = w_mem w" "w_files w2 = w_files w" "w_mem w1 = w_mem w" "w_files w1 = w_files w"
    using os_call_fields [OF a] os_call_fields [OF b] by simp_all
  show ?thesis using run False a b f len
    by (auto simp: posix_body_def Let_def only_file_def put_file_def split: option.splits os.splits if_splits)
qed

text \<open>
  A plain-file entry is read back as it was written: after a store that reports success, reading
  as many bytes as were stored returns exactly the stored bytes, whatever an interrupted earlier store
  had left in the temporary file, which is not truncated when it is opened for direct I/O.
\<close>

theorem posix_roundtrip:
  assumes "posix_write fs_block T path t n buffer w = (Inr meta, w')" and "ends_with path DATA_SUFFIX"
  shows "posix_read path n w' = (n, buffer) \<and> pack_metadata (t_shape t) (dtype_label T (t_dtype t)) n = Inr meta"
proof -
  have len: "int (length buffer) = n" and pk: "pack_metadata (t_shape t) (dtype_label T (t_dtype t)) n = Inr meta"
    and pub: "publish True (legacy_tmp path) path (posix_body fs_block (legacy_tmp path) n buffer) meta w = (Inr meta, w')"
    using assms(1) by (auto simp: posix_write_def publish_def abandon_def split: if_splits sum.splits prod.splits option.splits)
  obtain b w1 where b: "posix_body fs_block (legacy_tmp path) n buffer w = (b, w1)"
    by (cases "posix_body fs_block (legacy_tmp path) n buffer w")
  note ok = posix_body_ok [OF b len]
  obtain d w2 where r: "os_replace (legacy_tmp path) path w1 = (d, w2)" by (cases "os_replace (legacy_tmp path) path w1")
  have "b = None" "d = None" "w' = w2"
    using pub b r by (auto simp: publish_def abandon_def split: option.splits prod.splits)
  then have "\<exists>tail. w_files w' path = Some (buffer @ tail)"
    using ok os_replace_ok [OF r] legacy_tmp_neq [OF assms(2)] by auto
  then show ?thesis using len pk by (auto simp: posix_read_def)
qed

theorem posix_roundtrip_witness:
  "\<exists>meta w'. posix_write 2 demo_torch ''a.kvdata'' \<lparr>t_shape = [1], t_data = [[1, 2]], t_contiguous = True, t_dtype = Float16,
      t_device = \<lparr>dev_type = ''cpu'', dev_index = None\<rparr>\<rparr> 2 [1, 2]
      (demo_world\<lparr>w_files := (\<lambda>_. None)(''a.KVDATA'' \<mapsto> [7, 7, 7])\<rparr>) = (Inr meta, w') \<and>
    w_files w' ''a.kvdata'' = Some [1, 2, 7] \<and> posix_read ''a.kvdata'' 2 w' = (2, [1, 2])"
proof -
  let ?t = "\<lparr>t_shape = [1], t_data = [[1, 2]], t_contiguous = True, t_dtype = Float16,
      t_device = \<lparr>dev_type = ''cpu'', dev_index = None\<rparr>\<rparr> :: demo_dtype chunk"
  let ?w = "demo_world\<lparr>w_files := (\<lambda>_. None)(''a.KVDATA'' \<mapsto> [7, 7, 7])\<rparr>"
  have tmp: "legacy_tmp ''a.kvdata'' = ''a.KVDATA''"
    by (simp add: legacy_tmp_def DATA_SUFFIX_def DATA_SUFFIX_TMP_def str_replace.simps)
  have q: "quiet_world ?w" using demo_world_quiet by (simp add: quiet_simps)
  obtain meta where pk: "pack_metadata [1] ''float16'' 2 = Inr meta"
    by (auto simp: pack_metadata_def METADATA_MAX_SIZE_def dtype_to_idx_def torch_dtypes_def fits_u64_def upt_conv_Cons)
  obtain w' where w': "posix_write 2 demo_torch ''a.kvdata'' ?t 2 [1, 2] ?w = (Inr meta, w')"
      and f: "w_files w' ''a.kvdata'' = Some [1, 2, 7]"
    using q pk by (simp add: posix_write_def dtype_label_def demo_torch_def tmp publish_def posix_body_def quiet_simps
        Let_def put_file_def os_replace_def put_content_def)
  from posix_roundtrip [OF w'] w' f show ?thesis by (auto simp: ends_with_def DATA_SUFFIX_def)
qed

text \<open>
  The legacy store through the driver is all or nothing as well, and what it publishes is the
  registered memory range it was given.
\<close>

theorem legacy_store_atomic:
  assumes "save_xds (dds_write g) T path t n addr dev w = (r, w')" and "0 < n" and "ends_with path DATA_SUFFIX"
  shows "(\<forall>q. q \<noteq> path \<longrightarrow> q \<noteq> legacy_tmp path \<longrightarrow> w_files w' q = w_files w q) \<and>
    (case r of
       Inl e \<Rightarrow> w_files w' path = w_files w path
     | Inr meta \<Rightarrow> w_files w' path = Some (mem_bytes (w_mem w) (addr + dev) n))"
  using dds.legacy_published [OF assms] by (cases r) simp_all

theorem legacy_store_atomic_witness:
  "case save_xds (dds_write demo_dds) demo_torch ''a.kvdata'' demo_chunk 1536 8192 0 demo_world of
     (Inl e, w') \<Rightarrow> w_files w' ''a.kvdata'' = None
   | (Inr meta, w') \<Rightarrow> w_files w' ''a.kvdata'' = Some (replicate 1536 7)"
proof -
  obtain r w' where run: "save_xds (dds_write demo_dds) demo_torch ''a.kvdata'' demo_chunk 1536 8192 0 demo_world = (r, w')"
    by (cases "save_xds (dds_write demo_dds) demo_torch ''a.kvdata'' demo_chunk 1536 8192 0 demo_world")
  have "mem_bytes (w_mem demo_world) (8192 + 0) 1536 = replicate 1536 7"
    by (simp add: mem_bytes_def demo_world_def map_replicate_const)
  moreover have "ends_with ''a.kvdata'' DATA_SUFFIX" by (simp add: ends_with_def DATA_SUFFIX_def)
  ultimately show ?thesis using legacy_store_atomic [OF run] run
    by (auto simp: demo_world_def split: sum.splits)
qed

end
