(* ===== verification/Xds_Config.thy ===== *)
theory Xds_Config
  imports Disk_Layout
begin

text \<open>
  How an XDS backend decides what it can do: the option parser, the test for the block-first layout
  and the decisions of \<^verbatim>\<open>XdsBackend.__init__\<close> (\<^verbatim>\<open>storage_backend/xds_backend.py\<close>), up to the calls
  that build drivers and allocators. Configuration and engine metadata are objects of the LMCache
  package: what the constructor reads of them is the record \<open>raw_config\<close>.
\<close>

section \<open>Options\<close>





text \<open>An unindexed expected device is the current one of its type.\<close>

definition devices_match :: "torch_device \<Rightarrow> torch_device \<Rightarrow> bool" where
  "devices_match expected actual \<longleftrightarrow>
     dev_type expected = dev_type actual \<and> (dev_index expected = None \<or> dev_index expected = dev_index actual)"


section \<open>The block-first test\<close>



section \<open>The constructor's decisions\<close>


















end
