(* ===== verification/Xds_Transfer.thy ===== *)
theory Xds_Transfer
  imports Xds_Files Xds_Config Block_Plans
begin

text \<open>
  Direct transfers between cache files and the engine's KV memory (\<^verbatim>\<open>_save_direct_xds\<close>,
  \<^verbatim>\<open>_prepare_direct_xds\<close>, \<^verbatim>\<open>_transfer_direct_xds\<close> and what they call in
  \<^verbatim>\<open>storage_backend/xds_backend.py\<close>): the checks of a descriptor against the engine, the file
  transaction of a store, the reads of a retrieve into runs of blocks, byte segments or, for a block
  that is cached in part, through the edge buffer. The specification of a retrieve as a function on
  memory, and the lemmas that the transfers meet it for every storage interface; the theory
  \<open>Direct_Delivery\<close> has the properties.
\<close>

section \<open>Checks\<close>

definition chunk_blocks :: "'d xds_cfg \<Rightarrow> int \<Rightarrow> int" where
  "chunk_blocks c bs = x_chunk_size c div bs"

definition validate_direct_descriptor :: "'d xds_cfg \<Rightarrow> descriptor \<Rightarrow> direction \<Rightarrow> exn option" where
  "validate_direct_descriptor c d dir =
     (case first_error
        [(\<not> x_direct c, ValueError ''direct XDS is disabled''),
         (d_direction d \<noteq> dir, ValueError ''direct I/O direction mismatch'')] of
        Some e \<Rightarrow> Some e
      | None \<Rightarrow>
          (case validate_descriptor d True True of
             Some e \<Rightarrow> Some e
           | None \<Rightarrow> first_error
               [(d_engine_group_id d \<noteq> 0, ValueError ''0.4.2 direct XDS only supports engine group 0''),
                (x_block_size c \<noteq> Some (d_block_size d),
                  ValueError ''direct I/O block size does not match engine metadata''),
                (\<not> devices_match (x_device c) (d_device d),
                  ValueError ''direct I/O allocation is on the wrong CUDA device''),
                (length (x_shapes c) \<noteq> 1 \<or> length (x_dtypes c) \<noteq> 1,
                  ValueError ''direct XDS requires one KV layer group''),
                (d_block_nbytes d \<noteq> hd (x_shapes c) ! 0 * hd (x_shapes c) ! 1 * d_block_size d *
                    hd (x_shapes c) ! 3 * itemsize (x_torch c) (hd (x_dtypes c)),
                  ValueError ''direct I/O block byte size does not match KV metadata''),
                (chunk_blocks c (d_block_size d) < d_logical_block_start d + d_logical_block_count d,
                  ValueError ''direct I/O logical range exceeds one LMCache chunk''),
                (case d_leading_edge d of
                    None \<Rightarrow> False | Some e \<Rightarrow> chunk_blocks c (d_block_size d) \<le> edge_logical_block e,
                  ValueError ''direct I/O leading edge exceeds one LMCache chunk'')]))"

definition make_direct_block_first_metadata :: "'d xds_cfg \<Rightarrow> disk_metadata res" where
  "make_direct_block_first_metadata c =
     (if length (x_shapes c) \<noteq> 1 \<or> length (x_dtypes c) \<noteq> 1
        then Inl (BlockFirstFormatError ''direct XDS requires one KV layer group'')
      else case x_block_size c of
        None \<Rightarrow> Inl (AssertionError ''block_size'')
      | Some bs \<Rightarrow> create (x_torch c) (hd (x_shapes c)) (hd (x_dtypes c)) bs (x_model c) (x_world c)
                    (x_worker c) (x_tp c) (x_pp c))"

section \<open>State\<close>

text \<open>
  The registrations of direct I/O, the driver, memory and files, and the edge buffer: its address and
  size once it is allocated.
\<close>

record direct_state =
  ds_regs :: registrations
  ds_hip :: hip
  ds_world :: world
  ds_edge :: "(int \<times> int) option"

definition ensure_registered :: "descriptor \<Rightarrow> direct_state \<Rightarrow> exn option \<times> direct_state" where
  "ensure_registered d s =
     (case ensure_direct_registration d (ds_regs s, ds_hip s) of
        (r, (regs, h)) \<Rightarrow> (r, s\<lparr>ds_regs := regs, ds_hip := h\<rparr>))"

section \<open>Store\<close>

fun write_runs :: "storage_read \<Rightarrow> string \<Rightarrow> descriptor \<Rightarrow> block_run list \<Rightarrow> world \<Rightarrow> exn option \<times> world" where
  "write_runs wr tmp d [] w = (None, w)"
| "write_runs wr tmp d (r # rs) w =
     (let n = run_count r * d_block_nbytes d in
      case wr tmp (d_allocation_base d) n (d_file_payload_offset d + run_logical r * d_block_nbytes d)
          (run_physical r * d_block_nbytes d) w of
        (ret, w1) \<Rightarrow>
          if ret \<noteq> n then (Some (RuntimeError ''direct XDS write incomplete''), w1)
          else write_runs wr tmp d rs w1)"

definition direct_body ::
    "storage_read \<Rightarrow> string \<Rightarrow> bytes \<Rightarrow> int \<Rightarrow> descriptor \<Rightarrow> world \<Rightarrow> exn option \<times> world" where
  "direct_body wr tmp header io_nbytes d w =
     (case os_open_trunc tmp w of
        (Some e, w1) \<Rightarrow> (Some e, w1)
      | (None, w1) \<Rightarrow>
          (case py_write tmp header w1 of
             (Some e, w2) \<Rightarrow> (Some e, w2)
           | (None, w2) \<Rightarrow>
               (case write_runs wr tmp d (d_runs d) w2 of
                  (Some e, w3) \<Rightarrow> (Some e, w3)
                | (None, w3) \<Rightarrow>
                    if file_size tmp w3 \<noteq> BLOCK_FIRST_HEADER_SIZE + io_nbytes
                      then (Some (RuntimeError ''direct XDS file size mismatch''), w3)
                    else (None, w3))))"

definition save_direct_xds ::
    "storage_read \<Rightarrow> 'd xds_cfg \<Rightarrow> string \<Rightarrow> descriptor \<Rightarrow> direct_state \<Rightarrow> disk_metadata res \<times> direct_state" where
  "save_direct_xds wr c path d s =
     (case validate_direct_descriptor c d STORE of
        Some e \<Rightarrow> (Inl e, s)
      | None \<Rightarrow>
          (case make_direct_block_first_metadata c of
             Inl e \<Rightarrow> (Inl e, s)
           | Inr m \<Rightarrow>
               (case first_error
                  [(d_logical_block_start d \<noteq> 0 \<or> d_logical_block_count d \<noteq> m_valid_tokens m div m_block_size m,
                     ValueError ''direct store must cover the complete LMCache chunk''),
                   (transferred_nbytes d \<noteq> m_payload_nbytes m,
                     ValueError ''direct store byte count does not match the file payload''),
                   (m_payload_nbytes m \<noteq> m_io_nbytes m,
                     ValueError ''direct store payload requires unsupported tail padding'')] of
                  Some e \<Rightarrow> (Inl e, s)
                | None \<Rightarrow>
                    (case ensure_registered d s of
                       (Some e, s1) \<Rightarrow> (Inl e, s1)
                     | (None, s1) \<Rightarrow>
                         let tmp = block_first_tmp path in
                         (case (case pack_block_first_header (x_torch c) m of
                                  Inl e \<Rightarrow> abandon False tmp e (ds_world s1)
                                | Inr header \<Rightarrow>
                                    publish False tmp path (direct_body wr tmp header (m_io_nbytes m) d) m
                                      (ds_world s1)) of
                            (r, w) \<Rightarrow> (r, s1\<lparr>ds_world := w\<rparr>))))))"

section \<open>Retrieve\<close>

text \<open>
  \<open>_read_direct_header_and_size\<close>: nothing else runs between the reads of the header and of the two
  sizes here, so that the file is the same for all three.
\<close>

definition read_direct_header_and_size :: "'d xds_cfg \<Rightarrow> string \<Rightarrow> world \<Rightarrow> (disk_metadata \<times> int) res" where
  "read_direct_header_and_size c path w =
     (case w_files w path of
        None \<Rightarrow> Inl (OSError ''No such file'')
      | Some f \<Rightarrow>
          (case unpack_block_first_header (x_torch c) (take (nat BLOCK_FIRST_HEADER_SIZE) f) of
             Inl e \<Rightarrow> Inl e
           | Inr m \<Rightarrow> Inr (m, int (length f))))"

definition prepare_direct_xds :: "'d xds_cfg \<Rightarrow> string \<Rightarrow> disk_metadata \<Rightarrow> descriptor \<Rightarrow> world \<Rightarrow> exn option" where
  "prepare_direct_xds c path m d w =
     (case validate_direct_descriptor c d RETRIEVE of
        Some e \<Rightarrow> Some e
      | None \<Rightarrow>
          (case read_direct_header_and_size c path w of
             Inl e \<Rightarrow> Some e
           | Inr (current, actual_size) \<Rightarrow>
               if current \<noteq> m then Some (BlockFirstFormatError ''block-first header changed after indexing'')
               else if actual_size \<noteq> BLOCK_FIRST_HEADER_SIZE + m_io_nbytes m
                 then Some (BlockFirstFormatError ''block-first payload size changed after indexing'')
               else validate_runtime (x_torch c) m (hd (x_shapes c)) (hd (x_dtypes c)) (x_model c) (x_world c)
                 (x_worker c) (x_tp c) (x_pp c) (d_block_size d)))"

fun read_segments ::
    "storage_read \<Rightarrow> string \<Rightarrow> allocation list \<Rightarrow> byte_segment list \<Rightarrow> world \<Rightarrow> exn option \<times> world" where
  "read_segments rd path allocs [] w = (None, w)"
| "read_segments rd path allocs (g # gs) w =
     (case rd path (alloc_base (allocs ! nat (seg_allocation g))) (seg_nbytes g) (seg_file_offset g)
         (seg_allocation_offset g) w of
        (ret, w1) \<Rightarrow>
          if ret \<noteq> seg_nbytes g then (Some (RuntimeError ''direct XDS segment read incomplete''), w1)
          else read_segments rd path allocs gs w1)"

fun read_runs :: "storage_read \<Rightarrow> string \<Rightarrow> descriptor \<Rightarrow> block_run list \<Rightarrow> world \<Rightarrow> exn option \<times> world" where
  "read_runs rd path d [] w = (None, w)"
| "read_runs rd path d (r # rs) w =
     (let n = run_count r * d_block_nbytes d in
      case rd path (d_allocation_base d) n (d_file_payload_offset d + run_logical r * d_block_nbytes d)
          (run_physical r * d_block_nbytes d) w of
        (ret, w1) \<Rightarrow>
          if ret \<noteq> n then (Some (RuntimeError ''direct XDS read incomplete''), w1)
          else read_runs rd path d rs w1)"

text \<open>
  The edge buffer is allocated at the first use, at the first 4 KiB boundary of a fresh allocation
  (\<open>fresh\<close> is the address torch gave it), and registered once.
\<close>

definition get_direct_edge_staging :: "int \<Rightarrow> int \<Rightarrow> direct_state \<Rightarrow> int res \<times> direct_state" where
  "get_direct_edge_staging fresh n s =
     (case ds_edge s of
        Some (a, k) \<Rightarrow>
          if k \<noteq> n then (Inl (RuntimeError ''direct edge block size changed at runtime''), s) else (Inr a, s)
      | None \<Rightarrow>
          let a = fresh + (- fresh) mod 4096 in
          (case register_global_buffer a n (ds_hip s) of
             (Some e, h) \<Rightarrow> (Inl e, s\<lparr>ds_hip := h\<rparr>)
           | (None, h) \<Rightarrow> (Inr a, s\<lparr>ds_hip := h, ds_edge := Some (a, n)\<rparr>)))"

definition close_direct_edge_staging :: "direct_state \<Rightarrow> exn option \<times> direct_state" where
  "close_direct_edge_staging s =
     (case ds_edge s of
        None \<Rightarrow> (None, s)
      | Some (a, k) \<Rightarrow>
          (case deregister_global_buffer a (ds_hip s) of
             (Some e, h) \<Rightarrow> (Some e, s\<lparr>ds_hip := h\<rparr>)
           | (None, h) \<Rightarrow> (None, s\<lparr>ds_hip := h, ds_edge := None\<rparr>)))"

definition copy_mem :: "int \<Rightarrow> int \<Rightarrow> int \<Rightarrow> (int \<Rightarrow> byte) \<Rightarrow> int \<Rightarrow> byte" where
  "copy_mem dst src n mem = (\<lambda>x. if dst \<le> x \<and> x < dst + n then mem (src + (x - dst)) else mem x)"

text \<open>
  \<open>_device_to_device_copy\<close> with the HIP library at hand: the \<^verbatim>\<open>OSError\<close> of loading it at the first copy
  is not modelled.
\<close>

definition device_to_device_copy :: "int \<Rightarrow> int \<Rightarrow> int \<Rightarrow> world \<Rightarrow> exn option \<times> world" where
  "device_to_device_copy dst src n w =
     (case next_copy w of (code, w1) \<Rightarrow>
        if code \<noteq> 0 then (Some (RuntimeError ''hipMemcpyDeviceToDevice failed''), w1)
        else (None, w1\<lparr>w_mem := copy_mem dst src n (w_mem w1)\<rparr>))"

text \<open>
  The copies of \<open>_copy_direct_leading_edge\<close>: for every layer and for keys and values, in that order,
  the rows of the tokens that follow the cached ones.
\<close>

fun copy_rows :: "int \<Rightarrow> int \<Rightarrow> int \<Rightarrow> int list \<Rightarrow> world \<Rightarrow> exn option \<times> world" where
  "copy_rows dst src n [] w = (None, w)"
| "copy_rows dst src n (off # offs) w =
     (case device_to_device_copy (dst + off) (src + off) n w of
        (Some e, w1) \<Rightarrow> (Some e, w1)
      | (None, w1) \<Rightarrow> copy_rows dst src n offs w1)"

definition edge_offsets :: "int \<Rightarrow> int \<Rightarrow> int \<Rightarrow> int \<Rightarrow> int list" where
  "edge_offsets layers bs token_offset row =
     concat (map (\<lambda>layer. map (\<lambda>kv. ((layer * 2 + kv) * bs + token_offset) * row) [0, 1])
       (int_range 0 (nat layers)))"

definition copy_direct_leading_edge ::
    "'d xds_cfg \<Rightarrow> descriptor \<Rightarrow> leading_edge \<Rightarrow> int \<Rightarrow> world \<Rightarrow> exn option \<times> world" where
  "copy_direct_leading_edge c d e scratch w =
     (case make_direct_block_first_metadata c of
        Inl x \<Rightarrow> (Some x, w)
      | Inr m \<Rightarrow>
          (case torch_dtype (x_torch c) m of
             Inl x \<Rightarrow> (Some x, w)
           | Inr dt \<Rightarrow>
               let row = m_hidden_dim m * itemsize (x_torch c) dt in
               copy_rows (d_allocation_base d + edge_physical_block e * d_block_nbytes d) scratch
                 (edge_token_count e * row)
                 (edge_offsets (m_num_layers m) (d_block_size d) (edge_token_offset e) row) w))"

definition transfer_edge ::
    "storage_read \<Rightarrow> 'd xds_cfg \<Rightarrow> string \<Rightarrow> int \<Rightarrow> descriptor \<Rightarrow> leading_edge \<Rightarrow> direct_state \<Rightarrow>
     exn option \<times> direct_state" where
  "transfer_edge rd c path fresh d e s =
     (case get_direct_edge_staging fresh (d_block_nbytes d) s of
        (Inl x, s1) \<Rightarrow> (Some x, s1)
      | (Inr a, s1) \<Rightarrow>
          (case rd path a (d_block_nbytes d)
              (d_file_payload_offset d + edge_logical_block e * d_block_nbytes d) 0 (ds_world s1) of
             (ret, w1) \<Rightarrow>
               if ret \<noteq> d_block_nbytes d
                 then (Some (RuntimeError ''direct XDS edge read incomplete''), s1\<lparr>ds_world := w1\<rparr>)
               else (case copy_direct_leading_edge c d e a w1 of (r, w2) \<Rightarrow> (r, s1\<lparr>ds_world := w2\<rparr>))))"

definition transfer_direct_xds ::
    "storage_read \<Rightarrow> 'd xds_cfg \<Rightarrow> string \<Rightarrow> int \<Rightarrow> descriptor \<Rightarrow> direct_state \<Rightarrow> exn option \<times> direct_state" where
  "transfer_direct_xds rd c path fresh d s =
     (case ensure_registered d s of
        (Some e, s1) \<Rightarrow> (Some e, s1)
      | (None, s1) \<Rightarrow>
          if d_byte_segments d \<noteq> [] then
            (case read_segments rd path (registration_allocations d) (d_byte_segments d) (ds_world s1) of
               (r, w) \<Rightarrow> (r, s1\<lparr>ds_world := w\<rparr>))
          else
            (case (case d_leading_edge d of None \<Rightarrow> (None, s1) | Some e \<Rightarrow> transfer_edge rd c path fresh d e s1) of
               (Some e, s2) \<Rightarrow> (Some e, s2)
             | (None, s2) \<Rightarrow>
                 (case read_runs rd path d (d_runs d) (ds_world s2) of (r, w) \<Rightarrow> (r, s2\<lparr>ds_world := w\<rparr>))))"

definition load_direct_xds ::
    "storage_read \<Rightarrow> 'd xds_cfg \<Rightarrow> string \<Rightarrow> disk_metadata \<Rightarrow> int \<Rightarrow> descriptor \<Rightarrow> direct_state \<Rightarrow>
     exn option \<times> direct_state" where
  "load_direct_xds rd c path m fresh d s =
     (case prepare_direct_xds c path m d (ds_world s) of
        Some e \<Rightarrow> (Some e, s)
      | None \<Rightarrow> transfer_direct_xds rd c path fresh d s)"

text \<open>\<open>_can_parallel_direct_retrieve\<close> over the descriptors of the prepared jobs.\<close>

fun blocks_apart :: "int set \<Rightarrow> descriptor list \<Rightarrow> bool" where
  "blocks_apart seen [] = True"
| "blocks_apart seen (d # ds) =
     (let ids = d_physical_block_ids d in
      if d_leading_edge d \<noteq> None \<or> ids = [] then False
      else if \<not> distinct ids \<or> seen \<inter> set ids \<noteq> {} then False
      else blocks_apart (seen \<union> set ids) ds)"

definition can_parallel_direct_retrieve :: "descriptor list \<Rightarrow> bool" where
  "can_parallel_direct_retrieve ds \<longleftrightarrow> 2 \<le> length ds \<and> blocks_apart {} ds"


section \<open>What a retrieve does to memory\<close>

text \<open>
  The specification of a retrieve: a byte of a block that a run names holds the byte of its file block,
  the last run that names it deciding; a byte of the edge block belongs to a row of tokens, and holds
  the file's byte from the first uncached token on; every other byte is what it was. \<open>row\<close> is the
  size of one token's row in one layer's keys or values.
\<close>

definition block_source :: "(int \<times> int) list \<Rightarrow> int \<Rightarrow> int option" where
  "block_source pairs p = map_of (rev (map prod.swap pairs)) p"

definition retrieved :: "descriptor \<Rightarrow> int \<Rightarrow> bytes \<Rightarrow> (int \<Rightarrow> byte) \<Rightarrow> int \<Rightarrow> byte" where
  "retrieved d row f mem x =
     (let p = (x - d_allocation_base d) div d_block_nbytes d;
          j = (x - d_allocation_base d) mod d_block_nbytes d
      in case block_source (block_pairs d) p of
           Some l \<Rightarrow> byte_at f (d_file_payload_offset d + l * d_block_nbytes d + j)
         | None \<Rightarrow>
             (case d_leading_edge d of
                None \<Rightarrow> mem x
              | Some e \<Rightarrow>
                  if p = edge_physical_block e \<and> edge_token_offset e \<le> j mod (d_block_size d * row) div row
                    then byte_at f (d_file_payload_offset d + edge_logical_block e * d_block_nbytes d + j)
                  else mem x))"

lemma block_source_Nil [simp]: "block_source [] = (\<lambda>p. None)"
  by (simp add: block_source_def fun_eq_iff)

lemma block_source_append:
  "block_source (xs @ ys) p = (case block_source ys p of None \<Rightarrow> block_source xs p | Some l \<Rightarrow> Some l)"
  by (simp add: block_source_def map_add_def split: option.split)

lemma block_source_run:
  "block_source (run_pairs r) p =
     (if run_physical r \<le> p \<and> p < run_physical r + run_count r
        then Some (run_logical r + (p - run_physical r)) else None)"
proof -
  let ?n = "nat (run_count r)"
  have "distinct (map fst (map prod.swap (run_pairs r)))"
    by (simp add: run_pairs_def comp_def)
  then have "map_of (rev (map prod.swap (run_pairs r))) = map_of (map prod.swap (run_pairs r))"
    by (subst map_of_inject_set) (simp_all add: rev_map [symmetric])
  moreover have "map prod.swap (run_pairs r) = zip (int_range (run_physical r) ?n) (int_range (run_logical r) ?n)"
    by (rule nth_equalityI) (simp_all add: run_pairs_def)
  ultimately have "block_source (run_pairs r) p =
      map_of (zip (int_range (run_physical r) ?n) (int_range (run_logical r) ?n)) p"
    by (simp add: block_source_def)
  also have "\<dots> = (if run_physical r \<le> p \<and> p < run_physical r + run_count r
        then Some (run_logical r + (p - run_physical r)) else None)"
  proof (cases "run_physical r \<le> p \<and> p < run_physical r + run_count r")
    case True
    then have "nat (p - run_physical r) < ?n" "run_physical r + int (nat (p - run_physical r)) = p" by auto
    then show ?thesis
      using True map_of_zip_nth [of "int_range (run_physical r) ?n" "int_range (run_logical r) ?n"
          "nat (p - run_physical r)"] by simp
  next
    case False
    then show ?thesis by (auto simp: map_of_eq_None_iff set_int_range split: if_splits dest!: set_zip_leftD)
  qed
  finally show ?thesis .
qed

text \<open>Addresses of a range of blocks.\<close>

lemma int_div_less_iff:
  fixes m n q :: int
  assumes "0 < q"
  shows "m div q < n \<longleftrightarrow> m < n * q"
proof
  assume "m div q < n"
  show "m < n * q"
  proof (rule ccontr)
    assume "\<not> m < n * q"
    then have "n * q div q \<le> m div q" using assms by (intro zdiv_mono1) auto
    with \<open>m div q < n\<close> assms show False by simp
  qed
qed (use assms div_less_if_less_mult in blast)

lemma block_range_iff:
  fixes b bn c p x :: int
  assumes "0 < bn"
  shows "b + p * bn \<le> x \<and> x < b + p * bn + c * bn \<longleftrightarrow> p \<le> (x - b) div bn \<and> (x - b) div bn < p + c"
proof -
  have "p * bn \<le> x - b \<longleftrightarrow> p \<le> (x - b) div bn"
    using int_div_less_iff [OF assms, of "x - b" p] by linarith
  moreover have "x - b < (p + c) * bn \<longleftrightarrow> (x - b) div bn < p + c"
    using assms by (simp add: int_div_less_iff)
  ultimately show ?thesis by (auto simp: algebra_simps)
qed

context storage_interface
begin

lemma read_runs_memory:
  assumes "read_runs rd path d rs w = (None, w')" and "w_files w path = Some f" and "0 < d_block_nbytes d"
    and "\<forall>r \<in> set rs. 0 < run_count r"
  shows "w_files w' = w_files w \<and> (\<forall>x. w_mem w' x =
    (case block_source (concat (map run_pairs rs)) ((x - d_allocation_base d) div d_block_nbytes d) of
       Some l \<Rightarrow> byte_at f (d_file_payload_offset d + l * d_block_nbytes d +
         (x - d_allocation_base d) mod d_block_nbytes d)
     | None \<Rightarrow> w_mem w x))"
  using assms
proof (induction rs arbitrary: w)
  case Nil
  then show ?case by simp
next
  case (Cons r rs)
  let ?bn = "d_block_nbytes d"
  let ?n = "run_count r * ?bn"
  let ?fo = "d_file_payload_offset d + run_logical r * ?bn"
  obtain ret w1 where r: "rd path (d_allocation_base d) ?n ?fo (run_physical r * ?bn) w = (ret, w1)"
    by (metis surj_pair)
  with Cons.prems(1) have ret: "ret = ?n" and rest: "read_runs rd path d rs w1 = (None, w')"
    by (auto simp: Let_def split: if_splits)
  have n0: "0 \<le> ?n" using Cons.prems by simp
  note r1 = r [unfolded ret]
  have f1: "w_files w1 = w_files w" by (rule read_files [OF r1])
  have m1: "w_mem w1 = put_mem (d_allocation_base d + run_physical r * ?bn) ?n f ?fo (w_mem w)"
    by (rule read_full [OF r1 n0 Cons.prems(2)])
  have m1x: "w_mem w1 x =
      (case block_source (run_pairs r) ((x - d_allocation_base d) div ?bn) of
         Some l \<Rightarrow> byte_at f (d_file_payload_offset d + l * ?bn + (x - d_allocation_base d) mod ?bn)
       | None \<Rightarrow> w_mem w x)" for x
  proof -
    let ?p = "(x - d_allocation_base d) div ?bn"
    have off: "?fo + (x - (d_allocation_base d + run_physical r * ?bn)) =
        d_file_payload_offset d + (run_logical r + (?p - run_physical r)) * ?bn +
          (x - d_allocation_base d) mod ?bn"
      using div_mult_mod_eq [of "x - d_allocation_base d" ?bn] by (simp add: algebra_simps)
    show ?thesis
      unfolding m1 put_mem_def block_source_run block_range_iff [OF Cons.prems(3)] off by simp
  qed
  have "w_files w1 path = Some f" using f1 Cons.prems by simp
  from Cons.IH [OF rest this] Cons.prems
  show ?case
    by (auto simp: f1 m1x block_source_append split: option.split)
qed

end

subsection \<open>The edge\<close>

lemma copy_rows_memory:
  assumes "copy_rows dst src n offs w = (None, w')" and "0 \<le> n"
    and "\<forall>o1 \<in> set offs. 0 \<le> o1 \<and> o1 + n \<le> m"
    and "dst + m \<le> src \<or> src + m \<le> dst"
  shows "w_files w' = w_files w \<and> (\<forall>x. w_mem w' x =
    (if \<exists>o1 \<in> set offs. dst + o1 \<le> x \<and> x < dst + o1 + n then w_mem w (src + (x - dst)) else w_mem w x))"
  using assms
proof (induction offs arbitrary: w)
  case Nil
  then show ?case by simp
next
  case (Cons o1 offs)
  obtain code w0 where c: "next_copy w = (code, w0)" by (cases "next_copy w")
  note cf = next_copy_fields [OF c]
  let ?w1 = "w0\<lparr>w_mem := copy_mem (dst + o1) (src + o1) n (w_mem w0)\<rparr>"
  have rest: "copy_rows dst src n offs ?w1 = (None, w')"
    using Cons.prems(1) c by (auto simp: device_to_device_copy_def split: if_splits)
  have IH: "w_files w' = w_files ?w1 \<and> (\<forall>x. w_mem w' x =
    (if \<exists>o1 \<in> set offs. dst + o1 \<le> x \<and> x < dst + o1 + n then w_mem ?w1 (src + (x - dst)) else w_mem ?w1 x))"
    by (rule Cons.IH [OF rest]) (use Cons.prems in auto)
  have src: "w_mem ?w1 (src + (x - dst)) = w_mem w (src + (x - dst))"
    if "o2 \<in> set offs" "dst + o2 \<le> x" "x < dst + o2 + n" for x o2
  proof -
    have "0 \<le> o1" "o1 + n \<le> m" "0 \<le> o2" "o2 + n \<le> m" using Cons.prems(3) that(1) by auto
    with Cons.prems(4) that show ?thesis using cf by (auto simp: copy_mem_def)
  qed
  have "w_mem w' x = (if \<exists>o1' \<in> set (o1 # offs). dst + o1' \<le> x \<and> x < dst + o1' + n
      then w_mem w (src + (x - dst)) else w_mem w x)" for x
  proof (cases "\<exists>o2 \<in> set offs. dst + o2 \<le> x \<and> x < dst + o2 + n")
    case True
    then obtain o2 where "o2 \<in> set offs" "dst + o2 \<le> x" "x < dst + o2 + n" by blast
    from src [OF this] True IH show ?thesis by simp
  next
    case False
    have "w_mem w' x = w_mem ?w1 x" using False IH by auto
    also have "\<dots> = (if dst + o1 \<le> x \<and> x < dst + o1 + n then w_mem w (src + (x - dst)) else w_mem w x)"
      using cf by (simp add: copy_mem_def)
    finally have v: "w_mem w' x = (if dst + o1 \<le> x \<and> x < dst + o1 + n then w_mem w (src + (x - dst)) else w_mem w x)" .
    show ?thesis
    proof (cases "dst + o1 \<le> x \<and> x < dst + o1 + n")
      case True
      then show ?thesis unfolding v by auto
    next
      case F: False
      then have "\<not> (\<exists>o2 \<in> set (o1 # offs). dst + o2 \<le> x \<and> x < dst + o2 + n)" using False by simp
      then show ?thesis unfolding v by (simp only: if_not_P [OF F] if_not_P if_False simp_thms)
    qed
  qed
  with IH cf show ?case by simp
qed

text \<open>The bytes of the rows that are copied: those of the tokens from the offset on.\<close>

lemma set_edge_offsets:
  "set (edge_offsets layers bs to row) = (\<lambda>q. (q * bs + to) * row) ` {0..<2 * layers}"
proof -
  have "q \<in> {0..<2 * layers} \<longleftrightarrow> (\<exists>l \<in> {0..<layers}. q = l * 2 \<or> q = l * 2 + 1)" for q :: int
    by (auto intro!: bexI [of _ "q div 2"])
  then have "{0..<2 * layers} = (\<Union>l \<in> {0..<layers}. {l * 2, l * 2 + 1})" by blast
  then show ?thesis
    by (auto simp: edge_offsets_def set_int_range image_UN)
qed

lemma div_mod_parts:
  fixes k s q :: int
  assumes "0 \<le> k" "k < s"
  shows "(q * s + k) div s = q \<and> (q * s + k) mod s = k"
  using assms by simp

lemma edge_row_iff:
  assumes "0 < row" "0 < bs" "0 \<le> to" "to < bs" "0 \<le> layers"
  shows "(\<exists>o1 \<in> set (edge_offsets layers bs to row). o1 \<le> j \<and> j < o1 + (bs - to) * row) \<longleftrightarrow>
    0 \<le> j \<and> j < 2 * layers * bs * row \<and> to \<le> j mod (bs * row) div row" (is "?L \<longleftrightarrow> ?R")
proof -
  let ?s = "bs * row"
  have s: "0 < ?s" using assms by simp
  have row: "(q * bs + to) * row \<le> j \<and> j < (q * bs + to) * row + (bs - to) * row \<longleftrightarrow>
      j div ?s = q \<and> to \<le> j mod ?s div row" for q
  proof -
    have "(q * bs + to) * row \<le> j \<and> j < (q * bs + to) * row + (bs - to) * row \<longleftrightarrow>
        to * row \<le> j - q * ?s \<and> j - q * ?s < ?s"
    proof -
      have "(q * bs + to) * row = q * ?s + to * row" "(bs - to) * row = ?s - to * row"
        by (simp_all add: algebra_simps)
      then show ?thesis by (simp only:) linarith
    qed
    also have "\<dots> \<longleftrightarrow> j div ?s = q \<and> to * row \<le> j mod ?s"
    proof
      assume a: "to * row \<le> j - q * ?s \<and> j - q * ?s < ?s"
      have "0 \<le> to * row" using assms by simp
      with a have "0 \<le> j - q * ?s" by linarith
      then have "(q * ?s + (j - q * ?s)) div ?s = q \<and> (q * ?s + (j - q * ?s)) mod ?s = j - q * ?s"
        using a s by (intro div_mod_parts) auto
      then have "j div ?s = q" "j mod ?s = j - q * ?s" by simp_all
      with a show "j div ?s = q \<and> to * row \<le> j mod ?s" by simp
    next
      assume a: "j div ?s = q \<and> to * row \<le> j mod ?s"
      then have "j - q * ?s = j mod ?s" by (metis minus_div_mult_eq_mod)
      with a s pos_mod_bound [OF s, of j] show "to * row \<le> j - q * ?s \<and> j - q * ?s < ?s" by simp
    qed
    also have "to * row \<le> j mod ?s \<longleftrightarrow> to \<le> j mod ?s div row"
      using int_div_less_iff [OF assms(1), of "j mod ?s" to] by linarith
    finally show ?thesis .
  qed
  have "?L \<longleftrightarrow> (\<exists>q \<in> {0..<2 * layers}. j div ?s = q \<and> to \<le> j mod ?s div row)"
    by (simp add: set_edge_offsets row)
  also have "\<dots> \<longleftrightarrow> j div ?s \<in> {0..<2 * layers} \<and> to \<le> j mod ?s div row" by blast
  also have "j div ?s \<in> {0..<2 * layers} \<longleftrightarrow> 0 \<le> j \<and> j < 2 * layers * bs * row"
    using s by (simp add: pos_imp_zdiv_nonneg_iff int_div_less_iff mult.assoc)
  finally show ?thesis by simp
qed


subsection \<open>A whole retrieve\<close>

lemma ensure_registered_world: "ensure_registered d s = (r, s1) \<Longrightarrow> ds_world s1 = ds_world s \<and> ds_edge s1 = ds_edge s"
  by (auto simp: ensure_registered_def split: prod.splits)

lemma get_direct_edge_staging_ok:
  assumes "get_direct_edge_staging fresh n s = (Inr a, s1)"
  shows "ds_world s1 = ds_world s \<and> ds_edge s1 = Some (a, n)"
  using assms by (auto simp: get_direct_edge_staging_def Let_def split: option.splits prod.splits if_splits)

text \<open>What the checks before a retrieve guarantee: the engine's block holds the rows of all layers.\<close>

lemma validate_direct_None:
  assumes "validate_direct_descriptor c d dir = None"
  shows "validate_descriptor d True True = None \<and> x_block_size c = Some (d_block_size d) \<and> d_direction d = dir \<and>
    d_block_nbytes d = hd (x_shapes c) ! 0 * hd (x_shapes c) ! 1 * d_block_size d *
      hd (x_shapes c) ! 3 * itemsize (x_torch c) (hd (x_dtypes c)) \<and>
    d_logical_block_start d + d_logical_block_count d \<le> chunk_blocks c (d_block_size d)"
  using assms unfolding validate_direct_descriptor_def
  by (simp only: option.case_eq_if guard_simps split: if_splits) (auto split: if_splits)

lemma validate_runtime_None:
  assumes "validate_runtime T m shape dt mn ws wi tp pp bs = None"
  shows "validate T m = None \<and> m_logical_shape m = shape \<and> torch_dtype T m = Inr dt"
  using assms by (auto simp: validate_runtime_def split: option.splits sum.splits if_splits)

lemma create_dtype:
  assumes "torch_api_ok T" and "create T shape dt bs mn ws wi tp pp = Inr m"
  shows "torch_dtype T m = Inr dt"
  using assms dtype_name_parse [OF assms(1), of dt]
  by (auto simp: create_def torch_dtype_def Let_def split: sum.splits option.splits)

lemma prepared_fields:
  assumes "prepare_direct_xds c path m d w = None"
  shows "\<exists>f. w_files w path = Some f \<and> unpack_block_first_header (x_torch c) (take 4096 f) = Inr m \<and>
    int (length f) = 4096 + m_io_nbytes m \<and> validate_direct_descriptor c d RETRIEVE = None \<and>
    validate_runtime (x_torch c) m (hd (x_shapes c)) (hd (x_dtypes c)) (x_model c) (x_world c)
      (x_worker c) (x_tp c) (x_pp c) (d_block_size d) = None"
  using assms
  by (auto simp: prepare_direct_xds_def read_direct_header_and_size_def BLOCK_FIRST_HEADER_SIZE_def
      split: option.splits sum.splits if_splits)

definition edge_row :: "'d xds_cfg \<Rightarrow> disk_metadata \<Rightarrow> int" where
  "edge_row c m = m_hidden_dim m * itemsize (x_torch c) (hd (x_dtypes c))"

lemma prepared_block:
  assumes "prepare_direct_xds c path m d w = None" and "torch_api_ok (x_torch c)"
  shows "hd (x_shapes c) = [2, m_num_layers m, m_valid_tokens m, m_hidden_dim m]" and "0 < m_num_layers m"
    and "0 < edge_row c m" and "d_block_nbytes d = 2 * m_num_layers m * d_block_size d * edge_row c m"
    and "m_io_nbytes m \<ge> m_payload_nbytes m"
    and "m_payload_nbytes m = 2 * m_num_layers m * m_valid_tokens m * edge_row c m"
proof -
  from prepared_fields [OF assms(1)] have p: "validate_direct_descriptor c d RETRIEVE = None"
    and r: "validate_runtime (x_torch c) m (hd (x_shapes c)) (hd (x_dtypes c)) (x_model c) (x_world c)
      (x_worker c) (x_tp c) (x_pp c) (d_block_size d) = None" by blast+
  note r' = validate_runtime_None [OF r]
  note d = validate_direct_None [OF p]
  have v: "block_first_shape (m_logical_shape m) (m_block_size m) = Inr (m_payload_shape m)"
    "align_up (m_payload_nbytes m) BLOCK_FIRST_ALIGNMENT = Inr (m_io_nbytes m)"
    "m_payload_nbytes m = prod_list (m_payload_shape m) * itemsize (x_torch c) (hd (x_dtypes c))"
    "m_valid_tokens m = m_logical_shape m ! 2" "m_num_layers m = m_logical_shape m ! 1"
    "m_hidden_dim m = m_logical_shape m ! 3"
    using r' by (auto simp: validate_None_iff)
  obtain nl t h where sh: "hd (x_shapes c) = [2, nl, t, h]" "0 < nl" "0 < t" "0 < h" "m_block_size m dvd t"
    using v(1) r' by (auto simp: block_first_shape_Inr)
  have pr: "prod_list (m_payload_shape m) = prod_list (hd (x_shapes c))"
    using block_first_shape_prod [OF v(1)] r' by simp
  have pos: "0 < itemsize (x_torch c) (hd (x_dtypes c))" using assms(2) by (simp add: torch_api_ok_def)
  have io: "m_io_nbytes m = (m_payload_nbytes m + 4096 - 1) div 4096 * 4096"
    using v(2) by (auto simp: align_up_Inr BLOCK_FIRST_ALIGNMENT_def)
  show "hd (x_shapes c) = [2, m_num_layers m, m_valid_tokens m, m_hidden_dim m]" "0 < m_num_layers m"
    "0 < edge_row c m" "d_block_nbytes d = 2 * m_num_layers m * d_block_size d * edge_row c m"
    "m_payload_nbytes m = 2 * m_num_layers m * m_valid_tokens m * edge_row c m"
    using v r' sh d pos pr by (simp_all add: edge_row_def)
  show "m_payload_nbytes m \<le> m_io_nbytes m" using ceil_mult_bounds(1) [of 4096 "m_payload_nbytes m"] io by simp
qed

context storage_interface
begin

lemma transfer_edge_memory:
  assumes run: "transfer_edge rd c path fresh d e s = (None, s')" and f: "w_files (ds_world s) path = Some f"
    and pos: "0 < row" "0 < d_block_size d" "0 \<le> nl" "d_block_nbytes d = 2 * nl * d_block_size d * row"
    and off: "0 \<le> edge_token_offset e" "edge_token_offset e < d_block_size d"
      "edge_token_count e = d_block_size d - edge_token_offset e"
    and md: "make_direct_block_first_metadata c = Inr m" "torch_dtype (x_torch c) m = Inr dt"
      "m_num_layers m = nl" "m_hidden_dim m * itemsize (x_torch c) dt = row"
    and ap: "\<And>a. ds_edge s' = Some (a, d_block_nbytes d) \<Longrightarrow>
      dst + d_block_nbytes d \<le> a \<or> a + d_block_nbytes d \<le> dst"
    and dst: "dst = d_allocation_base d + edge_physical_block e * d_block_nbytes d"
  shows "\<exists>a. ds_edge s' = Some (a, d_block_nbytes d) \<and> w_files (ds_world s') = w_files (ds_world s) \<and>
    (\<forall>x. x < a \<or> a + d_block_nbytes d \<le> x \<longrightarrow> w_mem (ds_world s') x =
      (if dst \<le> x \<and> x < dst + d_block_nbytes d \<and> edge_token_offset e \<le> (x - dst) mod (d_block_size d * row) div row
       then byte_at f (d_file_payload_offset d + edge_logical_block e * d_block_nbytes d + (x - dst))
       else w_mem (ds_world s) x))"
proof -
  let ?bn = "d_block_nbytes d"
  let ?fo = "d_file_payload_offset d + edge_logical_block e * ?bn"
  let ?offs = "edge_offsets nl (d_block_size d) (edge_token_offset e) row"
  let ?n = "edge_token_count e * row"
  obtain a s1 where g: "get_direct_edge_staging fresh ?bn s = (Inr a, s1)"
    using run by (auto simp: transfer_edge_def split: prod.splits sum.splits)
  note gf = get_direct_edge_staging_ok [OF g]
  obtain ret w1 where r: "rd path a ?bn ?fo 0 (ds_world s1) = (ret, w1)" by (metis surj_pair)
  obtain w2 where w2: "ret = ?bn" "copy_rows dst a ?n ?offs w1 = (None, w2)" "s' = s1\<lparr>ds_world := w2\<rparr>"
    using run g r md by (auto simp: transfer_edge_def copy_direct_leading_edge_def Let_def dst
        split: prod.splits if_splits)
  have bn: "0 \<le> ?bn" using pos by simp
  note r1 = r [unfolded w2(1)]
  have m1: "w_mem w1 = put_mem a ?bn f ?fo (w_mem (ds_world s))"
    using read_full [OF r1 bn] f gf by simp
  have f1: "w_files w1 = w_files (ds_world s)" using read_files [OF r1] gf by simp
  have ea: "ds_edge s' = Some (a, ?bn)" using w2 gf by simp
  note apart = ap [OF ea]
  have bounds: "\<forall>o1 \<in> set ?offs. 0 \<le> o1 \<and> o1 + ?n \<le> ?bn"
  proof
    fix o1 assume "o1 \<in> set ?offs"
    then obtain q where q: "0 \<le> q" "q < 2 * nl" "o1 = (q * d_block_size d + edge_token_offset e) * row"
      by (auto simp: set_edge_offsets)
    have "o1 + ?n = (q + 1) * d_block_size d * row" by (simp add: q off algebra_simps)
    also have "\<dots> \<le> 2 * nl * d_block_size d * row" using q pos by (intro mult_right_mono) auto
    finally have "o1 + ?n \<le> ?bn" using pos by simp
    moreover have "0 \<le> o1" using q pos off by simp
    ultimately show "0 \<le> o1 \<and> o1 + ?n \<le> ?bn" by simp
  qed
  have n: "0 \<le> ?n" using off pos by simp
  note c = copy_rows_memory [OF w2(2) n bounds apart]
  have val: "w_mem w2 x =
      (if dst \<le> x \<and> x < dst + ?bn \<and> edge_token_offset e \<le> (x - dst) mod (d_block_size d * row) div row
       then byte_at f (?fo + (x - dst)) else w_mem (ds_world s) x)" if out: "x < a \<or> a + ?bn \<le> x" for x
  proof -
    have "(\<exists>o1 \<in> set ?offs. dst + o1 \<le> x \<and> x < dst + o1 + ?n) \<longleftrightarrow>
        (\<exists>o1 \<in> set ?offs. o1 \<le> x - dst \<and> x - dst < o1 + (d_block_size d - edge_token_offset e) * row)"
      by (rule bex_cong) (auto simp: off)
    also have "\<dots> \<longleftrightarrow> 0 \<le> x - dst \<and> x - dst < 2 * nl * d_block_size d * row \<and>
        edge_token_offset e \<le> (x - dst) mod (d_block_size d * row) div row"
      by (rule edge_row_iff) (use pos off in auto)
    also have "\<dots> \<longleftrightarrow> dst \<le> x \<and> x < dst + ?bn \<and>
        edge_token_offset e \<le> (x - dst) mod (d_block_size d * row) div row"
      using pos(4) by auto
    finally have iff: "(\<exists>o1 \<in> set ?offs. dst + o1 \<le> x \<and> x < dst + o1 + ?n) \<longleftrightarrow> \<dots>" .
    have w2x: "w_mem w2 x = (if \<exists>o1 \<in> set ?offs. dst + o1 \<le> x \<and> x < dst + o1 + ?n
        then w_mem w1 (a + (x - dst)) else w_mem w1 x)" using c by blast
    have keep: "w_mem w1 x = w_mem (ds_world s) x" using out by (auto simp: m1 put_mem_def)
    show ?thesis
    proof (cases "dst \<le> x \<and> x < dst + ?bn \<and> edge_token_offset e \<le> (x - dst) mod (d_block_size d * row) div row")
      case True
      then have "w_mem w2 x = w_mem w1 (a + (x - dst))" using w2x iff by simp
      also have "\<dots> = byte_at f (?fo + (x - dst))" using True by (simp add: m1 put_mem_def)
      finally show ?thesis using True by simp
    next
      case False
      show ?thesis unfolding w2x iff keep if_not_P [OF False] ..
    qed
  qed
  show ?thesis using ea val c f1 w2(3) by auto
qed

end


definition edge_apart :: "descriptor \<Rightarrow> direct_state \<Rightarrow> bool" where
  "edge_apart d s \<longleftrightarrow>
     (case ds_edge s of
        None \<Rightarrow> True
      | Some (a, n) \<Rightarrow> d_allocation_base d + d_allocation_nbytes d \<le> a \<or> a + n \<le> d_allocation_base d)"

text \<open>The addresses of the edge buffer after a transfer: it is there only when a transfer needed it.\<close>

definition edge_buffer :: "direct_state \<Rightarrow> int set" where
  "edge_buffer s = (case ds_edge s of None \<Rightarrow> {} | Some (a, n) \<Rightarrow> {a..<a + n})"

lemma runs_positive:
  assumes "check_runs cap l t rs = Inr t'"
  shows "\<forall>r \<in> set rs. 0 < run_count r"
  using assms by (induction cap l t rs rule: check_runs.induct) (auto split: if_splits)

lemma block_position:
  fixes b bn p x :: int
  assumes "0 < bn"
  shows "b + p * bn \<le> x \<and> x < b + p * bn + bn \<longleftrightarrow> (x - b) div bn = p"
    and "(x - b) div bn = p \<Longrightarrow> x - (b + p * bn) = (x - b) mod bn"
proof -
  show "b + p * bn \<le> x \<and> x < b + p * bn + bn \<longleftrightarrow> (x - b) div bn = p"
    using block_range_iff [OF assms, of b p x 1] by auto
  show "x - (b + p * bn) = (x - b) mod bn" if "(x - b) div bn = p"
    using div_mult_mod_eq [of "x - b" bn] that by simp
qed

lemma edge_block_inside:
  assumes "validate_descriptor d rc ra = None" "d_byte_segments d = []" "d_leading_edge d = Some e"
  shows "0 \<le> edge_physical_block e" "(edge_physical_block e + 1) * d_block_nbytes d \<le> d_allocation_nbytes d"
    and "0 < edge_token_offset e" "edge_token_offset e < d_block_size d"
    and "edge_token_count e = d_block_size d - edge_token_offset e"
    and "d_logical_block_start d = edge_logical_block e + 1"
    and "d_valid_token_start d = edge_logical_block e * d_block_size d + edge_token_offset e"
proof -
  note v = validate_descriptor_runs [OF assms(1,2)]
  have p: "0 \<le> edge_physical_block e" "edge_physical_block e < d_allocation_nbytes d div d_block_nbytes d"
    "0 < edge_token_offset e" "edge_token_offset e < d_block_size d"
    "edge_token_count e = d_block_size d - edge_token_offset e"
    "d_logical_block_start d = edge_logical_block e + 1"
    "d_valid_token_start d = edge_logical_block e * d_block_size d + edge_token_offset e"
    using v(2) assms(3) by (auto simp: check_tokens_def guard_simps split: if_splits)
  have "(edge_physical_block e + 1) * d_block_nbytes d \<le> d_allocation_nbytes d div d_block_nbytes d * d_block_nbytes d"
    using p v(3) by (intro mult_right_mono) auto
  also have "\<dots> \<le> d_allocation_nbytes d"
    using v(3) by (simp add: minus_mod_eq_div_mult [symmetric])
  finally show "(edge_physical_block e + 1) * d_block_nbytes d \<le> d_allocation_nbytes d" .
  show "0 \<le> edge_physical_block e" "0 < edge_token_offset e" "edge_token_offset e < d_block_size d"
    "edge_token_count e = d_block_size d - edge_token_offset e"
    "d_logical_block_start d = edge_logical_block e + 1"
    "d_valid_token_start d = edge_logical_block e * d_block_size d + edge_token_offset e" using p by auto
qed

context storage_interface
begin

lemma load_direct_memory:
  assumes run: "load_direct_xds rd c path m fresh d s = (None, s')" and ok: "torch_api_ok (x_torch c)"
    and seg: "d_byte_segments d = []" and ap: "d_leading_edge d \<noteq> None \<longrightarrow> edge_apart d s'"
  shows "\<exists>f. w_files (ds_world s) path = Some f \<and> int (length f) = 4096 + m_io_nbytes m \<and>
    w_files (ds_world s') = w_files (ds_world s) \<and>
    (\<forall>x. x \<notin> (if d_leading_edge d = None then {} else edge_buffer s') \<longrightarrow>
      w_mem (ds_world s') x = retrieved d (edge_row c m) f (w_mem (ds_world s)) x)"
proof -
  let ?bn = "d_block_nbytes d"
  have prep: "prepare_direct_xds c path m d (ds_world s) = None"
    and tr: "transfer_direct_xds rd c path fresh d s = (None, s')"
    using run by (auto simp: load_direct_xds_def split: option.splits)
  obtain f where f: "w_files (ds_world s) path = Some f" "int (length f) = 4096 + m_io_nbytes m"
    "validate_direct_descriptor c d RETRIEVE = None"
    using prepared_fields [OF prep] by blast
  note vd = validate_direct_None [OF f(3)]
  have val: "validate_descriptor d True True = None" using vd by blast
  note v = validate_descriptor_runs [OF val seg]
  note pb = prepared_block [OF prep ok]
  obtain s1 where reg: "ensure_registered d s = (None, s1)"
    using tr by (auto simp: transfer_direct_xds_def split: prod.splits option.splits)
  note w1 = ensure_registered_world [OF reg]
  define edge where "edge = (case d_leading_edge d of None \<Rightarrow> (None, s1) | Some e \<Rightarrow> transfer_edge rd c path fresh d e s1)"
  obtain s2 w3 where e: "edge = (None, s2)" and rr: "read_runs rd path d (d_runs d) (ds_world s2) = (None, w3)"
    and s': "s' = s2\<lparr>ds_world := w3\<rparr>"
    using tr reg seg by (auto simp: transfer_direct_xds_def edge_def split: prod.splits option.splits)
  have es: "ds_edge s' = ds_edge s2" by (simp add: s')
  have E: "w_files (ds_world s2) = w_files (ds_world s) \<and>
    (\<forall>x. x \<notin> (if d_leading_edge d = None then {} else edge_buffer s') \<longrightarrow> w_mem (ds_world s2) x =
      (case d_leading_edge d of None \<Rightarrow> w_mem (ds_world s) x
       | Some e \<Rightarrow>
          if (x - d_allocation_base d) div ?bn = edge_physical_block e \<and>
            edge_token_offset e \<le> (x - d_allocation_base d) mod ?bn mod (d_block_size d * edge_row c m) div edge_row c m
          then byte_at f (d_file_payload_offset d + edge_logical_block e * ?bn + (x - d_allocation_base d) mod ?bn)
          else w_mem (ds_world s) x))"
  proof (cases "d_leading_edge d")
    case None
    then show ?thesis using e w1 by (simp add: edge_def)
  next
    case (Some e)
    note ei = edge_block_inside [OF val seg Some]
    let ?dst = "d_allocation_base d + edge_physical_block e * ?bn"
    have te: "transfer_edge rd c path fresh d e s1 = (None, s2)"
      using \<open>edge = (None, s2)\<close> Some by (simp add: edge_def)
    obtain m2 dt where m2: "make_direct_block_first_metadata c = Inr m2" "torch_dtype (x_torch c) m2 = Inr dt"
      using te by (auto simp: transfer_edge_def copy_direct_leading_edge_def split: prod.splits sum.splits if_splits)
    obtain bs where cr: "create (x_torch c) (hd (x_shapes c)) (hd (x_dtypes c)) bs (x_model c) (x_world c)
        (x_worker c) (x_tp c) (x_pp c) = Inr m2"
      using m2(1) by (auto simp: make_direct_block_first_metadata_def split: option.splits if_splits)
    have m2': "m_num_layers m2 = m_num_layers m" "m_hidden_dim m2 * itemsize (x_torch c) dt = edge_row c m"
      using create_fields [OF cr] create_dtype [OF ok cr] m2(2) pb(1) by (auto simp: edge_row_def)
    have ap': "?dst + ?bn \<le> a \<or> a + ?bn \<le> ?dst" if "ds_edge s2 = Some (a, ?bn)" for a
    proof -
      have "d_allocation_base d + d_allocation_nbytes d \<le> a \<or> a + ?bn \<le> d_allocation_base d"
        using ap Some that es by (simp add: edge_apart_def)
      moreover have "0 \<le> edge_physical_block e * ?bn" using ei(1) v(3) by simp
      moreover have "(edge_physical_block e + 1) * ?bn = edge_physical_block e * ?bn + ?bn" by (simp add: algebra_simps)
      ultimately show ?thesis using ei(2) by linarith
    qed
    have "w_files (ds_world s1) path = Some f" "0 \<le> m_num_layers m" "0 \<le> edge_token_offset e" using w1 f pb ei by simp_all
    from transfer_edge_memory [OF te this(1) pb(3) v(5) this(2) pb(4) this(3) ei(4,5) m2 m2' ap' refl]
    obtain a where a: "ds_edge s2 = Some (a, ?bn)" "w_files (ds_world s2) = w_files (ds_world s1)"
      and x: "\<forall>x. x < a \<or> a + ?bn \<le> x \<longrightarrow> w_mem (ds_world s2) x =
      (if ?dst \<le> x \<and> x < ?dst + ?bn \<and> edge_token_offset e \<le> (x - ?dst) mod (d_block_size d * edge_row c m) div edge_row c m
       then byte_at f (d_file_payload_offset d + edge_logical_block e * ?bn + (x - ?dst))
       else w_mem (ds_world s1) x)" by blast
    have "w_mem (ds_world s2) x =
       (if (x - d_allocation_base d) div ?bn = edge_physical_block e \<and>
            edge_token_offset e \<le> (x - d_allocation_base d) mod ?bn mod (d_block_size d * edge_row c m) div edge_row c m
          then byte_at f (d_file_payload_offset d + edge_logical_block e * ?bn + (x - d_allocation_base d) mod ?bn)
          else w_mem (ds_world s) x)" if "x \<notin> edge_buffer s'" for x
    proof -
      have out: "x < a \<or> a + ?bn \<le> x" using that a(1) es by (auto simp: edge_buffer_def)
      note bp = block_position [OF v(3), where b = "d_allocation_base d" and p = "edge_physical_block e" and x = x]
      show ?thesis
        unfolding x [rule_format, OF out]
        using bp w1 by (cases "(x - d_allocation_base d) div ?bn = edge_physical_block e") auto
    qed
    then show ?thesis using a w1 by (simp add: Some)
  qed
  have "w_files (ds_world s2) path = Some f" using E f by simp
  from read_runs_memory [OF rr this v(3) runs_positive [OF v(1)]]
  have "w_files (ds_world s') = w_files (ds_world s2) \<and> (\<forall>x. w_mem (ds_world s') x =
    (case block_source (block_pairs d) ((x - d_allocation_base d) div ?bn) of
       Some l \<Rightarrow> byte_at f (d_file_payload_offset d + l * ?bn + (x - d_allocation_base d) mod ?bn)
     | None \<Rightarrow> w_mem (ds_world s2) x))"
    by (simp add: s' block_pairs_def)
  then show ?thesis using E f by (auto simp: retrieved_def Let_def split: option.split)
qed

end

end
