(* ===== verification/Xds_Index.thy ===== *)
theory Xds_Index
  imports Xds_Transfer
begin

text \<open>
  The index of the XDS backend (\<^verbatim>\<open>XdsBackend\<close> in \<^verbatim>\<open>storage_backend/xds_backend.py\<close>): which keys are
  cached where, how much of the quota is taken or reserved, which stores are under way, and every
  operation on it: look-ups and pins, the staged and the direct store, eviction, removal, loads, and
  the entries that the start-up scan adds. The eviction policy is a parameter, as its code belongs to
  LMCache; the memory objects are values with a reference count kept beside them.
\<close>

section \<open>State\<close>

record entry =
  e_path :: string
  e_size :: int
  e_shape :: "int list"
  e_dtype :: string
  e_pins :: int
  e_disk :: "disk_metadata option"

type_synonym 'k cache = "('k \<times> entry) list"

text \<open>
  The policy's methods over its own state \<open>'p\<close> and the mapping of the backend: \<^verbatim>\<open>update_on_hit\<close>,
  \<^verbatim>\<open>update_on_put\<close>, \<^verbatim>\<open>update_on_force_evict\<close> and \<^verbatim>\<open>get_evict_candidates(cache, 1)\<close>.
\<close>

record ('k, 'p) policy =
  pol_hit :: "'k \<Rightarrow> 'p \<Rightarrow> 'k cache \<Rightarrow> exn option \<times> 'p \<times> 'k cache"
  pol_put :: "'k \<Rightarrow> 'p \<Rightarrow> 'p"
  pol_forget :: "'k \<Rightarrow> 'p \<Rightarrow> 'p"
  pol_candidates :: "'p \<Rightarrow> 'k cache \<Rightarrow> 'k list \<times> 'p"

text \<open>
  A memory object: its identity, its tensor, its logical and physical sizes, its bytes and its address
  in the registered pool, and the shape and data type of its metadata.
\<close>

record 'd mem_obj =
  mo_id :: nat
  mo_chunk :: "'d chunk option"
  mo_size :: int
  mo_physical :: int
  mo_bytes :: bytes
  mo_address :: int
  mo_shape :: "int list"
  mo_dtype :: string

record ('k, 'd) put_job =
  j_key :: 'k
  j_obj :: "'d mem_obj"
  j_reserved :: int

record ('k, 'd, 'p) index =
  ix_cache :: "'k cache"
  ix_policy :: 'p
  ix_tasks :: "'k list"
  ix_jobs :: "('k, 'd) put_job list"
  ix_size :: int
  ix_request :: "'k list"
  ix_refs :: "nat \<Rightarrow> int"
  ix_io :: direct_state

text \<open>
  What does not change after construction: the configuration, the policy, the storage interface, the
  staging buffer, the base pointer of the registered pool, the block size of the file system, how a key
  becomes a hash and a text, how a text becomes a key again and the rank of a key (LMCache's
  \<^verbatim>\<open>CacheEngineKey\<close>), whether there is an allocator, and the item size of a data type by name.
\<close>

record ('k, 'd, 'p) env =
  en_cfg :: "'d xds_cfg"
  en_policy :: "('k, 'p) policy"
  en_rd :: storage_read
  en_wr :: storage_read
  en_staging :: "'d staging option"
  en_base :: int
  en_fs_block :: int
  en_hash :: "'k \<Rightarrow> string"
  en_text :: "'k \<Rightarrow> string"
  en_key :: "string \<Rightarrow> 'k res"
  en_worker :: "'k \<Rightarrow> int"
  en_allocator :: bool
  en_isize :: "string \<Rightarrow> int"
  en_memory :: nat

abbreviation ix_world :: "('k, 'd, 'p) index \<Rightarrow> world" where
  "ix_world s \<equiv> ds_world (ix_io s)"

definition set_world :: "world \<Rightarrow> ('k, 'd, 'p) index \<Rightarrow> ('k, 'd, 'p) index" where
  "set_world w s = s\<lparr>ix_io := (ix_io s)\<lparr>ds_world := w\<rparr>\<rparr>"

definition path_of :: "('k, 'd, 'p) env \<Rightarrow> bool \<Rightarrow> 'k \<Rightarrow> string" where
  "path_of v bf k = key_to_path (x_root (en_cfg v)) (en_hash v k) (en_text v k) bf"

definition policy_hit :: "('k, 'd, 'p) env \<Rightarrow> 'k \<Rightarrow> ('k, 'd, 'p) index \<Rightarrow> exn option \<times> ('k, 'd, 'p) index" where
  "policy_hit v k s =
     (case pol_hit (en_policy v) k (ix_policy s) (ix_cache s) of
        (r, p, c) \<Rightarrow> (r, s\<lparr>ix_policy := p, ix_cache := c\<rparr>))"

definition count_ref :: "nat \<Rightarrow> int \<Rightarrow> ('k, 'd, 'p) index \<Rightarrow> ('k, 'd, 'p) index" where
  "count_ref i n s = s\<lparr>ix_refs := (ix_refs s)(i := ix_refs s i + n)\<rparr>"

section \<open>The tasks of the worker\<close>

definition exists_in_put_tasks :: "'k \<Rightarrow> ('k, 'd, 'p) index \<Rightarrow> bool" where
  "exists_in_put_tasks k s \<longleftrightarrow> k \<in> set (ix_tasks s)"

definition insert_put_task :: "'k \<Rightarrow> ('k, 'd, 'p) index \<Rightarrow> ('k, 'd, 'p) index" where
  "insert_put_task k s = s\<lparr>ix_tasks := ix_tasks s @ [k]\<rparr>"

definition remove_put_task :: "'k \<Rightarrow> ('k, 'd, 'p) index \<Rightarrow> ('k, 'd, 'p) index" where
  "remove_put_task k s = s\<lparr>ix_tasks := remove1 k (ix_tasks s)\<rparr>"

section \<open>Look-ups and pins\<close>

definition pin_entry :: "int \<Rightarrow> 'k \<Rightarrow> 'k cache \<Rightarrow> 'k cache" where
  "pin_entry n k c = map (\<lambda>(k', e). if k' = k then (k', e\<lparr>e_pins := e_pins e + n\<rparr>) else (k', e)) c"

definition contains_key :: "'k \<Rightarrow> bool \<Rightarrow> ('k, 'd, 'p) index \<Rightarrow> bool \<times> ('k, 'd, 'p) index" where
  "contains_key k want_pin s =
     (if map_of (ix_cache s) k = None then (False, s)
      else if want_pin
        then (True, s\<lparr>ix_cache := pin_entry 1 k (ix_cache s), ix_request := ix_request s @ [k]\<rparr>)
      else (True, s))"

fun batched_async_contains :: "'k list \<Rightarrow> bool \<Rightarrow> nat \<Rightarrow> ('k, 'd, 'p) index \<Rightarrow> nat \<times> ('k, 'd, 'p) index" where
  "batched_async_contains [] want_pin n s = (n, s)"
| "batched_async_contains (k # ks) want_pin n s =
     (case contains_key k want_pin s of
        (False, s') \<Rightarrow> (n, s')
      | (True, s') \<Rightarrow> batched_async_contains ks want_pin (n + 1) s')"

definition pin_key :: "'k \<Rightarrow> ('k, 'd, 'p) index \<Rightarrow> bool \<times> ('k, 'd, 'p) index" where
  "pin_key k s =
     (if map_of (ix_cache s) k = None then (False, s)
      else (True, s\<lparr>ix_cache := pin_entry 1 k (ix_cache s)\<rparr>))"

definition unpin_key :: "'k \<Rightarrow> ('k, 'd, 'p) index \<Rightarrow> bool \<times> ('k, 'd, 'p) index" where
  "unpin_key k s =
     (if map_of (ix_cache s) k = None then (False, s)
      else (True, s\<lparr>ix_cache := pin_entry (- 1) k (ix_cache s)\<rparr>))"

text \<open>\<^verbatim>\<open>touch_cache\<close>: an exception of the policy leaves the list of requested keys as it is.\<close>

fun hit_all :: "('k, 'd, 'p) env \<Rightarrow> 'k list \<Rightarrow> ('k, 'd, 'p) index \<Rightarrow> exn option \<times> ('k, 'd, 'p) index" where
  "hit_all v [] s = (None, s)"
| "hit_all v (k # ks) s =
     (case policy_hit v k s of (Some e, s') \<Rightarrow> (Some e, s') | (None, s') \<Rightarrow> hit_all v ks s')"

definition touch_cache :: "('k, 'd, 'p) env \<Rightarrow> ('k, 'd, 'p) index \<Rightarrow> exn option \<times> ('k, 'd, 'p) index" where
  "touch_cache v s =
     (case hit_all v (rev (ix_request s)) s of
        (Some e, s') \<Rightarrow> (Some e, s')
      | (None, s') \<Rightarrow> (None, s'\<lparr>ix_request := []\<rparr>))"

section \<open>Removal and eviction\<close>

text \<open>Removals whose \<^verbatim>\<open>OSError\<close> is swallowed.\<close>

fun unlink_each :: "string list \<Rightarrow> world \<Rightarrow> world" where
  "unlink_each [] w = w"
| "unlink_each (p # ps) w = unlink_each ps (snd (os_remove p w))"

definition entry_files :: "string \<Rightarrow> string list" where
  "entry_files path = [path @ METADATA_SUFFIX, path]"

definition remove_key :: "('k, 'd, 'p) env \<Rightarrow> 'k \<Rightarrow> ('k, 'd, 'p) index \<Rightarrow> bool \<times> ('k, 'd, 'p) index" where
  "remove_key v k s =
     (case map_of (ix_cache s) k of
        None \<Rightarrow> (False, s)
      | Some e \<Rightarrow>
          (True, set_world (unlink_each (entry_files (e_path e)) (ix_world s))
             (s\<lparr>ix_cache := dict_del k (ix_cache s), ix_policy := pol_forget (en_policy v) k (ix_policy s),
                ix_size := ix_size s - e_size e\<rparr>)))"

text \<open>The inner loop of \<open>_eviction\<close>: the candidates leave the index, their paths are collected.\<close>

fun pop_candidates ::
    "('k, 'd, 'p) env \<Rightarrow> 'k list \<Rightarrow> ('k, 'd, 'p) index \<Rightarrow> string list \<Rightarrow>
     exn option \<times> ('k, 'd, 'p) index \<times> string list" where
  "pop_candidates v [] s paths = (None, s, paths)"
| "pop_candidates v (k # ks) s paths =
     (case map_of (ix_cache s) k of
        None \<Rightarrow> (Some (KeyError ''hot_cache''), s, paths)
      | Some e \<Rightarrow>
          pop_candidates v ks
            (s\<lparr>ix_cache := dict_del k (ix_cache s), ix_policy := pol_forget (en_policy v) k (ix_policy s),
               ix_size := ix_size s - e_size e\<rparr>)
            (paths @ [e_path e]))"

lemma length_dict_del: "map_of d k = Some e \<Longrightarrow> length (dict_del k d) < length d"
  unfolding dict_del_def
  by (rule length_filter_less [where x = "(k, e)"]) (auto dest: map_of_SomeD)

lemma pop_candidates_shrinks:
  "pop_candidates v ks s paths = (r, s', paths') \<Longrightarrow> length (ix_cache s') \<le> length (ix_cache s) \<and>
     (ks \<noteq> [] \<longrightarrow> r = None \<longrightarrow> length (ix_cache s') < length (ix_cache s))"
proof (induction v ks s paths rule: pop_candidates.induct)
  case (1 v s paths)
  then show ?case by simp
next
  case (2 v k ks s paths)
  show ?case
  proof (cases "map_of (ix_cache s) k")
    case None
    then show ?thesis using "2.prems" by auto
  next
    case (Some e)
    from "2.IH" [OF Some] "2.prems" Some length_dict_del [OF Some] show ?thesis by force
  qed
qed

text \<open>
  The loop of \<open>_eviction\<close> under the quota \<open>limit\<close>. It ends because every round but the last takes an
  entry out of the index.
\<close>

function evict_loop ::
    "('k, 'd, 'p) env \<Rightarrow> int \<Rightarrow> int \<Rightarrow> ('k, 'd, 'p) index \<Rightarrow> string list \<Rightarrow>
     bool res \<times> ('k, 'd, 'p) index \<times> string list" where
  "evict_loop v limit n s paths =
     (if ix_size s + n \<le> limit then (Inr True, s, paths)
      else case pol_candidates (en_policy v) (ix_policy s) (ix_cache s) of
        ([], p) \<Rightarrow> (Inr False, s\<lparr>ix_policy := p\<rparr>, paths)
      | (k # ks, p) \<Rightarrow>
          (case pop_candidates v (k # ks) (s\<lparr>ix_policy := p\<rparr>) paths of
             (Some e, s', paths') \<Rightarrow> (Inl e, s', paths')
           | (None, s', paths') \<Rightarrow> evict_loop v limit n s' paths'))"
  by pat_completeness auto
termination
proof (relation "measure (\<lambda>(v, limit, n, s, paths). length (ix_cache s))", goal_cases)
  case 1
  then show ?case by simp
next
  case (2 v limit n s paths x p k ks r y s' z)
  then show ?case using pop_candidates_shrinks [of v "k # ks" "s\<lparr>ix_policy := p\<rparr>" paths None s' z] by auto
qed

declare evict_loop.simps [simp del]

definition eviction :: "('k, 'd, 'p) env \<Rightarrow> int \<Rightarrow> int \<Rightarrow> ('k, 'd, 'p) index \<Rightarrow> bool res \<times> ('k, 'd, 'p) index" where
  "eviction v limit n s =
     (case evict_loop v limit n s [] of
        (Inl e, s', paths) \<Rightarrow> (Inl e, s')
      | (Inr ok, s', paths) \<Rightarrow>
          let s'' = (if ok then s'\<lparr>ix_size := ix_size s' + n\<rparr> else s')
          in (Inr ok, set_world (unlink_each (concat (map entry_files paths)) (ix_world s'')) s''))"

text \<open>Room for \<open>n\<close> bytes: by eviction under a quota, otherwise they are only counted.\<close>

definition reserve :: "('k, 'd, 'p) env \<Rightarrow> int \<Rightarrow> ('k, 'd, 'p) index \<Rightarrow> bool res \<times> ('k, 'd, 'p) index" where
  "reserve v n s =
     (case x_max_size (en_cfg v) of
        Some limit \<Rightarrow> eviction v limit n s
      | None \<Rightarrow> (Inr True, s\<lparr>ix_size := ix_size s + n\<rparr>))"


section \<open>Entries from files\<close>

text \<open>
  The entry that the scan makes of a block-first file, and of a legacy file with its sidecar. A legacy
  file never replaces a block-first entry.
\<close>

definition add_scanned :: "'k \<Rightarrow> entry \<Rightarrow> ('k, 'd, 'p) index \<Rightarrow> ('k, 'd, 'p) index" where
  "add_scanned k e s =
     s\<lparr>ix_cache := dict_put k e (ix_cache s),
       ix_size := (case map_of (ix_cache s) k of None \<Rightarrow> ix_size s | Some old \<Rightarrow> ix_size s - e_size old) + e_size e\<rparr>"

definition read_block_first_metadata ::
    "('k, 'd, 'p) env \<Rightarrow> 'k \<Rightarrow> string \<Rightarrow> ('k, 'd, 'p) index \<Rightarrow> entry res \<times> ('k, 'd, 'p) index" where
  "read_block_first_metadata v k path s =
     (let c = en_cfg v in
      case read_direct_header_and_size c path (ix_world s) of
        Inl e \<Rightarrow> (Inl e, s)
      | Inr (m, actual_size) \<Rightarrow>
          if m_valid_tokens m \<noteq> x_chunk_size c
            then (Inl (BlockFirstFormatError ''block_first_v1 file is not a complete LMCache chunk''), s)
          else if length (x_shapes c) \<noteq> 1 \<or> length (x_dtypes c) \<noteq> 1
            then (Inl (BlockFirstFormatError ''block_first_v1 requires exactly one active KV layer group''), s)
          else (case x_block_size c of
            None \<Rightarrow> (Inl (AssertionError ''block_size''), s)
          | Some bs \<Rightarrow>
              (case validate_runtime (x_torch c) m (hd (x_shapes c)) (hd (x_dtypes c)) (x_model c) (x_world c)
                  (x_worker c) (x_tp c) (x_pp c) bs of
                 Some e \<Rightarrow> (Inl e, s)
               | None \<Rightarrow>
                   let total = BLOCK_FIRST_HEADER_SIZE + m_io_nbytes m in
                   if actual_size \<noteq> total
                     then (Inl (BlockFirstFormatError ''block-first file size''), s)
                   else
                     let e = \<lparr>e_path = path, e_size = total, e_shape = m_logical_shape m, e_dtype = m_dtype m,
                              e_pins = 0, e_disk = Some m\<rparr>
                     in (Inr e, add_scanned k e s))))"

definition read_legacy_metadata ::
    "('k, 'd, 'p) env \<Rightarrow> 'k \<Rightarrow> string \<Rightarrow> ('k, 'd, 'p) index \<Rightarrow> entry res \<times> ('k, 'd, 'p) index" where
  "read_legacy_metadata v k sidecar s =
     (case w_files (ix_world s) sidecar of
        None \<Rightarrow> (Inl (OSError ''No such file''), s)
      | Some f \<Rightarrow>
          (case read_sidecar (en_memory v) (en_isize v) (x_staged (en_cfg v)) f of
             Inl e \<Rightarrow> (Inl e, s)
           | Inr (shape, dtype, n) \<Rightarrow>
               let e = \<lparr>e_path = (if ends_with sidecar METADATA_SUFFIX
                                    then take (length sidecar - length METADATA_SUFFIX) sidecar else sidecar),
                        e_size = n, e_shape = shape, e_dtype = dtype, e_pins = 0, e_disk = None\<rparr>
               in (case map_of (ix_cache s) k of
                     Some old \<Rightarrow> if e_disk old \<noteq> None then (Inr old, s) else (Inr e, add_scanned k e s)
                   | None \<Rightarrow> (Inr e, add_scanned k e s))))"

text \<open>
  The start-up scan, over the directory tree as \<^verbatim>\<open>os.scandir\<close> lists it: names of the first level, of
  the second level below each, and of the files below those. A file name is decoded back into a key;
  files of other ranks and names that are no keys are skipped, temporary files are left to the stores
  that may own them, and any other file is removed. An exception that is not caught ends the scan of
  its first-level directory, and is counted there. The threads that scan several first-level
  directories at a time are run one after the other here; they add entries under \<^verbatim>\<open>hot_lock\<close>.
\<close>

fun format_or_os :: "exn \<Rightarrow> bool" where
  "format_or_os (BlockFirstFormatError m) = True"
| "format_or_os (OSError m) = True"
| "format_or_os e = False"

fun value_error :: "exn \<Rightarrow> bool" where
  "value_error (ValueError m) = True"
| "value_error e = False"

text \<open>The key that a file name stands for under a suffix, or what \<^verbatim>\<open>from_string\<close> raises.\<close>

definition name_key :: "('k, 'd, 'p) env \<Rightarrow> string \<Rightarrow> string \<Rightarrow> 'k res" where
  "name_key v suffix name = en_key v (unquote (take (length name - length suffix) name))"

definition scan_entry ::
    "('k, 'd, 'p) env \<Rightarrow> string \<Rightarrow> (exn \<Rightarrow> bool) \<Rightarrow>
     ('k \<Rightarrow> ('k, 'd, 'p) index \<Rightarrow> entry res \<times> ('k, 'd, 'p) index) \<Rightarrow> string \<Rightarrow>
     ('k, 'd, 'p) index \<Rightarrow> exn option \<times> ('k, 'd, 'p) index" where
  "scan_entry v suffix caught read name s =
     (case name_key v suffix name of
        Inl e \<Rightarrow> (if value_error e then (None, s) else (Some e, s))
      | Inr k \<Rightarrow>
          if en_worker v k \<noteq> x_worker (en_cfg v) then (None, s)
          else (case read k s of
            (Inr e, s') \<Rightarrow> (None, s')
          | (Inl x, s') \<Rightarrow> if caught x then (None, s') else (Some x, s')))"

definition scan_file ::
    "('k, 'd, 'p) env \<Rightarrow> string \<Rightarrow> string \<Rightarrow> ('k, 'd, 'p) index \<Rightarrow> exn option \<times> ('k, 'd, 'p) index" where
  "scan_file v dir name s =
     (let path = path_join dir name in
      if ends_with name BLOCK_FIRST_SUFFIX then
        (if \<not> x_block_first (en_cfg v) then (None, s)
         else scan_entry v BLOCK_FIRST_SUFFIX format_or_os (\<lambda>k. read_block_first_metadata v k path) name s)
      else if \<not> ends_with name (DATA_SUFFIX @ METADATA_SUFFIX) then
        (if ends_with name DATA_SUFFIX_TMP \<or> ends_with name METADATA_SUFFIX_TMP \<or>
            ends_with name BLOCK_FIRST_SUFFIX_TMP then (None, s)
         else if \<not> ends_with name DATA_SUFFIX then
           (if w_files (ix_world s) path = None then (Some (OSError ''No such file''), s)
            else case os_remove path (ix_world s) of (r, w) \<Rightarrow> (r, set_world w s))
         else (None, s))
      else scan_entry v (DATA_SUFFIX @ METADATA_SUFFIX) scan_catches
        (\<lambda>k. read_legacy_metadata v k path) name s)"

fun scan_files ::
    "('k, 'd, 'p) env \<Rightarrow> string \<Rightarrow> string list \<Rightarrow> ('k, 'd, 'p) index \<Rightarrow> exn option \<times> ('k, 'd, 'p) index" where
  "scan_files v dir [] s = (None, s)"
| "scan_files v dir (name # names) s =
     (case scan_file v dir name s of
        (Some e, s') \<Rightarrow> (Some e, s')
      | (None, s') \<Rightarrow> scan_files v dir names s')"

text \<open>\<open>_scan_metadata_subdir\<close>: the second level of one first-level directory.\<close>

fun scan_metadata_subdir ::
    "('k, 'd, 'p) env \<Rightarrow> string \<Rightarrow> (string \<times> string list) list \<Rightarrow> ('k, 'd, 'p) index \<Rightarrow>
     exn option \<times> ('k, 'd, 'p) index" where
  "scan_metadata_subdir v path [] s = (None, s)"
| "scan_metadata_subdir v path ((l2, names) # dirs) s =
     (if length l2 \<noteq> 2 then scan_metadata_subdir v path dirs s
      else case scan_files v (path_join path l2) names s of
        (Some e, s') \<Rightarrow> (Some e, s')
      | (None, s') \<Rightarrow> scan_metadata_subdir v path dirs s')"

fun scan_metadata ::
    "('k, 'd, 'p) env \<Rightarrow> (string \<times> (string \<times> string list) list) list \<Rightarrow> ('k, 'd, 'p) index \<Rightarrow>
     nat \<times> ('k, 'd, 'p) index" where
  "scan_metadata v [] s = (0, s)"
| "scan_metadata v ((l1, dirs) # tree) s =
     (if length l1 \<noteq> 2 then scan_metadata v tree s
      else case scan_metadata_subdir v (path_join (x_root (en_cfg v)) l1) dirs s of
        (r, s') \<Rightarrow>
          (case scan_metadata v tree s' of
             (errors, s'') \<Rightarrow> ((if r = None then errors else errors + 1), s'')))"

section \<open>The staged store\<close>

definition required_store_size :: "('k, 'd, 'p) env \<Rightarrow> 'd mem_obj \<Rightarrow> int res" where
  "required_store_size v mo =
     (case mo_chunk mo of
        None \<Rightarrow> Inl (AssertionError ''tensor'')
      | Some t \<Rightarrow>
          (case use_block_first_for_tensor (en_cfg v) t of
             Inl e \<Rightarrow> Inl e
           | Inr True \<Rightarrow>
               (case align_up (mo_size mo) BLOCK_FIRST_ALIGNMENT of
                  Inl e \<Rightarrow> Inl e
                | Inr n \<Rightarrow> Inr (BLOCK_FIRST_HEADER_SIZE + n))
           | Inr False \<Rightarrow> Inr (mo_physical mo)))"

text \<open>\<open>submit_put_task\<close>: \<open>None\<close> when it returns, with or without having queued a store.\<close>

definition submit_put_task ::
    "('k, 'd, 'p) env \<Rightarrow> 'k \<Rightarrow> 'd mem_obj \<Rightarrow> ('k, 'd, 'p) index \<Rightarrow> exn option \<times> ('k, 'd, 'p) index" where
  "submit_put_task v k mo s =
     (if \<not> en_allocator v \<and> \<not> x_cpu_store (en_cfg v) then (None, s)
      else if mo_chunk mo = None then (Some (AssertionError ''tensor''), s)
      else if exists_in_put_tasks k s then (None, s)
      else if (case map_of (ix_cache s) k of Some e \<Rightarrow> e_disk e \<noteq> None | None \<Rightarrow> False) then policy_hit v k s
      else
        let s1 = insert_put_task k s in
        (case required_store_size v mo of
           Inl e \<Rightarrow> (Some e, s1)
         | Inr n \<Rightarrow>
             (case reserve v n s1 of
                (Inl e, s2) \<Rightarrow> (Some e, s2)
              | (Inr False, s2) \<Rightarrow> (None, remove_put_task k s2)
              | (Inr True, s2) \<Rightarrow>
                  (None, count_ref (mo_id mo) 1
                     (s2\<lparr>ix_policy := pol_put (en_policy v) k (ix_policy s2),
                         ix_jobs := ix_jobs s2 @ [\<lparr>j_key = k, j_obj = mo, j_reserved = n\<rparr>]\<rparr>)))))"

fun batched_submit_put_task ::
    "('k, 'd, 'p) env \<Rightarrow> ('k \<times> 'd mem_obj) list \<Rightarrow> ('k, 'd, 'p) index \<Rightarrow> exn option \<times> ('k, 'd, 'p) index" where
  "batched_submit_put_task v [] s = (None, s)"
| "batched_submit_put_task v ((k, mo) # rest) s =
     (case submit_put_task v k mo s of
        (Some e, s') \<Rightarrow> (Some e, s')
      | (None, s') \<Rightarrow> batched_submit_put_task v rest s')"

definition insert_key ::
    "('k, 'd, 'p) env \<Rightarrow> 'k \<Rightarrow> 'd mem_obj \<Rightarrow> string \<Rightarrow> disk_metadata option \<Rightarrow> int \<Rightarrow> ('k, 'd, 'p) index \<Rightarrow>
     exn option \<times> ('k, 'd, 'p) index" where
  "insert_key v k mo path disk stored s =
     (if map_of (ix_cache s) k \<noteq> None then policy_hit v k s
      else (None, s\<lparr>ix_cache := dict_put k
        \<lparr>e_path = path,
         e_size = (case disk of Some m \<Rightarrow> BLOCK_FIRST_HEADER_SIZE + m_io_nbytes m | None \<Rightarrow> stored),
         e_shape = mo_shape mo, e_dtype = mo_dtype mo, e_pins = 0, e_disk = disk\<rparr> (ix_cache s)\<rparr>))"

text \<open>
  The data of a store, by its configured route: the metadata that the block-first formats hold, and
  the sidecar of the legacy ones.
\<close>

definition save_data ::
    "('k, 'd, 'p) env \<Rightarrow> string \<Rightarrow> bool \<Rightarrow> 'd mem_obj \<Rightarrow> 'd chunk \<Rightarrow> world \<Rightarrow>
     (disk_metadata option \<times> bytes option) res \<times> world" where
  "save_data v path bf mo t w =
     (let c = en_cfg v; T = x_torch c;
          disk = (\<lambda>(r, w'). (case r of Inl e \<Rightarrow> Inl e | Inr m \<Rightarrow> Inr (Some m, None), w'));
          legacy = (\<lambda>(r, w'). (case r of Inl e \<Rightarrow> Inl e | Inr b \<Rightarrow> Inr (None, Some b), w'))
      in if x_cpu_store c then
           (if \<not> bf then (Inl (BlockFirstFormatError ''xds_cpu_store requires a complete block_first_v1 chunk''), w)
            else disk (save_cpu_block_first_xds c path t w))
         else if bf then disk (save_block_first_xds (en_wr v) c (en_staging v) path t w)
         else if x_staged c then legacy (save_xds (en_wr v) T path t (mo_physical mo) (en_base v) (mo_address mo) w)
         else legacy (posix_write (en_fs_block v) T path t (mo_physical mo) (mo_bytes mo) w))"

definition make_directories :: "world \<Rightarrow> exn option \<times> world" where
  "make_directories w =
     (case os_call w of (Some Os_raise, w') \<Rightarrow> (Some (OSError ''makedirs''), w') | (_, w') \<Rightarrow> (None, w'))"

definition store_files ::
    "('k, 'd, 'p) env \<Rightarrow> string \<Rightarrow> bool \<Rightarrow> 'd mem_obj \<Rightarrow> 'd chunk \<Rightarrow> world \<Rightarrow> disk_metadata option res \<times> world" where
  "store_files v path bf mo t w =
     (case make_directories w of
        (Some e, w1) \<Rightarrow> (Inl e, w1)
      | (None, w1) \<Rightarrow>
          (case save_data v path bf mo t w1 of
             (Inl e, w2) \<Rightarrow> (Inl e, w2)
           | (Inr (disk, sidecar), w2) \<Rightarrow>
               (case sidecar of
                  None \<Rightarrow> (Inr disk, w2)
                | Some b \<Rightarrow>
                    (case save_sidecar path b w2 of
                       (Some e, w3) \<Rightarrow> (Inl e, w3)
                     | (None, w3) \<Rightarrow> (Inr disk, w3)))))"

text \<open>
  \<open>_async_save_bytes_to_storage\<close>. The exceptions before the \<^verbatim>\<open>try\<close> escape; every other one is logged
  and rolled back, and the reference and the task go in any case.
\<close>

definition cleanup_paths :: "string \<Rightarrow> bool \<Rightarrow> string list" where
  "cleanup_paths path bf =
     [block_first_tmp path, legacy_tmp path, legacy_tmp path @ METADATA_SUFFIX_TMP, path @ METADATA_SUFFIX] @
     (if bf then [] else [path])"

definition rollback_put ::
    "'k \<Rightarrow> string \<Rightarrow> bool \<Rightarrow> int \<Rightarrow> ('k, 'd, 'p) index \<Rightarrow> ('k, 'd, 'p) index" where
  "rollback_put k path bf n s =
     set_world (unlink_each (cleanup_paths path bf) (ix_world s))
       (s\<lparr>ix_cache := dict_del k (ix_cache s), ix_size := ix_size s - n\<rparr>)"

definition finish_put :: "('k, 'd) put_job \<Rightarrow> ('k, 'd, 'p) index \<Rightarrow> ('k, 'd, 'p) index" where
  "finish_put j s = remove_put_task (j_key j) (count_ref (mo_id (j_obj j)) (- 1) s)"

definition async_save ::
    "('k, 'd, 'p) env \<Rightarrow> ('k, 'd) put_job \<Rightarrow> ('k, 'd, 'p) index \<Rightarrow> exn option \<times> ('k, 'd, 'p) index" where
  "async_save v j s =
     (case mo_chunk (j_obj j) of
        None \<Rightarrow> (Some (AssertionError ''kv_chunk''), s)
      | Some t \<Rightarrow>
          (case use_block_first_for_tensor (en_cfg v) t of
             Inl e \<Rightarrow> (Some e, s)
           | Inr bf \<Rightarrow>
               let path = path_of v bf (j_key j) in
               (case store_files v path bf (j_obj j) t (ix_world s) of
                  (Inl e, w) \<Rightarrow> (None, finish_put j (rollback_put (j_key j) path bf (j_reserved j) (set_world w s)))
                | (Inr disk, w) \<Rightarrow>
                    (case insert_key v (j_key j) (j_obj j) path disk (j_reserved j) (set_world w s) of
                       (Some e, s1) \<Rightarrow> (None, finish_put j (rollback_put (j_key j) path bf (j_reserved j) s1))
                     | (None, s1) \<Rightarrow> (None, finish_put j s1)))))"

text \<open>A worker takes a queued store: any of them, as the pool orders them.\<close>

definition run_put_job ::
    "('k, 'd, 'p) env \<Rightarrow> nat \<Rightarrow> ('k, 'd, 'p) index \<Rightarrow> exn option \<times> ('k, 'd, 'p) index" where
  "run_put_job v i s =
     (if length (ix_jobs s) \<le> i then (None, s)
      else async_save v (ix_jobs s ! i) (s\<lparr>ix_jobs := take i (ix_jobs s) @ drop (Suc i) (ix_jobs s)\<rparr>))"


section \<open>The direct store\<close>

text \<open>The exceptions after which a direct transfer falls back to the staged one.\<close>

fun direct_catches :: "exn \<Rightarrow> bool" where
  "direct_catches (BlockFirstFormatError m) = True"
| "direct_catches (OSError m) = True"
| "direct_catches (RuntimeError m) = True"
| "direct_catches (ValueError m) = True"
| "direct_catches e = False"

definition run_direct_store_io ::
    "('k, 'd, 'p) env \<Rightarrow> string \<Rightarrow> descriptor \<Rightarrow> direct_state \<Rightarrow> disk_metadata res \<times> direct_state" where
  "run_direct_store_io v path d io =
     (case make_directories (ds_world io) of
        (Some e, w) \<Rightarrow> (Inl e, io\<lparr>ds_world := w\<rparr>)
      | (None, w) \<Rightarrow> save_direct_xds (en_wr v) (en_cfg v) path d (io\<lparr>ds_world := w\<rparr>))"

definition insert_direct_key ::
    "'k \<Rightarrow> string \<Rightarrow> disk_metadata \<Rightarrow> ('k, 'd, 'p) index \<Rightarrow> ('k, 'd, 'p) index" where
  "insert_direct_key k path m s =
     s\<lparr>ix_cache := dict_put k
        \<lparr>e_path = path, e_size = BLOCK_FIRST_HEADER_SIZE + m_io_nbytes m, e_shape = m_logical_shape m,
         e_dtype = m_dtype m, e_pins = 0, e_disk = Some m\<rparr> (ix_cache s)\<rparr>"

definition rollback_direct_store ::
    "('k, 'd, 'p) env \<Rightarrow> 'k \<Rightarrow> int \<Rightarrow> bool \<Rightarrow> ('k, 'd, 'p) index \<Rightarrow> ('k, 'd, 'p) index" where
  "rollback_direct_store v k n policy_updated s =
     (let s1 = (if n \<noteq> 0 then s\<lparr>ix_size := ix_size s - n\<rparr> else s)
      in if policy_updated then s1\<lparr>ix_policy := pol_forget (en_policy v) k (ix_policy s1)\<rparr> else s1)"

text \<open>
  A queued transfer of the pipelined store: the position of its result, its key, path and descriptor,
  and the size that is reserved for it. Its file transaction runs in the pool; as the transactions touch
  no index and each only its own file, they are run when their results are asked for.
\<close>

record 'k store_job =
  sj_index :: nat
  sj_key :: 'k
  sj_path :: string
  sj_size :: int
  sj_descriptor :: descriptor

text \<open>The end of a store whose transaction ran: insertion, or the rollback of what was reserved.\<close>

definition settle_store ::
    "('k, 'd, 'p) env \<Rightarrow> 'k \<Rightarrow> string \<Rightarrow> int \<Rightarrow> disk_metadata res \<Rightarrow> ('k, 'd, 'p) index \<Rightarrow>
     bool res \<times> ('k, 'd, 'p) index" where
  "settle_store v k path n r s =
     (case r of
        Inr m \<Rightarrow> (Inr True, remove_put_task k (insert_direct_key k path m s))
      | Inl e \<Rightarrow>
          if direct_catches e then (Inr False, remove_put_task k (rollback_direct_store v k n True s))
          else (Inl e, remove_put_task k s))"

text \<open>
  One round of the loop over keys and descriptors: the result of this key, or the job it has queued.
\<close>

definition direct_put_round ::
    "('k, 'd, 'p) env \<Rightarrow> bool \<Rightarrow> nat \<Rightarrow> 'k \<Rightarrow> descriptor option \<Rightarrow> ('k, 'd, 'p) index \<Rightarrow>
     (bool + 'k store_job) res \<times> ('k, 'd, 'p) index" where
  "direct_put_round v pipelined i k desc s =
     (case desc of
        None \<Rightarrow> (Inr (Inl False), s)
      | Some d \<Rightarrow>
          if \<not> x_direct (en_cfg v) then (Inr (Inl False), s)
          else if (case map_of (ix_cache s) k of Some e \<Rightarrow> e_disk e \<noteq> None | None \<Rightarrow> False) then
            (case policy_hit v k s of (Some e, s') \<Rightarrow> (Inl e, s') | (None, s') \<Rightarrow> (Inr (Inl True), s'))
          else
            let s0 = snd (remove_key v k s) in
            if exists_in_put_tasks k s0 then (Inr (Inl False), s0)
            else
              let s1 = insert_put_task k s0 in
              (case make_direct_block_first_metadata (en_cfg v) of
                 Inl e \<Rightarrow>
                   if direct_catches e then (Inr (Inl False), remove_put_task k s1)
                   else (Inl e, remove_put_task k s1)
               | Inr m \<Rightarrow>
                   let n = BLOCK_FIRST_HEADER_SIZE + m_io_nbytes m in
                   (case reserve v n s1 of
                      (Inl e, s2) \<Rightarrow>
                        if direct_catches e then (Inr (Inl False), remove_put_task k s2)
                        else (Inl e, remove_put_task k s2)
                    | (Inr False, s2) \<Rightarrow> (Inr (Inl False), remove_put_task k s2)
                    | (Inr True, s2) \<Rightarrow>
                        let s3 = s2\<lparr>ix_policy := pol_put (en_policy v) k (ix_policy s2)\<rparr>;
                            path = path_of v True k
                        in if pipelined
                             then (Inr (Inr \<lparr>sj_index = i, sj_key = k, sj_path = path, sj_size = n, sj_descriptor = d\<rparr>), s3)
                           else (case run_direct_store_io v path d (ix_io s3) of (r, io) \<Rightarrow>
                             (case settle_store v k path n r (s3\<lparr>ix_io := io\<rparr>) of
                                (Inl e, s4) \<Rightarrow> (Inl e, s4)
                              | (Inr b, s4) \<Rightarrow> (Inr (Inl b), s4))))))"

text \<open>Transactions of queued jobs whose results nobody asks for, after an exception.\<close>

fun drain_store_jobs :: "('k, 'd, 'p) env \<Rightarrow> 'k store_job list \<Rightarrow> ('k, 'd, 'p) index \<Rightarrow> ('k, 'd, 'p) index" where
  "drain_store_jobs v [] s = s"
| "drain_store_jobs v (j # js) s =
     drain_store_jobs v js (s\<lparr>ix_io := snd (run_direct_store_io v (sj_path j) (sj_descriptor j) (ix_io s))\<rparr>)"

fun direct_put_loop ::
    "('k, 'd, 'p) env \<Rightarrow> bool \<Rightarrow> nat \<Rightarrow> ('k \<times> descriptor option) list \<Rightarrow> bool list \<Rightarrow> 'k store_job list \<Rightarrow>
     ('k, 'd, 'p) index \<Rightarrow> (bool list \<times> 'k store_job list) res \<times> ('k, 'd, 'p) index" where
  "direct_put_loop v pipelined i [] results jobs s = (Inr (results, jobs), s)"
| "direct_put_loop v pipelined i ((k, d) # rest) results jobs s =
     (case direct_put_round v pipelined i k d s of
        (Inl e, s') \<Rightarrow> (Inl e, drain_store_jobs v jobs s')
      | (Inr (Inl b), s') \<Rightarrow> direct_put_loop v pipelined (Suc i) rest (results[i := b]) jobs s'
      | (Inr (Inr j), s') \<Rightarrow> direct_put_loop v pipelined (Suc i) rest results (jobs @ [j]) s')"

fun finish_store_jobs ::
    "('k, 'd, 'p) env \<Rightarrow> 'k store_job list \<Rightarrow> bool list \<Rightarrow> ('k, 'd, 'p) index \<Rightarrow>
     bool list res \<times> ('k, 'd, 'p) index" where
  "finish_store_jobs v [] results s = (Inr results, s)"
| "finish_store_jobs v (j # js) results s =
     (case run_direct_store_io v (sj_path j) (sj_descriptor j) (ix_io s) of (r, io) \<Rightarrow>
        (case settle_store v (sj_key j) (sj_path j) (sj_size j) r (s\<lparr>ix_io := io\<rparr>) of
           (Inl e, s') \<Rightarrow> (Inl e, drain_store_jobs v js s')
         | (Inr b, s') \<Rightarrow> finish_store_jobs v js (results[sj_index j := b]) s'))"

text \<open>
  The strict \<^verbatim>\<open>zip\<close> of keys and descriptors raises once the shorter list is used up, after the rounds
  of the common prefix.
\<close>

definition batched_direct_put ::
    "('k, 'd, 'p) env \<Rightarrow> 'k list \<Rightarrow> descriptor option list \<Rightarrow> ('k, 'd, 'p) index \<Rightarrow>
     bool list res \<times> ('k, 'd, 'p) index" where
  "batched_direct_put v ks ds s =
     (let results = replicate (length ks) False in
      if \<not> x_direct_store (en_cfg v) then (Inr results, s)
      else case direct_put_loop v (x_store_pipeline (en_cfg v) \<and> 1 < length ks) 0 (zip ks ds) results [] s of
        (Inl e, s') \<Rightarrow> (Inl e, s')
      | (Inr (results', jobs), s') \<Rightarrow>
          if length ks \<noteq> length ds then (Inl (ValueError ''zip''), drain_store_jobs v jobs s')
          else finish_store_jobs v jobs results' s')"

section \<open>The direct retrieve\<close>

definition with_io :: "(direct_state \<Rightarrow> exn option \<times> direct_state) \<Rightarrow> ('k, 'd, 'p) index \<Rightarrow> exn option \<times> ('k, 'd, 'p) index" where
  "with_io f s = (case f (ix_io s) of (r, io) \<Rightarrow> (r, s\<lparr>ix_io := io\<rparr>))"

text \<open>
  A transfer and then the policy's hit; what the caller catches makes the result \<open>False\<close>. \<open>fresh\<close> is
  the address that torch gives the edge buffer if this transfer allocates it.
\<close>

definition hit_after :: "('k, 'd, 'p) env \<Rightarrow> 'k \<Rightarrow> exn option \<times> ('k, 'd, 'p) index \<Rightarrow> bool res \<times> ('k, 'd, 'p) index" where
  "hit_after v k rs =
     (case (case rs of (Some e, s1) \<Rightarrow> (Some e, s1) | (None, s1) \<Rightarrow> policy_hit v k s1) of
        (None, s2) \<Rightarrow> (Inr True, s2)
      | (Some e, s2) \<Rightarrow> if direct_catches e then (Inr False, s2) else (Inl e, s2))"

record 'k retrieve_job =
  rj_index :: nat
  rj_key :: 'k
  rj_path :: string
  rj_meta :: disk_metadata
  rj_descriptor :: descriptor

definition direct_get_round ::
    "('k, 'd, 'p) env \<Rightarrow> bool \<Rightarrow> int \<Rightarrow> nat \<Rightarrow> 'k \<Rightarrow> descriptor option \<Rightarrow> ('k, 'd, 'p) index \<Rightarrow>
     (bool + 'k retrieve_job) res \<times> ('k, 'd, 'p) index" where
  "direct_get_round v pipelined fresh i k desc s =
     (case desc of
        None \<Rightarrow> (Inr (Inl False), s)
      | Some d \<Rightarrow>
          if \<not> x_direct (en_cfg v) then (Inr (Inl False), s)
          else (case map_of (ix_cache s) k of
            None \<Rightarrow> (Inr (Inl False), s)
          | Some e \<Rightarrow>
              (case e_disk e of
                 None \<Rightarrow> (Inr (Inl False), s)
               | Some m \<Rightarrow>
                   if pipelined
                     then (Inr (Inr \<lparr>rj_index = i, rj_key = k, rj_path = e_path e, rj_meta = m, rj_descriptor = d\<rparr>), s)
                   else (case hit_after v k (with_io (load_direct_xds (en_rd v) (en_cfg v) (e_path e) m fresh d) s) of
                     (Inl x, s') \<Rightarrow> (Inl x, s')
                   | (Inr b, s') \<Rightarrow> (Inr (Inl b), s')))))"

fun direct_get_loop ::
    "('k, 'd, 'p) env \<Rightarrow> bool \<Rightarrow> int \<Rightarrow> nat \<Rightarrow> ('k \<times> descriptor option) list \<Rightarrow> bool list \<Rightarrow>
     'k retrieve_job list \<Rightarrow> ('k, 'd, 'p) index \<Rightarrow> (bool list \<times> 'k retrieve_job list) res \<times> ('k, 'd, 'p) index" where
  "direct_get_loop v pipelined fresh i [] results jobs s = (Inr (results, jobs), s)"
| "direct_get_loop v pipelined fresh i ((k, d) # rest) results jobs s =
     (case direct_get_round v pipelined fresh i k d s of
        (Inl e, s') \<Rightarrow> (Inl e, s')
      | (Inr (Inl b), s') \<Rightarrow> direct_get_loop v pipelined fresh (Suc i) rest (results[i := b]) jobs s'
      | (Inr (Inr j), s') \<Rightarrow> direct_get_loop v pipelined fresh (Suc i) rest results (jobs @ [j]) s')"

text \<open>The preparation of the queued retrieves, in their order, and then their transfers.\<close>

fun prepare_jobs ::
    "('k, 'd, 'p) env \<Rightarrow> 'k retrieve_job list \<Rightarrow> 'k retrieve_job list \<Rightarrow> ('k, 'd, 'p) index \<Rightarrow>
     'k retrieve_job list res \<times> ('k, 'd, 'p) index" where
  "prepare_jobs v [] ready s = (Inr ready, s)"
| "prepare_jobs v (j # js) ready s =
     (case (case prepare_direct_xds (en_cfg v) (rj_path j) (rj_meta j) (rj_descriptor j) (ix_world s) of
              Some e \<Rightarrow> (Some e, s)
            | None \<Rightarrow> with_io (ensure_registered (rj_descriptor j)) s) of
        (None, s') \<Rightarrow> prepare_jobs v js (ready @ [j]) s'
      | (Some e, s') \<Rightarrow> if direct_catches e then prepare_jobs v js ready s' else (Inl e, s'))"

fun transfer_jobs ::
    "('k, 'd, 'p) env \<Rightarrow> int \<Rightarrow> 'k retrieve_job list \<Rightarrow> bool list \<Rightarrow> ('k, 'd, 'p) index \<Rightarrow>
     bool list res \<times> ('k, 'd, 'p) index" where
  "transfer_jobs v fresh [] results s = (Inr results, s)"
| "transfer_jobs v fresh (j # js) results s =
     (case hit_after v (rj_key j)
         (with_io (transfer_direct_xds (en_rd v) (en_cfg v) (rj_path j) fresh (rj_descriptor j)) s) of
        (Inl e, s') \<Rightarrow> (Inl e, s')
      | (Inr b, s') \<Rightarrow> transfer_jobs v fresh js (results[rj_index j := b]) s')"

definition batched_direct_get ::
    "('k, 'd, 'p) env \<Rightarrow> int \<Rightarrow> 'k list \<Rightarrow> descriptor option list \<Rightarrow> ('k, 'd, 'p) index \<Rightarrow>
     bool list res \<times> ('k, 'd, 'p) index" where
  "batched_direct_get v fresh ks ds s =
     (case direct_get_loop v (x_retrieve_pipeline (en_cfg v) \<and> 1 < length ks) fresh 0 (zip ks ds)
          (replicate (length ks) False) [] s of
        (Inl e, s') \<Rightarrow> (Inl e, s')
      | (Inr (results, jobs), s') \<Rightarrow>
          if length ks \<noteq> length ds then (Inl (ValueError ''zip''), s')
          else (case prepare_jobs v jobs [] s' of
             (Inl e, s2) \<Rightarrow> (Inl e, s2)
           | (Inr ready, s2) \<Rightarrow> transfer_jobs v fresh ready results s2))"

section \<open>Loads into memory objects\<close>

text \<open>
  What a load finds in the file of an entry: the count that decides about success, the size it has to
  be, and the object with the loaded contents.
\<close>

definition read_entry ::
    "('k, 'd, 'p) env \<Rightarrow> string \<Rightarrow> entry \<Rightarrow> 'd mem_obj \<Rightarrow> 'd chunk \<Rightarrow> world \<Rightarrow> (int \<times> int \<times> 'd mem_obj) res \<times> world" where
  "read_entry v path e mo t w =
     (case e_disk e of
        Some m \<Rightarrow>
          (case load_block_first_xds (en_rd v) (en_cfg v) (en_staging v) path m t w of
             (Inr (ret, t'), w') \<Rightarrow> (Inr (ret, m_io_nbytes m, mo\<lparr>mo_chunk := Some t'\<rparr>), w')
           | (Inl x, w') \<Rightarrow> if format_or_os x then (Inr (- 1, m_io_nbytes m, mo), w') else (Inl x, w'))
      | None \<Rightarrow>
          if x_staged (en_cfg v) then
            (case load_xds (en_rd v) path 0 (en_base v) (e_size e) (mo_address mo) w of
               (ret, w') \<Rightarrow> (Inr (ret, e_size e, mo), w'))
          else
            let n = prod_list (e_shape e) * en_isize v (e_dtype e) in
            (case posix_read path (min n (int (length (mo_bytes mo)))) w of
               (ret, data) \<Rightarrow> (Inr (ret, n, mo\<lparr>mo_bytes := data @ drop (length data) (mo_bytes mo)\<rparr>), w)))"

definition load_with_memory ::
    "('k, 'd, 'p) env \<Rightarrow> 'k \<Rightarrow> string \<Rightarrow> 'd mem_obj option \<Rightarrow> ('k, 'd, 'p) index \<Rightarrow>
     'd mem_obj option res \<times> ('k, 'd, 'p) index" where
  "load_with_memory v k path mem s =
     (case mem of
        None \<Rightarrow> (Inr None, s)
      | Some mo \<Rightarrow>
          (case mo_chunk mo of
             None \<Rightarrow> (Inr None, s)
           | Some t \<Rightarrow>
               if x_staged (en_cfg v) \<and>
                   (dev_type (t_device t) \<noteq> ''cuda'' \<or> \<not> devices_match (x_device (en_cfg v)) (t_device t))
                 then (Inl (AssertionError ''device''), s)
               else (case map_of (ix_cache s) k of
                 None \<Rightarrow> (Inr None, s)
               | Some e \<Rightarrow>
                   (case read_entry v path e mo t (ix_world s) of
                      (Inl x, w) \<Rightarrow> (Inl x, set_world w s)
                    | (Inr (ret, n, mo'), w) \<Rightarrow>
                        if ret = n then (Inr (Some mo'), set_world w s)
                        else (Inr None, count_ref (mo_id mo) (- 1) (set_world w
                          (s\<lparr>ix_cache := dict_del k (ix_cache s), ix_size := ix_size s - e_size e\<rparr>)))))))"

text \<open>\<open>get_blocking\<close>: \<open>mem\<close> is what the allocator answers.\<close>

definition load_with_allocation ::
    "('k, 'd, 'p) env \<Rightarrow> 'k \<Rightarrow> string \<Rightarrow> 'd mem_obj option \<Rightarrow> ('k, 'd, 'p) index \<Rightarrow>
     'd mem_obj option res \<times> ('k, 'd, 'p) index" where
  "load_with_allocation v k path mem s =
     (case mem of
        None \<Rightarrow> (Inr None, s)
      | Some mo \<Rightarrow>
          if mo_chunk mo = None then (Inl (AssertionError ''tensor''), s) else load_with_memory v k path mem s)"

definition get_blocking ::
    "('k, 'd, 'p) env \<Rightarrow> 'k \<Rightarrow> 'd mem_obj option \<Rightarrow> ('k, 'd, 'p) index \<Rightarrow> 'd mem_obj option res \<times> ('k, 'd, 'p) index" where
  "get_blocking v k mem s =
     (if \<not> en_allocator v then (Inr None, s)
      else case map_of (ix_cache s) k of
        None \<Rightarrow> (Inr None, s)
      | Some e \<Rightarrow>
          (case policy_hit v k s of
             (Some x, s1) \<Rightarrow> (Inl x, s1)
           | (None, s1) \<Rightarrow> load_with_allocation v k (e_path e) mem s1))"

text \<open>
  \<open>batched_get_blocking\<close>: all entries are looked up first, then the present ones get memory (\<open>mems\<close> are
  the allocator's answers by position), then every key is loaded, whatever another load raised.
\<close>

fun lookup_paths ::
    "('k, 'd, 'p) env \<Rightarrow> 'k list \<Rightarrow> string option list \<Rightarrow> ('k, 'd, 'p) index \<Rightarrow>
     string option list res \<times> ('k, 'd, 'p) index" where
  "lookup_paths v [] paths s = (Inr paths, s)"
| "lookup_paths v (k # ks) paths s =
     (case map_of (ix_cache s) k of
        None \<Rightarrow> lookup_paths v ks (paths @ [None]) s
      | Some e \<Rightarrow>
          (case policy_hit v k s of
             (Some x, s1) \<Rightarrow> (Inl x, s1)
           | (None, s1) \<Rightarrow> lookup_paths v ks (paths @ [Some (e_path e)]) s1))"

fun load_each ::
    "('k, 'd, 'p) env \<Rightarrow> ('k \<times> string option \<times> 'd mem_obj option) list \<Rightarrow> 'd mem_obj option list \<Rightarrow>
     ('k, 'd, 'p) index \<Rightarrow> 'd mem_obj option list res \<times> ('k, 'd, 'p) index" where
  "load_each v [] out s = (Inr out, s)"
| "load_each v ((k, path, mem) # rest) out s =
     (case path of
        None \<Rightarrow> load_each v rest (out @ [None]) s
      | Some p \<Rightarrow>
          (case load_with_memory v k p mem s of
             (Inl x, s') \<Rightarrow> (Inl x, snd (load_each v rest out s'))
           | (Inr r, s') \<Rightarrow> load_each v rest (out @ [r]) s'))"

definition batched_get_blocking ::
    "('k, 'd, 'p) env \<Rightarrow> 'k list \<Rightarrow> 'd mem_obj option list \<Rightarrow> ('k, 'd, 'p) index \<Rightarrow>
     'd mem_obj option list res \<times> ('k, 'd, 'p) index" where
  "batched_get_blocking v ks mems s =
     (if \<not> en_allocator v then (Inr (replicate (length ks) None), s)
      else case lookup_paths v ks [] s of
        (Inl x, s1) \<Rightarrow> (Inl x, s1)
      | (Inr paths, s1) \<Rightarrow> load_each v (zip ks (zip paths mems)) [] s1)"

definition supports_direct_io :: "'d xds_cfg \<Rightarrow> direction \<Rightarrow> bool" where
  "supports_direct_io c dir = (case dir of STORE \<Rightarrow> x_direct_store c | RETRIEVE \<Rightarrow> x_direct_retrieve c)"

end
