(* ===== verification/Xds_Accounting.thy ===== *)
theory Xds_Accounting
  imports Xds_Index
begin

text \<open>
  The accounting of the XDS index: what the entries and the stores under way occupy is never more than
  the counter says, and the counter stays within the quota; what eviction takes and what it leaves; and
  what the look-ups report. Every operation of \<open>Xds_Index\<close> is shown to preserve the invariant.
\<close>

section \<open>What is known of the policy and of memory objects\<close>

text \<open>
  A policy may reorder the mapping on a hit, finds the key it is told about, and proposes at most one
  key, one that is there and not pinned; it proposes none only if there is none.
\<close>

definition evictable :: "'k cache \<Rightarrow> 'k \<Rightarrow> bool" where
  "evictable c k \<longleftrightarrow> (\<exists>e. map_of c k = Some e \<and> e_pins e \<le> 0)"

definition policy_ok :: "('k, 'p) policy \<Rightarrow> bool" where
  "policy_ok pol \<longleftrightarrow>
     (\<forall>k p c. distinct (map fst c) \<longrightarrow>
        (case pol_hit pol k p c of (r, p', c') \<Rightarrow> mset c' = mset c \<and> (map_of c k \<noteq> None \<longrightarrow> r = None))) \<and>
     (\<forall>p c. distinct (map fst c) \<longrightarrow>
        (case pol_candidates pol p c of (ks, p') \<Rightarrow>
           length ks \<le> 1 \<and> (\<forall>k \<in> set ks. evictable c k) \<and> (ks = [] \<longrightarrow> (\<forall>k. \<not> evictable c k))))"

lemma policy_ok_hit:
  assumes "policy_ok pol" "distinct (map fst c)" "pol_hit pol k p c = (r, p', c')"
  shows "mset c' = mset c \<and> (map_of c k \<noteq> None \<longrightarrow> r = None)"
  using assms(1) [unfolded policy_ok_def, THEN conjunct1, rule_format, OF assms(2), of k p] assms(3) by simp

lemma policy_ok_candidates:
  assumes "policy_ok pol" "distinct (map fst c)" "pol_candidates pol p c = (ks, p')"
  shows "length ks \<le> 1 \<and> (\<forall>k \<in> set ks. evictable c k) \<and> (ks = [] \<longrightarrow> (\<forall>k. \<not> evictable c k))"
  using assms(1) [unfolded policy_ok_def, THEN conjunct2, rule_format, OF assms(2), of p] assms(3) by simp

definition mem_obj_ok :: "('k, 'd, 'p) env \<Rightarrow> 'd mem_obj \<Rightarrow> bool" where
  "mem_obj_ok v mo \<longleftrightarrow> 0 \<le> mo_physical mo \<and> 0 \<le> mo_size mo \<and>
     (case mo_chunk mo of
        None \<Rightarrow> True
      | Some t \<Rightarrow> mo_size mo = prod_list (t_shape t) * itemsize (x_torch (en_cfg v)) (t_dtype t))"

section \<open>The invariant\<close>

definition job_ok :: "('k, 'd, 'p) env \<Rightarrow> ('k, 'd) put_job \<Rightarrow> bool" where
  "job_ok v j \<longleftrightarrow> mem_obj_ok v (j_obj j) \<and> required_store_size v (j_obj j) = Inr (j_reserved j) \<and> 0 \<le> j_reserved j"

definition charged :: "('k, 'd, 'p) index \<Rightarrow> int" where
  "charged s = dict_sum e_size (ix_cache s) + sum_list (map j_reserved (ix_jobs s))"

definition within_quota :: "('k, 'd, 'p) env \<Rightarrow> ('k, 'd, 'p) index \<Rightarrow> bool" where
  "within_quota v s \<longleftrightarrow> (case x_max_size (en_cfg v) of None \<Rightarrow> True | Some limit \<Rightarrow> ix_size s \<le> limit)"

text \<open>
  \<open>n\<close> bytes are reserved for transfers of the running call; the quota is part of the invariant when
  \<open>q\<close> holds.
\<close>

definition index_inv :: "('k, 'd, 'p) env \<Rightarrow> bool \<Rightarrow> int \<Rightarrow> ('k, 'd, 'p) index \<Rightarrow> bool" where
  "index_inv v q n s \<longleftrightarrow>
     distinct (map fst (ix_cache s)) \<and> (\<forall>(k, e) \<in> set (ix_cache s). 0 \<le> e_size e) \<and>
     (\<forall>j \<in> set (ix_jobs s). job_ok v j) \<and> charged s + n \<le> ix_size s \<and> (q \<longrightarrow> within_quota v s)"

lemma index_inv_cong:
  assumes "ix_cache s' = ix_cache s" "ix_jobs s' = ix_jobs s" "ix_size s' = ix_size s"
  shows "index_inv v q n s' = index_inv v q n s"
  using assms unfolding index_inv_def charged_def within_quota_def by presburger

lemma index_inv_frames [simp]:
  "index_inv v q n (set_world w s) = index_inv v q n s"
  "index_inv v q n (count_ref i m s) = index_inv v q n s"
  "index_inv v q n (insert_put_task k s) = index_inv v q n s"
  "index_inv v q n (remove_put_task k s) = index_inv v q n s"
  "index_inv v q n (s\<lparr>ix_policy := p\<rparr>) = index_inv v q n s"
  "index_inv v q n (s\<lparr>ix_io := io\<rparr>) = index_inv v q n s"
  "index_inv v q n (s\<lparr>ix_request := ks\<rparr>) = index_inv v q n s"
  by (rule index_inv_cong; simp add: set_world_def count_ref_def insert_put_task_def remove_put_task_def)+

lemma set_world_fields [simp]:
  "ix_cache (set_world w s) = ix_cache s" "ix_jobs (set_world w s) = ix_jobs s" "ix_size (set_world w s) = ix_size s"
  "ix_policy (set_world w s) = ix_policy s" "ix_tasks (set_world w s) = ix_tasks s" "ix_world (set_world w s) = w"
  by (simp_all add: set_world_def)

lemma within_quota_frames [simp]:
  "within_quota v (s\<lparr>ix_cache := c\<rparr>) = within_quota v s"
  "within_quota v (s\<lparr>ix_jobs := js\<rparr>) = within_quota v s"
  by (simp_all add: within_quota_def cong: option.case_cong)

lemma dict_del_subset: "set (dict_del k d) \<subseteq> set d"
  by (auto simp: dict_del_def)

lemma dict_put_values: "(k', e') \<in> set (dict_put k e d) \<Longrightarrow> e' = e \<or> (k', e') \<in> set d"
  by (auto simp: dict_put_def split: if_splits)

text \<open>An entry leaves and its size is credited.\<close>

lemma index_inv_drop:
  assumes "index_inv v q n s" "map_of (ix_cache s) k = Some e"
  shows "index_inv v q n (s\<lparr>ix_cache := dict_del k (ix_cache s), ix_policy := p, ix_size := ix_size s - e_size e\<rparr>)"
proof -
  have d: "distinct (map fst (ix_cache s))" and e: "0 \<le> e_size e"
    using assms map_of_SomeD [OF assms(2)] by (auto simp: index_inv_def)
  show ?thesis
    using assms dict_sum_del [OF d assms(2), of e_size] e dict_del_subset [of k "ix_cache s"]
    by (auto simp: index_inv_def charged_def within_quota_def dict_simps split: option.splits)
qed

lemma mset_distinct_fst: "mset c = mset d \<Longrightarrow> distinct (map fst c) = distinct (map fst d)"
  by (metis mset_eq_imp_distinct_iff mset_map)

lemma dict_sum_mset: "mset c = mset d \<Longrightarrow> dict_sum f c = dict_sum f d"
  unfolding dict_sum_def by (metis mset_map sum_mset_sum_list)

lemma map_of_mset: "mset c = mset d \<Longrightarrow> distinct (map fst d) \<Longrightarrow> map_of c = map_of d"
  by (metis map_of_inject_set mset_distinct_fst set_mset_mset)

lemma policy_hit_ok:
  assumes "policy_ok (en_policy v)" "policy_hit v k s = (r, s')" "distinct (map fst (ix_cache s))"
  shows "mset (ix_cache s') = mset (ix_cache s) \<and> map_of (ix_cache s') = map_of (ix_cache s) \<and>
    ix_jobs s' = ix_jobs s \<and> ix_size s' = ix_size s \<and> ix_tasks s' = ix_tasks s \<and> ix_io s' = ix_io s \<and>
    ix_refs s' = ix_refs s \<and> (map_of (ix_cache s) k \<noteq> None \<longrightarrow> r = None)"
proof -
  obtain p c where h: "pol_hit (en_policy v) k (ix_policy s) (ix_cache s) = (r, p, c)"
    and s': "s' = s\<lparr>ix_policy := p, ix_cache := c\<rparr>"
    using assms(2) by (auto simp: policy_hit_def split: prod.splits)
  have "mset c = mset (ix_cache s) \<and> (map_of (ix_cache s) k \<noteq> None \<longrightarrow> r = None)"
    by (rule policy_ok_hit [OF assms(1,3) h])
  then show ?thesis using s' map_of_mset assms(3) by auto
qed

lemma policy_hit_inv:
  assumes "policy_ok (en_policy v)" "policy_hit v k s = (r, s')" "index_inv v q n s"
  shows "index_inv v q n s'"
proof -
  have d: "distinct (map fst (ix_cache s))" using assms(3) by (simp add: index_inv_def)
  note h = policy_hit_ok [OF assms(1,2) d]
  have m: "mset (ix_cache s') = mset (ix_cache s)" and j: "ix_jobs s' = ix_jobs s" "ix_size s' = ix_size s"
    using h by blast+
  have "within_quota v s' = within_quota v s" unfolding within_quota_def j ..
  then show ?thesis
    using assms(3) unfolding index_inv_def charged_def j mset_distinct_fst [OF m] mset_eq_setD [OF m]
      dict_sum_mset [OF m] by simp
qed

section \<open>Eviction\<close>

lemma pop_one:
  assumes "policy_ok (en_policy v)" "distinct (map fst (ix_cache s))"
    and "pol_candidates (en_policy v) (ix_policy s) (ix_cache s) = (k # ks, p)"
  obtains e where "ks = []" "map_of (ix_cache s) k = Some e" "e_pins e \<le> 0"
    "pop_candidates v (k # ks) (s\<lparr>ix_policy := p\<rparr>) paths =
      (None, s\<lparr>ix_cache := dict_del k (ix_cache s), ix_policy := pol_forget (en_policy v) k p,
        ix_size := ix_size s - e_size e\<rparr>, paths @ [e_path e])"
proof -
  have "length (k # ks) \<le> 1" "evictable (ix_cache s) k"
    using policy_ok_candidates [OF assms] by auto
  then show ?thesis using that by (auto simp: evictable_def)
qed

text \<open>
  The loop ends with room for the request, or with nothing left that may be evicted; it never raises.
\<close>

lemma evict_loop_ok:
  assumes "policy_ok (en_policy v)" "evict_loop v limit n s paths = (r, s', paths')" "index_inv v q m s"
  shows "index_inv v q m s' \<and> ix_size s' \<le> ix_size s \<and>
    (r = Inr True \<and> ix_size s' + n \<le> limit \<or>
     r = Inr False \<and> limit < ix_size s' + n \<and> (\<forall>k. \<not> evictable (ix_cache s') k)) \<and>
    (\<forall>k e. map_of (ix_cache s') k = Some e \<longrightarrow> map_of (ix_cache s) k = Some e) \<and>
    (\<forall>k e. map_of (ix_cache s) k = Some e \<longrightarrow> map_of (ix_cache s') k \<noteq> Some e \<longrightarrow> e_pins e \<le> 0) \<and>
    ix_jobs s' = ix_jobs s \<and> ix_tasks s' = ix_tasks s \<and> ix_io s' = ix_io s"
  using assms
proof (induction v limit n s paths rule: evict_loop.induct)
  case (1 v limit n s paths)
  have d: "distinct (map fst (ix_cache s))" using "1.prems"(3) by (simp add: index_inv_def)
  show ?case
  proof (cases "ix_size s + n \<le> limit")
    case True
    then have "r = Inr True" "s' = s" using "1.prems"(2) by (simp_all add: evict_loop.simps [of v limit n s])
    then show ?thesis using True "1.prems"(3) by simp
  next
    case False
    obtain cand p where c: "pol_candidates (en_policy v) (ix_policy s) (ix_cache s) = (cand, p)"
      by (cases "pol_candidates (en_policy v) (ix_policy s) (ix_cache s)")
    show ?thesis
    proof (cases cand)
      case Nil
      then have "r = Inr False" "s' = s\<lparr>ix_policy := p\<rparr>"
        using "1.prems"(2) False c by (simp_all add: evict_loop.simps [of v limit n s])
      moreover have "\<forall>k. \<not> evictable (ix_cache s) k"
        using policy_ok_candidates [OF "1.prems"(1) d c] Nil by simp
      ultimately show ?thesis using False "1.prems"(3) by simp
    next
      case (Cons k ks)
      from c Cons have ck: "pol_candidates (en_policy v) (ix_policy s) (ix_cache s) = (k # ks, p)" by simp
      obtain e where e: "map_of (ix_cache s) k = Some e" "e_pins e \<le> 0"
        and pop: "pop_candidates v (k # ks) (s\<lparr>ix_policy := p\<rparr>) paths =
          (None, s\<lparr>ix_cache := dict_del k (ix_cache s), ix_policy := pol_forget (en_policy v) k p,
            ix_size := ix_size s - e_size e\<rparr>, paths @ [e_path e])"
        by (rule pop_one [OF "1.prems"(1) d ck, of paths]) blast
      let ?s1 = "s\<lparr>ix_cache := dict_del k (ix_cache s), ix_policy := pol_forget (en_policy v) k p,
            ix_size := ix_size s - e_size e\<rparr>"
      have run: "evict_loop v limit n ?s1 (paths @ [e_path e]) = (r, s', paths')"
        using "1.prems"(2) False ck pop by (simp add: evict_loop.simps [of v limit n s])
      have inv: "index_inv v q m ?s1" by (rule index_inv_drop [OF "1.prems"(3) e(1)])
      have pos: "0 \<le> e_size e"
        using "1.prems"(3) map_of_SomeD [OF e(1)] by (auto simp: index_inv_def)
      note ih = "1.IH" [OF False ck [symmetric] refl pop [symmetric] refl refl "1.prems"(1) run inv]
      have del: "map_of (ix_cache ?s1) = (map_of (ix_cache s))(k := None)" by (simp add: dict_simps)
      show ?thesis
      proof (intro conjI)
        show "\<forall>k' e'. map_of (ix_cache s') k' = Some e' \<longrightarrow> map_of (ix_cache s) k' = Some e'"
          using ih unfolding del by (metis fun_upd_apply option.distinct(1))
        show "\<forall>k' e'. map_of (ix_cache s) k' = Some e' \<longrightarrow> map_of (ix_cache s') k' \<noteq> Some e' \<longrightarrow> e_pins e' \<le> 0"
          using ih e unfolding del by (metis fun_upd_apply option.inject)
      qed (use ih pos in auto)
    qed
  qed
qed

lemma eviction_ok:
  assumes "policy_ok (en_policy v)" "eviction v limit n s = (r, s')" "index_inv v q m s" "0 \<le> n"
    and "x_max_size (en_cfg v) = Some limit"
  shows "(r = Inr True \<and> index_inv v q (m + n) s' \<and> ix_size s' \<le> limit \<or>
     r = Inr False \<and> index_inv v q m s' \<and> limit < ix_size s' + n \<and> (\<forall>k. \<not> evictable (ix_cache s') k)) \<and>
    (\<forall>k e. map_of (ix_cache s') k = Some e \<longrightarrow> map_of (ix_cache s) k = Some e) \<and>
    (\<forall>k e. map_of (ix_cache s) k = Some e \<longrightarrow> map_of (ix_cache s') k \<noteq> Some e \<longrightarrow> e_pins e \<le> 0) \<and>
    ix_jobs s' = ix_jobs s \<and> ix_tasks s' = ix_tasks s"
proof -
  obtain r1 s1 paths where l: "evict_loop v limit n s [] = (r1, s1, paths)" by (metis surj_pair)
  note ok = evict_loop_ok [OF assms(1) l assms(3)]
  have room: "index_inv v q (m + n) (s1\<lparr>ix_size := ix_size s1 + n\<rparr>)" if "ix_size s1 + n \<le> limit"
    using ok that assms(5) by (auto simp: index_inv_def charged_def within_quota_def)
  show ?thesis
    using assms(2) l ok room
    by (auto simp: eviction_def Let_def split: sum.splits if_splits)
qed

lemma reserve_inv:
  assumes "policy_ok (en_policy v)" "reserve v n s = (r, s')" "index_inv v q m s" "0 \<le> n"
  shows "(r = Inr True \<and> index_inv v q (m + n) s' \<or> r = Inr False \<and> index_inv v q m s') \<and>
    (\<forall>k e. map_of (ix_cache s') k = Some e \<longrightarrow> map_of (ix_cache s) k = Some e) \<and>
    ix_jobs s' = ix_jobs s \<and> ix_tasks s' = ix_tasks s"
proof (cases "x_max_size (en_cfg v)")
  case None
  then have "r = Inr True" "s' = s\<lparr>ix_size := ix_size s + n\<rparr>" using assms(2) by (simp_all add: reserve_def)
  then show ?thesis using assms(3) None by (auto simp: index_inv_def charged_def within_quota_def)
next
  case (Some limit)
  then have "eviction v limit n s = (r, s')" using assms(2) by (simp add: reserve_def)
  from eviction_ok [OF assms(1) this assms(3,4) Some] show ?thesis by blast
qed


section \<open>Room that is given back or filled\<close>

lemma index_inv_weaken: "index_inv v q (n + m) s \<Longrightarrow> 0 \<le> m \<Longrightarrow> index_inv v q n s"
  by (simp add: index_inv_def)

lemma index_inv_release:
  "index_inv v q (n + m) s \<Longrightarrow> 0 \<le> m \<Longrightarrow> index_inv v q n (s\<lparr>ix_size := ix_size s - m\<rparr>)"
  by (auto simp: index_inv_def charged_def within_quota_def split: option.splits)

lemma index_inv_sizes: "index_inv v q n s \<Longrightarrow> map_of (ix_cache s) k = Some e \<Longrightarrow> 0 \<le> e_size e"
  by (drule map_of_SomeD) (auto simp: index_inv_def dest: bspec)

lemma index_inv_pop:
  assumes "index_inv v q n s"
  shows "index_inv v q n (s\<lparr>ix_cache := dict_del k (ix_cache s)\<rparr>)"
proof (cases "map_of (ix_cache s) k")
  case None
  then show ?thesis using assms by (simp add: dict_del_absent)
next
  case (Some e)
  have d: "distinct (map fst (ix_cache s))" using assms by (simp add: index_inv_def)
  show ?thesis
    using assms dict_sum_del [OF d Some, of e_size] index_inv_sizes [OF assms Some]
      dict_del_subset [of k "ix_cache s"]
    by (auto simp: index_inv_def charged_def within_quota_def dict_simps split: option.splits)
qed

lemma put_sizes:
  assumes "\<forall>(k', e') \<in> set c. 0 \<le> e_size e'" "0 \<le> e_size e"
  shows "\<forall>(k', e') \<in> set (dict_put k e c). 0 \<le> e_size e'"
  using assms dict_put_values [of _ _ k e c] by blast

lemma index_inv_put:
  assumes "index_inv v q (n + e_size e) s" "0 \<le> e_size e"
  shows "index_inv v q n (s\<lparr>ix_cache := dict_put k e (ix_cache s)\<rparr>)"
proof -
  have d: "distinct (map fst (ix_cache s))" using assms by (simp add: index_inv_def)
  have "dict_sum e_size (dict_put k e (ix_cache s)) \<le> dict_sum e_size (ix_cache s) + e_size e"
  proof (cases "map_of (ix_cache s) k")
    case None
    then show ?thesis by (simp add: dict_sum_put_new)
  next
    case (Some e')
    then show ?thesis
      using dict_sum_put_old [OF d Some, of e_size e] index_inv_sizes [OF assms(1) Some] by simp
  qed
  moreover have "\<forall>(k', e') \<in> set (dict_put k e (ix_cache s)). 0 \<le> e_size e'"
    by (rule put_sizes [OF _ assms(2)]) (use assms(1) in \<open>simp add: index_inv_def\<close>)
  ultimately show ?thesis
    using assms distinct_dict_put [OF d, of k e] by (simp add: index_inv_def charged_def)
qed

lemma index_inv_scanned:
  assumes "index_inv v False n s" "0 \<le> e_size e"
  shows "index_inv v False n (add_scanned k e s)"
proof -
  have d: "distinct (map fst (ix_cache s))" using assms by (simp add: index_inv_def)
  have "dict_sum e_size (dict_put k e (ix_cache s)) = dict_sum e_size (ix_cache s) + e_size e -
      (case map_of (ix_cache s) k of None \<Rightarrow> 0 | Some old \<Rightarrow> e_size old)"
    by (cases "map_of (ix_cache s) k") (simp_all add: dict_sum_put_new dict_sum_put_old [OF d])
  moreover have "\<forall>(k', e') \<in> set (dict_put k e (ix_cache s)). 0 \<le> e_size e'"
    by (rule put_sizes [OF _ assms(2)]) (use assms(1) in \<open>simp add: index_inv_def\<close>)
  ultimately show ?thesis
    using assms distinct_dict_put [OF d, of k e]
    by (simp add: add_scanned_def index_inv_def charged_def split: option.splits)
qed

lemma pin_entry_keys [simp]: "map fst (pin_entry m k c) = map fst c"
  by (induction c) (auto simp: pin_entry_def)

lemma pin_entry_sum [simp]: "dict_sum e_size (pin_entry m k c) = dict_sum e_size c"
  by (induction c) (auto simp: pin_entry_def dict_sum_def)

lemma pin_entry_sizes: "(\<forall>(k', e') \<in> set (pin_entry m k c). 0 \<le> e_size e') = (\<forall>(k', e') \<in> set c. 0 \<le> e_size e')"
proof -
  have "(case (case x of (k', e) \<Rightarrow> if k' = k then (k', e\<lparr>e_pins := e_pins e + m\<rparr>) else (k', e)) of
      (k', e') \<Rightarrow> 0 \<le> e_size e') = (case x of (k', e') \<Rightarrow> 0 \<le> e_size e')" for x
    by (cases x) simp
  then show ?thesis unfolding pin_entry_def set_map ball_simps by (intro ball_cong refl)
qed

lemma map_of_pin_entry:
  "map_of (pin_entry m k c) k' = map_option (\<lambda>e. if k' = k then e\<lparr>e_pins := e_pins e + m\<rparr> else e) (map_of c k')"
  by (induction c) (auto simp: pin_entry_def)

lemma index_inv_pin:
  assumes "index_inv v q n s"
  shows "index_inv v q n (s\<lparr>ix_cache := pin_entry m k (ix_cache s)\<rparr>)"
  using assms by (simp add: index_inv_def charged_def pin_entry_sizes)

section \<open>The operations\<close>

lemma contains_key_inv:
  assumes "contains_key k b s = (r, s')" "index_inv v q n s"
  shows "index_inv v q n s'"
proof -
  have "index_inv v q n (s\<lparr>ix_cache := pin_entry 1 k (ix_cache s), ix_request := ix_request s @ [k]\<rparr>) =
      index_inv v q n (s\<lparr>ix_cache := pin_entry 1 k (ix_cache s)\<rparr>)"
    by (rule index_inv_cong) simp_all
  then show ?thesis
    using assms index_inv_pin [OF assms(2)] by (auto simp: contains_key_def split: if_splits)
qed

lemma batched_contains_inv:
  "batched_async_contains ks b i s = (r, s') \<Longrightarrow> index_inv v q n s \<Longrightarrow> index_inv v q n s'"
  by (induction ks b i s rule: batched_async_contains.induct)
    (auto split: prod.splits bool.splits dest: contains_key_inv)

lemma hit_all_inv:
  assumes "policy_ok (en_policy v)" "hit_all v ks s = (r, s')" "index_inv v q n s"
  shows "index_inv v q n s'"
  using assms
  by (induction v ks s rule: hit_all.induct) (auto split: prod.splits option.splits dest: policy_hit_inv)

lemma touch_cache_inv:
  assumes "policy_ok (en_policy v)" "touch_cache v s = (r, s')" "index_inv v q n s"
  shows "index_inv v q n s'"
  using assms hit_all_inv [OF assms(1) _ assms(3)]
  by (auto simp: touch_cache_def split: prod.splits option.splits)

lemma remove_key_inv:
  assumes "remove_key v k s = (r, s')" "index_inv v q n s"
  shows "index_inv v q n s'"
  using assms index_inv_drop [OF assms(2)] by (auto simp: remove_key_def split: option.splits)

lemma align_up_nonneg: "align_up n BLOCK_FIRST_ALIGNMENT = Inr m \<Longrightarrow> 0 \<le> m"
  by (auto simp: align_up_Inr BLOCK_FIRST_ALIGNMENT_def)

lemma required_size_nonneg:
  "mem_obj_ok v mo \<Longrightarrow> required_store_size v mo = Inr n \<Longrightarrow> 0 \<le> n"
  by (auto simp: required_store_size_def mem_obj_ok_def BLOCK_FIRST_HEADER_SIZE_def dest: align_up_nonneg
      split: option.splits sum.splits bool.splits)

lemma submit_put_task_new:
  assumes "\<not> ((\<not> en_allocator v \<and> \<not> x_cpu_store (en_cfg v)) \<or> mo_chunk mo = None \<or> exists_in_put_tasks k s \<or>
    (case map_of (ix_cache s) k of Some e \<Rightarrow> e_disk e \<noteq> None | None \<Rightarrow> False))"
  shows "submit_put_task v k mo s =
      (case required_store_size v mo of
         Inl e \<Rightarrow> (Some e, insert_put_task k s)
       | Inr n \<Rightarrow>
           (case reserve v n (insert_put_task k s) of
              (Inl e, s2) \<Rightarrow> (Some e, s2)
            | (Inr False, s2) \<Rightarrow> (None, remove_put_task k s2)
            | (Inr True, s2) \<Rightarrow>
                (None, count_ref (mo_id mo) 1
                   (s2\<lparr>ix_policy := pol_put (en_policy v) k (ix_policy s2),
                       ix_jobs := ix_jobs s2 @ [\<lparr>j_key = k, j_obj = mo, j_reserved = n\<rparr>]\<rparr>))))"
  using assms unfolding submit_put_task_def Let_def by argo

lemma submit_put_task_inv:
  assumes "policy_ok (en_policy v)" "mem_obj_ok v mo" "submit_put_task v k mo s = (r, s')" "index_inv v q n s"
  shows "index_inv v q n s'"
proof (cases "(\<not> en_allocator v \<and> \<not> x_cpu_store (en_cfg v)) \<or> mo_chunk mo = None \<or> exists_in_put_tasks k s \<or>
    (case map_of (ix_cache s) k of Some e \<Rightarrow> e_disk e \<noteq> None | None \<Rightarrow> False)")
  case True
  then have "s' = s \<or> policy_hit v k s = (r, s')" using assms(3) by (auto simp: submit_put_task_def split: if_splits)
  then show ?thesis using assms(4) policy_hit_inv [OF assms(1)] by blast
next
  case False
  let ?s1 = "insert_put_task k s"
  note run = submit_put_task_new [OF False]
  show ?thesis
  proof (cases "required_store_size v mo")
    case (Inl e)
    then have "s' = ?s1" using assms(3) run by simp
    then show ?thesis using assms(4) by simp
  next
    case (Inr m)
    note m = required_size_nonneg [OF assms(2) Inr]
    obtain x s2 where x: "reserve v m ?s1 = (x, s2)" by (cases "reserve v m ?s1")
    have i1: "index_inv v q n ?s1" using assms(4) by simp
    note rs = reserve_inv [OF assms(1) x i1 m]
    let ?j = "\<lparr>j_key = k, j_obj = mo, j_reserved = m\<rparr>"
    have "job_ok v ?j" using assms(2) Inr m by (simp add: job_ok_def)
    moreover have "index_inv v q n (count_ref i o1 (s2\<lparr>ix_policy := p, ix_jobs := ix_jobs s2 @ [?j]\<rparr>)) =
        index_inv v q n (s2\<lparr>ix_jobs := ix_jobs s2 @ [?j]\<rparr>)" for i o1 p
      by (rule index_inv_cong) (simp_all add: count_ref_def)
    moreover have "index_inv v q (n + m) s2 \<Longrightarrow> job_ok v ?j \<Longrightarrow> index_inv v q n (s2\<lparr>ix_jobs := ix_jobs s2 @ [?j]\<rparr>)"
      by (auto simp: index_inv_def charged_def within_quota_def split: option.splits)
    ultimately show ?thesis
      using assms(3) [unfolded run Inr] x rs by (auto split: sum.splits bool.splits)
  qed
qed

lemma batched_submit_inv:
  assumes "policy_ok (en_policy v)" "\<forall>(k, mo) \<in> set items. mem_obj_ok v mo"
    and "batched_submit_put_task v items s = (r, s')" "index_inv v q n s"
  shows "index_inv v q n s'"
  using assms
proof (induction v items s rule: batched_submit_put_task.induct)
  case (1 v s)
  then show ?case by simp
next
  case (2 v k mo rest s)
  obtain x s1 where x: "submit_put_task v k mo s = (x, s1)" by (cases "submit_put_task v k mo s")
  have "mem_obj_ok v mo" using "2.prems"(2) by simp
  from submit_put_task_inv [OF "2.prems"(1) this x "2.prems"(4)] 2 x
  show ?case by (cases x) auto
qed

subsection \<open>The end of a staged store\<close>

lemma abandon_value: "abandon q tmp e w = (Inr y, w') \<Longrightarrow> False"
  using abandon_ok [of q tmp e w "Inr y" w'] by simp

lemma publish_value: "publish q tmp path body x w = (Inr y, w') \<Longrightarrow> y = x"
  by (auto simp: publish_def split: prod.splits option.splits dest: abandon_value)

lemma save_block_first_value: "save_block_first_xds wr c st path t w = (Inr m, w') \<Longrightarrow> make_block_first_metadata c t = Inr m"
  by (auto simp: save_block_first_xds_def Let_def dest: abandon_value publish_value
      split: sum.splits option.splits if_splits)

lemma save_cpu_block_first_value: "save_cpu_block_first_xds c path t w = (Inr m, w') \<Longrightarrow> make_block_first_metadata c t = Inr m"
  by (auto simp: save_cpu_block_first_xds_def dest: publish_value split: sum.splits if_splits)

lemma save_data_disk:
  assumes "save_data v path bf mo t w = (Inr (disk, sidecar), w')"
  shows "if bf then \<exists>m. disk = Some m \<and> sidecar = None \<and> make_block_first_metadata (en_cfg v) t = Inr m
    else disk = None \<and> sidecar \<noteq> None \<and> \<not> x_cpu_store (en_cfg v)"
  using assms
  by (auto simp: save_data_def Let_def split: if_splits sum.splits prod.splits
      dest: save_block_first_value save_cpu_block_first_value)

lemma store_files_disk:
  assumes "store_files v path bf mo t w = (Inr disk, w')"
  shows "if bf then \<exists>m. disk = Some m \<and> make_block_first_metadata (en_cfg v) t = Inr m else disk = None"
proof -
  obtain w1 where m: "make_directories w = (None, w1)"
    using assms by (auto simp: store_files_def split: prod.splits option.splits)
  obtain d sidecar w2 where s: "save_data v path bf mo t w1 = (Inr (d, sidecar), w2)"
    using assms m by (auto simp: store_files_def split: prod.splits sum.splits)
  have "d = disk" using assms m s by (auto simp: store_files_def split: option.splits prod.splits)
  with save_data_disk [OF s] show ?thesis by (auto split: if_splits)
qed

lemma stored_size:
  assumes "make_block_first_metadata c t = Inr m"
  shows "align_up (prod_list (t_shape t) * itemsize (x_torch c) (t_dtype t)) BLOCK_FIRST_ALIGNMENT = Inr (m_io_nbytes m)"
proof -
  obtain bs where cr: "create (x_torch c) (t_shape t) (t_dtype t) bs (x_model c) (x_world c) (x_worker c)
      (x_tp c) (x_pp c) = Inr m"
    using assms by (auto simp: make_block_first_metadata_def split: option.splits)
  from create_fields [OF cr] show ?thesis by (auto simp: validate_None_iff)
qed

lemma insert_key_inv:
  assumes "policy_ok (en_policy v)" "insert_key v k mo path disk stored s = (r, s')"
    and "index_inv v q (n + m) s" "0 \<le> m"
    and "(case disk of Some md \<Rightarrow> BLOCK_FIRST_HEADER_SIZE + m_io_nbytes md | None \<Rightarrow> stored) = m"
  shows "r = None \<and> index_inv v q n s'"
proof (cases "map_of (ix_cache s) k")
  case None
  let ?e = "\<lparr>e_path = path, e_size = m, e_shape = mo_shape mo, e_dtype = mo_dtype mo, e_pins = 0, e_disk = disk\<rparr>"
  have "s' = s\<lparr>ix_cache := dict_put k ?e (ix_cache s)\<rparr>" "r = None"
    using assms(2,5) None by (simp_all add: insert_key_def)
  then show ?thesis using index_inv_put [of v q n ?e s k] assms(3,4) by simp
next
  case (Some e)
  then have h: "policy_hit v k s = (r, s')" using assms(2) by (simp add: insert_key_def)
  have d: "distinct (map fst (ix_cache s))" using assms(3) by (simp add: index_inv_def)
  show ?thesis
    using policy_hit_ok [OF assms(1) h d] Some
      index_inv_weaken [OF policy_hit_inv [OF assms(1) h assms(3)] assms(4)] by simp
qed

lemma async_save_inv:
  assumes "policy_ok (en_policy v)" "async_save v j s = (r, s')" "job_ok v j" "index_inv v q (n + j_reserved j) s"
  shows "r = None \<and> index_inv v q n s'"
proof -
  obtain t where t: "mo_chunk (j_obj j) = Some t"
    using assms(3) by (auto simp: job_ok_def required_store_size_def split: option.splits)
  obtain bf where bf: "use_block_first_for_tensor (en_cfg v) t = Inr bf"
    using assms(3) t by (auto simp: job_ok_def required_store_size_def split: sum.splits)
  have pos: "0 \<le> j_reserved j" using assms(3) by (simp add: job_ok_def)
  let ?path = "path_of v bf (j_key j)"
  obtain x w where x: "store_files v ?path bf (j_obj j) t (ix_world s) = (x, w)" by (metis surj_pair)
  let ?s = "set_world w s"
  have i: "index_inv v q (n + j_reserved j) ?s" using assms(4) by simp
  have rb: "index_inv v q n (finish_put j (rollback_put (j_key j) ?path bf (j_reserved j) s2))"
    if "index_inv v q (n + j_reserved j) s2" for s2
    using index_inv_release [OF index_inv_pop [OF that, of "j_key j"] pos]
    by (simp add: finish_put_def rollback_put_def)
  show ?thesis
  proof (cases x)
    case (Inl e)
    then show ?thesis using assms(2) t bf x rb [OF i] by (simp add: async_save_def Let_def)
  next
    case (Inr disk)
    have "(case disk of Some md \<Rightarrow> BLOCK_FIRST_HEADER_SIZE + m_io_nbytes md | None \<Rightarrow> j_reserved j) = j_reserved j"
      using store_files_disk [OF x [unfolded Inr]] stored_size [of "en_cfg v" t] assms(3) t bf
      by (auto simp: job_ok_def required_store_size_def mem_obj_ok_def split: if_splits)
    from insert_key_inv [OF assms(1) _ i pos this]
    have ik: "insert_key v (j_key j) (j_obj j) ?path disk (j_reserved j) ?s = (y, s1) \<Longrightarrow> y = None \<and> index_inv v q n s1"
      for y s1 by blast
    show ?thesis
      using assms(2) t bf x Inr ik
      by (cases "insert_key v (j_key j) (j_obj j) ?path disk (j_reserved j) ?s")
        (auto simp: async_save_def Let_def finish_put_def)
  qed
qed

lemma run_put_job_inv:
  assumes "policy_ok (en_policy v)" "run_put_job v i s = (r, s')" "index_inv v q n s"
  shows "r = None \<and> index_inv v q n s'"
proof (cases "length (ix_jobs s) \<le> i")
  case True
  then show ?thesis using assms by (simp add: run_put_job_def)
next
  case False
  let ?j = "ix_jobs s ! i"
  let ?s = "s\<lparr>ix_jobs := take i (ix_jobs s) @ drop (Suc i) (ix_jobs s)\<rparr>"
  have sp: "ix_jobs s = take i (ix_jobs s) @ ?j # drop (Suc i) (ix_jobs s)" using False by (simp add: id_take_nth_drop)
  have j: "job_ok v ?j" using assms(3) False by (simp add: index_inv_def)
  have "sum_list (map j_reserved (ix_jobs s)) = j_reserved ?j + sum_list (map j_reserved (ix_jobs ?s))"
    by (subst sp) simp
  moreover have "set (ix_jobs ?s) \<subseteq> set (ix_jobs s)" by (subst (3) sp) auto
  ultimately have "index_inv v q (n + j_reserved ?j) ?s"
    using assms(3) by (auto simp: index_inv_def charged_def within_quota_def split: option.splits)
  from async_save_inv [OF assms(1) _ j this] assms(2) False show ?thesis by (simp add: run_put_job_def)
qed

subsection \<open>Direct stores\<close>

definition store_job_ok :: "('k, 'd, 'p) env \<Rightarrow> 'k store_job \<Rightarrow> bool" where
  "store_job_ok v j \<longleftrightarrow> 0 \<le> sj_size j \<and>
     (\<forall>m. make_direct_block_first_metadata (en_cfg v) = Inr m \<longrightarrow> BLOCK_FIRST_HEADER_SIZE + m_io_nbytes m = sj_size j)"

lemma save_direct_value: "save_direct_xds wr c path d io = (Inr m, io') \<Longrightarrow> make_direct_block_first_metadata c = Inr m"
  by (auto simp: save_direct_xds_def Let_def dest: abandon_value publish_value
      split: option.splits sum.splits prod.splits)

lemma direct_store_value:
  "run_direct_store_io v path d io = (Inr m, io') \<Longrightarrow> make_direct_block_first_metadata (en_cfg v) = Inr m"
  by (auto simp: run_direct_store_io_def dest: save_direct_value split: option.splits prod.splits)

lemma direct_room_nonneg:
  assumes "make_direct_block_first_metadata c = Inr m"
  shows "0 \<le> BLOCK_FIRST_HEADER_SIZE + m_io_nbytes m"
proof -
  obtain bs where cr: "create (x_torch c) (hd (x_shapes c)) (hd (x_dtypes c)) bs (x_model c) (x_world c)
      (x_worker c) (x_tp c) (x_pp c) = Inr m"
    using assms by (auto simp: make_direct_block_first_metadata_def split: option.splits if_splits)
  have "align_up (m_payload_nbytes m) BLOCK_FIRST_ALIGNMENT = Inr (m_io_nbytes m)"
    using create_fields [OF cr] by (auto simp: validate_None_iff)
  from align_up_nonneg [OF this] show ?thesis by (simp add: BLOCK_FIRST_HEADER_SIZE_def)
qed

lemma settle_store_inv:
  assumes "settle_store v k path m r s = (x, s')" "index_inv v q (n + m) s" "0 \<le> m"
    and "\<And>md. r = Inr md \<Longrightarrow> BLOCK_FIRST_HEADER_SIZE + m_io_nbytes md = m"
  shows "index_inv v q n s'"
proof (cases r)
  case (Inr md)
  let ?e = "\<lparr>e_path = path, e_size = BLOCK_FIRST_HEADER_SIZE + m_io_nbytes md, e_shape = m_logical_shape md,
         e_dtype = m_dtype md, e_pins = 0, e_disk = Some md\<rparr>"
  have "s' = remove_put_task k (s\<lparr>ix_cache := dict_put k ?e (ix_cache s)\<rparr>)"
    using assms(1) Inr by (simp add: settle_store_def insert_direct_key_def)
  then show ?thesis using index_inv_put [of v q n ?e s k] assms(2-3) assms(4) [OF Inr] by simp
next
  case (Inl e)
  have "rollback_direct_store v k m True s =
      s\<lparr>ix_size := ix_size s - m, ix_policy := pol_forget (en_policy v) k (ix_policy s)\<rparr>"
    by (simp add: rollback_direct_store_def)
  then show ?thesis
    using assms(1) Inl index_inv_release [OF assms(2,3)] index_inv_weaken [OF assms(2,3)]
    by (auto simp: settle_store_def split: if_splits)
qed

lemma direct_put_round_inv:
  assumes "policy_ok (en_policy v)" "direct_put_round v pipelined i k d s = (x, s')" "index_inv v q n s"
  shows "case x of Inr (Inr j) \<Rightarrow> store_job_ok v j \<and> index_inv v q (n + sj_size j) s' | _ \<Rightarrow> index_inv v q n s'"
proof (cases "d = None \<or> \<not> x_direct (en_cfg v) \<or>
    (case map_of (ix_cache s) k of Some e \<Rightarrow> e_disk e \<noteq> None | None \<Rightarrow> False)")
  case True
  then have "(s' = s \<and> x = Inr (Inl False)) \<or>
      (\<exists>r. policy_hit v k s = (r, s') \<and> x = (case r of Some e \<Rightarrow> Inl e | None \<Rightarrow> Inr (Inl True)))"
    using assms(2) unfolding direct_put_round_def by (cases d) (auto split: if_splits option.splits prod.splits)
  then show ?thesis using assms(3) policy_hit_inv [OF assms(1) _ assms(3)] by (auto split: option.splits)
next
  case False
  then obtain d' where d: "d = Some d'" by (cases d) auto
  define s0 where "s0 = snd (remove_key v k s)"
  have i0: "index_inv v q n s0" unfolding s0_def by (rule remove_key_inv [OF prod.collapse [symmetric] assms(3)])
  show ?thesis
  proof (cases "exists_in_put_tasks k s0")
    case True
    then show ?thesis using assms(2) False d i0 by (auto simp: direct_put_round_def s0_def [symmetric] Let_def)
  next
    case nt: False
    let ?s1 = "insert_put_task k s0"
    have run: "direct_put_round v pipelined i k d s =
       (case make_direct_block_first_metadata (en_cfg v) of
          Inl e \<Rightarrow>
            if direct_catches e then (Inr (Inl False), remove_put_task k ?s1) else (Inl e, remove_put_task k ?s1)
        | Inr m \<Rightarrow>
            let n = BLOCK_FIRST_HEADER_SIZE + m_io_nbytes m in
            (case reserve v n ?s1 of
               (Inl e, s2) \<Rightarrow>
                 if direct_catches e then (Inr (Inl False), remove_put_task k s2) else (Inl e, remove_put_task k s2)
             | (Inr False, s2) \<Rightarrow> (Inr (Inl False), remove_put_task k s2)
             | (Inr True, s2) \<Rightarrow>
                 let s3 = s2\<lparr>ix_policy := pol_put (en_policy v) k (ix_policy s2)\<rparr>;
                     path = path_of v True k
                 in if pipelined
                      then (Inr (Inr \<lparr>sj_index = i, sj_key = k, sj_path = path, sj_size = n, sj_descriptor = d'\<rparr>), s3)
                    else (case run_direct_store_io v path d' (ix_io s3) of (r, io) \<Rightarrow>
                      (case settle_store v k path n r (s3\<lparr>ix_io := io\<rparr>) of
                         (Inl e, s4) \<Rightarrow> (Inl e, s4)
                       | (Inr b, s4) \<Rightarrow> (Inr (Inl b), s4)))))"
      using False nt d unfolding direct_put_round_def s0_def Let_def by (auto split: option.splits)
    show ?thesis
    proof (cases "make_direct_block_first_metadata (en_cfg v)")
      case (Inl e)
      then show ?thesis using assms(2) run i0 by (auto split: if_splits)
    next
      case (Inr m)
      let ?m = "BLOCK_FIRST_HEADER_SIZE + m_io_nbytes m"
      note pos = direct_room_nonneg [OF Inr]
      obtain y s2 where y: "reserve v ?m ?s1 = (y, s2)" by (cases "reserve v ?m ?s1")
      have i1: "index_inv v q n ?s1" using i0 by simp
      note rs = reserve_inv [OF assms(1) y i1 pos, THEN conjunct1]
      let ?s3 = "s2\<lparr>ix_policy := pol_put (en_policy v) k (ix_policy s2)\<rparr>"
      let ?path = "path_of v True k"
      show ?thesis
      proof (cases "y = Inr True \<and> \<not> pipelined")
        case True
        obtain r io where r: "run_direct_store_io v ?path d' (ix_io ?s3) = (r, io)"
          by (cases "run_direct_store_io v ?path d' (ix_io ?s3)")
        obtain z s4 where z: "settle_store v k ?path ?m r (?s3\<lparr>ix_io := io\<rparr>) = (z, s4)"
          by (cases "settle_store v k ?path ?m r (?s3\<lparr>ix_io := io\<rparr>)")
        have "index_inv v q (n + ?m) (?s3\<lparr>ix_io := io\<rparr>)" using rs True by simp
        from settle_store_inv [OF z this pos] direct_store_value [of v ?path d' "ix_io ?s3" _ io] r Inr
        have "index_inv v q n s4" by auto
        moreover have "s' = s4" "x = (case z of Inl e \<Rightarrow> Inl e | Inr b \<Rightarrow> Inr (Inl b))"
          using assms(2) [unfolded run Inr] y True r z by (auto split: sum.splits)
        ultimately show ?thesis by (auto split: sum.splits)
      next
        case False
        then show ?thesis
          using assms(2) [unfolded run Inr] y rs Inr pos
          by (auto simp: Let_def store_job_ok_def split: sum.splits bool.splits if_splits)
      qed
    qed
  qed
qed

lemma drain_store_inv: "index_inv v q n s \<Longrightarrow> index_inv v q n (drain_store_jobs v js s)"
  by (induction v js s rule: drain_store_jobs.induct) simp_all

abbreviation jobs_size :: "'k store_job list \<Rightarrow> int" where
  "jobs_size js \<equiv> sum_list (map sj_size js)"

lemma jobs_size_nonneg: "\<forall>j \<in> set js. store_job_ok v j \<Longrightarrow> 0 \<le> jobs_size js"
  by (induction js) (auto simp: store_job_ok_def)

lemma direct_put_loop_inv:
  assumes "policy_ok (en_policy v)" "direct_put_loop v pipelined i items results jobs s = (x, s')"
    and "\<forall>j \<in> set jobs. store_job_ok v j" "index_inv v q (n + jobs_size jobs) s"
  shows "case x of Inl e \<Rightarrow> index_inv v q n s'
    | Inr (results', jobs') \<Rightarrow> (\<forall>j \<in> set jobs'. store_job_ok v j) \<and> index_inv v q (n + jobs_size jobs') s'"
  using assms
proof (induction v pipelined i items results jobs s rule: direct_put_loop.induct)
  case (1 v pipelined i results jobs s)
  then show ?case by auto
next
  case (2 v pipelined i k d rest results jobs s)
  obtain y s1 where y: "direct_put_round v pipelined i k d s = (y, s1)"
    by (cases "direct_put_round v pipelined i k d s")
  note rd = direct_put_round_inv [OF "2.prems"(1) y "2.prems"(4)]
  note jp = jobs_size_nonneg [OF "2.prems"(3)]
  consider (raised) e where "y = Inl e" | (finished) b where "y = Inr (Inl b)" | (queued) j where "y = Inr (Inr j)"
    by (metis sum.exhaust)
  then show ?case
  proof cases
    case raised
    then have "index_inv v q (n + jobs_size jobs) s1" using rd by simp
    then have "index_inv v q n s1" using jp by (rule index_inv_weaken)
    then show ?thesis using "2.prems"(2) y raised drain_store_inv by auto
  next
    case finished
    then show ?thesis using "2.IH"(1) [OF y [symmetric] _ refl] "2.prems" rd y by simp
  next
    case queued
    then show ?thesis
      using "2.IH"(2) [OF y [symmetric] _ refl] "2.prems" rd y by (simp add: algebra_simps)
  qed
qed

lemma finish_store_jobs_inv:
  assumes "finish_store_jobs v jobs results s = (x, s')" "\<forall>j \<in> set jobs. store_job_ok v j"
    and "index_inv v q (n + jobs_size jobs) s"
  shows "index_inv v q n s'"
  using assms
proof (induction v jobs results s rule: finish_store_jobs.induct)
  case (1 v results s)
  then show ?case by simp
next
  case (2 v j js results s)
  obtain r io where r: "run_direct_store_io v (sj_path j) (sj_descriptor j) (ix_io s) = (r, io)"
    by (cases "run_direct_store_io v (sj_path j) (sj_descriptor j) (ix_io s)")
  let ?s = "s\<lparr>ix_io := io\<rparr>"
  obtain y s1 where y: "settle_store v (sj_key j) (sj_path j) (sj_size j) r ?s = (y, s1)"
    by (cases "settle_store v (sj_key j) (sj_path j) (sj_size j) r ?s")
  have j: "store_job_ok v j" "\<forall>j \<in> set js. store_job_ok v j" using "2.prems"(2) by simp_all
  have i: "index_inv v q ((n + jobs_size js) + sj_size j) ?s" using "2.prems"(3) by (simp add: algebra_simps)
  have "index_inv v q (n + jobs_size js) s1"
    using settle_store_inv [OF y i] j(1) direct_store_value [of v "sj_path j" "sj_descriptor j" "ix_io s" _ io] r
    by (auto simp: store_job_ok_def)
  moreover from this have "index_inv v q n s1" using jobs_size_nonneg [OF j(2)] by (rule index_inv_weaken)
  ultimately show ?case
    using "2.IH" [OF r [symmetric] y [symmetric] _ ] "2.prems"(1) r y j(2) drain_store_inv
    by (cases y) auto
qed

lemma batched_direct_put_inv:
  assumes "policy_ok (en_policy v)" "batched_direct_put v ks ds s = (r, s')" "index_inv v q n s"
  shows "index_inv v q n s'"
proof (cases "x_direct_store (en_cfg v)")
  case False
  then show ?thesis using assms by (simp add: batched_direct_put_def)
next
  case True
  let ?p = "x_store_pipeline (en_cfg v) \<and> 1 < length ks"
  obtain y s1 where y: "direct_put_loop v ?p 0 (zip ks ds) (replicate (length ks) False) [] s = (y, s1)"
    by (metis surj_pair)
  have "index_inv v q (n + jobs_size []) s" using assms(3) by simp
  note l = direct_put_loop_inv [OF assms(1) y _ this]
  show ?thesis
  proof (cases y)
    case (Inl e)
    then show ?thesis using assms(2) y True l by (simp add: batched_direct_put_def Let_def)
  next
    case (Inr rj)
    obtain results jobs where rj: "rj = (results, jobs)" by (cases rj)
    have ok: "\<forall>j \<in> set jobs. store_job_ok v j" "index_inv v q (n + jobs_size jobs) s1" using l Inr rj by simp_all
    show ?thesis
    proof (cases "length ks = length ds")
      case True
      then have "finish_store_jobs v jobs results s1 = (r, s')"
        using assms(2) y \<open>x_direct_store (en_cfg v)\<close> Inr rj by (simp add: batched_direct_put_def Let_def)
      then show ?thesis by (rule finish_store_jobs_inv [OF _ ok])
    next
      case False
      then have "s' = drain_store_jobs v jobs s1"
        using assms(2) y \<open>x_direct_store (en_cfg v)\<close> Inr rj by (simp add: batched_direct_put_def Let_def)
      then show ?thesis using drain_store_inv [OF index_inv_weaken [OF ok(2) jobs_size_nonneg [OF ok(1)]]] by simp
    qed
  qed
qed

subsection \<open>Direct retrieves\<close>

lemma with_io_inv: "with_io f s = (r, s') \<Longrightarrow> index_inv v q n s \<Longrightarrow> index_inv v q n s'"
  by (auto simp: with_io_def split: prod.splits)

lemma hit_after_inv:
  assumes "policy_ok (en_policy v)" "hit_after v k (r, s) = (x, s')" "index_inv v q n s"
  shows "index_inv v q n s'"
proof (cases r)
  case None
  obtain y s1 where y: "policy_hit v k s = (y, s1)" by (cases "policy_hit v k s")
  then have "s' = s1" using assms(2) None by (auto simp: hit_after_def split: option.splits if_splits)
  then show ?thesis using policy_hit_inv [OF assms(1) y assms(3)] by simp
next
  case (Some e)
  then show ?thesis using assms(2,3) by (auto simp: hit_after_def split: if_splits)
qed

lemma transfer_hit_inv:
  assumes "policy_ok (en_policy v)" "hit_after v k (with_io f s) = (x, s')" "index_inv v q n s"
  shows "index_inv v q n s'"
proof -
  obtain r s1 where r: "with_io f s = (r, s1)" by (cases "with_io f s")
  show ?thesis by (rule hit_after_inv [OF assms(1) assms(2) [unfolded r] with_io_inv [OF r assms(3)]])
qed

lemma direct_get_round_inv:
  assumes "policy_ok (en_policy v)" "direct_get_round v p fresh i k d s = (x, s')" "index_inv v q n s"
  shows "index_inv v q n s'"
  using assms(2,3) transfer_hit_inv [OF assms(1) _ assms(3)]
  by (auto simp: direct_get_round_def split: option.splits if_splits prod.splits sum.splits)

lemma direct_get_loop_inv:
  assumes "policy_ok (en_policy v)" "direct_get_loop v p fresh i items results jobs s = (x, s')" "index_inv v q n s"
  shows "index_inv v q n s'"
  using assms
proof (induction v p fresh i items results jobs s rule: direct_get_loop.induct)
  case (1 v pipelined fresh i results jobs s)
  then show ?case by simp
next
  case (2 v pipelined fresh i k d rest results jobs s)
  obtain y s1 where y: "direct_get_round v pipelined fresh i k d s = (y, s1)"
    by (cases "direct_get_round v pipelined fresh i k d s")
  note inv = direct_get_round_inv [OF "2.prems"(1) y "2.prems"(3)]
  show ?case
    using 2 y inv by (auto split: sum.splits)
qed

lemma prepare_jobs_inv:
  assumes "prepare_jobs v jobs ready s = (x, s')" "index_inv v q n s"
  shows "index_inv v q n s'"
  using assms
proof (induction v jobs ready s rule: prepare_jobs.induct)
  case (1 v ready s)
  then show ?case by simp
next
  case (2 v j js ready s)
  obtain y s1 where y: "(case prepare_direct_xds (en_cfg v) (rj_path j) (rj_meta j) (rj_descriptor j) (ix_world s) of
      Some e \<Rightarrow> (Some e, s) | None \<Rightarrow> with_io (ensure_registered (rj_descriptor j)) s) = (y, s1)"
    by (metis surj_pair)
  have "index_inv v q n s1" using y "2.prems"(2) with_io_inv by (auto split: option.splits)
  then show ?case
    using "2.IH"(1) [OF y [symmetric]] "2.IH"(2) [OF y [symmetric]] "2.prems"(1) y
    by (cases y) (auto split: if_splits)
qed

lemma transfer_jobs_inv:
  assumes "policy_ok (en_policy v)" "transfer_jobs v fresh jobs results s = (x, s')" "index_inv v q n s"
  shows "index_inv v q n s'"
  using assms
proof (induction v fresh jobs results s rule: transfer_jobs.induct)
  case (1 v fresh results s)
  then show ?case by simp
next
  case (2 v fresh j js results s)
  obtain y s1 where y: "hit_after v (rj_key j)
         (with_io (transfer_direct_xds (en_rd v) (en_cfg v) (rj_path j) fresh (rj_descriptor j)) s) = (y, s1)"
    by (metis surj_pair)
  from 2 y transfer_hit_inv [OF "2.prems"(1) y "2.prems"(3)] show ?case by (auto split: sum.splits)
qed

lemma batched_direct_get_inv:
  assumes "policy_ok (en_policy v)" "batched_direct_get v fresh ks ds s = (r, s')" "index_inv v q n s"
  shows "index_inv v q n s'"
proof -
  let ?p = "x_retrieve_pipeline (en_cfg v) \<and> 1 < length ks"
  obtain y s1 where y: "direct_get_loop v ?p fresh 0 (zip ks ds) (replicate (length ks) False) [] s = (y, s1)"
    by (metis surj_pair)
  note i1 = direct_get_loop_inv [OF assms(1) y assms(3)]
  show ?thesis
  proof (cases y)
    case (Inl e)
    then show ?thesis using assms(2) y i1 by (simp add: batched_direct_get_def)
  next
    case (Inr rj)
    obtain results jobs where rj: "rj = (results, jobs)" by (cases rj)
    obtain z s2 where z: "prepare_jobs v jobs [] s1 = (z, s2)" by (cases "prepare_jobs v jobs [] s1")
    from assms(2) y Inr rj z i1 prepare_jobs_inv [OF z i1] transfer_jobs_inv [OF assms(1)]
    show ?thesis by (auto simp: batched_direct_get_def split: sum.splits if_splits)
  qed
qed

subsection \<open>Loads\<close>

lemma load_with_memory_inv:
  assumes "load_with_memory v k path mem s = (r, s')" "index_inv v q n s"
  shows "index_inv v q n s'"
proof -
  have drop: "index_inv v q n (s\<lparr>ix_cache := dict_del k (ix_cache s), ix_size := ix_size s - e_size e\<rparr>)"
    if "map_of (ix_cache s) k = Some e" for e
    using index_inv_drop [OF assms(2) that, of "ix_policy s"] index_inv_cong [of "s\<lparr>ix_cache := dict_del k (ix_cache s),
      ix_policy := ix_policy s, ix_size := ix_size s - e_size e\<rparr>"] by auto
  show ?thesis
    using assms drop
    by (auto simp: load_with_memory_def split: option.splits if_splits sum.splits prod.splits)
qed

lemma load_with_allocation_inv:
  "load_with_allocation v k path mem s = (r, s') \<Longrightarrow> index_inv v q n s \<Longrightarrow> index_inv v q n s'"
  by (auto simp: load_with_allocation_def load_with_memory_inv split: option.splits if_splits)

lemma get_blocking_inv:
  assumes "policy_ok (en_policy v)" "get_blocking v k mem s = (r, s')" "index_inv v q n s"
  shows "index_inv v q n s'"
proof (cases "en_allocator v \<and> map_of (ix_cache s) k \<noteq> None")
  case False
  then show ?thesis using assms(2,3) by (auto simp: get_blocking_def split: if_splits)
next
  case True
  then obtain e where e: "map_of (ix_cache s) k = Some e" by blast
  obtain x s1 where x: "policy_hit v k s = (x, s1)" by (cases "policy_hit v k s")
  from assms(2) True e x policy_hit_inv [OF assms(1) x assms(3)] load_with_allocation_inv
  show ?thesis by (auto simp: get_blocking_def split: option.splits)
qed

lemma lookup_paths_inv:
  assumes "policy_ok (en_policy v)" "lookup_paths v ks paths s = (r, s')" "index_inv v q n s"
  shows "index_inv v q n s'"
  using assms
proof (induction v ks paths s rule: lookup_paths.induct)
  case (1 v paths s)
  then show ?case by simp
next
  case (2 v k ks paths s)
  obtain x s1 where x: "policy_hit v k s = (x, s1)" by (cases "policy_hit v k s")
  from 2 x policy_hit_inv [OF "2.prems"(1) x "2.prems"(3)] show ?case by (auto split: option.splits)
qed

lemma load_each_inv:
  "load_each v items out s = (r, s') \<Longrightarrow> index_inv v q n s \<Longrightarrow> index_inv v q n s'"
proof (induction v items out s arbitrary: r s' rule: load_each.induct)
  case (1 v out s)
  then show ?case by simp
next
  case (2 v k path mem rest out s)
  show ?case
  proof (cases path)
    case None
    then show ?thesis using 2 by simp
  next
    case (Some p)
    obtain x s1 where x: "load_with_memory v k p mem s = (x, s1)" by (cases "load_with_memory v k p mem s")
    note i1 = load_with_memory_inv [OF x "2.prems"(2)]
    show ?thesis
    proof (cases x)
      case (Inl e)
      obtain y s2 where "load_each v rest out s1 = (y, s2)" by (cases "load_each v rest out s1")
      then show ?thesis using "2.IH"(2) [OF Some x [symmetric] Inl] "2.prems"(1) Some x Inl i1 by auto
    next
      case (Inr mo)
      then show ?thesis using "2.IH"(3) [OF Some x [symmetric] Inr] "2.prems"(1) Some x i1 by simp
    qed
  qed
qed

lemma batched_get_blocking_inv:
  assumes "policy_ok (en_policy v)" "batched_get_blocking v ks mems s = (r, s')" "index_inv v q n s"
  shows "index_inv v q n s'"
proof -
  obtain y s1 where y: "lookup_paths v ks [] s = (y, s1)" by (cases "lookup_paths v ks [] s")
  from assms(2,3) y lookup_paths_inv [OF assms(1) y assms(3)] load_each_inv show ?thesis
    by (auto simp: batched_get_blocking_def split: sum.splits if_splits)
qed

subsection \<open>The scan\<close>

lemma read_block_first_inv:
  assumes "read_block_first_metadata v k path s = (r, s')" "index_inv v False n s"
  shows "index_inv v False n s'"
proof (cases "s' = s")
  case True
  then show ?thesis using assms by simp
next
  case False
  then obtain m e bs where e: "s' = add_scanned k e s" "e_size e = BLOCK_FIRST_HEADER_SIZE + m_io_nbytes m"
    and v: "validate_runtime (x_torch (en_cfg v)) m (hd (x_shapes (en_cfg v))) (hd (x_dtypes (en_cfg v)))
      (x_model (en_cfg v)) (x_world (en_cfg v)) (x_worker (en_cfg v)) (x_tp (en_cfg v)) (x_pp (en_cfg v)) bs = None"
    using assms(1)
    by (auto simp: read_block_first_metadata_def Let_def split: sum.splits prod.splits if_splits option.splits)
  have "validate (x_torch (en_cfg v)) m = None"
    using v by (simp add: validate_runtime_def split: option.splits)
  then have "align_up (m_payload_nbytes m) BLOCK_FIRST_ALIGNMENT = Inr (m_io_nbytes m)" by (auto simp: validate_None_iff)
  from align_up_nonneg [OF this] have "0 \<le> e_size e" using e(2) by (simp add: BLOCK_FIRST_HEADER_SIZE_def)
  then show ?thesis using index_inv_scanned [OF assms(2)] e(1) by simp
qed

lemma read_legacy_inv:
  assumes "read_legacy_metadata v k sidecar s = (r, s')" "index_inv v False n s"
  shows "index_inv v False n s'"
proof (cases "s' = s")
  case True
  then show ?thesis using assms by simp
next
  case False
  then obtain f shape d l e where e: "s' = add_scanned k e s" "e_size e = l"
    and r: "read_sidecar (en_memory v) (en_isize v) (x_staged (en_cfg v)) f = Inr (shape, d, l)"
    using assms(1)
    by (auto simp: read_legacy_metadata_def Let_def split: sum.splits prod.splits if_splits option.splits)
  have "0 \<le> l"
    using r by (auto simp: read_sidecar_def unpack_metadata_def Let_def split: sum.splits if_splits option.splits)
  then show ?thesis using index_inv_scanned [OF assms(2)] e by simp
qed

lemma scan_entry_inv:
  assumes "scan_entry v suffix caught read name s = (r, s')" "index_inv v False n s"
    and "\<And>k x s'. read k s = (x, s') \<Longrightarrow> index_inv v False n s'"
  shows "index_inv v False n s'"
  using assms by (auto simp: scan_entry_def split: sum.splits if_splits prod.splits)

lemma scan_file_inv:
  assumes "scan_file v dir name s = (r, s')" "index_inv v False n s"
  shows "index_inv v False n s'"
  using assms scan_entry_inv [OF _ assms(2) read_block_first_inv [OF _ assms(2)]]
    scan_entry_inv [OF _ assms(2) read_legacy_inv [OF _ assms(2)]]
  by (auto simp: scan_file_def Let_def split: if_splits prod.splits)

lemma scan_files_inv: "scan_files v dir names s = (r, s') \<Longrightarrow> index_inv v False n s \<Longrightarrow> index_inv v False n s'"
  by (induction names arbitrary: s) (auto split: prod.splits option.splits intro: scan_file_inv)

lemma scan_metadata_subdir_inv:
  "scan_metadata_subdir v path dirs s = (r, s') \<Longrightarrow> index_inv v False n s \<Longrightarrow> index_inv v False n s'"
  by (induction v path dirs s rule: scan_metadata_subdir.induct)
    (auto split: prod.splits option.splits if_splits dest: scan_files_inv)

lemma scan_metadata_inv:
  "scan_metadata v tree s = (c, s') \<Longrightarrow> index_inv v False n s \<Longrightarrow> index_inv v False n s'"
  by (induction v tree s arbitrary: c s' rule: scan_metadata.induct)
    (auto split: prod.splits if_splits dest: scan_metadata_subdir_inv)

end
