(* ===== verification/Direct_Delivery.thy ===== *)
theory Direct_Delivery
  imports Xds_Transfer
begin

text \<open>
  Direct transfers from end to end: what a retrieve by a planned descriptor does to the slots of the
  engine, what a store puts into a file, the round trip through two independent plans, and when
  retrieves may run in parallel.
\<close>

section \<open>The transfer meets its specification\<close>

text \<open>
  C35: A direct retrieve that succeeds has read a file whose size and header are the indexed ones, and
  what it did to memory, the edge buffer apart, is the specification: blocks of runs hold the file's
  blocks, rows of the edge block hold the file's rows from the first uncached token on, and no other
  byte has changed. No file has changed either.
\<close>

theorem direct_retrieve_refines:
  assumes "load_direct_xds (dds_read g) c path m fresh d s = (None, s')" and "torch_api_ok (x_torch c)"
    and "d_byte_segments d = []" and "d_leading_edge d \<noteq> None \<longrightarrow> edge_apart d s'"
  shows "\<exists>f. w_files (ds_world s) path = Some f \<and> int (length f) = 4096 + m_io_nbytes m \<and>
    w_files (ds_world s') = w_files (ds_world s) \<and>
    (\<forall>x. x \<notin> (if d_leading_edge d = None then {} else edge_buffer s') \<longrightarrow>
      w_mem (ds_world s') x = retrieved d (edge_row c m) f (w_mem (ds_world s)) x)"
  by (rule dds.load_direct_memory [OF assms])

section \<open>From token slots to bytes\<close>

text \<open>
  The byte \<open>r\<close> of the row of token (or slot) \<open>u\<close> in layer-and-kv plane \<open>q\<close>, in a sequence of blocks
  that starts at \<open>base\<close>: the same formula places a token in a file and a slot in KV memory.
\<close>

definition row_byte :: "int \<Rightarrow> descriptor \<Rightarrow> int \<Rightarrow> int \<Rightarrow> int \<Rightarrow> int \<Rightarrow> int" where
  "row_byte base d row q u r =
     base + u div d_block_size d * d_block_nbytes d + (q * d_block_size d + u mod d_block_size d) * row + r"

lemma row_byte_parts:
  fixes base u :: int
  assumes "0 < d_block_size d" "0 < row" "d_block_nbytes d = nq * d_block_size d * row"
    and "0 \<le> q" "q < nq" "0 \<le> r" "r < row"
  defines "x \<equiv> row_byte base d row q u r - base" and "bs \<equiv> d_block_size d"
  shows "x div d_block_nbytes d = u div bs" and "x mod d_block_nbytes d = (q * bs + u mod bs) * row + r"
    and "x mod d_block_nbytes d mod (bs * row) div row = u mod bs"
proof -
  let ?j = "(q * bs + u mod bs) * row + r"
  have m: "0 \<le> u mod bs" "u mod bs < bs" using assms by simp_all
  have k: "0 \<le> (u mod bs) * row + r" "(u mod bs) * row + r < bs * row"
  proof -
    show "0 \<le> (u mod bs) * row + r" using m assms by simp
    have "(u mod bs + 1) * row \<le> bs * row" using m(2) assms(2) by (intro mult_right_mono) simp_all
    then show "(u mod bs) * row + r < bs * row" using assms by (simp add: algebra_simps)
  qed
  have j: "?j = q * (bs * row) + ((u mod bs) * row + r)" by (simp add: algebra_simps)
  have "(q + 1) * (bs * row) \<le> nq * (bs * row)"
    using assms by (intro mult_right_mono) auto
  then have jb: "0 \<le> ?j" "?j < d_block_nbytes d"
    using k assms unfolding j by (simp_all add: algebra_simps)
  have x: "x = u div bs * d_block_nbytes d + ?j" by (simp add: x_def row_byte_def bs_def)
  show d: "x div d_block_nbytes d = u div bs" "x mod d_block_nbytes d = ?j"
    unfolding x using div_mod_parts [OF jb, of "u div bs"] by simp_all
  have "?j mod (bs * row) = (u mod bs) * row + r" using div_mod_parts [OF k, of q] unfolding j by simp
  then show "x mod d_block_nbytes d mod (bs * row) div row = u mod bs"
    using d div_mod_parts [OF assms(6,7), of "u mod bs"] by simp
qed

lemma block_source_member:
  assumes "(l, p) \<in> set pairs" and "distinct (map snd pairs)"
  shows "block_source pairs p = Some l"
proof -
  have "distinct (map fst (rev (map prod.swap pairs)))" using assms(2) by (simp add: rev_map [symmetric] comp_def)
  moreover have "(p, l) \<in> set (rev (map prod.swap pairs))" using assms(1) by force
  ultimately show ?thesis by (simp add: block_source_def)
qed

lemma block_source_None: "p \<notin> snd ` set pairs \<Longrightarrow> block_source pairs p = None"
  by (force simp: block_source_def map_of_eq_None_iff)

lemma retrieved_token:
  assumes lay: "0 < d_block_size d" "0 < row" "d_block_nbytes d = nq * d_block_size d * row"
    "0 \<le> q" "q < nq" "0 \<le> r" "r < row"
    and dist: "distinct (map snd (block_pairs d))"
      "\<And>e. d_leading_edge d = Some e \<Longrightarrow> edge_physical_block e \<notin> snd ` set (block_pairs d)"
    and t: "token_slot d t = Some slot"
  shows "retrieved d row f mem (row_byte (d_allocation_base d) d row q slot r) =
    byte_at f (row_byte (d_file_payload_offset d) d row q t r)"
proof -
  let ?bs = "d_block_size d"
  have tm: "0 \<le> t mod ?bs" "t mod ?bs < ?bs" using lay by simp_all
  note rb = row_byte_parts [OF lay, of "d_allocation_base d" slot]
  show ?thesis
  proof (cases "map_of (block_pairs d) (t div ?bs)")
    case (Some p)
    then have slot: "slot = p * ?bs + t mod ?bs" using t by (simp add: token_slot_def Let_def)
    have sd: "slot div ?bs = p" "slot mod ?bs = t mod ?bs" using div_mod_parts [OF tm, of p] slot by simp_all
    have "block_source (block_pairs d) p = Some (t div ?bs)"
      using map_of_SomeD [OF Some] dist(1) by (rule block_source_member)
    then show ?thesis using rb sd by (simp add: retrieved_def Let_def row_byte_def [of "d_file_payload_offset d"] add.assoc)
  next
    case None
    then obtain e where e: "d_leading_edge d = Some e" "t div ?bs = edge_logical_block e"
      "edge_token_offset e \<le> t mod ?bs" "slot = edge_physical_block e * ?bs + t mod ?bs"
      using t by (auto simp: token_slot_def Let_def split: option.splits if_splits)
    have sd: "slot div ?bs = edge_physical_block e" "slot mod ?bs = t mod ?bs"
      using div_mod_parts [OF tm, of "edge_physical_block e"] e(4) by simp_all
    have "block_source (block_pairs d) (edge_physical_block e) = None"
      by (rule block_source_None [OF dist(2) [OF e(1)]])
    then show ?thesis
      using rb sd e by (simp add: retrieved_def Let_def row_byte_def [of "d_file_payload_offset d"] add.assoc)
  qed
qed

text \<open>A slot that no moved token has keeps its bytes.\<close>

lemma retrieved_other_slot:
  assumes lay: "0 < d_block_size d" "0 < row" "d_block_nbytes d = nq * d_block_size d * row"
    "0 \<le> q" "q < nq" "0 \<le> r" "r < row"
    and other: "u div d_block_size d \<notin> snd ` set (block_pairs d)"
      "\<And>e. d_leading_edge d = Some e \<Longrightarrow> u div d_block_size d = edge_physical_block e \<Longrightarrow>
        u mod d_block_size d < edge_token_offset e"
  shows "retrieved d row f mem (row_byte (d_allocation_base d) d row q u r) =
    mem (row_byte (d_allocation_base d) d row q u r)"
  using row_byte_parts [OF lay, of "d_allocation_base d" u] other block_source_None [OF other(1)]
  by (fastforce simp: retrieved_def Let_def split: option.split)


section \<open>A planned retrieve\<close>

lemma finish_plan_fields:
  assumes "finish_plan kv slots dir bs start fn skip edge full = Inr pl" "plan_descriptor pl = Some d"
  shows "d_valid_token_count d = fn - start - skip \<and> d_allocation_base d = kv_data_ptr kv \<and>
    d_file_payload_offset d = BLOCK_FIRST_HEADER_SIZE \<and> d_byte_segments d = [] \<and> d_direction d = dir \<and>
    d_block_size d = bs"
  using assms by (auto simp: finish_plan_def Let_def split: if_splits sum.splits option.splits)

lemma chunk_plan_fields:
  assumes "chunk_plan kv slots dir bs skip_before (start, fn) = Inr pl" "plan_descriptor pl = Some d"
  shows "d_valid_token_count d = fn - start - skip_of dir skip_before start (fn - start) \<and>
    d_allocation_base d = kv_data_ptr kv \<and> d_file_payload_offset d = BLOCK_FIRST_HEADER_SIZE \<and>
    d_byte_segments d = [] \<and> d_direction d = dir \<and> d_block_size d = bs"
proof -
  have "\<exists>edge full. finish_plan kv slots dir bs start fn (skip_of dir skip_before start (fn - start)) edge full = Inr pl"
    using assms unfolding chunk_plan_skip Let_def by (auto split: if_splits option.splits)
  then obtain edge full where
    "finish_plan kv slots dir bs start fn (skip_of dir skip_before start (fn - start)) edge full = Inr pl" by blast
  from finish_plan_fields [OF this assms(2)] show ?thesis .
qed

text \<open>A block of a run, or the uncached part of the edge block, consists of moved tokens.\<close>

lemma block_tokens:
  assumes val: "validate_descriptor d rc ra = None" "d_byte_segments d = []"
    and lp: "(l, p) \<in> set (block_pairs d)" and j: "0 \<le> j" "j < d_block_size d"
  shows "token_slot d (l * d_block_size d + j) = Some (p * d_block_size d + j)"
    and "d_valid_token_start d \<le> l * d_block_size d + j"
    and "l * d_block_size d + j < d_valid_token_start d + d_valid_token_count d"
proof -
  let ?bs = "d_block_size d"
  note v = validate_descriptor_runs [OF val]
  have keys: "map fst (block_pairs d) = int_range (d_logical_block_start d) (nat (d_logical_block_count d))"
    using check_runs_Inr [OF v(1)] by (simp add: block_pairs_def)
  then have "distinct (map fst (block_pairs d))" by simp
  with lp have m: "map_of (block_pairs d) l = Some p" by (simp add: map_of_is_SomeI)
  note dm = div_mod_parts [OF j, of l]
  show "token_slot d (l * ?bs + j) = Some (p * ?bs + j)" using m dm by (simp add: token_slot_def Let_def)
  have "l \<in> set (map fst (block_pairs d))" using lp by force
  then have l: "d_logical_block_start d \<le> l" "l < d_logical_block_start d + d_logical_block_count d"
    using v(7) unfolding keys set_int_range by simp_all
  have lo: "d_logical_block_start d * ?bs \<le> l * ?bs" using l v(5) by (intro mult_right_mono) auto
  have hi: "(l + 1) * ?bs \<le> (d_logical_block_start d + d_logical_block_count d) * ?bs"
    using l v(5) by (intro mult_right_mono) auto
  have hi': "l * ?bs + ?bs \<le> d_logical_block_start d * ?bs + d_logical_block_count d * ?bs"
    using hi by (simp add: algebra_simps)
  have ends: "d_valid_token_start d \<le> d_logical_block_start d * ?bs \<and>
      d_valid_token_start d + d_valid_token_count d = d_logical_block_start d * ?bs + d_logical_block_count d * ?bs"
  proof (cases "d_leading_edge d")
    case None
    then show ?thesis using v(2) by (auto simp: check_tokens_def guard_simps split: if_splits)
  next
    case (Some e)
    have c: "d_valid_token_count d = edge_token_count e + d_logical_block_count d * ?bs"
      using v(2) Some by (auto simp: check_tokens_def guard_simps split: if_splits)
    have "d_logical_block_start d * ?bs = edge_logical_block e * ?bs + ?bs"
      by (simp add: edge_block_inside(6) [OF val Some] algebra_simps)
    then show ?thesis using edge_block_inside [OF val Some] c by linarith
  qed
  show "d_valid_token_start d \<le> l * ?bs + j" using ends lo j by linarith
  show "l * ?bs + j < d_valid_token_start d + d_valid_token_count d" using ends hi' j by linarith
qed

lemma edge_tokens:
  assumes val: "validate_descriptor d rc ra = None" "d_byte_segments d = []" and e: "d_leading_edge d = Some e"
    and j: "edge_token_offset e \<le> j" "j < d_block_size d"
  shows "token_slot d (edge_logical_block e * d_block_size d + j) = Some (edge_physical_block e * d_block_size d + j)"
    and "d_valid_token_start d \<le> edge_logical_block e * d_block_size d + j"
    and "edge_logical_block e * d_block_size d + j < d_valid_token_start d + d_valid_token_count d"
proof -
  let ?bs = "d_block_size d"
  note v = validate_descriptor_runs [OF val]
  note ei = edge_block_inside [OF val e]
  have "map fst (block_pairs d) = int_range (d_logical_block_start d) (nat (d_logical_block_count d))"
    using check_runs_Inr [OF v(1)] by (simp add: block_pairs_def)
  then have "edge_logical_block e \<notin> fst ` set (block_pairs d)"
    using ei(6) by (metis atLeastLessThan_iff linorder_not_less list.set_map set_int_range zle_add1_eq_le order_refl)
  then have m: "map_of (block_pairs d) (edge_logical_block e) = None" by (simp add: map_of_eq_None_iff)
  have j0: "0 \<le> j" using ei j by linarith
  show "token_slot d (edge_logical_block e * ?bs + j) = Some (edge_physical_block e * ?bs + j)"
    using m div_mod_parts [OF j0 j(2), of "edge_logical_block e"] e j by (simp add: token_slot_def Let_def)
  have c: "d_valid_token_count d = edge_token_count e + d_logical_block_count d * ?bs"
    using v(2) e by (auto simp: check_tokens_def guard_simps split: if_splits)
  have nn: "0 \<le> d_logical_block_count d * ?bs" using v by simp
  show "d_valid_token_start d \<le> edge_logical_block e * ?bs + j" using ei j by linarith
  show "edge_logical_block e * ?bs + j < d_valid_token_start d + d_valid_token_count d"
    using ei j c nn by linarith
qed


lemma token_slot_cases:
  assumes "token_slot d t = Some slot" and "0 < d_block_size d"
  obtains p where "(t div d_block_size d, p) \<in> set (block_pairs d)" "slot div d_block_size d = p"
  | e where "d_leading_edge d = Some e" "slot div d_block_size d = edge_physical_block e"
proof -
  have tm: "0 \<le> t mod d_block_size d" "t mod d_block_size d < d_block_size d" using assms by simp_all
  show ?thesis
    using assms(1) that div_mod_parts [OF tm]
    by (fastforce simp: token_slot_def Let_def dest: map_of_SomeD split: option.splits if_splits)
qed

text \<open>Addresses of rows of a block of the allocation are addresses of the allocation.\<close>

lemma row_byte_inside:
  assumes "0 < d_block_size d" "0 < row" "d_block_nbytes d = nq * d_block_size d * row"
    "0 \<le> q" "q < nq" "0 \<le> r" "r < row"
    and "0 \<le> u div d_block_size d" "(u div d_block_size d + 1) * d_block_nbytes d \<le> d_allocation_nbytes d"
  shows "d_allocation_base d \<le> row_byte (d_allocation_base d) d row q u r"
    and "row_byte (d_allocation_base d) d row q u r < d_allocation_base d + d_allocation_nbytes d"
proof -
  let ?x = "row_byte (d_allocation_base d) d row q u r - d_allocation_base d"
  let ?bn = "d_block_nbytes d"
  have bn: "0 < ?bn" using assms by simp
  note p = row_byte_parts [OF assms(1-7), of "d_allocation_base d" u]
  have x: "?x = u div d_block_size d * ?bn + ?x mod ?bn" using div_mult_mod_eq [of ?x ?bn] p(1) by simp
  have "0 \<le> u div d_block_size d * ?bn" using assms(8) bn by simp
  moreover have "0 \<le> ?x mod ?bn" "?x mod ?bn < ?bn" using bn by simp_all
  moreover have "(u div d_block_size d + 1) * ?bn = u div d_block_size d * ?bn + ?bn" by (simp add: algebra_simps)
  ultimately show "d_allocation_base d \<le> row_byte (d_allocation_base d) d row q u r"
    "row_byte (d_allocation_base d) d row q u r < d_allocation_base d + d_allocation_nbytes d"
    using assms(9) x by linarith+
qed

lemma moved_blocks_distinct:
  assumes val: "validate_descriptor d rc ra = None" "d_byte_segments d = []"
    and slots: "\<forall>t \<in> {d_valid_token_start d..<d_valid_token_start d + d_valid_token_count d}.
      token_slot d t = Some (f t)"
    and inj: "inj_on f {d_valid_token_start d..<d_valid_token_start d + d_valid_token_count d}"
  shows "distinct (map snd (block_pairs d))"
    and "d_leading_edge d = Some e \<Longrightarrow> edge_physical_block e \<notin> snd ` set (block_pairs d)"
proof -
  let ?bs = "d_block_size d"
  let ?T = "{d_valid_token_start d..<d_valid_token_start d + d_valid_token_count d}"
  note v = validate_descriptor_runs [OF val]
  have same: "t1 = t2" if "token_slot d t1 = Some u" "token_slot d t2 = Some u" "t1 \<in> ?T" "t2 \<in> ?T" for t1 t2 u
    using that slots inj by (metis inj_onD option.inject)
  have keys: "distinct (map fst (block_pairs d))"
    using check_runs_Inr [OF v(1)] by (simp add: block_pairs_def)
  have "inj_on snd (set (block_pairs d))"
  proof (rule inj_onI)
    fix a b assume ab: "a \<in> set (block_pairs d)" "b \<in> set (block_pairs d)" "snd a = snd b"
    obtain l1 l2 p where [simp]: "a = (l1, p)" "b = (l2, p)" using ab(3) by (metis prod.collapse)
    note t1 = block_tokens [OF val ab(1) [simplified], of 0] and t2 = block_tokens [OF val ab(2) [simplified], of 0]
    have "l1 * ?bs + 0 = l2 * ?bs + 0"
      by (rule same [of _ "p * ?bs + 0"]) (use t1 t2 v(5) in auto)
    then show "a = b" using v(5) by simp
  qed
  then show "distinct (map snd (block_pairs d))" using keys by (simp add: distinct_map)
  assume e: "d_leading_edge d = Some e"
  note ei = edge_block_inside [OF val e]
  show "edge_physical_block e \<notin> snd ` set (block_pairs d)"
  proof
    assume "edge_physical_block e \<in> snd ` set (block_pairs d)"
    then obtain l where l: "(l, edge_physical_block e) \<in> set (block_pairs d)" by auto
    let ?o = "edge_token_offset e"
    note t1 = block_tokens [OF val l, of ?o] and t2 = edge_tokens [OF val e, of ?o]
    have eq: "l * ?bs + ?o = edge_logical_block e * ?bs + ?o"
      by (rule same [of _ "edge_physical_block e * ?bs + ?o"]) (use t1 t2 ei in auto)
    then have "l = edge_logical_block e" using v(5) by simp
    moreover have "l \<in> set (map fst (block_pairs d))" using l by force
    then have "d_logical_block_start d \<le> l"
      using check_runs_Inr [OF v(1)] by (simp add: block_pairs_def set_int_range)
    ultimately show False using ei(6) by simp
  qed
qed


lemma moved_block_inside:
  assumes val: "validate_descriptor d rc ra = None" "d_byte_segments d = []"
    and p: "p \<in> snd ` set (block_pairs d) \<or> (\<exists>e. d_leading_edge d = Some e \<and> p = edge_physical_block e)"
  shows "0 \<le> p \<and> (p + 1) * d_block_nbytes d \<le> d_allocation_nbytes d"
  using p
proof
  assume "p \<in> snd ` set (block_pairs d)"
  note v = validate_descriptor_runs [OF val]
  have "\<forall>(l, p) \<in> set (block_pairs d). 0 \<le> p \<and> p < d_allocation_nbytes d div d_block_nbytes d"
    using check_runs_Inr [OF v(1)] unfolding block_pairs_def by blast
  with \<open>p \<in> _\<close> have p: "0 \<le> p" "p < d_allocation_nbytes d div d_block_nbytes d" by auto
  have "(p + 1) * d_block_nbytes d \<le> d_allocation_nbytes d div d_block_nbytes d * d_block_nbytes d"
    using p v(3) by (intro mult_right_mono) auto
  also have "\<dots> \<le> d_allocation_nbytes d" using v(3) by (simp add: minus_mod_eq_div_mult [symmetric])
  finally show ?thesis using p by simp
next
  assume "\<exists>e. d_leading_edge d = Some e \<and> p = edge_physical_block e"
  then show ?thesis using edge_block_inside [OF val] by blast
qed

lemma planned_retrieve_memory:
  assumes "build_block_first_direct_plans kv slots starts ends RETRIEVE bs skip_before = Inr plans"
    and "i < length plans" and "plan_descriptor (plans ! i) = Some d"
    and "load_direct_xds (dds_read g) c path m fresh d s = (None, s')" and "torch_api_ok (x_torch c)"
    and "d_leading_edge d \<noteq> None \<longrightarrow> edge_apart d s'"
    and "inj_on (\<lambda>t. slots ! nat (starts ! i + t)) {0..<ends ! i - starts ! i}"
    and "q \<in> {0..<2 * m_num_layers m}" and "r \<in> {0..<edge_row c m}"
  defines "uncached \<equiv> {min (ends ! i - starts ! i) (max 0 (skip_before - starts ! i))..<ends ! i - starts ! i}"
  shows "\<exists>f. w_files (ds_world s) path = Some f \<and>
    (\<forall>t \<in> uncached.
       w_mem (ds_world s') (row_byte (kv_data_ptr kv) d (edge_row c m) q (slots ! nat (starts ! i + t)) r) =
         byte_at f (row_byte 4096 d (edge_row c m) q t r)) \<and>
    (\<forall>u. 0 \<le> u div bs \<and> (u div bs + 1) * d_block_nbytes d \<le> d_allocation_nbytes d \<and>
         u \<notin> (\<lambda>t. slots ! nat (starts ! i + t)) ` uncached \<longrightarrow>
       w_mem (ds_world s') (row_byte (kv_data_ptr kv) d (edge_row c m) q u r) =
         w_mem (ds_world s) (row_byte (kv_data_ptr kv) d (edge_row c m) q u r))"
proof -
  let ?row = "edge_row c m"
  let ?chunk = "ends ! i - starts ! i"
  let ?slot = "\<lambda>t. slots ! nat (starts ! i + t)"
  define skip where "skip = skip_of RETRIEVE skip_before (starts ! i) ?chunk"
  have ne: "plan_descriptor (plans ! i) \<noteq> None" using assms(3) by simp
  note b = build_block_first_Inr [OF assms(1,2) ne]
  note cs = chunk_plan_sound [OF b(4) assms(3) b(3,5,6,7), folded skip_def]
  note cf = chunk_plan_fields [OF b(4) assms(3), folded skip_def]
  have unc: "uncached = {skip..<?chunk}" by (simp add: uncached_def skip_def skip_of_def)
  have sk: "0 \<le> skip" by (simp add: skip_def skip_of_def b(6) less_imp_le)
  have val: "validate_descriptor d False False = None" and seg: "d_byte_segments d = []"
    and bs: "d_block_size d = bs" and base: "d_allocation_base d = kv_data_ptr kv"
    and po: "d_file_payload_offset d = 4096"
    and rng: "d_valid_token_start d = skip" "d_valid_token_start d + d_valid_token_count d = ?chunk"
    using cs cf by (simp_all add: BLOCK_FIRST_HEADER_SIZE_def)
  have prep: "prepare_direct_xds c path m d (ds_world s) = None"
    using assms(4) by (auto simp: load_direct_xds_def split: option.splits)
  note pb = prepared_block [OF prep assms(5)]
  have lay: "0 < d_block_size d" "0 < ?row" "d_block_nbytes d = 2 * m_num_layers m * d_block_size d * ?row"
      "0 \<le> q" "q < 2 * m_num_layers m" "0 \<le> r" "r < ?row"
    using pb assms(8,9) b(3) bs by simp_all
  obtain f where f: "w_files (ds_world s) path = Some f"
    and mem: "\<And>x. x \<notin> (if d_leading_edge d = None then {} else edge_buffer s') \<Longrightarrow>
      w_mem (ds_world s') x = retrieved d ?row f (w_mem (ds_world s)) x"
    using dds.load_direct_memory [OF assms(4,5) seg assms(6)] by blast
  have outside: "x \<notin> (if d_leading_edge d = None then {} else edge_buffer s')"
    if "d_allocation_base d \<le> x" "x < d_allocation_base d + d_allocation_nbytes d" for x
    using assms(6) that by (auto simp: edge_apart_def edge_buffer_def split: option.splits)
  have slots: "\<forall>t \<in> {d_valid_token_start d..<d_valid_token_start d + d_valid_token_count d}.
      token_slot d t = Some (?slot t)" using cs rng by simp
  have inj: "inj_on ?slot {d_valid_token_start d..<d_valid_token_start d + d_valid_token_count d}"
    using assms(7) by (rule inj_on_subset) (use rng sk in auto)
  note dist = moved_blocks_distinct [OF val seg slots inj]
  note inside = moved_block_inside [OF val seg]
  have moved: "w_mem (ds_world s') (row_byte (kv_data_ptr kv) d ?row q (?slot t) r) = byte_at f (row_byte 4096 d ?row q t r)"
    if t: "t \<in> uncached" for t
  proof -
    have ts: "token_slot d t = Some (?slot t)" using t cs unfolding unc by blast
    have "?slot t div d_block_size d \<in> snd ` set (block_pairs d) \<or>
        (\<exists>e. d_leading_edge d = Some e \<and> ?slot t div d_block_size d = edge_physical_block e)"
      using ts lay(1) by (rule token_slot_cases) force+
    then have i': "0 \<le> ?slot t div d_block_size d"
        "(?slot t div d_block_size d + 1) * d_block_nbytes d \<le> d_allocation_nbytes d" using inside by blast+
    note x = row_byte_inside [OF lay i']
    show ?thesis
      using mem [OF outside [OF x]] retrieved_token [OF lay dist ts] by (simp add: base po)
  qed
  have kept: "w_mem (ds_world s') (row_byte (kv_data_ptr kv) d ?row q u r) =
      w_mem (ds_world s) (row_byte (kv_data_ptr kv) d ?row q u r)"
    if u: "0 \<le> u div bs" "(u div bs + 1) * d_block_nbytes d \<le> d_allocation_nbytes d" "u \<notin> ?slot ` uncached" for u
  proof -
    have um: "0 \<le> u mod bs" "u mod bs < d_block_size d" using b(3) bs by simp_all
    have uu: "u div bs * bs + u mod bs = u" by (rule div_mult_mod_eq)
    have o1: "u div d_block_size d \<notin> snd ` set (block_pairs d)"
    proof
      assume "u div d_block_size d \<in> snd ` set (block_pairs d)"
      then obtain l where "(l, u div bs) \<in> set (block_pairs d)" using bs by auto
      from block_tokens [OF val seg this um]
      have "token_slot d (l * bs + u mod bs) = Some u" "l * bs + u mod bs \<in> uncached"
        unfolding unc using rng bs uu by auto
      then show False using u(3) cs unfolding unc by force
    qed
    have o2: "u mod d_block_size d < edge_token_offset e"
      if e: "d_leading_edge d = Some e" "u div d_block_size d = edge_physical_block e" for e
    proof (rule ccontr)
      assume "\<not> u mod d_block_size d < edge_token_offset e"
      then have "edge_token_offset e \<le> u mod bs" using bs by simp
      from edge_tokens [OF val seg e(1) this um(2)]
      moreover have "edge_physical_block e * d_block_size d + u mod bs = u"
        unfolding e(2) [symmetric] bs using uu by blast
      ultimately have "token_slot d (edge_logical_block e * bs + u mod bs) = Some u"
        "edge_logical_block e * bs + u mod bs \<in> uncached"
        unfolding unc using rng bs by auto
      then show False using u(3) cs unfolding unc by force
    qed
    have u': "0 \<le> u div d_block_size d" "(u div d_block_size d + 1) * d_block_nbytes d \<le> d_allocation_nbytes d"
      using u bs by simp_all
    note x = row_byte_inside [OF lay u']
    show ?thesis
      using mem [OF outside [OF x]] retrieved_other_slot [OF lay o1 o2] by (simp add: base)
  qed
  show ?thesis using f moved kept by blast
qed


text \<open>
  C2: Planner and transfer together deliver the right bytes: after a direct retrieve by a planned
  descriptor, with slots that are pairwise different, the row of every uncached token, in every layer
  and for keys and values alike, lies in the slot the engine mapped the token to and holds the file's
  row of that token; and every other slot of the allocation, those of cached tokens among them, holds
  what it held before.
\<close>

theorem planned_retrieve_delivers:
  assumes "build_block_first_direct_plans kv slots starts ends RETRIEVE bs skip_before = Inr plans"
    and "i < length plans" and "plan_descriptor (plans ! i) = Some d"
    and "load_direct_xds (dds_read g) c path m fresh d s = (None, s')" and "torch_api_ok (x_torch c)"
    and "d_leading_edge d \<noteq> None \<longrightarrow> edge_apart d s'"
    and "inj_on (\<lambda>t. slots ! nat (starts ! i + t)) {0..<ends ! i - starts ! i}"
    and "q \<in> {0..<2 * m_num_layers m}" and "r \<in> {0..<edge_row c m}"
  defines "uncached \<equiv> {min (ends ! i - starts ! i) (max 0 (skip_before - starts ! i))..<ends ! i - starts ! i}"
  shows "\<exists>f. w_files (ds_world s) path = Some f \<and>
    (\<forall>t \<in> uncached.
       w_mem (ds_world s') (row_byte (kv_data_ptr kv) d (edge_row c m) q (slots ! nat (starts ! i + t)) r) =
         byte_at f (row_byte 4096 d (edge_row c m) q t r)) \<and>
    (\<forall>u. 0 \<le> u div bs \<and> (u div bs + 1) * d_block_nbytes d \<le> d_allocation_nbytes d \<and>
         u \<notin> (\<lambda>t. slots ! nat (starts ! i + t)) ` uncached \<longrightarrow>
       w_mem (ds_world s') (row_byte (kv_data_ptr kv) d (edge_row c m) q u r) =
         w_mem (ds_world s) (row_byte (kv_data_ptr kv) d (edge_row c m) q u r))"
  unfolding uncached_def by (rule planned_retrieve_memory [OF assms(1-9)])

section \<open>Retrieves whose calls succeed\<close>

lemma read_runs_quiet:
  assumes "quiet_world w" "w_files w path = Some f" "0 \<le> d_block_nbytes d"
    and "\<forall>r \<in> set rs. 0 \<le> run_count r \<and> 0 \<le> d_file_payload_offset d + run_logical r * d_block_nbytes d \<and>
      d_file_payload_offset d + (run_logical r + run_count r) * d_block_nbytes d \<le> int (length f)"
  shows "\<exists>w'. read_runs (dds_read g) path d rs w = (None, w')"
  using assms
proof (induction rs arbitrary: w)
  case Nil
  then show ?case by simp
next
  case (Cons r rs)
  let ?n = "run_count r * d_block_nbytes d" and ?fo = "d_file_payload_offset d + run_logical r * d_block_nbytes d"
  have r: "0 \<le> run_count r" "0 \<le> ?fo" "?fo + ?n \<le> int (length f)"
    using Cons.prems(4) by (auto simp: algebra_simps)
  have n: "0 \<le> ?n" using r Cons.prems by simp
  let ?w = "w\<lparr>w_mem := put_mem (d_allocation_base d + run_physical r * d_block_nbytes d) ?n f ?fo (w_mem w)\<rparr>"
  have rd: "dds_read g path (d_allocation_base d) ?n ?fo (run_physical r * d_block_nbytes d) w = (?n, ?w)"
    by (rule quiet_steps(5) [OF Cons.prems(1,2) n r(2,3)])
  have "\<exists>w'. read_runs (dds_read g) path d rs ?w = (None, w')"
    by (rule Cons.IH) (use Cons.prems in \<open>simp_all add: quiet_simps\<close>)
  then show ?case by (simp add: rd Let_def)
qed

lemma copy_rows_quiet:
  "w_copy w = [] \<Longrightarrow> \<exists>w'. copy_rows dst src n offs w = (None, w') \<and> w_files w' = w_files w \<and>
    (quiet_world w \<longrightarrow> quiet_world w')"
proof (induction offs arbitrary: w)
  case (Cons o1 offs)
  have "\<exists>w'. copy_rows dst src n offs (w\<lparr>w_mem := copy_mem (dst + o1) (src + o1) n (w_mem w)\<rparr>) = (None, w') \<and>
      w_files w' = w_files (w\<lparr>w_mem := copy_mem (dst + o1) (src + o1) n (w_mem w)\<rparr>) \<and>
      (quiet_world (w\<lparr>w_mem := copy_mem (dst + o1) (src + o1) n (w_mem w)\<rparr>) \<longrightarrow> quiet_world w')"
    by (rule Cons.IH) (simp add: Cons.prems)
  then show ?case using Cons.prems by (auto simp: device_to_device_copy_def next_copy_def quiet_simps)
qed simp

section \<open>Instances\<close>

definition direct_cfg :: "demo_dtype xds_cfg" where
  "direct_cfg = demo_cfg\<lparr>x_chunk_size := 4, x_block_size := Some 2, x_shapes := [[2, 1, 4, 512]],
     x_device := demo_device, x_max_size := Some 20000\<rparr>"

definition direct_kv :: "string kv_tensor" where
  "direct_kv = demo_kv\<lparr>kv_shape := [8, 1, 2, 2, 1, 512]\<rparr>"

definition direct_state_of :: "bytes \<Rightarrow> direct_state" where
  "direct_state_of f =
     \<lparr>ds_regs = [], ds_hip = \<lparr>hip_lib = True, hip_open = True, hip_bufs = [], drv_open = True, drv_bufs = [],
        drv_answers = []\<rparr>,
      ds_world = demo_world\<lparr>w_files := (\<lambda>_. None)(''f'' \<mapsto> f)\<rparr>, ds_edge = None\<rparr>"

definition direct_demo_descriptor :: "direction \<Rightarrow> int \<Rightarrow> descriptor" where
  "direct_demo_descriptor dir skip =
     \<lparr>d_direction = dir, d_device = demo_device, d_allocation_base = 8192, d_allocation_nbytes = 32768,
      d_engine_group_id = 0, d_block_nbytes = 4096, d_block_size = 2,
      d_logical_block_start = (if skip = 0 then 0 else 1), d_logical_block_count = (if skip = 0 then 2 else 1),
      d_valid_token_start = skip, d_valid_token_count = 4 - skip,
      d_runs = (if skip = 0 then [\<lparr>run_logical = 0, run_physical = 3, run_count = 1\<rparr>] else []) @
        [\<lparr>run_logical = 1, run_physical = 5, run_count = 1\<rparr>],
      d_leading_edge = (if skip = 0 then None else Some \<lparr>edge_logical_block = 0, edge_physical_block = 3,
        edge_token_offset = 1, edge_token_count = 1\<rparr>),
      d_file_payload_offset = 4096, d_synchronous = True, d_lifetime = Some [1], d_allocations = [],
      d_byte_segments = [], d_physical_block_ids = (if skip = 0 then [3] else []) @ [5]\<rparr>"

lemma direct_demo_planned:
  "build_block_first_direct_plans direct_kv demo_slots [0] [4] RETRIEVE 2 1 = Inr [direct (direct_demo_descriptor RETRIEVE 1)]"
  by code_simp

lemma direct_demo_stored:
  "build_block_first_direct_plans direct_kv demo_slots [0] [4] STORE 2 0 = Inr [direct (direct_demo_descriptor STORE 0)]"
  by code_simp

lemma direct_demo_made:
  "\<exists>m header. make_direct_block_first_metadata direct_cfg = Inr m \<and>
    pack_block_first_header (x_torch direct_cfg) m = Inr header \<and> m_payload_nbytes m = 8192 \<and>
    m_io_nbytes m = 8192 \<and> m_valid_tokens m = 4 \<and> m_block_size m = 2 \<and> m_num_layers m = 1 \<and> m_hidden_dim m = 512 \<and>
    torch_dtype (x_torch direct_cfg) m = Inr Float16 \<and>
    validate_runtime (x_torch direct_cfg) m [2, 1, 4, 512] Float16 ''m'' 2 1 2 1 2 = None"
proof -
  obtain m where m: "create demo_torch [2, 1, 4, 512] Float16 2 ''m'' 2 1 2 1 = Inr m"
      "validate demo_torch m = None"
      "validate_runtime demo_torch m [2, 1, 4, 512] Float16 ''m'' 2 1 2 1 2 = None"
    using create_ok [OF demo_torch_ok, of "[2, 1, 4, 512]" 2 "[2, 1, 2, 2, 512]" 2 2 1 1 Float16 "''m''"]
    by auto
  obtain sg where sg: "make_layout_signature demo_torch ''m'' 2 1 2 1 1 2 512 Float16 = Inr sg"
    using make_layout_signature_total [OF demo_torch_ok] by blast
  have n: "dtype_name demo_torch Float16 = Inr ''float16''" by (simp add: dtype_name_def demo_torch_def)
  then have len: "length sg = 64" using sg by (auto simp: make_layout_signature_def)
  have al: "align_up 8192 BLOCK_FIRST_ALIGNMENT = Inr 8192" by (simp add: align_up_def BLOCK_FIRST_ALIGNMENT_def)
  have mm: "m = \<lparr>m_layout = BLOCK_FIRST_LAYOUT, m_version = 1,
      m_logical_shape = [2, 1, 4, 512], m_payload_shape = [2, 1, 2, 2, 512], m_dtype = ''float16'',
      m_valid_tokens = 4, m_num_layers = 1, m_block_size = 2, m_hidden_dim = 512, m_payload_nbytes = 8192,
      m_io_nbytes = 8192, m_model_name = ''m'', m_world_size = 2, m_worker_id = 1,
      m_tensor_parallel_size = 2, m_pipeline_parallel_size = 1, m_layout_signature = sg\<rparr>"
    using m(1) n sg al by (auto simp: create_def Let_def demo_torch_def BLOCK_FIRST_VERSION_def split: option.splits)
  have "length (json_str sg) \<le> 386" using length_json_str [of sg] len by simp
  then have "length (header_payload m) \<le> 4080"
    by (simp add: header_payload_def metadata_fields_def mm ints_json_def BLOCK_FIRST_LAYOUT_def
        int_str_def nat_str.simps json_str_def json_escape_char_def)
  then obtain header where "pack_block_first_header demo_torch m = Inr header"
    using unpack_packed [OF m(2)] by blast
  then show ?thesis
    using m mm validate_runtime_None [OF m(3)]
    by (auto simp: make_direct_block_first_metadata_def direct_cfg_def demo_cfg_def)
qed



lemma direct_demo_registered:
  "\<exists>regs h. ensure_registered (direct_demo_descriptor dir k) (direct_state_of f) =
     (None, (direct_state_of f)\<lparr>ds_regs := regs, ds_hip := h\<rparr>) \<and> hip_lib h \<and> hip_open h \<and>
     hip_bufs h = [(8192, (32768, 1))] \<and> drv_answers h = []"
  by (simp add: ensure_registered_def ensure_direct_registration_def direct_demo_descriptor_def
      registration_allocations_def register_global_buffer_def direct_state_of_def ensure_lib_def
      lib_register_buffer_def driver_answer_def dict_put_def)

lemma direct_demo_valid:
  "validate_direct_descriptor direct_cfg (direct_demo_descriptor RETRIEVE 1) RETRIEVE = None"
  "validate_direct_descriptor direct_cfg (direct_demo_descriptor STORE 0) STORE = None"
  by (simp_all add: validate_direct_descriptor_def validate_descriptor_def direct_demo_descriptor_def direct_cfg_def demo_cfg_def
      check_tokens_def demo_device_def BLOCK_FIRST_HEADER_SIZE_def BLOCK_FIRST_ALIGNMENT_def devices_match_def
      chunk_blocks_def demo_torch_def)

lemma direct_demo_retrieved:
  assumes "make_direct_block_first_metadata direct_cfg = Inr m" "pack_block_first_header (x_torch direct_cfg) m = Inr header"
    and "m_io_nbytes m = 8192" "m_num_layers m = 1" "m_hidden_dim m = 512"
    "torch_dtype (x_torch direct_cfg) m = Inr Float16"
    "validate_runtime (x_torch direct_cfg) m [2, 1, 4, 512] Float16 ''m'' 2 1 2 1 2 = None"
    and "length body = 8192"
  shows "\<exists>s'. load_direct_xds (dds_read g) direct_cfg ''f'' m 1000000 (direct_demo_descriptor RETRIEVE 1)
      (direct_state_of (header @ body)) = (None, s') \<and> edge_apart (direct_demo_descriptor RETRIEVE 1) s'"
proof -
  let ?d = "direct_demo_descriptor RETRIEVE 1" and ?f = "header @ body"
  let ?s = "direct_state_of ?f"
  have hl: "length header = 4096" and up: "unpack_block_first_header (x_torch direct_cfg) header = Inr m"
    using packed_header [OF assms(2), of "[]"] by auto
  have d: "d_block_nbytes ?d = 4096" "d_file_payload_offset ?d = 4096" "d_byte_segments ?d = []"
    "d_runs ?d = [\<lparr>run_logical = 1, run_physical = 5, run_count = 1\<rparr>]" "d_block_size ?d = 2"
    "d_leading_edge ?d = Some \<lparr>edge_logical_block = 0, edge_physical_block = 3, edge_token_offset = 1, edge_token_count = 1\<rparr>"
    by (simp_all add: direct_demo_descriptor_def)
  have prep: "prepare_direct_xds direct_cfg ''f'' m ?d (ds_world ?s) = None"
    using direct_demo_valid(1) up hl assms
    by (simp add: prepare_direct_xds_def read_direct_header_and_size_def direct_state_of_def BLOCK_FIRST_HEADER_SIZE_def d)
      (simp add: direct_cfg_def demo_cfg_def)
  obtain regs h where reg: "ensure_registered ?d ?s = (None, ?s\<lparr>ds_regs := regs, ds_hip := h\<rparr>)"
    and h: "hip_lib h" "hip_open h" "hip_bufs h = [(8192, (32768, 1))]" "drv_answers h = []"
    using direct_demo_registered by blast
  let ?s1 = "?s\<lparr>ds_regs := regs, ds_hip := h\<rparr>"
  obtain h2 where st: "get_direct_edge_staging 1000000 4096 ?s1 = (Inr 1003520, ?s1\<lparr>ds_hip := h2, ds_edge := Some (1003520, 4096)\<rparr>)"
    using h by (simp add: get_direct_edge_staging_def direct_state_of_def register_global_buffer_def ensure_lib_def
        lib_register_buffer_def driver_answer_def dict_put_def)
  let ?w = "ds_world ?s"
  have q: "quiet_world ?w" "w_copy ?w = []" "w_files ?w ''f'' = Some ?f"
    by (simp_all add: direct_state_of_def quiet_world_def demo_world_def)
  have len: "int (length ?f) = 12288" using hl assms by simp
  note rd = quiet_steps(5) [OF q(1,3), of 4096 4096 g 1003520 0]
  let ?w1 = "?w\<lparr>w_mem := put_mem 1003520 4096 ?f 4096 (w_mem ?w)\<rparr>"
  have q1: "quiet_world ?w1" "w_copy ?w1 = []" "w_files ?w1 ''f'' = Some ?f" using q by (simp_all add: quiet_simps)
  have "\<exists>w2. copy_direct_leading_edge direct_cfg ?d \<lparr>edge_logical_block = 0, edge_physical_block = 3, edge_token_offset = 1, edge_token_count = 1\<rparr>
      1003520 ?w1 = (None, w2) \<and> w_files w2 = w_files ?w1 \<and> quiet_world w2"
    using assms copy_rows_quiet [OF q1(2)] q1(1) by (simp add: copy_direct_leading_edge_def Let_def)
  then obtain w2 where w2: "copy_direct_leading_edge direct_cfg ?d \<lparr>edge_logical_block = 0, edge_physical_block = 3, edge_token_offset = 1, edge_token_count = 1\<rparr>
      1003520 ?w1 = (None, w2)" "w_files w2 ''f'' = Some ?f" "quiet_world w2" using q1 by auto
  obtain w3 where w3: "read_runs (dds_read g) ''f'' ?d (d_runs ?d) w2 = (None, w3)"
    using read_runs_quiet [OF w2(3,2), of ?d "d_runs ?d" g] len d by auto
  show ?thesis
    using prep reg st rd len w2 w3
    by (simp add: load_direct_xds_def transfer_direct_xds_def transfer_edge_def d edge_apart_def)
      (simp add: direct_demo_descriptor_def)
qed


lemma direct_demo_run:
  "\<exists>m header s'. make_direct_block_first_metadata direct_cfg = Inr m \<and> length header = 4096 \<and>
    load_direct_xds (dds_read g) direct_cfg ''f'' m 1000000 (direct_demo_descriptor RETRIEVE 1)
      (direct_state_of (header @ replicate 8192 5)) = (None, s') \<and> edge_apart (direct_demo_descriptor RETRIEVE 1) s' \<and>
    m_num_layers m = 1 \<and> edge_row direct_cfg m = 1024 \<and> m_io_nbytes m = 8192"
proof -
  obtain m header where m: "make_direct_block_first_metadata direct_cfg = Inr m"
    and h: "pack_block_first_header (x_torch direct_cfg) m = Inr header" and f: "m_io_nbytes m = 8192" "m_num_layers m = 1"
      "m_hidden_dim m = 512" "torch_dtype (x_torch direct_cfg) m = Inr Float16"
      "validate_runtime (x_torch direct_cfg) m [2, 1, 4, 512] Float16 ''m'' 2 1 2 1 2 = None"
    using direct_demo_made by blast
  have "edge_row direct_cfg m = 1024" using f by (simp add: edge_row_def direct_cfg_def demo_cfg_def demo_torch_def)
  then show ?thesis
    using m f direct_demo_retrieved [OF m h f, of "replicate 8192 5" g] packed_header [OF h] by auto
qed

theorem direct_retrieve_refines_witness:
  "\<exists>m header s'. load_direct_xds (dds_read demo_dds) direct_cfg ''f'' m 1000000 (direct_demo_descriptor RETRIEVE 1)
      (direct_state_of (header @ replicate 8192 5)) = (None, s') \<and>
    w_files (ds_world s') = w_files (ds_world (direct_state_of (header @ replicate 8192 5)))"
proof -
  obtain m header s' where r: "load_direct_xds (dds_read demo_dds) direct_cfg ''f'' m 1000000 (direct_demo_descriptor RETRIEVE 1)
      (direct_state_of (header @ replicate 8192 5)) = (None, s')" "edge_apart (direct_demo_descriptor RETRIEVE 1) s'"
    using direct_demo_run by blast
  have "torch_api_ok (x_torch direct_cfg)" by (simp add: direct_cfg_def demo_cfg_def demo_torch_ok)
  moreover have "d_byte_segments (direct_demo_descriptor RETRIEVE 1) = []" by (simp add: direct_demo_descriptor_def)
  ultimately show ?thesis using direct_retrieve_refines [OF r(1)] r by blast
qed

theorem planned_retrieve_delivers_witness:
  "\<exists>m header s'. load_direct_xds (dds_read demo_dds) direct_cfg ''f'' m 1000000 (direct_demo_descriptor RETRIEVE 1)
      (direct_state_of (header @ replicate 8192 5)) = (None, s') \<and>
    map (\<lambda>u. w_mem (ds_world s') (row_byte 8192 (direct_demo_descriptor RETRIEVE 1) 1024 1 u 3)) [6, 7, 10, 11, 0] =
      [7, 5, 5, 5, 7]"
proof -
  let ?d = "direct_demo_descriptor RETRIEVE 1"
  obtain m header s' where r: "load_direct_xds (dds_read demo_dds) direct_cfg ''f'' m 1000000 ?d
      (direct_state_of (header @ replicate 8192 5)) = (None, s')" "edge_apart ?d s'"
    and f: "m_num_layers m = 1" "edge_row direct_cfg m = 1024" "length header = 4096"
    using direct_demo_run by blast
  have ok: "torch_api_ok (x_torch direct_cfg)" by (simp add: direct_cfg_def demo_cfg_def demo_torch_ok)
  have inj: "inj_on (\<lambda>t. demo_slots ! nat ([0] ! 0 + t)) {0..<[4] ! 0 - [0] ! 0}"
  proof -
    have "{0..<4 :: int} = {0, 1, 2, 3}" by auto
    then show ?thesis by (simp add: demo_slots_def)
  qed
  let ?F = "header @ replicate 8192 5"
  have fw: "w_files (ds_world (direct_state_of ?F)) ''f'' = Some ?F" by (simp add: direct_state_of_def)
  have u: "{min ([4] ! 0 - [0] ! 0) (max 0 (1 - [0] ! 0))..<[4] ! 0 - [0] ! 0} = {1, 2, 3 :: int}" by auto
  have "1 \<in> {0..<2 * m_num_layers m}" "3 \<in> {0..<edge_row direct_cfg m}" using f by simp_all
  from planned_retrieve_delivers [OF direct_demo_planned _ _ r(1) ok impI [OF r(2)] inj this, unfolded u fw f(2)]
  have mem: "\<forall>t \<in> {1, 2, 3}. w_mem (ds_world s') (row_byte (kv_data_ptr direct_kv) ?d 1024 1 (demo_slots ! nat ([0] ! 0 + t)) 3) =
      byte_at ?F (row_byte 4096 ?d 1024 1 t 3)"
    and old: "\<forall>u. 0 \<le> u div 2 \<and> (u div 2 + 1) * d_block_nbytes ?d \<le> d_allocation_nbytes ?d \<and>
         u \<notin> (\<lambda>t. demo_slots ! nat ([0] ! 0 + t)) ` {1, 2, 3} \<longrightarrow>
       w_mem (ds_world s') (row_byte (kv_data_ptr direct_kv) ?d 1024 1 u 3) =
         w_mem (ds_world (direct_state_of ?F)) (row_byte (kv_data_ptr direct_kv) ?d 1024 1 u 3)" by auto
  have b: "byte_at ?F (row_byte 4096 ?d 1024 1 t 3) = 5" if "t \<in> {1, 2, 3}" for t
    using that f(3) by (auto simp: byte_at_def row_byte_def direct_demo_descriptor_def nth_append)
  have k: "kv_data_ptr direct_kv = 8192" "d_block_nbytes ?d = 4096" "d_allocation_nbytes ?d = 32768"
    by (simp_all add: direct_kv_def demo_kv_def direct_demo_descriptor_def)
  have w7: "w_mem (ds_world (direct_state_of ?F)) x = 7" for x by (simp add: direct_state_of_def demo_world_def)
  have "w_mem (ds_world s') (row_byte 8192 ?d 1024 1 u 3) = 5" if "u \<in> {7, 10, 11}" for u
    using mem b that by (auto simp: k demo_slots_def)
  moreover have "w_mem (ds_world s') (row_byte 8192 ?d 1024 1 u 3) = 7" if "u \<in> {0, 6}" for u
    using old [rule_format, of u] that w7 by (auto simp: k demo_slots_def)
  ultimately show ?thesis using r by (intro exI [of _ m] exI [of _ header] exI [of _ s']) simp
qed

section \<open>Stores\<close>


text \<open>The blocks of a descriptor in file order, read from memory: what a store puts behind the header.\<close>

definition direct_payload :: "descriptor \<Rightarrow> (int \<times> int) list \<Rightarrow> (int \<Rightarrow> byte) \<Rightarrow> bytes" where
  "direct_payload d pairs mem =
     concat (map (\<lambda>(l, p). mem_bytes mem (d_allocation_base d + p * d_block_nbytes d) (d_block_nbytes d)) pairs)"

lemma mem_bytes_append:
  "0 \<le> n \<Longrightarrow> 0 \<le> k \<Longrightarrow> mem_bytes mem a n @ mem_bytes mem (a + n) k = mem_bytes mem a (n + k)"
  using int_range_nat_append [of n k a] by (simp add: mem_bytes_def map_append [symmetric] del: map_append)

lemma mem_bytes_blocks:
  assumes "0 \<le> bn"
  shows "mem_bytes mem (b + p * bn) (int n * bn) = concat (map (\<lambda>p. mem_bytes mem (b + p * bn) bn) (int_range p n))"
proof (induction n arbitrary: p)
  case 0
  then show ?case by (simp add: mem_bytes_def)
next
  case (Suc n)
  have "mem_bytes mem (b + p * bn) (int (Suc n) * bn) = mem_bytes mem (b + p * bn) (bn + int n * bn)"
    by (simp add: algebra_simps)
  also have "\<dots> = mem_bytes mem (b + p * bn) bn @ mem_bytes mem (b + (p + 1) * bn) (int n * bn)"
    using mem_bytes_append [of bn "int n * bn" mem "b + p * bn"] assms by (simp add: algebra_simps)
  also have "\<dots> = concat (map (\<lambda>p. mem_bytes mem (b + p * bn) bn) (int_range p (Suc n)))"
    by (simp add: Suc.IH int_range_Suc)
  finally show ?case .
qed

lemma direct_payload_run:
  assumes "0 \<le> d_block_nbytes d" "0 \<le> run_count r"
  shows "direct_payload d (run_pairs r) mem =
    mem_bytes mem (d_allocation_base d + run_physical r * d_block_nbytes d) (run_count r * d_block_nbytes d)"
proof -
  have "map (\<lambda>(l, p). mem_bytes mem (d_allocation_base d + p * d_block_nbytes d) (d_block_nbytes d)) (run_pairs r) =
      map (\<lambda>p. mem_bytes mem (d_allocation_base d + p * d_block_nbytes d) (d_block_nbytes d)) (map snd (run_pairs r))"
    by (simp add: case_prod_beta')
  then show ?thesis
    using mem_bytes_blocks [OF assms(1), of mem "d_allocation_base d" "run_physical r" "nat (run_count r)"] assms(2)
    by (simp add: direct_payload_def run_pairs_def)
qed

lemma length_direct_payload:
  "0 \<le> d_block_nbytes d \<Longrightarrow> int (length (direct_payload d pairs mem)) = int (length pairs) * d_block_nbytes d"
  by (induction pairs) (auto simp: direct_payload_def algebra_simps)

lemma byte_of_payload:
  assumes "pairs ! i = (l, p)" "i < length pairs" "0 \<le> j" "j < d_block_nbytes d"
  shows "byte_at (direct_payload d pairs mem) (int i * d_block_nbytes d + j) =
    mem (d_allocation_base d + p * d_block_nbytes d + j)"
proof -
  let ?rows = "map (\<lambda>(l, p). mem_bytes mem (d_allocation_base d + p * d_block_nbytes d) (d_block_nbytes d)) pairs"
  have rl: "\<forall>r \<in> set ?rows. length r = nat (d_block_nbytes d)" by auto
  have ix: "nat (int i * d_block_nbytes d + j) = i * nat (d_block_nbytes d) + nat j"
    using assms by (simp add: nat_add_distrib nat_mult_distrib)
  have "(int i + 1) * d_block_nbytes d \<le> int (length pairs) * d_block_nbytes d"
    using assms by (intro mult_right_mono) auto
  then have "int i * d_block_nbytes d + j < int (length pairs) * d_block_nbytes d"
    using assms(4) by (simp add: algebra_simps)
  then have "byte_at (direct_payload d pairs mem) (int i * d_block_nbytes d + j) =
      concat ?rows ! (i * nat (d_block_nbytes d) + nat j)"
    using assms length_direct_payload [of d pairs mem] by (simp add: byte_at_def ix direct_payload_def)
  also have "\<dots> = ?rows ! i ! nat j"
    by (rule concat_uniform_nth [OF rl]) (use assms in auto)
  also have "\<dots> = mem (d_allocation_base d + p * d_block_nbytes d + j)"
    using assms by (simp add: mem_bytes_def)
  finally show ?thesis .
qed

lemma validated_offset: "validate_descriptor d rc ra = None \<Longrightarrow> d_file_payload_offset d = 4096"
  by (auto simp: validate_descriptor_def guard_simps BLOCK_FIRST_HEADER_SIZE_def split: option.splits if_splits)

lemma store_has_no_segments:
  assumes "validate_descriptor d rc ra = None" "d_direction d = STORE"
  shows "d_byte_segments d = []"
  using assms
  by (auto simp: validate_descriptor_def validate_byte_segments_def guard_simps split: option.splits if_splits)

context storage_interface
begin

lemma write_runs_ok:
  assumes "write_runs wr tmp d rs w = (r, w')" and "check_runs cap l t rs = Inr t'"
    and "0 < d_block_nbytes d" "0 < d_file_payload_offset d" "0 \<le> l" "w_files w tmp = Some f"
    and "int (length f) = d_file_payload_offset d + l * d_block_nbytes d"
  shows "only_file tmp w w' \<and> (r = None \<longrightarrow>
    w_files w' tmp = Some (f @ direct_payload d (concat (map run_pairs rs)) (w_mem w)))"
  using assms
proof (induction rs arbitrary: w l t f)
  case Nil
  then show ?case by (simp add: direct_payload_def)
next
  case (Cons x rs)
  let ?bn = "d_block_nbytes d"
  let ?n = "run_count x * ?bn" and ?fo = "d_file_payload_offset d + run_logical x * ?bn"
  from Cons.prems(2) have x: "run_logical x = l" "0 < run_count x"
    and rest: "check_runs cap (l + run_count x) (t + run_count x) rs = Inr t'" by (auto split: if_splits)
  obtain ret w1 where d: "wr tmp (d_allocation_base d) ?n ?fo (run_physical x * ?bn) w = (ret, w1)"
    by (metis surj_pair)
  have o1: "only_file tmp w w1" using write_mem [OF d] write_others [OF d] by (simp add: only_file_def)
  show ?case
  proof (cases "ret = ?n")
    case False
    then have "r \<noteq> None" "w' = w1" using Cons.prems(1) d by (auto simp: Let_def)
    then show ?thesis using o1 by auto
  next
    case True
    have run: "write_runs wr tmp d rs w1 = (r, w')" using Cons.prems(1) d True by (simp add: Let_def)
    let ?f1 = "f @ mem_bytes (w_mem w) (d_allocation_base d + run_physical x * ?bn) ?n"
    have pos: "0 < ?n" "0 \<le> ?fo" "?fo = int (length f)" "?fo \<noteq> 0"
    proof -
      have "0 \<le> l * ?bn" using Cons.prems(3,5) by simp
      then show "0 < ?n" "0 \<le> ?fo" "?fo = int (length f)" "?fo \<noteq> 0" using x Cons.prems(3,4,7) by simp_all
    qed
    have "(if ?fo = 0 then Some [] else w_files w tmp) = Some f" using Cons.prems(6) pos(4) by simp
    from write_full [OF d [unfolded True] pos(1,2) this pos(3)]
    have f1: "w_files w1 tmp = Some ?f1" .
    have "int (length ?f1) = d_file_payload_offset d + (l + run_count x) * ?bn"
      using Cons.prems(7) pos(1) by (simp add: algebra_simps)
    from Cons.IH [OF run rest Cons.prems(3,4) _ f1 this] Cons.prems(5) x(2)
    have ih: "only_file tmp w1 w' \<and> (r = None \<longrightarrow>
      w_files w' tmp = Some (?f1 @ direct_payload d (concat (map run_pairs rs)) (w_mem w1)))" by simp
    have m1: "w_mem w1 = w_mem w" using write_mem [OF d] .
    have "direct_payload d (concat (map run_pairs (x # rs))) (w_mem w) =
        mem_bytes (w_mem w) (d_allocation_base d + run_physical x * ?bn) ?n @
        direct_payload d (concat (map run_pairs rs)) (w_mem w)"
      using direct_payload_run [of d x "w_mem w"] Cons.prems(3) x(2) by (simp add: direct_payload_def)
    then show ?thesis using ih m1 o1 only_file_trans [of tmp w w1 w'] by simp
  qed
qed

lemma direct_body_ok:
  assumes run: "direct_body wr tmp header n d w = (r, w')" and "length header = 4096"
    and val: "validate_descriptor d rc ra = None" "d_byte_segments d = []" "d_logical_block_start d = 0"
    and po: "d_file_payload_offset d = 4096"
  shows "only_file tmp w w' \<and> (r = None \<longrightarrow> w_files w' tmp = Some (header @ direct_payload d (block_pairs d) (w_mem w)))"
proof -
  obtain a w1 where a: "os_open_trunc tmp w = (a, w1)" by (cases "os_open_trunc tmp w")
  obtain b w2 where b: "py_write tmp header w1 = (b, w2)" by (cases "py_write tmp header w1")
  obtain e w3 where e: "write_runs wr tmp d (d_runs d) w2 = (e, w3)" by (cases "write_runs wr tmp d (d_runs d) w2")
  have o1: "only_file tmp w w1" "a = None \<Longrightarrow> w_files w1 tmp = Some []" using os_open_trunc_ok [OF a] by auto
  have o2: "only_file tmp w w2" using py_write_ok(1) [OF b] o1(1) only_file_trans by blast
  show ?thesis
  proof (cases "a = None \<and> b = None")
    case True
    then have f2: "w_files w2 tmp = Some header" using py_write_ok(2) [OF b] o1(2) by auto
    note v = validate_descriptor_runs [OF val(1,2)]
    have "only_file tmp w2 w3 \<and> (e = None \<longrightarrow>
        w_files w3 tmp = Some (header @ direct_payload d (concat (map run_pairs (d_runs d))) (w_mem w2)))"
      by (rule write_runs_ok [OF e v(1,3) _ v(6) f2]) (simp_all add: po val assms(2))
    then have w3: "only_file tmp w w3" "e = None \<Longrightarrow>
        w_files w3 tmp = Some (header @ direct_payload d (block_pairs d) (w_mem w))"
      using o2 only_file_trans [OF o2] by (auto simp: only_file_def block_pairs_def)
    have "w' = w3 \<and> (r = None \<longrightarrow> e = None)"
      using run True a b e
      by (auto simp: direct_body_def BLOCK_FIRST_HEADER_SIZE_def split: option.splits if_splits)
    then show ?thesis using w3 by auto
  next
    case False
    then have "r \<noteq> None \<and> w' \<in> {w1, w2}" using run a b
      by (auto simp: direct_body_def split: option.splits)
    then show ?thesis using o1(1) o2 by auto
  qed
qed

lemma direct_published:
  assumes run: "save_direct_xds wr c path d s = (r, s')"
  shows "w_mem (ds_world s') = w_mem (ds_world s) \<and>
    (\<forall>q. q \<noteq> path \<longrightarrow> q \<noteq> block_first_tmp path \<longrightarrow> w_files (ds_world s') q = w_files (ds_world s) q) \<and>
    (case r of
       Inl e \<Rightarrow> w_files (ds_world s') path = w_files (ds_world s) path
     | Inr m \<Rightarrow> make_direct_block_first_metadata c = Inr m \<and> validate_direct_descriptor c d STORE = None \<and>
         d_logical_block_start d = 0 \<and>
         d_logical_block_count d = m_valid_tokens m div m_block_size m \<and>
         (\<exists>header. pack_block_first_header (x_torch c) m = Inr header \<and>
            w_files (ds_world s') path = Some (header @ direct_payload d (block_pairs d) (w_mem (ds_world s))) \<and>
            int (length (header @ direct_payload d (block_pairs d) (w_mem (ds_world s)))) = 4096 + m_io_nbytes m))"
proof (cases "\<exists>e s1. r = Inl e \<and> s' = s1 \<and> ds_world s1 = ds_world s")
  case True
  then show ?thesis by auto
next
  case False
  have vd: "validate_direct_descriptor c d STORE = None"
    using run False by (auto simp: save_direct_xds_def split: option.splits)
  obtain m where m: "make_direct_block_first_metadata c = Inr m"
  proof (cases "make_direct_block_first_metadata c")
    case (Inl e)
    then have "r = Inl e \<and> s' = s" using run vd by (simp add: Inl save_direct_xds_def)
    with False show ?thesis by blast
  qed
  have g: "d_logical_block_start d = 0" "d_logical_block_count d = m_valid_tokens m div m_block_size m"
    "transferred_nbytes d = m_payload_nbytes m" "m_payload_nbytes m = m_io_nbytes m"
    using run False vd m by (auto simp: save_direct_xds_def split: if_splits)
  obtain re s1 where reg0: "ensure_registered d s = (re, s1)" by (cases "ensure_registered d s")
  note w1 = ensure_registered_world [OF reg0]
  have reg: "ensure_registered d s = (None, s1)"
    using run False vd m g reg0 w1 by (auto simp: save_direct_xds_def split: option.splits)
  let ?tmp = "block_first_tmp path"
  define res where "res = (case pack_block_first_header (x_torch c) m of
      Inl e \<Rightarrow> abandon False ?tmp e (ds_world s1)
    | Inr header \<Rightarrow> publish False ?tmp path (direct_body wr ?tmp header (m_io_nbytes m) d) m (ds_world s1))"
  obtain r2 w where res: "res = (r2, w)" by (cases res)
  have s': "r2 = r" "s' = s1\<lparr>ds_world := w\<rparr>"
    using run vd m g reg res by (simp_all add: save_direct_xds_def res_def Let_def)
  note vn = validate_direct_None [OF vd]
  have val: "validate_descriptor d True True = None" and seg: "d_byte_segments d = []"
    using vn store_has_no_segments by auto
  show ?thesis
  proof (cases "pack_block_first_header (x_torch c) m")
    case (Inl e)
    then have "abandon False ?tmp e (ds_world s1) = (r, w)" using res s' by (simp add: res_def)
    from abandon_ok [OF this] block_first_tmp_neq [of path] w1 show ?thesis
      by (auto simp: only_file_def s')
  next
    case (Inr header)
    then have pub: "publish False ?tmp path (direct_body wr ?tmp header (m_io_nbytes m) d) m (ds_world s1) = (r, w)"
      using res s' by (simp add: res_def)
    have hl: "length header = 4096" using packed_header [OF Inr] by blast
    note v = validate_descriptor_runs [OF val seg]
    have "length (map fst (block_pairs d)) = nat (d_logical_block_count d)"
      using check_runs_Inr [OF v(1)] by (simp add: block_pairs_def)
    then have "int (length (block_pairs d)) * d_block_nbytes d = m_io_nbytes m"
      using v(7) g seg by (simp add: transferred_nbytes_def)
    then have len: "int (length (header @ direct_payload d (block_pairs d) (w_mem (ds_world s)))) = 4096 + m_io_nbytes m"
      using hl v(3) length_direct_payload [of d "block_pairs d" "w_mem (ds_world s)"] by simp
    have "only_file ?tmp (ds_world s1) w2 \<and>
        (b = None \<longrightarrow> w_files w2 ?tmp = Some (header @ direct_payload d (block_pairs d) (w_mem (ds_world s))))"
      if "direct_body wr ?tmp header (m_io_nbytes m) d (ds_world s1) = (b, w2)" for b w2
      using direct_body_ok [OF that hl val seg g(1) validated_offset [OF val]] w1 by simp
    from publish_atomic [OF pub block_first_tmp_neq this] w1 show ?thesis
      using Inr m vd g len by (cases r) (simp_all add: s')
  qed
qed

end

text \<open>
  C6: A direct store is all or nothing: whatever the driver and the file system do, no file but the
  temporary one changes unless the store succeeds; if it does, the published file is the header of the
  engine's metadata followed by the blocks of the chunk in token order, as they were in KV memory, and it
  has exactly the announced size. Memory never changes.
\<close>

theorem direct_store_atomic:
  assumes "save_direct_xds (dds_write g) c path d s = (r, s')"
  shows "w_mem (ds_world s') = w_mem (ds_world s) \<and>
    (\<forall>q. q \<noteq> path \<longrightarrow> q \<noteq> block_first_tmp path \<longrightarrow> w_files (ds_world s') q = w_files (ds_world s) q) \<and>
    (case r of
       Inl e \<Rightarrow> w_files (ds_world s') path = w_files (ds_world s) path
     | Inr m \<Rightarrow> make_direct_block_first_metadata c = Inr m \<and>
         (\<exists>header. pack_block_first_header (x_torch c) m = Inr header \<and>
            w_files (ds_world s') path = Some (header @ direct_payload d (block_pairs d) (w_mem (ds_world s))) \<and>
            int (length (header @ direct_payload d (block_pairs d) (w_mem (ds_world s)))) = 4096 + m_io_nbytes m))"
  using dds.direct_published [OF assms] by (cases r) auto


theorem direct_store_atomic_witness:
  "\<exists>r s'. save_direct_xds (dds_write demo_dds) direct_cfg ''f'' (direct_demo_descriptor STORE 0) (direct_state_of []) = (r, s') \<and>
    w_mem (ds_world s') = w_mem (ds_world (direct_state_of []))"
proof -
  obtain r s' where "save_direct_xds (dds_write demo_dds) direct_cfg ''f'' (direct_demo_descriptor STORE 0) (direct_state_of []) = (r, s')"
    by (metis surj_pair)
  with direct_store_atomic [OF this] show ?thesis by blast
qed

lemma payload_token:
  assumes val: "validate_descriptor d rc ra = None" "d_byte_segments d = []"
    and st: "d_logical_block_start d = 0" "d_leading_edge d = None" and h: "length header = 4096"
    and t: "token_slot d t = Some u"
    and lay: "0 < row" "d_block_nbytes d = nq * d_block_size d * row" "0 \<le> q" "q < nq" "0 \<le> r" "r < row"
  shows "byte_at (header @ direct_payload d (block_pairs d) mem) (row_byte 4096 d row q t r) =
    mem (row_byte (d_allocation_base d) d row q u r)"
proof -
  note v = validate_descriptor_runs [OF val]
  let ?bs = "d_block_size d" and ?bn = "d_block_nbytes d"
  have tm: "0 \<le> t mod ?bs" "t mod ?bs < ?bs" using v(5) by simp_all
  obtain p where p: "map_of (block_pairs d) (t div ?bs) = Some p" and u: "u = p * ?bs + t mod ?bs"
    using t st by (auto simp: token_slot_def Let_def split: option.splits)
  have keys: "map fst (block_pairs d) = int_range 0 (nat (d_logical_block_count d))"
    using check_runs_Inr [OF v(1)] st by (simp add: block_pairs_def)
  obtain i where i: "i < length (block_pairs d)" "block_pairs d ! i = (t div ?bs, p)"
    using map_of_SomeD [OF p] by (auto simp: in_set_conv_nth)
  have len: "length (block_pairs d) = nat (d_logical_block_count d)"
    using arg_cong [OF keys, of length] by simp
  have "map fst (block_pairs d) ! i = int i" using i(1) by (simp add: keys len)
  then have ii: "t div ?bs = int i" using i by simp
  define j where "j = (q * ?bs + t mod ?bs) * row + r"
  note rb = row_byte_parts [OF v(5) lay, of 4096 t]
  have x: "row_byte 4096 d row q t r = 4096 + (int i * ?bn + j)"
    by (simp add: row_byte_def j_def ii [symmetric])
  have j: "0 \<le> j" "j < ?bn"
    using rb(2) pos_mod_sign [OF v(3)] pos_mod_bound [OF v(3)] by (metis j_def)+
  have "0 \<le> int i * ?bn + j" using j v(3) by simp
  then have "byte_at (header @ direct_payload d (block_pairs d) mem) (4096 + (int i * ?bn + j)) =
      byte_at (direct_payload d (block_pairs d) mem) (int i * ?bn + j)"
    using h by (auto simp: byte_at_def nth_append nat_add_distrib)
  also have "\<dots> = mem (d_allocation_base d + p * ?bn + j)"
    using i j by (intro byte_of_payload) auto
  also have "d_allocation_base d + p * ?bn + j = row_byte (d_allocation_base d) d row q u r"
    using div_mod_parts [OF tm, of p] by (simp add: row_byte_def u j_def)
  finally show ?thesis by (simp only: x)
qed

text \<open>
  C1: What a direct store takes from KV memory a direct retrieve brings back, through two independent
  plans: the retrieve may use other physical blocks, begin in the middle of a block because a prefix is
  cached, and find memory changed in between; if the file is the stored one, the row of every uncached
  token, in every layer and for keys and values, is what the store found in that token's slot.
\<close>

theorem direct_roundtrip:
  assumes "build_block_first_direct_plans kva slotsa [starta] [enda] STORE bs 0 = Inr [direct da]"
    and "save_direct_xds (dds_write g) c path da s = (Inr m, s1)"
    and "w_files (ds_world s2) path = w_files (ds_world s1) path"
    and "build_block_first_direct_plans kvb slotsb [startb] [endb] RETRIEVE bs skip_before = Inr [direct db]"
    and "load_direct_xds (dds_read g) c path m fresh db s2 = (None, s3)" and "torch_api_ok (x_torch c)"
    and "d_leading_edge db \<noteq> None \<longrightarrow> edge_apart db s3"
    and "inj_on (\<lambda>t. slotsb ! nat (startb + t)) {0..<endb - startb}" and "endb - startb = enda - starta"
    and "t \<in> {min (endb - startb) (max 0 (skip_before - startb))..<endb - startb}"
    and "q \<in> {0..<2 * m_num_layers m}" and "r \<in> {0..<edge_row c m}"
  shows "w_mem (ds_world s3) (row_byte (kv_data_ptr kvb) db (edge_row c m) q (slotsb ! nat (startb + t)) r) =
    w_mem (ds_world s) (row_byte (kv_data_ptr kva) da (edge_row c m) q (slotsa ! nat (starta + t)) r)"
proof -
  let ?row = "edge_row c m"
  have a: "plan_descriptor ([direct da] ! 0) = Some da" "0 < length [direct da]" by simp_all
  have bd: "plan_descriptor ([direct db] ! 0) = Some db" "0 < length [direct db]" by simp_all
  have "plan_descriptor ([direct da] ! 0) \<noteq> None" using a by simp
  note ba = build_block_first_Inr [OF assms(1) a(2) this]
  note ca = chunk_plan_sound [OF ba(4) a(1) ba(3,5,6,7)]
  note fa = chunk_plan_fields [OF ba(4) a(1)]
  have "plan_descriptor ([direct db] ! 0) \<noteq> None" using bd by simp
  note bb = build_block_first_Inr [OF assms(4) bd(2) this]
  note fb = chunk_plan_fields [OF bb(4) bd(1)]
  note pub = dds.direct_published [OF assms(2)]
  obtain header where h: "pack_block_first_header (x_torch c) m = Inr header"
    and f1: "w_files (ds_world s1) path = Some (header @ direct_payload da (block_pairs da) (w_mem (ds_world s)))"
    and vd: "validate_direct_descriptor c da STORE = None" "d_logical_block_start da = 0"
    using pub by auto
  have prep: "prepare_direct_xds c path m db (ds_world s2) = None"
    using assms(5) by (auto simp: load_direct_xds_def split: option.splits)
  note pb = prepared_block [OF prep assms(6)]
  have vb: "validate_direct_descriptor c db RETRIEVE = None" using prepared_fields [OF prep] by blast
  note va' = validate_direct_None [OF vd(1)] and vb' = validate_direct_None [OF vb]
  have val: "validate_descriptor da False False = None" and seg: "d_byte_segments da = []" using ca fa by auto
  have bs: "d_block_size da = bs" "d_block_size db = bs" using fa fb by auto
  have bn: "d_block_nbytes da = d_block_nbytes db" using va' vb' bs by simp
  have edge: "d_leading_edge da = None"
    using validate_descriptor_runs(2) [OF val seg] va'
    by (auto simp: check_tokens_def guard_simps split: option.splits if_splits)
  have t: "0 \<le> t" "t < enda - starta" using assms(9,10) bb(6) by auto
  have ts: "token_slot da t = Some (slotsa ! nat (starta + t))"
    using ca t by (auto simp: skip_of_def)
  have hl: "length header = 4096" using packed_header [OF h] by blast
  have lay: "d_block_nbytes da = 2 * m_num_layers m * d_block_size da * ?row" using pb bn bs by simp
  have q: "0 \<le> q" "q < 2 * m_num_layers m" "0 \<le> r" "r < ?row" using assms(11,12) by auto
  have "[startb] ! 0 = startb" "[endb] ! 0 = endb" by simp_all
  with planned_retrieve_memory [OF assms(4) bd(2,1) assms(5-7) _ assms(11,12)] assms(8,10)
  obtain f where f: "w_files (ds_world s2) path = Some f"
    and m: "w_mem (ds_world s3) (row_byte (kv_data_ptr kvb) db ?row q (slotsb ! nat (startb + t)) r) =
      byte_at f (row_byte 4096 db ?row q t r)" by auto
  have rb: "row_byte 4096 db ?row q t r = row_byte 4096 da ?row q t r" by (simp add: row_byte_def bs bn)
  show ?thesis
    using m f f1 assms(3) payload_token [OF val seg vd(2) edge hl ts pb(3) lay q, of "w_mem (ds_world s)"] fa
    by (simp add: rb)
qed


lemma direct_demo_saved:
  "\<exists>m header s1. make_direct_block_first_metadata direct_cfg = Inr m \<and>
    save_direct_xds (dds_write g) direct_cfg p (direct_demo_descriptor STORE 0) (direct_state_of []) = (Inr m, s1) \<and>
    pack_block_first_header (x_torch direct_cfg) m = Inr header"
proof -
  obtain m header where m: "make_direct_block_first_metadata direct_cfg = Inr m"
    and h: "pack_block_first_header (x_torch direct_cfg) m = Inr header" and f: "m_payload_nbytes m = 8192"
      "m_io_nbytes m = 8192" "m_valid_tokens m = 4" "m_block_size m = 2"
    using direct_demo_made by blast
  let ?d = "direct_demo_descriptor STORE 0" and ?s = "direct_state_of []" and ?tmp = "block_first_tmp p"
  have d: "d_block_nbytes ?d = 4096" "d_file_payload_offset ?d = 4096" "d_byte_segments ?d = []"
    "d_runs ?d = [\<lparr>run_logical = 0, run_physical = 3, run_count = 1\<rparr>, \<lparr>run_logical = 1, run_physical = 5, run_count = 1\<rparr>]"
    "d_logical_block_start ?d = 0" "d_logical_block_count ?d = 2" "d_allocation_base ?d = 8192"
    by (simp_all add: direct_demo_descriptor_def)
  obtain regs hp where reg: "ensure_registered ?d ?s = (None, ?s\<lparr>ds_regs := regs, ds_hip := hp\<rparr>)"
    using direct_demo_registered by blast
  have hl: "length header = 4096" using packed_header [OF h] by blast
  let ?w = "ds_world ?s"
  let ?w2 = "put_content ?tmp (Some header) ?w"
  let ?b1 = "mem_bytes (w_mem ?w) (8192 + 12288) 4096" and ?b2 = "mem_bytes (w_mem ?w) (8192 + 20480) 4096"
  let ?w3 = "put_content ?tmp (Some (header @ ?b1)) ?w2"
  have q: "quiet_world ?w" by (simp add: direct_state_of_def quiet_world_def demo_world_def)
  have q2: "quiet_world ?w2" "quiet_world ?w3" using q by (simp_all add: quiet_simps)
  have wr1: "dds_write g ?tmp 8192 4096 4096 12288 ?w2 = (4096, ?w3)"
    using quiet_steps(4) [OF q2(1), of ?tmp header 4096 4096 g 8192 12288] hl by simp
  have wr2: "dds_write g ?tmp 8192 4096 8192 20480 ?w3 = (4096, put_content ?tmp (Some (header @ ?b1 @ ?b2)) ?w2)"
    using quiet_steps(4) [OF q2(2), of ?tmp "header @ ?b1" 4096 8192 g 8192 20480] hl by simp
  have body: "direct_body (dds_write g) ?tmp header 8192 ?d ?w = (None, put_content ?tmp (Some (header @ ?b1 @ ?b2)) ?w2)"
    using q wr1 wr2 hl
    by (simp add: direct_body_def quiet_steps quiet_simps d Let_def file_size_def BLOCK_FIRST_HEADER_SIZE_def)
  have "\<exists>w'. publish False ?tmp p (direct_body (dds_write g) ?tmp header 8192 ?d) m ?w = (Inr m, w')"
    using quiet_steps(3) [of "put_content ?tmp (Some (header @ ?b1 @ ?b2)) ?w2"] q by (simp add: publish_def body quiet_simps)
  then show ?thesis
    using m h f reg direct_demo_valid(2)
    by (auto simp: save_direct_xds_def d transferred_nbytes_def Let_def)
qed

theorem direct_roundtrip_witness:
  "\<exists>m s1 s2 s3. save_direct_xds (dds_write demo_dds) direct_cfg ''f'' (direct_demo_descriptor STORE 0) (direct_state_of []) = (Inr m, s1) \<and>
    load_direct_xds (dds_read demo_dds) direct_cfg ''f'' m 1000000 (direct_demo_descriptor RETRIEVE 1) s2 = (None, s3) \<and>
    w_mem (ds_world s3) (row_byte 8192 (direct_demo_descriptor RETRIEVE 1) 1024 1 10 3) = 7"
proof -
  let ?da = "direct_demo_descriptor STORE 0" and ?db = "direct_demo_descriptor RETRIEVE 1"
  obtain m header s1 where m: "make_direct_block_first_metadata direct_cfg = Inr m"
    and sv: "save_direct_xds (dds_write demo_dds) direct_cfg ''f'' ?da (direct_state_of []) = (Inr m, s1)"
    and h: "pack_block_first_header (x_torch direct_cfg) m = Inr header"
    using direct_demo_saved by blast
  have f: "m_io_nbytes m = 8192" "m_num_layers m = 1"
      "m_hidden_dim m = 512" "torch_dtype (x_torch direct_cfg) m = Inr Float16"
      "validate_runtime (x_torch direct_cfg) m [2, 1, 4, 512] Float16 ''m'' 2 1 2 1 2 = None"
    using direct_demo_made m by auto
  let ?body = "direct_payload ?da (block_pairs ?da) (w_mem (ds_world (direct_state_of [])))"
  have f1: "w_files (ds_world s1) ''f'' = Some (header @ ?body)" "length ?body = 8192"
    using dds.direct_published [OF sv] h f packed_header [OF h] by auto
  let ?s2 = "direct_state_of (header @ ?body)"
  obtain s3 where ld: "load_direct_xds (dds_read demo_dds) direct_cfg ''f'' m 1000000 ?db ?s2 = (None, s3)"
    and ap: "edge_apart ?db s3"
    using direct_demo_retrieved [OF m h f f1(2)] by blast
  have same: "w_files (ds_world ?s2) ''f'' = w_files (ds_world s1) ''f''" by (simp add: f1 direct_state_of_def)
  have ok: "torch_api_ok (x_torch direct_cfg)" by (simp add: direct_cfg_def demo_cfg_def demo_torch_ok)
  have row: "edge_row direct_cfg m = 1024" using f by (simp add: edge_row_def direct_cfg_def demo_cfg_def demo_torch_def)
  have inj: "inj_on (\<lambda>t. demo_slots ! nat (0 + t)) {0..<4 - 0}"
  proof -
    have "{0..<4 :: int} = {0, 1, 2, 3}" by auto
    then show ?thesis by (simp add: demo_slots_def)
  qed
  have mem: "2 \<in> {min (4 - 0) (max 0 (1 - 0))..<4 - 0 :: int}" "1 \<in> {0..<2 * m_num_layers m}"
    "3 \<in> {0..<edge_row direct_cfg m}" using f row by simp_all
  have "w_mem (ds_world s3) (row_byte (kv_data_ptr direct_kv) ?db 1024 1 (demo_slots ! nat (0 + 2)) 3) =
      w_mem (ds_world (direct_state_of [])) (row_byte (kv_data_ptr direct_kv) ?da 1024 1 (demo_slots ! nat (0 + 2)) 3)"
    using direct_roundtrip [OF direct_demo_stored sv same direct_demo_planned ld ok impI [OF ap] inj refl mem]
    unfolding row .
  then have "w_mem (ds_world s3) (row_byte 8192 ?db 1024 1 10 3) = 7"
    by (simp add: direct_kv_def demo_kv_def demo_slots_def direct_state_of_def demo_world_def)
  then show ?thesis using sv ld by blast
qed

section \<open>Retrieves in parallel\<close>

lemma blocks_apart_pairwise:
  assumes "blocks_apart seen ds"
  shows "(\<forall>d \<in> set ds. d_leading_edge d = None \<and> seen \<inter> set (d_physical_block_ids d) = {}) \<and>
    sorted_wrt (\<lambda>a b. set (d_physical_block_ids a) \<inter> set (d_physical_block_ids b) = {}) ds"
  using assms
  by (induction seen ds rule: blocks_apart.induct) (auto simp: Let_def split: if_splits)

lemma retrieved_commute:
  assumes "d_leading_edge a = None" "d_leading_edge b = None"
    and "d_allocation_base a = d_allocation_base b" "d_block_nbytes a = d_block_nbytes b"
    and "snd ` set (block_pairs a) \<inter> snd ` set (block_pairs b) = {}"
  shows "retrieved a row f (retrieved b row g mem) = retrieved b row g (retrieved a row f mem)"
proof
  fix x
  let ?p = "(x - d_allocation_base b) div d_block_nbytes b"
  have "?p \<notin> snd ` set (block_pairs a) \<or> ?p \<notin> snd ` set (block_pairs b)" using assms(5) by blast
  then have "block_source (block_pairs a) ?p = None \<or> block_source (block_pairs b) ?p = None"
    by (elim disjE) (simp_all add: block_source_None)
  then show "retrieved a row f (retrieved b row g mem) x = retrieved b row g (retrieved a row f mem) x"
    unfolding retrieved_def Let_def assms(1-4) option.case by (elim disjE) (simp_all split: option.split)
qed

text \<open>
  When the backend decides that prepared retrieves may run in parallel, their order does not
  matter to the specification of the transfers on memory: for descriptors of one allocation whose runs
  name their physical blocks, any order leaves the same memory.
\<close>

theorem parallel_retrieve_any_order:
  assumes "can_parallel_direct_retrieve (map fst jobs)" and "mset jobs' = mset jobs"
    and "\<forall>(d, f) \<in> set jobs. d_allocation_base d = base \<and> d_block_nbytes d = n \<and>
      map snd (block_pairs d) = d_physical_block_ids d"
  shows "fold (\<lambda>(d, f). retrieved d row f) jobs mem = fold (\<lambda>(d, f). retrieved d row f) jobs' mem"
proof -
  note ap = blocks_apart_pairwise [OF assms(1) [unfolded can_parallel_direct_retrieve_def, THEN conjunct2]]
  have ids: "set (d_physical_block_ids (fst z)) = snd ` set (block_pairs (fst z))" if "z \<in> set jobs" for z
  proof -
    have "d_physical_block_ids (fst z) = map snd (block_pairs (fst z))" using assms(3) that by auto
    then show ?thesis by (simp only: list.set_map)
  qed
  have com: "(case x of (d, f) \<Rightarrow> retrieved d row f) \<circ> (case y of (d, f) \<Rightarrow> retrieved d row f) =
      (case y of (d, f) \<Rightarrow> retrieved d row f) \<circ> (case x of (d, f) \<Rightarrow> retrieved d row f)"
    if xy: "x \<in> set jobs" "y \<in> set jobs" for x y
  proof (cases "x = y")
    case False
    obtain i j where ij: "i < length jobs" "j < length jobs" "jobs ! i = x" "jobs ! j = y"
      using xy by (auto simp: in_set_conv_nth)
    then have "i \<noteq> j" using False by auto
    have "set (d_physical_block_ids (fst x)) \<inter> set (d_physical_block_ids (fst y)) = {}"
    proof (cases "i < j")
      case True
      then show ?thesis using ap ij by (auto simp: sorted_wrt_iff_nth_less)
    next
      case False
      then have "j < i" using \<open>i \<noteq> j\<close> by simp
      then show ?thesis using ap ij by (fastforce simp: sorted_wrt_iff_nth_less)
    qed
    moreover have "set (d_physical_block_ids (fst x)) = snd ` set (block_pairs (fst x))"
      "set (d_physical_block_ids (fst y)) = snd ` set (block_pairs (fst y))"
      using ids xy by blast+
    ultimately have "snd ` set (block_pairs (fst x)) \<inter> snd ` set (block_pairs (fst y)) = {}" by simp
    moreover have "d_leading_edge (fst x) = None" "d_leading_edge (fst y) = None"
      using ap xy by auto
    ultimately show ?thesis
      using assms(3) xy retrieved_commute [of "fst x" "fst y" row "snd x" "snd y"]
      by (simp add: case_prod_beta' comp_def)
  qed simp
  show ?thesis by (rule fun_cong [OF fold_multiset_equiv [OF com]]) (use assms(2) in simp_all)
qed


theorem parallel_retrieve_any_order_witness:
  "\<exists>a b. can_parallel_direct_retrieve [a, b] \<and> block_pairs a = [(0, 3), (1, 5)] \<and> block_pairs b = [(0, 2), (1, 4)] \<and>
    fold (\<lambda>(d, f). retrieved d 1024 f) [(a, replicate 12288 1), (b, replicate 12288 2)] (\<lambda>_. 7) =
    fold (\<lambda>(d, f). retrieved d 1024 f) [(b, replicate 12288 2), (a, replicate 12288 1)] (\<lambda>_. 7)"
proof -
  let ?a = "direct_demo_descriptor RETRIEVE 0"
  let ?b = "?a\<lparr>d_runs := [\<lparr>run_logical = 0, run_physical = 2, run_count = 1\<rparr>,
    \<lparr>run_logical = 1, run_physical = 4, run_count = 1\<rparr>], d_physical_block_ids := [2, 4]\<rparr>"
  let ?jobs = "[(?a, replicate 12288 1 :: bytes), (?b, replicate 12288 2)]"
  have c: "can_parallel_direct_retrieve (map fst ?jobs)"
    by (simp add: can_parallel_direct_retrieve_def direct_demo_descriptor_def)
  have p: "block_pairs ?a = [(0, 3), (1, 5)]" "block_pairs ?b = [(0, 2), (1, 4)]"
    by (simp_all add: block_pairs_def run_pairs_def direct_demo_descriptor_def)
  have "mset [(?b, replicate 12288 2 :: bytes), (?a, replicate 12288 1)] = mset ?jobs" by simp
  moreover have "\<forall>(d, f) \<in> set ?jobs. d_allocation_base d = 8192 \<and> d_block_nbytes d = 4096 \<and>
      map snd (block_pairs d) = d_physical_block_ids d"
    using p by (simp add: direct_demo_descriptor_def)
  ultimately have "fold (\<lambda>(d, f). retrieved d 1024 f) ?jobs (\<lambda>_. 7) =
      fold (\<lambda>(d, f). retrieved d 1024 f) [(?b, replicate 12288 2), (?a, replicate 12288 1)] (\<lambda>_. 7)"
    by (rule parallel_retrieve_any_order [OF c])
  then show ?thesis using c p by (intro exI [of _ ?a] exI [of _ ?b]) simp
qed

end
