(* ===== verification/Xds_Lifecycle.thy ===== *)
theory Xds_Lifecycle
  imports Xds_Accounting Direct_Delivery
begin

text \<open>
  The life of the XDS index: its operations as one step relation, in any order and number, and what
  holds in every state that is reached; the contract of eviction; what look-ups report; and the restart,
  when the files that stores have published are scanned again.
\<close>

section \<open>Steps and reachable states\<close>

text \<open>
  One step is one whole call of an operation; whether it returns or raises, the state it leaves is the
  next one. Calls that overlap are not interleaved inside: what a call does outside \<^verbatim>\<open>hot_lock\<close>, such as the
  addition to \<^verbatim>\<open>current_cache_size\<close> when there is no quota, counts as done at once with the rest of it. The
  start-up scan is one step per file, so that other calls may come in between, and there are such steps
  only where \<open>scan\<close> allows them. What the steps are told about memory objects is that they have their
  sizes.
\<close>

inductive xds_step :: "('k, 'd, 'p) env \<Rightarrow> bool \<Rightarrow> ('k, 'd, 'p) index \<Rightarrow> ('k, 'd, 'p) index \<Rightarrow> bool" for v scan where
  contains: "contains_key k b s = (r, s') \<Longrightarrow> xds_step v scan s s'"
| contains_many: "batched_async_contains ks b 0 s = (c, s') \<Longrightarrow> xds_step v scan s s'"
| pinned: "pin_key k s = (b, s') \<Longrightarrow> xds_step v scan s s'"
| unpinned: "unpin_key k s = (b, s') \<Longrightarrow> xds_step v scan s s'"
| touched: "touch_cache v s = (r, s') \<Longrightarrow> xds_step v scan s s'"
| removed: "remove_key v k s = (b, s') \<Longrightarrow> xds_step v scan s s'"
| submitted: "\<forall>(k, mo) \<in> set items. mem_obj_ok v mo \<Longrightarrow> batched_submit_put_task v items s = (r, s') \<Longrightarrow> xds_step v scan s s'"
| worked: "run_put_job v i s = (r, s') \<Longrightarrow> xds_step v scan s s'"
| stored: "batched_direct_put v ks ds s = (rs, s') \<Longrightarrow> xds_step v scan s s'"
| retrieved: "batched_direct_get v fresh ks ds s = (rs, s') \<Longrightarrow> xds_step v scan s s'"
| loaded: "get_blocking v k mem s = (m, s') \<Longrightarrow> xds_step v scan s s'"
| loaded_many: "batched_get_blocking v ks mems s = (ms, s') \<Longrightarrow> xds_step v scan s s'"
| scanned: "scan \<Longrightarrow> scan_file v dir name s = (r, s') \<Longrightarrow> xds_step v scan s s'"

inductive xds_run :: "('k, 'd, 'p) env \<Rightarrow> bool \<Rightarrow> ('k, 'd, 'p) index \<Rightarrow> ('k, 'd, 'p) index \<Rightarrow> bool" for v scan where
  start: "xds_run v scan s s"
| step: "xds_run v scan s s1 \<Longrightarrow> xds_step v scan s1 s2 \<Longrightarrow> xds_run v scan s s2"

text \<open>The index as the constructor leaves it: nothing cached, nothing queued, nothing counted.\<close>

definition fresh_index :: "('k, 'd, 'p) index \<Rightarrow> bool" where
  "fresh_index s \<longleftrightarrow> ix_cache s = [] \<and> ix_jobs s = [] \<and> ix_tasks s = [] \<and> ix_size s = 0"

lemma pin_inv:
  "pin_key k s = (b, s') \<Longrightarrow> index_inv v q n s \<Longrightarrow> index_inv v q n s'"
  "unpin_key k s = (b, s') \<Longrightarrow> index_inv v q n s \<Longrightarrow> index_inv v q n s'"
  by (auto simp: pin_key_def unpin_key_def index_inv_pin split: if_splits)

lemma xds_step_inv:
  assumes "policy_ok (en_policy v)" "xds_step v scan s s'" "index_inv v (\<not> scan) n s"
  shows "index_inv v (\<not> scan) n s'"
  using assms(2)
proof cases
  case (contains k b r)
  then show ?thesis by (rule contains_key_inv [OF _ assms(3)])
next
  case (contains_many ks b c)
  then show ?thesis by (rule batched_contains_inv [OF _ assms(3)])
next
  case (pinned k b)
  then show ?thesis by (rule pin_inv(1) [OF _ assms(3)])
next
  case (unpinned k b)
  then show ?thesis by (rule pin_inv(2) [OF _ assms(3)])
next
  case (touched r)
  then show ?thesis by (rule touch_cache_inv [OF assms(1) _ assms(3)])
next
  case (removed k b)
  then show ?thesis by (rule remove_key_inv [OF _ assms(3)])
next
  case (submitted items r)
  show ?thesis by (rule batched_submit_inv [OF assms(1) submitted assms(3)])
next
  case (worked i r)
  show ?thesis using run_put_job_inv [OF assms(1) worked assms(3)] ..
next
  case (stored ks ds rs)
  then show ?thesis by (rule batched_direct_put_inv [OF assms(1) _ assms(3)])
next
  case (retrieved fresh ks ds rs)
  then show ?thesis by (rule batched_direct_get_inv [OF assms(1) _ assms(3)])
next
  case (loaded k mem m)
  then show ?thesis by (rule get_blocking_inv [OF assms(1) _ assms(3)])
next
  case (loaded_many ks mems ms)
  then show ?thesis by (rule batched_get_blocking_inv [OF assms(1) _ assms(3)])
next
  case (scanned dir name r)
  then show ?thesis using scan_file_inv [OF scanned(2)] assms(3) by simp
qed

lemma xds_run_inv:
  assumes "xds_run v scan s s'" "policy_ok (en_policy v)" "index_inv v (\<not> scan) n s"
  shows "index_inv v (\<not> scan) n s'"
  using assms by (induction rule: xds_run.induct) (auto intro: xds_step_inv)

lemma fresh_index_inv:
  assumes "fresh_index s" "\<forall>limit. x_max_size (en_cfg v) = Some limit \<longrightarrow> 0 \<le> limit"
  shows "index_inv v q 0 s"
  using assms by (auto simp: fresh_index_def index_inv_def charged_def dict_sum_def within_quota_def split: option.splits)

lemma entries_nonneg: "\<forall>(k, e) \<in> set c. 0 \<le> e_size e \<Longrightarrow> 0 \<le> dict_sum e_size c"
  by (induction c) (auto simp: dict_sum_def)

text \<open>
  C3: The accounting of the index. After any sequence of whole calls, each of which runs without another
  inside it - look-ups, pins, staged and direct stores that succeed, fail or raise, retrieves, loads that
  find damaged files, removals, evictions, and the files of the start-up scan - a key has one entry, and
  the sizes of the entries plus what is reserved for queued stores never exceed the counter. In runs
  without any file of the start-up scan, the counter also never exceeds the configured quota; the scan
  itself adds what it finds without regard to the quota.
\<close>

theorem index_accounting:
  assumes "policy_ok (en_policy v)" "fresh_index s0" "xds_run v scan s0 s"
    and "\<forall>limit. x_max_size (en_cfg v) = Some limit \<longrightarrow> 0 \<le> limit"
  shows "distinct (map fst (ix_cache s)) \<and>
    dict_sum e_size (ix_cache s) + sum_list (map j_reserved (ix_jobs s)) \<le> ix_size s \<and>
    0 \<le> dict_sum e_size (ix_cache s) \<and> (\<forall>j \<in> set (ix_jobs s). 0 \<le> j_reserved j) \<and>
    (\<forall>limit. \<not> scan \<longrightarrow> x_max_size (en_cfg v) = Some limit \<longrightarrow> ix_size s \<le> limit)"
proof -
  have "index_inv v (\<not> scan) 0 s"
    by (rule xds_run_inv [OF assms(3,1) fresh_index_inv [OF assms(2,4)]])
  then show ?thesis
    using entries_nonneg [of "ix_cache s"]
    by (auto simp: index_inv_def charged_def within_quota_def job_ok_def)
qed

section \<open>Eviction\<close>

text \<open>
  C29: The contract of eviction, for any policy that proposes unpinned entries while there are any: the
  loop ends, never raises, and answers \<open>True\<close> exactly when the request is reserved within the quota, and
  \<open>False\<close> only when nothing that may be evicted is left. Entries are only taken out, never changed, and
  none that is pinned; the stores under way are untouched.
\<close>

theorem eviction_contract:
  assumes "policy_ok (en_policy v)" "index_inv v True m s" "0 \<le> n" "x_max_size (en_cfg v) = Some limit"
  shows "\<exists>ok s'. eviction v limit n s = (Inr ok, s') \<and> index_inv v True (if ok then m + n else m) s' \<and>
    (if ok then ix_size s' \<le> limit else limit < ix_size s' + n \<and> (\<forall>k. \<not> evictable (ix_cache s') k)) \<and>
    (\<forall>k e. map_of (ix_cache s') k = Some e \<longrightarrow> map_of (ix_cache s) k = Some e) \<and>
    (\<forall>k e. map_of (ix_cache s) k = Some e \<longrightarrow> 0 < e_pins e \<longrightarrow> map_of (ix_cache s') k = Some e) \<and>
    ix_jobs s' = ix_jobs s \<and> ix_tasks s' = ix_tasks s"
proof -
  obtain r s' where r: "eviction v limit n s = (r, s')" by (cases "eviction v limit n s")
  note ok = eviction_ok [OF assms(1) r assms(2,3,4)]
  have same: "\<forall>k e. map_of (ix_cache s') k = Some e \<longrightarrow> map_of (ix_cache s) k = Some e"
    and jobs: "ix_jobs s' = ix_jobs s" "ix_tasks s' = ix_tasks s"
    using ok by blast+
  have keep: "\<forall>k e. map_of (ix_cache s) k = Some e \<longrightarrow> 0 < e_pins e \<longrightarrow> map_of (ix_cache s') k = Some e"
    using ok by (meson not_le)
  have room: "?thesis" if "eviction v limit n s = (Inr b, s')" "index_inv v True (if b then m + n else m) s'"
      "if b then ix_size s' \<le> limit else limit < ix_size s' + n \<and> (\<forall>k. \<not> evictable (ix_cache s') k)" for b
    by (intro exI conjI) (fact that same keep jobs)+
  show ?thesis
  proof (cases "r = Inr True")
    case True
    then have "index_inv v True (m + n) s'" "ix_size s' \<le> limit" using ok by auto
    with True r show ?thesis by (intro room [of True]) simp_all
  next
    case False
    then have "r = Inr False" "index_inv v True m s'" "limit < ix_size s' + n" "\<forall>k. \<not> evictable (ix_cache s') k"
      using ok [THEN conjunct1] by blast+
    with r show ?thesis by (intro room [of False]) simp_all
  qed
qed

section \<open>Look-ups\<close>

lemma contains_key_pin:
  "contains_key k True s = (r, s') \<Longrightarrow>
     r = (map_of (ix_cache s) k \<noteq> None) \<and>
     (\<forall>k'. map_of (ix_cache s') k' = map_option (\<lambda>e. if r \<and> k' = k then e\<lparr>e_pins := e_pins e + 1\<rparr> else e) (map_of (ix_cache s) k'))"
  by (auto simp: contains_key_def map_of_pin_entry option.map_id0 [unfolded id_def] split: if_splits)

lemma contains_key_plain: "contains_key k False s = (map_of (ix_cache s) k \<noteq> None, s)"
  by (simp add: contains_key_def)

lemma map_of_None_frame:
  assumes "\<forall>k'. map_of (ix_cache s') k' = map_option (f k') (map_of (ix_cache s) k')"
  shows "map_of (ix_cache s') k = None \<longleftrightarrow> map_of (ix_cache s) k = None"
  using assms by simp

definition pins_added :: "'k list \<Rightarrow> 'k \<Rightarrow> entry \<Rightarrow> entry" where
  "pins_added ks k e = e\<lparr>e_pins := e_pins e + int (count_list ks k)\<rparr>"

lemma batched_contains_pins:
  "batched_async_contains ks True c s = (n, s') \<Longrightarrow> c \<le> n \<and> n - c \<le> length ks \<and>
     (\<forall>i < n - c. map_of (ix_cache s) (ks ! i) \<noteq> None) \<and>
     (n - c < length ks \<longrightarrow> map_of (ix_cache s) (ks ! (n - c)) = None) \<and>
     (\<forall>k. map_of (ix_cache s') k = map_option (pins_added (take (n - c) ks) k) (map_of (ix_cache s) k))"
proof (induction ks arbitrary: c s)
  case Nil
  then show ?case by (simp add: pins_added_def option.map_id0 [unfolded id_def])
next
  case (Cons k ks)
  obtain r s1 where r: "contains_key k True s = (r, s1)" by (cases "contains_key k True s")
  note ck = contains_key_pin [OF r]
  show ?case
  proof (cases r)
    case False
    then have "n = c" "s' = s1" using Cons.prems r by simp_all
    then show ?thesis using ck False by (simp add: pins_added_def option.map_id0 [unfolded id_def])
  next
    case True
    then have run: "batched_async_contains ks True (c + 1) s1 = (n, s')" using Cons.prems r by simp
    note ih = Cons.IH [OF run]
    have m1: "map_of (ix_cache s1) k' = None \<longleftrightarrow> map_of (ix_cache s) k' = None" for k'
      using ck by simp
    obtain i where n: "n = c + 1 + i" using ih by (metis le_iff_add)
    have i: "i \<le> length ks" "\<forall>j < i. map_of (ix_cache s) (ks ! j) \<noteq> None"
      "i < length ks \<longrightarrow> map_of (ix_cache s) (ks ! i) = None"
      and s': "\<forall>k. map_of (ix_cache s') k = map_option (pins_added (take i ks) k) (map_of (ix_cache s1) k)"
      using ih n m1 by auto
    have "\<forall>j < n - c. map_of (ix_cache s) ((k # ks) ! j) \<noteq> None"
      using i(2) ck True n by (auto simp: nth_Cons split: nat.splits)
    moreover have "map_of (ix_cache s') k' = map_option (pins_added (take (n - c) (k # ks)) k') (map_of (ix_cache s) k')" for k'
      using s' ck True n by (auto simp: pins_added_def option.map_comp o_def intro!: option.map_cong)
    ultimately show ?thesis using i n by simp
  qed
qed

lemma batched_contains_plain:
  "batched_async_contains ks False c s = (n, s') \<Longrightarrow> s' = s \<and> c \<le> n \<and> n - c \<le> length ks \<and>
     (\<forall>i < n - c. map_of (ix_cache s) (ks ! i) \<noteq> None) \<and>
     (n - c < length ks \<longrightarrow> map_of (ix_cache s) (ks ! (n - c)) = None)"
proof (induction ks arbitrary: c)
  case Nil
  then show ?case by simp
next
  case (Cons k ks)
  show ?case
  proof (cases "map_of (ix_cache s) k")
    case None
    then show ?thesis using Cons.prems by (simp add: contains_key_plain)
  next
    case (Some e)
    then have run: "batched_async_contains ks False (c + 1) s = (n, s')"
      using Cons.prems by (simp add: contains_key_plain)
    note ih = Cons.IH [OF run]
    obtain i where n: "n = c + 1 + i" using ih by (metis le_iff_add)
    have "\<forall>j < n - c. map_of (ix_cache s) ((k # ks) ! j) \<noteq> None"
      using ih n Some by (auto simp: nth_Cons split: nat.splits)
    then show ?thesis using ih n by simp
  qed
qed

text \<open>
  C31: A batched look-up answers the length of the longest prefix of the keys that is cached, and with
  pinning it pins exactly that prefix, a key that occurs in it twice twice, and changes no other entry;
  without pinning it changes nothing.
\<close>

theorem batched_contains_prefix:
  "case batched_async_contains ks want_pin 0 s of (n, s') \<Rightarrow>
     n \<le> length ks \<and> list_all (\<lambda>k. map_of (ix_cache s) k \<noteq> None) (take n ks) \<and>
     (n = length ks \<or> map_of (ix_cache s) (ks ! n) = None) \<and>
     (if want_pin then \<forall>k. map_of (ix_cache s') k = map_option (pins_added (take n ks) k) (map_of (ix_cache s) k)
      else s' = s)"
proof -
  obtain n s' where r: "batched_async_contains ks want_pin 0 s = (n, s')"
    by (cases "batched_async_contains ks want_pin 0 s")
  show ?thesis
    using batched_contains_pins [of ks 0 s n s'] batched_contains_plain [of ks 0 s n s'] r
    by (cases want_pin) (auto simp: list_all_length)
qed

section \<open>A failed store\<close>

lemma reserve_without_eviction:
  assumes "\<forall>limit. x_max_size (en_cfg v) = Some limit \<longrightarrow> ix_size s + n \<le> limit"
  shows "\<exists>w. reserve v n s = (Inr True, set_world w (s\<lparr>ix_size := ix_size s + n\<rparr>))"
proof (cases "x_max_size (en_cfg v)")
  case None
  then have "reserve v n s = (Inr True, set_world (ix_world s) (s\<lparr>ix_size := ix_size s + n\<rparr>))"
    by (simp add: reserve_def set_world_def)
  then show ?thesis ..
next
  case (Some limit)
  then have "evict_loop v limit n s [] = (Inr True, s, [])" using assms by (simp add: evict_loop.simps)
  then show ?thesis using Some by (auto simp: reserve_def eviction_def)
qed

lemma failed_put_undone:
  assumes "map_of (ix_cache s) k = None" "k \<notin> set (ix_tasks s)"
    and queued: "submit_put_task v k mo s = (None, s1)" "ix_jobs s1 \<noteq> ix_jobs s"
    and room: "\<And>n. required_store_size v mo = Inr n \<Longrightarrow>
      \<forall>limit. x_max_size (en_cfg v) = Some limit \<longrightarrow> ix_size s + n \<le> limit"
    and chunk: "mo_chunk mo = Some t" "use_block_first_for_tensor (en_cfg v) t = Inr bf"
    and failed: "fst (store_files v (path_of v bf k) bf mo t (ix_world s1)) = Inl e"
    and run: "run_put_job v (length (ix_jobs s)) s1 = (r, s2)"
  shows "r = None \<and> ix_cache s2 = ix_cache s \<and> ix_size s2 = ix_size s \<and> ix_tasks s2 = ix_tasks s \<and>
    ix_jobs s2 = ix_jobs s \<and> ix_refs s2 = ix_refs s"
proof -
  have nt: "\<not> exists_in_put_tasks k s" using assms(2) by (simp add: exists_in_put_tasks_def)
  have "\<not> (\<not> en_allocator v \<and> \<not> x_cpu_store (en_cfg v))"
    by (rule notI) (use queued in \<open>simp add: submit_put_task_def\<close>)
  then have "\<not> ((\<not> en_allocator v \<and> \<not> x_cpu_store (en_cfg v)) \<or> mo_chunk mo = None \<or> exists_in_put_tasks k s \<or>
      (case map_of (ix_cache s) k of Some e \<Rightarrow> e_disk e \<noteq> None | None \<Rightarrow> False))"
    using assms(1) nt chunk(1) by simp
  note sub = submit_put_task_new [OF this]
  obtain n where n: "required_store_size v mo = Inr n"
    using queued(1) sub by (cases "required_store_size v mo") auto
  obtain w where w: "reserve v n (insert_put_task k s) = (Inr True, set_world w (insert_put_task k s\<lparr>ix_size := ix_size s + n\<rparr>))"
    using reserve_without_eviction [of v "insert_put_task k s" n] room [OF n] by (auto simp: insert_put_task_def)
  let ?j = "\<lparr>j_key = k, j_obj = mo, j_reserved = n\<rparr>"
  have s1: "ix_cache s1 = ix_cache s" "ix_size s1 = ix_size s + n" "ix_tasks s1 = ix_tasks s @ [k]"
    "ix_jobs s1 = ix_jobs s @ [?j]" "ix_refs s1 = (ix_refs s)(mo_id mo := ix_refs s (mo_id mo) + 1)"
    using queued(1) [unfolded sub n] w by (auto simp: count_ref_def set_world_def insert_put_task_def)
  obtain w' where st: "store_files v (path_of v bf k) bf mo t (ix_world s1) = (Inl e, w')"
    using failed by (metis prod.collapse)
  have "run_put_job v (length (ix_jobs s)) s1 = async_save v ?j (s1\<lparr>ix_jobs := ix_jobs s\<rparr>)"
    by (simp add: run_put_job_def s1)
  with run have "r = None" "s2 = finish_put ?j (rollback_put k (path_of v bf k) bf n (set_world w' (s1\<lparr>ix_jobs := ix_jobs s\<rparr>)))"
    using chunk st by (simp_all add: async_save_def Let_def)
  then show ?thesis
    using s1 assms(1,2)
    by (simp add: finish_put_def rollback_put_def remove_put_task_def count_ref_def set_world_def
        remove1_append dict_del_absent)
qed

text \<open>
  C32: A staged store that fails on its files is undone, under these conditions: the key is new and no
  task for it is under way, the quota has room for it without eviction, and its job runs directly after
  its submission. If then its directory, data or sidecar cannot be written, entries, counter, tasks,
  queue and the reference counts of the memory objects are as they were before the submission, and
  nothing is raised to the worker. A failed overwrite or an evicted entry is not brought back.
\<close>

theorem failed_put_leaves_no_trace:
  assumes "map_of (ix_cache s) k = None" "k \<notin> set (ix_tasks s)"
    and "submit_put_task v k mo s = (None, s1)" "ix_jobs s1 \<noteq> ix_jobs s"
    and "\<And>n. required_store_size v mo = Inr n \<Longrightarrow>
      \<forall>limit. x_max_size (en_cfg v) = Some limit \<longrightarrow> ix_size s + n \<le> limit"
    and "mo_chunk mo = Some t" "use_block_first_for_tensor (en_cfg v) t = Inr bf"
    and "fst (store_files v (path_of v bf k) bf mo t (ix_world s1)) = Inl e"
    and "run_put_job v (length (ix_jobs s)) s1 = (r, s2)"
  shows "r = None \<and> ix_cache s2 = ix_cache s \<and> ix_size s2 = ix_size s \<and> ix_tasks s2 = ix_tasks s \<and>
    ix_jobs s2 = ix_jobs s \<and> ix_refs s2 = ix_refs s"
  by (rule failed_put_undone) (fact assms)+

section \<open>Restart\<close>

lemma created_runtime_ok:
  assumes "torch_api_ok T" "create T shape d bs mn ws wi tp pp = Inr m"
  shows "validate_runtime T m shape d mn ws wi tp pp bs = None"
proof -
  have v: "block_first_shape shape bs = Inr (m_payload_shape m)" "0 < ws" "0 < tp" "0 < pp" "0 \<le> wi" "wi < ws"
    using assms(2) create_fields [OF assms(2)]
    by (auto simp: validate_None_iff create_def Let_def split: sum.splits option.splits)
  from create_ok [OF assms(1) v, of d mn] assms(2) show ?thesis by auto
qed

definition published_entry :: "string \<Rightarrow> disk_metadata \<Rightarrow> entry" where
  "published_entry path m =
     \<lparr>e_path = path, e_size = BLOCK_FIRST_HEADER_SIZE + m_io_nbytes m, e_shape = m_logical_shape m,
      e_dtype = m_dtype m, e_pins = 0, e_disk = Some m\<rparr>"

lemma published_file_read:
  assumes T: "torch_api_ok (x_torch (en_cfg v))" and bf: "x_block_first (en_cfg v)"
    and m: "make_direct_block_first_metadata (en_cfg v) = Inr m"
    and h: "pack_block_first_header (x_torch (en_cfg v)) m = Inr header"
    and f: "w_files (ix_world s) (path_of v True k) = Some (header @ body)"
      "int (length (header @ body)) = 4096 + m_io_nbytes m"
    and chunk: "hd (x_shapes (en_cfg v)) ! 2 = x_chunk_size (en_cfg v)"
  shows "read_block_first_metadata v k (path_of v True k) s = (Inr (published_entry (path_of v True k) m),
    add_scanned k (published_entry (path_of v True k) m) s)"
proof -
  let ?c = "en_cfg v"
  obtain bs where bs: "x_block_size ?c = Some bs" "length (x_shapes ?c) = 1" "length (x_dtypes ?c) = 1"
    and cr: "create (x_torch ?c) (hd (x_shapes ?c)) (hd (x_dtypes ?c)) bs (x_model ?c) (x_world ?c) (x_worker ?c)
      (x_tp ?c) (x_pp ?c) = Inr m"
    using m by (auto simp: make_direct_block_first_metadata_def split: option.splits if_splits)
  have vt: "m_valid_tokens m = x_chunk_size ?c" using create_fields [OF cr] chunk by simp
  have "length header = 4096" using packed_header [OF h, of "[]"] by simp
  then have tk: "take (nat BLOCK_FIRST_HEADER_SIZE) (header @ body) = header @ []"
    by (simp add: BLOCK_FIRST_HEADER_SIZE_def)
  have "unpack_block_first_header (x_torch ?c) (header @ []) = Inr m" using packed_header [OF h] by blast
  then have rd: "read_direct_header_and_size ?c (path_of v True k) (ix_world s) = Inr (m, 4096 + m_io_nbytes m)"
    unfolding read_direct_header_and_size_def f(1) option.case tk using f(2) by simp
  then show ?thesis
    using vt bs created_runtime_ok [OF T cr]
    by (simp add: read_block_first_metadata_def published_entry_def BLOCK_FIRST_HEADER_SIZE_def Let_def)
qed

context storage_interface
begin

lemma run_direct_store_published:
  assumes "run_direct_store_io v path d io = (Inr m, io')" "en_wr v = wr"
  shows "make_direct_block_first_metadata (en_cfg v) = Inr m \<and>
    (\<exists>header body. pack_block_first_header (x_torch (en_cfg v)) m = Inr header \<and>
       w_files (ds_world io') path = Some (header @ body) \<and> int (length (header @ body)) = 4096 + m_io_nbytes m)"
proof -
  obtain w where w: "save_direct_xds wr (en_cfg v) path d (io\<lparr>ds_world := w\<rparr>) = (Inr m, io')"
    using assms by (auto simp: run_direct_store_io_def split: prod.splits option.splits)
  from direct_published [OF w] show ?thesis by auto
qed

end

lemma plain_round_settles: "direct_put_round v False i k d s = (x, s') \<Longrightarrow> x \<noteq> Inr (Inr j)"
  by (auto simp: direct_put_round_def Let_def split: if_splits sum.splits prod.splits bool.splits option.splits)

lemma new_key_stored:
  assumes "map_of (ix_cache s) k = None" "batched_direct_put v [k] [Some d] s = (Inr [True], s')"
  obtains s3 m io where "run_direct_store_io v (path_of v True k) d (ix_io s3) = (Inr m, io)"
    "s' = remove_put_task k (insert_direct_key k (path_of v True k) m (s3\<lparr>ix_io := io\<rparr>))"
proof -
  have ds: "x_direct_store (en_cfg v)" using assms(2) by (auto simp: batched_direct_put_def Let_def split: if_splits)
  obtain y s1 where y: "direct_put_round v False 0 k (Some d) s = (y, s1)"
    by (cases "direct_put_round v False 0 k (Some d) s")
  have "y = Inr (Inl True) \<and> s1 = s'"
    using assms(2) ds y plain_round_settles [OF y]
    by (auto simp: batched_direct_put_def Let_def split: sum.splits)
  with y have r: "direct_put_round v False 0 k (Some d) s = (Inr (Inl True), s')" by simp
  have rm: "remove_key v k s = (False, s)" using assms(1) by (simp add: remove_key_def)
  obtain s2 m io where "run_direct_store_io v (path_of v True k) d (ix_io s2) = (Inr m, io)"
    "s' = remove_put_task k (insert_direct_key k (path_of v True k) m
      (s2\<lparr>ix_policy := pol_put (en_policy v) k (ix_policy s2), ix_io := io\<rparr>))"
    using r assms(1) rm
    by (auto simp: direct_put_round_def Let_def settle_store_def
        split: if_splits sum.splits prod.splits bool.splits)
  then show thesis using that [of "s2\<lparr>ix_policy := pol_put (en_policy v) k (ix_policy s2)\<rparr>" m io] by simp
qed

subsection \<open>What the scan keeps\<close>

text \<open>
  A file name of the block-first kind is read for \<open>k\<close>; every other name leaves the block-first entry of
  \<open>k\<close> and its file alone.
\<close>

definition names_block_first :: "('k, 'd, 'p) env \<Rightarrow> 'k \<Rightarrow> string \<Rightarrow> bool" where
  "names_block_first v k name \<longleftrightarrow>
     ends_with name BLOCK_FIRST_SUFFIX \<and> name_key v BLOCK_FIRST_SUFFIX name = Inr k"

definition tree_names :: "(string \<times> (string \<times> string list) list) list \<Rightarrow> string list" where
  "tree_names tree = concat (map (\<lambda>(l1, dirs). concat (map snd dirs)) tree)"

definition keeps_direct :: "'k \<Rightarrow> string \<Rightarrow> ('k, 'd, 'p) index \<Rightarrow> ('k, 'd, 'p) index \<Rightarrow> bool" where
  "keeps_direct k p s s' \<longleftrightarrow>
     w_files (ix_world s') p = w_files (ix_world s) p \<and>
     (\<forall>e. e_disk e \<noteq> None \<longrightarrow> map_of (ix_cache s) k = Some e \<longrightarrow> map_of (ix_cache s') k = Some e)"

lemma keeps_direct_refl [simp]: "keeps_direct k p s s"
  by (simp add: keeps_direct_def)

lemma keeps_direct_trans: "keeps_direct k p s s1 \<Longrightarrow> keeps_direct k p s1 s2 \<Longrightarrow> keeps_direct k p s s2"
  by (simp add: keeps_direct_def)

lemma keeps_direct_add:
  "k' \<noteq> k \<or> (\<forall>e. map_of (ix_cache s) k' = Some e \<longrightarrow> e_disk e = None) \<Longrightarrow> keeps_direct k p s (add_scanned k' e s)"
  by (auto simp: keeps_direct_def add_scanned_def map_of_dict_put)

lemma read_block_first_keeps:
  "read_block_first_metadata v k' q s = (r, s') \<Longrightarrow> k' \<noteq> k \<Longrightarrow> keeps_direct k p s s'"
  by (auto simp: read_block_first_metadata_def Let_def keeps_direct_add
      split: sum.splits prod.splits if_splits option.splits)

lemma read_legacy_keeps: "read_legacy_metadata v k' q s = (r, s') \<Longrightarrow> keeps_direct k p s s'"
  by (auto simp: read_legacy_metadata_def Let_def keeps_direct_add split: sum.splits prod.splits if_splits option.splits)

lemma scan_entry_keeps:
  assumes "scan_entry v suffix caught read name s = (r, s')"
    and "\<And>k' x s'. name_key v suffix name = Inr k' \<Longrightarrow> read k' s = (x, s') \<Longrightarrow> keeps_direct k p s s'"
  shows "keeps_direct k p s s'"
  using assms by (auto simp: scan_entry_def split: sum.splits if_splits prod.splits)

lemma removed_keeps:
  assumes "os_remove q (ix_world s) = (r, w)" "q \<noteq> p"
  shows "keeps_direct k p s (set_world w s)"
  using assms
  by (auto simp: keeps_direct_def os_remove_def dest!: os_call_fields split: if_splits prod.splits option.splits os.splits)

lemma scan_file_keeps:
  assumes "scan_file v dir name s = (r, s')" "\<not> names_block_first v k name" "CHR ''/'' \<notin> set name" "dir \<noteq> []"
    and "ends_with (basename p) DATA_SUFFIX"
  shows "keeps_direct k p s s'"
proof -
  have base: "basename (path_join dir name) = name" by (rule basename_path_join [OF assms(3,4)])
  have bf: "keeps_direct k p s s'" if "scan_entry v BLOCK_FIRST_SUFFIX format_or_os
      (\<lambda>k. read_block_first_metadata v k (path_join dir name)) name s = (r, s')" "ends_with name BLOCK_FIRST_SUFFIX"
    using that(1)
    by (rule scan_entry_keeps) (use assms(2) that(2) in \<open>auto simp: names_block_first_def intro: read_block_first_keeps\<close>)
  have legacy: "keeps_direct k p s s'" if "scan_entry v (DATA_SUFFIX @ METADATA_SUFFIX) scan_catches
      (\<lambda>k. read_legacy_metadata v k (path_join dir name)) name s = (r, s')"
    using that by (rule scan_entry_keeps) (auto intro: read_legacy_keeps)
  have rm: "keeps_direct k p s s'" if "\<not> ends_with name DATA_SUFFIX"
      "(case os_remove (path_join dir name) (ix_world s) of (r, w) \<Rightarrow> (r, set_world w s)) = (r, s')"
    using that base assms(5) by (auto split: prod.splits intro: removed_keeps)
  show ?thesis
    using assms(1) bf legacy rm by (simp add: scan_file_def Let_def split: if_splits)
qed

lemma scan_files_keeps:
  assumes "\<forall>name \<in> set names. \<not> names_block_first v k name \<and> CHR ''/'' \<notin> set name" "dir \<noteq> []"
    "ends_with (basename p) DATA_SUFFIX"
  shows "scan_files v dir names s = (r, s') \<Longrightarrow> keeps_direct k p s s'"
  using assms(1)
proof (induction names arbitrary: s)
  case Nil
  then show ?case by simp
next
  case (Cons name names)
  obtain x s1 where x: "scan_file v dir name s = (x, s1)" by (cases "scan_file v dir name s")
  have k1: "keeps_direct k p s s1"
    by (rule scan_file_keeps [OF x _ _ assms(2,3)]) (use Cons.prems(2) in auto)
  show ?case
  proof (cases x)
    case None
    then have "scan_files v dir names s1 = (r, s')" using Cons.prems(1) x by simp
    with Cons.IH Cons.prems(2) have "keeps_direct k p s1 s'" by simp
    with k1 show ?thesis by (rule keeps_direct_trans)
  next
    case (Some e)
    then show ?thesis using k1 Cons.prems(1) x by simp
  qed
qed

lemma path_join_nonempty: "b \<noteq> [] \<Longrightarrow> path_join a b \<noteq> []"
  by (auto simp: path_join_def)

lemma scan_subdir_keeps:
  assumes "ends_with (basename p) DATA_SUFFIX"
  shows "scan_metadata_subdir v path dirs s = (r, s') \<Longrightarrow>
    \<forall>name \<in> set (concat (map snd dirs)). \<not> names_block_first v k name \<and> CHR ''/'' \<notin> set name \<Longrightarrow>
    keeps_direct k p s s'"
proof (induction dirs arbitrary: s)
  case Nil
  then show ?case by simp
next
  case (Cons d dirs)
  obtain l2 names where d: "d = (l2, names)" by (cases d)
  show ?case
  proof (cases "length l2 = 2")
    case False
    then show ?thesis using Cons by (simp add: d)
  next
    case True
    obtain x s1 where x: "scan_files v (path_join path l2) names s = (x, s1)"
      by (cases "scan_files v (path_join path l2) names s")
    have "path_join path l2 \<noteq> []" by (rule path_join_nonempty) (use True in auto)
    then have k1: "keeps_direct k p s s1"
      by (rule scan_files_keeps [OF _ _ assms x, rotated]) (use Cons.prems(2) d in auto)
    show ?thesis
    proof (cases x)
      case None
      then have "scan_metadata_subdir v path dirs s1 = (r, s')" using Cons.prems(1) x True by (simp add: d)
      with Cons.IH Cons.prems(2) have "keeps_direct k p s1 s'" by simp
      with k1 show ?thesis by (rule keeps_direct_trans)
    next
      case (Some e)
      then show ?thesis using k1 Cons.prems(1) x True by (simp add: d)
    qed
  qed
qed

lemma scan_metadata_keeps:
  assumes "ends_with (basename p) DATA_SUFFIX"
  shows "scan_metadata v tree s = (c, s') \<Longrightarrow>
    \<forall>name \<in> set (tree_names tree). \<not> names_block_first v k name \<and> CHR ''/'' \<notin> set name \<Longrightarrow>
    keeps_direct k p s s'"
proof (induction tree arbitrary: s c)
  case Nil
  then show ?case by simp
next
  case (Cons d tree)
  obtain l1 dirs where d: "d = (l1, dirs)" by (cases d)
  show ?case
  proof (cases "length l1 = 2")
    case False
    then show ?thesis using Cons by (simp add: d tree_names_def)
  next
    case True
    let ?p = "path_join (x_root (en_cfg v)) l1"
    obtain x s1 where x: "scan_metadata_subdir v ?p dirs s = (x, s1)" by (cases "scan_metadata_subdir v ?p dirs s")
    have k1: "keeps_direct k p s s1"
      by (rule scan_subdir_keeps [OF assms x]) (use Cons.prems(2) in \<open>auto simp: d tree_names_def\<close>)
    obtain c2 where "scan_metadata v tree s1 = (c2, s')"
      using Cons.prems(1) x True by (auto simp: d split: prod.splits)
    with Cons have "keeps_direct k p s1 s'" by (simp add: d tree_names_def)
    with k1 show ?thesis by (rule keeps_direct_trans)
  qed
qed

subsection \<open>What the scan finds\<close>

lemma scan_files_append:
  "scan_files v dir (n1 @ n2) s =
     (case scan_files v dir n1 s of (Some e, s') \<Rightarrow> (Some e, s') | (None, s') \<Rightarrow> scan_files v dir n2 s')"
  by (induction n1 arbitrary: s) (auto split: prod.splits option.splits)

lemma scan_subdir_append:
  "scan_metadata_subdir v path (d1 @ d2) s =
     (case scan_metadata_subdir v path d1 s of
        (Some e, s') \<Rightarrow> (Some e, s')
      | (None, s') \<Rightarrow> scan_metadata_subdir v path d2 s')"
  by (induction v path d1 s rule: scan_metadata_subdir.induct) (auto split: prod.splits option.splits)

lemma scan_metadata_append:
  "scan_metadata v (t1 @ t2) s =
     (case scan_metadata v t1 s of (c, s') \<Rightarrow> (case scan_metadata v t2 s' of (c', s'') \<Rightarrow> (c + c', s'')))"
  by (induction v t1 s rule: scan_metadata.induct) (auto split: prod.splits)

lemma filter_all_but:
  assumes "filter P (xs @ y # ys) = [y]" "P y" "z \<in> set xs \<or> z \<in> set ys"
  shows "\<not> P z"
proof -
  have "length (filter P (xs @ y # ys)) = 1" using assms(1) by simp
  then have "length (filter P xs) + length (filter P ys) = 0" using assms(2) by simp
  then show ?thesis using assms(3) by (auto simp: filter_empty_conv)
qed

lemma published_name:
  assumes "en_key v (en_text v k) = Inr k" "name = quote (en_text v k) @ BLOCK_FIRST_SUFFIX"
  shows "names_block_first v k name" "CHR ''/'' \<notin> set name" "ends_with name DATA_SUFFIX"
proof -
  show "names_block_first v k name" using assms by (simp add: names_block_first_def name_key_def)
  show "CHR ''/'' \<notin> set name" using quote_no_slash by (simp add: assms(2) BLOCK_FIRST_SUFFIX_def)
  have "name = (quote (en_text v k) @ ''.block_first_v1'') @ DATA_SUFFIX"
    by (simp add: assms(2) BLOCK_FIRST_SUFFIX_def DATA_SUFFIX_def)
  then show "ends_with name DATA_SUFFIX" by (simp only: ends_with_append)
qed

lemma scan_finds_published:
  assumes tree: "tree = t1 @ (l1, d1 @ (l2, n1 @ name # n2) # d2) # t2" "length l1 = 2" "length l2 = 2"
    and one: "filter (names_block_first v k) (tree_names tree) = [name]" "names_block_first v k name"
      "\<forall>n \<in> set (tree_names tree). CHR ''/'' \<notin> set n"
    and p: "p = path_join (path_join (path_join (x_root (en_cfg v)) l1) l2) name" "ends_with (basename p) DATA_SUFFIX"
    and s1: "scan_metadata v t1 s0 = (c1, s1)"
    and s2: "scan_metadata_subdir v (path_join (x_root (en_cfg v)) l1) (d1 @ [(l2, n1)]) s1 = (None, s2)"
    and found: "\<And>s. w_files (ix_world s) p = w_files (ix_world s0) p \<Longrightarrow>
      scan_file v (path_join (path_join (x_root (en_cfg v)) l1) l2) name s = (None, add_scanned k e s)"
    and e: "e_disk e \<noteq> None"
  shows "\<exists>c s3. scan_metadata v tree s0 = (c, s3) \<and> map_of (ix_cache s3) k = Some e \<and>
    w_files (ix_world s3) p = w_files (ix_world s0) p"
proof -
  let ?r = "path_join (x_root (en_cfg v)) l1"
  let ?d = "path_join ?r l2"
  have names: "tree_names tree = (tree_names t1 @ concat (map snd d1) @ n1) @ name # (n2 @ concat (map snd d2) @ tree_names t2)"
    by (simp add: tree(1) tree_names_def)
  have others: "\<not> names_block_first v k z \<and> CHR ''/'' \<notin> set z"
    if "z \<in> set (tree_names t1 @ concat (map snd d1) @ n1) \<or> z \<in> set (n2 @ concat (map snd d2) @ tree_names t2)" for z
    using filter_all_but [OF one(1) [unfolded names] one(2) that] one(3) that by (auto simp: names)
  have dn: "?d \<noteq> []" by (rule path_join_nonempty) (use tree(3) in auto)
  have "keeps_direct k p s0 s1" by (rule scan_metadata_keeps [OF p(2) s1]) (use others in simp)
  moreover have "keeps_direct k p s1 s2" by (rule scan_subdir_keeps [OF p(2) s2]) (use others in auto)
  ultimately have w2: "w_files (ix_world s2) p = w_files (ix_world s0) p" by (simp add: keeps_direct_def)
  obtain sa where sa: "scan_metadata_subdir v ?r d1 s1 = (None, sa)" "scan_files v ?d n1 sa = (None, s2)"
    using s2 tree(3) by (auto simp: scan_subdir_append split: prod.splits option.splits)
  let ?s = "add_scanned k e s2"
  have at: "map_of (ix_cache ?s) k = Some e" "w_files (ix_world ?s) p = w_files (ix_world s0) p"
    using w2 by (simp_all add: add_scanned_def map_of_dict_put)
  obtain x sb where x: "scan_files v ?d n2 ?s = (x, sb)" by (cases "scan_files v ?d n2 ?s")
  have kb: "keeps_direct k p ?s sb" by (rule scan_files_keeps [OF _ dn p(2) x]) (use others in simp)
  have "scan_files v ?d (n1 @ name # n2) sa = (x, sb)"
    using sa(2) found [OF w2] x by (simp add: scan_files_append)
  then have run: "scan_metadata_subdir v ?r (d1 @ (l2, n1 @ name # n2) # d2) s1 =
      (case x of Some e \<Rightarrow> (Some e, sb) | None \<Rightarrow> scan_metadata_subdir v ?r d2 sb)"
    using sa(1) tree(3) by (simp add: scan_subdir_append split: option.splits)
  obtain y sc where y: "scan_metadata_subdir v ?r (d1 @ (l2, n1 @ name # n2) # d2) s1 = (y, sc)" "keeps_direct k p sb sc"
  proof (cases x)
    case (Some e')
    then show thesis using that run by simp
  next
    case None
    obtain y sc where y: "scan_metadata_subdir v ?r d2 sb = (y, sc)" by (cases "scan_metadata_subdir v ?r d2 sb")
    have "keeps_direct k p sb sc" by (rule scan_subdir_keeps [OF p(2) y]) (use others in simp)
    then show thesis using that run y None by simp
  qed
  obtain c2 s3 where s3: "scan_metadata v t2 sc = (c2, s3)" by (cases "scan_metadata v t2 sc")
  have "keeps_direct k p sc s3" by (rule scan_metadata_keeps [OF p(2) s3]) (use others in simp)
  with kb y(2) have "keeps_direct k p ?s s3" by (meson keeps_direct_trans)
  with at e have "map_of (ix_cache s3) k = Some e" "w_files (ix_world s3) p = w_files (ix_world s0) p"
    by (simp_all add: keeps_direct_def)
  moreover have "\<exists>c. scan_metadata v tree s0 = (c, s3)"
    using tree(2) s1 y(1) s3 by (simp add: tree(1) scan_metadata_append)
  ultimately show ?thesis by blast
qed

text \<open>
  C28: What a direct store has made visible survives a restart. After a successful store of a new key, a
  start-up scan over a directory tree that lists the published file finds, under the key that the file
  name decodes to, the very entry that the store had inserted, and the file with the size of the entry.
  This holds whatever else is listed, and whatever exceptions end the scan of other directories or of
  files that come later: what is assumed is that \<^verbatim>\<open>from_string\<close> takes back what \<^verbatim>\<open>to_string\<close> makes of
  this key, that the key is of this rank and its hash has at least four digits, that no other
  block-first file name decodes to the key, and that no exception ends the scan of the file's own
  first-level directory before the file is reached.
\<close>

theorem direct_put_survives_restart:
  assumes "torch_api_ok (x_torch (en_cfg v))" "x_block_first (en_cfg v)" "en_wr v = dds_write g"
    and "hd (x_shapes (en_cfg v)) ! 2 = x_chunk_size (en_cfg v)"
    and "map_of (ix_cache s) k = None" "batched_direct_put v [k] [Some d] s = (Inr [True], s')"
    and "en_key v (en_text v k) = Inr k" "en_worker v k = x_worker (en_cfg v)" "4 \<le> length (en_hash v k)"
    and "l1 = take 2 (en_hash v k)" "l2 = take 2 (drop 2 (en_hash v k))" "name = quote (en_text v k) @ BLOCK_FIRST_SUFFIX"
    and "tree = t1 @ (l1, d1 @ (l2, n1 @ name # n2) # d2) # t2"
    and "filter (names_block_first v k) (tree_names tree) = [name]"
    and "\<forall>n \<in> set (tree_names tree). CHR ''/'' \<notin> set n"
    and "w_files (ix_world s0) (path_of v True k) = w_files (ix_world s') (path_of v True k)"
    and "scan_metadata v t1 s0 = (c1, s1)"
    and "scan_metadata_subdir v (path_join (x_root (en_cfg v)) l1) (d1 @ [(l2, n1)]) s1 = (None, s2)"
  shows "\<exists>e c s3 f. map_of (ix_cache s') k = Some e \<and> scan_metadata v tree s0 = (c, s3) \<and>
    map_of (ix_cache s3) k = Some e \<and> w_files (ix_world s3) (e_path e) = Some f \<and> int (length f) = e_size e"
proof -
  obtain s4 m io where st: "run_direct_store_io v (path_of v True k) d (ix_io s4) = (Inr m, io)"
    "s' = remove_put_task k (insert_direct_key k (path_of v True k) m (s4\<lparr>ix_io := io\<rparr>))"
    by (rule new_key_stored [OF assms(5,6)])
  obtain header body where p: "make_direct_block_first_metadata (en_cfg v) = Inr m"
    "pack_block_first_header (x_torch (en_cfg v)) m = Inr header"
    "w_files (ds_world io) (path_of v True k) = Some (header @ body)"
    "int (length (header @ body)) = 4096 + m_io_nbytes m"
    using dds.run_direct_store_published [OF st(1) assms(3)] by blast
  have w: "ix_world s' = ds_world io" by (simp add: st(2) remove_put_task_def insert_direct_key_def)
  let ?e = "published_entry (path_of v True k) m"
  note nm = published_name [OF assms(7,12)]
  have path: "path_of v True k = path_join (path_join (path_join (x_root (en_cfg v)) l1) l2) name"
    by (simp add: path_of_def key_to_path_def assms(10-12))
  have len: "length l1 = 2" "length l2 = 2" using assms(9) by (simp_all add: assms(10,11))
  have dn: "path_join (path_join (x_root (en_cfg v)) l1) l2 \<noteq> []" by (rule path_join_nonempty) (use len in auto)
  have base: "ends_with (basename (path_of v True k)) DATA_SUFFIX"
    using nm(3) by (simp add: path basename_path_join [OF nm(2) dn])
  have found: "scan_file v (path_join (path_join (x_root (en_cfg v)) l1) l2) name s = (None, add_scanned k ?e s)"
    if "w_files (ix_world s) (path_of v True k) = w_files (ix_world s0) (path_of v True k)" for s
  proof -
    have "read_block_first_metadata v k (path_of v True k) s = (Inr ?e, add_scanned k ?e s)"
      by (rule published_file_read [OF assms(1,2) p(1,2) _ p(4) assms(4)]) (simp add: that assms(16) w p(3))
    then show ?thesis
      using nm(1) assms(2,8) by (simp add: scan_file_def scan_entry_def names_block_first_def path)
  qed
  obtain c s3 where "scan_metadata v tree s0 = (c, s3)" "map_of (ix_cache s3) k = Some ?e"
    "w_files (ix_world s3) (path_of v True k) = w_files (ix_world s0) (path_of v True k)"
    using scan_finds_published [OF assms(13) len assms(14) nm(1) assms(15) path base assms(17,18) found]
    by (auto simp: published_entry_def)
  moreover have "map_of (ix_cache s') k = Some ?e"
    by (simp add: st(2) remove_put_task_def insert_direct_key_def published_entry_def map_of_dict_put)
  ultimately show ?thesis
    using p(3,4) assms(16) w by (auto simp: published_entry_def BLOCK_FIRST_HEADER_SIZE_def)
qed

section \<open>A concrete backend\<close>

text \<open>
  First in, first out, among the unpinned; the direct configuration of \<open>Direct_Delivery\<close>, whose chunks
  are files of 12288 bytes under a quota of 20000; and an empty index, whose next call to the operating
  system fails when \<open>broken\<close>.
\<close>

definition fifo_policy :: "('k, unit) policy" where
  "fifo_policy =
     \<lparr>pol_hit = (\<lambda>k p c. (None, p, c)), pol_put = (\<lambda>k p. p), pol_forget = (\<lambda>k p. p),
      pol_candidates = (\<lambda>p c. (take 1 (map fst (filter (\<lambda>(k, e). e_pins e \<le> 0) c)), p))\<rparr>"

lemma filter_unpinned: "distinct (map fst c) \<Longrightarrow> k \<in> fst ` set (filter (\<lambda>(k, e). e_pins e \<le> 0) c) \<longleftrightarrow> evictable c k"
  by (force simp: evictable_def)

lemma fifo_policy_ok: "policy_ok (fifo_policy :: ('k, unit) policy)"
proof -
  have "length ks \<le> 1 \<and> (\<forall>k \<in> set ks. evictable c k) \<and> (ks = [] \<longrightarrow> (\<forall>k. \<not> evictable c k))"
    if d: "distinct (map fst c)" and ks: "ks = take 1 (map fst (filter (\<lambda>(k, e). e_pins e \<le> 0) c))"
    for c :: "'k cache" and ks
  proof (cases "filter (\<lambda>(k, e). e_pins e \<le> 0) c")
    case Nil
    then show ?thesis using filter_unpinned [OF d] ks by auto
  next
    case (Cons x xs)
    then show ?thesis using filter_unpinned [OF d, of "fst x"] ks by auto
  qed
  then show ?thesis by (auto simp: policy_ok_def fifo_policy_def)
qed

definition demo_env :: "(nat, demo_dtype, unit) env" where
  "demo_env =
     \<lparr>en_cfg = direct_cfg, en_policy = fifo_policy, en_rd = dds_read demo_dds, en_wr = dds_write demo_dds,
      en_staging = None, en_base = 0, en_fs_block = 4096, en_hash = (\<lambda>_. ''00000000''), en_text = (\<lambda>_. ''k''), en_key = (\<lambda>_. Inr 0), en_worker = (\<lambda>_. 1),
      en_allocator = True, en_isize = (\<lambda>_. 2), en_memory = 100\<rparr>"

definition demo_index :: "bool \<Rightarrow> (nat, demo_dtype, unit) index" where
  "demo_index broken =
     \<lparr>ix_cache = [], ix_policy = (), ix_tasks = [], ix_jobs = [], ix_size = 0, ix_request = [], ix_refs = (\<lambda>_. 0),
      ix_io = (direct_state_of [])\<lparr>ds_world := (ds_world (direct_state_of []))\<lparr>w_os := if broken then [Os_raise] else []\<rparr>\<rparr>\<rparr>"

definition demo_obj :: "demo_dtype mem_obj" where
  "demo_obj =
     \<lparr>mo_id = 7, mo_chunk = Some \<lparr>t_shape = [2, 1, 4, 512], t_data = [], t_contiguous = True, t_dtype = Float16,
        t_device = demo_device\<rparr>,
      mo_size = 8192, mo_physical = 8192, mo_bytes = [], mo_address = 0, mo_shape = [2, 1, 4, 512], mo_dtype = ''float16''\<rparr>"

lemma demo_env_cfg: "en_cfg demo_env = direct_cfg" "en_policy demo_env = fifo_policy" "en_allocator demo_env"
    "en_wr demo_env = dds_write demo_dds" "x_max_size direct_cfg = Some 20000" "x_direct direct_cfg" "x_direct_store direct_cfg"
    "x_block_first direct_cfg" "x_shapes direct_cfg = [[2, 1, 4, 512]]" "x_chunk_size direct_cfg = 4" "x_torch direct_cfg = demo_torch"
  by (simp_all add: demo_env_def direct_cfg_def demo_cfg_def)

lemma demo_fresh: "fresh_index (demo_index broken)"
  by (simp add: fresh_index_def demo_index_def)

lemma demo_obj_block_first:
  "use_block_first_for_tensor direct_cfg (the (mo_chunk demo_obj)) = Inr True" "mo_chunk demo_obj \<noteq> None"
  by (simp_all add: use_block_first_for_tensor_def direct_cfg_def demo_cfg_def demo_obj_def)

lemma demo_required: "required_store_size demo_env demo_obj = Inr 12288"
  using demo_obj_block_first
  by (auto simp: required_store_size_def demo_env_cfg demo_obj_def align_up_def BLOCK_FIRST_ALIGNMENT_def
      BLOCK_FIRST_HEADER_SIZE_def)

lemma demo_obj_ok: "mem_obj_ok demo_env demo_obj"
  by (simp add: mem_obj_ok_def demo_obj_def demo_env_cfg demo_torch_def)

lemma demo_submitted:
  "\<exists>s1. submit_put_task demo_env 0 demo_obj (demo_index broken) = (None, s1) \<and> length (ix_jobs s1) = 1 \<and>
    ix_world s1 = ix_world (demo_index broken) \<and> ix_size s1 = 12288"
proof -
  have "reserve demo_env 12288 (insert_put_task 0 (demo_index broken)) =
      (Inr True, set_world (ix_world (demo_index broken)) (insert_put_task 0 (demo_index broken)\<lparr>ix_size := 12288\<rparr>))"
    by (simp add: reserve_def eviction_def evict_loop.simps demo_env_cfg demo_index_def insert_put_task_def set_world_def)
  then show ?thesis
    using demo_required demo_obj_block_first(2)
    by (simp add: submit_put_task_def demo_env_cfg exists_in_put_tasks_def demo_index_def count_ref_def
        insert_put_task_def set_world_def)
qed

section \<open>Witnesses\<close>

theorem index_accounting_witness:
  "\<exists>s. xds_run demo_env False (demo_index False) s \<and> length (ix_jobs s) = 1 \<and>
    dict_sum e_size (ix_cache s) + sum_list (map j_reserved (ix_jobs s)) \<le> 20000"
proof -
  obtain s1 where s1: "submit_put_task demo_env 0 demo_obj (demo_index False) = (None, s1)" "length (ix_jobs s1) = 1"
    using demo_submitted by blast
  have "xds_run demo_env False (demo_index False) s1"
    by (rule xds_run.step [OF xds_run.start xds_step.submitted [of "[(0, demo_obj)]"]]) (simp_all add: s1 demo_obj_ok)
  moreover from index_accounting [OF _ demo_fresh this]
  have "dict_sum e_size (ix_cache s1) + sum_list (map j_reserved (ix_jobs s1)) \<le> 20000"
    using fifo_policy_ok demo_env_cfg by fastforce
  ultimately show ?thesis using s1(2) by blast
qed

text \<open>An index with one unpinned entry that has to go, and a pinned one.\<close>

definition demo_entry :: "int \<Rightarrow> int \<Rightarrow> entry" where
  "demo_entry n pins = \<lparr>e_path = ''/xds/f'', e_size = n, e_shape = [], e_dtype = ''float16'', e_pins = pins, e_disk = None\<rparr>"

definition demo_full :: "(nat, demo_dtype, unit) index" where
  "demo_full = (demo_index False)\<lparr>ix_cache := [(1, demo_entry 4096 1), (2, demo_entry 12288 0)], ix_size := 16384\<rparr>"

theorem eviction_contract_witness:
  "\<exists>ok s'. eviction demo_env 20000 12288 demo_full = (Inr ok, s') \<and> map_of (ix_cache s') 1 = Some (demo_entry 4096 1)"
proof -
  have inv: "index_inv demo_env True 0 demo_full"
    by (simp add: index_inv_def demo_full_def demo_entry_def demo_index_def charged_def dict_sum_def within_quota_def
        demo_env_cfg)
  have p: "policy_ok (en_policy demo_env)" by (simp add: demo_env_cfg fifo_policy_ok)
  have m: "map_of (ix_cache demo_full) 1 = Some (demo_entry 4096 1)" "0 < e_pins (demo_entry 4096 1)"
    by (simp_all add: demo_full_def demo_entry_def)
  have "x_max_size (en_cfg demo_env) = Some 20000" by (simp add: demo_env_cfg)
  note c = eviction_contract [OF p inv _ this, of 12288, simplified]
  then obtain ok s' where "eviction demo_env 20000 12288 demo_full = (Inr ok, s')"
    "\<forall>k e. map_of (ix_cache demo_full) k = Some e \<longrightarrow> 0 < e_pins e \<longrightarrow> map_of (ix_cache s') k = Some e"
    by blast
  with m show ?thesis by blast
qed

theorem failed_put_leaves_no_trace_witness:
  "\<exists>s1 r s2. submit_put_task demo_env 0 demo_obj (demo_index True) = (None, s1) \<and>
    run_put_job demo_env 0 s1 = (r, s2) \<and> ix_size s1 \<noteq> ix_size s2 \<and> ix_size s2 = 0 \<and> ix_tasks s2 = []"
proof -
  obtain t where t: "mo_chunk demo_obj = Some t" "use_block_first_for_tensor (en_cfg demo_env) t = Inr True"
    using demo_obj_block_first demo_env_cfg by (metis option.collapse)
  obtain s1 where s1: "submit_put_task demo_env 0 demo_obj (demo_index True) = (None, s1)" "length (ix_jobs s1) = 1"
    "ix_world s1 = ix_world (demo_index True)" "ix_size s1 = 12288"
    using demo_submitted by blast
  obtain r s2 where r: "run_put_job demo_env 0 s1 = (r, s2)" by (cases "run_put_job demo_env 0 s1")
  have i: "ix_cache (demo_index True) = []" "ix_tasks (demo_index True) = []" "ix_jobs (demo_index True) = []"
    "ix_size (demo_index True) = 0" "w_os (ix_world (demo_index True)) = [Os_raise]"
    by (simp_all add: demo_index_def)
  have f: "fst (store_files demo_env (path_of demo_env True 0) True demo_obj t (ix_world s1)) = Inl (OSError ''makedirs'')"
    by (simp add: store_files_def make_directories_def os_call_def s1(3) i)
  have n: "ix_jobs s1 \<noteq> ix_jobs (demo_index True)" using s1(2) i by auto
  have "r = None \<and> ix_cache s2 = ix_cache (demo_index True) \<and> ix_size s2 = ix_size (demo_index True) \<and>
      ix_tasks s2 = ix_tasks (demo_index True) \<and> ix_jobs s2 = ix_jobs (demo_index True) \<and> ix_refs s2 = ix_refs (demo_index True)"
    by (rule failed_put_leaves_no_trace [OF _ _ s1(1) n _ t f]) (simp_all add: i r demo_required demo_env_cfg)
  then show ?thesis using s1 r i by simp
qed

definition demo_tree :: "(string \<times> (string \<times> string list) list) list" where
  "demo_tree = [(''00'', [(''00'', [''a.KVDATA'', quote ''k'' @ BLOCK_FIRST_SUFFIX])])]"

theorem direct_put_survives_restart_witness:
  "\<exists>s' e c s3. batched_direct_put demo_env [0] [Some (direct_demo_descriptor STORE 0)] (demo_index False) = (Inr [True], s') \<and>
    map_of (ix_cache s') 0 = Some e \<and>
    scan_metadata demo_env demo_tree ((demo_index False)\<lparr>ix_io := ix_io s'\<rparr>) = (c, s3) \<and> map_of (ix_cache s3) 0 = Some e"
proof -
  let ?d = "direct_demo_descriptor STORE 0" and ?s = "demo_index False" and ?p = "path_of demo_env True 0"
  obtain m where m: "make_direct_block_first_metadata direct_cfg = Inr m" "m_io_nbytes m = 8192"
    using direct_demo_made by blast
  moreover obtain m' io where "make_direct_block_first_metadata direct_cfg = Inr m'"
    "save_direct_xds (dds_write demo_dds) direct_cfg ?p ?d (direct_state_of []) = (Inr m', io)"
    using direct_demo_saved by blast
  ultimately have sv: "save_direct_xds (dds_write demo_dds) direct_cfg ?p ?d (direct_state_of []) = (Inr m, io)" by simp
  have i: "ix_cache ?s = []" "ix_tasks ?s = []" "ix_size ?s = 0" "ix_io ?s = direct_state_of []" "ix_jobs ?s = []"
    by (simp_all add: demo_index_def direct_state_of_def demo_world_def)
  have "w_os (ds_world (direct_state_of [])) = []" by (simp add: direct_state_of_def demo_world_def)
  then have md: "make_directories (ds_world (direct_state_of [])) = (None, ds_world (direct_state_of []))"
    by (simp add: make_directories_def os_call_def)
  have run: "run_direct_store_io demo_env ?p ?d (direct_state_of []) = (Inr m, io)"
    using sv by (simp add: run_direct_store_io_def md demo_env_cfg)
  have rs: "reserve demo_env 12288 (insert_put_task 0 ?s) = (Inr True, insert_put_task 0 ?s\<lparr>ix_size := 12288\<rparr>)"
    by (simp add: reserve_def eviction_def evict_loop.simps demo_env_cfg i insert_put_task_def set_world_def)
  obtain s' where "direct_put_round demo_env False 0 0 (Some ?d) ?s = (Inr (Inl True), s')"
    using m rs run
    by (simp add: direct_put_round_def demo_env_cfg i remove_key_def exists_in_put_tasks_def Let_def
        BLOCK_FIRST_HEADER_SIZE_def settle_store_def insert_put_task_def)
  then have put: "batched_direct_put demo_env [0] [Some ?d] ?s = (Inr [True], s')"
    by (simp add: batched_direct_put_def demo_env_cfg)
  let ?n = "quote ''k'' @ BLOCK_FIRST_SUFFIX" and ?t = "''a.KVDATA''" and ?restarted = "?s\<lparr>ix_io := ix_io s'\<rparr>"
  have k: "en_key demo_env (en_text demo_env 0) = Inr 0" "en_worker demo_env 0 = x_worker (en_cfg demo_env)"
    "4 \<le> length (en_hash demo_env 0)" "''00'' = take 2 (en_hash demo_env 0)" "''00'' = take 2 (drop 2 (en_hash demo_env 0))"
    "?n = quote (en_text demo_env 0) @ BLOCK_FIRST_SUFFIX"
    by (simp_all add: demo_env_def direct_cfg_def demo_cfg_def)
  have tree: "demo_tree = [] @ (''00'', [] @ (''00'', [?t] @ ?n # []) # []) # []" by (simp add: demo_tree_def)
  have tmp: "\<not> ends_with ?t BLOCK_FIRST_SUFFIX" "ends_with ?t DATA_SUFFIX_TMP"
    "\<not> ends_with ?t (DATA_SUFFIX @ METADATA_SUFFIX)"
    by (simp_all add: ends_with_def BLOCK_FIRST_SUFFIX_def DATA_SUFFIX_TMP_def DATA_SUFFIX_def METADATA_SUFFIX_def)
  note nm = published_name [OF k(1,6)]
  have names: "filter (names_block_first demo_env 0) (tree_names demo_tree) = [?n]"
    "\<forall>n \<in> set (tree_names demo_tree). CHR ''/'' \<notin> set n"
    using nm tmp(1) by (simp_all add: tree_names_def demo_tree_def names_block_first_def)
  have prior: "scan_metadata_subdir demo_env (path_join (x_root (en_cfg demo_env)) ''00'') ([] @ [(''00'', [?t])]) ?restarted = (None, ?restarted)"
    using tmp by (simp add: scan_file_def Let_def)
  have cfg: "torch_api_ok (x_torch (en_cfg demo_env))" "x_block_first (en_cfg demo_env)"
    "hd (x_shapes (en_cfg demo_env)) ! 2 = x_chunk_size (en_cfg demo_env)" "map_of (ix_cache ?s) 0 = None"
    using demo_torch_ok by (simp_all add: demo_env_cfg i)
  have same: "w_files (ix_world ?restarted) ?p = w_files (ix_world s') ?p" "scan_metadata demo_env [] ?restarted = (0, ?restarted)" by simp_all
  from direct_put_survives_restart [OF cfg(1,2) demo_env_cfg(4) cfg(3,4) put k tree names same prior]
  show ?thesis using put by blast
qed

end
