(* ===== verification/Vllm_Tracker.thy ===== *)
theory Vllm_Tracker
  imports Py_Hash Py_Text
begin

text \<open>
  What the vLLM connector knows of a request (\<^verbatim>\<open>RequestTracker\<close>, \<^verbatim>\<open>ReqMeta\<close> and the specifications of
  \<^verbatim>\<open>integration/vllm/vllm_v1_adapter.py\<close>) and the rewriting of multimodal placeholders
  (\<^verbatim>\<open>integration/vllm/utils.py\<close>). A tracker grows with the tokens that vLLM schedules; each time it is
  turned into the request's metadata for the workers: which tokens to save, to load, and in which slots
  of the paged KV memory they lie.
\<close>

section \<open>Python helpers\<close>

text \<open>\<open>xs[:n]\<close>, for any \<open>n\<close>.\<close>

definition py_prefix :: "'a list \<Rightarrow> int \<Rightarrow> 'a list" where
  "py_prefix xs n = (if n < 0 then take (length xs - nat (- n)) xs else take (nat n) xs)"

lemma py_prefix_nonneg [simp]: "0 \<le> n \<Longrightarrow> py_prefix xs n = take (nat n) xs"
  by (simp add: py_prefix_def)

lemma length_py_prefix: "0 \<le> n \<Longrightarrow> length (py_prefix xs n) = min (length xs) (nat n)"
  by simp

definition starts_with :: "string \<Rightarrow> string \<Rightarrow> bool" where
  "starts_with s pre \<longleftrightarrow> take (length pre) s = pre"

section \<open>Multimodal placeholders\<close>

text \<open>
  A 16-bit value of an identifier: its hexadecimal value modulo \<open>2 ^ 16\<close>, or the first two bytes of its
  SHA-256. \<open>stripped\<close> is \<^verbatim>\<open>s.strip()\<close>.
\<close>

definition is_hex_digit :: "char \<Rightarrow> bool" where
  "is_hex_digit c \<longleftrightarrow> c \<in> set ''0123456789abcdefABCDEF''"

definition hex_value :: "char \<Rightarrow> nat" where
  "hex_value c =
     (let n = of_char c in if n \<le> 57 then n - 48 else if n \<le> 70 then n - 55 else n - 87)"

definition hex_number :: "string \<Rightarrow> nat" where
  "hex_number s = foldl (\<lambda>n c. 16 * n + hex_value c) 0 s"

definition whitespace :: "char \<Rightarrow> bool" where
  "whitespace c \<longleftrightarrow> (of_char c :: nat) \<in> {9, 10, 11, 12, 13, 28, 29, 30, 31, 32, 133, 160}"

definition py_strip :: "string \<Rightarrow> string" where
  "py_strip s = rev (dropWhile whitespace (rev (dropWhile whitespace s)))"

definition hex_part_of :: "string \<Rightarrow> string" where
  "hex_part_of s = (if take 2 s \<in> {''0x'', ''0X''} then drop 2 s else s)"

definition hex_hash_to_int16 :: "string \<Rightarrow> int" where
  "hex_hash_to_int16 s =
     (let stripped = py_strip s; part = hex_part_of stripped in
      if part \<noteq> [] \<and> list_all is_hex_digit part then int (hex_number part mod 65536)
      else int (hex_number (take 4 (sha256_hexdigest (map byte_of_char stripped)))))"

text \<open>Hashes with their placeholder ranges (offset and length); the assignments are slice by slice.\<close>

type_synonym mm_feature = "string \<times> int \<times> int"

definition fill_range :: "int \<Rightarrow> int \<Rightarrow> int \<Rightarrow> int list \<Rightarrow> int list" where
  "fill_range a b x ts = map (\<lambda>(i, t). if a \<le> int i \<and> int i < b then x else t) (enumerate 0 ts)"

fun apply_mm_hashes_to_token_ids :: "int list \<Rightarrow> mm_feature list \<Rightarrow> int list" where
  "apply_mm_hashes_to_token_ids ts [] = ts"
| "apply_mm_hashes_to_token_ids ts ((h, start, n) # rest) =
     (if int (length ts) \<le> start then apply_mm_hashes_to_token_ids ts rest
      else apply_mm_hashes_to_token_ids
        (fill_range start (min (start + n) (int (length ts))) (hex_hash_to_int16 h) ts) rest)"

lemma length_fill_range [simp]: "length (fill_range a b x ts) = length ts"
  by (simp add: fill_range_def)

lemma length_apply_mm [simp]: "length (apply_mm_hashes_to_token_ids ts mm) = length ts"
  by (induction ts mm rule: apply_mm_hashes_to_token_ids.induct) simp_all

section \<open>Data\<close>

record load_spec =
  ls_vllm :: int
  ls_lmcache :: int
  ls_can_load :: bool

record save_spec =
  sv_skip :: int
  sv_can :: bool

record disagg_spec =
  dg_req_id :: string
  dg_receiver_id :: string
  dg_host :: string
  dg_init_port :: int
  dg_alloc_port :: int
  dg_last_prefill :: bool
  dg_transferred :: int

type_synonym 'v configs = "(string \<times> 'v) list"

record 'v tracker =
  tk_id :: string
  tk_prompt_len :: int
  tk_tokens :: "int list"
  tk_blocks :: "int list"
  tk_saved :: int
  tk_disagg :: "disagg_spec option"
  tk_mm :: "mm_feature list"
  tk_configs :: "'v configs option"
  tk_decode :: bool
  tk_skip_save :: bool
  tk_cached :: int

record 'v req_meta =
  rm_id :: string
  rm_tokens :: "int list"
  rm_slots :: "int list"
  rm_last_prefill :: bool
  rm_save :: "save_spec option"
  rm_load :: "load_spec option"
  rm_disagg :: "disagg_spec option"
  rm_configs :: "'v configs option"

text \<open>
  The settings of the connector; \<open>a_cdiv\<close> and \<open>a_mm\<close> are LMCache's ceiling division and its rewriting of
  multimodal placeholders, \<open>a_true\<close> is Python's truth value of a configuration value.
\<close>

record 'v adapter =
  a_role :: string
  a_block_size :: int
  a_chunk :: int
  a_discard_partial :: bool
  a_save_decode :: bool
  a_min_retrieve :: int
  a_priority_limit :: "int option"
  a_force_skip_save :: bool
  a_skip_last :: int
  a_blending :: bool
  a_last_rank :: bool
  a_true :: "'v \<Rightarrow> bool"
  a_cdiv :: "int \<Rightarrow> int \<Rightarrow> int"
  a_mm :: "int list \<Rightarrow> mm_feature list \<Rightarrow> int list"

text \<open>What is known of LMCache's two helpers, and sizes that make sense.\<close>

definition adapter_ok :: "'v adapter \<Rightarrow> bool" where
  "adapter_ok a \<longleftrightarrow> 0 < a_block_size a \<and> 0 < a_chunk a \<and>
     (\<forall>x. 0 \<le> x \<longrightarrow> x \<le> a_cdiv a x (a_chunk a) * a_chunk a \<and> a_cdiv a x (a_chunk a) * a_chunk a < x + a_chunk a) \<and>
     (\<forall>ts mm. length (a_mm a ts mm) = length ts)"

section \<open>Requests\<close>

text \<open>Only keys with the prefix \<^verbatim>\<open>lmcache.\<close> are kept, and no dictionary at all when there is none.\<close>

definition extract_request_configs :: "'v configs option \<Rightarrow> 'v configs option" where
  "extract_request_configs params =
     (case params of
        None \<Rightarrow> None
      | Some kvs \<Rightarrow>
          let kept = filter (\<lambda>(k, v). starts_with k ''lmcache.'') kvs
          in if kept = [] then None else Some kept)"

text \<open>Block identifiers as vLLM passes them: a tuple with a list per cache group, or a list whose elements
  are identifiers or lists of them.\<close>

datatype block_ids = Block_tuple "int list list" | Block_list "(int + int list) list"

record 'v new_request =
  nr_id :: string
  nr_prompt :: "int list"
  nr_blocks :: block_ids
  nr_computed :: int
  nr_params :: "'v configs option"
  nr_mm :: "mm_feature list"

fun plain_ids :: "(int + int list) list \<Rightarrow> int list option" where
  "plain_ids [] = Some []"
| "plain_ids (Inl b # bs) = map_option ((#) b) (plain_ids bs)"
| "plain_ids (Inr _ # bs) = None"

definition unfold_block_ids :: "block_ids \<Rightarrow> int list res" where
  "unfold_block_ids b =
     (case b of
        Block_tuple [] \<Rightarrow> Inl IndexError
      | Block_tuple (g # gs) \<Rightarrow> Inr g
      | Block_list [] \<Rightarrow> Inl IndexError
      | Block_list (Inr g # bs) \<Rightarrow> Inr g
      | Block_list (Inl x # bs) \<Rightarrow>
          (case plain_ids (Inl x # bs) of Some ids \<Rightarrow> Inr ids | None \<Rightarrow> Inl (ValueError ''block_ids'')))"

definition flatten_new_blocks :: "block_ids option \<Rightarrow> int list" where
  "flatten_new_blocks b =
     (case b of
        None \<Rightarrow> []
      | Some (Block_tuple []) \<Rightarrow> []
      | Some (Block_tuple (g # gs)) \<Rightarrow> g
      | Some (Block_list bs) \<Rightarrow> concat (map (case_sum (\<lambda>i. [i]) (\<lambda>is. is)) bs))"

text \<open>\<open>dis\<close> is what is taken out of the table of pending disaggregation specifications.\<close>

definition from_new_request ::
    "'v new_request \<Rightarrow> int \<Rightarrow> int \<Rightarrow> bool \<Rightarrow> disagg_spec option \<Rightarrow> 'v tracker res" where
  "from_new_request nr num_to_compute cached skip dis =
     (case unfold_block_ids (nr_blocks nr) of
        Inl e \<Rightarrow> Inl e
      | Inr blocks \<Rightarrow>
          Inr \<lparr>tk_id = nr_id nr, tk_prompt_len = int (length (nr_prompt nr)),
               tk_tokens = py_prefix (nr_prompt nr) num_to_compute, tk_blocks = blocks, tk_saved = cached,
               tk_disagg = dis, tk_mm = nr_mm nr, tk_configs = extract_request_configs (nr_params nr),
               tk_decode = False, tk_skip_save = skip, tk_cached = cached\<rparr>)"

definition tracker_update ::
    "'v tracker \<Rightarrow> int list \<Rightarrow> block_ids option \<Rightarrow> bool \<Rightarrow> int \<Rightarrow> int \<Rightarrow> int list option \<Rightarrow> 'v tracker res" where
  "tracker_update tk new_tokens new_blocks preempted cached vllm all_tokens =
     (let blocks = flatten_new_blocks new_blocks;
          moved = (if preempted then
                     case all_tokens of
                       None \<Rightarrow> Inl (AssertionError ''all_token_ids'')
                     | Some ts \<Rightarrow>
                         let computed = max cached vllm;
                             needed = max (computed + int (length new_tokens)) cached
                         in Inr (tk\<lparr>tk_blocks := blocks, tk_saved := cached, tk_tokens := py_prefix ts needed\<rparr>)
                   else Inr (tk\<lparr>tk_blocks := tk_blocks tk @ blocks, tk_tokens := tk_tokens tk @ new_tokens\<rparr>))
      in case moved of
           Inl e \<Rightarrow> Inl e
         | Inr tk' \<Rightarrow> Inr (if length new_tokens = 1 then tk'\<lparr>tk_decode := True\<rparr> else tk'))"

section \<open>Metadata for the workers\<close>

definition request_skip :: "'v adapter \<Rightarrow> 'v tracker \<Rightarrow> bool" where
  "request_skip a tk =
     (case tk_configs tk of
        None \<Rightarrow> False
      | Some kvs \<Rightarrow> (case map_of kvs ''lmcache.skip_save'' of None \<Rightarrow> False | Some v \<Rightarrow> a_true a v))"

definition skips_save :: "'v adapter \<Rightarrow> 'v tracker \<Rightarrow> bool" where
  "skips_save a tk \<longleftrightarrow>
     (let boundary = a_cdiv a (tk_saved tk + 1) (a_chunk a) * a_chunk a
      in tk_disagg tk = None \<and>
         (tk_skip_save tk \<or> (0 < tk_saved tk \<and> int (length (tk_tokens tk)) < boundary) \<or>
          (tk_decode tk \<and> \<not> a_save_decode a) \<or> request_skip a tk))"

definition last_prefill :: "'v tracker \<Rightarrow> bool" where
  "last_prefill tk \<longleftrightarrow> tk_prompt_len tk \<le> int (length (tk_tokens tk))"

definition tokens_to_save :: "'v adapter \<Rightarrow> 'v tracker \<Rightarrow> int" where
  "tokens_to_save a tk =
     (let n = int (length (tk_tokens tk))
      in if \<not> last_prefill tk \<or> a_discard_partial a then n div a_chunk a * a_chunk a else n)"

definition slots_of_blocks :: "int \<Rightarrow> int list \<Rightarrow> int list" where
  "slots_of_blocks bs blocks = concat (map (\<lambda>b. map (\<lambda>i. int i + b * bs) [0..<nat bs]) blocks)"

definition from_request_tracker ::
    "'v adapter \<Rightarrow> 'v tracker \<Rightarrow> load_spec option \<Rightarrow> 'v req_meta option \<times> 'v tracker" where
  "from_request_tracker a tk load =
     (let skip = skips_save a tk; n = tokens_to_save a tk in
      if skip \<and> load = None then (None, tk)
      else
        let tk' = (if skip then tk else tk\<lparr>tk_saved := n\<rparr>);
            plain = py_prefix (tk_tokens tk) n;
            tokens = (if tk_mm tk \<noteq> [] then a_mm a plain (tk_mm tk) else plain);
            slots = take (length tokens) (slots_of_blocks (a_block_size a) (tk_blocks tk))
        in (Some \<lparr>rm_id = tk_id tk, rm_tokens = tokens, rm_slots = slots, rm_last_prefill = last_prefill tk,
                  rm_save = Some \<lparr>sv_skip = tk_saved tk, sv_can = \<not> skip\<rparr>, rm_load = load,
                  rm_disagg = tk_disagg tk, rm_configs = tk_configs tk\<rparr>, tk'))"

section \<open>Where the tokens lie\<close>

lemma length_slots_of_blocks: "length (slots_of_blocks bs blocks) = length blocks * nat bs"
  by (induction blocks) (simp_all add: slots_of_blocks_def)

lemma nth_slots_of_blocks:
  assumes "0 < bs" "p < length blocks * nat bs"
  shows "slots_of_blocks bs blocks ! p = blocks ! (p div nat bs) * bs + int (p mod nat bs)"
  using assms(2)
proof (induction blocks arbitrary: p)
  case Nil
  then show ?case by simp
next
  case (Cons b blocks)
  have pos: "0 < nat bs" using assms(1) by simp
  show ?case
  proof (cases "p < nat bs")
    case True
    then show ?thesis by (simp add: slots_of_blocks_def nth_append)
  next
    case False
    then have p: "p = (p - nat bs) + nat bs" by simp
    have d: "p div nat bs = Suc ((p - nat bs) div nat bs)" "p mod nat bs = (p - nat bs) mod nat bs"
      using False pos by (simp_all add: le_div_geq le_mod_geq)
    have "p - nat bs < length blocks * nat bs" using Cons.prems False by simp
    from Cons.IH [OF this] show ?thesis
      using False d by (simp add: slots_of_blocks_def nth_append)
  qed
qed

lemma from_request_tracker_fields:
  assumes "from_request_tracker a tk load = (Some m, tk')"
  shows "length (rm_tokens m) = length (py_prefix (tk_tokens tk) (tokens_to_save a tk)) \<or> \<not> adapter_ok a"
    and "rm_slots m = take (length (rm_tokens m)) (slots_of_blocks (a_block_size a) (tk_blocks tk))"
    and "tk_mm tk = [] \<Longrightarrow> rm_tokens m = py_prefix (tk_tokens tk) (tokens_to_save a tk)"
    and "rm_save m = Some \<lparr>sv_skip = tk_saved tk, sv_can = \<not> skips_save a tk\<rparr>" "rm_load m = load"
    and "rm_last_prefill m = last_prefill tk" "rm_id m = tk_id tk" "rm_disagg m = tk_disagg tk"
    and "tk' = (if skips_save a tk then tk else tk\<lparr>tk_saved := tokens_to_save a tk\<rparr>)"
  using assms by (auto simp: from_request_tracker_def Let_def adapter_ok_def split: if_splits)

lemma tokens_to_save_bounds:
  assumes "adapter_ok a"
  shows "0 \<le> tokens_to_save a tk" "tokens_to_save a tk \<le> int (length (tk_tokens tk))"
proof -
  have c: "0 < a_chunk a" using assms by (simp add: adapter_ok_def)
  have "int (length (tk_tokens tk)) div a_chunk a * a_chunk a \<le> int (length (tk_tokens tk))"
    using c by (simp add: minus_mod_eq_div_mult [symmetric])
  moreover have "0 \<le> int (length (tk_tokens tk)) div a_chunk a * a_chunk a"
    using c by (simp add: pos_imp_zdiv_nonneg_iff)
  ultimately show "0 \<le> tokens_to_save a tk" "tokens_to_save a tk \<le> int (length (tk_tokens tk))"
    by (simp_all add: tokens_to_save_def Let_def)
qed

text \<open>A concrete connector: blocks of two tokens, chunks of four.\<close>

definition demo_adapter :: "bool adapter" where
  "demo_adapter =
     \<lparr>a_role = ''kv_both'', a_block_size = 2, a_chunk = 4, a_discard_partial = False, a_save_decode = False,
      a_min_retrieve = 0, a_priority_limit = None, a_force_skip_save = False, a_skip_last = 0, a_blending = False,
      a_last_rank = True, a_true = (\<lambda>b. b), a_cdiv = (\<lambda>x y. (x + y - 1) div y), a_mm = apply_mm_hashes_to_token_ids\<rparr>"

lemma demo_adapter_ok: "adapter_ok demo_adapter"
proof -
  have "x \<le> (x + 4 - 1) div 4 * 4 \<and> (x + 4 - 1) div 4 * 4 < x + 4" for x :: int by presburger
  then show ?thesis by (simp add: adapter_ok_def demo_adapter_def)
qed

definition demo_tracker :: "bool tracker" where
  "demo_tracker =
     \<lparr>tk_id = ''r'', tk_prompt_len = 8, tk_tokens = [11, 12, 13, 14, 15, 16], tk_blocks = [5, 3, 7, 2], tk_saved = 0,
      tk_disagg = None, tk_mm = [], tk_configs = None, tk_decode = False, tk_skip_save = False, tk_cached = 0\<rparr>"

end
