(* ===== verification/Vllm_Scheduler.thy ===== *)
theory Vllm_Scheduler
  imports Vllm_Tracker Py_Json
begin

text \<open>
  The scheduler side of the vLLM connector (\<^verbatim>\<open>LMCacheConnectorV1Impl\<close> in
  \<^verbatim>\<open>integration/vllm/vllm_v1_adapter.py\<close>): the look-up that tells vLLM how many tokens can be loaded, the
  confirmation after vLLM has allocated blocks, and the metadata built from each scheduling step. The
  look-up client belongs to LMCache: its answers and its state are parameters. A request is vLLM's own
  object: the connector keeps a reference, so its fields are those of the moment they are read.
\<close>

section \<open>State\<close>

record disagg_params =
  dp_req_id :: string
  dp_host :: string
  dp_init_port :: int
  dp_alloc_port :: int

record 'v request =
  rq_id :: string
  rq_tokens :: "int list"
  rq_prompt :: "int list"
  rq_computed :: int
  rq_priority :: int
  rq_params :: "'v configs option"
  rq_mm :: "mm_feature list"
  rq_disagg :: "disagg_params option"
  rq_aborted :: bool
  rq_first_token :: bool
  rq_output :: "int list"

text \<open>
  The look-up client: what it has cached for a request (\<open>Some (- 1)\<close> for nothing), a look-up, and the
  forgetting and cancelling of one; \<open>None\<close> is an answer still under way.
\<close>

record ('v, 'c) lookup_client =
  lc_cached :: "string \<Rightarrow> 'c \<Rightarrow> int option"
  lc_lookup :: "int list \<Rightarrow> string \<Rightarrow> 'v configs option \<Rightarrow> 'c \<Rightarrow> int option \<times> 'c"
  lc_clear :: "string \<Rightarrow> 'c \<Rightarrow> 'c"
  lc_cancel :: "string \<Rightarrow> 'c \<Rightarrow> 'c"
  lc_producer_reuse :: bool

record ('v, 'c) conn =
  c_loads :: "string \<rightharpoonup> load_spec"
  c_trackers :: "string \<rightharpoonup> 'v tracker"
  c_unfinished :: "string set"
  c_priority :: "string \<rightharpoonup> int"
  c_disagg :: "string \<rightharpoonup> disagg_spec"
  c_client :: 'c

text \<open>One entry of \<^verbatim>\<open>scheduled_cached_reqs\<close>; \<open>cr_preempted\<close> is \<open>None\<close> when vLLM does not tell.\<close>

record cached_request =
  cr_id :: string
  cr_blocks :: "block_ids option"
  cr_preempted :: "bool option"

record 'v scheduler_output =
  so_finished :: "string list"
  so_new :: "'v new_request list"
  so_cached :: "cached_request list"
  so_scheduled :: "string \<rightharpoonup> int"

section \<open>Look-up and allocation\<close>

definition need_to_allocate :: "'v request \<Rightarrow> int \<Rightarrow> int \<Rightarrow> int" where
  "need_to_allocate rq hits computed =
     (if hits = int (length (rq_tokens rq)) then hits - computed - 1 else hits - computed)"

text \<open>The tokens that are looked up, as sent to the client.\<close>

definition lookup_tokens :: "'v adapter \<Rightarrow> 'v request \<Rightarrow> int list" where
  "lookup_tokens a rq =
     (let ts = (if rq_mm rq \<noteq> [] then a_mm a (rq_prompt rq) (rq_mm rq) else rq_tokens rq)
      in if 0 < a_skip_last a then py_prefix ts (- a_skip_last a) else ts)"

text \<open>The cached answer of the client, or a first look-up, which also notes the request's priority.\<close>

definition external_hits ::
    "'v adapter \<Rightarrow> ('v, 'c) lookup_client \<Rightarrow> 'v request \<Rightarrow> ('v, 'c) conn \<Rightarrow> int option \<times> ('v, 'c) conn" where
  "external_hits a lc rq c =
     (if lc_cached lc (rq_id rq) (c_client c) \<noteq> Some (- 1) then (lc_cached lc (rq_id rq) (c_client c), c)
      else case lc_lookup lc (lookup_tokens a rq) (rq_id rq) (extract_request_configs (rq_params rq)) (c_client c) of
        (h, cl) \<Rightarrow> (h, c\<lparr>c_priority := (c_priority c)(rq_id rq \<mapsto> rq_priority rq), c_client := cl\<rparr>))"

definition get_num_new_matched_tokens ::
    "'v adapter \<Rightarrow> ('v, 'c) lookup_client \<Rightarrow> 'v request \<Rightarrow> int \<Rightarrow> ('v, 'c) conn \<Rightarrow> int option \<times> ('v, 'c) conn" where
  "get_num_new_matched_tokens a lc rq computed c =
     (if starts_with (rq_id rq) ''mock_req'' then (Some 0, c)
      else if a_role a = ''kv_producer'' \<and> \<not> lc_producer_reuse lc then (Some 0, c)
      else case external_hits a lc rq c of
        (None, c1) \<Rightarrow> (None, c1)
      | (Some hits, c1) \<Rightarrow>
          let need = need_to_allocate rq hits computed;
              below = 0 < a_min_retrieve a \<and> need < a_min_retrieve a;
              spec = \<lparr>ls_vllm = computed, ls_lmcache = hits, ls_can_load = False\<rparr>
          in (Some (if below \<or> need \<le> 0 then 0 else need), c1\<lparr>c_loads := (c_loads c1)(rq_id rq \<mapsto> spec)\<rparr>))"

definition disagg_of :: "disagg_params \<Rightarrow> disagg_spec" where
  "disagg_of p =
     \<lparr>dg_req_id = dp_req_id p, dg_receiver_id = dp_host p @ int_str (dp_init_port p), dg_host = dp_host p,
      dg_init_port = dp_init_port p, dg_alloc_port = dp_alloc_port p, dg_last_prefill = False, dg_transferred = 0\<rparr>"

definition set_can_load :: "string \<Rightarrow> bool \<Rightarrow> ('v, 'c) conn \<Rightarrow> ('v, 'c) conn" where
  "set_can_load r b c =
     (case c_loads c r of
        None \<Rightarrow> c
      | Some spec \<Rightarrow> c\<lparr>c_loads := (c_loads c)(r \<mapsto> spec\<lparr>ls_can_load := b\<rparr>)\<rparr>)"

definition update_state_after_alloc ::
    "('v, 'c) lookup_client \<Rightarrow> 'v request \<Rightarrow> int \<Rightarrow> ('v, 'c) conn \<Rightarrow> exn option \<times> ('v, 'c) conn" where
  "update_state_after_alloc lc rq n c =
     (let c1 = c\<lparr>c_client := lc_clear lc (rq_id rq) (c_client c)\<rparr>;
          c2 = (case rq_disagg rq of
                  None \<Rightarrow> c1
                | Some p \<Rightarrow> c1\<lparr>c_disagg := (c_disagg c1)(rq_id rq \<mapsto> disagg_of p)\<rparr>);
          c3 = c2\<lparr>c_unfinished := insert (rq_id rq) (c_unfinished c2)\<rparr>
      in (case c_loads c3 (rq_id rq) of
            None \<Rightarrow> (None, c3)
          | Some spec \<Rightarrow>
              if n = 0 then (None, set_can_load (rq_id rq) False c3)
              else
                let recalc = (if ls_lmcache spec = int (length (rq_tokens rq)) then 1 else 0)
                in if n \<noteq> ls_lmcache spec - ls_vllm spec - recalc
                     then (Some (AssertionError ''Mismatch in tokens to load''), c3)
                   else (None, set_can_load (rq_id rq) True c3)))"

section \<open>One scheduling step\<close>

definition drop_finished :: "string list \<Rightarrow> ('v, 'c) conn \<Rightarrow> ('v, 'c) conn" where
  "drop_finished rs c =
     c\<lparr>c_trackers := (\<lambda>r. if r \<in> set rs then None else c_trackers c r),
       c_unfinished := c_unfinished c - set rs\<rparr>"

definition pop_load :: "string \<Rightarrow> ('v, 'c) conn \<Rightarrow> load_spec option \<times> ('v, 'c) conn" where
  "pop_load r c = (c_loads c r, c\<lparr>c_loads := (c_loads c)(r := None)\<rparr>)"

definition cached_tokens :: "load_spec option \<Rightarrow> int" where
  "cached_tokens load = (case load of None \<Rightarrow> 0 | Some s \<Rightarrow> ls_lmcache s)"

definition vllm_tokens :: "load_spec option \<Rightarrow> int" where
  "vllm_tokens load = (case load of None \<Rightarrow> 0 | Some s \<Rightarrow> ls_vllm s)"

text \<open>The metadata of a tracker, which stays in the table with what it has recorded.\<close>

definition emit_meta ::
    "'v adapter \<Rightarrow> string \<Rightarrow> 'v tracker \<Rightarrow> load_spec option \<Rightarrow> ('v, 'c) conn \<Rightarrow> 'v req_meta list \<times> ('v, 'c) conn" where
  "emit_meta a r tk load c =
     (case from_request_tracker a tk load of
        (m, tk') \<Rightarrow> (case m of None \<Rightarrow> [] | Some m' \<Rightarrow> [m'], c\<lparr>c_trackers := (c_trackers c)(r \<mapsto> tk')\<rparr>))"

definition build_new ::
    "'v adapter \<Rightarrow> (string \<rightharpoonup> int) \<Rightarrow> 'v new_request \<Rightarrow> ('v, 'c) conn \<Rightarrow> 'v req_meta list res \<times> ('v, 'c) conn" where
  "build_new a scheduled nr c =
     (let r = nr_id nr in
      if starts_with r ''mock_req'' then (Inr [], c)
      else case pop_load r c of (load, c1) \<Rightarrow>
        (case scheduled r of
           None \<Rightarrow> (Inl (KeyError r), c1)
         | Some n \<Rightarrow>
             let priority = (case c_priority c1 r of None \<Rightarrow> 0 | Some p \<Rightarrow> p);
                 c2 = c1\<lparr>c_priority := (c_priority c1)(r := None)\<rparr>;
                 skip = a_role a = ''kv_consumer'' \<or> a_force_skip_save a \<or>
                   (case a_priority_limit a of None \<Rightarrow> False | Some limit \<Rightarrow> limit < priority)
             in (case from_new_request nr (nr_computed nr + n) (cached_tokens load) skip (c_disagg c2 r) of
                   Inl e \<Rightarrow> (Inl e, c2)
                 | Inr tk \<Rightarrow>
                     let c3 = c2\<lparr>c_disagg := (c_disagg c2)(r := None)\<rparr>
                     in (case emit_meta a r tk load c3 of (ms, c4) \<Rightarrow> (Inr ms, c4)))))"

text \<open>
  A rollback after a failed load: vLLM has reset the number of computed tokens, and the tracker is cut
  to it, or to the slots of its blocks.
\<close>

definition roll_back :: "'v adapter \<Rightarrow> 'v request \<Rightarrow> 'v tracker \<Rightarrow> 'v tracker" where
  "roll_back a rq tk =
     (let n = rq_computed rq in
      if n < int (length (tk_tokens tk)) then
        let capacity = int (length (tk_blocks tk)) * a_block_size a;
            keep = (if capacity < n then capacity else n)
        in tk\<lparr>tk_tokens := py_prefix (rq_tokens rq) keep, tk_saved := min (tk_saved tk) keep\<rparr>
      else tk)"

definition check_preempted :: "load_spec option \<Rightarrow> 'v request \<Rightarrow> bool \<Rightarrow> exn option" where
  "check_preempted load rq preempted =
     (if \<not> preempted then None
      else case load of
        None \<Rightarrow> Some (AssertionError ''preempted but was not given a load spec'')
      | Some s \<Rightarrow>
          if rq_computed rq \<noteq> max (ls_lmcache s) (ls_vllm s) then Some (AssertionError ''num_computed_tokens'')
          else None)"

definition build_cached ::
    "'v adapter \<Rightarrow> (string \<Rightarrow> 'v request) \<Rightarrow> (string \<rightharpoonup> int) \<Rightarrow> cached_request \<Rightarrow> ('v, 'c) conn \<Rightarrow>
     'v req_meta list res \<times> ('v, 'c) conn" where
  "build_cached a live scheduled cr c =
     (let r = cr_id cr; rq = live r in
      case c_trackers c r of
        None \<Rightarrow> (Inl (KeyError r), c)
      | Some tk \<Rightarrow>
          (case scheduled r of
             None \<Rightarrow> (Inl (KeyError r), c)
           | Some n \<Rightarrow>
               if r \<notin> c_unfinished c then (Inl (ValueError ''not in _unfinished_requests''), c)
               else
                 let new_tokens = py_slice (rq_tokens rq) (rq_computed rq) (rq_computed rq + n)
                 in case pop_load r c of (load, c1) \<Rightarrow>
                   (case cr_preempted cr of
                      None \<Rightarrow> (Inl (AttributeError ''preemption status''), c1)
                    | Some preempted \<Rightarrow>
                        (case check_preempted load rq preempted of
                           Some e \<Rightarrow> (Inl e, c1)
                         | None \<Rightarrow>
                             let tk1 = roll_back a rq tk
                             in (case tracker_update tk1 new_tokens (cr_blocks cr) preempted (cached_tokens load)
                                     (vllm_tokens load) (if preempted then Some (rq_tokens rq) else None) of
                                   Inl e \<Rightarrow> (Inl e, c1\<lparr>c_trackers := (c_trackers c1)(r \<mapsto> tk1)\<rparr>)
                                 | Inr tk2 \<Rightarrow> (case emit_meta a r tk2 load c1 of (ms, c2) \<Rightarrow> (Inr ms, c2)))))))"

text \<open>The form of the cached requests in versions of vLLM before 0.9.2: a list of objects of their own.\<close>

record old_cached_request =
  oc_id :: string
  oc_new_tokens :: "int list"
  oc_blocks :: "block_ids option"
  oc_resumed :: bool

definition build_old_cached ::
    "'v adapter \<Rightarrow> (string \<Rightarrow> 'v request) \<Rightarrow> old_cached_request \<Rightarrow> ('v, 'c) conn \<Rightarrow>
     'v req_meta list res \<times> ('v, 'c) conn" where
  "build_old_cached a live oc c =
     (let r = oc_id oc in
      case pop_load r c of (load, c1) \<Rightarrow>
        (case c_trackers c1 r of
           None \<Rightarrow> (Inl (KeyError r), c1)
         | Some tk \<Rightarrow>
             if oc_resumed oc \<and> r \<notin> c_unfinished c1
               then (Inl (AssertionError ''not found in _unfinished_requests''), c1)
             else (case tracker_update tk (oc_new_tokens oc) (oc_blocks oc) (oc_resumed oc) (cached_tokens load)
                     (vllm_tokens load) (if oc_resumed oc then Some (rq_tokens (live r)) else None) of
                 Inl e \<Rightarrow> (Inl e, c1)
               | Inr tk' \<Rightarrow> (case emit_meta a r tk' load c1 of (ms, c2) \<Rightarrow> (Inr ms, c2)))))"

text \<open>A loop over requests that adds metadata and stops at the first exception.\<close>

fun build_each ::
    "('r \<Rightarrow> ('v, 'c) conn \<Rightarrow> 'v req_meta list res \<times> ('v, 'c) conn) \<Rightarrow> 'r list \<Rightarrow> 'v req_meta list \<Rightarrow>
     ('v, 'c) conn \<Rightarrow> 'v req_meta list res \<times> ('v, 'c) conn" where
  "build_each f [] ms c = (Inr ms, c)"
| "build_each f (r # rs) ms c =
     (case f r c of
        (Inl e, c') \<Rightarrow> (Inl e, c')
      | (Inr ms', c') \<Rightarrow> build_each f rs (ms @ ms') c')"

definition build_connector_meta ::
    "'v adapter \<Rightarrow> (string \<Rightarrow> 'v request) \<Rightarrow> 'v scheduler_output \<Rightarrow> ('v, 'c) conn \<Rightarrow>
     'v req_meta list res \<times> ('v, 'c) conn" where
  "build_connector_meta a live so c =
     (case build_each (build_new a (so_scheduled so)) (so_new so) [] (drop_finished (so_finished so) c) of
        (Inl e, c1) \<Rightarrow> (Inl e, c1)
      | (Inr ms, c1) \<Rightarrow> build_each (build_cached a live (so_scheduled so)) (so_cached so) ms c1)"

definition build_connector_meta_old ::
    "'v adapter \<Rightarrow> (string \<Rightarrow> 'v request) \<Rightarrow> 'v scheduler_output \<Rightarrow> old_cached_request list \<Rightarrow> ('v, 'c) conn \<Rightarrow>
     'v req_meta list res \<times> ('v, 'c) conn" where
  "build_connector_meta_old a live so olds c =
     (case build_each (build_new a (so_scheduled so)) (so_new so) [] (drop_finished (so_finished so) c) of
        (Inl e, c1) \<Rightarrow> (Inl e, c1)
      | (Inr ms, c1) \<Rightarrow> build_each (build_old_cached a live) olds ms c1)"

text \<open>
  The end of a request: the look-ups of an aborted one are cancelled when loads are asynchronous; what is
  returned are the first token and the number of cached tokens, if they are asked for.
\<close>

definition request_finished ::
    "('v, 'c) lookup_client \<Rightarrow> bool \<Rightarrow> bool \<Rightarrow> 'v request \<Rightarrow> ('v, 'c) conn \<Rightarrow>
     (int option \<times> int option) res \<times> ('v, 'c) conn" where
  "request_finished lc async_loading details rq c =
     (let c1 = (if rq_aborted rq \<and> async_loading then c\<lparr>c_client := lc_cancel lc (rq_id rq) (c_client c)\<rparr> else c);
          cached = (if details then map_option tk_cached (c_trackers c1 (rq_id rq)) else None)
      in if rq_first_token rq
           then (case rq_output rq of [] \<Rightarrow> (Inl IndexError, c1) | t # ts \<Rightarrow> (Inr (Some t, cached), c1))
         else (Inr (None, cached), c1))"

section \<open>The contract between look-up and allocation\<close>

lemma announced_spec:
  assumes "get_num_new_matched_tokens a lc rq computed c = (Some n, c1)" "c_loads c (rq_id rq) = None"
    and h: "\<And>h. lc_cached lc (rq_id rq) (c_client c) = Some h \<Longrightarrow> h \<le> int (length (rq_tokens rq))"
    and l: "\<And>h cl. lc_lookup lc (lookup_tokens a rq) (rq_id rq) (extract_request_configs (rq_params rq)) (c_client c) =
       (Some h, cl) \<Longrightarrow> h \<le> int (length (rq_tokens rq))"
  shows "n = 0 \<and> c_loads c1 (rq_id rq) = None \<or>
    (\<exists>hits. hits \<le> int (length (rq_tokens rq)) \<and>
       c_loads c1 (rq_id rq) = Some \<lparr>ls_vllm = computed, ls_lmcache = hits, ls_can_load = False\<rparr> \<and>
       (n = 0 \<or> 0 < n \<and> n = need_to_allocate rq hits computed))"
proof (cases "starts_with (rq_id rq) ''mock_req'' \<or> (a_role a = ''kv_producer'' \<and> \<not> lc_producer_reuse lc)")
  case True
  then have "n = 0" "c1 = c" using assms(1) by (auto simp: get_num_new_matched_tokens_def split: if_splits)
  then show ?thesis using assms(2) by simp
next
  case False
  obtain x c0 where x: "external_hits a lc rq c = (x, c0)" by (cases "external_hits a lc rq c")
  then obtain hits where hx: "x = Some hits"
    using assms(1) False by (cases x) (auto simp: get_num_new_matched_tokens_def)
  have hits: "hits \<le> int (length (rq_tokens rq))"
    using x hx h l by (auto simp: external_hits_def split: if_splits prod.splits)
  have c1: "c_loads c1 (rq_id rq) = Some \<lparr>ls_vllm = computed, ls_lmcache = hits, ls_can_load = False\<rparr>"
    and n: "n = (if 0 < a_min_retrieve a \<and> need_to_allocate rq hits computed < a_min_retrieve a \<or>
        need_to_allocate rq hits computed \<le> 0 then 0 else need_to_allocate rq hits computed)"
    using assms(1) False x hx by (auto simp: get_num_new_matched_tokens_def Let_def)
  show ?thesis
    by (rule disjI2, rule exI [of _ hits], intro conjI) (use hits c1 n in \<open>auto split: if_splits\<close>)
qed

text \<open>
  C12: Whatever number of tokens the look-up has announced for a request, vLLM may confirm: the
  allocation of exactly these tokens is accepted without raising, and the request may load afterwards
  exactly if the number is not zero; confirming zero is always accepted and forbids the load. The announced
  number is never negative, and with it the tokens that vLLM has, at least one token remains to be computed.
\<close>

theorem announced_tokens_confirmed:
  assumes "get_num_new_matched_tokens a lc rq computed c = (Some n, c1)"
    and "c_loads c (rq_id rq) = None" and "0 \<le> computed"
    and "\<And>h. lc_cached lc (rq_id rq) (c_client c) = Some h \<Longrightarrow> h \<le> int (length (rq_tokens rq))"
    and "\<And>h cl. lc_lookup lc (lookup_tokens a rq) (rq_id rq) (extract_request_configs (rq_params rq)) (c_client c) =
       (Some h, cl) \<Longrightarrow> h \<le> int (length (rq_tokens rq))"
    and "k = n \<or> k = 0"
  shows "\<exists>c2. update_state_after_alloc lc rq k c1 = (None, c2) \<and> 0 \<le> n \<and>
    (0 < n \<longrightarrow> computed + n < int (length (rq_tokens rq))) \<and> rq_id rq \<in> c_unfinished c2 \<and>
    (case c_loads c2 (rq_id rq) of None \<Rightarrow> n = 0 | Some s \<Rightarrow> ls_can_load s = (0 < k) \<and> ls_vllm s = computed)"
proof -
  have act: "\<exists>c2. update_state_after_alloc lc rq k c1 = (None, c2) \<and> rq_id rq \<in> c_unfinished c2 \<and>
      c_loads c2 (rq_id rq) = map_option (\<lambda>s. s\<lparr>ls_can_load := (k \<noteq> 0)\<rparr>) (c_loads c1 (rq_id rq))"
    if "\<And>s. c_loads c1 (rq_id rq) = Some s \<Longrightarrow> k = 0 \<or>
      k = ls_lmcache s - ls_vllm s - (if ls_lmcache s = int (length (rq_tokens rq)) then 1 else 0)"
    using that
    by (cases "c_loads c1 (rq_id rq)") (auto simp: update_state_after_alloc_def set_can_load_def Let_def split: option.splits)
  have "n = 0 \<and> c_loads c1 (rq_id rq) = None \<or>
    (\<exists>hits. hits \<le> int (length (rq_tokens rq)) \<and>
       c_loads c1 (rq_id rq) = Some \<lparr>ls_vllm = computed, ls_lmcache = hits, ls_can_load = False\<rparr> \<and>
       (n = 0 \<or> 0 < n \<and> n = need_to_allocate rq hits computed))"
    by (rule announced_spec [OF assms(1,2)]) (use assms(4,5) in blast)+
  then show ?thesis
  proof (elim disjE conjE exE)
    assume "n = 0" "c_loads c1 (rq_id rq) = None"
    with act assms(6) show ?thesis by auto
  next
    fix hits assume hits: "hits \<le> int (length (rq_tokens rq))"
      and s: "c_loads c1 (rq_id rq) = Some \<lparr>ls_vllm = computed, ls_lmcache = hits, ls_can_load = False\<rparr>"
      and "n = 0"
    with act assms(6) show ?thesis by auto
  next
    fix hits assume hits: "hits \<le> int (length (rq_tokens rq))"
      and s: "c_loads c1 (rq_id rq) = Some \<lparr>ls_vllm = computed, ls_lmcache = hits, ls_can_load = False\<rparr>"
      and n: "0 < n" "n = need_to_allocate rq hits computed"
    then have "k = 0 \<or> k = hits - computed - (if hits = int (length (rq_tokens rq)) then 1 else 0)"
      using assms(6) by (auto simp: need_to_allocate_def)
    moreover have "computed + n < int (length (rq_tokens rq))"
      using n hits by (auto simp: need_to_allocate_def split: if_splits)
    ultimately show ?thesis using act s n(1) assms(6) by auto
  qed
qed

text \<open>A client that knows of four cached tokens, and a request of six.\<close>

definition demo_client :: "(bool, unit) lookup_client" where
  "demo_client =
     \<lparr>lc_cached = (\<lambda>r c. Some 4), lc_lookup = (\<lambda>ts r cfg c. (Some 4, c)), lc_clear = (\<lambda>r c. c),
      lc_cancel = (\<lambda>r c. c), lc_producer_reuse = False\<rparr>"

definition demo_request :: "bool request" where
  "demo_request =
     \<lparr>rq_id = ''r'', rq_tokens = [11, 12, 13, 14, 15, 16], rq_prompt = [11, 12, 13, 14, 15, 16], rq_computed = 2,
      rq_priority = 0, rq_params = None, rq_mm = [], rq_disagg = None, rq_aborted = False, rq_first_token = False,
      rq_output = []\<rparr>"

definition demo_conn :: "(bool, unit) conn" where
  "demo_conn =
     \<lparr>c_loads = Map.empty, c_trackers = Map.empty, c_unfinished = {}, c_priority = Map.empty, c_disagg = Map.empty,
      c_client = ()\<rparr>"

theorem announced_tokens_confirmed_witness:
  "\<exists>c1 c2. get_num_new_matched_tokens demo_adapter demo_client demo_request 2 demo_conn = (Some 2, c1) \<and>
    update_state_after_alloc demo_client demo_request 2 c1 = (None, c2) \<and>
    (case c_loads c2 ''r'' of None \<Rightarrow> False | Some s \<Rightarrow> ls_can_load s)"
proof -
  obtain c1 where c1: "get_num_new_matched_tokens demo_adapter demo_client demo_request 2 demo_conn = (Some 2, c1)"
    by (simp add: get_num_new_matched_tokens_def external_hits_def need_to_allocate_def demo_client_def
        demo_request_def demo_conn_def demo_adapter_def starts_with_def Let_def)
  have "\<exists>c2. update_state_after_alloc demo_client demo_request 2 c1 = (None, c2) \<and> 0 \<le> (2::int) \<and>
      (0 < (2::int) \<longrightarrow> 2 + 2 < int (length (rq_tokens demo_request))) \<and> rq_id demo_request \<in> c_unfinished c2 \<and>
      (case c_loads c2 (rq_id demo_request) of None \<Rightarrow> (2::int) = 0 | Some s \<Rightarrow> ls_can_load s = (0 < (2::int)) \<and> ls_vllm s = 2)"
    by (rule announced_tokens_confirmed [OF c1])
      (simp_all add: demo_client_def demo_request_def demo_conn_def)
  then show ?thesis using c1 by (auto simp: demo_request_def split: option.splits)
qed

end
