(* ===== verification/Vllm_Worker.thy ===== *)
theory Vllm_Worker
  imports Vllm_Scheduler
begin

text \<open>
  The worker side of the vLLM connector (\<^verbatim>\<open>start_load_kv\<close>, \<^verbatim>\<open>record_failed_blocks\<close> and \<^verbatim>\<open>wait_for_save\<close> of
  \<^verbatim>\<open>LMCacheConnectorV1Impl\<close>), for the transfers that are not layer by layer: what is asked of the cache
  engine for the metadata of a step, which blocks are reported when a load comes back incomplete, and
  what the whole connector guarantees of the tokens it counts as saved. The engine's answers are
  parameters.
\<close>

section \<open>Loads\<close>

record 'v load_call =
  lo_tokens :: "int list"
  lo_mask :: "bool list"
  lo_slots :: "int list"
  lo_vllm :: int
  lo_configs :: "'v configs option"
  lo_id :: string

definition align_down :: "int \<Rightarrow> int \<Rightarrow> int" where
  "align_down n chunk = n div chunk * chunk"

text \<open>A mask that is false on the first \<open>n\<close> positions, as \<^verbatim>\<open>mask[:n] = False\<close> makes it.\<close>

definition mask_from :: "int \<Rightarrow> nat \<Rightarrow> bool list" where
  "mask_from n len = (let hidden = length (py_prefix [0..<len] n) in replicate hidden False @ replicate (len - hidden) True)"

definition load_call_of :: "'v adapter \<Rightarrow> 'v req_meta \<Rightarrow> load_spec \<Rightarrow> 'v load_call res" where
  "load_call_of a m spec =
     (if length (rm_tokens m) \<noteq> length (rm_slots m) then Inl (AssertionError ''slot_mapping'')
      else
        let mask = mask_from (align_down (ls_vllm spec) (a_chunk a)) (length (rm_tokens m)); n = ls_lmcache spec
        in Inr \<lparr>lo_tokens = py_prefix (rm_tokens m) n, lo_mask = py_prefix mask n, lo_slots = py_prefix (rm_slots m) n,
                lo_vllm = ls_vllm spec, lo_configs = rm_configs m, lo_id = rm_id m\<rparr>)"

definition record_failed_blocks :: "int \<Rightarrow> bool list \<Rightarrow> bool list \<Rightarrow> int list \<Rightarrow> int set" where
  "record_failed_blocks bs expected ret slots =
     (if expected = [] \<or> length ret \<noteq> length expected then {}
      else
        let missing = map (\<lambda>(e, r). e \<and> \<not> r) (zip expected ret)
        in set (map (\<lambda>(s, lost). s div bs) (filter snd (zip slots missing))))"

definition count_true :: "bool list \<Rightarrow> int" where
  "count_true bs = int (length (filter id bs))"

text \<open>
  One request: \<open>retrieve\<close> is the engine's answer, the mask of the tokens it has delivered, and \<open>invalid\<close>
  the blocks reported so far.
\<close>

definition load_request ::
    "'v adapter \<Rightarrow> ('v load_call \<Rightarrow> bool list) \<Rightarrow> 'v req_meta \<Rightarrow> int set \<Rightarrow> int set res" where
  "load_request a retrieve m invalid =
     (case rm_load m of
        None \<Rightarrow> Inr invalid
      | Some spec \<Rightarrow>
          if \<not> ls_can_load spec then Inr invalid
          else (case load_call_of a m spec of
                  Inl e \<Rightarrow> Inl e
                | Inr call \<Rightarrow>
                    let ret = retrieve call
                    in if count_true ret < ls_lmcache spec - ls_vllm spec
                         then Inr (invalid \<union> record_failed_blocks (a_block_size a) (lo_mask call) ret (lo_slots call))
                       else Inr invalid))"

fun start_load_kv ::
    "'v adapter \<Rightarrow> ('v load_call \<Rightarrow> bool list) \<Rightarrow> 'v req_meta list \<Rightarrow> int set \<Rightarrow> int set res" where
  "start_load_kv a retrieve [] invalid = Inr invalid"
| "start_load_kv a retrieve (m # ms) invalid =
     (case load_request a retrieve m invalid of
        Inl e \<Rightarrow> Inl e
      | Inr invalid' \<Rightarrow> start_load_kv a retrieve ms invalid')"

definition get_block_ids_with_load_errors :: "int set \<Rightarrow> int set \<times> int set" where
  "get_block_ids_with_load_errors invalid = (invalid, {})"

section \<open>Saves\<close>

record 'v store_call =
  sc_tokens :: "int list"
  sc_mask :: "bool list"
  sc_slots :: "int list"
  sc_offset :: int
  sc_disagg :: "disagg_spec option"
  sc_configs :: "'v configs option"
  sc_id :: string

text \<open>What a save leaves in the metadata once the last pipeline rank has stored \<open>n\<close> tokens.\<close>

definition note_saved :: "'v adapter \<Rightarrow> int \<Rightarrow> 'v req_meta \<Rightarrow> 'v req_meta" where
  "note_saved a n m =
     (if a_last_rank a
        then m\<lparr>rm_save := map_option (\<lambda>s. s\<lparr>sv_skip := n\<rparr>) (rm_save m),
               rm_disagg := map_option (\<lambda>d. d\<lparr>dg_transferred := n\<rparr>) (rm_disagg m)\<rparr>
      else m)"

definition skip_of :: "'v adapter \<Rightarrow> 'v req_meta \<Rightarrow> save_spec \<Rightarrow> int" where
  "skip_of a m save =
     (case rm_disagg m of
        Some d \<Rightarrow> if a_role a = ''kv_producer'' then min (sv_skip save) (dg_transferred d) else sv_skip save
      | None \<Rightarrow> sv_skip save)"

definition store_call_of :: "'v adapter \<Rightarrow> 'v req_meta \<Rightarrow> int \<Rightarrow> 'v store_call \<times> 'v req_meta" where
  "store_call_of a m skip0 =
     (let skip = align_down skip0 (a_chunk a);
          tokens = rm_tokens m; slots = rm_slots m;
          mask = mask_from skip (length tokens);
          m' = (if rm_last_prefill m then m\<lparr>rm_disagg := map_option (\<lambda>d. d\<lparr>dg_last_prefill := True\<rparr>) (rm_disagg m)\<rparr> else m);
          n = (if rm_last_prefill m \<or> a_blending a then length tokens
               else nat (align_down (int (length tokens)) (a_chunk a)))
      in (\<lparr>sc_tokens = take n tokens, sc_mask = take n mask, sc_slots = take n slots, sc_offset = skip,
           sc_disagg = rm_disagg m', sc_configs = rm_configs m, sc_id = rm_id m\<rparr>,
          note_saved a (int (length (take n tokens))) m'))"

definition save_request :: "'v adapter \<Rightarrow> 'v req_meta \<Rightarrow> ('v store_call option \<times> 'v req_meta) res" where
  "save_request a m =
     (if (case rm_save m of None \<Rightarrow> True | Some s \<Rightarrow> \<not> sv_can s) \<and> a_role a \<noteq> ''kv_producer'' then Inr (None, m)
      else if length (rm_slots m) \<noteq> length (rm_tokens m) then Inr (None, m)
      else (case rm_save m of
              None \<Rightarrow> Inl (AttributeError ''skip_leading_tokens'')
            | Some s \<Rightarrow>
                if skip_of a m s = int (length (rm_tokens m)) then Inr (None, m)
                else (case store_call_of a m (skip_of a m s) of (call, m') \<Rightarrow> Inr (Some call, m'))))"

datatype 'v engine_call = Unpin string | Store "'v store_call"

text \<open>The calls of \<^verbatim>\<open>wait_for_save\<close>: every request is unpinned, then stored if there is something to store.\<close>

fun save_each :: "'v adapter \<Rightarrow> 'v req_meta list \<Rightarrow> 'v engine_call list \<Rightarrow> 'v engine_call list res" where
  "save_each a [] calls = Inr calls"
| "save_each a (m # ms) calls =
     (case save_request a m of
        Inl e \<Rightarrow> Inl e
      | Inr (call, m') \<Rightarrow>
          save_each a ms (calls @ [Unpin (rm_id m)] @ (case call of None \<Rightarrow> [] | Some c \<Rightarrow> [Store c])))"

definition wait_for_save :: "'v adapter \<Rightarrow> 'v req_meta list \<Rightarrow> 'v engine_call list res" where
  "wait_for_save a ms = (if a_role a = ''kv_consumer'' then Inr [] else save_each a ms [])"

section \<open>Masks\<close>

lemma length_mask_from [simp]: "length (mask_from n len) = len"
proof -
  have "length (py_prefix [0..<len] n) \<le> len" by (simp add: py_prefix_def)
  then show ?thesis by (simp add: mask_from_def Let_def)
qed

lemma nth_mask_from: "0 \<le> n \<Longrightarrow> p < len \<Longrightarrow> mask_from n len ! p = (n \<le> int p)"
  by (auto simp: mask_from_def Let_def nth_append)

lemma align_down_mod: "align_down n chunk = n - n mod chunk"
  by (simp add: align_down_def minus_mod_eq_div_mult)

lemma align_down_bounds:
  assumes "0 < chunk"
  shows "align_down n chunk \<le> n" "n < align_down n chunk + chunk" "0 \<le> n \<Longrightarrow> 0 \<le> align_down n chunk"
  using assms pos_mod_sign [OF assms, of n] pos_mod_bound [OF assms, of n]
  by (simp_all add: align_down_mod) (simp add: zmod_le_nonneg_dividend)

section \<open>Incomplete loads\<close>

lemma count_missing:
  assumes "list_all2 (\<lambda>r e. r \<longrightarrow> e) ret expected"
  shows "count_true ret = count_true expected - count_true (map (\<lambda>(e, r). e \<and> \<not> r) (zip expected ret))"
  using assms by (induction ret expected rule: list_all2_induct) (auto simp: count_true_def)

lemma count_mask_from:
  assumes "0 \<le> n" "n \<le> int len"
  shows "count_true (mask_from n len) = int len - n"
  using assms by (simp add: mask_from_def count_true_def Let_def)

lemma take_mask_from: "0 \<le> n \<Longrightarrow> k \<le> len \<Longrightarrow> take k (mask_from n len) = mask_from n k"
  by (rule nth_equalityI) (simp_all add: nth_mask_from)

lemma record_failed_blocks_exact:
  assumes "length ret = length expected" "length slots = length expected"
  shows "record_failed_blocks bs expected ret slots =
    {slots ! i div bs | i. i < length expected \<and> expected ! i \<and> \<not> ret ! i}"
proof (cases "expected = []")
  case True
  then show ?thesis by (simp add: record_failed_blocks_def)
next
  case False
  have "set (map (\<lambda>(s, lost). s div bs) (filter snd (zip slots (map (\<lambda>(e, r). e \<and> \<not> r) (zip expected ret))))) =
      {slots ! i div bs | i. i < length expected \<and> expected ! i \<and> \<not> ret ! i}"
    using assms by (force simp: set_zip image_iff)
  then show ?thesis using False assms by (simp add: record_failed_blocks_def Let_def)
qed

text \<open>
  C9: What an incomplete load reports. The engine delivers some of the tokens it is asked for, from the
  chunk boundary below vLLM's cached tokens to the end of LMCache's. If more tokens are missing than lie
  between that boundary and the cached tokens, exactly the blocks of the missing tokens are reported as
  invalid, so that vLLM computes them again; otherwise none is: a missing last chunk that is shorter than
  the overlap goes unnoticed.
\<close>

theorem lost_tokens_reported:
  assumes "adapter_ok a" "rm_load m = Some spec" "ls_can_load spec"
    and "length (rm_slots m) = length (rm_tokens m)" "0 \<le> ls_vllm spec" "ls_vllm spec \<le> ls_lmcache spec"
    and "ls_lmcache spec \<le> int (length (rm_tokens m))"
    and "load_call_of a m spec = Inr call" "retrieve call = ret"
    and "list_all2 (\<lambda>r e. r \<longrightarrow> e) ret (lo_mask call)"
    and "missing = {i. i < nat (ls_lmcache spec) \<and> align_down (ls_vllm spec) (a_chunk a) \<le> int i \<and> \<not> ret ! i}"
  shows "load_request a retrieve m invalid =
    Inr (if ls_vllm spec mod a_chunk a < int (card missing)
         then invalid \<union> {rm_slots m ! i div a_block_size a | i. i \<in> missing} else invalid)"
proof -
  let ?n = "nat (ls_lmcache spec)" and ?k = "align_down (ls_vllm spec) (a_chunk a)"
  have chunk: "0 < a_chunk a" using assms(1) by (simp add: adapter_ok_def)
  have k: "0 \<le> ?k" "?k \<le> ls_vllm spec" using align_down_bounds [OF chunk] assms(5) by simp_all
  have n: "?n \<le> length (rm_tokens m)" using assms(7) by linarith
  have call: "lo_mask call = mask_from ?k ?n" "lo_slots call = take ?n (rm_slots m)"
    using assms(4-8) k n by (auto simp: load_call_of_def Let_def take_mask_from split: if_splits)
  have len: "length ret = ?n" using assms(10) by (simp add: list_all2_lengthD call)
  have mset: "i \<in> missing \<longleftrightarrow> i < ?n \<and> mask_from ?k ?n ! i \<and> \<not> ret ! i" for i
    using assms(11) k by (auto simp: nth_mask_from)
  have "card missing = length (filter id (map (\<lambda>(e, r). e \<and> \<not> r) (zip (mask_from ?k ?n) ret)))"
    unfolding length_filter_conv_card by (rule arg_cong [of _ _ card]) (auto simp: mset len)
  then have c: "count_true (map (\<lambda>(e, r). e \<and> \<not> r) (zip (lo_mask call) ret)) = int (card missing)"
    by (simp add: count_true_def call)
  have "?k \<le> int ?n" using k assms(5,6) by linarith
  then have "count_true (lo_mask call) = ls_lmcache spec - ?k"
    using count_mask_from [OF k(1), of ?n] assms(5,6) by (simp add: call)
  then have "count_true ret < ls_lmcache spec - ls_vllm spec \<longleftrightarrow> ls_vllm spec mod a_chunk a < int (card missing)"
    using count_missing [OF assms(10)] c by (auto simp: align_down_mod)
  moreover have "record_failed_blocks (a_block_size a) (lo_mask call) ret (lo_slots call) =
      {rm_slots m ! i div a_block_size a | i. i \<in> missing}"
    using record_failed_blocks_exact [of ret "lo_mask call" "lo_slots call" "a_block_size a"] assms(4) n
    by (auto simp: call len mset)
  ultimately show ?thesis using assms(2,3,8,9) by (simp add: load_request_def Let_def)
qed

text \<open>
  Chunks of four tokens, two tokens cached by vLLM, five by LMCache: when only the first chunk comes
  back, the fifth token is missing and its block is not reported.
\<close>

definition demo_meta :: "bool req_meta" where
  "demo_meta =
     \<lparr>rm_id = ''r'', rm_tokens = [11, 12, 13, 14, 15, 16], rm_slots = [10, 11, 6, 7, 14, 15], rm_last_prefill = True,
      rm_save = None, rm_load = Some \<lparr>ls_vllm = 2, ls_lmcache = 5, ls_can_load = True\<rparr>, rm_disagg = None,
      rm_configs = None\<rparr>"

theorem lost_tokens_reported_witness:
  "load_request demo_adapter (\<lambda>call. [True, True, True, True, False]) demo_meta {} = Inr {} \<and>
   load_request demo_adapter (\<lambda>call. [True, False, False, False, False]) demo_meta {} = Inr {5, 3, 7}"
proof -
  let ?spec = "\<lparr>ls_vllm = 2, ls_lmcache = 5, ls_can_load = True\<rparr>"
  obtain call where call: "load_call_of demo_adapter demo_meta ?spec = Inr call"
    by (simp add: load_call_of_def demo_meta_def Let_def)
  then have mask: "lo_mask call = [True, True, True, True, True]"
    by (auto simp: load_call_of_def demo_meta_def demo_adapter_def align_down_def mask_from_def Let_def numeral_eq_Suc)
  note use = lost_tokens_reported [OF demo_adapter_ok, of demo_meta ?spec call, OF _ _ _ _ _ _ call refl _ refl]
  have m1: "{i. i < nat 5 \<and> align_down 2 (a_chunk demo_adapter) \<le> int i \<and> \<not> [True, True, True, True, False] ! i} = {4}"
    by (auto simp: demo_adapter_def align_down_def numeral_eq_Suc less_Suc_eq)
  have m2: "{i. i < nat 5 \<and> align_down 2 (a_chunk demo_adapter) \<le> int i \<and> \<not> [True, False, False, False, False] ! i} = {1, 2, 3, 4}"
    by (auto simp: demo_adapter_def align_down_def numeral_eq_Suc less_Suc_eq)
  have blocks: "{f i | i. i \<in> {1, 2, 3, 4}} = {f 1, f 2, f 3, f 4}" for f :: "nat \<Rightarrow> int"
    by blast
  have "load_request demo_adapter (\<lambda>call. [True, True, True, True, False]) demo_meta {} = Inr {}"
    using use [of "\<lambda>call. [True, True, True, True, False]" "{}"] m1 by (simp add: demo_meta_def demo_adapter_def mask)
  moreover have "load_request demo_adapter (\<lambda>call. [True, False, False, False, False]) demo_meta {} = Inr {5, 3, 7}"
    using use [of "\<lambda>call. [True, False, False, False, False]" "{}"] m2 blocks
    by (simp add: demo_meta_def demo_adapter_def mask)
  ultimately show ?thesis ..
qed

end
