(* ===== verification/Vllm_Coverage.thy ===== *)
theory Vllm_Coverage
  imports Vllm_Worker
begin

text \<open>
  What the connector counts as saved: over all runs of the scheduler side, every position below the
  number of saved tokens of a request was found by a look-up or handed to the cache engine by the
  metadata of some step; and which tokens and slots the metadata name.
\<close>

section \<open>One tracker\<close>

text \<open>
  The end of every step that carries the metadata \<open>m\<close> stores the token at \<open>p\<close>: if it returns, as it does for \<open>m\<close>
  alone, one of its stores is for the request, with all tokens and slots of \<open>m\<close> and a mask that has \<open>p\<close>.
\<close>

definition stores_token :: "'v adapter \<Rightarrow> 'v req_meta \<Rightarrow> nat \<Rightarrow> bool" where
  "stores_token a m p \<longleftrightarrow>
     (\<exists>calls. wait_for_save a [m] = Inr calls) \<and>
     (\<forall>before after calls. wait_for_save a (before @ m # after) = Inr calls \<longrightarrow>
        (\<exists>call. Store call \<in> set calls \<and> sc_id call = rm_id m \<and> sc_tokens call = rm_tokens m \<and> sc_slots call = rm_slots m \<and>
           length (sc_slots call) = length (sc_tokens call) \<and> p < length (sc_tokens call) \<and>
           length (sc_mask call) = length (sc_tokens call) \<and> sc_mask call ! p))"

text \<open>The metadata \<open>m\<close> announces the store of the token at \<open>p\<close>.\<close>

definition counts_token :: "'v req_meta \<Rightarrow> nat \<Rightarrow> bool" where
  "counts_token m p \<longleftrightarrow>
     p < length (rm_tokens m) \<and> (\<exists>s. rm_save m = Some s \<and> sv_can s \<and> sv_skip s \<le> int p)"

lemma save_each_keeps: "save_each a ms calls = Inr calls' \<Longrightarrow> set calls \<subseteq> set calls'"
  by (induction ms arbitrary: calls) (fastforce split: sum.splits prod.splits)+

lemma save_each_has:
  assumes "save_each a (before @ m # after) calls = Inr calls'" "save_request a m = Inr (Some call, m')"
  shows "Store call \<in> set calls'"
  using assms(1)
proof (induction before arbitrary: calls)
  case Nil
  then show ?case using assms(2) save_each_keeps by fastforce
next
  case (Cons b before)
  then show ?case by (auto split: sum.splits prod.splits)
qed

definition disagg_ok :: "disagg_spec option \<Rightarrow> bool" where
  "disagg_ok d \<longleftrightarrow> (case d of None \<Rightarrow> True | Some d' \<Rightarrow> 0 \<le> dg_transferred d')"

lemma tokens_to_save_aligned:
  assumes "adapter_ok a" "\<not> last_prefill tk"
  shows "align_down (tokens_to_save a tk) (a_chunk a) = tokens_to_save a tk"
  using assms by (simp add: tokens_to_save_def Let_def align_down_def adapter_ok_def)

lemma saved_token_stored:
  assumes a: "adapter_ok a" and m: "from_request_tracker a tk load = (Some m, tk')"
    and slots: "length (rm_slots m) = length (rm_tokens m)"
    and nn: "0 \<le> tk_saved tk" "disagg_ok (tk_disagg tk)"
    and p: "int p < tk_saved tk'" "tk_saved tk \<le> int p" and role: "a_role a \<noteq> ''kv_consumer''"
  shows "stores_token a m p"
proof -
  note f = from_request_tracker_fields [OF m]
  have chunk: "0 < a_chunk a" using a by (simp add: adapter_ok_def)
  have skip: "\<not> skips_save a tk" using p f(9) by (auto split: if_splits)
  then have n: "tk_saved tk' = tokens_to_save a tk" using f(9) by simp
  have len: "int (length (rm_tokens m)) = tokens_to_save a tk"
    using f(1) a tokens_to_save_bounds [OF a, of tk] by simp
  let ?save = "\<lparr>sv_skip = tk_saved tk, sv_can = True\<rparr>"
  have save: "rm_save m = Some ?save" using f(4) skip by simp
  have sk: "skip_of a m ?save \<le> tk_saved tk" "0 \<le> skip_of a m ?save"
    using nn f(8) by (auto simp: skip_of_def disagg_ok_def split: option.splits)
  have ne: "skip_of a m ?save \<noteq> int (length (rm_tokens m))" using sk p n len by linarith
  obtain call m' where c: "store_call_of a m (skip_of a m ?save) = (call, m')"
    by (cases "store_call_of a m (skip_of a m ?save)")
  have run: "save_request a m = Inr (Some call, m')"
    using save slots ne c by (simp add: save_request_def)
  have whole: "(if rm_last_prefill m \<or> a_blending a then length (rm_tokens m)
      else nat (align_down (int (length (rm_tokens m))) (a_chunk a))) = length (rm_tokens m)"
    using tokens_to_save_aligned [OF a, of tk] f(6) len by auto
  have pl: "p < length (rm_tokens m)" using p n len by linarith
  have al: "0 \<le> align_down (skip_of a m ?save) (a_chunk a)" "align_down (skip_of a m ?save) (a_chunk a) \<le> int p"
    using align_down_bounds [OF chunk, of "skip_of a m ?save"] sk p by linarith+
  have "sc_id call = rm_id m" "sc_tokens call = rm_tokens m" "sc_slots call = rm_slots m"
    "sc_mask call = mask_from (align_down (skip_of a m ?save) (a_chunk a)) (length (rm_tokens m))"
    using c whole slots by (auto simp: store_call_of_def Let_def)
  moreover have "wait_for_save a [m] = Inr [Unpin (rm_id m), Store call]" using run role by (simp add: wait_for_save_def)
  ultimately show ?thesis using save_each_has [OF _ run] role pl al slots
    unfolding stores_token_def wait_for_save_def by (auto simp: nth_mask_from intro!: exI [of _ call])
qed

lemma saved_token_counted:
  assumes a: "adapter_ok a" and m: "from_request_tracker a tk load = (Some m, tk')"
    and p: "int p < tk_saved tk'" "tk_saved tk \<le> int p"
  shows "counts_token m p"
proof -
  note f = from_request_tracker_fields [OF m]
  have skip: "\<not> skips_save a tk" using p f(9) by (auto split: if_splits)
  moreover have "int (length (rm_tokens m)) = tokens_to_save a tk" using f(1) a tokens_to_save_bounds [OF a, of tk] by simp
  ultimately show ?thesis using f(4,9) p by (simp add: counts_token_def)
qed

section \<open>Runs of the scheduler side\<close>

text \<open>
  \<open>H\<close> collects what look-ups have found, \<open>ms\<close> the metadata of all steps. A step that raises ends the
  engine; there is none after it.
\<close>

inductive sched_run ::
    "'v adapter \<Rightarrow> ('v, 'c) lookup_client \<Rightarrow> ('v, 'c) conn \<Rightarrow> 'v req_meta list \<Rightarrow> (string \<times> int) set \<Rightarrow> bool"
    for a lc where
  start: "c_loads c = Map.empty \<Longrightarrow> c_trackers c = Map.empty \<Longrightarrow> c_disagg c = Map.empty \<Longrightarrow> sched_run a lc c [] {}"
| matched: "sched_run a lc c ms H \<Longrightarrow> \<forall>h c0. external_hits a lc rq c = (Some h, c0) \<longrightarrow> 0 \<le> h \<Longrightarrow>
    get_num_new_matched_tokens a lc rq computed c = (n, c') \<Longrightarrow>
    sched_run a lc c' ms (H \<union> {(rq_id rq, ls_lmcache s) | s. c_loads c' (rq_id rq) = Some s})"
| allocated: "sched_run a lc c ms H \<Longrightarrow> update_state_after_alloc lc rq k c = (e, c') \<Longrightarrow> sched_run a lc c' ms H"
| built: "sched_run a lc c ms H \<Longrightarrow> \<forall>r. 0 \<le> rq_computed (live r) \<Longrightarrow>
    build_connector_meta a live so c = (Inr ms', c') \<Longrightarrow> sched_run a lc c' (ms @ ms') H"
| built_old: "sched_run a lc c ms H \<Longrightarrow> build_connector_meta_old a live so olds c = (Inr ms', c') \<Longrightarrow>
    sched_run a lc c' (ms @ ms') H"
| finished: "sched_run a lc c ms H \<Longrightarrow> request_finished lc b1 b2 rq c = (x, c') \<Longrightarrow> sched_run a lc c' ms H"

definition covered :: "'v adapter \<Rightarrow> string \<Rightarrow> 'v req_meta list \<Rightarrow> (string \<times> int) set \<Rightarrow> int \<Rightarrow> bool" where
  "covered a r ms H n \<longleftrightarrow>
     (\<forall>p. int p < n \<longrightarrow> (\<exists>h. (r, h) \<in> H \<and> int p < h) \<or>
        (\<exists>m \<in> set ms. rm_id m = r \<and> counts_token m p \<and>
           (a_role a \<noteq> ''kv_consumer'' \<longrightarrow> length (rm_slots m) = length (rm_tokens m) \<longrightarrow> stores_token a m p)))"

definition tracker_inv ::
    "'v adapter \<Rightarrow> 'v req_meta list \<Rightarrow> (string \<times> int) set \<Rightarrow> string \<Rightarrow> 'v tracker \<Rightarrow> bool" where
  "tracker_inv a ms H r tk \<longleftrightarrow>
     tk_id tk = r \<and> 0 \<le> tk_saved tk \<and> disagg_ok (tk_disagg tk) \<and> covered a r ms H (tk_saved tk)"

definition load_inv :: "(string \<times> int) set \<Rightarrow> string \<Rightarrow> load_spec option \<Rightarrow> bool" where
  "load_inv H r load \<longleftrightarrow> (case load of None \<Rightarrow> True | Some s \<Rightarrow> (r, ls_lmcache s) \<in> H \<and> 0 \<le> ls_lmcache s)"

definition sched_inv :: "'v adapter \<Rightarrow> 'v req_meta list \<Rightarrow> (string \<times> int) set \<Rightarrow> ('v, 'c) conn \<Rightarrow> bool" where
  "sched_inv a ms H c \<longleftrightarrow>
     (\<forall>r. load_inv H r (c_loads c r)) \<and> (\<forall>r. disagg_ok (c_disagg c r)) \<and>
     (\<forall>r tk. c_trackers c r = Some tk \<longrightarrow> tracker_inv a ms H r tk)"

lemma covered_mono: "covered a r ms H n \<Longrightarrow> n' \<le> n \<Longrightarrow> set ms \<subseteq> set ms' \<Longrightarrow> H \<subseteq> H' \<Longrightarrow> covered a r ms' H' n'"
  unfolding covered_def by (meson order.strict_trans2 subsetD)

lemma tracker_inv_mono: "tracker_inv a ms H r tk \<Longrightarrow> set ms \<subseteq> set ms' \<Longrightarrow> H \<subseteq> H' \<Longrightarrow> tracker_inv a ms' H' r tk"
  unfolding tracker_inv_def using covered_mono by blast

lemma load_inv_mono: "load_inv H r load \<Longrightarrow> H \<subseteq> H' \<Longrightarrow> load_inv H' r load"
  by (auto simp: load_inv_def split: option.splits)

lemma sched_inv_mono: "sched_inv a ms H c \<Longrightarrow> set ms \<subseteq> set ms' \<Longrightarrow> H \<subseteq> H' \<Longrightarrow> sched_inv a ms' H' c"
  unfolding sched_inv_def using tracker_inv_mono load_inv_mono by blast

lemma covered_hit: "load_inv H r load \<Longrightarrow> covered a r ms H (cached_tokens load)"
  by (auto simp: covered_def load_inv_def cached_tokens_def split: option.splits)

lemma cached_nonneg: "load_inv H r load \<Longrightarrow> 0 \<le> cached_tokens load"
  by (auto simp: load_inv_def cached_tokens_def split: option.splits)

lemma emit_meta_inv:
  assumes "adapter_ok a" "emit_meta a r tk load c = (ms', c')" "tracker_inv a ms H r tk" "sched_inv a ms H c"
  shows "sched_inv a (ms @ ms') H c'"
proof -
  obtain m tk' where m: "from_request_tracker a tk load = (m, tk')" by (cases "from_request_tracker a tk load")
  have ms': "ms' = (case m of None \<Rightarrow> [] | Some m' \<Rightarrow> [m'])" and c': "c' = c\<lparr>c_trackers := (c_trackers c)(r \<mapsto> tk')\<rparr>"
    using assms(2) m by (auto simp: emit_meta_def)
  have "tracker_inv a (ms @ ms') H r tk'"
  proof (cases m)
    case None
    then have "tk' = tk" using m by (auto simp: from_request_tracker_def Let_def split: if_splits)
    then show ?thesis using assms(3) ms' None by simp
  next
    case (Some m0)
    note mt = m [unfolded Some]
    note f = from_request_tracker_fields [OF mt]
    have t: "tk_id tk = r" "0 \<le> tk_saved tk" "disagg_ok (tk_disagg tk)" "covered a r ms H (tk_saved tk)"
      using assms(3) by (simp_all add: tracker_inv_def)
    have t': "tk_id tk' = r" "tk_disagg tk' = tk_disagg tk" "0 \<le> tk_saved tk'"
      using f(9) t tokens_to_save_bounds [OF assms(1), of tk] by (auto split: if_splits)
    have "covered a r (ms @ ms') H (tk_saved tk')"
      unfolding covered_def
    proof (intro allI impI)
      fix p assume p: "int p < tk_saved tk'"
      show "(\<exists>h. (r, h) \<in> H \<and> int p < h) \<or>
        (\<exists>m \<in> set (ms @ ms'). rm_id m = r \<and> counts_token m p \<and>
           (a_role a \<noteq> ''kv_consumer'' \<longrightarrow> length (rm_slots m) = length (rm_tokens m) \<longrightarrow> stores_token a m p))"
      proof (cases "int p < tk_saved tk")
        case True
        then show ?thesis using t(4) unfolding covered_def by fastforce
      next
        case False
        then have "a_role a \<noteq> ''kv_consumer'' \<longrightarrow> length (rm_slots m0) = length (rm_tokens m0) \<longrightarrow> stores_token a m0 p"
          "counts_token m0 p"
          using saved_token_stored [OF assms(1) mt _ t(2,3) p] saved_token_counted [OF assms(1) mt p] by simp_all
        moreover have "rm_id m0 = r" "m0 \<in> set (ms @ ms')" using f(7) t(1) ms' Some by simp_all
        ultimately show ?thesis by blast
      qed
    qed
    then show ?thesis using t' t(3) by (simp add: tracker_inv_def)
  qed
  moreover have "sched_inv a (ms @ ms') H c" by (rule sched_inv_mono [OF assms(4)]) auto
  ultimately show ?thesis by (auto simp: sched_inv_def c')
qed

section \<open>The steps preserve it\<close>

lemma pop_load_inv:
  assumes "pop_load r c = (load, c')" "sched_inv a ms H c"
  shows "sched_inv a ms H c'" "load_inv H r load" "c_trackers c' = c_trackers c" "c_unfinished c' = c_unfinished c"
  using assms by (auto simp: pop_load_def sched_inv_def load_inv_def)

lemma build_new_inv:
  assumes "adapter_ok a" "build_new a scheduled nr c = (Inr ms', c')" "sched_inv a ms H c"
  shows "sched_inv a (ms @ ms') H c'"
proof (cases "starts_with (nr_id nr) ''mock_req''")
  case True
  then show ?thesis using assms(2,3) by (simp add: build_new_def)
next
  case False
  let ?r = "nr_id nr"
  obtain load c1 where p: "pop_load ?r c = (load, c1)" by (cases "pop_load ?r c")
  note pi = pop_load_inv [OF p assms(3)]
  define c2 where "c2 = c1\<lparr>c_priority := (c_priority c1)(?r := None)\<rparr>"
  have i2: "sched_inv a ms H c2" using pi(1) by (simp add: sched_inv_def c2_def)
  obtain n skip tk where tk: "from_new_request nr n (cached_tokens load) skip (c_disagg c2 ?r) = Inr tk"
    and e: "emit_meta a ?r tk load (c2\<lparr>c_disagg := (c_disagg c2)(?r := None)\<rparr>) = (ms', c')"
    using assms(2) False p
    by (auto simp: build_new_def Let_def c2_def split: option.splits sum.splits prod.splits)
  have "tk_id tk = ?r" "tk_saved tk = cached_tokens load" "tk_disagg tk = c_disagg c2 ?r"
    using tk by (auto simp: from_new_request_def split: sum.splits)
  then have "tracker_inv a ms H ?r tk"
    using covered_hit [OF pi(2)] cached_nonneg [OF pi(2)] i2 by (simp add: tracker_inv_def sched_inv_def)
  moreover have "sched_inv a ms H (c2\<lparr>c_disagg := (c_disagg c2)(?r := None)\<rparr>)"
    using i2 by (auto simp: sched_inv_def disagg_ok_def)
  ultimately show ?thesis by (rule emit_meta_inv [OF assms(1) e])
qed

lemma tracker_update_inv:
  assumes "tracker_update tk toks blks preempted (cached_tokens load) vllm all_tokens = Inr tk'"
    and "tracker_inv a ms H r tk" "load_inv H r load"
  shows "tracker_inv a ms H r tk'"
proof -
  have "tk_id tk' = tk_id tk \<and> tk_disagg tk' = tk_disagg tk \<and>
      tk_saved tk' = (if preempted then cached_tokens load else tk_saved tk)"
    using assms(1) by (auto simp: tracker_update_def Let_def split: if_splits option.splits)
  then show ?thesis
    using assms(2) covered_hit [OF assms(3), of a ms] cached_nonneg [OF assms(3)] by (simp add: tracker_inv_def)
qed

lemma roll_back_inv:
  assumes "adapter_ok a" "0 \<le> rq_computed rq" "tracker_inv a ms H r tk"
  shows "tracker_inv a ms H r (roll_back a rq tk)"
proof -
  have "tk_id (roll_back a rq tk) = tk_id tk \<and> tk_disagg (roll_back a rq tk) = tk_disagg tk \<and>
      tk_saved (roll_back a rq tk) \<le> tk_saved tk \<and> (0 \<le> tk_saved tk \<longrightarrow> 0 \<le> tk_saved (roll_back a rq tk))"
    using assms(1,2) by (auto simp: roll_back_def Let_def adapter_ok_def)
  then show ?thesis using assms(3) covered_mono [of a r ms H "tk_saved tk" _ ms H] by (simp add: tracker_inv_def)
qed

lemma build_cached_inv:
  assumes "adapter_ok a" "\<forall>r. 0 \<le> rq_computed (live r)" "build_cached a live scheduled cr c = (Inr ms', c')"
    and "sched_inv a ms H c"
  shows "sched_inv a (ms @ ms') H c'"
proof -
  let ?r = "cr_id cr" and ?rq = "live (cr_id cr)"
  obtain load c1 where p: "pop_load ?r c = (load, c1)" by (cases "pop_load ?r c")
  note pi = pop_load_inv [OF p assms(4)]
  obtain tk toks vllm pre alls tk2 where tk: "c_trackers c ?r = Some tk"
    and up: "tracker_update (roll_back a ?rq tk) toks (cr_blocks cr) pre (cached_tokens load) vllm alls = Inr tk2"
    and e: "emit_meta a ?r tk2 load c1 = (ms', c')"
    using assms(3) p
    by (auto simp: build_cached_def Let_def split: option.splits sum.splits prod.splits if_splits)
  have "tracker_inv a ms H ?r tk" using assms(4) tk by (simp add: sched_inv_def)
  then have "tracker_inv a ms H ?r tk2"
    using tracker_update_inv [OF up roll_back_inv pi(2)] assms(1,2) by blast
  then show ?thesis by (rule emit_meta_inv [OF assms(1) e _ pi(1)])
qed

lemma build_old_cached_inv:
  assumes "adapter_ok a" "build_old_cached a live oc c = (Inr ms', c')" "sched_inv a ms H c"
  shows "sched_inv a (ms @ ms') H c'"
proof -
  let ?r = "oc_id oc"
  obtain load c1 where p: "pop_load ?r c = (load, c1)" by (cases "pop_load ?r c")
  note pi = pop_load_inv [OF p assms(3)]
  obtain tk toks vllm pre alls tk2 where tk: "c_trackers c ?r = Some tk"
    and up: "tracker_update tk toks (oc_blocks oc) pre (cached_tokens load) vllm alls = Inr tk2"
    and e: "emit_meta a ?r tk2 load c1 = (ms', c')"
    using assms(2) p pi(3)
    by (auto simp: build_old_cached_def Let_def split: option.splits sum.splits prod.splits if_splits)
  have "tracker_inv a ms H ?r tk" using assms(3) tk by (simp add: sched_inv_def)
  then have "tracker_inv a ms H ?r tk2" by (rule tracker_update_inv [OF up _ pi(2)])
  then show ?thesis by (rule emit_meta_inv [OF assms(1) e _ pi(1)])
qed

lemma build_each_inv:
  assumes f: "\<And>x c ms ms' c'. f x c = (Inr ms', c') \<Longrightarrow> sched_inv a ms H c \<Longrightarrow> sched_inv a (ms @ ms') H c'"
    and "build_each f xs ms0 c = (Inr ms', c')" "sched_inv a (ms @ ms0) H c"
  shows "sched_inv a (ms @ ms') H c'"
  using assms(2,3)
proof (induction xs arbitrary: ms0 c)
  case Nil
  then show ?case by simp
next
  case (Cons x xs)
  obtain y c1 where y: "f x c = (y, c1)" by (cases "f x c")
  then obtain ms1 where ms1: "y = Inr ms1" using Cons.prems(1) by (cases y) simp_all
  have "sched_inv a (ms @ (ms0 @ ms1)) H c1"
    using f [OF y [unfolded ms1] Cons.prems(2)] by simp
  moreover have "build_each f xs (ms0 @ ms1) c1 = (Inr ms', c')" using Cons.prems(1) y ms1 by simp
  ultimately show ?case using Cons.IH by blast
qed

lemma drop_finished_inv: "sched_inv a ms H c \<Longrightarrow> sched_inv a ms H (drop_finished rs c)"
  by (auto simp: drop_finished_def sched_inv_def split: if_splits)

lemma build_news_inv:
  assumes "adapter_ok a" "build_each (build_new a scheduled) nrs [] (drop_finished rs c) = (Inr ms', c')"
    and "sched_inv a ms H c"
  shows "sched_inv a (ms @ ms') H c'"
  by (rule build_each_inv [OF build_new_inv [OF assms(1)] assms(2)]) (simp_all add: drop_finished_inv assms(3))

lemma build_connector_meta_inv:
  assumes "adapter_ok a" "\<forall>r. 0 \<le> rq_computed (live r)" "build_connector_meta a live so c = (Inr ms', c')"
    and "sched_inv a ms H c"
  shows "sched_inv a (ms @ ms') H c'"
proof -
  obtain ms1 c1 where n: "build_each (build_new a (so_scheduled so)) (so_new so) [] (drop_finished (so_finished so) c) = (Inr ms1, c1)"
    and r: "build_each (build_cached a live (so_scheduled so)) (so_cached so) ms1 c1 = (Inr ms', c')"
    using assms(3) by (auto simp: build_connector_meta_def split: sum.splits prod.splits)
  show ?thesis
    by (rule build_each_inv [OF build_cached_inv [OF assms(1,2)] r build_news_inv [OF assms(1) n assms(4)]])
qed

lemma build_connector_meta_old_inv:
  assumes "adapter_ok a" "build_connector_meta_old a live so olds c = (Inr ms', c')" "sched_inv a ms H c"
  shows "sched_inv a (ms @ ms') H c'"
proof -
  obtain ms1 c1 where n: "build_each (build_new a (so_scheduled so)) (so_new so) [] (drop_finished (so_finished so) c) = (Inr ms1, c1)"
    and r: "build_each (build_old_cached a live) olds ms1 c1 = (Inr ms', c')"
    using assms(2) by (auto simp: build_connector_meta_old_def split: sum.splits prod.splits)
  show ?thesis
    by (rule build_each_inv [OF build_old_cached_inv [OF assms(1)] r build_news_inv [OF assms(1) n assms(3)]])
qed

lemma matched_inv:
  assumes "\<forall>h c0. external_hits a lc rq c = (Some h, c0) \<longrightarrow> 0 \<le> h"
    and "get_num_new_matched_tokens a lc rq computed c = (n, c')" "sched_inv a ms H c"
  shows "sched_inv a ms (H \<union> {(rq_id rq, ls_lmcache s) | s. c_loads c' (rq_id rq) = Some s}) c'"
proof -
  let ?H = "H \<union> {(rq_id rq, ls_lmcache s) | s. c_loads c' (rq_id rq) = Some s}"
  have frame: "c_trackers c' = c_trackers c \<and> c_disagg c' = c_disagg c \<and>
      (c_loads c' = c_loads c \<or> (\<exists>s. c_loads c' = (c_loads c)(rq_id rq \<mapsto> s) \<and> 0 \<le> ls_lmcache s))"
    using assms(1,2)
    by (fastforce simp: get_num_new_matched_tokens_def external_hits_def Let_def
        split: if_splits option.splits prod.splits)
  have i: "sched_inv a ms ?H c" by (rule sched_inv_mono [OF assms(3)]) auto
  have "load_inv ?H r (c_loads c' r)" for r
  proof (cases "c_loads c' r = c_loads c r")
    case True
    then show ?thesis using i by (simp add: sched_inv_def)
  next
    case False
    then obtain s where "r = rq_id rq" "c_loads c' r = Some s" "0 \<le> ls_lmcache s"
      using frame by (auto split: if_splits)
    then show ?thesis by (auto simp: load_inv_def)
  qed
  then show ?thesis using frame i by (simp add: sched_inv_def)
qed

lemma allocated_inv:
  assumes "update_state_after_alloc lc rq k c = (e, c')" "sched_inv a ms H c"
  shows "sched_inv a ms H c'"
proof -
  have t: "c_trackers c' = c_trackers c"
    using assms(1) by (auto simp: update_state_after_alloc_def set_can_load_def Let_def split: option.splits if_splits)
  have d: "\<forall>r. c_disagg c' r = c_disagg c r \<or> (\<exists>p. c_disagg c' r = Some (disagg_of p))"
    using assms(1) by (auto simp: update_state_after_alloc_def set_can_load_def Let_def split: option.splits if_splits)
  have l: "\<forall>r. c_loads c' r = c_loads c r \<or> (\<exists>s b. c_loads c r = Some s \<and> c_loads c' r = Some (s\<lparr>ls_can_load := b\<rparr>))"
    using assms(1) by (auto simp: update_state_after_alloc_def set_can_load_def Let_def split: option.splits if_splits)
  have "disagg_ok (c_disagg c' r)" for r
    using d assms(2) by (metis disagg_of_def disagg_ok_def disagg_spec.select_convs(7) option.simps(5) order_refl sched_inv_def)
  moreover have "load_inv H r (c_loads c' r)" for r
  proof -
    have "load_inv H r (c_loads c r)" using assms(2) by (simp add: sched_inv_def)
    then show ?thesis using l [rule_format, of r] by (auto simp: load_inv_def)
  qed
  ultimately show ?thesis using t assms(2) by (simp add: sched_inv_def)
qed

lemma sched_run_inv:
  assumes "sched_run a lc c ms H" "adapter_ok a"
  shows "sched_inv a ms H c"
  using assms(1)
proof (induction rule: sched_run.induct)
  case (start c)
  then show ?case by (simp add: sched_inv_def load_inv_def disagg_ok_def)
next
  case (matched c ms H rq computed n c')
  then show ?case by (blast intro: matched_inv)
next
  case (allocated c ms H rq k e c')
  then show ?case by (blast intro: allocated_inv)
next
  case (built c ms H live so ms' c')
  then show ?case by (blast intro: build_connector_meta_inv [OF assms(2)])
next
  case (built_old c ms H live so olds ms' c')
  then show ?case by (blast intro: build_connector_meta_old_inv [OF assms(2)])
next
  case (finished c ms H b1 b2 rq x c')
  then have "c_loads c' = c_loads c" "c_trackers c' = c_trackers c" "c_disagg c' = c_disagg c"
    by (auto simp: request_finished_def Let_def split: if_splits list.splits)
  then show ?case using finished.IH by (simp add: sched_inv_def)
qed

text \<open>
  C8: Nothing is counted as saved without reason: after any sequence of look-ups, allocations and scheduling
  steps, with chunked prefills, decoding, preemptions and rollbacks, every token position below the
  number of saved tokens of a request was reported by a look-up of that request, or a metadata of
  some step announces its store; and the worker, unless it is a pure consumer, then stores it at
  the end of the step, or drops this save because the metadata has another number of slots than tokens.
\<close>

theorem saved_tokens_covered:
  assumes "sched_run a lc c ms H" "adapter_ok a" "c_trackers c r = Some tk" "int p < tk_saved tk"
    and "a_role a \<noteq> ''kv_consumer''"
  shows "(\<exists>h. (r, h) \<in> H \<and> int p < h) \<or>
    (\<exists>m \<in> set ms. rm_id m = r \<and> counts_token m p \<and> (length (rm_slots m) \<noteq> length (rm_tokens m) \<or> stores_token a m p))"
proof -
  have "covered a r ms H (tk_saved tk)"
    using sched_run_inv [OF assms(1,2)] assms(3) by (simp add: sched_inv_def tracker_inv_def)
  then show ?thesis using assms(4,5) unfolding covered_def by blast
qed

text \<open>
  The metadata of a request names its tokens and where they lie: with blocks for all of them, the
  workers get a prefix of the scheduled tokens, as long as the tracker then counts as saved if it saves,
  and position \<open>p\<close> is in slot \<open>p mod block_size\<close> of the block that vLLM has allocated for it; a store made
  from it begins at a chunk boundary at or below the tokens already saved, and lists the same tokens and slots.
\<close>

theorem metadata_names_slots:
  assumes "adapter_ok a" "from_request_tracker a tk load = (Some m, tk')" "tk_mm tk = []"
    and "length (tk_tokens tk) \<le> length (tk_blocks tk) * nat (a_block_size a)" "p < length (rm_tokens m)"
  shows "length (rm_slots m) = length (rm_tokens m) \<and> rm_tokens m ! p = tk_tokens tk ! p \<and>
    rm_slots m ! p = tk_blocks tk ! (p div nat (a_block_size a)) * a_block_size a + int (p mod nat (a_block_size a)) \<and>
    (\<not> skips_save a tk \<longrightarrow> tk_saved tk' = int (length (rm_tokens m))) \<and>
    (\<forall>call m'. save_request a m = Inr (Some call, m') \<longrightarrow>
       sc_offset call \<le> tk_saved tk \<and> a_chunk a dvd sc_offset call \<and>
       sc_tokens call = take (length (sc_tokens call)) (rm_tokens m) \<and>
       sc_slots call = take (length (sc_tokens call)) (rm_slots m))"
proof -
  note f = from_request_tracker_fields [OF assms(2)]
  note b = tokens_to_save_bounds [OF assms(1), of tk]
  have pos: "0 < a_block_size a" "0 < a_chunk a" using assms(1) by (simp_all add: adapter_ok_def)
  have tok: "rm_tokens m = take (nat (tokens_to_save a tk)) (tk_tokens tk)" using f(3) assms(3) b by simp
  have le: "length (rm_tokens m) \<le> length (slots_of_blocks (a_block_size a) (tk_blocks tk))"
    using tok assms(4) by (simp add: length_slots_of_blocks)
  then have len: "length (rm_slots m) = length (rm_tokens m)" using f(2) by simp
  have "rm_slots m ! p = slots_of_blocks (a_block_size a) (tk_blocks tk) ! p" using f(2) assms(5) by simp
  also have "\<dots> = tk_blocks tk ! (p div nat (a_block_size a)) * a_block_size a + int (p mod nat (a_block_size a))"
    by (rule nth_slots_of_blocks [OF pos(1)]) (use le assms(5) in \<open>simp add: length_slots_of_blocks\<close>)
  finally have slot: "rm_slots m ! p = \<dots>" .
  have saved: "\<not> skips_save a tk \<longrightarrow> tk_saved tk' = int (length (rm_tokens m))" using f(9) b tok by auto
  have calls: "sc_offset call \<le> tk_saved tk \<and> a_chunk a dvd sc_offset call \<and>
      sc_tokens call = take (length (sc_tokens call)) (rm_tokens m) \<and>
      sc_slots call = take (length (sc_tokens call)) (rm_slots m)"
    if "save_request a m = Inr (Some call, m')" for call m'
  proof -
    let ?s = "\<lparr>sv_skip = tk_saved tk, sv_can = \<not> skips_save a tk\<rparr>"
    have c: "store_call_of a m (skip_of a m ?s) = (call, m')"
      using that f(4) by (auto simp: save_request_def split: if_splits prod.splits)
    have "skip_of a m ?s \<le> tk_saved tk" by (auto simp: skip_of_def split: option.splits)
    then have "align_down (skip_of a m ?s) (a_chunk a) \<le> tk_saved tk"
      using align_down_bounds(1) [OF pos(2), of "skip_of a m ?s"] by linarith
    then show ?thesis using c len by (auto simp: store_call_of_def Let_def align_down_def min_def)
  qed
  show ?thesis using len tok assms(5) slot saved calls by auto
qed

theorem metadata_names_slots_witness:
  "\<exists>m tk'. from_request_tracker demo_adapter demo_tracker None = (Some m, tk') \<and> rm_slots m ! 3 = 7 \<and> tk_saved tk' = 4"
proof -
  obtain m tk' where m: "from_request_tracker demo_adapter demo_tracker None = (Some m, tk')" "length (rm_tokens m) = 4"
    "\<not> skips_save demo_adapter demo_tracker"
    by (simp add: from_request_tracker_def skips_save_def tokens_to_save_def last_prefill_def request_skip_def
        demo_adapter_def demo_tracker_def Let_def)
  have "tk_mm demo_tracker = []" "length (tk_tokens demo_tracker) \<le> length (tk_blocks demo_tracker) * nat (a_block_size demo_adapter)"
    by (simp_all add: demo_tracker_def demo_adapter_def)
  from metadata_names_slots [OF demo_adapter_ok m(1) this, of 3] m show ?thesis
    by (simp add: demo_tracker_def demo_adapter_def)
qed

definition demo_new_request :: "bool new_request" where
  "demo_new_request =
     \<lparr>nr_id = ''r'', nr_prompt = [11, 12, 13, 14, 15, 16, 17, 18], nr_blocks = Block_tuple [[5, 3, 7, 2]], nr_computed = 0,
      nr_params = None, nr_mm = []\<rparr>"

theorem saved_tokens_covered_witness:
  "\<exists>c ms tk. sched_run demo_adapter demo_client c ms {} \<and> c_trackers c ''r'' = Some tk \<and> tk_saved tk = 8 \<and>
    (\<exists>m \<in> set ms. stores_token demo_adapter m 3)"
proof -
  let ?so = "\<lparr>so_finished = [], so_new = [demo_new_request], so_cached = [], so_scheduled = [''r'' \<mapsto> 8]\<rparr>"
  obtain c m tk where b: "build_connector_meta demo_adapter (\<lambda>_. demo_request) ?so demo_conn = (Inr [m], c)"
    "c_trackers c ''r'' = Some tk" "tk_saved tk = 8" "length (rm_slots m) = length (rm_tokens m)"
    by (simp add: build_connector_meta_def build_new_def pop_load_def from_new_request_def unfold_block_ids_def
        emit_meta_def from_request_tracker_def skips_save_def tokens_to_save_def last_prefill_def request_skip_def
        drop_finished_def cached_tokens_def extract_request_configs_def demo_adapter_def demo_new_request_def
        demo_conn_def starts_with_def length_slots_of_blocks Let_def)
  have "sched_run demo_adapter demo_client demo_conn [] {}" by (rule sched_run.start) (simp_all add: demo_conn_def)
  from sched_run.built [OF this _ b(1)] have r: "sched_run demo_adapter demo_client c [m] {}"
    by (simp add: demo_request_def)
  have "a_role demo_adapter \<noteq> ''kv_consumer''" "int 3 < tk_saved tk" by (simp_all add: demo_adapter_def b(3))
  from saved_tokens_covered [OF r demo_adapter_ok b(2) this(2,1)] b(4)
  have "\<exists>m' \<in> set [m]. stores_token demo_adapter m' 3" by auto
  with r b(2,3) show ?thesis by (intro exI conjI)
qed

end
