(* ===== verification/Call_Trace.thy ===== *)
theory Call_Trace
  imports Hcu_Prelude
begin

text \<open>
  Computations that call other components. The other side is not part of the model: its answer to a call
  may depend on everything that was called before, so a computation runs on the trace of the calls so
  far, and every call appends itself with its answer. A property that holds for all answers holds for
  every behaviour of the other side, its failures included.
\<close>

named_theorems trace_simps \<open>runs of the combinators\<close>

type_synonym ('x, 'c) act = "'c list \<Rightarrow> 'x res \<times> 'c list"

definition ret :: "'x \<Rightarrow> ('x, 'c) act" where
  "ret x h = (Inr x, h)"

definition fail :: "exn \<Rightarrow> ('x, 'c) act" where
  "fail e h = (Inl e, h)"

definition ask :: "('c list \<Rightarrow> 'x res) \<Rightarrow> ('x res \<Rightarrow> 'c) \<Rightarrow> ('x, 'c) act" where
  "ask reply entry h = (reply h, h @ [entry (reply h)])"

definition then_do :: "('x, 'c) act \<Rightarrow> ('x \<Rightarrow> ('y, 'c) act) \<Rightarrow> ('y, 'c) act" where
  "then_do f g h = (case f h of (Inl e, h') \<Rightarrow> (Inl e, h') | (Inr x, h') \<Rightarrow> g x h')"

fun do_each :: "('a \<Rightarrow> (unit, 'c) act) \<Rightarrow> 'a list \<Rightarrow> (unit, 'c) act" where
  "do_each f [] = ret ()"
| "do_each f (x # xs) = then_do (f x) (\<lambda>_. do_each f xs)"

text \<open>A loop that adds up what each element yields.\<close>

fun sum_each :: "('a \<Rightarrow> (int, 'c) act) \<Rightarrow> 'a list \<Rightarrow> int \<Rightarrow> (int, 'c) act" where
  "sum_each f [] acc = ret acc"
| "sum_each f (x # xs) acc = then_do (f x) (\<lambda>n. sum_each f xs (acc + n))"

lemma ret_run [trace_simps]: "ret x h = (Inr x, h)"
  by (simp add: ret_def)

lemma fail_run [trace_simps]: "fail e h = (Inl e, h)"
  by (simp add: fail_def)

lemma ask_run [trace_simps]: "ask reply entry h = (reply h, h @ [entry (reply h)])"
  by (simp add: ask_def)

lemma then_do_ok [trace_simps]: "f h = (Inr x, h') \<Longrightarrow> then_do f g h = g x h'"
  by (simp add: then_do_def)

lemma then_do_err [trace_simps]: "f h = (Inl e, h') \<Longrightarrow> then_do f g h = (Inl e, h')"
  by (simp add: then_do_def)

lemma then_do_InrE:
  assumes "then_do f g h = (Inr y, h2)"
  obtains x h1 where "f h = (Inr x, h1)" "g x h1 = (Inr y, h2)"
  using assms by (auto simp: then_do_def split: prod.splits sum.splits)

lemma then_do_InlE:
  assumes "then_do f g h = (Inl e, h2)"
  obtains "f h = (Inl e, h2)" | x h1 where "f h = (Inr x, h1)" "g x h1 = (Inl e, h2)"
  using assms by (auto simp: then_do_def split: prod.splits sum.splits)

lemma then_do_Inr_iff:
  "then_do f g h = (Inr y, h2) \<longleftrightarrow> (\<exists>x h1. f h = (Inr x, h1) \<and> g x h1 = (Inr y, h2))"
  by (auto simp: then_do_def split: prod.splits sum.splits)

lemma ask_Inr_iff: "ask reply entry h = (Inr x, h') \<longleftrightarrow> reply h = Inr x \<and> h' = h @ [entry (Inr x)]"
  by (auto simp: ask_def)

lemma ret_Inr_iff: "ret x h = (Inr y, h') \<longleftrightarrow> y = x \<and> h' = h"
  by (auto simp: ret_def)

lemma fail_Inr_iff: "fail e h = (Inr y, h') \<longleftrightarrow> False"
  by (simp add: fail_def)

lemmas run_iffs = then_do_Inr_iff ask_Inr_iff ret_Inr_iff fail_Inr_iff

lemma ask_InrE:
  assumes "ask reply entry h = (Inr x, h')"
  obtains "reply h = Inr x" "h' = h @ [entry (Inr x)]"
  using assms by (auto simp: ask_def)

section \<open>Traces only grow\<close>

definition grows :: "('x, 'c) act \<Rightarrow> bool" where
  "grows f \<longleftrightarrow> (\<forall>h. \<exists>new. snd (f h) = h @ new)"

named_theorems grows_intros \<open>computations that only append to the trace\<close>

lemma growsE:
  assumes "grows f" "f h = (r, h')"
  obtains new where "h' = h @ new"
  using assms unfolding grows_def by (metis snd_conv)

lemma grows_ret [grows_intros]: "grows (ret x)"
  by (simp add: grows_def ret_def)

lemma grows_fail [grows_intros]: "grows (fail e)"
  by (simp add: grows_def fail_def)

lemma grows_ask [grows_intros]: "grows (ask reply entry)"
  by (simp add: grows_def ask_def)

lemma grows_then_do [grows_intros]:
  assumes "grows f" "\<And>x. grows (g x)"
  shows "grows (then_do f g)"
  unfolding grows_def
proof
  fix h
  obtain r h1 where f: "f h = (r, h1)" by (cases "f h")
  obtain n1 where n1: "h1 = h @ n1" by (rule growsE [OF assms(1) f])
  show "\<exists>new. snd (then_do f g h) = h @ new"
  proof (cases r)
    case (Inl e)
    then show ?thesis using f n1 by (simp add: then_do_def)
  next
    case (Inr x)
    obtain r2 h2 where g: "g x h1 = (r2, h2)" by (cases "g x h1")
    obtain n2 where "h2 = h1 @ n2" by (rule growsE [OF assms(2) g])
    then show ?thesis using f g n1 Inr by (simp add: then_do_def)
  qed
qed

lemma grows_do_each [grows_intros]: "(\<And>x. grows (f x)) \<Longrightarrow> grows (do_each f xs)"
  by (induction xs) (auto intro: grows_intros)

lemma grows_if [grows_intros]: "grows f \<Longrightarrow> grows g \<Longrightarrow> grows (if b then f else g)"
  by simp

text \<open>What a computation that ended well has appended, piece by piece.\<close>

lemma do_each_pieces:
  assumes "do_each f xs h = (Inr u, h')" "\<And>x h h'. x \<in> set xs \<Longrightarrow> f x h = (Inr (), h') \<Longrightarrow> h' = h @ t x"
  shows "h' = h @ concat (map t xs)"
  using assms
proof (induction xs arbitrary: h)
  case Nil
  then show ?case by (simp add: ret_def)
next
  case (Cons x xs)
  obtain y h1 where f: "f x h = (Inr y, h1)" and rest: "do_each f xs h1 = (Inr u, h')"
    using Cons.prems(1) by (auto elim: then_do_InrE)
  have "h1 = h @ t x" by (rule Cons.prems(2)) (use f in simp_all)
  with Cons.IH [OF rest] Cons.prems(2) show ?case by simp
qed

end
