(* ===== verification/Storage_Backends.thy ===== *)
theory Storage_Backends
  imports Call_Trace Block_Plans Py_Hash
begin

text \<open>
  The table of storage backends that the storage manager keeps
  (\<^verbatim>\<open>v1/storage_backend/storage_manager.py\<close>) and what it asks of them. The backends belong to LMCache and to
  the other modules of the repository; their answers are functions of everything that was called before.
  Here are the calls, the selection of backends by freeze mode, bypass and filters, and the creation,
  closing and replacement of backends with the references that are derived from the table.
\<close>

section \<open>Calls\<close>

text \<open>
  \<open>'b\<close> backends, \<open>'k\<close> keys, \<open>'o\<close> memory objects, \<open>'q\<close> arguments that are only passed on (shapes, formats,
  transfer specifications). A profile is \<open>Some\<close> if the keyword argument is given. \<open>nat\<close> in an answer is
  a count or the number of a future.
  \<open>upper_call\<close> are the calls of the cache engine above the manager: to the GPU connector, to the events of
  the asynchronous loads and to the other ranks.
\<close>

datatype ('b, 'k, 'o, 'q) upper_call =
    From_gpu "'o list" "int list" "int list" "unit res"
  | To_gpu "'o list" "int list" "int list" "unit res"
  | From_gpu_start "'o list list" "int list" "int list" "unit res"
  | From_gpu_next "unit res"
  | To_gpu_start "int list" "int list" "unit res"
  | To_gpu_send "'o list" "unit res"
  | To_gpu_next "unit res"
  | Await nat "'o list res"
  | Unpin_object 'o "unit res"
  | Pop_event string
  | Recode 'o "'o res"
  | Send_put 'b "'k list" "'o list" "unit res"
  | Send_count nat "unit res"
  | Send_chunk int int 'q "unit res"
  | Send_tensor bytes "unit res"
  | Recv_count "nat option res"
  | Recv_chunk "(int \<times> int \<times> 'q) option res"
  | Recv_tensor 'q "bytes res"
  | Wait_stream
  | Prefetch string "'k list" "int list" "string list option" bool
  | Close_worker "unit res"

datatype ('b, 'k, 'o, 'q) call =
    Contains 'b 'k bool "bool res"
  | Batched_contains 'b "'k list" bool "nat res"
  | Async_contains 'b string "'k list" bool "nat res"
  | Get 'b 'k "'o option res"
  | Get_later 'b 'k "nat option res"
  | Batched_get 'b "'k list" "'o option list res"
  | Batched_get_later 'b string "'k list" "int list option" "nat res"
  | Submit_one 'b 'k 'o "unit res"
  | Submit 'b "'k list" "'o list" "'q option" "string option option" "unit res"
  | Allocate 'b 'q bool bool "'o option res"
  | Batched_allocate 'b 'q nat bool bool "'o list option res"
  | Copy 'o 'o "unit res"
  | Synchronize "unit res"
  | Ref_down 'o
  | Direct_put 'b "'k list" "descriptor option list" "string option option" "bool list res"
  | Direct_get 'b "'k list" "descriptor option list" "string option option" "bool list res"
  | Touch 'b "unit res"
  | Remove_key 'b 'k "int res"
  | Batched_remove 'b "'k list" "int res"
  | Unpin_key 'b 'k "unit res"
  | Clear 'b "int res"
  | Set_hot 'b bool
  | Memcheck 'b "bool res"
  | Close 'b "unit res"
  | Create "string list" "(string \<times> 'b) list res"
  | Stop_loop
  | Join_thread
  | Event_added string
  | Event_done string
  | Respond string int
  | Above "('b, 'k, 'o, 'q) upper_call"

text \<open>What the manager can find out about a backend, and its answers.\<close>

record ('b, 'k, 'o, 'q) api =
  is_cpu :: "'b \<Rightarrow> bool"
  cname :: "'b \<Rightarrow> string"
  allocator_of :: "'b \<Rightarrow> 'b"
  profiled :: "'b \<Rightarrow> bool"
  has_direct_put :: "'b \<Rightarrow> bool"
  has_direct_get :: "'b \<Rightarrow> bool"
  direct_support :: "'b \<Rightarrow> (direction \<Rightarrow> bool) option"
  direct_enabled :: "'b \<Rightarrow> bool"
  has_clear :: "'b \<Rightarrow> bool"
  is_allocator :: "'b \<Rightarrow> bool"
  owns_memory :: "'b \<Rightarrow> bool"
  pd_sender :: "'b \<Rightarrow> bool"
  hot :: "('b, 'k, 'o, 'q) call list \<Rightarrow> 'b \<Rightarrow> bool"
  like :: "'o \<Rightarrow> 'q"
  no_tensor :: "'o \<Rightarrow> bool"
  re_contains :: "('b, 'k, 'o, 'q) call list \<Rightarrow> 'b \<Rightarrow> 'k \<Rightarrow> bool \<Rightarrow> bool res"
  re_batched_contains :: "('b, 'k, 'o, 'q) call list \<Rightarrow> 'b \<Rightarrow> 'k list \<Rightarrow> bool \<Rightarrow> nat res"
  re_async_contains :: "('b, 'k, 'o, 'q) call list \<Rightarrow> 'b \<Rightarrow> string \<Rightarrow> 'k list \<Rightarrow> bool \<Rightarrow> nat res"
  re_get :: "('b, 'k, 'o, 'q) call list \<Rightarrow> 'b \<Rightarrow> 'k \<Rightarrow> 'o option res"
  re_get_later :: "('b, 'k, 'o, 'q) call list \<Rightarrow> 'b \<Rightarrow> 'k \<Rightarrow> nat option res"
  re_batched_get :: "('b, 'k, 'o, 'q) call list \<Rightarrow> 'b \<Rightarrow> 'k list \<Rightarrow> 'o option list res"
  re_batched_get_later :: "('b, 'k, 'o, 'q) call list \<Rightarrow> 'b \<Rightarrow> string \<Rightarrow> 'k list \<Rightarrow> nat res"
  re_submit_one :: "('b, 'k, 'o, 'q) call list \<Rightarrow> 'b \<Rightarrow> 'k \<Rightarrow> 'o \<Rightarrow> unit res"
  re_submit :: "('b, 'k, 'o, 'q) call list \<Rightarrow> 'b \<Rightarrow> 'k list \<Rightarrow> 'o list \<Rightarrow> unit res"
  re_allocate :: "('b, 'k, 'o, 'q) call list \<Rightarrow> 'b \<Rightarrow> 'q \<Rightarrow> 'o option res"
  re_batched_allocate :: "('b, 'k, 'o, 'q) call list \<Rightarrow> 'b \<Rightarrow> 'q \<Rightarrow> nat \<Rightarrow> 'o list option res"
  re_copy :: "('b, 'k, 'o, 'q) call list \<Rightarrow> 'o \<Rightarrow> 'o \<Rightarrow> unit res"
  re_synchronize :: "('b, 'k, 'o, 'q) call list \<Rightarrow> unit res"
  re_direct :: "('b, 'k, 'o, 'q) call list \<Rightarrow> 'b \<Rightarrow> 'k list \<Rightarrow> descriptor option list \<Rightarrow> bool list res"
  re_touch :: "('b, 'k, 'o, 'q) call list \<Rightarrow> 'b \<Rightarrow> unit res"
  re_remove :: "('b, 'k, 'o, 'q) call list \<Rightarrow> 'b \<Rightarrow> 'k \<Rightarrow> int res"
  re_batched_remove :: "('b, 'k, 'o, 'q) call list \<Rightarrow> 'b \<Rightarrow> 'k list \<Rightarrow> int res"
  re_unpin :: "('b, 'k, 'o, 'q) call list \<Rightarrow> 'b \<Rightarrow> 'k \<Rightarrow> unit res"
  re_clear :: "('b, 'k, 'o, 'q) call list \<Rightarrow> 'b \<Rightarrow> int res"
  re_memcheck :: "('b, 'k, 'o, 'q) call list \<Rightarrow> 'b \<Rightarrow> bool res"
  re_close :: "('b, 'k, 'o, 'q) call list \<Rightarrow> 'b \<Rightarrow> unit res"
  re_create :: "('b, 'k, 'o, 'q) call list \<Rightarrow> string list \<Rightarrow> (string \<times> 'b) list res"

section \<open>The manager\<close>

text \<open>
  \<open>m_backends\<close> keeps the order of creation. \<open>m_use_cpu\<close> is \<^verbatim>\<open>config.local_cpu\<close>, \<open>m_stream\<close> whether there is a
  copy stream.
\<close>

record 'b manager =
  m_backends :: "(string \<times> 'b) list"
  m_frozen :: bool
  m_bypassed :: "string set"
  m_allocator :: "'b option"
  m_local_cpu :: "'b option"
  m_non_allocator :: "string list"
  m_use_cpu :: bool
  m_enable_pd :: bool
  m_stream :: bool

abbreviation LocalCPU :: string where
  "LocalCPU \<equiv> ''LocalCPUBackend''"

abbreviation PD :: string where
  "PD \<equiv> ''PDBackend''"

definition active_backend :: "'b manager \<Rightarrow> string option \<Rightarrow> string list option \<Rightarrow> string \<Rightarrow> bool" where
  "active_backend m location search_range n \<longleftrightarrow>
     (m_frozen m \<longrightarrow> n = LocalCPU) \<and> n \<notin> m_bypassed m \<and>
     (case location of None \<Rightarrow> True | Some l \<Rightarrow> l = [] \<or> n = l) \<and>
     (case search_range of None \<Rightarrow> True | Some r \<Rightarrow> r = [] \<or> n \<in> set r)"

definition get_active_storage_backends ::
    "'b manager \<Rightarrow> string option \<Rightarrow> string list option \<Rightarrow> (string \<times> 'b) list" where
  "get_active_storage_backends m location search_range =
     filter (\<lambda>(n, b). active_backend m location search_range n) (m_backends m)"

definition get_non_allocator_backends :: "('b, 'k, 'o, 'q) api \<Rightarrow> 'b manager \<Rightarrow> string list" where
  "get_non_allocator_backends api m =
     map fst (filter (\<lambda>(n, b). \<not> (n = LocalCPU \<and> \<not> m_use_cpu m) \<and> \<not> (n = PD \<and> pd_sender api b)) (m_backends m))"

definition get_all_backend_names :: "'b manager \<Rightarrow> string list" where
  "get_all_backend_names m = map fst (m_backends m)"

definition list_backends :: "('b, 'k, 'o, 'q) api \<Rightarrow> 'b manager \<Rightarrow> (string \<times> string) list" where
  "list_backends api m = map (\<lambda>(n, b). (n, cname api b)) (m_backends m)"

section \<open>Modes\<close>

definition set_freeze :: "bool \<Rightarrow> 'b manager \<Rightarrow> 'b manager" where
  "set_freeze b m = m\<lparr>m_frozen := b\<rparr>"

definition is_frozen :: "'b manager \<Rightarrow> bool" where
  "is_frozen m = m_frozen m"

definition set_backend_bypass :: "string \<Rightarrow> bool \<Rightarrow> 'b manager \<Rightarrow> 'b manager" where
  "set_backend_bypass n b m = m\<lparr>m_bypassed := (if b then insert n (m_bypassed m) else m_bypassed m - {n})\<rparr>"

definition is_backend_bypassed :: "'b manager \<Rightarrow> string \<Rightarrow> bool" where
  "is_backend_bypassed m n \<longleftrightarrow> n \<in> m_bypassed m"

text \<open>Switching the hot cache off empties it first; without a local CPU backend nothing happens.\<close>

definition set_hot_cache :: "('b, 'k, 'o, 'q) api \<Rightarrow> 'b manager \<Rightarrow> bool \<Rightarrow> (unit, ('b, 'k, 'o, 'q) call) act" where
  "set_hot_cache api m b =
     (case m_local_cpu m of
        None \<Rightarrow> ret ()
      | Some cpu \<Rightarrow>
          if \<not> is_cpu api cpu then ret ()
          else then_do (if b then ret 0 else ask (\<lambda>h. re_clear api h cpu) (Clear cpu))
            (\<lambda>_. ask (\<lambda>_. Inr ()) (\<lambda>_. Set_hot cpu b)))"

definition is_hot_cache_enabled :: "('b, 'k, 'o, 'q) api \<Rightarrow> 'b manager \<Rightarrow> ('b, 'k, 'o, 'q) call list \<Rightarrow> bool" where
  "is_hot_cache_enabled api m h = (case m_local_cpu m of None \<Rightarrow> False | Some cpu \<Rightarrow> is_cpu api cpu \<and> hot api h cpu)"

section \<open>Creation and closing\<close>

text \<open>
  The end of \<^verbatim>\<open>create_backends\<close> and of \<^verbatim>\<open>recreate_backend\<close>: the new backends enter the table, then the
  derived references are refreshed. \<open>gone\<close> is the name of the backend that was replaced, if any.
\<close>

definition enter_backends :: "(string \<times> 'b) list \<Rightarrow> (string \<times> 'b) list \<Rightarrow> (string \<times> 'b) list" where
  "enter_backends new table = foldl (\<lambda>t (n, b). dict_put n b t) table new"

definition refresh :: "('b, 'k, 'o, 'q) api \<Rightarrow> string option \<Rightarrow> 'b manager \<Rightarrow> 'b manager" where
  "refresh api gone m =
     m\<lparr>m_non_allocator := get_non_allocator_backends api m,
       m_local_cpu := (case map_of (m_backends m) LocalCPU of
                         Some cpu \<Rightarrow> Some cpu
                       | None \<Rightarrow> if gone = Some LocalCPU then None else m_local_cpu m)\<rparr>"

definition create_step ::
    "('b, 'k, 'o, 'q) api \<Rightarrow> string option \<Rightarrow> 'b manager \<Rightarrow> ('b manager, ('b, 'k, 'o, 'q) call) act" where
  "create_step api gone m =
     then_do (ask (\<lambda>h. re_create api h (map fst (m_backends m))) (Create (map fst (m_backends m))))
       (\<lambda>new. ret (refresh api gone (m\<lparr>m_backends := enter_backends new (m_backends m)\<rparr>)))"

definition create_backends :: "('b, 'k, 'o, 'q) api \<Rightarrow> 'b manager \<Rightarrow> ('b manager, ('b, 'k, 'o, 'q) call) act" where
  "create_backends api m = create_step api None m"

text \<open>Closing: an exception is logged and swallowed.\<close>

definition close_quietly :: "('b, 'k, 'o, 'q) api \<Rightarrow> 'b \<Rightarrow> (unit, ('b, 'k, 'o, 'q) call) act" where
  "close_quietly api b h = (Inr (), h @ [Close b (re_close api h b)])"

definition close_backend ::
    "('b, 'k, 'o, 'q) api \<Rightarrow> string \<Rightarrow> 'b manager \<Rightarrow> (bool \<times> 'b manager, ('b, 'k, 'o, 'q) call) act" where
  "close_backend api n m =
     (case map_of (m_backends m) n of
        None \<Rightarrow> ret (False, m)
      | Some b \<Rightarrow> then_do (close_quietly api b)
          (\<lambda>_. let m1 = m\<lparr>m_backends := dict_del n (m_backends m)\<rparr>
               in ret (True, m1\<lparr>m_non_allocator := get_non_allocator_backends api m1,
                                m_local_cpu := (if n = LocalCPU then None else m_local_cpu m1)\<rparr>)))"

text \<open>If the creation raises, the backend is gone from the table, but the references are not refreshed.\<close>

definition recreate_backend ::
    "('b, 'k, 'o, 'q) api \<Rightarrow> string \<Rightarrow> 'b manager \<Rightarrow> ('b, 'k, 'o, 'q) call list \<Rightarrow>
     ('b manager res \<times> 'b manager) \<times> ('b, 'k, 'o, 'q) call list" where
  "recreate_backend api n m h =
     (case map_of (m_backends m) n of
        None \<Rightarrow> ((Inl (KeyError n), m), h)
      | Some b \<Rightarrow>
          let m1 = m\<lparr>m_backends := dict_del n (m_backends m)\<rparr>
          in (case close_quietly api b h of
                (x, h1) \<Rightarrow>
                  (case create_step api (Some n) m1 h1 of
                     (Inl e, h2) \<Rightarrow> ((Inl e, m1), h2)
                   | (Inr m2, h2) \<Rightarrow> ((Inr m2, m2), h2))))"

text \<open>
  The constructor: the backends are created, then the references are taken from the table. \<open>worker\<close> is
  whether the role is not the scheduler's, \<open>async_loading\<close> the option that needs an allocator.
\<close>

definition get_allocator_backend :: "('b, 'k, 'o, 'q) api \<Rightarrow> 'b manager \<Rightarrow> 'b option res" where
  "get_allocator_backend api m =
     (if m_enable_pd m then
        (case map_of (m_backends m) PD of
           None \<Rightarrow> Inl (KeyError PD)
         | Some b \<Rightarrow> if is_allocator api b then Inr (Some b) else Inl (AssertionError ''allocator''))
      else
        (case map_of (m_backends m) LocalCPU of
           None \<Rightarrow> Inr None
         | Some b \<Rightarrow> if is_allocator api b then Inr (Some b) else Inl (AssertionError ''allocator'')))"

definition new_manager :: "bool \<Rightarrow> bool \<Rightarrow> bool \<Rightarrow> 'b manager" where
  "new_manager use_cpu pd stream =
     \<lparr>m_backends = [], m_frozen = False, m_bypassed = {}, m_allocator = None, m_local_cpu = None,
      m_non_allocator = [], m_use_cpu = use_cpu, m_enable_pd = pd, m_stream = stream\<rparr>"

definition manager_init ::
    "('b, 'k, 'o, 'q) api \<Rightarrow> bool \<Rightarrow> bool \<Rightarrow> bool \<Rightarrow> bool \<Rightarrow> bool \<Rightarrow> ('b manager, ('b, 'k, 'o, 'q) call) act" where
  "manager_init api use_cpu pd worker cuda async_loading =
     then_do (create_backends api (new_manager use_cpu pd cuda))
       (\<lambda>m. case (if worker then get_allocator_backend api m else Inr None) of
              Inl e \<Rightarrow> fail e
            | Inr alloc \<Rightarrow>
                if \<not> pd \<and> async_loading \<and> alloc = None then fail (AssertionError ''allocator_backend'')
                else ret (m\<lparr>m_allocator := alloc, m_local_cpu := map_of (m_backends m) LocalCPU\<rparr>))"

end
