(* ===== verification/Storage_Manager.thy ===== *)
theory Storage_Manager
  imports Storage_Backends
begin

text \<open>
  The operations of the storage manager that pass stores, loads, look-ups and removals on to the active
  backends, and the release of the memory objects they handle.
\<close>

section \<open>Allocation and stores\<close>

definition manager_allocate ::
    "('b, 'k, 'o, 'q) api \<Rightarrow> 'b manager \<Rightarrow> 'q \<Rightarrow> bool \<Rightarrow> bool \<Rightarrow> ('o option, ('b, 'k, 'o, 'q) call) act" where
  "manager_allocate api m q eviction busy =
     (case m_allocator m of
        None \<Rightarrow> ret None
      | Some b \<Rightarrow> ask (\<lambda>h. re_allocate api h b q) (Allocate b q eviction busy))"

definition manager_batched_allocate ::
    "('b, 'k, 'o, 'q) api \<Rightarrow> 'b manager \<Rightarrow> 'q \<Rightarrow> nat \<Rightarrow> bool \<Rightarrow> bool \<Rightarrow> ('o list option, ('b, 'k, 'o, 'q) call) act" where
  "manager_batched_allocate api m q n eviction busy =
     (case m_allocator m of
        None \<Rightarrow> fail (RuntimeError ''Allocator backend not available for scheduler role'')
      | Some b \<Rightarrow> ask (\<lambda>h. re_batched_allocate api h b q n) (Batched_allocate b q n eviction busy))"

definition put_deprecated :: "(unit, 'c) act" where
  "put_deprecated = fail (RuntimeError ''StorageManager.put is deprecated and should not be called anymore'')"

definition ref_count_down :: "'o \<Rightarrow> (unit, ('b, 'k, 'o, 'q) call) act" where
  "ref_count_down o' = ask (\<lambda>_. Inr ()) (\<lambda>_. Ref_down o')"

text \<open>
  Copies of the objects whose keys the allocator does not hold yet, with the keys they belong to; the
  loop ends when the allocator has no memory left. Without a copy stream the final synchronisation
  fails.
\<close>

fun copy_loop ::
    "('b, 'k, 'o, 'q) api \<Rightarrow> 'b \<Rightarrow> ('k \<times> 'o) list \<Rightarrow> 'k list \<Rightarrow> 'o list \<Rightarrow>
     ('k list \<times> 'o list, ('b, 'k, 'o, 'q) call) act" where
  "copy_loop api alloc [] ks objs = ret (ks, objs)"
| "copy_loop api alloc ((k, src) # rest) ks objs =
     then_do (ask (\<lambda>h. re_contains api h alloc k False) (Contains alloc k False))
       (\<lambda>held. if held then copy_loop api alloc rest ks objs
         else then_do (ask (\<lambda>h. re_allocate api h alloc (like api src)) (Allocate alloc (like api src) True False))
           (\<lambda>got. case got of
              None \<Rightarrow> ret (ks, objs)
            | Some dst \<Rightarrow>
                if no_tensor api dst then then_do (ref_count_down dst) (\<lambda>_. ret (ks, objs))
                else then_do (ask (\<lambda>h. re_copy api h dst src) (Copy dst src))
                  (\<lambda>_. copy_loop api alloc rest (ks @ [k]) (objs @ [dst]))))"

definition allocate_and_copy_objects ::
    "('b, 'k, 'o, 'q) api \<Rightarrow> bool \<Rightarrow> 'b \<Rightarrow> 'k list \<Rightarrow> 'o list \<Rightarrow> ('k list \<times> 'o list, ('b, 'k, 'o, 'q) call) act" where
  "allocate_and_copy_objects api stream alloc ks srcs =
     then_do (copy_loop api alloc (zip ks srcs) [] [])
       (\<lambda>res. if stream then then_do (ask (re_synchronize api) Synchronize) (\<lambda>_. ret res)
          else fail (AttributeError ''synchronize''))"

text \<open>
  A batched store: every allocator gets its own copies once, then every selected backend gets the
  objects of its allocator; at the end every object of every allocator is released. Unlike the
  retrievals, stores ignore the freeze mode.
\<close>

type_synonym ('k, 'o) obj_dict = "(string \<times> ('k list \<times> 'o list)) list"

definition objects_for ::
    "('b, 'k, 'o, 'q) api \<Rightarrow> bool \<Rightarrow> 'b \<Rightarrow> 'k list \<Rightarrow> 'o list \<Rightarrow> ('k, 'o) obj_dict \<Rightarrow>
     (('k, 'o) obj_dict, ('b, 'k, 'o, 'q) call) act" where
  "objects_for api stream b ks objs d =
     (let alloc = allocator_of api b; c = cname api alloc in
      if c \<in> fst ` set d then ret d
      else then_do (allocate_and_copy_objects api stream alloc ks objs) (\<lambda>new. ret (dict_put c new d)))"

definition submit_to ::
    "('b, 'k, 'o, 'q) api \<Rightarrow> 'b \<Rightarrow> 'q option \<Rightarrow> string option \<Rightarrow> ('k, 'o) obj_dict \<Rightarrow>
     (unit, ('b, 'k, 'o, 'q) call) act" where
  "submit_to api b spec profile d =
     (case map_of d (cname api (allocator_of api b)) of
        None \<Rightarrow> fail (KeyError (cname api (allocator_of api b)))
      | Some (ks, objs) \<Rightarrow>
          ask (\<lambda>h. re_submit api h b ks objs)
            (Submit b ks objs spec (if profiled api b then Some profile else None)))"

fun put_loop ::
    "('b, 'k, 'o, 'q) api \<Rightarrow> 'b manager \<Rightarrow> 'k list \<Rightarrow> 'o list \<Rightarrow> 'q option \<Rightarrow> string option \<Rightarrow> string option \<Rightarrow>
     (string \<times> 'b) list \<Rightarrow> ('k, 'o) obj_dict \<Rightarrow> (('k, 'o) obj_dict, ('b, 'k, 'o, 'q) call) act" where
  "put_loop api m ks objs spec location profile [] d = ret d"
| "put_loop api m ks objs spec location profile ((n, b) # bs) d =
     (if (case location of None \<Rightarrow> False | Some l \<Rightarrow> l \<noteq> [] \<and> n \<noteq> l) \<or> n \<in> m_bypassed m
        then put_loop api m ks objs spec location profile bs d
      else then_do (objects_for api (m_stream m) b ks objs d)
        (\<lambda>d'. then_do (submit_to api b spec profile d')
          (\<lambda>_. put_loop api m ks objs spec location profile bs d')))"

definition dict_objects :: "('k, 'o) obj_dict \<Rightarrow> 'o list" where
  "dict_objects d = concat (map (\<lambda>(c, ks, objs). objs) d)"

definition batched_put ::
    "('b, 'k, 'o, 'q) api \<Rightarrow> 'b manager \<Rightarrow> 'k list \<Rightarrow> 'o list \<Rightarrow> 'q option \<Rightarrow> string option \<Rightarrow> string option \<Rightarrow>
     (unit, ('b, 'k, 'o, 'q) call) act" where
  "batched_put api m ks objs spec location profile =
     (case m_allocator m of
        None \<Rightarrow> fail (RuntimeError ''Batched put not available for scheduler role'')
      | Some alloc \<Rightarrow>
          then_do (put_loop api m ks objs spec location profile (m_backends m) [(cname api alloc, ks, objs)])
            (\<lambda>d. do_each ref_count_down (dict_objects d)))"

section \<open>Direct transfers\<close>

definition manager_direct_put ::
    "('b, 'k, 'o, 'q) api \<Rightarrow> 'b manager \<Rightarrow> 'k list \<Rightarrow> plan list \<Rightarrow> string option \<Rightarrow> string option \<Rightarrow>
     (bool list, ('b, 'k, 'o, 'q) call) act" where
  "manager_direct_put api m ks plans location profile =
     (if length plans \<noteq> length ks then ret (replicate (length ks) False)
      else case location of
        None \<Rightarrow> ret (replicate (length ks) False)
      | Some l \<Rightarrow>
          (case map_of (m_backends m) l of
             None \<Rightarrow> ret (replicate (length ks) False)
           | Some b \<Rightarrow>
               if \<not> has_direct_put api b then ret (replicate (length ks) False)
               else ask (\<lambda>h. re_direct api h b ks (map plan_descriptor plans))
                 (Direct_put b ks (map plan_descriptor plans) (if profiled api b then Some profile else None))))"

definition manager_direct_get ::
    "('b, 'k, 'o, 'q) api \<Rightarrow> 'b manager \<Rightarrow> 'k list \<Rightarrow> plan list \<Rightarrow> string \<Rightarrow> string option \<Rightarrow>
     (bool list, ('b, 'k, 'o, 'q) call) act" where
  "manager_direct_get api m ks plans location profile =
     (if length plans \<noteq> length ks then ret (replicate (length ks) False)
      else case map_of (m_backends m) location of
        None \<Rightarrow> ret (replicate (length ks) False)
      | Some b \<Rightarrow>
          if \<not> has_direct_get api b then ret (replicate (length ks) False)
          else ask (\<lambda>h. re_direct api h b ks (map plan_descriptor plans))
            (Direct_get b ks (map plan_descriptor plans) (if profiled api b then Some profile else None)))"

definition manager_supports_direct_io ::
    "('b, 'k, 'o, 'q) api \<Rightarrow> 'b manager \<Rightarrow> string option \<Rightarrow> direction option \<Rightarrow> bool" where
  "manager_supports_direct_io api m location dir =
     (case location of
        None \<Rightarrow> False
      | Some l \<Rightarrow>
          (case map_of (m_backends m) l of
             None \<Rightarrow> False
           | Some b \<Rightarrow>
               (case (direct_support api b, dir) of
                  (Some supports, Some d) \<Rightarrow> supports d
                | _ \<Rightarrow> direct_enabled api b)))"

section \<open>Loads\<close>

text \<open>
  What a backend below the CPU cache delivers is written back to it: \<open>wants_write_back\<close> is the test,
  \<open>local_cpu\<close> the backend and its type check.
\<close>

definition wants_write_back :: "'b manager \<Rightarrow> string \<Rightarrow> bool" where
  "wants_write_back m n \<longleftrightarrow> n \<notin> {LocalCPU, PD} \<and> LocalCPU \<in> fst ` set (m_backends m)"

definition local_cpu :: "('b, 'k, 'o, 'q) api \<Rightarrow> 'b manager \<Rightarrow> 'b res" where
  "local_cpu api m =
     (case map_of (m_backends m) LocalCPU of
        None \<Rightarrow> Inl (KeyError LocalCPU)
      | Some cpu \<Rightarrow> if is_cpu api cpu then Inr cpu else Inl (AssertionError ''LocalCPUBackend''))"

fun get_loop ::
    "('b, 'k, 'o, 'q) api \<Rightarrow> 'b manager \<Rightarrow> 'k \<Rightarrow> (string \<times> 'b) list \<Rightarrow> ('o option, ('b, 'k, 'o, 'q) call) act" where
  "get_loop api m k [] = ret None"
| "get_loop api m k ((n, b) # bs) =
     then_do (ask (\<lambda>h. re_get api h b k) (Get b k))
       (\<lambda>got. case got of
          None \<Rightarrow> get_loop api m k bs
        | Some obj \<Rightarrow>
            if wants_write_back m n then
              (case local_cpu api m of
                 Inl e \<Rightarrow> fail e
               | Inr cpu \<Rightarrow> then_do (ask (\<lambda>h. re_submit_one api h cpu k obj) (Submit_one cpu k obj)) (\<lambda>_. ret (Some obj)))
            else ret (Some obj))"

definition manager_get ::
    "('b, 'k, 'o, 'q) api \<Rightarrow> 'b manager \<Rightarrow> 'k \<Rightarrow> string option \<Rightarrow> ('o option, ('b, 'k, 'o, 'q) call) act" where
  "manager_get api m k location = get_loop api m k (get_active_storage_backends m location None)"

fun get_later_loop ::
    "('b, 'k, 'o, 'q) api \<Rightarrow> 'k \<Rightarrow> (string \<times> 'b) list \<Rightarrow> (nat option, ('b, 'k, 'o, 'q) call) act" where
  "get_later_loop api k [] = ret None"
| "get_later_loop api k ((n, b) # bs) =
     then_do (ask (\<lambda>h. re_get_later api h b k) (Get_later b k))
       (\<lambda>task. case task of None \<Rightarrow> get_later_loop api k bs | Some t \<Rightarrow> ret (Some t))"

definition get_non_blocking ::
    "('b, 'k, 'o, 'q) api \<Rightarrow> 'b manager \<Rightarrow> 'k \<Rightarrow> string option \<Rightarrow> (nat option, ('b, 'k, 'o, 'q) call) act" where
  "get_non_blocking api m k location = get_later_loop api k (get_active_storage_backends m location None)"

fun batched_get_loop ::
    "('b, 'k, 'o, 'q) api \<Rightarrow> 'b manager \<Rightarrow> 'k list \<Rightarrow> (string \<times> 'b) list \<Rightarrow>
     ('o option list, ('b, 'k, 'o, 'q) call) act" where
  "batched_get_loop api m ks [] = ret (replicate (length ks) None)"
| "batched_get_loop api m ks ((n, b) # bs) =
     then_do (ask (\<lambda>h. re_batched_get api h b ks) (Batched_get b ks))
       (\<lambda>objs. if objs = [] then batched_get_loop api m ks bs
          else if wants_write_back m n \<and> None \<notin> set objs then
            (case local_cpu api m of
               Inl e \<Rightarrow> fail e
             | Inr cpu \<Rightarrow>
                 then_do (ask (\<lambda>h. re_submit api h cpu ks (map the objs)) (Submit cpu ks (map the objs) None None))
                   (\<lambda>_. ret objs))
          else ret objs)"

definition manager_batched_get ::
    "('b, 'k, 'o, 'q) api \<Rightarrow> 'b manager \<Rightarrow> 'k list \<Rightarrow> string option \<Rightarrow>
     ('o option list, ('b, 'k, 'o, 'q) call) act" where
  "manager_batched_get api m ks location =
     batched_get_loop api m ks (get_active_storage_backends m location None)"

text \<open>One round of the layer-wise generator: the future of one layer.\<close>

definition layerwise_batched_get ::
    "('b, 'k, 'o, 'q) api \<Rightarrow> 'b manager \<Rightarrow> string option \<Rightarrow> 'k list \<Rightarrow> (nat, ('b, 'k, 'o, 'q) call) act" where
  "layerwise_batched_get api m location ks =
     (let l = (case location of None \<Rightarrow> LocalCPU | Some l \<Rightarrow> l) in
      case map_of (m_backends m) l of
        None \<Rightarrow> fail (KeyError l)
      | Some b \<Rightarrow> ask (\<lambda>h. re_batched_get_later api h b ''fake_lookup_id'' ks)
          (Batched_get_later b ''fake_lookup_id'' ks None))"

section \<open>Look-ups\<close>

fun contains_loop ::
    "('b, 'k, 'o, 'q) api \<Rightarrow> 'k \<Rightarrow> bool \<Rightarrow> (string \<times> 'b) list \<Rightarrow> (string option, ('b, 'k, 'o, 'q) call) act" where
  "contains_loop api k pin [] = ret None"
| "contains_loop api k pin ((n, b) # bs) =
     then_do (ask (\<lambda>h. re_contains api h b k (pin \<and> n \<noteq> PD)) (Contains b k (pin \<and> n \<noteq> PD)))
       (\<lambda>hit. if hit then ret (Some n) else contains_loop api k pin bs)"

definition manager_contains ::
    "('b, 'k, 'o, 'q) api \<Rightarrow> 'b manager \<Rightarrow> 'k \<Rightarrow> string list option \<Rightarrow> bool \<Rightarrow>
     (string option, ('b, 'k, 'o, 'q) call) act" where
  "manager_contains api m k search_range pin =
     contains_loop api k pin (get_active_storage_backends m None search_range)"

fun prefix_loop ::
    "('b, 'k, 'o, 'q) api \<Rightarrow> bool \<Rightarrow> nat \<Rightarrow> (string \<times> 'b) list \<Rightarrow> 'k list \<Rightarrow> nat \<Rightarrow> (string \<times> 'k list) list \<Rightarrow>
     (nat \<times> (string \<times> 'k list) list, ('b, 'k, 'o, 'q) call) act" where
  "prefix_loop api pin wanted [] ks hits mapping = ret (hits, mapping)"
| "prefix_loop api pin wanted ((n, b) # bs) ks hits mapping =
     then_do (ask (\<lambda>h. re_batched_contains api h b ks (pin \<and> n \<noteq> PD)) (Batched_contains b ks (pin \<and> n \<noteq> PD)))
       (\<lambda>found. if found = 0 then prefix_loop api pin wanted bs ks hits mapping
          else
            let hits' = hits + found; mapping' = dict_put n (take found ks) mapping
            in if hits' = wanted then ret (hits', mapping')
               else prefix_loop api pin wanted bs (drop found ks) hits' mapping')"

definition manager_batched_contains ::
    "('b, 'k, 'o, 'q) api \<Rightarrow> 'b manager \<Rightarrow> 'k list \<Rightarrow> string list option \<Rightarrow> bool \<Rightarrow>
     (nat \<times> (string \<times> 'k list) list, ('b, 'k, 'o, 'q) call) act" where
  "manager_batched_contains api m ks search_range pin =
     prefix_loop api pin (length ks) (get_active_storage_backends m None search_range) ks 0 []"

text \<open>The same over chunks with their token ranges; \<open>infos[a:a+n]\<close> is the piece of a backend.\<close>

fun block_loop ::
    "('b, 'k, 'o, 'q) api \<Rightarrow> ('k \<times> int \<times> int) list \<Rightarrow> (string \<times> 'b) list \<Rightarrow> 'k list \<Rightarrow> nat \<Rightarrow>
     (string \<times> ('k \<times> int \<times> int) list) list \<Rightarrow>
     ((string \<times> ('k \<times> int \<times> int) list) list, ('b, 'k, 'o, 'q) call) act" where
  "block_loop api infos [] ks hits mapping = ret mapping"
| "block_loop api infos ((n, b) # bs) ks hits mapping =
     then_do (ask (\<lambda>h. re_batched_contains api h b ks False) (Batched_contains b ks False))
       (\<lambda>found. if found = 0 then block_loop api infos bs ks hits mapping
          else
            let mapping' = dict_put n (take found (drop hits infos)) mapping; hits' = hits + found
            in if hits' = length infos then ret mapping'
               else block_loop api infos bs (drop found ks) hits' mapping')"

definition get_block_mapping ::
    "('b, 'k, 'o, 'q) api \<Rightarrow> 'b manager \<Rightarrow> ('k \<times> int \<times> int) list \<Rightarrow>
     ((string \<times> ('k \<times> int \<times> int) list) list, ('b, 'k, 'o, 'q) call) act" where
  "get_block_mapping api m infos =
     block_loop api infos (get_active_storage_backends m None None) (map fst infos) 0 []"

section \<open>Removal and upkeep\<close>

definition in_locations :: "string list option \<Rightarrow> string \<Rightarrow> bool" where
  "in_locations locations n \<longleftrightarrow> (case locations of None \<Rightarrow> True | Some ls \<Rightarrow> n \<in> set ls)"

definition located :: "'b manager \<Rightarrow> string list option \<Rightarrow> 'b list" where
  "located m locations = map snd (filter (\<lambda>(n, b). in_locations locations n) (m_backends m))"

definition manager_remove ::
    "('b, 'k, 'o, 'q) api \<Rightarrow> 'b manager \<Rightarrow> 'k \<Rightarrow> string list option \<Rightarrow> (int, ('b, 'k, 'o, 'q) call) act" where
  "manager_remove api m k locations =
     sum_each (\<lambda>b. ask (\<lambda>h. re_remove api h b k) (Remove_key b k)) (located m locations) 0"

definition manager_batched_remove ::
    "('b, 'k, 'o, 'q) api \<Rightarrow> 'b manager \<Rightarrow> 'k list \<Rightarrow> string list option \<Rightarrow> (int, ('b, 'k, 'o, 'q) call) act" where
  "manager_batched_remove api m ks locations =
     sum_each (\<lambda>b. ask (\<lambda>h. re_batched_remove api h b ks) (Batched_remove b ks)) (located m locations) 0"

definition batched_unpin ::
    "('b, 'k, 'o, 'q) api \<Rightarrow> 'b manager \<Rightarrow> 'k list \<Rightarrow> string list option \<Rightarrow> (unit, ('b, 'k, 'o, 'q) call) act" where
  "batched_unpin api m ks locations =
     do_each (\<lambda>b. do_each (\<lambda>k. ask (\<lambda>h. re_unpin api h b k) (Unpin_key b k)) ks) (located m locations)"

definition manager_clear ::
    "('b, 'k, 'o, 'q) api \<Rightarrow> 'b manager \<Rightarrow> string list option \<Rightarrow> (int, ('b, 'k, 'o, 'q) call) act" where
  "manager_clear api m locations =
     sum_each (\<lambda>b. if has_clear api b then ask (\<lambda>h. re_clear api h b) (Clear b) else ret 0) (located m locations) 0"

definition touch_caches :: "('b, 'k, 'o, 'q) api \<Rightarrow> 'b manager \<Rightarrow> (unit, ('b, 'k, 'o, 'q) call) act" where
  "touch_caches api m =
     do_each (\<lambda>b. ask (\<lambda>h. re_touch api h b) (Touch b))
       (located m (Some [LocalCPU, ''LocalDiskBackend'', ''XdsBackend'']))"

fun memcheck_loop :: "('b, 'k, 'o, 'q) api \<Rightarrow> 'b list \<Rightarrow> (bool, ('b, 'k, 'o, 'q) call) act" where
  "memcheck_loop api [] = ret True"
| "memcheck_loop api (b # bs) =
     (if \<not> is_allocator api b \<or> \<not> owns_memory api b then memcheck_loop api bs
      else then_do (ask (\<lambda>h. re_memcheck api h b) (Memcheck b)) (\<lambda>good. if good then memcheck_loop api bs else ret False))"

definition manager_memcheck :: "('b, 'k, 'o, 'q) api \<Rightarrow> 'b manager \<Rightarrow> (bool, ('b, 'k, 'o, 'q) call) act" where
  "manager_memcheck api m = memcheck_loop api (map snd (m_backends m))"

section \<open>Shutdown\<close>

text \<open>
  Backends are closed in the reverse order of their creation. After the first failure the allocators
  that others borrow from stay open.
\<close>

fun close_loop ::
    "('b, 'k, 'o, 'q) api \<Rightarrow> (string \<times> 'b) list \<Rightarrow> exn option \<Rightarrow> (exn option, ('b, 'k, 'o, 'q) call) act" where
  "close_loop api [] err = ret err"
| "close_loop api ((n, b) # bs) err =
     (if err \<noteq> None \<and> n \<in> {LocalCPU, PD} then close_loop api bs err
      else (\<lambda>h. close_loop api bs
             (case (err, re_close api h b) of (None, Inl e) \<Rightarrow> Some e | _ \<Rightarrow> err)
             (h @ [Close b (re_close api h b)])))"

definition manager_close ::
    "('b, 'k, 'o, 'q) api \<Rightarrow> 'b manager \<Rightarrow> bool \<Rightarrow> bool \<Rightarrow> (unit, ('b, 'k, 'o, 'q) call) act" where
  "manager_close api m loop_running thread_alive =
     then_do (close_loop api (rev (m_backends m)) None)
       (\<lambda>err. then_do (if loop_running then ask (\<lambda>_. Inr ()) (\<lambda>_. Stop_loop) else ret ())
         (\<lambda>_. then_do (if thread_alive then ask (\<lambda>_. Inr ()) (\<lambda>_. Join_thread) else ret ())
           (\<lambda>_. case err of None \<Rightarrow> ret () | Some e \<Rightarrow> fail e)))"

end
