(* ===== verification/Storage_Routing.thy ===== *)
theory Storage_Routing
  imports Storage_Manager Xds_Lifecycle
begin

text \<open>
  What the routing of the storage manager guarantees: which backend holds which part of a prefix, that no
  memory object is lost or released twice by a store, that copies keep their keys, and the order of the
  shutdown.
\<close>

section \<open>Prefixes over several backends\<close>

text \<open>
  The contract of a backend's prefix look-up: it counts a prefix of the keys, and holds all of them.
\<close>

locale prefix_tier =
  fixes answer :: "'h \<Rightarrow> 'b \<Rightarrow> 'k list \<Rightarrow> bool \<Rightarrow> nat res"
    and holds :: "'b \<Rightarrow> 'k \<Rightarrow> bool"
  assumes prefix: "answer h b ks pin = Inr n \<Longrightarrow> n \<le> length ks \<and> list_all (holds b) (take n ks)"
begin

lemma nonempty: "answer h b ks pin = Inr n \<Longrightarrow> n \<noteq> 0 \<Longrightarrow> take n ks \<noteq> []"
  using prefix by fastforce

lemma held_after_drop:
  assumes "answer h b (drop hits ks) pin = Inr n" "hits \<le> length ks"
  shows "hits + n \<le> length ks" "take hits ks @ take n (drop hits ks) = take (hits + n) ks"
  using prefix [OF assms(1)] assms(2) by (auto simp: take_add)

end

text \<open>What the loop over the tiers has built: a mapping whose pieces follow each other in the keys.\<close>

definition mapped_prefix ::
    "('b \<Rightarrow> 'k \<Rightarrow> bool) \<Rightarrow> (string \<times> 'b) list \<Rightarrow> 'k list \<Rightarrow> nat \<Rightarrow> (string \<times> 'k list) list \<Rightarrow> bool" where
  "mapped_prefix holds tiers ks hits mapping \<longleftrightarrow>
     hits \<le> length ks \<and> concat (map snd mapping) = take hits ks \<and> distinct (map fst mapping) \<and>
     (\<forall>(n, piece) \<in> set mapping. piece \<noteq> [] \<and> (\<exists>b. (n, b) \<in> set tiers \<and> list_all (holds b) piece))"

context prefix_tier
begin

lemma mapped_prefix_step:
  assumes "mapped_prefix holds tiers ks hits mapping" "answer h b (drop hits ks) pin = Inr n" "n \<noteq> 0"
    and "(m, b) \<in> set tiers" "m \<notin> fst ` set mapping"
  shows "mapped_prefix holds tiers ks (hits + n) (dict_put m (take n (drop hits ks)) mapping)"
proof -
  have hits: "hits \<le> length ks" using assms(1) by (simp add: mapped_prefix_def)
  have "dict_put m (take n (drop hits ks)) mapping = mapping @ [(m, take n (drop hits ks))]"
    using assms(5) by (simp add: dict_put_def)
  then show ?thesis
    using assms(1,4,5) held_after_drop [OF assms(2) hits] prefix [OF assms(2)] nonempty [OF assms(2,3)]
    unfolding mapped_prefix_def by auto
qed

end

text \<open>The index of the XDS backend is one, whatever is pinned on the way.\<close>

definition xds_answer :: "('b \<Rightarrow> ('k, 'd, 'p) index) \<Rightarrow> 'h \<Rightarrow> 'b \<Rightarrow> 'k list \<Rightarrow> bool \<Rightarrow> nat res" where
  "xds_answer idx h b ks pin = Inr (fst (batched_async_contains ks pin 0 (idx b)))"

lemma xds_answer_prefix:
  assumes "xds_answer idx h b ks pin = Inr n"
  shows "n \<le> length ks \<and> list_all (\<lambda>k. map_of (ix_cache (idx b)) k \<noteq> None) (take n ks)"
proof -
  obtain s' where "batched_async_contains ks pin 0 (idx b) = (n, s')"
    using assms by (auto simp: xds_answer_def prod_eq_iff)
  then have "n \<le> length ks \<and> (\<forall>i < n. map_of (ix_cache (idx b)) (ks ! i) \<noteq> None)"
    using batched_contains_pins [of ks 0 "idx b" n s'] batched_contains_plain [of ks 0 "idx b" n s'] by (cases pin) auto
  then show ?thesis by (auto simp: list_all_length)
qed

interpretation xt: prefix_tier "xds_answer idx" "\<lambda>b k. map_of (ix_cache (idx b)) k \<noteq> None" for idx
  by unfold_locales (rule xds_answer_prefix)

text \<open>One round of the loop, after the answer \<open>found\<close> of its backend.\<close>

definition prefix_round ::
    "('b, 'k, 'o, 'q) api \<Rightarrow> bool \<Rightarrow> nat \<Rightarrow> string \<Rightarrow> (string \<times> 'b) list \<Rightarrow> 'k list \<Rightarrow> nat \<Rightarrow> (string \<times> 'k list) list \<Rightarrow>
     nat \<Rightarrow> (nat \<times> (string \<times> 'k list) list, ('b, 'k, 'o, 'q) call) act" where
  "prefix_round api pin wanted n bs ks hits mapping found =
     (if found = 0 then prefix_loop api pin wanted bs ks hits mapping
      else if hits + found = wanted then ret (hits + found, dict_put n (take found ks) mapping)
      else prefix_loop api pin wanted bs (drop found ks) (hits + found) (dict_put n (take found ks) mapping))"

lemma prefix_loop_Cons:
  "prefix_loop api pin wanted ((n, b) # bs) ks hits mapping h =
     (case re_batched_contains api h b ks (pin \<and> n \<noteq> PD) of
        Inl e \<Rightarrow> (Inl e, h @ [Batched_contains b ks (pin \<and> n \<noteq> PD) (Inl e)])
      | Inr found \<Rightarrow> prefix_round api pin wanted n bs ks hits mapping found
          (h @ [Batched_contains b ks (pin \<and> n \<noteq> PD) (Inr found)]))"
  by (simp add: then_do_def ask_def prefix_round_def Let_def split: sum.splits)

declare prefix_loop.simps(2) [simp del]

lemma prefix_loop_mapped:
  assumes "prefix_tier (re_batched_contains api) holds"
    and "prefix_loop api pin wanted bs (drop hits ks) hits mapping h = (Inr (n, mapping'), h')"
    and "mapped_prefix holds tiers ks hits mapping" "set bs \<subseteq> set tiers" "distinct (map fst bs)"
    and "fst ` set bs \<inter> fst ` set mapping = {}"
  shows "mapped_prefix holds tiers ks n mapping'"
  using assms(2-)
proof (induction bs arbitrary: hits mapping h)
  case Nil
  then show ?case by (simp add: ret_def)
next
  case (Cons nb bs)
  obtain m b where nb: "nb = (m, b)" by force
  obtain found where f: "re_batched_contains api h b (drop hits ks) (pin \<and> m \<noteq> PD) = Inr found"
    using Cons.prems(1) unfolding nb prefix_loop_Cons by (auto split: sum.splits)
  define h1 where "h1 = h @ [Batched_contains b (drop hits ks) (pin \<and> m \<noteq> PD) (Inr found)]"
  have rest: "prefix_round api pin wanted m bs (drop hits ks) hits mapping found h1 = (Inr (n, mapping'), h')"
    using Cons.prems(1) f unfolding nb prefix_loop_Cons h1_def by simp
  show ?case
  proof (cases "found = 0")
    case True
    then have "prefix_loop api pin wanted bs (drop hits ks) hits mapping h1 = (Inr (n, mapping'), h')"
      using rest by (simp add: prefix_round_def)
    from Cons.IH [OF this Cons.prems(2)] show ?thesis using Cons.prems(3,4,5) nb by auto
  next
    case False
    let ?mp = "dict_put m (take found (drop hits ks)) mapping"
    note tier_step = prefix_tier.mapped_prefix_step [OF assms(1)]
    have mb: "(m, b) \<in> set tiers" using Cons.prems(3) nb by simp
    have fresh: "m \<notin> fst ` set mapping" using Cons.prems(5) nb by simp
    note step = tier_step [OF Cons.prems(2) f False mb fresh]
    have keys: "fst ` set bs \<inter> fst ` set ?mp = {}"
      using Cons.prems(4,5) unfolding nb dict_put_keys by simp
    show ?thesis
    proof (cases "hits + found = wanted")
      case True
      then show ?thesis using rest False step by (simp add: prefix_round_def ret_def)
    next
      case wanted: False
      then have "prefix_loop api pin wanted bs (drop (hits + found) ks) (hits + found) ?mp h1 = (Inr (n, mapping'), h')"
        using rest False by (simp add: prefix_round_def add.commute)
      from Cons.IH [OF this step _ _ keys] show ?thesis using Cons.prems(3,4) nb by simp
    qed
  qed
qed

lemma batched_contains_mapped:
  assumes "\<And>h b xs p c. re_batched_contains api h b xs p = Inr c \<Longrightarrow> c \<le> length xs \<and> list_all (holds b) (take c xs)"
    and "distinct (map fst (m_backends m))"
    and "manager_batched_contains api m ks search_range pin h = (Inr (n, mapping), h')"
  shows "mapped_prefix holds (get_active_storage_backends m None search_range) ks n mapping"
proof -
  let ?bs = "get_active_storage_backends m None search_range"
  have tier: "prefix_tier (re_batched_contains api) holds" by unfold_locales (rule assms(1))
  have d: "distinct (map fst ?bs)"
    using assms(2) by (simp add: get_active_storage_backends_def distinct_map_filter)
  show ?thesis
    by (rule prefix_loop_mapped [OF tier, of pin "length ks" ?bs 0 ks "[]" h])
      (use assms(3) d in \<open>auto simp: manager_batched_contains_def mapped_prefix_def\<close>)
qed

lemma active_backends_named:
  assumes "distinct (map fst (m_backends m))" "(name, b) \<in> set (get_active_storage_backends m location search_range)"
  shows "active_backend m location search_range name \<and> map_of (m_backends m) name = Some b"
  using assms by (auto simp: get_active_storage_backends_def)

text \<open>
  C19: A batched look-up maps a prefix of the keys, piece by piece and in order, to the backends that hold
  the pieces: the pieces are not empty, follow each other without a gap, lie in different active
  backends, and their lengths add up to the number of hits that is returned.
\<close>

theorem lookup_maps_prefix:
  assumes "\<And>h b xs p c. re_batched_contains api h b xs p = Inr c \<Longrightarrow> c \<le> length xs \<and> list_all (holds b) (take c xs)"
    and "distinct (map fst (m_backends m))"
    and "manager_batched_contains api m ks search_range pin h = (Inr (n, mapping), h')"
  shows "n \<le> length ks \<and> concat (map snd mapping) = take n ks \<and> distinct (map fst mapping) \<and>
    (\<forall>(name, piece) \<in> set mapping. piece \<noteq> [] \<and> active_backend m None search_range name \<and>
       (\<exists>b. map_of (m_backends m) name = Some b \<and> list_all (holds b) piece))"
  using batched_contains_mapped [of api holds m ks search_range pin h n mapping h', OF assms(1-3)] active_backends_named [OF assms(2)]
  unfolding mapped_prefix_def by (fastforce split: prod.splits)

lemma block_loop_agrees:
  assumes stable: "\<And>h1 h2 b xs p. re_batched_contains api h1 b xs p = re_batched_contains api h2 b xs False"
    and "prefix_loop api pin (length infos) bs (drop hits (map fst infos)) hits mapping h = (Inr (n, mp), h1)"
    and "map (\<lambda>(m, xs). (m, map fst xs)) blocks = mapping"
  shows "\<exists>blocks' h2. block_loop api infos bs (drop hits (map fst infos)) hits blocks g = (Inr blocks', h2) \<and>
    map (\<lambda>(m, xs). (m, map fst xs)) blocks' = mp"
  using assms(2,3)
proof (induction bs arbitrary: hits mapping blocks h g)
  case Nil
  then show ?case by (simp add: ret_def)
next
  case (Cons nb bs)
  obtain m b where nb: "nb = (m, b)" by force
  let ?ks = "drop hits (map fst infos)"
  obtain found where f: "re_batched_contains api h b ?ks (pin \<and> m \<noteq> PD) = Inr found"
    using Cons.prems(1) unfolding nb prefix_loop_Cons by (auto split: sum.splits)
  define ha where "ha = h @ [Batched_contains b ?ks (pin \<and> m \<noteq> PD) (Inr found)]"
  have rest: "prefix_round api pin (length infos) m bs ?ks hits mapping found ha = (Inr (n, mp), h1)"
    using Cons.prems(1) f unfolding nb prefix_loop_Cons ha_def by simp
  have f': "re_batched_contains api g b ?ks False = Inr found"
    using f stable [of h b ?ks "pin \<and> m \<noteq> PD" g] by simp
  obtain ga where ga: "ask (\<lambda>h. re_batched_contains api h b ?ks False) (Batched_contains b ?ks False) g = (Inr found, ga)"
    using f' by (simp add: ask_def)
  let ?put = "dict_put m (take found (drop hits infos)) blocks"
  have "fst ` set blocks = fst ` set mapping" using Cons.prems(2) by (force simp: image_iff)
  then have put: "map (\<lambda>(m, xs). (m, map fst xs)) ?put = dict_put m (take found ?ks) mapping"
    using Cons.prems(2) by (auto simp: dict_put_def take_map drop_map)
  show ?case
  proof (cases "found = 0")
    case True
    then have "prefix_loop api pin (length infos) bs ?ks hits mapping ha = (Inr (n, mp), h1)"
      using rest by (simp add: prefix_round_def)
    from Cons.IH [OF this Cons.prems(2), of ga] show ?thesis using True nb ga by (simp add: then_do_ok)
  next
    case False
    have run: "block_loop api infos (nb # bs) ?ks hits blocks g =
        (if hits + found = length infos then ret ?put
         else block_loop api infos bs (drop (hits + found) (map fst infos)) (hits + found) ?put) ga"
      using False nb ga by (simp add: then_do_ok Let_def add.commute)
    show ?thesis
    proof (cases "hits + found = length infos")
      case True
      then show ?thesis using run rest False put by (simp add: prefix_round_def ret_def)
    next
      case more: False
      then have "prefix_loop api pin (length infos) bs (drop (hits + found) (map fst infos)) (hits + found)
          (dict_put m (take found ?ks) mapping) ha = (Inr (n, mp), h1)"
        using rest False by (simp add: prefix_round_def add.commute)
      from Cons.IH [OF this put] show ?thesis using run more by simp
    qed
  qed
qed

text \<open>
  The block mapping of chunks agrees with the batched look-up of their keys: if the backends answer
  the same whether or not they pin, it succeeds whenever the look-up does, with the same backends in the
  same order, and each piece is that of the look-up with the token ranges of the chunks.
\<close>

theorem block_mapping_agrees:
  assumes "\<And>h1 h2 b xs p. re_batched_contains api h1 b xs p = re_batched_contains api h2 b xs False"
    and "manager_batched_contains api m (map fst infos) None pin h = (Inr (n, mapping), h1)"
  shows "\<exists>blocks h2. get_block_mapping api m infos g = (Inr blocks, h2) \<and>
    map (\<lambda>(name, xs). (name, map fst xs)) blocks = mapping"
  using block_loop_agrees [OF assms(1), of pin infos _ 0 "[]" h n mapping h1 "[]" g] assms(2)
  by (simp add: manager_batched_contains_def get_block_mapping_def)

text \<open>
  A manager with the CPU cache and two backends, whose answers do not depend on what was called: backend
  \<open>0\<close> holds the keys below 2, backend \<open>1\<close> those below 5. Backend \<open>2\<close> has an allocator of its own, \<open>7\<close>.
\<close>

definition demo_holds :: "nat \<Rightarrow> nat \<Rightarrow> bool" where
  "demo_holds b k \<longleftrightarrow> (b = 0 \<and> k < 2) \<or> (b = 1 \<and> k < 5)"

definition demo_api :: "(nat, nat, nat, unit) api" where
  "demo_api =
     \<lparr>is_cpu = (\<lambda>b. b = 0), cname = (\<lambda>b. if b = 0 then LocalCPU else if b = 7 then ''Own'' else ''Other''),
      allocator_of = (\<lambda>b. if b = 2 then 7 else 0), profiled = (\<lambda>b. b = 1), has_direct_put = (\<lambda>b. b = 1),
      has_direct_get = (\<lambda>b. b = 1), direct_support = (\<lambda>b. None), direct_enabled = (\<lambda>b. b = 1), has_clear = (\<lambda>b. b = 0),
      is_allocator = (\<lambda>b. b = 0 \<or> b = 7), owns_memory = (\<lambda>b. b = 0), pd_sender = (\<lambda>b. False), hot = (\<lambda>h b. True),
      like = (\<lambda>obj. ()), no_tensor = (\<lambda>obj. False), re_contains = (\<lambda>h b k pin. Inr (demo_holds b k)),
      re_batched_contains = (\<lambda>h b ks pin. Inr (length (takeWhile (demo_holds b) ks))),
      re_async_contains = (\<lambda>h b r ks pin. Inr (length (takeWhile (demo_holds b) ks))),
      re_get = (\<lambda>h b k. Inr (if demo_holds b k then Some k else None)), re_get_later = (\<lambda>h b k. Inr None),
      re_batched_get = (\<lambda>h b ks. Inr (map (\<lambda>k. if demo_holds b k then Some k else None) ks)),
      re_batched_get_later = (\<lambda>h b r ks. Inr 0), re_submit_one = (\<lambda>h b k obj. Inr ()), re_submit = (\<lambda>h b ks objs. Inr ()),
      re_allocate = (\<lambda>h b q. Inr (Some (100 + length h))), re_batched_allocate = (\<lambda>h b q n. Inr None),
      re_copy = (\<lambda>h dst src. Inr ()), re_synchronize = (\<lambda>h. Inr ()),
      re_direct = (\<lambda>h b ks ds. Inr (map (\<lambda>d. d \<noteq> None) ds)), re_touch = (\<lambda>h b. Inr ()), re_remove = (\<lambda>h b k. Inr 1),
      re_batched_remove = (\<lambda>h b ks. Inr (int (length ks))), re_unpin = (\<lambda>h b k. Inr ()), re_clear = (\<lambda>h b. Inr 0),
      re_memcheck = (\<lambda>h b. Inr True), re_close = (\<lambda>h b. if b = 1 then Inl (OSError ''close'') else Inr ()),
      re_create = (\<lambda>h names. Inr [(LocalCPU, 0), (''XdsBackend'', 1), (''RemoteBackend'', 2)])\<rparr>"

definition demo_manager :: "nat manager" where
  "demo_manager =
     \<lparr>m_backends = [(LocalCPU, 0), (''XdsBackend'', 1), (''RemoteBackend'', 2)], m_frozen = False, m_bypassed = {},
      m_allocator = Some 0, m_local_cpu = Some 0, m_non_allocator = [LocalCPU, ''XdsBackend'', ''RemoteBackend''],
      m_use_cpu = True, m_enable_pd = False, m_stream = True\<rparr>"

lemma demo_count [simp]: "re_batched_contains demo_api h b ks pin = Inr (length (takeWhile (demo_holds b) ks))"
  by (simp add: demo_api_def)

lemma demo_contains:
  assumes "re_batched_contains demo_api h b xs p = Inr c"
  shows "c \<le> length xs \<and> list_all (demo_holds b) (take c xs)"
proof -
  have "c = length (takeWhile (demo_holds b) xs)" using assms by simp
  then show ?thesis
    by (auto simp: length_takeWhile_le takeWhile_eq_take [symmetric] list_all_iff dest: set_takeWhileD)
qed

theorem lookup_maps_prefix_witness:
  "\<exists>mapping h'. manager_batched_contains demo_api demo_manager [0, 1, 3, 4, 9] None True [] = (Inr (4, mapping), h') \<and>
     concat (map snd mapping) = [0, 1, 3, 4] \<and> map fst mapping = [LocalCPU, ''XdsBackend'']"
proof -
  obtain mapping h' where r: "manager_batched_contains demo_api demo_manager [0, 1, 3, 4, 9] None True [] = (Inr (4, mapping), h')"
    "map fst mapping = [LocalCPU, ''XdsBackend'']"
    by (simp add: manager_batched_contains_def get_active_storage_backends_def active_backend_def demo_manager_def
        prefix_loop_Cons prefix_round_def demo_holds_def dict_put_def ret_def)
  have "distinct (map fst (m_backends demo_manager))" by (simp add: demo_manager_def)
  from lookup_maps_prefix [OF demo_contains this r(1)] r show ?thesis by (simp add: numeral_eq_Suc)
qed

theorem block_mapping_agrees_witness:
  "\<exists>blocks h2. get_block_mapping demo_api demo_manager [(0, 0, 4), (1, 4, 8), (3, 8, 12), (9, 12, 16)] [] = (Inr blocks, h2) \<and>
     map fst blocks = [LocalCPU, ''XdsBackend'']"
proof -
  obtain mapping h1 where r: "manager_batched_contains demo_api demo_manager [0, 1, 3, 9] None True [] = (Inr (3, mapping), h1)"
    "map fst mapping = [LocalCPU, ''XdsBackend'']"
    by (simp add: manager_batched_contains_def get_active_storage_backends_def active_backend_def demo_manager_def
        prefix_loop_Cons prefix_round_def demo_holds_def dict_put_def ret_def)
  have stable: "re_batched_contains demo_api h1 b xs p = re_batched_contains demo_api h2 b xs False" for h1 h2 b xs p
    by simp
  have "map fst [(0, 0, 4), (1, 4, 8), (3, 8, 12), (9, 12, 16)] = [0, 1, 3, 9::nat]" by simp
  then obtain blocks h2 where b: "get_block_mapping demo_api demo_manager [(0, 0, 4), (1, 4, 8), (3, 8, 12), (9, 12, 16)] [] = (Inr blocks, h2)"
      "map (\<lambda>(name, xs). (name, map fst xs)) blocks = mapping"
    using block_mapping_agrees [OF stable, of demo_manager "[(0, 0, 4), (1, 4, 8), (3, 8, 12), (9, 12, 16)]" True "[]" 3 mapping h1 "[]"] r
    by auto
  have "map fst blocks = map fst mapping" using b(2) by auto
  then show ?thesis using b r by simp
qed

end
