(* ===== verification/Storage_Puts.thy ===== *)
theory Storage_Puts
  imports Storage_Routing
begin

text \<open>
  The memory objects of a store: whatever the backends answer, a store that returns has released every
  object it was given and every object an allocator handed out exactly once, and each backend was
  given copies under the keys of their sources.
\<close>

section \<open>Objects in a trace\<close>

fun released :: "('b, 'k, 'o, 'q) call list \<Rightarrow> 'o list" where
  "released [] = []"
| "released (c # cs) = (case c of Ref_down x \<Rightarrow> x # released cs | _ \<Rightarrow> released cs)"

fun handed_out :: "('b, 'k, 'o, 'q) call list \<Rightarrow> 'o list" where
  "handed_out [] = []"
| "handed_out (c # cs) = (case c of Allocate b q e w (Inr (Some x)) \<Rightarrow> x # handed_out cs | _ \<Rightarrow> handed_out cs)"

fun submitted :: "('b, 'k, 'o, 'q) call list \<Rightarrow> ('b \<times> 'k list \<times> 'o list) list" where
  "submitted [] = []"
| "submitted (c # cs) = (case c of Submit b ks objs s p r \<Rightarrow> (b, ks, objs) # submitted cs | _ \<Rightarrow> submitted cs)"

lemma trace_appends [simp]:
  "released (xs @ ys) = released xs @ released ys"
  "handed_out (xs @ ys) = handed_out xs @ handed_out ys"
  "submitted (xs @ ys) = submitted xs @ submitted ys"
  by (induction xs) (auto split: call.splits sum.splits option.splits)

text \<open>Objects under their keys: each is the copy of an object that was given with the same key.\<close>

definition copies :: "('k \<times> 'o) list \<Rightarrow> ('b, 'k, 'o, 'q) call list \<Rightarrow> 'k list \<Rightarrow> 'o list \<Rightarrow> bool" where
  "copies given calls ks objs \<longleftrightarrow> length ks = length objs \<and>
     (\<forall>(k, x) \<in> set (zip ks objs). \<exists>src. (k, src) \<in> set given \<and> Copy x src (Inr ()) \<in> set calls)"

lemma copies_Nil: "copies given calls [] []"
  by (simp add: copies_def)

lemma copies_snoc:
  "copies given calls ks objs \<Longrightarrow> (k, src) \<in> set given \<Longrightarrow> Copy x src (Inr ()) \<in> set calls \<Longrightarrow>
     copies given calls (ks @ [k]) (objs @ [x])"
  by (auto simp: copies_def)

lemma copies_mono: "copies given calls ks objs \<Longrightarrow> set calls \<subseteq> set calls' \<Longrightarrow> copies given calls' ks objs"
  unfolding copies_def by fast

section \<open>Copying\<close>

lemma copy_loop_contract:
  assumes "copy_loop api alloc ps ks objs h = (Inr (ks', objs'), h')" "set ps \<subseteq> set given"
  shows "\<exists>new. h' = h @ new \<and> submitted new = [] \<and>
    mset (handed_out new) + mset objs = mset (released new) + mset objs' \<and>
    (\<forall>pre. copies given pre ks objs \<longrightarrow> copies given (pre @ new) ks' objs')"
  using assms
proof (induction ps arbitrary: ks objs h)
  case Nil
  then show ?case by (auto simp: ret_def)
next
  case (Cons p ps)
  obtain k src where p: "p = (k, src)" by force
  have given: "(k, src) \<in> set given" "set ps \<subseteq> set given" using Cons.prems(2) p by auto
  obtain held where held: "re_contains api h alloc k False = Inr held"
    using Cons.prems(1) p by (auto simp: then_do_def ask_def split: sum.splits)
  define h1 where "h1 = h @ [Contains alloc k False (Inr held)]"
  show ?case
  proof (cases held)
    case True
    then have "copy_loop api alloc ps ks objs h1 = (Inr (ks', objs'), h')"
      using Cons.prems(1) held p by (simp add: then_do_def ask_def h1_def)
    from Cons.IH [OF this given(2)] obtain new where new: "h' = h1 @ new" "submitted new = []"
      "mset (handed_out new) + mset objs = mset (released new) + mset objs'"
      "\<forall>pre. copies given pre ks objs \<longrightarrow> copies given (pre @ new) ks' objs'" by blast
    have "copies given (pre @ Contains alloc k False (Inr held) # new) ks' objs'" if "copies given pre ks objs" for pre
      by (rule copies_mono [OF new(4) [rule_format, OF that]]) auto
    then show ?thesis
      using new(1-3) by (intro exI [of _ "Contains alloc k False (Inr held) # new"]) (simp add: h1_def)
  next
    case False
    let ?q = "like api src"
    obtain got where got: "re_allocate api h1 alloc ?q = Inr got"
      using Cons.prems(1) held p False by (auto simp: then_do_def ask_def h1_def split: sum.splits)
    define h2 where "h2 = h1 @ [Allocate alloc ?q True False (Inr got)]"
    have run: "(case got of
          None \<Rightarrow> ret (ks, objs)
        | Some dst \<Rightarrow>
            if no_tensor api dst then then_do (ref_count_down dst) (\<lambda>_. ret (ks, objs))
            else then_do (ask (\<lambda>h. re_copy api h dst src) (Copy dst src))
              (\<lambda>_. copy_loop api alloc ps (ks @ [k]) (objs @ [dst]))) h2 = (Inr (ks', objs'), h')"
      using Cons.prems(1) held p False got by (simp add: then_do_def ask_def h1_def h2_def)
    show ?thesis
    proof (cases got)
      case None
      then have "h' = h @ [Contains alloc k False (Inr held), Allocate alloc ?q True False (Inr got)]"
          "ks' = ks" "objs' = objs" using run by (auto simp: ret_def h1_def h2_def)
      then show ?thesis using None by (auto intro: copies_mono)
    next
      case (Some dst)
      show ?thesis
      proof (cases "no_tensor api dst")
        case True
        then have "h' = h @ [Contains alloc k False (Inr held), Allocate alloc ?q True False (Inr got), Ref_down dst]"
            "ks' = ks" "objs' = objs"
          using run Some by (auto simp: ret_def ask_def ref_count_down_def then_do_def h1_def h2_def)
        then show ?thesis using Some by (auto intro: copies_mono)
      next
        case tensor: False
        obtain u where copy: "re_copy api h2 dst src = Inr u"
          using run Some tensor by (auto simp: then_do_def ask_def split: sum.splits)
        have "copy_loop api alloc ps (ks @ [k]) (objs @ [dst]) (h2 @ [Copy dst src (Inr u)]) = (Inr (ks', objs'), h')"
          using run Some tensor copy by (simp add: then_do_def ask_def)
        from Cons.IH [OF this given(2)] obtain new where new: "h' = (h2 @ [Copy dst src (Inr u)]) @ new"
          "submitted new = []" "mset (handed_out new) + mset (objs @ [dst]) = mset (released new) + mset objs'"
          "\<forall>pre. copies given pre (ks @ [k]) (objs @ [dst]) \<longrightarrow> copies given (pre @ new) ks' objs'" by blast
        let ?three = "[Contains alloc k False (Inr held), Allocate alloc ?q True False (Inr got), Copy dst src (Inr u)]"
        have "copies given (pre @ ?three @ new) ks' objs'" if "copies given pre ks objs" for pre
        proof -
          have "copies given (pre @ ?three) (ks @ [k]) (objs @ [dst])"
            by (rule copies_snoc [OF copies_mono [OF that] given(1)]) auto
          from new(4) [rule_format, OF this] show ?thesis by simp
        qed
        then show ?thesis
          using new(1-3) Some by (intro exI [of _ "?three @ new"]) (simp add: h1_def h2_def)
      qed
    qed
  qed
qed

lemma allocate_and_copy_contract:
  assumes "allocate_and_copy_objects api stream alloc ks objs h = (Inr (ks', objs'), h')"
  shows "\<exists>new. h' = h @ new \<and> submitted new = [] \<and> mset (handed_out new) = mset (released new) + mset objs' \<and>
    copies (zip ks objs) new ks' objs'"
proof -
  obtain h1 where c: "copy_loop api alloc (zip ks objs) [] [] h = (Inr (ks', objs'), h1)"
    and h': "h' = h1 @ [Synchronize (Inr ())]"
    using assms
    by (auto simp: allocate_and_copy_objects_def then_do_def ask_def fail_def ret_def split: prod.splits sum.splits if_splits)
  obtain new where new: "h1 = h @ new" "submitted new = []" "mset (handed_out new) + mset [] = mset (released new) + mset objs'"
    "\<forall>pre. copies (zip ks objs) pre [] [] \<longrightarrow> copies (zip ks objs) (pre @ new) ks' objs'"
    using copy_loop_contract [OF c order.refl] by blast
  have "copies (zip ks objs) new ks' objs'" using new(4) [rule_format, of "[]"] by (simp add: copies_Nil)
  then have "copies (zip ks objs) (new @ [Synchronize (Inr ())]) ks' objs'" by (rule copies_mono) auto
  then show ?thesis using new(1-3) h' by (intro exI [of _ "new @ [Synchronize (Inr ())]"]) simp
qed

section \<open>Stores\<close>

lemma balance_chain:
  fixes a1 a2 r1 r2 d d1 d' :: "'a multiset"
  assumes "a1 + d = r1 + d1" "a2 + d1 = r2 + d'"
  shows "(a1 + a2) + d = (r1 + r2) + d'"
proof -
  have "(a1 + a2) + d = a2 + (a1 + d)" by (simp only: ac_simps)
  also have "\<dots> = r1 + (a2 + d1)" unfolding assms(1) by (simp only: ac_simps)
  also have "\<dots> = (r1 + r2) + d'" unfolding assms(2) by (simp only: ac_simps)
  finally show ?thesis .
qed

text \<open>
  The objects of every allocator: those that were given, or copies of them. \<open>d\<close> has one entry per
  allocator.
\<close>

definition entries_ok ::
    "'k list \<Rightarrow> 'o list \<Rightarrow> ('b, 'k, 'o, 'q) call list \<Rightarrow> ('k, 'o) obj_dict \<Rightarrow> bool" where
  "entries_ok ks objs calls d \<longleftrightarrow>
     list_all (\<lambda>(c, ks', objs'). (ks', objs') = (ks, objs) \<or> copies (zip ks objs) calls ks' objs') d"

lemma entries_ok_mono: "entries_ok ks objs calls d \<Longrightarrow> set calls \<subseteq> set calls' \<Longrightarrow> entries_ok ks objs calls' d"
  unfolding entries_ok_def by (erule list.pred_mono_strong) (auto dest: copies_mono)

lemma objects_for_contract:
  assumes "objects_for api stream b ks objs d h = (Inr d', h')" "entries_ok ks objs pre d"
  shows "\<exists>new. h' = h @ new \<and> submitted new = [] \<and> entries_ok ks objs (pre @ new) d' \<and>
    mset (handed_out new) + mset (dict_objects d) = mset (released new) + mset (dict_objects d')"
proof (cases "cname api (allocator_of api b) \<in> fst ` set d")
  case True
  then show ?thesis using assms by (simp add: objects_for_def Let_def ret_def)
next
  case False
  let ?c = "cname api (allocator_of api b)"
  have "then_do (allocate_and_copy_objects api stream (allocator_of api b) ks objs) (\<lambda>new. ret (dict_put ?c new d)) h = (Inr d', h')"
    using assms(1) False by (simp add: objects_for_def Let_def)
  then obtain e where e: "allocate_and_copy_objects api stream (allocator_of api b) ks objs h = (Inr e, h')"
    and "d' = dict_put ?c e d"
    unfolding run_iffs by blast
  moreover obtain ks' objs' where "e = (ks', objs')" by force
  ultimately have a: "allocate_and_copy_objects api stream (allocator_of api b) ks objs h = (Inr (ks', objs'), h')"
    and d': "d' = d @ [(?c, ks', objs')]"
    using False by (simp_all add: dict_put_def)
  from allocate_and_copy_contract [OF a] obtain new where new: "h' = h @ new" "submitted new = []"
    "mset (handed_out new) = mset (released new) + mset objs'" "copies (zip ks objs) new ks' objs'" by blast
  have "copies (zip ks objs) (pre @ new) ks' objs'" by (rule copies_mono [OF new(4)]) auto
  moreover have "entries_ok ks objs (pre @ new) d" by (rule entries_ok_mono [OF assms(2)]) auto
  ultimately have "entries_ok ks objs (pre @ new) d'" by (simp add: d' entries_ok_def)
  then show ?thesis using new by (intro exI [of _ new]) (simp add: d' dict_objects_def)
qed

definition submissions_ok :: "'k list \<Rightarrow> 'o list \<Rightarrow> ('b, 'k, 'o, 'q) call list \<Rightarrow> ('b, 'k, 'o, 'q) call list \<Rightarrow> bool" where
  "submissions_ok ks objs calls part \<longleftrightarrow>
     list_all (\<lambda>(b, ks', objs'). (ks', objs') = (ks, objs) \<or> copies (zip ks objs) calls ks' objs') (submitted part)"

lemma submissions_ok_mono:
  "submissions_ok ks objs calls part \<Longrightarrow> set calls \<subseteq> set calls' \<Longrightarrow> submissions_ok ks objs calls' part"
  unfolding submissions_ok_def by (erule list.pred_mono_strong) (auto dest: copies_mono)

lemma submissions_ok_append:
  "submissions_ok ks objs calls (p @ q) \<longleftrightarrow> submissions_ok ks objs calls p \<and> submissions_ok ks objs calls q"
  by (simp add: submissions_ok_def)

lemma put_loop_contract:
  assumes "put_loop api m ks objs spec location profile bs d h = (Inr d', h')" "entries_ok ks objs pre d"
  shows "\<exists>new. h' = h @ new \<and> submissions_ok ks objs (pre @ new) new \<and>
    mset (handed_out new) + mset (dict_objects d) = mset (released new) + mset (dict_objects d')"
  using assms
proof (induction bs arbitrary: d h pre)
  case Nil
  then show ?case by (auto simp: ret_def submissions_ok_def)
next
  case (Cons nb bs)
  obtain n b where nb: "nb = (n, b)" by force
  show ?case
  proof (cases "(case location of None \<Rightarrow> False | Some l \<Rightarrow> l \<noteq> [] \<and> n \<noteq> l) \<or> n \<in> m_bypassed m")
    case True
    then have "put_loop api m ks objs spec location profile bs d h = (Inr d', h')"
      using Cons.prems(1) nb by (auto split: if_splits)
    from Cons.IH [OF this Cons.prems(2)] show ?thesis .
  next
    case False
    then have run: "then_do (objects_for api (m_stream m) b ks objs d)
        (\<lambda>d'. then_do (submit_to api b spec profile d')
          (\<lambda>_. put_loop api m ks objs spec location profile bs d')) h = (Inr d', h')"
      using Cons.prems(1) nb by (simp split: if_splits)
    then obtain d1 h1 h2 where o: "objects_for api (m_stream m) b ks objs d h = (Inr d1, h1)"
      and s: "submit_to api b spec profile d1 h1 = (Inr (), h2)"
      and rest: "put_loop api m ks objs spec location profile bs d1 h2 = (Inr d', h')"
      unfolding run_iffs by auto
    from objects_for_contract [OF o Cons.prems(2)] obtain n1 where n1: "h1 = h @ n1" "submitted n1 = []"
      "entries_ok ks objs (pre @ n1) d1"
      "mset (handed_out n1) + mset (dict_objects d) = mset (released n1) + mset (dict_objects d1)" by blast
    obtain ks' objs' p where e: "(cname api (allocator_of api b), ks', objs') \<in> set d1"
      and h2: "h2 = h1 @ [Submit b ks' objs' spec p (Inr ())]"
      using s by (fastforce simp: submit_to_def ask_def fail_def dest: map_of_SomeD split: option.splits prod.splits)
    let ?sub = "[Submit b ks' objs' spec p (Inr ())]"
    have "entries_ok ks objs (pre @ n1 @ ?sub) d1" by (rule entries_ok_mono [OF n1(3)]) auto
    from Cons.IH [OF rest this] obtain n2 where n2: "h' = h2 @ n2" "submissions_ok ks objs ((pre @ n1 @ ?sub) @ n2) n2"
      "mset (handed_out n2) + mset (dict_objects d1) = mset (released n2) + mset (dict_objects d')" by blast
    have "submissions_ok ks objs (pre @ n1) ?sub"
      using n1(3) e by (auto simp: submissions_ok_def entries_ok_def list_all_iff)
    then have "submissions_ok ks objs (pre @ n1 @ ?sub @ n2) ?sub" by (rule submissions_ok_mono) auto
    moreover have "submissions_ok ks objs (pre @ n1 @ ?sub @ n2) n1" by (simp add: submissions_ok_def n1(2))
    ultimately have "submissions_ok ks objs (pre @ n1 @ ?sub @ n2) (n1 @ ?sub @ n2)"
      using n2(2) by (simp only: submissions_ok_append append_assoc)
    moreover have "mset (handed_out (n1 @ ?sub @ n2)) + mset (dict_objects d) =
        mset (released (n1 @ ?sub @ n2)) + mset (dict_objects d')"
      using balance_chain [OF n1(4) n2(3)] by simp
    ultimately show ?thesis using n1(1) n2(1) h2 by (intro exI [of _ "n1 @ ?sub @ n2"]) simp
  qed
qed

lemma release_loop:
  "do_each ref_count_down xs h = (Inr (), h @ map Ref_down xs)"
  by (induction xs arbitrary: h) (simp_all add: ret_def then_do_def ref_count_down_def ask_def)

lemma release_trace [simp]:
  "released (map Ref_down xs) = xs" "handed_out (map Ref_down xs) = []" "submitted (map Ref_down xs) = []"
  by (induction xs) simp_all

lemma batched_put_run:
  assumes "batched_put api m ks objs spec location profile h = (Inr (), h')"
  shows "\<exists>new. h' = h @ new \<and> submissions_ok ks objs new new \<and>
    mset (released new) = mset objs + mset (handed_out new)"
proof -
  obtain alloc where alloc: "m_allocator m = Some alloc"
    using assms by (cases "m_allocator m") (auto simp: batched_put_def fail_def)
  let ?d = "[(cname api alloc, ks, objs)]"
  obtain d' h1 where p: "put_loop api m ks objs spec location profile (m_backends m) ?d h = (Inr d', h1)"
    and h': "h' = h1 @ map Ref_down (dict_objects d')"
    using assms alloc unfolding batched_put_def by (auto simp: run_iffs release_loop)
  have "entries_ok ks objs [] ?d" by (simp add: entries_ok_def)
  from put_loop_contract [OF p this] obtain new where new: "h1 = h @ new" "submissions_ok ks objs ([] @ new) new"
    "mset (handed_out new) + mset (dict_objects ?d) = mset (released new) + mset (dict_objects d')" by blast
  let ?all = "new @ map Ref_down (dict_objects d')"
  have "submissions_ok ks objs ?all new" using submissions_ok_mono [OF new(2), of ?all] by simp
  then have "submissions_ok ks objs ?all ?all"
    unfolding submissions_ok_append by (simp add: submissions_ok_def)
  moreover have "mset (released ?all) = mset objs + mset (handed_out ?all)"
    using new(3) by (simp add: dict_objects_def add.commute)
  ultimately show ?thesis using new(1) h' by (intro exI [of _ ?all]) simp
qed

text \<open>
  C13: No memory object of a store is lost or released twice: when a batched store returns, the
  reference counts it has taken down are those of exactly the objects it was given and of the objects the
  allocators handed out on the way, each once.
\<close>

theorem put_releases_all:
  assumes "batched_put api m ks objs spec location profile h = (Inr (), h')"
  shows "\<exists>new. h' = h @ new \<and> mset (released new) = mset objs + mset (handed_out new)"
  using batched_put_run [OF assms] by blast

text \<open>
  C17: Every backend a batched store reaches is given the objects of the caller, or copies made in this
  store, each under the key of the object it was copied from, even when some keys are skipped
  because the allocator already holds them, or memory runs out.
\<close>

theorem put_keeps_keys:
  assumes "batched_put api m ks objs spec location profile h = (Inr (), h')" "length ks = length objs"
    and "(b, ks', objs') \<in> set (submitted h')" "submitted h = []" "(k, x) \<in> set (zip ks' objs')"
  shows "length ks' = length objs' \<and>
    ((k, x) \<in> set (zip ks objs) \<or> (\<exists>src. (k, src) \<in> set (zip ks objs) \<and> Copy x src (Inr ()) \<in> set h'))"
proof -
  obtain new where new: "h' = h @ new" "submissions_ok ks objs new new"
    using batched_put_run [OF assms(1)] by blast
  then have "(b, ks', objs') \<in> set (submitted new)" using assms(3,4) by simp
  with new(2) have "(ks', objs') = (ks, objs) \<or> copies (zip ks objs) new ks' objs'"
    by (auto simp: submissions_ok_def list_all_iff)
  then show ?thesis using assms(2,5) new(1) by (auto simp: copies_def)
qed

text \<open>The backends that share the CPU memory get the objects, the one with its own memory copies of the two objects.\<close>

lemma demo_put:
  "\<exists>h'. batched_put demo_api demo_manager [0, 7] [40, 41] None None None [] = (Inr (), h') \<and>
     released h' = [40, 41, 103, 106] \<and> handed_out h' = [103, 106] \<and>
     submitted h' = [(0, [0, 7], [40, 41]), (1, [0, 7], [40, 41]), (2, [0, 7], [103, 106])]"
  by (simp add: batched_put_def demo_manager_def demo_api_def demo_holds_def objects_for_def submit_to_def
      allocate_and_copy_objects_def then_do_def ask_def ret_def ref_count_down_def dict_put_def dict_objects_def Let_def)

theorem put_releases_all_witness:
  "\<exists>h'. batched_put demo_api demo_manager [0, 7] [40, 41] None None None [] = (Inr (), h') \<and> length (released h') = 4 \<and>
     mset (released h') = {#40, 41#} + mset (handed_out h')"
proof -
  obtain h' where r: "batched_put demo_api demo_manager [0, 7] [40, 41] None None None [] = (Inr (), h')"
    "length (released h') = 4" using demo_put by auto
  from put_releases_all [OF r(1)] r show ?thesis by auto
qed

theorem put_keeps_keys_witness:
  "\<exists>h'. batched_put demo_api demo_manager [0, 7] [40, 41] None None None [] = (Inr (), h') \<and>
     (2, [0, 7], [103, 106]) \<in> set (submitted h') \<and> (\<exists>src. (7, src) \<in> {(0, 40), (7, 41)} \<and> Copy 106 src (Inr ()) \<in> set h')"
proof -
  obtain h' where r: "batched_put demo_api demo_manager [0, 7] [40, 41] None None None [] = (Inr (), h')"
    "(2, [0, 7], [103, 106]) \<in> set (submitted h')" using demo_put by auto
  from put_keeps_keys [OF r(1) _ r(2), of 7 106] r show ?thesis by auto
qed

end
