(* ===== verification/Storage_Lifecycle.thy ===== *)
theory Storage_Lifecycle
  imports Storage_Routing
begin

text \<open>
  The table of backends over the life of a storage manager: the references derived from it in every run
  of creations, closings, replacements and mode switches, and the order of the shutdown.
\<close>

section \<open>Runs of a manager\<close>

text \<open>
  A replacement whose creation raises leaves the manager with references to the backend it has closed;
  no step follows it here.
\<close>

inductive manager_run ::
    "('b, 'k, 'o, 'q) api \<Rightarrow> 'b manager \<Rightarrow> ('b, 'k, 'o, 'q) call list \<Rightarrow> bool" for api where
  constructed: "manager_init api use_cpu pd worker cuda async_loading h = (Inr m, h') \<Longrightarrow> manager_run api m h'"
| frozen: "manager_run api m h \<Longrightarrow> manager_run api (set_freeze b m) h"
| bypassed: "manager_run api m h \<Longrightarrow> manager_run api (set_backend_bypass n b m) h"
| closed: "manager_run api m h \<Longrightarrow> close_backend api n m h = (Inr (r, m'), h') \<Longrightarrow> manager_run api m' h'"
| created: "manager_run api m h \<Longrightarrow> create_backends api m h = (Inr m', h') \<Longrightarrow> manager_run api m' h'"
| recreated: "manager_run api m h \<Longrightarrow> recreate_backend api n m h = ((Inr m', m''), h') \<Longrightarrow> manager_run api m' h'"
| other: "manager_run api m h \<Longrightarrow> manager_run api m (h @ calls)"

definition references_ok :: "('b, 'k, 'o, 'q) api \<Rightarrow> 'b manager \<Rightarrow> bool" where
  "references_ok api m \<longleftrightarrow> distinct (map fst (m_backends m)) \<and> m_local_cpu m = map_of (m_backends m) LocalCPU \<and>
     m_non_allocator m = get_non_allocator_backends api m"

lemma dict_put_distinct:
  assumes "distinct (map fst d)"
  shows "distinct (map fst (dict_put k v d))"
proof -
  have "map fst (map (\<lambda>(k', w). if k' = k then (k, v) else (k', w)) d) = map fst d" by (induction d) auto
  then show ?thesis using assms by (simp add: dict_put_def del: map_map)
qed

lemma enter_backends_distinct: "distinct (map fst t) \<Longrightarrow> distinct (map fst (enter_backends new t))"
  unfolding enter_backends_def by (induction new arbitrary: t) (auto simp: dict_put_distinct)

lemma dict_del_distinct: "distinct (map fst d) \<Longrightarrow> distinct (map fst (dict_del k d))"
  by (simp add: dict_del_def distinct_map_filter)

lemma non_allocator_frame:
  assumes "m_backends m' = m_backends m" "m_use_cpu m' = m_use_cpu m"
  shows "get_non_allocator_backends api m' = get_non_allocator_backends api m"
  using assms by (simp add: get_non_allocator_backends_def)

lemma refresh_ok:
  assumes "distinct (map fst (m_backends m))"
    and "map_of (m_backends m) LocalCPU = None \<Longrightarrow> gone = Some LocalCPU \<or> m_local_cpu m = None"
  shows "references_ok api (refresh api gone m)"
proof -
  have "get_non_allocator_backends api (refresh api gone m) = get_non_allocator_backends api m"
    by (rule non_allocator_frame) (simp_all add: refresh_def)
  then show ?thesis using assms by (auto simp: references_ok_def refresh_def split: option.splits)
qed

lemma enter_backends_keeps:
  "map_of (enter_backends new t) n = None \<Longrightarrow> map_of t n = None"
  unfolding enter_backends_def
proof (induction new arbitrary: t)
  case (Cons p new)
  then have "map_of (dict_put (fst p) (snd p) t) n = None" by (simp add: split_beta)
  then show ?case by (simp add: map_of_eq_None_iff dict_put_keys)
qed simp

lemma create_step_ok:
  assumes "create_step api gone m h = (Inr m', h')" "distinct (map fst (m_backends m))"
    and "map_of (m_backends m) LocalCPU = None \<Longrightarrow> gone = Some LocalCPU \<or> m_local_cpu m = None"
  shows "references_ok api m'"
proof -
  obtain new where m': "m' = refresh api gone (m\<lparr>m_backends := enter_backends new (m_backends m)\<rparr>)"
    using assms(1) unfolding create_step_def run_iffs by blast
  show ?thesis unfolding m'
    by (rule refresh_ok)
      (use assms(2,3) in \<open>simp_all add: enter_backends_distinct enter_backends_keeps\<close>)
qed

lemma manager_init_ok:
  assumes "manager_init api use_cpu pd worker cuda async_loading h = (Inr m, h')"
  shows "references_ok api m"
proof -
  obtain m1 h1 alloc where c: "create_backends api (new_manager use_cpu pd cuda) h = (Inr m1, h1)"
    and m: "m = m1\<lparr>m_allocator := alloc, m_local_cpu := map_of (m_backends m1) LocalCPU\<rparr>"
    using assms unfolding manager_init_def
    by (auto simp: then_do_def fail_def ret_def split: prod.splits sum.splits if_splits)
  have "references_ok api m1"
    by (rule create_step_ok [OF c [unfolded create_backends_def]]) (simp_all add: new_manager_def)
  moreover have "get_non_allocator_backends api m = get_non_allocator_backends api m1"
    by (rule non_allocator_frame) (simp_all add: m)
  ultimately show ?thesis by (simp add: references_ok_def m)
qed

lemma close_backend_ok:
  assumes "close_backend api n m h = (Inr (r, m'), h')" "references_ok api m"
  shows "references_ok api m'"
proof (cases "map_of (m_backends m) n")
  case None
  then show ?thesis using assms by (simp add: close_backend_def ret_def)
next
  case (Some b)
  define m1 where "m1 = m\<lparr>m_backends := dict_del n (m_backends m)\<rparr>"
  have m': "m' = m1\<lparr>m_non_allocator := get_non_allocator_backends api m1, m_local_cpu := (if n = LocalCPU then None else m_local_cpu m1)\<rparr>"
    using assms(1) Some by (auto simp: close_backend_def close_quietly_def then_do_def ret_def m1_def Let_def)
  have "get_non_allocator_backends api m' = get_non_allocator_backends api m1"
    by (rule non_allocator_frame) (simp_all add: m')
  then show ?thesis
    using assms(2) by (auto simp: references_ok_def m' m1_def dict_del_distinct map_of_dict_del)
qed

lemma recreate_backend_ok:
  assumes "recreate_backend api n m h = ((Inr m', m''), h')" "references_ok api m"
  shows "references_ok api m'"
proof (cases "map_of (m_backends m) n")
  case None
  then show ?thesis using assms by (simp add: recreate_backend_def)
next
  case (Some b)
  define m1 where "m1 = m\<lparr>m_backends := dict_del n (m_backends m)\<rparr>"
  obtain h1 h2 where "create_step api (Some n) m1 h1 = (Inr m', h2)"
    using assms(1) Some by (auto simp: recreate_backend_def close_quietly_def m1_def Let_def split: prod.splits sum.splits)
  from create_step_ok [OF this] show ?thesis
    using assms(2) by (auto simp: references_ok_def m1_def dict_del_distinct map_of_dict_del split: if_splits)
qed

lemma references_frame:
  assumes "references_ok api m" "m_backends m' = m_backends m" "m_use_cpu m' = m_use_cpu m"
    and "m_local_cpu m' = m_local_cpu m" "m_non_allocator m' = m_non_allocator m"
  shows "references_ok api m'"
  using assms non_allocator_frame [OF assms(2,3), of api] by (simp add: references_ok_def)

text \<open>
  In every run of a storage manager, whatever the creation of backends yields, the names in its
  table are distinct, and the reference to the CPU cache and the list of backends that really store are
  those of the table as it is.
\<close>

theorem references_follow_table:
  assumes "manager_run api m h"
  shows "distinct (map fst (m_backends m)) \<and> m_local_cpu m = map_of (m_backends m) LocalCPU \<and>
    m_non_allocator m = get_non_allocator_backends api m"
proof -
  have "references_ok api m" using assms
  proof (induction rule: manager_run.induct)
    case (frozen m h b)
    then show ?case by (auto simp: set_freeze_def intro: references_frame)
  next
    case (bypassed m h n b)
    then show ?case by (auto simp: set_backend_bypass_def intro: references_frame)
  next
    case (created m h m' h')
    then have "distinct (map fst (m_backends m))" "map_of (m_backends m) LocalCPU = None \<Longrightarrow> m_local_cpu m = None"
      by (simp_all add: references_ok_def)
    then show ?case by (intro create_step_ok [OF created.hyps(2) [unfolded create_backends_def]]) simp_all
  qed (use manager_init_ok close_backend_ok recreate_backend_ok in fast)+
  then show ?thesis by (simp add: references_ok_def)
qed

text \<open>
  The allocator is not among these references: closing its backend leaves the manager allocating from a
  backend that is closed and gone from the table.
\<close>

theorem closed_allocator_stays:
  assumes "m_allocator m = map_of (m_backends m) LocalCPU" "map_of (m_backends m) LocalCPU = Some cpu"
  shows "\<exists>m' h'. close_backend api LocalCPU m h = (Inr (True, m'), h') \<and> m_allocator m' = Some cpu \<and>
    map_of (m_backends m') LocalCPU = None \<and> Close cpu (re_close api h cpu) \<in> set h'"
  using assms by (simp add: close_backend_def close_quietly_def then_do_def ret_def Let_def map_of_dict_del)

section \<open>Shutdown\<close>

text \<open>
  \<open>outcomes\<close> says of each backend, in the order of the loop, what its \<^verbatim>\<open>close\<close> answered, or \<open>None\<close> if it was
  not called.
\<close>

definition close_calls :: "(string \<times> 'b) list \<Rightarrow> unit res option list \<Rightarrow> ('b, 'k, 'o, 'q) call list" where
  "close_calls bs outcomes =
     concat (map (\<lambda>((n, b), r). case r of None \<Rightarrow> [] | Some x \<Rightarrow> [Close b x]) (zip bs outcomes))"

definition first_failure :: "unit res option list \<Rightarrow> exn option" where
  "first_failure outcomes =
     (case filter (\<lambda>r. case r of Some (Inl e) \<Rightarrow> True | _ \<Rightarrow> False) outcomes of Some (Inl e) # rs \<Rightarrow> Some e | _ \<Rightarrow> None)"

lemma first_failure_simps [simp]:
  "first_failure [] = None"
  "first_failure (None # rs) = first_failure rs"
  "first_failure (Some (Inr ()) # rs) = first_failure rs"
  "first_failure (Some (Inl e) # rs) = Some e"
  by (simp_all add: first_failure_def)

lemma close_loop_outcomes:
  "\<exists>outcomes. length outcomes = length bs \<and>
     close_loop api bs err h = (Inr (if err = None then first_failure outcomes else err), h @ close_calls bs outcomes) \<and>
     (\<forall>i < length bs. outcomes ! i = None \<longleftrightarrow>
        fst (bs ! i) \<in> {LocalCPU, PD} \<and> (err \<noteq> None \<or> first_failure (take i outcomes) \<noteq> None))"
proof (induction bs arbitrary: err h)
  case Nil
  then show ?case by (auto simp: ret_def close_calls_def)
next
  case (Cons nb bs)
  obtain n b where nb: "nb = (n, b)" by force
  show ?case
  proof (cases "err \<noteq> None \<and> n \<in> {LocalCPU, PD}")
    case True
    from Cons.IH [of err h] obtain os where os: "length os = length bs"
      "close_loop api bs err h = (Inr (if err = None then first_failure os else err), h @ close_calls bs os)"
      "\<forall>i < length bs. os ! i = None \<longleftrightarrow>
        fst (bs ! i) \<in> {LocalCPU, PD} \<and> (err \<noteq> None \<or> first_failure (take i os) \<noteq> None)" by blast
    have run: "close_loop api (nb # bs) err h = close_loop api bs err h" using True nb by simp
    show ?thesis
    proof (intro exI [of _ "None # os"] conjI)
      show "length (None # os) = length (nb # bs)" using os(1) by simp
      show "close_loop api (nb # bs) err h =
          (Inr (if err = None then first_failure (None # os) else err), h @ close_calls (nb # bs) (None # os))"
        using run os(2) nb by (simp add: close_calls_def)
      show "\<forall>i < length (nb # bs). (None # os) ! i = None \<longleftrightarrow>
          fst ((nb # bs) ! i) \<in> {LocalCPU, PD} \<and> (err \<noteq> None \<or> first_failure (take i (None # os)) \<noteq> None)"
        using os(3) True nb by (auto simp: nth_Cons split: nat.splits)
    qed
  next
    case False
    let ?r = "re_close api h b"
    let ?err = "case (err, ?r) of (None, Inl e) \<Rightarrow> Some e | _ \<Rightarrow> err"
    from Cons.IH [of ?err "h @ [Close b ?r]"] obtain os where os: "length os = length bs"
      "close_loop api bs ?err (h @ [Close b ?r]) =
         (Inr (if ?err = None then first_failure os else ?err), (h @ [Close b ?r]) @ close_calls bs os)"
      "\<forall>i < length bs. os ! i = None \<longleftrightarrow>
        fst (bs ! i) \<in> {LocalCPU, PD} \<and> (?err \<noteq> None \<or> first_failure (take i os) \<noteq> None)" by blast
    have run: "close_loop api (nb # bs) err h = close_loop api bs ?err (h @ [Close b ?r])" using False nb by auto
    have err: "(if err = None then first_failure (Some ?r # xs) else err) = (if ?err = None then first_failure xs else ?err)" for xs
      by (cases err; cases ?r) auto
    have err': "(err \<noteq> None \<or> first_failure (Some ?r # xs) \<noteq> None) \<longleftrightarrow> (?err \<noteq> None \<or> first_failure xs \<noteq> None)" for xs
      by (cases err; cases ?r) auto
    show ?thesis
    proof (intro exI [of _ "Some ?r # os"] conjI)
      show "length (Some ?r # os) = length (nb # bs)" using os(1) by simp
      show "close_loop api (nb # bs) err h =
          (Inr (if err = None then first_failure (Some ?r # os) else err), h @ close_calls (nb # bs) (Some ?r # os))"
        unfolding err run os(2) by (simp add: close_calls_def nb)
      show "\<forall>i < length (nb # bs). (Some ?r # os) ! i = None \<longleftrightarrow>
          fst ((nb # bs) ! i) \<in> {LocalCPU, PD} \<and> (err \<noteq> None \<or> first_failure (take i (Some ?r # os)) \<noteq> None)"
      proof (intro allI impI)
        fix i assume i: "i < length (nb # bs)"
        show "(Some ?r # os) ! i = None \<longleftrightarrow>
          fst ((nb # bs) ! i) \<in> {LocalCPU, PD} \<and> (err \<noteq> None \<or> first_failure (take i (Some ?r # os)) \<noteq> None)"
          using i os(3) err' [of "take (i - 1) os"] False nb by (cases i) auto
      qed
    qed
  qed
qed

text \<open>
  The shutdown closes the backends in the reverse order of their creation, each at most once. Every
  backend that is not a shared allocator is closed, whatever fails; a shared allocator is closed exactly
  if no backend closed before it has failed. The loop and its thread are stopped in any case, and the
  first failure is raised at the end.
\<close>

theorem shutdown_order:
  "\<exists>outcomes. length outcomes = length (m_backends m) \<and>
     manager_close api m running alive h =
       (case first_failure outcomes of None \<Rightarrow> Inr () | Some e \<Rightarrow> Inl e,
        h @ close_calls (rev (m_backends m)) outcomes @ (if running then [Stop_loop] else []) @ (if alive then [Join_thread] else [])) \<and>
     (\<forall>i < length (m_backends m). outcomes ! i = None \<longleftrightarrow>
        fst (rev (m_backends m) ! i) \<in> {LocalCPU, PD} \<and> first_failure (take i outcomes) \<noteq> None)"
proof -
  obtain os where os: "length os = length (rev (m_backends m))"
      "close_loop api (rev (m_backends m)) None h = (Inr (first_failure os), h @ close_calls (rev (m_backends m)) os)"
      "\<forall>i < length (rev (m_backends m)). os ! i = None \<longleftrightarrow>
        fst (rev (m_backends m) ! i) \<in> {LocalCPU, PD} \<and> first_failure (take i os) \<noteq> None"
    using close_loop_outcomes [of "rev (m_backends m)" api None h] by auto
  have "manager_close api m running alive h =
       (case first_failure os of None \<Rightarrow> Inr () | Some e \<Rightarrow> Inl e,
        h @ close_calls (rev (m_backends m)) os @ (if running then [Stop_loop] else []) @ (if alive then [Join_thread] else []))"
    using os(2) by (auto simp: manager_close_def then_do_def ret_def ask_def fail_def split: option.splits)
  then show ?thesis using os(1,3) by (intro exI [of _ os]) simp
qed

section \<open>A run\<close>

theorem shutdown_order_witness:
  "manager_close demo_api demo_manager True True [] =
     (Inl (OSError ''close''), [Close 2 (Inr ()), Close 1 (Inl (OSError ''close'')), Stop_loop, Join_thread])"
proof -
  have three: "length (m_backends demo_manager) = 3" by (simp add: demo_manager_def)
  obtain os where os: "length os = 3"
      "manager_close demo_api demo_manager True True [] =
       (case first_failure os of None \<Rightarrow> Inr () | Some e \<Rightarrow> Inl e,
        [] @ close_calls (rev (m_backends demo_manager)) os @ [Stop_loop] @ [Join_thread])"
    using shutdown_order [of demo_manager demo_api True True "[]"] unfolding three by auto
  have "manager_close demo_api demo_manager True True [] =
     (Inl (OSError ''close''), [Close 2 (Inr ()), Close 1 (Inl (OSError ''close'')), Stop_loop, Join_thread])"
    by (simp add: manager_close_def demo_manager_def demo_api_def then_do_def ask_def ret_def fail_def)
  with os show ?thesis by simp
qed

theorem references_follow_table_witness:
  "\<exists>m h. manager_run demo_api m h \<and> m_local_cpu m = Some 0 \<and> m_non_allocator m = [LocalCPU, ''XdsBackend'', ''RemoteBackend'']"
proof -
  obtain m h where i: "manager_init demo_api True False True True True [] = (Inr m, h)"
      "m_backends m = [(LocalCPU, 0), (''XdsBackend'', 1), (''RemoteBackend'', 2)]" "m_use_cpu m"
    by (simp add: manager_init_def create_backends_def create_step_def then_do_def ask_def ret_def demo_api_def
        enter_backends_def dict_put_def refresh_def get_allocator_backend_def new_manager_def)
  from references_follow_table [OF manager_run.constructed [OF i(1)]] i manager_run.constructed [OF i(1)] show ?thesis
    by (intro exI [of _ m] exI [of _ h]) (simp add: get_non_allocator_backends_def)
qed

end
