(* ===== verification/Storage_Prefetch.thy ===== *)
theory Storage_Prefetch
  imports Storage_Routing
begin

text \<open>
  The asynchronous look-up of the storage manager (\<^verbatim>\<open>async_lookup_and_prefetch\<close> and its callbacks): the
  keys are split over the backends, one load per backend is started, and when all have ended the
  scheduler is told how many tokens it can use. The results of the loads are parameters: they arrive in
  any order and are gathered in the order of the backends.
\<close>

section \<open>Look-up and loads\<close>

text \<open>A load: its backend, its keys and the cumulative lengths it is given.\<close>

record ('b, 'k) tier =
  tr_backend :: 'b
  tr_keys :: "'k list"
  tr_cumulative :: "int list"

fun prefetch_loop ::
    "('b, 'k, 'o, 'q) api \<Rightarrow> string \<Rightarrow> bool \<Rightarrow> bool \<Rightarrow> nat \<Rightarrow> (string \<times> 'b) list \<Rightarrow> 'k list \<Rightarrow> int list \<Rightarrow> nat \<Rightarrow>
     ('b, 'k) tier list \<Rightarrow> (nat \<times> ('b, 'k) tier list, ('b, 'k, 'o, 'q) call) act" where
  "prefetch_loop api r pin serial wanted [] ks cums hits tiers = ret (hits, tiers)"
| "prefetch_loop api r pin serial wanted ((n, b) # bs) ks cums hits tiers =
     then_do (ask (\<lambda>h. re_async_contains api h b r ks pin) (Async_contains b r ks pin))
       (\<lambda>found. if found = 0 then prefetch_loop api r pin serial wanted bs ks cums hits tiers
          else if \<not> serial then fail (AssertionError ''Async serializer must be initialized'')
          else then_do (ask (\<lambda>h. re_batched_get_later api h b r (take found ks))
                 (Batched_get_later b r (take found ks) (Some (take (found + 1) cums))))
            (\<lambda>_. let t = \<lparr>tr_backend = b, tr_keys = take found ks, tr_cumulative = take (found + 1) cums\<rparr>
                 in if hits + found = wanted then ret (hits + found, tiers @ [t])
                    else prefetch_loop api r pin serial wanted bs (drop found ks) (drop found cums) (hits + found) (tiers @ [t])))"

text \<open>\<open>server\<close> is whether there is a look-up server to answer to; without hits the answer is immediate.\<close>

definition async_lookup_and_prefetch ::
    "('b, 'k, 'o, 'q) api \<Rightarrow> 'b manager \<Rightarrow> bool \<Rightarrow> bool \<Rightarrow> string \<Rightarrow> 'k list \<Rightarrow> int list \<Rightarrow> string list option \<Rightarrow> bool \<Rightarrow>
     (('b, 'k) tier list, ('b, 'k, 'o, 'q) call) act" where
  "async_lookup_and_prefetch api m server serial r ks cums search_range pin =
     then_do (prefetch_loop api r pin serial (length ks) (get_active_storage_backends m None search_range) ks cums 0 [])
       (\<lambda>(hits, tiers).
          if hits = 0 then then_do (if server then ask (\<lambda>_. Inr ()) (\<lambda>_. Respond r 0) else ret ()) (\<lambda>_. ret [])
          else then_do (ask (\<lambda>_. Inr ()) (\<lambda>_. Event_added r)) (\<lambda>_. ret tiers))"

section \<open>The end of the loads\<close>

text \<open>All loads are awaited; the objects of each are paired with its keys.\<close>

definition gather_with_keys :: "('b, 'k) tier list \<Rightarrow> 'o list res list \<Rightarrow> ('k \<times> 'o) list list res" where
  "gather_with_keys tiers results =
     (case traverse (\<lambda>x. x) results of Inl e \<Rightarrow> Inl e | Inr objs \<Rightarrow> Inr (map2 (\<lambda>t os. zip (tr_keys t) os) tiers objs))"

text \<open>
  The chunks that can be used: all up to the first backend that delivered fewer than it had announced.
  What later backends delivered would be released, but its elements are pairs, which have no
  \<^verbatim>\<open>ref_count_down\<close>.
\<close>

fun count_retrieved :: "('k \<times> 'o) list list \<Rightarrow> nat list \<Rightarrow> nat \<Rightarrow> nat res" where
  "count_retrieved [] es n = Inr n"
| "count_retrieved (t # ts) [] n = Inl IndexError"
| "count_retrieved (t # ts) (e # es) n =
     (if length t < e then
        (if concat ts = [] then Inr (n + length t) else Inl (AttributeError ''ref_count_down''))
      else count_retrieved ts es (n + length t))"

definition prefetch_all_done_callback ::
    "bool \<Rightarrow> string \<Rightarrow> int list \<Rightarrow> nat list \<Rightarrow> ('k \<times> 'o) list list res \<Rightarrow> (unit, ('b, 'k, 'o, 'q) call) act" where
  "prefetch_all_done_callback server r cums expected gathered =
     (if \<not> server then fail (AssertionError ''async_lookup_server'')
      else then_do (ask (\<lambda>_. Inr ()) (\<lambda>_. Event_done r))
        (\<lambda>_. case gathered of
           Inl e \<Rightarrow> fail e
         | Inr res \<Rightarrow>
             (case count_retrieved res expected 0 of
                Inl e \<Rightarrow> fail e
              | Inr n \<Rightarrow>
                  if length cums \<le> n then fail IndexError
                  else ask (\<lambda>_. Inr ()) (\<lambda>_. Respond r (cums ! n)))))"

section \<open>What the scheduler is told\<close>

text \<open>
  The specification: of the chunks in their order, each delivered or not, the longest prefix of delivered
  ones.
\<close>

definition delivered :: "('b, 'k) tier list \<Rightarrow> ('k \<times> 'o) list list \<Rightarrow> bool list" where
  "delivered tiers res =
     concat (map2 (\<lambda>t os. replicate (length os) True @ replicate (length (tr_keys t) - length os) False) tiers res)"

definition usable :: "('b, 'k) tier list \<Rightarrow> ('k \<times> 'o) list list \<Rightarrow> nat" where
  "usable tiers res = length (takeWhile id (delivered tiers res))"

text \<open>A backend fell short, and a later one delivered something.\<close>

definition has_gap :: "('b, 'k) tier list \<Rightarrow> ('k \<times> 'o) list list \<Rightarrow> bool" where
  "has_gap tiers res \<longleftrightarrow>
     (\<exists>j < length res. length (res ! j) < length (tr_keys (tiers ! j)) \<and> (\<exists>i < length res. j < i \<and> res ! i \<noteq> []))"

lemma has_gap_Cons:
  "has_gap (t # tiers) (os # res) \<longleftrightarrow> (length os < length (tr_keys t) \<and> concat res \<noteq> []) \<or> has_gap tiers res"
proof -
  have "concat res \<noteq> [] \<longleftrightarrow> (\<exists>k < length res. res ! k \<noteq> [])"
    by (simp add: concat_eq_Nil_conv) (metis in_set_conv_nth)
  then show ?thesis by (simp add: has_gap_def Ex_less_Suc2)
qed

lemma concat_Nil_no_gap: "concat res = [] \<Longrightarrow> \<not> has_gap tiers res"
  by (auto simp: has_gap_def dest: nth_mem)

lemma takeWhile_replicate_True: "takeWhile id (replicate n True @ xs) = replicate n True @ takeWhile id xs"
  by (induction n) simp_all

lemma takeWhile_replicate_False: "0 < n \<Longrightarrow> takeWhile id (replicate n False @ xs) = []"
  by (cases n) simp_all

lemma usable_Cons:
  assumes "length os \<le> length (tr_keys t)"
  shows "usable (t # tiers) (os # res) =
    (if length os < length (tr_keys t) then length os else length os + usable tiers res)"
  using assms
  by (auto simp: usable_def delivered_def takeWhile_replicate_True takeWhile_replicate_False)

lemma count_retrieved_usable:
  assumes "list_all2 (\<lambda>t os. length os \<le> length (tr_keys t)) tiers res"
  shows "count_retrieved res (map (\<lambda>t. length (tr_keys t)) tiers) n =
    (if has_gap tiers res then Inl (AttributeError ''ref_count_down'') else Inr (n + usable tiers res))"
  using assms
proof (induction tiers res arbitrary: n rule: list_all2_induct)
  case Nil
  then show ?case by (simp add: has_gap_def usable_def delivered_def)
next
  case (Cons t tiers os res)
  have no: "concat res = [] \<Longrightarrow> \<not> has_gap tiers res" by (rule concat_Nil_no_gap)
  show ?case
  proof (cases "length os < length (tr_keys t)")
    case True
    then show ?thesis using no Cons.hyps(1) by (auto simp: has_gap_Cons usable_Cons)
  next
    case False
    then show ?thesis using Cons.IH [of "n + length os"] Cons.hyps(1) by (simp add: has_gap_Cons usable_Cons)
  qed
qed

lemma prefetch_loop_tiers:
  assumes "prefix_tier (\<lambda>h b ks pin. re_async_contains api h b r ks pin) holds"
    and "prefetch_loop api r pin serial wanted bs (drop hits ks) (drop hits cums) hits tiers h = (Inr (n, tiers'), h')"
    and "hits \<le> length ks" "concat (map tr_keys tiers) = take hits ks"
  shows "n \<le> length ks \<and> concat (map tr_keys tiers') = take n ks"
  using assms(2-)
proof (induction bs arbitrary: hits tiers h)
  case Nil
  then show ?case by (simp add: ret_def)
next
  case (Cons nb bs)
  obtain m b where nb: "nb = (m, b)" by force
  let ?ks = "drop hits ks" and ?cums = "drop hits cums"
  obtain found h1 where f: "ask (\<lambda>h. re_async_contains api h b r ?ks pin) (Async_contains b r ?ks pin) h = (Inr found, h1)"
    and run: "(if found = 0 then prefetch_loop api r pin serial wanted bs ?ks ?cums hits tiers
          else if \<not> serial then fail (AssertionError ''Async serializer must be initialized'')
          else then_do (ask (\<lambda>h. re_batched_get_later api h b r (take found ?ks))
                 (Batched_get_later b r (take found ?ks) (Some (take (found + 1) ?cums))))
            (\<lambda>_. let t = \<lparr>tr_backend = b, tr_keys = take found ?ks, tr_cumulative = take (found + 1) ?cums\<rparr>
                 in if hits + found = wanted then ret (hits + found, tiers @ [t])
                    else prefetch_loop api r pin serial wanted bs (drop found ?ks) (drop found ?cums) (hits + found) (tiers @ [t]))) h1
        = (Inr (n, tiers'), h')"
    using Cons.prems(1) unfolding nb prefetch_loop.simps then_do_Inr_iff by blast
  have ans: "re_async_contains api h b r ?ks pin = Inr found" using f by (simp add: ask_Inr_iff)
  show ?case
  proof (cases "found = 0")
    case True
    then have "prefetch_loop api r pin serial wanted bs ?ks ?cums hits tiers h1 = (Inr (n, tiers'), h')" using run by simp
    from Cons.IH [OF this Cons.prems(2,3)] show ?thesis .
  next
    case False
    define t where "t = \<lparr>tr_backend = b, tr_keys = take found ?ks, tr_cumulative = take (found + 1) ?cums\<rparr>"
    have drops: "drop found ?ks = drop (hits + found) ks" "drop found ?cums = drop (hits + found) cums"
      by (simp_all add: add.commute)
    obtain h2 where rest: "(if hits + found = wanted then ret (hits + found, tiers @ [t])
        else prefetch_loop api r pin serial wanted bs (drop (hits + found) ks) (drop (hits + found) cums) (hits + found) (tiers @ [t])) h2
        = (Inr (n, tiers'), h')"
      using run False unfolding drops t_def [symmetric] Let_def
      by (cases serial) (auto simp: then_do_Inr_iff fail_Inr_iff simp del: drop_drop)
    note step = prefix_tier.held_after_drop [OF assms(1)]
    have le: "hits + found \<le> length ks" and keys: "take hits ks @ take found ?ks = take (hits + found) ks"
      using step [OF ans Cons.prems(2)] by simp_all
    have c: "concat (map tr_keys (tiers @ [t])) = take (hits + found) ks"
      using Cons.prems(3) keys by (simp add: t_def)
    show ?thesis
    proof (cases "hits + found = wanted")
      case True
      then show ?thesis using rest le c by (simp add: ret_def)
    next
      case wanted: False
      then have "prefetch_loop api r pin serial wanted bs (drop (hits + found) ks) (drop (hits + found) cums) (hits + found)
          (tiers @ [t]) h2 = (Inr (n, tiers'), h')" using rest by simp
      from Cons.IH [OF this le c] show ?thesis .
    qed
  qed
qed

lemma gather_lengths:
  assumes "gather_with_keys tiers results = Inr res" "length results = length tiers"
  shows "list_all2 (\<lambda>t os. length os \<le> length (tr_keys t) \<and> map fst os = take (length os) (tr_keys t)) tiers res"
proof -
  obtain objs where t: "traverse (\<lambda>x. x) results = Inr objs" and res: "res = map2 (\<lambda>t os. zip (tr_keys t) os) tiers objs"
    using assms(1) by (auto simp: gather_with_keys_def split: sum.splits)
  have "length objs = length tiers"
    using t assms(2) unfolding traverse_Inr_iff by (auto dest: list_all2_lengthD)
  then show ?thesis
    unfolding res by (auto simp: list_all2_conv_all_nth min_def map_fst_zip_take)
qed

text \<open>The usable pairs are those of the first keys.\<close>

lemma usable_keys:
  assumes "list_all2 (\<lambda>t os. length os \<le> length (tr_keys t) \<and> map fst os = take (length os) (tr_keys t)) tiers res"
  shows "usable tiers res \<le> length (concat (map tr_keys tiers)) \<and>
    map fst (take (usable tiers res) (concat res)) = take (usable tiers res) (concat (map tr_keys tiers))"
  using assms
proof (induction tiers res rule: list_all2_induct)
  case Nil
  then show ?case by (simp add: usable_def delivered_def)
next
  case (Cons t tiers os res)
  then show ?case by (cases "length os < length (tr_keys t)") (auto simp: usable_Cons)
qed

text \<open>
  C18: What the scheduler is told after a prefetch. If all loads end without an exception, the answer is
  the number of tokens of the longest prefix of chunks that were all delivered, and the pairs of
  that prefix carry the first keys of the request, in order. But when a backend delivers fewer
  chunks than it announced and a later one delivers any, the callback raises, and the scheduler gets no
  answer.
\<close>

theorem prefetch_answer:
  assumes "\<And>h b xs p c. re_async_contains api h b r xs p = Inr c \<Longrightarrow> c \<le> length xs \<and> list_all (holds b) (take c xs)"
    and "length cums = length ks + 1"
    and "async_lookup_and_prefetch api m True serial r ks cums search_range pin h = (Inr tiers, h1)"
    and "length results = length tiers" "gather_with_keys tiers results = Inr res"
  shows "prefetch_all_done_callback True r cums (map (\<lambda>t. length (tr_keys t)) tiers) (Inr res) g =
      (if has_gap tiers res then (Inl (AttributeError ''ref_count_down''), g @ [Event_done r])
       else (Inr (), g @ [Event_done r, Respond r (cums ! usable tiers res)])) \<and>
    usable tiers res \<le> length ks \<and>
    map fst (take (usable tiers res) (concat res)) = take (usable tiers res) ks"
proof -
  let ?bs = "get_active_storage_backends m None search_range"
  have tier: "prefix_tier (\<lambda>h b ks pin. re_async_contains api h b r ks pin) holds" by unfold_locales (rule assms(1))
  obtain n tiers' h' where p: "prefetch_loop api r pin serial (length ks) ?bs ks cums 0 [] h = (Inr (n, tiers'), h')"
    and t: "tiers = tiers' \<or> tiers = []"
    using assms(3) unfolding async_lookup_and_prefetch_def then_do_Inr_iff
    by (auto simp: run_iffs split: if_splits)
  have "concat (map tr_keys tiers') = take n ks" "n \<le> length ks"
    using prefetch_loop_tiers [OF tier, of pin serial "length ks" ?bs 0 ks cums "[]" h n tiers' h'] p by simp_all
  then obtain k where keys: "concat (map tr_keys tiers) = take k ks" "k \<le> length ks"
    using t that [of n] that [of 0] by auto
  note gl = gather_lengths [OF assms(5,4)]
  then have g': "list_all2 (\<lambda>t os. length os \<le> length (tr_keys t)) tiers res" by (rule list_all2_mono) simp
  have u: "usable tiers res \<le> k" "map fst (take (usable tiers res) (concat res)) = take (usable tiers res) ks"
    using usable_keys [OF gl] keys by (simp_all add: min_def split: if_splits)
  have "usable tiers res < length cums" using u(1) keys(2) assms(2) by simp
  then have "prefetch_all_done_callback True r cums (map (\<lambda>t. length (tr_keys t)) tiers) (Inr res) g =
      (if has_gap tiers res then (Inl (AttributeError ''ref_count_down''), g @ [Event_done r])
       else (Inr (), g @ [Event_done r, Respond r (cums ! usable tiers res)]))"
    using count_retrieved_usable [OF g', of 0]
    by (simp add: prefetch_all_done_callback_def then_do_def ask_def fail_def)
  then show ?thesis using u keys(2) by simp
qed

text \<open>Two backends, two and three chunks; the first one has lost its second chunk.\<close>

lemma demo_prefetch:
  "\<exists>h. async_lookup_and_prefetch demo_api demo_manager True True ''r'' [0, 1, 2, 3, 4] [0, 4, 8, 12, 16, 18] None True [] =
     (Inr [\<lparr>tr_backend = 0, tr_keys = [0, 1], tr_cumulative = [0, 4, 8]\<rparr>,
           \<lparr>tr_backend = 1, tr_keys = [2, 3, 4], tr_cumulative = [8, 12, 16, 18]\<rparr>], h)"
  by (simp add: async_lookup_and_prefetch_def get_active_storage_backends_def active_backend_def demo_manager_def
      demo_api_def demo_holds_def then_do_def ask_def ret_def Let_def numeral_eq_Suc)

theorem prefetch_answer_witness:
  "\<exists>tiers h1. async_lookup_and_prefetch demo_api demo_manager True True ''r'' [0, 1, 2, 3, 4] [0, 4, 8, 12, 16, 18] None True [] =
     (Inr tiers, h1) \<and>
   prefetch_all_done_callback True ''r'' [0, 4, 8, 12, 16, 18] (map (\<lambda>t. length (tr_keys t)) tiers)
     (Inr [[(0, 50 :: nat), (1, 51)], [(2, 52)]]) h1 = (Inr (), h1 @ [Event_done ''r'', Respond ''r'' 12])"
proof -
  let ?cums = "[0, 4, 8, 12, 16, 18]"
  have c: "c \<le> length xs \<and> list_all (demo_holds b) (take c xs)" if "re_async_contains demo_api h b ''r'' xs p = Inr c" for h b xs p c
    using that demo_contains [of h b xs p c] by (simp add: demo_api_def)
  obtain tiers h1 where run: "async_lookup_and_prefetch demo_api demo_manager True True ''r'' [0, 1, 2, 3, 4] ?cums None True [] = (Inr tiers, h1)"
    and t: "tiers = [\<lparr>tr_backend = 0, tr_keys = [0, 1], tr_cumulative = [0, 4, 8]\<rparr>,
           \<lparr>tr_backend = 1, tr_keys = [2, 3, 4], tr_cumulative = [8, 12, 16, 18]\<rparr>]" using demo_prefetch by blast
  have g: "gather_with_keys tiers [Inr [50 :: nat, 51], Inr [52]] = Inr [[(0, 50 :: nat), (1, 51)], [(2, 52)]]"
    by (simp add: gather_with_keys_def t)
  have u: "usable tiers [[(0, 50 :: nat), (1, 51)], [(2, 52)]] = 3" "\<not> has_gap tiers [[(0, 50 :: nat), (1, 51)], [(2, 52)]]"
    by (simp_all add: t usable_def delivered_def has_gap_Cons numeral_eq_Suc) (simp add: has_gap_def)
  let ?res = "[[(0, 50 :: nat), (1, 51)], [(2, 52)]] :: (nat \<times> nat) list list"
  have "prefetch_all_done_callback True ''r'' ?cums (map (\<lambda>t. length (tr_keys t)) tiers) (Inr ?res) h1 =
      (if has_gap tiers ?res then (Inl (AttributeError ''ref_count_down''), h1 @ [Event_done ''r''])
       else (Inr (), h1 @ [Event_done ''r'', Respond ''r'' (?cums ! usable tiers ?res)]))"
    by (rule prefetch_answer [OF c _ run _ g, THEN conjunct1]) (simp_all add: t)
  also have "\<dots> = (Inr (), h1 @ [Event_done ''r'', Respond ''r'' 12])" using u by (simp add: eval_nat_numeral)
  finally show ?thesis using run by blast
qed

end
