(* ===== verification/Weighted_Semaphore.thy ===== *)
theory Weighted_Semaphore
  imports Hcu_Prelude "HOL-Library.Multiset"
begin

text \<open>
  The semaphore that limits how many chunks concurrent loads may allocate (\<^verbatim>\<open>WeightedSemaphore\<close> and
  \<^verbatim>\<open>AsyncMultiSerializer.run\<close> of \<^verbatim>\<open>v1/storage_backend/storage_manager.py\<close>): half of the budget is shared, a
  larger request needs the semaphore for itself. Tasks arrive, wait for the condition, are woken by every
  release and test again.
\<close>

section \<open>The semaphore\<close>

record semaphore =
  ws_cap :: nat
  ws_budget :: nat
  ws_current :: nat

definition new_semaphore :: "nat \<Rightarrow> semaphore" where
  "new_semaphore budget = \<lparr>ws_cap = budget div 2, ws_budget = budget, ws_current = budget div 2\<rparr>"

definition acquire_error :: "nat \<Rightarrow> semaphore \<Rightarrow> exn option" where
  "acquire_error n s = (if ws_budget s < n then Some (ValueError ''Cannot acquire more than the budget'') else None)"

definition may_acquire :: "nat \<Rightarrow> semaphore \<Rightarrow> bool" where
  "may_acquire n s \<longleftrightarrow> (if n \<le> ws_cap s then n \<le> ws_current s else ws_current s = ws_cap s)"

definition take_chunks :: "nat \<Rightarrow> semaphore \<Rightarrow> semaphore" where
  "take_chunks n s = s\<lparr>ws_current := (if n \<le> ws_cap s then ws_current s - n else 0)\<rparr>"

definition release_chunks :: "nat \<Rightarrow> semaphore \<Rightarrow> semaphore" where
  "release_chunks n s = s\<lparr>ws_current := (if n \<le> ws_cap s then ws_current s + n else ws_cap s)\<rparr>"

section \<open>Tasks\<close>

text \<open>
  The weights of the tasks that hold the semaphore, of those that sleep, and of those that have been
  woken and have not tested the condition yet. A task that arrives tests it at once. Releases wake all
  sleepers, and return what the task has acquired.
\<close>

record tasks =
  ts_sem :: semaphore
  ts_held :: "nat multiset"
  ts_asleep :: "nat multiset"
  ts_woken :: "nat multiset"

definition test_condition :: "nat \<Rightarrow> tasks \<Rightarrow> tasks" where
  "test_condition n t =
     (if may_acquire n (ts_sem t)
        then t\<lparr>ts_sem := take_chunks n (ts_sem t), ts_held := add_mset n (ts_held t)\<rparr>
      else t\<lparr>ts_asleep := add_mset n (ts_asleep t)\<rparr>)"

inductive sem_run :: "nat \<Rightarrow> tasks \<Rightarrow> bool" for budget where
  start: "sem_run budget \<lparr>ts_sem = new_semaphore budget, ts_held = {#}, ts_asleep = {#}, ts_woken = {#}\<rparr>"
| arrive: "sem_run budget t \<Longrightarrow> acquire_error n (ts_sem t) = None \<Longrightarrow> sem_run budget (test_condition n t)"
| retest: "sem_run budget t \<Longrightarrow> n \<in># ts_woken t \<Longrightarrow>
    sem_run budget (test_condition n (t\<lparr>ts_woken := ts_woken t - {#n#}\<rparr>))"
| release: "sem_run budget t \<Longrightarrow> n \<in># ts_held t \<Longrightarrow>
    sem_run budget (t\<lparr>ts_sem := release_chunks n (ts_sem t), ts_held := ts_held t - {#n#}, ts_asleep := {#},
      ts_woken := ts_woken t + ts_asleep t\<rparr>)"

text \<open>
  Either only requests of at most half the budget hold it, and what they hold is missing from the
  current chunks, or one larger request holds it with nothing but empty ones beside it.
\<close>

definition shared :: "tasks \<Rightarrow> bool" where
  "shared t \<longleftrightarrow> (\<forall>n \<in># ts_held t. n \<le> ws_cap (ts_sem t)) \<and> ws_current (ts_sem t) + sum_mset (ts_held t) = ws_cap (ts_sem t)"

definition exclusive :: "tasks \<Rightarrow> bool" where
  "exclusive t \<longleftrightarrow> ws_current (ts_sem t) = 0 \<and>
     (\<exists>n rest. ts_held t = add_mset n rest \<and> ws_cap (ts_sem t) < n \<and> n \<le> ws_budget (ts_sem t) \<and> sum_mset rest = 0)"

definition sem_ok :: "nat \<Rightarrow> tasks \<Rightarrow> bool" where
  "sem_ok budget t \<longleftrightarrow> ws_cap (ts_sem t) = budget div 2 \<and> ws_budget (ts_sem t) = budget \<and>
     (shared t \<or> exclusive t) \<and> (\<forall>n \<in># ts_asleep t + ts_woken t. n \<le> budget)"

lemma holding_frames [simp]:
  "shared (t\<lparr>ts_asleep := a\<rparr>) \<longleftrightarrow> shared t" "shared (t\<lparr>ts_woken := w\<rparr>) \<longleftrightarrow> shared t"
  "exclusive (t\<lparr>ts_asleep := a\<rparr>) \<longleftrightarrow> exclusive t" "exclusive (t\<lparr>ts_woken := w\<rparr>) \<longleftrightarrow> exclusive t"
  by (simp_all add: shared_def exclusive_def)

lemma sum_mset_zero: "sum_mset (m :: nat multiset) = 0 \<Longrightarrow> n \<in># m \<Longrightarrow> n = 0"
  by (induction m) auto

lemma acquire_ok:
  assumes "sem_ok budget t" "may_acquire n (ts_sem t)" "n \<le> budget" "2 \<le> budget"
  shows "sem_ok budget (t\<lparr>ts_sem := take_chunks n (ts_sem t), ts_held := add_mset n (ts_held t)\<rparr>)"
proof -
  let ?t = "t\<lparr>ts_sem := take_chunks n (ts_sem t), ts_held := add_mset n (ts_held t)\<rparr>"
  have cap: "0 < ws_cap (ts_sem t)" using assms by (simp add: sem_ok_def)
  have "shared ?t \<or> exclusive ?t"
  proof (cases "n \<le> ws_cap (ts_sem t)")
    case True
    then have n: "n \<le> ws_current (ts_sem t)" using assms(2) by (simp add: may_acquire_def)
    show ?thesis
    proof (cases "shared t")
      case True
      then show ?thesis using n \<open>n \<le> ws_cap (ts_sem t)\<close> by (auto simp: shared_def take_chunks_def)
    next
      case False
      then have ex: "exclusive t" using assms(1) by (simp add: sem_ok_def)
      then obtain big rest where b: "ws_current (ts_sem t) = 0" "ts_held t = add_mset big rest"
        "ws_cap (ts_sem t) < big" "big \<le> ws_budget (ts_sem t)" "sum_mset rest = 0" by (auto simp: exclusive_def)
      have "n = 0" using n b(1) by simp
      then have "ts_held ?t = add_mset big (add_mset 0 rest)" using b(2) by (simp add: add_mset_commute)
      moreover have "ws_current (ts_sem ?t) = 0" "sum_mset (add_mset 0 rest) = 0"
        using b \<open>n = 0\<close> by (simp_all add: take_chunks_def)
      ultimately have "exclusive ?t"
        unfolding exclusive_def using b(3,4) by (intro conjI exI [of _ big] exI [of _ "add_mset 0 rest"]) (simp_all add: take_chunks_def)
      then show ?thesis ..
    qed
  next
    case False
    then have full: "ws_current (ts_sem t) = ws_cap (ts_sem t)" using assms(2) by (simp add: may_acquire_def)
    then have "shared t" using assms(1) cap by (auto simp: sem_ok_def exclusive_def)
    then have "sum_mset (ts_held t) = 0" using full by (simp add: shared_def)
    then have "exclusive ?t"
      unfolding exclusive_def using False assms(1,3)
      by (intro conjI exI [of _ n] exI [of _ "ts_held t"]) (simp_all add: take_chunks_def sem_ok_def)
    then show ?thesis ..
  qed
  then show ?thesis using assms(1) by (simp add: sem_ok_def take_chunks_def)
qed

lemma release_ok:
  assumes "sem_ok budget t" "n \<in># ts_held t"
  shows "sem_ok budget (t\<lparr>ts_sem := release_chunks n (ts_sem t), ts_held := ts_held t - {#n#}, ts_asleep := {#},
      ts_woken := ts_woken t + ts_asleep t\<rparr>)" (is "sem_ok budget ?t")
proof -
  obtain m where m: "ts_held t = add_mset n m" using assms(2) by (meson mset_add)
  have "shared ?t \<or> exclusive ?t"
  proof (cases "shared t")
    case True
    then show ?thesis using m by (auto simp: shared_def release_chunks_def)
  next
    case False
    then have "exclusive t" using assms(1) by (simp add: sem_ok_def)
    then obtain big rest where ex: "ws_current (ts_sem t) = 0" "ts_held t = add_mset big rest"
      "ws_cap (ts_sem t) < big" "big \<le> ws_budget (ts_sem t)" "sum_mset rest = 0" by (auto simp: exclusive_def)
    show ?thesis
    proof (cases "n = big")
      case True
      then have "m = rest" using m ex(2) by simp
      then have "sum_mset m = 0" using ex(5) by simp
      then have "shared ?t" using m True ex(3) sum_mset_zero [of m] by (auto simp: shared_def release_chunks_def)
      then show ?thesis ..
    next
      case other: False
      then have "n \<in># rest" using assms(2) ex(2) by auto
      then obtain rest' where r: "rest = add_mset n rest'" by (meson mset_add)
      then have "n = 0" "m = add_mset big rest'" using ex(2,5) m by auto
      then have "exclusive ?t" using ex r m by (auto simp: exclusive_def release_chunks_def)
      then show ?thesis ..
    qed
  qed
  then show ?thesis using assms(1) by (auto simp: sem_ok_def release_chunks_def)
qed

lemma test_condition_ok:
  assumes "sem_ok budget t" "n \<le> budget" "2 \<le> budget"
  shows "sem_ok budget (test_condition n t)"
proof (cases "may_acquire n (ts_sem t)")
  case True
  then show ?thesis using acquire_ok [OF assms(1) True assms(2,3)] by (simp add: test_condition_def)
next
  case False
  then show ?thesis using assms(1,2) by (auto simp: test_condition_def sem_ok_def)
qed

lemma sem_run_ok: "sem_run budget t \<Longrightarrow> 2 \<le> budget \<Longrightarrow> sem_ok budget t"
proof (induction rule: sem_run.induct)
  case start
  then show ?case by (simp add: sem_ok_def new_semaphore_def shared_def)
next
  case (arrive t n)
  then have ok: "sem_ok budget t" by simp
  then have "n \<le> budget" using arrive.hyps(2) by (simp add: acquire_error_def sem_ok_def split: if_splits)
  with ok show ?case using arrive.prems by (intro test_condition_ok)
next
  case (retest t n)
  then have "sem_ok budget (t\<lparr>ts_woken := ts_woken t - {#n#}\<rparr>)" "n \<le> budget"
    by (auto simp: sem_ok_def dest: in_diffD)
  then show ?case using retest.prems by (intro test_condition_ok)
next
  case (release t n)
  then show ?case by (intro release_ok) auto
qed

text \<open>
  C23: With a budget of at least two chunks the tasks that hold the semaphore never hold more chunks
  than the budget. A task with more than half of it excludes every other that holds any.
\<close>

theorem chunks_within_budget:
  assumes "sem_run budget t" "2 \<le> budget"
  shows "sum_mset (ts_held t) \<le> budget \<and> ws_current (ts_sem t) \<le> budget div 2 \<and>
    (\<forall>n rest. ts_held t = add_mset n rest \<and> budget div 2 < n \<longrightarrow> sum_mset rest = 0)"
proof -
  have ok: "sem_ok budget t" by (rule sem_run_ok [OF assms])
  then consider "shared t" | "exclusive t" by (auto simp: sem_ok_def)
  then show ?thesis
  proof cases
    case 1
    then show ?thesis using ok by (auto simp: shared_def sem_ok_def)
  next
    case 2
    then obtain big rest where ex: "ws_current (ts_sem t) = 0" "ts_held t = add_mset big rest"
      "budget div 2 < big" "big \<le> budget" "sum_mset rest = 0" using ok by (auto simp: exclusive_def sem_ok_def)
    have "sum_mset r = 0" if "ts_held t = add_mset n r" "budget div 2 < n" for n r
    proof (cases "n = big")
      case True
      then show ?thesis using that ex by simp
    next
      case False
      then have "n \<in># rest" using that(1) ex(2) by (metis insert_noteq_member)
      then show ?thesis using that(2) sum_mset_zero [OF ex(5)] by fastforce
    qed
    moreover have "sum_mset (ts_held t) = big" unfolding ex(2) using ex(5) by (simp only: sum_mset.add_mset add_0_right)
    ultimately show ?thesis using ex(1,4) by simp
  qed
qed

text \<open>Sleepers cannot go on.\<close>

lemma may_acquire_before:
  "may_acquire k (take_chunks n s) \<Longrightarrow> ws_current s \<le> ws_cap s \<Longrightarrow> may_acquire k s"
  by (auto simp: may_acquire_def take_chunks_def split: if_splits)

lemma sleepers_blocked: "sem_run budget t \<Longrightarrow> 2 \<le> budget \<Longrightarrow> \<forall>n \<in># ts_asleep t. \<not> may_acquire n (ts_sem t)"
proof -
  have step: "\<forall>k \<in># ts_asleep (test_condition n t). \<not> may_acquire k (ts_sem (test_condition n t))"
    if "\<forall>k \<in># ts_asleep t. \<not> may_acquire k (ts_sem t)" "ws_current (ts_sem t) \<le> ws_cap (ts_sem t)" for n and t :: tasks
    using that may_acquire_before [of _ n "ts_sem t"]
    by (cases "may_acquire n (ts_sem t)") (auto simp: test_condition_def)
  have cur: "ws_current (ts_sem t) \<le> ws_cap (ts_sem t)" if "sem_run budget t" "2 \<le> budget" for t :: tasks
    using sem_run_ok [OF that] by (auto simp: sem_ok_def shared_def exclusive_def)
  assume "sem_run budget t" "2 \<le> budget"
  then show ?thesis
  proof (induction rule: sem_run.induct)
    case start
    then show ?case by simp
  next
    case (arrive t n)
    then show ?case using step [of t n] cur by blast
  next
    case (retest t n)
    then show ?case using step [of "t\<lparr>ts_woken := ts_woken t - {#n#}\<rparr>" n] cur by simp
  next
    case (release t n)
    then show ?case by simp
  qed
qed

text \<open>
  C24: No wake-up is lost: once every holder has released the semaphore and every woken task has
  tested the condition again, no task sleeps; a task only sleeps while another holds chunks.
\<close>

theorem no_task_left_asleep:
  assumes "sem_run budget t" "2 \<le> budget" "ts_held t = {#}" "ts_woken t = {#}"
  shows "ts_asleep t = {#}"
proof (rule ccontr)
  assume "ts_asleep t \<noteq> {#}"
  then obtain n where n: "n \<in># ts_asleep t" by blast
  have "ws_current (ts_sem t) = ws_cap (ts_sem t)"
    using sem_run_ok [OF assms(1,2)] assms(3) by (auto simp: sem_ok_def shared_def exclusive_def)
  then have "may_acquire n (ts_sem t)" by (simp add: may_acquire_def)
  then show False using sleepers_blocked [OF assms(1,2)] n by blast
qed

text \<open>
  With a budget of a single chunk half of it is nothing, and the condition of the exclusive case always
  holds: two tasks acquire the one chunk at the same time.
\<close>

theorem single_chunk_unprotected:
  "\<exists>t. sem_run 1 t \<and> ts_held t = {#1, 1#}"
proof -
  let ?t0 = "\<lparr>ts_sem = new_semaphore 1, ts_held = {#}, ts_asleep = {#}, ts_woken = {#}\<rparr>"
  have "sem_run 1 (test_condition 1 (test_condition 1 ?t0))"
    by (intro sem_run.arrive sem_run.start)
      (simp_all add: acquire_error_def new_semaphore_def test_condition_def may_acquire_def take_chunks_def)
  moreover have "ts_held (test_condition 1 (test_condition 1 ?t0)) = {#1, 1#}"
    by (simp add: new_semaphore_def test_condition_def may_acquire_def take_chunks_def)
  ultimately show ?thesis by blast
qed

section \<open>A run\<close>

text \<open>A budget of ten: a task takes three chunks, one that wants eight sleeps until they are released.\<close>

definition demo_tasks :: tasks where
  "demo_tasks =
     (let t = test_condition 8 (test_condition 3
            \<lparr>ts_sem = new_semaphore 10, ts_held = {#}, ts_asleep = {#}, ts_woken = {#}\<rparr>);
          t' = t\<lparr>ts_sem := release_chunks 3 (ts_sem t), ts_held := ts_held t - {#3#}, ts_asleep := {#},
                 ts_woken := ts_woken t + ts_asleep t\<rparr>
      in test_condition 8 (t'\<lparr>ts_woken := ts_woken t' - {#8#}\<rparr>))"

lemmas sem_eval = new_semaphore_def test_condition_def may_acquire_def take_chunks_def release_chunks_def

lemma demo_tasks_run: "sem_run 10 demo_tasks"
  unfolding demo_tasks_def Let_def
  by (intro sem_run.retest sem_run.release sem_run.arrive sem_run.start) (simp_all add: acquire_error_def sem_eval)

theorem chunks_within_budget_witness: "ts_held demo_tasks = {#8#} \<and> sum_mset (ts_held demo_tasks) \<le> 10"
  using chunks_within_budget [OF demo_tasks_run] by (simp add: demo_tasks_def sem_eval Let_def)

theorem no_task_left_asleep_witness:
  "ts_asleep (demo_tasks\<lparr>ts_sem := release_chunks 8 (ts_sem demo_tasks), ts_held := ts_held demo_tasks - {#8#}, ts_asleep := {#},
     ts_woken := ts_woken demo_tasks + ts_asleep demo_tasks\<rparr>) = {#}"
  by (rule no_task_left_asleep [OF sem_run.release [OF demo_tasks_run]]) (simp_all add: demo_tasks_def sem_eval Let_def)

end
