(* ===== verification/Cache_Engine.thy ===== *)
theory Cache_Engine
  imports Storage_Manager
begin

text \<open>
  The cache engine (\<^verbatim>\<open>v1/cache_engine.py\<close>): it cuts a request into chunks, moves their KV data between
  the GPU and the storage manager, keeps what a look-up has pinned and passes the other operations on.
  Statistics and logging are left out.
\<close>

section \<open>Surroundings\<close>

text \<open>
  What the engine asks of the parts that are not modelled: the GPU connector, the token database (the
  chunks of a request are an argument of every operation) and the listing of its tokens, the events of LMCache's event manager, and
  the broadcast between ranks. Like the answers of the backends they depend on everything called before.
  A chunk is a token range \<open>(start, end)\<close> with its key.
\<close>

datatype event_status = Not_found | Ongoing | Finished

type_synonym 'k span = "int \<times> int \<times> 'k"

record ('b, 'k, 'o, 'q) connector =
  g_plans :: "direction \<Rightarrow> int list \<Rightarrow> int list \<Rightarrow> plan list res"
  g_layout :: "int \<Rightarrow> 'q"
  g_layer_layout :: "int \<Rightarrow> 'q"
  g_hash :: "'k \<Rightarrow> int"
  g_tokens :: "int list \<Rightarrow> int \<Rightarrow> int \<Rightarrow> int list"
  g_split :: "'k \<Rightarrow> nat \<Rightarrow> 'k list"
  g_info :: "'o \<Rightarrow> 'q"
  g_raw :: "'o \<Rightarrow> bytes option"
  g_build :: "bytes \<Rightarrow> 'q \<Rightarrow> 'o"
  g_load_stream :: bool
  g_from :: "('b, 'k, 'o, 'q) call list \<Rightarrow> 'o list \<Rightarrow> int list \<Rightarrow> int list \<Rightarrow> unit res"
  g_to :: "('b, 'k, 'o, 'q) call list \<Rightarrow> 'o list \<Rightarrow> int list \<Rightarrow> int list \<Rightarrow> unit res"
  g_unpin :: "('b, 'k, 'o, 'q) call list \<Rightarrow> 'o \<Rightarrow> unit res"
  g_status :: "('b, 'k, 'o, 'q) call list \<Rightarrow> string \<Rightarrow> event_status"
  g_future :: "('b, 'k, 'o, 'q) call list \<Rightarrow> string \<Rightarrow> ('k \<times> 'o) list list res res"
  g_recode :: "('b, 'k, 'o, 'q) call list \<Rightarrow> 'o \<Rightarrow> 'o res"
  g_send_put :: "('b, 'k, 'o, 'q) call list \<Rightarrow> 'b \<Rightarrow> 'k list \<Rightarrow> 'o list \<Rightarrow> unit res"
  g_send :: "('b, 'k, 'o, 'q) call list \<Rightarrow> unit res"
  g_recv_count :: "('b, 'k, 'o, 'q) call list \<Rightarrow> nat option res"
  g_recv_chunk :: "('b, 'k, 'o, 'q) call list \<Rightarrow> (int \<times> int \<times> 'q) option res"
  g_recv_tensor :: "('b, 'k, 'o, 'q) call list \<Rightarrow> 'q \<Rightarrow> bytes res"
  g_close_worker :: "('b, 'k, 'o, 'q) call list \<Rightarrow> unit res"

section \<open>The engine\<close>

text \<open>A KV event (\<^verbatim>\<open>CacheStoreEvent\<close>), without its fixed fields.\<close>

record kv_event =
  ev_hash :: int
  ev_parent :: "int option"
  ev_tokens :: "int list"
  ev_block :: int

text \<open>
  \<open>e_monitor\<close> is the answer of the health monitor, if there is one; \<open>e_lookup_pins\<close> maps a look-up to the keys it
  has pinned at each location.
\<close>

record ('b, 'k) engine =
  e_manager :: "'b manager option"
  e_gpu :: bool
  e_init_failed :: bool
  e_monitor :: "bool option"
  e_only_first :: bool
  e_first_rank :: bool
  e_worker :: bool
  e_async :: bool
  e_layerwise :: bool
  e_layers :: nat
  e_remove_after :: bool
  e_store_location :: "string option"
  e_retrieve_locations :: "string list option"
  e_force_wait :: bool
  e_events_on :: bool
  e_events :: "kv_event list"
  e_lookup_pins :: "(string \<times> (string \<times> 'k list) list) list"

definition is_healthy :: "('b, 'k) engine \<Rightarrow> bool" where
  "is_healthy e \<longleftrightarrow> \<not> e_init_failed e \<and> (case e_monitor e of None \<Rightarrow> True | Some ok \<Rightarrow> ok)"

definition mark_init_failed :: "('b, 'k) engine \<Rightarrow> ('b, 'k) engine" where
  "mark_init_failed e = e\<lparr>e_init_failed := True\<rparr>"

definition is_passive :: "('b, 'k) engine \<Rightarrow> bool" where
  "is_passive e \<longleftrightarrow> e_only_first e \<and> \<not> e_first_rank e"

definition engine_freeze :: "bool \<Rightarrow> ('b, 'k) engine \<Rightarrow> ('b, 'k) engine" where
  "engine_freeze b e = e\<lparr>e_manager := map_option (set_freeze b) (e_manager e)\<rparr>"

definition engine_is_frozen :: "('b, 'k) engine \<Rightarrow> bool" where
  "engine_is_frozen e \<longleftrightarrow> (case e_manager e of None \<Rightarrow> False | Some m \<Rightarrow> is_frozen m)"

definition engine_set_hot_cache ::
    "('b, 'k, 'o, 'q) api \<Rightarrow> ('b, 'k) engine \<Rightarrow> bool \<Rightarrow> (unit, ('b, 'k, 'o, 'q) call) act" where
  "engine_set_hot_cache api e b = (case e_manager e of None \<Rightarrow> ret () | Some m \<Rightarrow> set_hot_cache api m b)"

definition engine_is_hot ::
    "('b, 'k, 'o, 'q) api \<Rightarrow> ('b, 'k) engine \<Rightarrow> ('b, 'k, 'o, 'q) call list \<Rightarrow> bool" where
  "engine_is_hot api e h = (case e_manager e of None \<Rightarrow> False | Some m \<Rightarrow> is_hot_cache_enabled api m h)"

definition get_kv_events :: "('b, 'k) engine \<Rightarrow> kv_event list \<times> ('b, 'k) engine" where
  "get_kv_events e = (if e_events_on e then (e_events e, e\<lparr>e_events := []\<rparr>) else ([], e))"

section \<open>Stores\<close>

text \<open>
  The arguments of a store. \<open>s_slots\<close> is whether the slot mapping is given, which a store by hashes
  needs; \<open>s_req\<close> is the request's id or \<^verbatim>\<open>"unspecified"\<close>.
\<close>

record 'q store_args =
  s_tokens :: "int list option"
  s_hashes :: "int list option"
  s_offsets :: "int list option"
  s_masked :: bool
  s_slots :: bool
  s_spec :: "'q option"
  s_req :: string

definition store_args_error :: "'q store_args \<Rightarrow> exn option" where
  "store_args_error a =
     (let by_hashes = \<not> s_masked a \<and> s_tokens a = None \<and> s_hashes a \<noteq> None
      in first_error
       [(by_hashes \<and> s_offsets a = None, AssertionError ''Offsets should be set when hashes are provided during store''),
        (by_hashes \<and> \<not> s_slots a, KeyError ''slot_mapping''),
        (s_tokens a = None \<and> s_hashes a = None, AssertionError ''Either 'tokens' or 'hashes' must be provided.'')])"

text \<open>What the loop over the chunks collects.\<close>

record ('k, 'o) store_batch =
  sb_starts :: "int list"
  sb_ends :: "int list"
  sb_keys :: "'k list"
  sb_objs :: "'o list"
  sb_events :: "kv_event list"
  sb_prev :: int

definition event_tokens :: "('b, 'k, 'o, 'q) connector \<Rightarrow> 'q store_args \<Rightarrow> int \<Rightarrow> int \<Rightarrow> int list" where
  "event_tokens g a start stop =
     (case s_tokens a of
        Some ts \<Rightarrow> g_tokens g ts start stop
      | None \<Rightarrow> (case s_hashes a of Some hs \<Rightarrow> py_slice hs start (stop + 1) | None \<Rightarrow> []))"

definition record_event ::
    "('b, 'k, 'o, 'q) connector \<Rightarrow> bool \<Rightarrow> 'q store_args \<Rightarrow> 'k span \<Rightarrow> ('k, 'o) store_batch \<Rightarrow> ('k, 'o) store_batch" where
  "record_event g on a c sb =
     (case c of (start, stop, key) \<Rightarrow>
        if on then
          sb\<lparr>sb_events := sb_events sb @
               [\<lparr>ev_hash = g_hash g key, ev_parent = (if start = 0 then None else Some (sb_prev sb)),
                 ev_tokens = event_tokens g a start stop, ev_block = stop - start\<rparr>],
             sb_prev := g_hash g key\<rparr>
        else sb)"

definition add_object :: "'k span \<Rightarrow> 'o \<Rightarrow> ('k, 'o) store_batch \<Rightarrow> ('k, 'o) store_batch" where
  "add_object c obj sb =
     (case c of (start, stop, key) \<Rightarrow>
        sb\<lparr>sb_starts := sb_starts sb @ [start], sb_ends := sb_ends sb @ [stop],
           sb_keys := sb_keys sb @ [key], sb_objs := sb_objs sb @ [obj]\<rparr>)"

text \<open>
  The loop over the chunks and the results of the direct store. Without memory it ends early and keeps
  what it has; an exception keeps the events. \<open>uneven\<close> is the exception of the strict \<^verbatim>\<open>zip\<close>.
\<close>

fun store_loop ::
    "('b, 'k, 'o, 'q) api \<Rightarrow> ('b, 'k, 'o, 'q) connector \<Rightarrow> ('b, 'k) engine \<Rightarrow> 'b manager \<Rightarrow> 'q store_args \<Rightarrow>
     exn option \<Rightarrow> ('k span \<times> bool) list \<Rightarrow> ('k, 'o) store_batch \<Rightarrow> ('b, 'k, 'o, 'q) call list \<Rightarrow>
     (exn option \<times> ('k, 'o) store_batch) \<times> ('b, 'k, 'o, 'q) call list" where
  "store_loop api g e m a uneven [] sb h = ((uneven, sb), h)"
| "store_loop api g e m a uneven ((c, sent) # rest) sb h =
     (if sent then store_loop api g e m a uneven rest (record_event g (e_events_on e) a c sb) h
      else (case manager_allocate api m (g_layout g (fst (snd c) - fst c)) True (e_force_wait e) h of
        (Inl x, h') \<Rightarrow> ((Some x, sb), h')
      | (Inr None, h') \<Rightarrow> ((None, sb), h')
      | (Inr (Some obj), h') \<Rightarrow>
          store_loop api g e m a uneven rest (record_event g (e_events_on e) a c (add_object c obj sb)) h'))"

definition store_direct ::
    "('b, 'k, 'o, 'q) api \<Rightarrow> ('b, 'k, 'o, 'q) connector \<Rightarrow> ('b, 'k) engine \<Rightarrow> 'b manager \<Rightarrow> 'q store_args \<Rightarrow>
     'k span list \<Rightarrow> (bool list, ('b, 'k, 'o, 'q) call) act" where
  "store_direct api g e m a cs =
     (if cs \<noteq> [] \<and> manager_supports_direct_io api m (e_store_location e) (Some STORE) then
        (case g_plans g STORE (map fst cs) (map (fst \<circ> snd) cs) of
           Inl x \<Rightarrow> fail x
         | Inr plans \<Rightarrow> manager_direct_put api m (map (snd \<circ> snd) cs) plans (e_store_location e) (Some (s_req a)))
      else ret (replicate (length cs) False))"

definition store_objects ::
    "('b, 'k, 'o, 'q) api \<Rightarrow> ('b, 'k, 'o, 'q) connector \<Rightarrow> ('b, 'k) engine \<Rightarrow> 'b manager \<Rightarrow> 'q store_args \<Rightarrow>
     ('k, 'o) store_batch \<Rightarrow> (unit, ('b, 'k, 'o, 'q) call) act" where
  "store_objects api g e m a sb =
     (if sb_objs sb = [] then ret ()
      else then_do
        (ask (\<lambda>h. g_from g h (sb_objs sb) (sb_starts sb) (sb_ends sb)) (\<lambda>r. Above (From_gpu (sb_objs sb) (sb_starts sb) (sb_ends sb) r)))
        (\<lambda>_. batched_put api m (sb_keys sb) (sb_objs sb) (s_spec a) (e_store_location e) (Some (s_req a))))"

definition no_batch :: "('k, 'o) store_batch" where
  "no_batch = \<lparr>sb_starts = [], sb_ends = [], sb_keys = [], sb_objs = [], sb_events = [], sb_prev = 0\<rparr>"

definition strict_zip_error :: "'a list \<Rightarrow> 'b list \<Rightarrow> exn option" where
  "strict_zip_error xs ys = (if length xs = length ys then None else Some (ValueError ''zip''))"

definition store_chunks ::
    "('b, 'k, 'o, 'q) api \<Rightarrow> ('b, 'k, 'o, 'q) connector \<Rightarrow> ('b, 'k) engine \<Rightarrow> 'b manager \<Rightarrow> 'q store_args \<Rightarrow>
     'k span list \<Rightarrow> ('b, 'k, 'o, 'q) call list \<Rightarrow> (unit res \<times> kv_event list) \<times> ('b, 'k, 'o, 'q) call list" where
  "store_chunks api g e m a cs h =
     (case store_direct api g e m a cs h of
        (Inl x, h1) \<Rightarrow> ((Inl x, []), h1)
      | (Inr flags, h1) \<Rightarrow>
          (case store_loop api g e m a (strict_zip_error cs flags) (zip cs flags) no_batch h1 of
             ((Some x, sb), h2) \<Rightarrow> ((Inl x, sb_events sb), h2)
           | ((None, sb), h2) \<Rightarrow>
               (case store_objects api g e m a sb h2 of (r, h3) \<Rightarrow> ((r, sb_events sb), h3))))"

text \<open>
  The store. The health, the rank and the freeze mode are checked before anything is called; the chunks
  are the answer of the token database.
\<close>

definition store ::
    "('b, 'k, 'o, 'q) api \<Rightarrow> ('b, 'k, 'o, 'q) connector \<Rightarrow> ('b, 'k) engine \<Rightarrow> 'q store_args \<Rightarrow> 'k span list res \<Rightarrow>
     ('b, 'k, 'o, 'q) call list \<Rightarrow> (unit res \<times> ('b, 'k) engine) \<times> ('b, 'k, 'o, 'q) call list" where
  "store api g e a chunks h =
     (if \<not> is_healthy e then ((Inr (), e), h)
      else if \<not> e_gpu e then ((Inl (AssertionError ''gpu_connector is required for store operation''), e), h)
      else if is_passive e then ((Inr (), e), h)
      else case e_manager e of
        None \<Rightarrow> ((Inl (AssertionError ''storage_manager''), e), h)
      | Some m \<Rightarrow>
          (case store_args_error a of
             Some x \<Rightarrow> ((Inl x, e), h)
           | None \<Rightarrow>
               if engine_is_frozen e then ((Inr (), e), h)
               else case chunks of
                 Inl x \<Rightarrow> ((Inl x, e), h)
               | Inr cs \<Rightarrow>
                   (case store_chunks api g e m a cs h of
                      ((r, evs), h') \<Rightarrow> ((r, e\<lparr>e_events := e_events e @ evs\<rparr>), h'))))"

section \<open>Loads\<close>

text \<open>
  A chunk on its way to the GPU: its key (\<open>None\<close> if it was received from another rank), its object and
  its tokens. \<open>mark\<close> is \<^verbatim>\<open>ret_mask[a:b] = v\<close> for non-negative bounds, \<open>clear_from\<close> is \<^verbatim>\<open>ret_mask[a:] = False\<close>.
\<close>

type_synonym ('k, 'o) loaded = "'k option \<times> 'o \<times> int \<times> int"

definition mark :: "int \<Rightarrow> int \<Rightarrow> bool list \<Rightarrow> bool list" where
  "mark a b msk = map (\<lambda>(i, x). x \<or> (a \<le> int i \<and> int i < b)) (enumerate 0 msk)"

definition clear_from :: "int \<Rightarrow> bool list \<Rightarrow> bool list" where
  "clear_from a msk = map (\<lambda>(i, x). x \<and> int i < a) (enumerate 0 msk)"

text \<open>A dictionary from its items, later ones winning.\<close>

definition dict_of :: "('k \<times> 'v) list \<Rightarrow> ('k \<times> 'v) list" where
  "dict_of items = foldl (\<lambda>d (k, v). dict_put k v d) [] items"

text \<open>
  The asynchronous load has been started by the look-up; here its result is collected. A failed load
  yields no chunks. Objects that no chunk uses are released.
\<close>

fun async_take ::
    "('k \<times> 'o) list \<Rightarrow> 'k span list \<Rightarrow> ('k, 'o) loaded list \<Rightarrow> bool list \<Rightarrow> ('k, 'o) loaded list \<times> bool list" where
  "async_take objs [] taken msk = (taken, msk)"
| "async_take objs ((a, b, k) # cs) taken msk =
     (case map_of objs k of
        None \<Rightarrow> (taken, msk)
      | Some x \<Rightarrow> async_take objs cs (taken @ [(Some k, x, a, b)]) (mark a b msk))"

definition async_process_tokens ::
    "('b, 'k, 'o, 'q) connector \<Rightarrow> string option \<Rightarrow> 'k span list res \<Rightarrow> bool list \<Rightarrow>
     (('k, 'o) loaded list \<times> bool list, ('b, 'k, 'o, 'q) call) act" where
  "async_process_tokens g req chunks msk =
     (case req of
        None \<Rightarrow> fail (AssertionError ''req_id is required for async loading'')
      | Some r \<Rightarrow> (\<lambda>h. case g_future g h r of
          Inl x \<Rightarrow> fail x h
        | Inr (Inl x) \<Rightarrow> ret ([], msk) h
        | Inr (Inr results) \<Rightarrow>
            (case chunks of
               Inl x \<Rightarrow> fail x h
             | Inr cs \<Rightarrow>
                 (let objs = dict_of (concat results);
                      (taken, msk') = async_take objs cs [] msk
                  in then_do (do_each ref_count_down (map snd (filter (\<lambda>(k, x). Some k \<notin> fst ` set taken) objs)))
                       (\<lambda>_. ret (taken, msk')) h))))"

text \<open>
  The synchronous load. \<open>ld_failed\<close> is \<^verbatim>\<open>last_failed_block_start\<close>: the largest start of a chunk that
  could not be loaded.
\<close>

record ('k, 'o) load =
  ld_chunks :: "('k, 'o) loaded list"
  ld_mask :: "bool list"
  ld_failed :: "int option"

definition deliver :: "'k \<Rightarrow> 'o \<Rightarrow> int \<Rightarrow> int \<Rightarrow> ('k, 'o) load \<Rightarrow> ('k, 'o) load" where
  "deliver k x a b s = s\<lparr>ld_chunks := ld_chunks s @ [(Some k, x, a, b)], ld_mask := mark a b (ld_mask s)\<rparr>"

definition fail_at :: "int \<Rightarrow> ('k, 'o) load \<Rightarrow> ('k, 'o) load" where
  "fail_at a s = s\<lparr>ld_failed := (case ld_failed s of None \<Rightarrow> Some a | Some f \<Rightarrow> Some (if f < a then a else f))\<rparr>"

text \<open>
  The chunks of one location with the flags of the direct transfer, and the objects of the others. The
  first object that is missing ends the loop; what is left of the objects is returned to be released.
\<close>

fun take_blocks ::
    "(('k \<times> int \<times> int) \<times> bool) list \<Rightarrow> 'o option list \<Rightarrow> ('k, 'o) load \<Rightarrow> (('k, 'o) load \<times> 'o option list) res" where
  "take_blocks [] objs s = Inr (s, objs)"
| "take_blocks (((k, a, b), sent) # bs) objs s =
     (if sent then take_blocks bs objs (s\<lparr>ld_mask := mark a b (ld_mask s)\<rparr>)
      else case objs of
        [] \<Rightarrow> Inl IndexError
      | None # os \<Rightarrow> Inr (fail_at a s, os)
      | Some x # os \<Rightarrow> take_blocks bs os (deliver k x a b s))"

definition load_direct ::
    "('b, 'k, 'o, 'q) api \<Rightarrow> ('b, 'k, 'o, 'q) connector \<Rightarrow> 'b manager \<Rightarrow> string option \<Rightarrow> string \<Rightarrow>
     ('k \<times> int \<times> int) list \<Rightarrow> (bool list, ('b, 'k, 'o, 'q) call) act" where
  "load_direct api g m req loc blocks =
     (if manager_supports_direct_io api m (Some loc) (Some RETRIEVE) then
        (case g_plans g RETRIEVE (map (fst \<circ> snd) blocks) (map (snd \<circ> snd) blocks) of
           Inl x \<Rightarrow> fail x
         | Inr plans \<Rightarrow> manager_direct_get api m (map fst blocks) plans loc req)
      else ret (replicate (length blocks) False))"

definition load_location ::
    "('b, 'k, 'o, 'q) api \<Rightarrow> ('b, 'k, 'o, 'q) connector \<Rightarrow> 'b manager \<Rightarrow> string option \<Rightarrow>
     string \<times> ('k \<times> int \<times> int) list \<Rightarrow> ('k, 'o) load \<Rightarrow> (('k, 'o) load, ('b, 'k, 'o, 'q) call) act" where
  "load_location api g m req lb s =
     (case lb of (loc, blocks) \<Rightarrow>
        then_do (load_direct api g m req loc blocks)
          (\<lambda>flags. if length flags \<noteq> length blocks then fail (ValueError ''zip'')
             else let rest = map fst (filter (\<lambda>(c, sent). \<not> sent) (zip blocks flags)) in
               then_do (if rest = [] then ret [] else manager_batched_get api m (map fst rest) (Some loc))
                 (\<lambda>objs. case take_blocks (zip blocks flags) objs s of
                    Inl x \<Rightarrow> fail x
                  | Inr (s', left) \<Rightarrow>
                      then_do (do_each ref_count_down (List.map_filter (\<lambda>x. x) left)) (\<lambda>_. ret s'))))"

fun load_locations ::
    "('b, 'k, 'o, 'q) api \<Rightarrow> ('b, 'k, 'o, 'q) connector \<Rightarrow> 'b manager \<Rightarrow> string option \<Rightarrow>
     (string \<times> ('k \<times> int \<times> int) list) list \<Rightarrow> ('k, 'o) load \<Rightarrow> (('k, 'o) load, ('b, 'k, 'o, 'q) call) act" where
  "load_locations api g m req [] s = ret s"
| "load_locations api g m req (lb # lbs) s =
     then_do (load_location api g m req lb s) (\<lambda>s'. load_locations api g m req lbs s')"

definition finish_load :: "('k, 'o) load \<Rightarrow> ('k, 'o) loaded list \<times> bool list" where
  "finish_load s =
     (case ld_failed s of
        None \<Rightarrow> (ld_chunks s, ld_mask s)
      | Some f \<Rightarrow> (filter (\<lambda>(k, x, a, b). b < f) (ld_chunks s), clear_from f (ld_mask s)))"

text \<open>If the look-up has pinned one location, all chunks are taken from it.\<close>

definition block_mapping_for ::
    "('b, 'k, 'o, 'q) api \<Rightarrow> ('b, 'k) engine \<Rightarrow> 'b manager \<Rightarrow> string option \<Rightarrow> ('k \<times> int \<times> int) list \<Rightarrow>
     ((string \<times> ('k \<times> int \<times> int) list) list, ('b, 'k, 'o, 'q) call) act" where
  "block_mapping_for api e m req infos =
     (case Option.bind req (map_of (e_lookup_pins e)) of
        Some [(loc, ks)] \<Rightarrow> ret [(loc, infos)]
      | _ \<Rightarrow> get_block_mapping api m infos)"

definition process_tokens ::
    "('b, 'k, 'o, 'q) api \<Rightarrow> ('b, 'k, 'o, 'q) connector \<Rightarrow> ('b, 'k) engine \<Rightarrow> string option \<Rightarrow> 'k span list res \<Rightarrow>
     bool list \<Rightarrow> (('k, 'o) loaded list \<times> bool list, ('b, 'k, 'o, 'q) call) act" where
  "process_tokens api g e req chunks msk =
     (case e_manager e of
        None \<Rightarrow> fail (AssertionError ''storage_manager'')
      | Some m \<Rightarrow>
          (case chunks of
             Inl x \<Rightarrow> fail x
           | Inr cs \<Rightarrow>
               then_do (block_mapping_for api e m req (map (\<lambda>(a, b, k). (k, a, b)) cs))
                 (\<lambda>mapping. then_do (load_locations api g m req mapping \<lparr>ld_chunks = [], ld_mask = msk, ld_failed = None\<rparr>)
                    (\<lambda>s. ret (finish_load s)))))"

section \<open>Broadcast\<close>

text \<open>
  With \<^verbatim>\<open>save_only_first_rank\<close> the first rank loads and the others receive: a count, then for every chunk
  its range with the description of its object, and its raw data. A receiver builds its objects from
  both (\<open>g_build\<close>, LMCache's \<^verbatim>\<open>TensorMemoryObj\<close>).
\<close>

definition call_above ::
    "(('b, 'k, 'o, 'q) call list \<Rightarrow> 'x res) \<Rightarrow> ('x res \<Rightarrow> ('b, 'k, 'o, 'q) upper_call) \<Rightarrow>
     ('x, ('b, 'k, 'o, 'q) call) act" where
  "call_above reply entry = ask reply (\<lambda>r. Above (entry r))"

definition send_chunk ::
    "('b, 'k, 'o, 'q) connector \<Rightarrow> ('k, 'o) loaded \<Rightarrow> (unit, ('b, 'k, 'o, 'q) call) act" where
  "send_chunk g c =
     (case c of (k, x, a, b) \<Rightarrow>
        then_do (call_above (g_send g) (Send_chunk a b (g_info g x)))
          (\<lambda>_. case g_raw g x of
               None \<Rightarrow> fail (AssertionError ''raw_tensor'')
             | Some d \<Rightarrow> call_above (g_send g) (Send_tensor d)))"

fun receive_chunks ::
    "('b, 'k, 'o, 'q) connector \<Rightarrow> nat \<Rightarrow> ('k, 'o) loaded list \<Rightarrow> bool list \<Rightarrow>
     (('k, 'o) loaded list \<times> bool list, ('b, 'k, 'o, 'q) call) act" where
  "receive_chunks g 0 got msk = ret (got, msk)"
| "receive_chunks g (Suc n) got msk =
     then_do (call_above (g_recv_chunk g) Recv_chunk)
       (\<lambda>c. case c of
          None \<Rightarrow> ret (got, msk)
        | Some (a, b, q) \<Rightarrow>
            then_do (call_above (\<lambda>h. g_recv_tensor g h q) (Recv_tensor q))
              (\<lambda>d. receive_chunks g n (got @ [(None, g_build g d q, a, b)]) (mark a b msk)))"

definition broadcast_or_receive ::
    "('b, 'k, 'o, 'q) connector \<Rightarrow> bool \<Rightarrow> ('k, 'o) loaded list \<times> bool list \<Rightarrow>
     (('k, 'o) loaded list \<times> bool list, ('b, 'k, 'o, 'q) call) act" where
  "broadcast_or_receive g first got =
     (if first then
        then_do (call_above (g_send g) (Send_count (length (fst got))))
          (\<lambda>_. then_do (do_each (send_chunk g) (fst got)) (\<lambda>_. ret got))
      else then_do (call_above (g_recv_count g) Recv_count)
        (\<lambda>n. case n of None \<Rightarrow> ret got | Some n \<Rightarrow> receive_chunks g n (fst got) (snd got)))"

section \<open>Retrieval\<close>

text \<open>
  The chunks go to the GPU in one call; then each is removed from the storage if the role demands it, and
  its object is released, except after an asynchronous load.
\<close>

definition finish_chunk ::
    "('b, 'k, 'o, 'q) api \<Rightarrow> ('b, 'k) engine \<Rightarrow> ('k, 'o) loaded \<Rightarrow> (unit, ('b, 'k, 'o, 'q) call) act" where
  "finish_chunk api e c =
     (case c of (k, x, a, b) \<Rightarrow>
        then_do
          (if e_remove_after e \<and> \<not> is_passive e then
             (case (e_manager e, k) of
                (Some m, Some key) \<Rightarrow> then_do (manager_remove api m key (e_retrieve_locations e)) (\<lambda>_. ret ())
              | _ \<Rightarrow> fail (AssertionError ''storage_manager''))
           else ret ())
          (\<lambda>_. if e_async e then ret () else ref_count_down x))"

definition hand_over ::
    "('b, 'k, 'o, 'q) api \<Rightarrow> ('b, 'k, 'o, 'q) connector \<Rightarrow> ('b, 'k) engine \<Rightarrow> ('k, 'o) loaded list \<Rightarrow>
     (unit, ('b, 'k, 'o, 'q) call) act" where
  "hand_over api g e cs =
     then_do
       (if cs = [] then ret ()
        else (let objs = map (fst \<circ> snd) cs; starts = map (fst \<circ> snd \<circ> snd) cs; ends = map (snd \<circ> snd \<circ> snd) cs
              in call_above (\<lambda>h. g_to g h objs starts ends) (To_gpu objs starts ends)))
       (\<lambda>_. do_each (finish_chunk api e) cs)"

definition load_chunks ::
    "('b, 'k, 'o, 'q) api \<Rightarrow> ('b, 'k, 'o, 'q) connector \<Rightarrow> ('b, 'k) engine \<Rightarrow> string option \<Rightarrow> 'k span list res \<Rightarrow>
     bool list \<Rightarrow> (('k, 'o) loaded list \<times> bool list, ('b, 'k, 'o, 'q) call) act" where
  "load_chunks api g e req chunks msk =
     then_do
       (if is_passive e then ret ([], msk)
        else if e_async e then async_process_tokens g req chunks msk
        else process_tokens api g e req chunks msk)
       (\<lambda>got. if e_only_first e then
                 then_do (broadcast_or_receive g (e_first_rank e) got)
                   (\<lambda>got'. then_do (if g_load_stream g then ret () else call_above (\<lambda>_. Inr ()) (\<lambda>_. Wait_stream))
                     (\<lambda>_. ret got'))
               else ret got)"

definition retrieve ::
    "('b, 'k, 'o, 'q) api \<Rightarrow> ('b, 'k, 'o, 'q) connector \<Rightarrow> ('b, 'k) engine \<Rightarrow> nat \<Rightarrow> string option \<Rightarrow>
     'k span list res \<Rightarrow> (bool list, ('b, 'k, 'o, 'q) call) act" where
  "retrieve api g e n req chunks =
     (if \<not> is_healthy e then ret (replicate n False)
      else if \<not> e_gpu e then fail (AssertionError ''gpu_connector is required for retrieve operation'')
      else then_do (load_chunks api g e req chunks (replicate n False))
        (\<lambda>(cs, msk). then_do (hand_over api g e cs) (\<lambda>_. ret msk)))"

section \<open>Look-ups\<close>

text \<open>
  \<open>hit_end\<close> is the loop over the chunks after a batched look-up: the end of the last hit.
\<close>

fun hit_end :: "nat \<Rightarrow> 'k span list \<Rightarrow> int \<Rightarrow> int" where
  "hit_end n [] r = r"
| "hit_end 0 (c # cs) r = r"
| "hit_end (Suc n) (c # cs) r = hit_end n cs (fst (snd c))"

text \<open>\<^verbatim>\<open>lookup_pins\<close> is a dictionary whose entries appear when they are first extended.\<close>

type_synonym 'k pins = "(string \<times> (string \<times> 'k list) list) list"

definition pins_at :: "string \<Rightarrow> string \<Rightarrow> 'k pins \<Rightarrow> 'k list" where
  "pins_at r loc pins =
     (case map_of pins r of None \<Rightarrow> [] | Some d \<Rightarrow> (case map_of d loc of None \<Rightarrow> [] | Some ks \<Rightarrow> ks))"

definition extend_pins :: "string \<Rightarrow> string \<Rightarrow> 'k list \<Rightarrow> 'k pins \<Rightarrow> 'k pins" where
  "extend_pins r loc ks pins =
     dict_put r (dict_put loc (pins_at r loc pins @ ks) (case map_of pins r of None \<Rightarrow> [] | Some d \<Rightarrow> d)) pins"

text \<open>
  Layer by layer, a chunk counts if all its layers are in one location; only then its pins are recorded.
\<close>

fun lookup_layers ::
    "('b, 'k, 'o, 'q) api \<Rightarrow> ('b, 'k, 'o, 'q) connector \<Rightarrow> nat \<Rightarrow> 'b manager \<Rightarrow> string list option \<Rightarrow> string option \<Rightarrow>
     bool \<Rightarrow> exn option \<Rightarrow> 'k span list \<Rightarrow> int \<Rightarrow> 'k pins \<Rightarrow> ('b, 'k, 'o, 'q) call list \<Rightarrow>
     (int res \<times> 'k pins) \<times> ('b, 'k, 'o, 'q) call list" where
  "lookup_layers api g layers m sr r pin late [] acc pins h = ((case late of None \<Rightarrow> Inr acc | Some x \<Rightarrow> Inl x, pins), h)"
| "lookup_layers api g layers m sr r pin late ((a, b, k) # cs) acc pins h =
     (case manager_batched_contains api m (g_split g k layers) sr pin h of
        (Inl x, h') \<Rightarrow> ((Inl x, pins), h')
      | (Inr (hits, mapping), h') \<Rightarrow>
          if hits = layers \<and> length mapping = 1 then
            (if pin then
               (case r of
                  None \<Rightarrow> ((Inl (AssertionError ''lookup_id is required when pin is True''), pins), h')
                | Some lid \<Rightarrow>
                    lookup_layers api g layers m sr r pin late cs b
                      (extend_pins lid (fst (mapping ! 0)) (g_split g k layers) pins) h')
             else lookup_layers api g layers m sr r pin late cs b pins h')
          else ((Inr acc, pins), h'))"

definition lookup_chunks ::
    "('b, 'k, 'o, 'q) api \<Rightarrow> 'b manager \<Rightarrow> string list option \<Rightarrow> string option \<Rightarrow> bool \<Rightarrow> 'k span list \<Rightarrow>
     'k pins \<Rightarrow> ('b, 'k, 'o, 'q) call list \<Rightarrow> (int res \<times> 'k pins) \<times> ('b, 'k, 'o, 'q) call list" where
  "lookup_chunks api m sr r pin cs pins h =
     (case manager_batched_contains api m (map (snd \<circ> snd) cs) sr pin h of
        (Inl x, h') \<Rightarrow> ((Inl x, pins), h')
      | (Inr (hits, mapping), h') \<Rightarrow>
          if pin \<and> mapping \<noteq> [] then
            (case r of
               None \<Rightarrow> ((Inl (AssertionError ''lookup_id is required when pin is True''), pins), h')
             | Some lid \<Rightarrow> ((Inr (hit_end hits cs 0), dict_put lid mapping pins), h'))
          else ((Inr (hit_end hits cs 0), pins), h'))"

text \<open>
  The chunks come from a generator of the token database: \<open>chunks\<close> are those it produces and the exception it
  ends with, if there is one, which the loop over the layers only meets when it gets there.
  \<open>given\<close> is whether the tokens, or both hashes and offsets, are given. Whatever happens, a look-up that
  pins touches the caches at the end; an exception there replaces the result.
\<close>

definition lookup ::
    "('b, 'k, 'o, 'q) api \<Rightarrow> ('b, 'k, 'o, 'q) connector \<Rightarrow> ('b, 'k) engine \<Rightarrow> bool \<Rightarrow> 'k span list \<times> exn option \<Rightarrow>
     string list option \<Rightarrow> string option \<Rightarrow> bool \<Rightarrow> ('b, 'k, 'o, 'q) call list \<Rightarrow>
     (int res \<times> ('b, 'k) engine) \<times> ('b, 'k, 'o, 'q) call list" where
  "lookup api g e given chunks search_range r pin h =
     (if \<not> is_healthy e then ((Inr 0, e), h)
      else case e_manager e of
        None \<Rightarrow> ((Inl (AssertionError ''storage_manager''), e), h)
      | Some m \<Rightarrow>
          if \<not> given then ((Inl (AssertionError ''offsets''), e), h)
          else
            (let sr = (case search_range of None \<Rightarrow> e_retrieve_locations e | Some s \<Rightarrow> Some s) in
             case (case chunks of (cs, late) \<Rightarrow>
                     if e_layerwise e then lookup_layers api g (e_layers e) m sr r pin late cs 0 (e_lookup_pins e) h
                     else (case late of
                         Some x \<Rightarrow> ((Inl x, e_lookup_pins e), h)
                       | None \<Rightarrow> lookup_chunks api m sr r pin cs (e_lookup_pins e) h)) of
               ((res, pins), h1) \<Rightarrow>
                 if pin then
                   (case touch_caches api m h1 of
                      (Inl x, h2) \<Rightarrow> ((Inl x, e\<lparr>e_lookup_pins := pins\<rparr>), h2)
                    | (Inr _, h2) \<Rightarrow> ((res, e\<lparr>e_lookup_pins := pins\<rparr>), h2))
                 else ((res, e\<lparr>e_lookup_pins := pins\<rparr>), h1)))"

text \<open>The look-up that also starts the loads is handed to the loop of the storage manager.\<close>

definition engine_lookup_and_prefetch ::
    "('b, 'k) engine \<Rightarrow> string \<Rightarrow> 'k span list res \<Rightarrow> string list option \<Rightarrow> bool \<Rightarrow>
     (unit, ('b, 'k, 'o, 'q) call) act" where
  "engine_lookup_and_prefetch e r chunks search_range pin =
     (if e_manager e = None then fail (AssertionError ''storage_manager'')
      else case chunks of
        Inl x \<Rightarrow> fail x
      | Inr cs \<Rightarrow>
          call_above (\<lambda>_. Inr ())
            (\<lambda>_. Prefetch r (map (snd \<circ> snd) cs) (0 # map (fst \<circ> snd) cs)
              (case search_range of None \<Rightarrow> e_retrieve_locations e | Some s \<Rightarrow> Some s) pin))"

text \<open>
  The objects of an asynchronous load that nobody will fetch: each is unpinned and released, and an
  exception skips only its own object.
\<close>

fun drop_objects :: "('b, 'k, 'o, 'q) connector \<Rightarrow> 'o list \<Rightarrow> ('b, 'k, 'o, 'q) call list \<Rightarrow> ('b, 'k, 'o, 'q) call list" where
  "drop_objects g [] h = h"
| "drop_objects g (x # xs) h =
     drop_objects g xs
       (h @ Above (Unpin_object x (g_unpin g h x)) # (case g_unpin g h x of Inl _ \<Rightarrow> [] | Inr _ \<Rightarrow> [Ref_down x]))"

definition cleanup_memory_objs ::
    "('b, 'k, 'o, 'q) connector \<Rightarrow> string \<Rightarrow> (unit, ('b, 'k, 'o, 'q) call) act" where
  "cleanup_memory_objs g r h =
     (if g_status g h r \<noteq> Finished then (Inr (), h)
      else (case g_future g h r of
          Inr (Inr results) \<Rightarrow> (Inr (), drop_objects g (map snd (concat results)) (h @ [Above (Pop_event r)]))
        | _ \<Rightarrow> (Inr (), h @ [Above (Pop_event r)])))"

fun unpin_locations ::
    "('b, 'k, 'o, 'q) api \<Rightarrow> 'b manager \<Rightarrow> (string \<times> 'k list) list \<Rightarrow> (unit, ('b, 'k, 'o, 'q) call) act" where
  "unpin_locations api m [] = ret ()"
| "unpin_locations api m ((loc, ks) # rest) =
     then_do (batched_unpin api m ks (Some [loc])) (\<lambda>_. unpin_locations api m rest)"

definition lookup_unpin ::
    "('b, 'k, 'o, 'q) api \<Rightarrow> ('b, 'k, 'o, 'q) connector \<Rightarrow> ('b, 'k) engine \<Rightarrow> string \<Rightarrow> ('b, 'k, 'o, 'q) call list \<Rightarrow>
     (unit res \<times> ('b, 'k) engine) \<times> ('b, 'k, 'o, 'q) call list" where
  "lookup_unpin api g e r h =
     (case map_of (e_lookup_pins e) r of
        Some d \<Rightarrow>
          (case e_manager e of
             None \<Rightarrow> ((Inl (AssertionError ''storage_manager''), e), h)
           | Some m \<Rightarrow>
               (case unpin_locations api m d h of
                  (x, h') \<Rightarrow> ((x, e\<lparr>e_lookup_pins := dict_del r (e_lookup_pins e)\<rparr>), h')))
      | None \<Rightarrow>
          if g_status g h r \<noteq> Not_found then
            (case cleanup_memory_objs g r h of (x, h') \<Rightarrow> ((x, e), h'))
          else ((Inr (), e), h))"

section \<open>Moves and compression\<close>

text \<open>
  Both look the tokens up with a pin, take the pinned keys of one location and fetch their objects. The
  pins stay recorded under the id of the event.
\<close>

definition fetch_pinned ::
    "('b, 'k, 'o, 'q) api \<Rightarrow> ('b, 'k) engine \<Rightarrow> 'b manager \<Rightarrow> string \<Rightarrow> string \<Rightarrow>
     ('k list \<times> 'o list, ('b, 'k, 'o, 'q) call) act" where
  "fetch_pinned api e m event_id location =
     (case map_of (e_lookup_pins e) event_id of
        None \<Rightarrow> fail (AssertionError ''block_mapping'')
      | Some d \<Rightarrow>
          if length d \<noteq> 1 then fail (AssertionError ''block_mapping'')
          else case map_of d location of
            None \<Rightarrow> fail (KeyError location)
          | Some ks \<Rightarrow>
              then_do (manager_batched_get api m ks (Some location))
                (\<lambda>objs. if None \<in> set objs then fail (AssertionError ''Failed to get memory objects'')
                   else ret (ks, map the objs)))"

definition after_lookup ::
    "((int res \<times> ('b, 'k) engine) \<times> ('b, 'k, 'o, 'q) call list) \<Rightarrow> 'b manager \<Rightarrow>
     (('b, 'k) engine \<Rightarrow> (unit, ('b, 'k, 'o, 'q) call) act) \<Rightarrow>
     (int res \<times> ('b, 'k) engine) \<times> ('b, 'k, 'o, 'q) call list" where
  "after_lookup looked m act =
     (case looked of
        ((Inl x, e), h) \<Rightarrow> ((Inl x, e), h)
      | ((Inr n, e), h) \<Rightarrow>
          if n = 0 then ((Inr 0, e), h)
          else (case act e h of
              (Inl x, h') \<Rightarrow> ((Inl x, e), h')
            | (Inr _, h') \<Rightarrow> ((Inr n, e), h')))"

definition send_objects ::
    "('b, 'k, 'o, 'q) api \<Rightarrow> ('b, 'k, 'o, 'q) connector \<Rightarrow> 'b manager \<Rightarrow> string \<Rightarrow> string \<Rightarrow> bool \<Rightarrow> ('b, 'k) engine \<Rightarrow>
     (unit, ('b, 'k, 'o, 'q) call) act" where
  "send_objects api g m old_position event_id copied e =
     then_do (fetch_pinned api e m event_id old_position)
       (\<lambda>(ks, objs).
          if objs = [] then fail IndexError
          else case map_of (m_backends m) ''P2PBackend'' of
            None \<Rightarrow> fail (KeyError ''P2PBackend'')
          | Some b \<Rightarrow>
              then_do (call_above (\<lambda>h. g_send_put g h b ks objs) (Send_put b ks objs))
                (\<lambda>_. if copied then ret ()
                   else then_do (manager_batched_remove api m ks (Some [old_position])) (\<lambda>_. ret ())))"

definition move ::
    "('b, 'k, 'o, 'q) api \<Rightarrow> ('b, 'k, 'o, 'q) connector \<Rightarrow> ('b, 'k) engine \<Rightarrow> 'k span list \<times> exn option \<Rightarrow> string \<Rightarrow> string \<Rightarrow>
     bool \<Rightarrow> ('b, 'k, 'o, 'q) call list \<Rightarrow> (int res \<times> ('b, 'k) engine) \<times> ('b, 'k, 'o, 'q) call list" where
  "move api g e chunks old_position event_id copied h =
     (case e_manager e of
        None \<Rightarrow> ((Inl (AssertionError ''storage_manager''), e), h)
      | Some m \<Rightarrow>
          after_lookup (lookup api g e True chunks (Some [old_position]) (Some event_id) True h) m
            (send_objects api g m old_position event_id copied))"

text \<open>Each object is re-coded and unpinned; the results take the place of the old ones.\<close>

fun recode_all ::
    "('b, 'k, 'o, 'q) connector \<Rightarrow> 'o list \<Rightarrow> 'o list \<Rightarrow> ('o list, ('b, 'k, 'o, 'q) call) act" where
  "recode_all g [] new = ret new"
| "recode_all g (x # xs) new =
     then_do (call_above (\<lambda>h. g_recode g h x) (Recode x))
       (\<lambda>y. then_do (call_above (\<lambda>h. g_unpin g h x) (Unpin_object x)) (\<lambda>_. recode_all g xs (new @ [y])))"

definition recode_objects ::
    "('b, 'k, 'o, 'q) api \<Rightarrow> ('b, 'k, 'o, 'q) connector \<Rightarrow> 'b manager \<Rightarrow> string \<Rightarrow> string \<Rightarrow> ('b, 'k) engine \<Rightarrow>
     (unit, ('b, 'k, 'o, 'q) call) act" where
  "recode_objects api g m location event_id e =
     then_do (fetch_pinned api e m event_id location)
       (\<lambda>(ks, objs). then_do (recode_all g objs [])
          (\<lambda>new. then_do (manager_batched_remove api m ks (Some [location]))
             (\<lambda>_. batched_put api m ks new None (Some location) None)))"

text \<open>The two operations differ in the serializer, which \<open>g\<close> stands for.\<close>

definition compress ::
    "('b, 'k, 'o, 'q) api \<Rightarrow> ('b, 'k, 'o, 'q) connector \<Rightarrow> ('b, 'k) engine \<Rightarrow> 'k span list \<times> exn option \<Rightarrow> string \<Rightarrow> string \<Rightarrow>
     string \<Rightarrow> ('b, 'k, 'o, 'q) call list \<Rightarrow> (int res \<times> ('b, 'k) engine) \<times> ('b, 'k, 'o, 'q) call list" where
  "compress api g e chunks method location event_id h =
     (case e_manager e of
        None \<Rightarrow> ((Inl (AssertionError ''storage_manager''), e), h)
      | Some m \<Rightarrow>
          if method \<noteq> ''cachegen'' then ((Inr 0, e), h)
          else after_lookup (lookup api g e True chunks (Some [location]) (Some event_id) True h) m
            (recode_objects api g m location event_id))"

definition decompress ::
    "('b, 'k, 'o, 'q) api \<Rightarrow> ('b, 'k, 'o, 'q) connector \<Rightarrow> ('b, 'k) engine \<Rightarrow> 'k span list \<times> exn option \<Rightarrow> string \<Rightarrow> string \<Rightarrow>
     string \<Rightarrow> ('b, 'k, 'o, 'q) call list \<Rightarrow> (int res \<times> ('b, 'k) engine) \<times> ('b, 'k, 'o, 'q) call list" where
  "decompress api g e chunks method location event_id h =
     (case e_manager e of
        None \<Rightarrow> ((Inl (AssertionError ''storage_manager''), e), h)
      | Some m \<Rightarrow>
          if method \<noteq> ''cachegen'' then ((Inr 0, e), h)
          else after_lookup (lookup api g e True chunks (Some [location]) (Some event_id) True h) m
            (recode_objects api g m location event_id))"

section \<open>Upkeep\<close>

definition clear_tokens ::
    "('b, 'k, 'o, 'q) api \<Rightarrow> ('b, 'k) engine \<Rightarrow> nat \<Rightarrow> 'k span list res \<Rightarrow> string list option \<Rightarrow>
     (int, ('b, 'k, 'o, 'q) call) act" where
  "clear_tokens api e n chunks locations =
     (case e_manager e of
        None \<Rightarrow> fail (AssertionError ''storage_manager'')
      | Some m \<Rightarrow>
          if n = 0 then manager_clear api m locations
          else case chunks of
            Inl x \<Rightarrow> fail x
          | Inr cs \<Rightarrow> sum_each (\<lambda>(a, b, k). manager_remove api m k locations) cs 0)"

text \<open>\<open>n\<close> is the number of tokens, 0 also without any.\<close>

definition engine_clear ::
    "('b, 'k, 'o, 'q) api \<Rightarrow> ('b, 'k) engine \<Rightarrow> nat \<Rightarrow> 'k span list res \<Rightarrow> string list option \<Rightarrow>
     (int, ('b, 'k, 'o, 'q) call) act" where
  "engine_clear api e n chunks locations = (if is_passive e then ret 0 else clear_tokens api e n chunks locations)"

definition health :: "('b, 'k, 'o, 'q) api \<Rightarrow> ('b, 'k) engine \<Rightarrow> (int, ('b, 'k, 'o, 'q) call) act" where
  "health api e =
     (case e_manager e of
        None \<Rightarrow> fail (AssertionError ''storage_manager'')
      | Some m \<Rightarrow> then_do (manager_memcheck api m) (\<lambda>ok. ret (if ok then 0 else -1)))"

text \<open>Closing swallows every exception.\<close>

definition quietly :: "('x, 'c) act \<Rightarrow> (unit, 'c) act" where
  "quietly f h = (Inr (), snd (f h))"

definition engine_close ::
    "('b, 'k, 'o, 'q) api \<Rightarrow> ('b, 'k, 'o, 'q) connector \<Rightarrow> ('b, 'k) engine \<Rightarrow> bool \<Rightarrow> bool \<Rightarrow>
     (unit, ('b, 'k, 'o, 'q) call) act" where
  "engine_close api g e loop_running thread_alive =
     then_do (if e_worker e then quietly (call_above (g_close_worker g) Close_worker) else ret ())
       (\<lambda>_. quietly (case e_manager e of None \<Rightarrow> ret () | Some m \<Rightarrow> manager_close api m loop_running thread_alive))"

section \<open>Instances\<close>

text \<open>
  \<^verbatim>\<open>LMCacheEngineBuilder\<close>: the engines with their configurations and metadata, in dictionaries with the
  same keys (the one of the stats loggers is left out).
\<close>

record ('e, 'c, 'm) builder =
  bu_engines :: "(string \<times> 'e) list"
  bu_configs :: "(string \<times> 'c) list"
  bu_metadatas :: "(string \<times> 'm) list"

definition get_or_create ::
    "string \<Rightarrow> 'c \<Rightarrow> 'm \<Rightarrow> 'e \<Rightarrow> ('e, 'c, 'm) builder \<Rightarrow> 'e res \<times> ('e, 'c, 'm) builder" where
  "get_or_create i cfg meta fresh bu =
     (case map_of (bu_engines bu) i of
        None \<Rightarrow> (Inr fresh, bu\<lparr>bu_engines := dict_put i fresh (bu_engines bu),
                              bu_configs := dict_put i cfg (bu_configs bu),
                              bu_metadatas := dict_put i meta (bu_metadatas bu)\<rparr>)
      | Some e \<Rightarrow>
          (case (map_of (bu_configs bu) i, map_of (bu_metadatas bu) i) of
             (Some cfg', Some meta') \<Rightarrow>
               if cfg' \<noteq> cfg \<or> meta' \<noteq> meta
               then (Inl (ValueError ''Instance already exists with a different configuration or metadata.''), bu)
               else (Inr e, bu)
           | _ \<Rightarrow> (Inl (KeyError i), bu)))"

definition builder_get :: "string \<Rightarrow> ('e, 'c, 'm) builder \<Rightarrow> 'e option" where
  "builder_get i bu = map_of (bu_engines bu) i"

text \<open>\<open>close\<close> is the closing of the engine, whose exceptions are swallowed.\<close>

definition destroy ::
    "('e \<Rightarrow> (unit, 'x) act) \<Rightarrow> string \<Rightarrow> ('e, 'c, 'm) builder \<Rightarrow> 'x list \<Rightarrow> ('e, 'c, 'm) builder \<times> 'x list" where
  "destroy close i bu h =
     (case map_of (bu_engines bu) i of
        None \<Rightarrow> (bu, h)
      | Some e \<Rightarrow>
          (bu\<lparr>bu_engines := dict_del i (bu_engines bu), bu_configs := dict_del i (bu_configs bu),
              bu_metadatas := dict_del i (bu_metadatas bu)\<rparr>, snd (quietly (close e) h)))"

end
