(* ===== verification/Engine_Store.thy ===== *)
theory Engine_Store
  imports Cache_Engine Storage_Puts
begin

text \<open>
  What a store of the cache engine guarantees, whatever the connector and the backends answer: every object
  that an allocator handed out is released once, and what a backend is given under a key is the KV data
  of the chunk with that key, filled before it is given away.
\<close>

section \<open>The loop over the chunks\<close>

text \<open>Objects that the connector has filled from the GPU, with the tokens they hold.\<close>

definition filled_by :: "('b, 'k, 'o, 'q) call \<Rightarrow> ('o \<times> int \<times> int) list" where
  "filled_by c = (case c of Above (From_gpu objs starts ends (Inr _)) \<Rightarrow> zip objs (zip starts ends) | _ \<Rightarrow> [])"

definition filled :: "('b, 'k, 'o, 'q) call list \<Rightarrow> ('o \<times> int \<times> int) list" where
  "filled h = concat (map filled_by h)"

lemma filled_simps [simp]:
  "filled [] = []" "filled (c # cs) = filled_by c @ filled cs" "filled (xs @ ys) = filled xs @ filled ys"
  by (simp_all add: filled_def)

lemma filled_by_simps [simp]:
  "filled_by (Allocate b q v w r) = []" "filled_by (Direct_put b ks ds p fs) = []"
  "filled_by (Above (From_gpu objs starts ends (Inr u))) = zip objs (zip starts ends)"
  by (simp_all add: filled_by_def)

definition batch_items :: "('k, 'o) store_batch \<Rightarrow> ('k \<times> 'o \<times> int \<times> int) list" where
  "batch_items sb = zip (sb_keys sb) (zip (sb_objs sb) (zip (sb_starts sb) (sb_ends sb)))"

definition batch_even :: "('k, 'o) store_batch \<Rightarrow> bool" where
  "batch_even sb \<longleftrightarrow> length (sb_keys sb) = length (sb_objs sb) \<and> length (sb_starts sb) = length (sb_objs sb) \<and>
     length (sb_ends sb) = length (sb_objs sb)"

lemma record_event_batch [simp]:
  "sb_objs (record_event g on a c sb) = sb_objs sb" "sb_keys (record_event g on a c sb) = sb_keys sb"
  "sb_starts (record_event g on a c sb) = sb_starts sb" "sb_ends (record_event g on a c sb) = sb_ends sb"
  by (simp_all add: record_event_def split: prod.splits)

lemma record_event_items [simp]:
  "batch_items (record_event g on a c sb) = batch_items sb" "batch_even (record_event g on a c sb) = batch_even sb"
  by (simp_all add: batch_items_def batch_even_def)

lemma add_object_items:
  assumes "batch_even sb"
  shows "batch_even (add_object (a, b, k) x sb)"
    "batch_items (add_object (a, b, k) x sb) = batch_items sb @ [(k, x, a, b)]"
    "sb_objs (add_object (a, b, k) x sb) = sb_objs sb @ [x]"
  using assms by (simp_all add: batch_even_def batch_items_def add_object_def)

lemma batch_item_of_key:
  assumes "batch_even sb" "(k, x) \<in> set (zip (sb_keys sb) (sb_objs sb))"
  shows "\<exists>s t. (k, x, s, t) \<in> set (batch_items sb) \<and> (x, s, t) \<in> set (zip (sb_objs sb) (zip (sb_starts sb) (sb_ends sb)))"
proof -
  obtain i where i: "i < length (sb_objs sb)" "k = sb_keys sb ! i" "x = sb_objs sb ! i"
    using assms by (auto simp: in_set_zip batch_even_def)
  show ?thesis
    using assms(1) i
    by (intro exI [of _ "sb_starts sb ! i"] exI [of _ "sb_ends sb ! i"]) (auto simp: batch_items_def batch_even_def in_set_zip)
qed

text \<open>
  The chunks that go through memory: not sent directly, up to the first for which there is no memory.
  Every such chunk gets an object of its own.
\<close>

lemma manager_allocate_run:
  assumes "manager_allocate api m q ev busy h = (r, h')"
  shows "\<exists>new. h' = h @ new \<and> released new = [] \<and> submitted new = [] \<and> filled new = [] \<and>
    handed_out new = (case r of Inr (Some x) \<Rightarrow> [x] | _ \<Rightarrow> [])"
proof (cases "m_allocator m")
  case None
  then show ?thesis using assms by (auto simp: manager_allocate_def ret_def)
next
  case (Some b)
  then have "h' = h @ [Allocate b q ev busy r]" using assms by (auto simp: manager_allocate_def ask_def)
  then show ?thesis by (auto split: sum.splits option.splits)
qed

lemma store_loop_contract:
  assumes "store_loop api g e m a uneven items sb h = ((err, sb'), h')" "batch_even sb"
  shows "\<exists>new objs. h' = h @ new \<and> released new = [] \<and> submitted new = [] \<and> filled new = [] \<and> handed_out new = objs \<and>
    sb_objs sb' = sb_objs sb @ objs \<and> batch_even sb' \<and>
    (\<exists>more. batch_items sb' = batch_items sb @ more \<and> (\<forall>(k, x, s, t) \<in> set more. ((s, t, k), False) \<in> set items))"
  using assms
proof (induction items arbitrary: sb h)
  case Nil
  then show ?case by auto
next
  case (Cons i items)
  obtain s t k sent where i: "i = ((s, t, k), sent)" by (metis surj_pair)
  show ?case
  proof (cases sent)
    case True
    then have "store_loop api g e m a uneven items (record_event g (e_events_on e) a (s, t, k) sb) h = ((err, sb'), h')"
      using Cons.prems(1) i by simp
    from Cons.IH [OF this] Cons.prems(2) show ?thesis by fastforce
  next
    case False
    obtain r h1 where al: "manager_allocate api m (g_layout g (t - s)) True (e_force_wait e) h = (r, h1)" by force
    obtain n1 where n1: "h1 = h @ n1" "released n1 = []" "submitted n1 = []" "filled n1 = []"
      "handed_out n1 = (case r of Inr (Some x) \<Rightarrow> [x] | _ \<Rightarrow> [])"
      using manager_allocate_run [OF al] by blast
    show ?thesis
    proof (cases "\<exists>x. r = Inr (Some x)")
      case False
      then have "sb' = sb" "h' = h1" "handed_out n1 = []"
        using Cons.prems(1) i \<open>\<not> sent\<close> al n1(5) by (auto split: sum.splits option.splits)
      then show ?thesis using n1 Cons.prems(2) by auto
    next
      case True
      then obtain x where x: "r = Inr (Some x)" by blast
      let ?sb = "record_event g (e_events_on e) a (s, t, k) (add_object (s, t, k) x sb)"
      note ao = add_object_items [OF Cons.prems(2), of s t k x]
      have "store_loop api g e m a uneven items ?sb h1 = ((err, sb'), h')"
        using Cons.prems(1) i \<open>\<not> sent\<close> al x by simp
      moreover have "batch_even ?sb" using ao(1) by simp
      ultimately obtain n2 objs more where n2: "h' = h1 @ n2" "released n2 = []" "submitted n2 = []" "filled n2 = []"
        "handed_out n2 = objs" "sb_objs sb' = sb_objs ?sb @ objs" "batch_even sb'"
        "batch_items sb' = batch_items ?sb @ more" "\<forall>(k, x, s, t) \<in> set more. ((s, t, k), False) \<in> set items"
        using Cons.IH by blast
      have "handed_out (n1 @ n2) = x # objs" using n1(5) n2(5) x by simp
      moreover have "batch_items sb' = batch_items sb @ (k, x, s, t) # more" using n2(8) ao(2) by simp
      moreover have "sb_objs sb' = sb_objs sb @ x # objs" using n2(6) ao(3) by simp
      moreover have "\<forall>(k', x', s', t') \<in> set ((k, x, s, t) # more). ((s', t', k'), False) \<in> set (i # items)"
        using n2(9) i \<open>\<not> sent\<close> by auto
      ultimately show ?thesis
        using n1(1-4) n2(1-4,7) by (intro exI [of _ "n1 @ n2"] exI [of _ "x # objs"]) auto
    qed
  qed
qed

section \<open>The whole store\<close>

lemma no_batch_simps: "batch_even no_batch" "batch_items no_batch = []" "sb_objs no_batch = []"
  by (simp_all add: no_batch_def batch_even_def batch_items_def)

lemma manager_direct_put_run:
  assumes "manager_direct_put api m ks plans loc profile h = (r, h')"
  shows "\<exists>new. h' = h @ new \<and> released new = [] \<and> submitted new = [] \<and> filled new = [] \<and> handed_out new = []"
  using assms by (auto simp: manager_direct_put_def ret_def ask_def split: if_splits option.splits)

lemma store_direct_run:
  assumes "store_direct api g e m a cs h = (r, h')"
  shows "\<exists>new. h' = h @ new \<and> released new = [] \<and> submitted new = [] \<and> filled new = [] \<and> handed_out new = []"
proof (cases "cs \<noteq> [] \<and> manager_supports_direct_io api m (e_store_location e) (Some STORE)")
  case True
  then show ?thesis
    using assms manager_direct_put_run by (auto simp: store_direct_def fail_def split: sum.splits)
next
  case False
  then show ?thesis using assms by (auto simp: store_direct_def ret_def)
qed

lemma store_chunks_run:
  assumes "store_chunks api g e m a cs h = ((Inr (), evs), h')"
  obtains before sb new flags where
    "h' = h @ before @ new" "released before = []" "submitted before = []" "filled before = []"
    "handed_out before = sb_objs sb" "batch_even sb"
    "store_objects api g e m a sb (h @ before) = (Inr (), h')"
    "\<forall>(k, x, s, t) \<in> set (batch_items sb). ((s, t, k), False) \<in> set (zip cs flags)"
    "mset (released new) = mset (sb_objs sb) + mset (handed_out new)"
    "sb_objs sb = [] \<longrightarrow> new = []"
    "sb_objs sb \<noteq> [] \<longrightarrow> (\<exists>puts. new = Above (From_gpu (sb_objs sb) (sb_starts sb) (sb_ends sb) (Inr ())) # puts \<and>
       submissions_ok (sb_keys sb) (sb_objs sb) puts puts)"
proof -
  obtain flags h1 where d: "store_direct api g e m a cs h = (Inr flags, h1)"
    using assms unfolding store_chunks_def by (cases "store_direct api g e m a cs h"; cases "fst (store_direct api g e m a cs h)") simp_all
  obtain n1 where n1: "h1 = h @ n1" "released n1 = []" "submitted n1 = []" "filled n1 = []" "handed_out n1 = []"
    using store_direct_run [OF d] by blast
  obtain sb h2 where l: "store_loop api g e m a (strict_zip_error cs flags) (zip cs flags) no_batch h1 = ((None, sb), h2)"
    and o: "store_objects api g e m a sb h2 = (Inr (), h')"
  proof -
    obtain err sb h2 where l: "store_loop api g e m a (strict_zip_error cs flags) (zip cs flags) no_batch h1 = ((err, sb), h2)"
      by (metis prod.exhaust)
    obtain r h3 where o: "store_objects api g e m a sb h2 = (r, h3)" by force
    have run: "store_chunks api g e m a cs h =
        (case err of Some x \<Rightarrow> ((Inl x, sb_events sb), h2) | None \<Rightarrow> ((r, sb_events sb), h3))"
      unfolding store_chunks_def d l o prod.case sum.case by (cases err) (simp_all add: o)
    have "err = None" "r = Inr ()" "h3 = h'"
      using assms unfolding run by (auto split: option.splits)
    with l o show thesis by (intro that [of sb h2]) simp_all
  qed
  from store_loop_contract [OF l no_batch_simps(1), unfolded no_batch_simps append_Nil]
  obtain n2 objs more where n2: "h2 = h1 @ n2" "released n2 = []" "submitted n2 = []"
    "filled n2 = []" "handed_out n2 = objs" "sb_objs sb = objs" "batch_even sb"
    "batch_items sb = more" "\<forall>(k, x, s, t) \<in> set more. ((s, t, k), False) \<in> set (zip cs flags)"
    by (elim exE conjE) (rule that)
  have given: "\<forall>(k, x, s, t) \<in> set (batch_items sb). ((s, t, k), False) \<in> set (zip cs flags)"
    unfolding n2(8) by (rule n2(9))
  have handed: "handed_out n2 = sb_objs sb" using n2(5,6) by simp
  have whole: "h2 = h @ n1 @ n2" using n1(1) n2(1) by simp
  have before: "released (n1 @ n2) = []" "submitted (n1 @ n2) = []" "filled (n1 @ n2) = []" "handed_out (n1 @ n2) = sb_objs sb"
    using n1 n2(2-4) handed by simp_all
  have o': "store_objects api g e m a sb (h @ n1 @ n2) = (Inr (), h')" using o whole by simp
  show thesis
  proof (cases "sb_objs sb = []")
    case True
    then have "h' = h @ (n1 @ n2) @ []" using o whole by (simp add: store_objects_def ret_def)
    from that [OF this before n2(7) o' given] show thesis using True by simp
  next
    case False
    let ?fill = "Above (From_gpu (sb_objs sb) (sb_starts sb) (sb_ends sb) (Inr ()))"
    have "batched_put api m (sb_keys sb) (sb_objs sb) (s_spec a) (e_store_location e) (Some (s_req a)) (h2 @ [?fill]) = (Inr (), h')"
      using o False by (auto simp: store_objects_def run_iffs)
    from batched_put_run [OF this] obtain puts where puts: "h' = (h2 @ [?fill]) @ puts"
      "submissions_ok (sb_keys sb) (sb_objs sb) puts puts" "mset (released puts) = mset (sb_objs sb) + mset (handed_out puts)"
      by blast
    have "h' = h @ (n1 @ n2) @ (?fill # puts)" using puts(1) whole by simp
    from that [OF this before n2(7) o' given] show thesis using False puts(2,3) by simp
  qed
qed

lemma store_runs_chunks:
  assumes "store api g e a chunks h = ((Inr (), e'), h')"
  shows "h' = h \<or> (\<exists>m cs evs. e_manager e = Some m \<and> chunks = Inr cs \<and> store_chunks api g e m a cs h = ((Inr (), evs), h'))"
  using assms by (auto simp: store_def split: if_splits option.splits sum.splits prod.splits)

text \<open>
  C11: A store never loses a memory object: when it returns, the objects it has released are exactly those
  that the allocators handed out during it, each released once, on every path: direct
  transfers, memory that runs out in the middle, several allocators, keys that are skipped.
\<close>

theorem store_releases_all:
  assumes "store api g e a chunks h = ((Inr (), e'), h')"
  shows "\<exists>new. h' = h @ new \<and> mset (released new) = mset (handed_out new)"
proof (cases "h' = h")
  case False
  then obtain m cs evs where "store_chunks api g e m a cs h = ((Inr (), evs), h')"
    using store_runs_chunks [OF assms] by blast
  then show ?thesis
  proof (rule store_chunks_run)
    fix before new and sb :: "('b, 'c) store_batch"
    assume "h' = h @ before @ new" "released before = []" "handed_out before = sb_objs sb"
      "mset (released new) = mset (sb_objs sb) + mset (handed_out new)"
    then show ?thesis by (intro exI [of _ "before @ new"]) simp
  qed
qed simp

text \<open>
  C5: What a backend is given under a key in a store is the KV data of the chunk with that key: the
  connector has filled an object with the tokens of that chunk before the first backend was given
  anything, and the backend gets that object or a copy of it.
\<close>

theorem store_keeps_chunks:
  assumes "store api g e a (Inr cs) h = ((Inr (), e'), h @ new)"
    and "(b, ks, objs) \<in> set (submitted new)" "(k, x) \<in> set (zip ks objs)"
  shows "\<exists>before after s t src. new = before @ after \<and> submitted before = [] \<and> (s, t, k) \<in> set cs \<and>
    (src, s, t) \<in> set (filled before) \<and> (x = src \<or> Copy x src (Inr ()) \<in> set after)"
proof -
  have "new \<noteq> []" using assms(2) by auto
  then obtain m evs where "store_chunks api g e m a cs h = ((Inr (), evs), h @ new)"
    using store_runs_chunks [OF assms(1)] by auto
  then show ?thesis
  proof (rule store_chunks_run)
    fix start put and sb :: "('b, 'c) store_batch" and flags
    assume *: "h @ new = h @ start @ put" "submitted start = []" "batch_even sb" "sb_objs sb = [] \<longrightarrow> put = []"
      and given: "\<forall>(k, x, s, t) \<in> set (batch_items sb). ((s, t, k), False) \<in> set (zip cs flags)"
      and puts: "sb_objs sb \<noteq> [] \<longrightarrow> (\<exists>puts. put = Above (From_gpu (sb_objs sb) (sb_starts sb) (sb_ends sb) (Inr ())) # puts \<and>
        submissions_ok (sb_keys sb) (sb_objs sb) puts puts)"
    let ?fill = "Above (From_gpu (sb_objs sb) (sb_starts sb) (sb_ends sb) (Inr ()))"
    have new: "new = start @ put" using *(1) by simp
    have ne: "sb_objs sb \<noteq> []" using assms(2) *(2,4) new by auto
    obtain puts where p: "put = ?fill # puts" "submissions_ok (sb_keys sb) (sb_objs sb) puts puts"
      using puts ne by blast
    have "(b, ks, objs) \<in> set (submitted puts)" using assms(2) *(2) new p(1) by simp
    then have "(ks, objs) = (sb_keys sb, sb_objs sb) \<or> copies (zip (sb_keys sb) (sb_objs sb)) puts ks objs"
      using p(2) by (auto simp: submissions_ok_def list_all_iff)
    then obtain src where src: "(k, src) \<in> set (zip (sb_keys sb) (sb_objs sb))" "x = src \<or> Copy x src (Inr ()) \<in> set puts"
      using assms(3) by (auto simp: copies_def)
    obtain s t where st: "(k, src, s, t) \<in> set (batch_items sb)" "(src, s, t) \<in> set (filled_by ?fill)"
      using batch_item_of_key [OF *(3) src(1)] by auto
    have "(s, t, k) \<in> set cs" using given st(1) by (auto dest: set_zip_leftD)
    moreover have "new = (start @ [?fill]) @ puts" using new p(1) by simp
    moreover have "submitted (start @ [?fill]) = []" using *(2) by simp
    moreover have "(src, s, t) \<in> set (filled (start @ [?fill]))" using st(2) by simp
    ultimately show ?thesis using src(2) by blast
  qed
qed

section \<open>An example\<close>

text \<open>
  Two chunks on the backends of the storage manager's example: the first two share the CPU memory, the third
  gets copies.
\<close>

definition demo_connector :: "(nat, nat, nat, unit) connector" where
  "demo_connector =
     \<lparr>g_plans = (\<lambda>d starts ends. Inr (map (\<lambda>s. fallback ''demo'') starts)), g_layout = (\<lambda>n. ()), g_layer_layout = (\<lambda>n. ()),
      g_hash = int, g_tokens = py_slice,
      g_split = (\<lambda>k n. map (\<lambda>i. 10 * k + i) [0..<n]), g_info = (\<lambda>x. ()), g_raw = (\<lambda>x. Some [of_nat x]),
      g_build = (\<lambda>d q. unat (hd d)), g_load_stream = True,
      g_from = (\<lambda>h objs starts ends. Inr ()), g_to = (\<lambda>h objs starts ends. Inr ()), g_unpin = (\<lambda>h x. Inr ()),
      g_status = (\<lambda>h r. if Above (Pop_event r) \<in> set h then Not_found else Finished),
      g_future = (\<lambda>h r. Inr (Inr [[(0, 40)], [(3, 43), (4, 44)]])), g_recode = (\<lambda>h x. Inr (x + 1000)),
      g_send_put = (\<lambda>h b ks objs. Inr ()), g_send = (\<lambda>h. Inr ()), g_recv_count = (\<lambda>h. Inr None),
      g_recv_chunk = (\<lambda>h. Inr None), g_recv_tensor = (\<lambda>h q. Inr [0]), g_close_worker = (\<lambda>h. Inr ())\<rparr>"

definition demo_engine :: "(nat, nat) engine" where
  "demo_engine =
     \<lparr>e_manager = Some demo_manager, e_gpu = True, e_init_failed = False, e_monitor = None, e_only_first = False,
      e_first_rank = True, e_worker = False, e_async = False, e_layerwise = False, e_layers = 2,
      e_remove_after = False, e_store_location = None, e_retrieve_locations = None, e_force_wait = False,
      e_events_on = True, e_events = [], e_lookup_pins = []\<rparr>"

definition demo_store :: "unit store_args" where
  "demo_store = \<lparr>s_tokens = Some [5, 6, 7, 8], s_hashes = None, s_offsets = None, s_masked = False, s_slots = True,
     s_spec = None, s_req = ''r''\<rparr>"

lemma demo_store_run:
  "\<exists>e' new. store demo_api demo_connector demo_engine demo_store (Inr [(0, 2, 0), (2, 4, 7)]) [] = ((Inr (), e'), new) \<and>
     released new = [100, 101, 106, 109] \<and> submitted new = [(0, [0, 7], [100, 101]), (1, [0, 7], [100, 101]), (2, [0, 7], [106, 109])] \<and>
     map ev_parent (e_events e') = [None, Some 0] \<and> map ev_tokens (e_events e') = [[5, 6], [7, 8]]"
  by (simp add: store_def demo_engine_def is_healthy_def is_passive_def store_args_error_def demo_store_def engine_is_frozen_def
      is_frozen_def store_chunks_def store_direct_def manager_supports_direct_io_def strict_zip_error_def numeral_2_eq_2
      manager_allocate_def store_objects_def no_batch_def add_object_def record_event_def event_tokens_def py_slice_def
      demo_connector_def batched_put_def demo_manager_def demo_api_def demo_holds_def objects_for_def submit_to_def
      allocate_and_copy_objects_def then_do_def ask_def ret_def ref_count_down_def dict_put_def dict_objects_def Let_def)

theorem store_releases_all_witness:
  "\<exists>e' new. store demo_api demo_connector demo_engine demo_store (Inr [(0, 2, 0), (2, 4, 7)]) [] = ((Inr (), e'), new) \<and>
     mset (handed_out new) = {#100, 101, 106, 109#}"
proof -
  obtain e' new where r: "store demo_api demo_connector demo_engine demo_store (Inr [(0, 2, 0), (2, 4, 7)]) [] = ((Inr (), e'), new)"
    "released new = [100, 101, 106, 109]" using demo_store_run by auto
  from store_releases_all [OF r(1)] r show ?thesis by auto
qed

theorem store_keeps_chunks_witness:
  "\<exists>e' new. store demo_api demo_connector demo_engine demo_store (Inr [(0, 2, 0), (2, 4, 7)]) [] = ((Inr (), e'), new) \<and>
     (2, [0, 7], [106, 109]) \<in> set (submitted new) \<and>
     (\<exists>s t src. (s, t, 7 :: nat) \<in> {(0, 2, 0), (2, 4, 7)} \<and> (src, s, t) \<in> set (filled new) \<and> (109 = src \<or> Copy 109 src (Inr ()) \<in> set new))"
proof -
  obtain e' new where r: "store demo_api demo_connector demo_engine demo_store (Inr [(0, 2, 0), (2, 4, 7)]) [] = ((Inr (), e'), [] @ new)"
    "(2, [0, 7], [106, 109]) \<in> set (submitted new)" using demo_store_run by auto
  have "(7, 109) \<in> set (zip [0, 7] [106, 109 :: nat])" by simp
  from store_keeps_chunks [OF r(1,2) this] obtain before after s t src where
    "new = before @ after" "(s, t, 7 :: nat) \<in> set [(0, 2, 0), (2, 4, 7)]" "(src, s, t) \<in> set (filled before)"
    "109 = src \<or> Copy 109 src (Inr ()) \<in> set after"
    by (elim exE conjE) (rule that)
  then have chunk: "\<exists>s t src. (s, t, 7 :: nat) \<in> {(0, 2, 0), (2, 4, 7)} \<and> (src, s, t) \<in> set (filled new) \<and>
      (109 = src \<or> Copy 109 src (Inr ()) \<in> set new)"
    by (intro exI [of _ s] exI [of _ t] exI [of _ src] conjI) (simp_all only: list.set filled_simps set_append Un_iff, auto)
  show ?thesis by (intro exI [of _ e'] exI [of _ new] conjI r(2) chunk) (use r(1) in simp)
qed

end
