(* ===== verification/Engine_Retrieve.thy ===== *)
theory Engine_Retrieve
  imports Engine_Store
begin

text \<open>
  What a synchronous retrieval of the cache engine guarantees: which tokens of the returned mask have been
  delivered, and what happens to the memory objects.
\<close>

section \<open>Loads in a trace\<close>

definition somes :: "'a option list \<Rightarrow> 'a list" where
  "somes xs = List.map_filter (\<lambda>x. x) xs"

lemma somes_simps [simp]: "somes [] = []" "somes (None # xs) = somes xs" "somes (Some x # xs) = x # somes xs"
  by (simp_all add: somes_def List.map_filter_simps)

lemma somes_None [simp]: "somes (replicate n None) = []"
  by (induction n) simp_all

text \<open>Objects with their keys, as a backend answers.\<close>

fun keyed :: "'k list \<Rightarrow> 'o option list \<Rightarrow> ('k \<times> 'o) list" where
  "keyed (k # ks) (Some x # xs) = (k, x) # keyed ks xs"
| "keyed (k # ks) (None # xs) = keyed ks xs"
| "keyed ks xs = []"

lemma keyed_Nil [simp]: "keyed ks [] = []"
  by (cases ks) simp_all

lemma keyed_None [simp]: "keyed ks (replicate n None) = []"
  by (induction ks arbitrary: n) (simp, case_tac n, simp_all)

text \<open>The keys a backend was asked for and has not delivered.\<close>

definition absent :: "'k list \<Rightarrow> 'o option list \<Rightarrow> 'k list" where
  "absent ks xs = map fst (filter (\<lambda>(k, x). x = None) (zip ks xs))"

definition missed_by :: "('b, 'k, 'o, 'q) call \<Rightarrow> 'k list" where
  "missed_by c = (case c of Batched_get b ks (Inr objs) \<Rightarrow> if objs = [] then ks else absent ks objs | _ \<Rightarrow> [])"

definition missed :: "('b, 'k, 'o, 'q) call list \<Rightarrow> 'k list" where "missed h = concat (map missed_by h)"

lemma missed_simps [simp]:
  "missed [] = []" "missed (c # cs) = missed_by c @ missed cs" "missed (xs @ ys) = missed xs @ missed ys"
  by (simp_all add: missed_def)

lemma absent_simps [simp]:
  "absent ks [] = []" "absent [] xs = []" "absent (k # ks) (None # xs) = k # absent ks xs"
  "absent (k # ks) (Some x # xs) = absent ks xs"
  by (simp_all add: absent_def)

lemma absent_subset: "set (absent ks xs) \<subseteq> set ks"
  by (auto simp: absent_def dest: set_zip_leftD)

definition obtained_by :: "('b, 'k, 'o, 'q) call \<Rightarrow> 'o list" where
  "obtained_by c = (case c of Batched_get b ks (Inr objs) \<Rightarrow> somes objs | _ \<Rightarrow> [])"

definition fetched_by :: "('b, 'k, 'o, 'q) call \<Rightarrow> ('k \<times> 'o) list" where
  "fetched_by c = (case c of Batched_get b ks (Inr objs) \<Rightarrow> keyed ks objs | _ \<Rightarrow> [])"

definition direct_by :: "('b, 'k, 'o, 'q) call \<Rightarrow> 'k list" where
  "direct_by c = (case c of Direct_get b ks ds p (Inr flags) \<Rightarrow> map fst (filter snd (zip ks flags)) | _ \<Rightarrow> [])"

definition on_gpu_by :: "('b, 'k, 'o, 'q) call \<Rightarrow> ('o \<times> int \<times> int) list" where
  "on_gpu_by c = (case c of Above (To_gpu objs starts ends (Inr _)) \<Rightarrow> zip objs (zip starts ends) | _ \<Rightarrow> [])"

definition obtained :: "('b, 'k, 'o, 'q) call list \<Rightarrow> 'o list" where "obtained h = concat (map obtained_by h)"
definition fetched :: "('b, 'k, 'o, 'q) call list \<Rightarrow> ('k \<times> 'o) list" where "fetched h = concat (map fetched_by h)"
definition sent_direct :: "('b, 'k, 'o, 'q) call list \<Rightarrow> 'k list" where "sent_direct h = concat (map direct_by h)"
definition on_gpu :: "('b, 'k, 'o, 'q) call list \<Rightarrow> ('o \<times> int \<times> int) list" where "on_gpu h = concat (map on_gpu_by h)"

lemmas load_defs = obtained_def fetched_def sent_direct_def on_gpu_def

lemmas load_by_defs = obtained_by_def fetched_by_def direct_by_def on_gpu_by_def

lemma load_appends [simp]:
  "obtained (xs @ ys) = obtained xs @ obtained ys" "fetched (xs @ ys) = fetched xs @ fetched ys"
  "sent_direct (xs @ ys) = sent_direct xs @ sent_direct ys" "on_gpu (xs @ ys) = on_gpu xs @ on_gpu ys"
  by (simp_all add: load_defs)

lemma load_Cons [simp]:
  "obtained (c # cs) = obtained_by c @ obtained cs" "fetched (c # cs) = fetched_by c @ fetched cs"
  "sent_direct (c # cs) = direct_by c @ sent_direct cs" "on_gpu (c # cs) = on_gpu_by c @ on_gpu cs"
  "obtained [] = []" "fetched [] = []" "sent_direct [] = []" "on_gpu [] = []"
  by (simp_all add: load_defs)

lemma load_of_release [simp]:
  "obtained (map Ref_down xs) = []" "fetched (map Ref_down xs) = []" "sent_direct (map Ref_down xs) = []"
  "on_gpu (map Ref_down xs) = []"
  by (simp_all add: load_defs load_by_defs comp_def)

text \<open>A piece of a trace that has nothing to do with objects or the GPU.\<close>

definition silent :: "('b, 'k, 'o, 'q) call list \<Rightarrow> bool" where
  "silent new \<longleftrightarrow> released new = [] \<and> obtained new = [] \<and> fetched new = [] \<and> sent_direct new = [] \<and> on_gpu new = []"

lemma silent_Nil [simp]: "silent []"
  by (simp add: silent_def)

lemma silent_append [simp]: "silent (xs @ ys) \<longleftrightarrow> silent xs \<and> silent ys"
  by (auto simp: silent_def)

lemma silent_calls [simp]:
  "silent [Batched_contains b ks p r1]" "silent [Remove_key b k r2]" "silent [Above (Send_count n r3)]"
  "silent [Above (Send_chunk i j q r4)]" "silent [Above (Send_tensor x r5)]" "silent [Above Wait_stream]"
  "silent [Submit b ks objs s pr r6]"
  by (simp_all add: silent_def load_by_defs)

section \<open>The mask\<close>

lemma length_mark [simp]: "length (mark a b m) = length m"
  by (simp add: mark_def)

lemma nth_mark [simp]: "i < length m \<Longrightarrow> mark a b m ! i \<longleftrightarrow> m ! i \<or> (a \<le> int i \<and> int i < b)"
  by (simp add: mark_def nth_enumerate_eq)

lemma length_clear_from [simp]: "length (clear_from a m) = length m"
  by (simp add: clear_from_def)

lemma nth_clear_from [simp]: "i < length m \<Longrightarrow> clear_from a m ! i \<longleftrightarrow> m ! i \<and> int i < a"
  by (simp add: clear_from_def nth_enumerate_eq)

section \<open>One location\<close>

text \<open>
  What the loop over the locations keeps: every chunk that will be handed over belongs to the request and has an
  object that was fetched under its key, every marked token is in such a chunk or in one that was
  delivered directly, and a failure is the start of a chunk that a backend was asked for and did not deliver
  (or whose location has no backend any more, if \<open>dead\<close>).
\<close>

definition covered :: "'k span list \<Rightarrow> ('b, 'k, 'o, 'q) call list \<Rightarrow> ('k, 'o) loaded list \<Rightarrow> nat \<Rightarrow> bool" where
  "covered cs tr ls i \<longleftrightarrow>
     (\<exists>a b k. (a, b, k) \<in> set cs \<and> a \<le> int i \<and> int i < b \<and> (k \<in> set (sent_direct tr) \<or> (\<exists>x. (Some k, x, a, b) \<in> set ls)))"

definition load_ok :: "bool \<Rightarrow> 'k span list \<Rightarrow> ('b, 'k, 'o, 'q) call list \<Rightarrow> ('k, 'o) load \<Rightarrow> bool" where
  "load_ok dead cs tr s \<longleftrightarrow>
     (\<forall>(ko, x, a, b) \<in> set (ld_chunks s). \<exists>k. ko = Some k \<and> (a, b, k) \<in> set cs \<and> (k, x) \<in> set (fetched tr)) \<and>
     (\<forall>i < length (ld_mask s). ld_mask s ! i \<longrightarrow> covered cs tr (ld_chunks s) i) \<and>
     (\<forall>f. ld_failed s = Some f \<longrightarrow> (\<exists>b k. (f, b, k) \<in> set cs \<and> (dead \<or> k \<in> set (missed tr))))"

lemma gathered_mono:
  "covered cs tr ls i \<Longrightarrow> set (sent_direct tr) \<subseteq> set (sent_direct tr') \<Longrightarrow> set ls \<subseteq> set ls' \<Longrightarrow> covered cs tr' ls' i"
  unfolding covered_def by blast

lemma load_ok_mono:
  assumes "load_ok dead cs tr s" "set (fetched tr) \<subseteq> set (fetched tr')" "set (sent_direct tr) \<subseteq> set (sent_direct tr')"
    and "set (missed tr) \<subseteq> set (missed tr')"
  shows "load_ok dead cs tr' s"
  unfolding load_ok_def
proof (intro conjI)
  show "\<forall>(ko, x, a, b) \<in> set (ld_chunks s). \<exists>k. ko = Some k \<and> (a, b, k) \<in> set cs \<and> (k, x) \<in> set (fetched tr')"
    using assms(1,2) unfolding load_ok_def by fastforce
  show "\<forall>i < length (ld_mask s). ld_mask s ! i \<longrightarrow> covered cs tr' (ld_chunks s) i"
    using assms(1,3) gathered_mono unfolding load_ok_def by blast
  show "\<forall>f. ld_failed s = Some f \<longrightarrow> (\<exists>b k. (f, b, k) \<in> set cs \<and> (dead \<or> k \<in> set (missed tr')))"
    using assms(1,4) unfolding load_ok_def by blast
qed

lemma load_ok_direct:
  assumes "load_ok dead cs tr s" "(a, b, k) \<in> set cs" "k \<in> set (sent_direct tr)"
  shows "load_ok dead cs tr (s\<lparr>ld_mask := mark a b (ld_mask s)\<rparr>)"
  using assms unfolding load_ok_def covered_def by auto

lemma load_ok_deliver:
  assumes "load_ok dead cs tr s" "(a, b, k) \<in> set cs" "(k, x) \<in> set (fetched tr)"
  shows "load_ok dead cs tr (deliver k x a b s)"
  using assms unfolding load_ok_def covered_def deliver_def by simp blast

lemma load_ok_fail:
  assumes "load_ok dead cs tr s" "(a, b, k) \<in> set cs" "dead \<or> k \<in> set (missed tr)"
  shows "load_ok dead cs tr (fail_at a s)"
  using assms unfolding load_ok_def fail_at_def by (auto split: option.splits)

lemma take_blocks_contract:
  assumes "take_blocks items objs s = Inr (s', left)" "load_ok dead cs tr s"
    and "\<And>k a b sent. ((k, a, b), sent) \<in> set items \<Longrightarrow> (a, b, k) \<in> set cs \<and> (sent \<longrightarrow> k \<in> set (sent_direct tr))"
    and "set (keyed (map (fst \<circ> fst) (filter (\<lambda>(c, sent). \<not> sent) items)) objs) \<subseteq> set (fetched tr)"
    and "dead \<or> set (absent (map (fst \<circ> fst) (filter (\<lambda>(c, sent). \<not> sent) items)) objs) \<subseteq> set (missed tr)"
  shows "load_ok dead cs tr s' \<and> length (ld_mask s') = length (ld_mask s) \<and>
    mset (somes objs) + mset (map (fst \<circ> snd) (ld_chunks s)) = mset (somes left) + mset (map (fst \<circ> snd) (ld_chunks s'))"
  using assms
proof (induction items arbitrary: objs s)
  case Nil
  then show ?case by simp
next
  case (Cons i items)
  obtain k a b sent where i: "i = ((k, a, b), sent)" by (metis surj_pair)
  have chunk: "(a, b, k) \<in> set cs" "sent \<Longrightarrow> k \<in> set (sent_direct tr)" using Cons.prems(3) i by auto
  have more: "\<And>k a b sent. ((k, a, b), sent) \<in> set items \<Longrightarrow> (a, b, k) \<in> set cs \<and> (sent \<longrightarrow> k \<in> set (sent_direct tr))"
    by (rule Cons.prems(3)) simp
  show ?case
  proof (cases sent)
    case True
    have "take_blocks items objs (s\<lparr>ld_mask := mark a b (ld_mask s)\<rparr>) = Inr (s', left)"
      using Cons.prems(1) i True by simp
    from Cons.IH [OF this load_ok_direct [OF Cons.prems(2) chunk] more] True Cons.prems(4,5) i show ?thesis by simp
  next
    case False
    have "objs \<noteq> []" using Cons.prems(1) i False by auto
    then obtain r objs1 where objs: "objs = r # objs1" by (cases objs) simp_all
    show ?thesis
    proof (cases r)
      case None
      then have "s' = fail_at a s" "left = objs1" using Cons.prems(1) i False objs by auto
      moreover have "dead \<or> k \<in> set (missed tr)" using Cons.prems(5) i False objs None by auto
      ultimately show ?thesis
        using load_ok_fail [OF Cons.prems(2) chunk(1)] objs None by (simp add: fail_at_def)
    next
      case (Some x)
      have run: "take_blocks items objs1 (deliver k x a b s) = Inr (s', left)"
        using Cons.prems(1) i False objs Some by simp
      have "(k, x) \<in> set (fetched tr)"
        "set (keyed (map (fst \<circ> fst) (filter (\<lambda>(c, sent). \<not> sent) items)) objs1) \<subseteq> set (fetched tr)"
        "dead \<or> set (absent (map (fst \<circ> fst) (filter (\<lambda>(c, sent). \<not> sent) items)) objs1) \<subseteq> set (missed tr)"
        using Cons.prems(4,5) i False objs Some by (simp_all add: comp_def)
      from Cons.IH [OF run load_ok_deliver [OF Cons.prems(2) chunk(1) this(1)] more this(2,3)]
      show ?thesis using objs Some by (simp add: deliver_def)
    qed
  qed
qed

lemma batched_get_loop_run:
  assumes "batched_get_loop api m ks bs h = (Inr objs, h')"
  shows "\<exists>new. h' = h @ new \<and> obtained new = somes objs \<and> fetched new = keyed ks objs \<and> released new = [] \<and>
    sent_direct new = [] \<and> on_gpu new = [] \<and> (bs \<noteq> [] \<longrightarrow> set (absent ks objs) \<subseteq> set (missed new))"
  using assms
proof (induction bs arbitrary: h)
  case Nil
  then show ?case by (auto simp: ret_def)
next
  case (Cons nb bs)
  obtain n b where nb: "nb = (n, b)" by force
  obtain got where got: "re_batched_get api h b ks = Inr got"
    using Cons.prems nb by (cases "re_batched_get api h b ks") (auto simp: then_do_def ask_def)
  let ?c = "Batched_get b ks (Inr got)"
  show ?case
  proof (cases "got = []")
    case True
    then have "batched_get_loop api m ks bs (h @ [?c]) = (Inr objs, h')"
      using Cons.prems nb got by (simp add: then_do_def ask_def)
    from Cons.IH [OF this] obtain new where "h' = (h @ [?c]) @ new" "obtained new = somes objs"
      "fetched new = keyed ks objs" "released new = []" "sent_direct new = []" "on_gpu new = []" by blast
    moreover have "set (absent ks objs) \<subseteq> set ks" by (rule absent_subset)
    ultimately show ?thesis using True by (intro exI [of _ "?c # new"]) (auto simp: load_by_defs missed_by_def)
  next
    case False
    then have "objs = got \<and> (h' = h @ [?c] \<or> (\<exists>cpu r. h' = h @ [?c, Submit cpu ks (map the got) None None r]))"
      using Cons.prems nb got
      by (cases "local_cpu api m") (auto simp: then_do_def ask_def ret_def fail_def split: if_splits sum.splits)
    then show ?thesis using False by (auto simp: load_by_defs missed_by_def)
  qed
qed

lemma manager_direct_get_run:
  assumes "manager_direct_get api m ks plans loc profile h = (Inr flags, h')"
  shows "\<exists>new. h' = h @ new \<and> released new = [] \<and> obtained new = [] \<and> fetched new = [] \<and> on_gpu new = [] \<and>
    (\<forall>k. (k, True) \<in> set (zip ks flags) \<longrightarrow> k \<in> set (sent_direct new))"
proof -
  have "(h' = h \<and> flags = replicate (length ks) False) \<or> (\<exists>b ds p. h' = h @ [Direct_get b ks ds p (Inr flags)])"
    using assms by (auto simp: manager_direct_get_def ret_def ask_def split: if_splits option.splits)
  then show ?thesis
  proof
    assume "h' = h \<and> flags = replicate (length ks) False"
    then show ?thesis by (intro exI [of _ "[]"]) (auto dest: set_zip_rightD)
  next
    assume "\<exists>b ds p. h' = h @ [Direct_get b ks ds p (Inr flags)]"
    then show ?thesis by (auto simp: load_by_defs image_iff intro: bexI)
  qed
qed

lemma load_direct_run:
  assumes "load_direct api g m req loc blocks h = (Inr flags, h')"
  shows "\<exists>new. h' = h @ new \<and> released new = [] \<and> obtained new = [] \<and> fetched new = [] \<and> on_gpu new = [] \<and>
    (\<forall>k. (k, True) \<in> set (zip (map fst blocks) flags) \<longrightarrow> k \<in> set (sent_direct new))"
proof (cases "manager_supports_direct_io api m (Some loc) (Some RETRIEVE)")
  case True
  then show ?thesis using assms manager_direct_get_run by (auto simp: load_direct_def fail_def split: sum.splits)
next
  case False
  then show ?thesis using assms by (auto simp: load_direct_def ret_def dest: set_zip_rightD)
qed

definition load_objs :: "('k, 'o) load \<Rightarrow> 'o list" where
  "load_objs s = map (fst \<circ> snd) (ld_chunks s)"

lemma load_location_contract:
  assumes "load_location api g m req (loc, blocks) s h = (Inr s', h')" "load_ok dead cs pre s"
    and "\<And>k a b. (k, a, b) \<in> set blocks \<Longrightarrow> (a, b, k) \<in> set cs"
    and "dead \<or> get_active_storage_backends m (Some loc) None \<noteq> []"
  shows "\<exists>new. h' = h @ new \<and> load_ok dead cs (pre @ new) s' \<and> length (ld_mask s') = length (ld_mask s) \<and> on_gpu new = [] \<and>
    mset (obtained new) + mset (load_objs s) = mset (released new) + mset (load_objs s')"
proof -
  obtain flags h1 where d: "load_direct api g m req loc blocks h = (Inr flags, h1)"
    and len: "length flags = length blocks"
    and run1: "(let rest = map fst (filter (\<lambda>(c, sent). \<not> sent) (zip blocks flags)) in
       then_do (if rest = [] then ret [] else manager_batched_get api m (map fst rest) (Some loc))
         (\<lambda>objs. case take_blocks (zip blocks flags) objs s of
            Inl x \<Rightarrow> fail x
          | Inr (s', left) \<Rightarrow>
              then_do (do_each ref_count_down (List.map_filter (\<lambda>x. x) left)) (\<lambda>_. ret s'))) h1 = (Inr s', h')"
    using assms(1) unfolding load_location_def by (auto simp: then_do_Inr_iff fail_Inr_iff split: if_splits)
  define rest where "rest = map fst (filter (\<lambda>(c, sent). \<not> sent) (zip blocks flags))"
  obtain objs h2 where o: "(if rest = [] then ret [] else manager_batched_get api m (map fst rest) (Some loc)) h1 = (Inr objs, h2)"
    and run2: "(case take_blocks (zip blocks flags) objs s of
            Inl x \<Rightarrow> fail x
          | Inr (s', left) \<Rightarrow>
              then_do (do_each ref_count_down (List.map_filter (\<lambda>x. x) left)) (\<lambda>_. ret s')) h2 = (Inr s', h')"
    using run1 unfolding Let_def rest_def [symmetric] then_do_Inr_iff by blast
  obtain left where t: "take_blocks (zip blocks flags) objs s = Inr (s', left)" and h': "h' = h2 @ map Ref_down (somes left)"
    using run2 by (cases "take_blocks (zip blocks flags) objs s") (auto simp: run_iffs release_loop somes_def)
  obtain n1 where n1: "h1 = h @ n1" "released n1 = []" "obtained n1 = []" "fetched n1 = []" "on_gpu n1 = []"
    "\<forall>k. (k, True) \<in> set (zip (map fst blocks) flags) \<longrightarrow> k \<in> set (sent_direct n1)"
    using load_direct_run [OF d] by blast
  have "\<exists>n2. h2 = h1 @ n2 \<and> obtained n2 = somes objs \<and> fetched n2 = keyed (map fst rest) objs \<and> released n2 = [] \<and>
      sent_direct n2 = [] \<and> on_gpu n2 = [] \<and> (dead \<or> set (absent (map fst rest) objs) \<subseteq> set (missed n2))"
  proof (cases "rest = []")
    case True
    then show ?thesis using o by (simp add: ret_def)
  next
    case False
    then have "batched_get_loop api m (map fst rest) (get_active_storage_backends m (Some loc) None) h1 = (Inr objs, h2)"
      using o by (simp add: manager_batched_get_def)
    from batched_get_loop_run [OF this] assms(4) show ?thesis by blast
  qed
  then obtain n2 where n2: "h2 = h1 @ n2" "obtained n2 = somes objs" "fetched n2 = keyed (map fst rest) objs" "released n2 = []"
    "sent_direct n2 = []" "on_gpu n2 = []" "dead \<or> set (absent (map fst rest) objs) \<subseteq> set (missed n2)" by blast
  let ?tr = "pre @ n1 @ n2 @ map Ref_down (somes left)"
  have ok: "load_ok dead cs ?tr s" by (rule load_ok_mono [OF assms(2)]) auto
  have items: "(a, b, k) \<in> set cs \<and> (sent \<longrightarrow> k \<in> set (sent_direct ?tr))"
    if "((k, a, b), sent) \<in> set (zip blocks flags)" for k a b sent
  proof -
    have "(k, a, b) \<in> set blocks" using that by (rule set_zip_leftD)
    moreover have "(k, sent) \<in> set (zip (map fst blocks) flags)" using that by (force simp: zip_map1)
    ultimately show ?thesis using assms(3) n1(6) by auto
  qed
  have keys: "set (keyed (map (fst \<circ> fst) (filter (\<lambda>(c, sent). \<not> sent) (zip blocks flags))) objs) \<subseteq> set (fetched ?tr)"
    using n2(3) by (auto simp: rest_def comp_def)
  have absent: "dead \<or> set (absent (map (fst \<circ> fst) (filter (\<lambda>(c, sent). \<not> sent) (zip blocks flags))) objs) \<subseteq> set (missed ?tr)"
    using n2(7) by (auto simp: rest_def comp_def)
  note taken = take_blocks_contract [OF t ok items keys absent]
  show ?thesis
    using taken n1 n2 h'
    by (intro exI [of _ "n1 @ n2 @ map Ref_down (somes left)"]) (simp add: load_objs_def comp_def add.commute)
qed

text \<open>Without a backend at the location no object arrives.\<close>

lemma take_blocks_nothing:
  assumes "take_blocks items objs s = Inr (s', left)" "set objs \<subseteq> {None}"
  shows "ld_chunks s' = ld_chunks s"
  using assms
proof (induction items arbitrary: objs s)
  case (Cons i items)
  obtain k a b sent where i: "i = ((k, a, b), sent)" by (metis surj_pair)
  show ?case
  proof (cases sent)
    case True
    then show ?thesis using Cons.IH [of objs "s\<lparr>ld_mask := mark a b (ld_mask s)\<rparr>"] Cons.prems i by simp
  next
    case False
    then show ?thesis using Cons.prems i by (cases objs) (auto simp: fail_at_def)
  qed
qed simp

lemma load_location_nothing:
  assumes "load_location api g m req (loc, blocks) s h = (Inr s', h')" "get_active_storage_backends m (Some loc) None = []"
  shows "ld_chunks s' = ld_chunks s"
proof -
  obtain objs left flags where "take_blocks (zip blocks flags) objs s = Inr (s', left)" "set objs \<subseteq> {None}"
    using assms unfolding load_location_def Let_def
    by (auto simp: run_iffs manager_batched_get_def split: if_splits sum.splits prod.splits)
  then show ?thesis by (rule take_blocks_nothing)
qed

section \<open>The whole load\<close>

lemma load_locations_contract:
  assumes "load_locations api g m req mapping s h = (Inr s', h')" "load_ok dead cs pre s"
    and "\<forall>(loc, blocks) \<in> set mapping. \<forall>(k, a, b) \<in> set blocks. (a, b, k) \<in> set cs"
    and "\<forall>(loc, blocks) \<in> set mapping. dead \<or> get_active_storage_backends m (Some loc) None \<noteq> []"
  shows "\<exists>new. h' = h @ new \<and> load_ok dead cs (pre @ new) s' \<and> length (ld_mask s') = length (ld_mask s) \<and> on_gpu new = [] \<and>
    mset (obtained new) + mset (load_objs s) = mset (released new) + mset (load_objs s')"
  using assms
proof (induction mapping arbitrary: s h pre)
  case Nil
  then show ?case by (simp add: ret_def)
next
  case (Cons lb mapping)
  obtain loc blocks where lb: "lb = (loc, blocks)" by force
  obtain s1 h1 where one: "load_location api g m req (loc, blocks) s h = (Inr s1, h1)"
    and rest: "load_locations api g m req mapping s1 h1 = (Inr s', h')"
    using Cons.prems(1) lb by (auto simp: then_do_Inr_iff)
  have "\<And>k a b. (k, a, b) \<in> set blocks \<Longrightarrow> (a, b, k) \<in> set cs"
    "dead \<or> get_active_storage_backends m (Some loc) None \<noteq> []" using Cons.prems(3,4) lb by auto
  from load_location_contract [OF one Cons.prems(2) this] obtain n1 where n1: "h1 = h @ n1" "load_ok dead cs (pre @ n1) s1"
    "length (ld_mask s1) = length (ld_mask s)" "on_gpu n1 = []"
    "mset (obtained n1) + mset (load_objs s) = mset (released n1) + mset (load_objs s1)" by blast
  have "\<forall>(loc, blocks) \<in> set mapping. \<forall>(k, a, b) \<in> set blocks. (a, b, k) \<in> set cs"
    "\<forall>(loc, blocks) \<in> set mapping. dead \<or> get_active_storage_backends m (Some loc) None \<noteq> []"
    using Cons.prems(3,4) by simp_all
  from Cons.IH [OF rest n1(2) this] obtain n2 where n2: "h' = h1 @ n2" "load_ok dead cs ((pre @ n1) @ n2) s'"
    "length (ld_mask s') = length (ld_mask s1)" "on_gpu n2 = []"
    "mset (obtained n2) + mset (load_objs s1) = mset (released n2) + mset (load_objs s')" by blast
  have "mset (obtained (n1 @ n2)) + mset (load_objs s) = mset (released (n1 @ n2)) + mset (load_objs s')"
    using balance_chain [OF n1(5) n2(5)] by simp
  then show ?case using n1 n2 by (intro exI [of _ "n1 @ n2"]) simp
qed

lemma dict_put_items: "(k', v') \<in> set (dict_put k v d) \<Longrightarrow> (k', v') = (k, v) \<or> (k', v') \<in> set d"
  by (auto simp: dict_put_def split: if_splits)

lemma block_loop_blocks:
  assumes "block_loop api infos bs ks hits mapping h = (Inr mapping', h')"
    and "\<forall>(loc, blocks) \<in> set mapping. set blocks \<subseteq> set infos"
  shows "(\<forall>(loc, blocks) \<in> set mapping'. set blocks \<subseteq> set infos) \<and> (\<exists>new. h' = h @ new \<and> silent new)"
  using assms
proof (induction bs arbitrary: ks hits mapping h)
  case Nil
  then show ?case by (auto simp: ret_def)
next
  case (Cons nb bs)
  obtain n b where nb: "nb = (n, b)" by force
  obtain found where f: "re_batched_contains api h b ks False = Inr found"
    using Cons.prems(1) nb by (cases "re_batched_contains api h b ks False") (auto simp: then_do_def ask_def)
  let ?c = "Batched_contains b ks False (Inr found)"
  let ?m = "dict_put n (take found (drop hits infos)) mapping"
  have silent: "silent [?c]" by simp
  have piece: "set (take found (drop hits infos)) \<subseteq> set infos"
    by (meson set_drop_subset set_take_subset order_trans)
  have pieces: "\<forall>(loc, blocks) \<in> set ?m. set blocks \<subseteq> set infos"
    using Cons.prems(2) piece dict_put_items by fast
  have grow: "\<exists>new. h2 = h @ new \<and> silent new" if "\<exists>new. h2 = (h @ [?c]) @ new \<and> silent new" for h2
    using that silent by (metis append_assoc silent_append)
  show ?case
  proof (cases "found = 0")
    case True
    then have "block_loop api infos bs ks hits mapping (h @ [?c]) = (Inr mapping', h')"
      using Cons.prems(1) nb f by (simp add: then_do_def ask_def)
    from Cons.IH [OF this Cons.prems(2)] grow show ?thesis by blast
  next
    case False
    show ?thesis
    proof (cases "hits + found = length infos")
      case True
      then have "mapping' = ?m" "h' = h @ [?c]"
        using Cons.prems(1) nb f False by (auto simp: then_do_def ask_def Let_def ret_def)
      then show ?thesis using pieces silent by blast
    next
      case more: False
      then have "block_loop api infos bs (drop found ks) (hits + found) ?m (h @ [?c]) = (Inr mapping', h')"
        using Cons.prems(1) nb f False by (simp add: then_do_def ask_def Let_def)
      from Cons.IH [OF this pieces] grow show ?thesis by blast
    qed
  qed
qed

lemma block_loop_names:
  assumes "block_loop api infos bs ks hits mapping h = (Inr mapping', h')"
  shows "fst ` set mapping' \<subseteq> fst ` set mapping \<union> fst ` set bs"
  using assms
proof (induction bs arbitrary: ks hits mapping h)
  case (Cons nb bs)
  obtain n b where nb: "nb = (n, b)" by force
  obtain found where f: "re_batched_contains api h b ks False = Inr found"
    using Cons.prems nb by (cases "re_batched_contains api h b ks False") (auto simp: then_do_def ask_def)
  let ?m = "dict_put n (take found (drop hits infos)) mapping"
  have names: "fst ` set ?m \<subseteq> insert n (fst ` set mapping)" using dict_put_items by fastforce
  have "block_loop api infos bs ks hits mapping (h @ [Batched_contains b ks False (Inr found)]) = (Inr mapping', h') \<or>
      mapping' = ?m \<or> block_loop api infos bs (drop found ks) (hits + found) ?m (h @ [Batched_contains b ks False (Inr found)]) = (Inr mapping', h')"
    using Cons.prems nb f by (auto simp: then_do_def ask_def Let_def ret_def split: if_splits)
  then consider "fst ` set mapping' \<subseteq> fst ` set mapping \<union> fst ` set bs" | "mapping' = ?m"
    | "fst ` set mapping' \<subseteq> fst ` set ?m \<union> fst ` set bs"
    using Cons.IH by meson
  then show ?case by cases (use names nb in auto)
qed (simp add: ret_def)

lemma active_at_location:
  assumes "n \<in> fst ` set (get_active_storage_backends m None None)"
  shows "get_active_storage_backends m (Some n) None \<noteq> []"
  using assms by (force simp: get_active_storage_backends_def active_backend_def filter_empty_conv)

text \<open>Either every location of the mapping has an active backend, or there is only the one of the pins.\<close>

lemma block_mapping_for_blocks:
  assumes "block_mapping_for api e m req infos h = (Inr mapping, h')"
  shows "(\<forall>(loc, blocks) \<in> set mapping. set blocks \<subseteq> set infos) \<and> (\<exists>new. h' = h @ new \<and> silent new) \<and>
    ((\<forall>(loc, blocks) \<in> set mapping. get_active_storage_backends m (Some loc) None \<noteq> []) \<or> (\<exists>loc blocks. mapping = [(loc, blocks)]))"
proof (cases "\<exists>loc ks. Option.bind req (map_of (e_lookup_pins e)) = Some [(loc, ks)]")
  case True
  then show ?thesis using assms by (auto simp: block_mapping_for_def ret_def)
next
  case False
  then have "get_block_mapping api m infos h = (Inr mapping, h')"
    using assms by (auto simp: block_mapping_for_def split: option.splits list.splits)
  note loop = this [unfolded get_block_mapping_def]
  have "\<forall>(loc, blocks) \<in> set mapping. get_active_storage_backends m (Some loc) None \<noteq> []"
  proof (clarify, rule notE [OF active_at_location])
    fix loc blocks
    assume "(loc, blocks) \<in> set mapping"
    then have "loc \<in> fst ` set mapping" by force
    then show "loc \<in> fst ` set (get_active_storage_backends m None None)" using block_loop_names [OF loop] by auto
  qed
  moreover have "(\<forall>(loc, blocks) \<in> set mapping. set blocks \<subseteq> set infos) \<and> (\<exists>new. h' = h @ new \<and> silent new)"
    by (rule block_loop_blocks [OF loop]) simp
  ultimately show ?thesis by blast
qed

lemma process_tokens_run:
  assumes "process_tokens api g e req (Inr cs) (replicate n False) h = (Inr (ls, msk), h')"
  obtains new s dead where "h' = h @ new" "load_ok dead cs new s" "dead \<Longrightarrow> ld_chunks s = []" "finish_load s = (ls, msk)" "length (ld_mask s) = n"
    "on_gpu new = []" "mset (obtained new) = mset (released new) + mset (load_objs s)"
proof -
  let ?infos = "map (\<lambda>(a, b, k). (k, a, b)) cs"
  let ?s = "\<lparr>ld_chunks = [], ld_mask = replicate n False, ld_failed = None\<rparr>"
  obtain m mapping h1 s where b: "block_mapping_for api e m req ?infos h = (Inr mapping, h1)"
    and l: "load_locations api g m req mapping ?s h1 = (Inr s, h')" and f: "finish_load s = (ls, msk)"
    using assms by (auto simp: process_tokens_def run_iffs split: option.splits)
  from block_mapping_for_blocks [OF b] obtain n1 where n1: "h1 = h @ n1" "silent n1"
    and sub: "\<forall>(loc, blocks) \<in> set mapping. set blocks \<subseteq> set ?infos"
    and alive: "(\<forall>(loc, blocks) \<in> set mapping. get_active_storage_backends m (Some loc) None \<noteq> []) \<or>
      (\<exists>loc blocks. mapping = [(loc, blocks)])" by blast
  define dead where "dead \<longleftrightarrow> \<not> (\<forall>(loc, blocks) \<in> set mapping. get_active_storage_backends m (Some loc) None \<noteq> [])"
  have unloaded: "ld_chunks s = []" if d: dead
  proof -
    obtain loc blocks where "mapping = [(loc, blocks)]" "get_active_storage_backends m (Some loc) None = []"
      using d alive unfolding dead_def by auto
    then have "load_location api g m req (loc, blocks) ?s h1 = (Inr s, h')" using l by (auto simp: run_iffs)
    from load_location_nothing [OF this] show ?thesis using \<open>get_active_storage_backends m (Some loc) None = []\<close> by simp
  qed
  have active: "\<forall>(loc, blocks) \<in> set mapping. dead \<or> get_active_storage_backends m (Some loc) None \<noteq> []"
    unfolding dead_def by blast
  have blocks: "\<forall>(loc, blocks) \<in> set mapping. \<forall>(k, a, b) \<in> set blocks. (a, b, k) \<in> set cs"
    using sub by fastforce
  have "load_ok dead cs n1 ?s" by (simp add: load_ok_def)
  from load_locations_contract [OF l this blocks active] obtain n2 where n2: "h' = h1 @ n2" "load_ok dead cs (n1 @ n2) s"
    "length (ld_mask s) = n" "on_gpu n2 = []" "mset (obtained n2) = mset (released n2) + mset (load_objs s)"
    by (auto simp: load_objs_def)
  have silent: "on_gpu n1 = []" "obtained n1 = []" "released n1 = []" using n1(2) by (simp_all add: silent_def)
  have "h' = h @ n1 @ n2" "on_gpu (n1 @ n2) = []" "mset (obtained (n1 @ n2)) = mset (released (n1 @ n2)) + mset (load_objs s)"
    using n1(1) n2 silent by simp_all
  from that [OF this(1) n2(2) unloaded f n2(3) this(2,3)] show thesis .
qed

section \<open>The retrieval\<close>

text \<open>A computation that only makes silent calls.\<close>

definition mute :: "('x, ('b, 'k, 'o, 'q) call) act \<Rightarrow> bool" where
  "mute f \<longleftrightarrow> (\<forall>h. \<exists>new. snd (f h) = h @ new \<and> silent new)"

named_theorems mute_intros \<open>computations without objects\<close>

lemma muteE:
  assumes "mute f" "f h = (r, h')"
  obtains new where "h' = h @ new" "silent new"
  using assms unfolding mute_def by (metis snd_conv)

lemma mute_ret [mute_intros]: "mute (ret x)"
  by (simp add: mute_def ret_def)

lemma mute_fail [mute_intros]: "mute (fail x)"
  by (simp add: mute_def fail_def)

lemma mute_ask [mute_intros]: "(\<And>r. silent [entry r]) \<Longrightarrow> mute (ask reply entry)"
  by (simp add: mute_def ask_def)

lemma mute_then_do [mute_intros]:
  assumes "mute f" "\<And>x. mute (g x)"
  shows "mute (then_do f g)"
  unfolding mute_def
proof
  fix h
  obtain r h1 where f: "f h = (r, h1)" by (cases "f h")
  obtain n1 where n1: "h1 = h @ n1" "silent n1" by (rule muteE [OF assms(1) f])
  show "\<exists>new. snd (then_do f g h) = h @ new \<and> silent new"
  proof (cases r)
    case (Inl e)
    then show ?thesis using f n1 by (simp add: then_do_def)
  next
    case (Inr x)
    obtain r2 h2 where g: "g x h1 = (r2, h2)" by (cases "g x h1")
    obtain n2 where "h2 = h1 @ n2" "silent n2" by (rule muteE [OF assms(2) g])
    then show ?thesis using f g n1 Inr by (intro exI [of _ "n1 @ n2"]) (simp add: then_do_def)
  qed
qed

lemma mute_do_each [mute_intros]: "(\<And>x. mute (f x)) \<Longrightarrow> mute (do_each f xs)"
  by (induction xs) (auto intro: mute_intros)

lemma mute_sum_each [mute_intros]: "(\<And>x. mute (f x)) \<Longrightarrow> mute (sum_each f xs acc)"
  by (induction xs arbitrary: acc) (auto intro: mute_intros)

lemma mute_manager_remove: "mute (manager_remove api m k locations)"
  unfolding manager_remove_def by (intro mute_intros silent_calls)

lemma finish_chunk_run:
  assumes "finish_chunk api e (ko, x, a, b) h = (Inr (), h')" "\<not> e_async e"
  shows "\<exists>new. h' = h @ new @ [Ref_down x] \<and> silent new"
proof -
  let ?remove = "if e_remove_after e \<and> \<not> is_passive e then
             (case (e_manager e, ko) of
                (Some m, Some key) \<Rightarrow> then_do (manager_remove api m key (e_retrieve_locations e)) (\<lambda>_. ret ())
              | _ \<Rightarrow> fail (AssertionError ''storage_manager''))
           else ret ()"
  have mute: "mute ?remove"
    by (cases "e_manager e"; cases ko) (simp_all add: mute_intros mute_manager_remove)
  obtain h1 where one: "?remove h = (Inr (), h1)" and h': "h' = h1 @ [Ref_down x]"
    using assms unfolding finish_chunk_def prod.case then_do_Inr_iff by (auto simp: ref_count_down_def ask_Inr_iff)
  obtain new where "h1 = h @ new" "silent new" by (rule muteE [OF mute one])
  then show ?thesis using h' by simp
qed

lemma finish_chunks_run:
  assumes "do_each (finish_chunk api e) ls h = (Inr u, h')" "\<not> e_async e"
  shows "\<exists>new. h' = h @ new \<and> released new = map (fst \<circ> snd) ls \<and> obtained new = [] \<and> fetched new = [] \<and>
    sent_direct new = [] \<and> on_gpu new = []"
  using assms
proof (induction ls arbitrary: h)
  case Nil
  then show ?case by (simp add: ret_def)
next
  case (Cons l ls)
  obtain k x a b where l: "l = (k, x, a, b)" by (metis surj_pair)
  obtain h1 where one: "finish_chunk api e (k, x, a, b) h = (Inr (), h1)"
    and rest: "do_each (finish_chunk api e) ls h1 = (Inr u, h')"
    using Cons.prems(1) l by (auto simp: then_do_Inr_iff)
  obtain n1 where n1: "h1 = h @ n1 @ [Ref_down x]" "silent n1"
    using finish_chunk_run [OF one Cons.prems(2)] by blast
  from Cons.IH [OF rest Cons.prems(2)] obtain n2 where n2: "h' = h1 @ n2" "released n2 = map (fst \<circ> snd) ls"
    "obtained n2 = []" "fetched n2 = []" "sent_direct n2 = []" "on_gpu n2 = []" by blast
  show ?case
    using n1 n2 l by (intro exI [of _ "(n1 @ [Ref_down x]) @ n2"]) (simp add: silent_def load_by_defs)
qed

definition handed_range :: "('k, 'o) loaded \<Rightarrow> 'o \<times> int \<times> int" where
  "handed_range l = snd l"

lemma zip_ranges:
  "zip (map (fst \<circ> snd) ls) (zip (map (fst \<circ> snd \<circ> snd) ls) (map (snd \<circ> snd \<circ> snd) ls)) = map handed_range ls"
  by (induction ls) (auto simp: handed_range_def)

lemma hand_over_run:
  assumes "hand_over api g e ls h = (Inr u, h')" "\<not> e_async e"
  shows "\<exists>new. h' = h @ new \<and> released new = map (fst \<circ> snd) ls \<and> obtained new = [] \<and> fetched new = [] \<and>
    sent_direct new = [] \<and> on_gpu new = map handed_range ls"
proof (cases "ls = []")
  case True
  then show ?thesis using assms(1) by (simp add: hand_over_def then_do_def ret_def)
next
  case False
  let ?objs = "map (fst \<circ> snd) ls" and ?starts = "map (fst \<circ> snd \<circ> snd) ls" and ?ends = "map (snd \<circ> snd \<circ> snd) ls"
  let ?c = "Above (To_gpu ?objs ?starts ?ends (Inr ()))"
  have "do_each (finish_chunk api e) ls (h @ [?c]) = (Inr u, h')"
    using assms(1) False by (auto simp: hand_over_def call_above_def run_iffs Let_def)
  from finish_chunks_run [OF this assms(2)] obtain new where new: "h' = (h @ [?c]) @ new" "released new = ?objs"
    "obtained new = []" "fetched new = []" "sent_direct new = []" "on_gpu new = []" by blast
  have "on_gpu_by ?c = map handed_range ls" "obtained_by ?c = []" "fetched_by ?c = []" "direct_by ?c = []"
    unfolding load_by_defs call.case upper_call.case sum.case by (rule zip_ranges) (rule refl)+
  then show ?thesis using new by (intro exI [of _ "?c # new"]) simp
qed

lemma mute_send: "mute (broadcast_or_receive g True got)"
  unfolding broadcast_or_receive_def call_above_def if_True
  by (intro mute_intros silent_calls) (auto simp: send_chunk_def call_above_def split: prod.splits option.splits intro!: mute_intros silent_calls)

lemma send_keeps: "broadcast_or_receive g True got h = (Inr got', h') \<Longrightarrow> got' = got"
  unfolding broadcast_or_receive_def by (auto simp: run_iffs)

lemma load_chunks_run:
  assumes "load_chunks api g e req chunks msk h = (Inr got, h')" "\<not> is_passive e" "\<not> e_async e"
  obtains h1 new where "process_tokens api g e req chunks msk h = (Inr got, h1)" "h' = h1 @ new" "silent new"
proof (cases "e_only_first e")
  case True
  then have first: "e_first_rank e" using assms(2) by (simp add: is_passive_def)
  obtain got1 h1 h2 where p: "process_tokens api g e req chunks msk h = (Inr got1, h1)"
    and b: "broadcast_or_receive g True got1 h1 = (Inr got, h2)"
    and w: "(if g_load_stream g then ret () else call_above (\<lambda>_. Inr ()) (\<lambda>_. Wait_stream)) h2 = (Inr (), h')"
    using assms True first unfolding load_chunks_def by (auto simp: then_do_Inr_iff ret_Inr_iff split: if_splits)
  obtain n1 where n1: "h2 = h1 @ n1" "silent n1" by (rule muteE [OF mute_send b])
  have "h' = h2 \<or> h' = h2 @ [Above Wait_stream]"
    using w by (auto simp: ret_def call_above_def ask_def split: if_splits)
  then show thesis
  proof
    assume "h' = h2"
    then show thesis using that [OF _ _ n1(2)] p n1(1) send_keeps [OF b] by simp
  next
    assume "h' = h2 @ [Above Wait_stream]"
    then show thesis using that [of h1 "n1 @ [Above Wait_stream]"] p n1 send_keeps [OF b] by simp
  qed
next
  case False
  then show thesis
    using assms that [of h' "[]"] unfolding load_chunks_def by (auto simp: then_do_Inr_iff ret_Inr_iff)
qed

lemma retrieve_run:
  assumes "retrieve api g e n req (Inr cs) h = (Inr msk, h')" "\<not> is_passive e" "\<not> e_async e" "is_healthy e"
  obtains new s ls dead where "h' = h @ new" "load_ok dead cs new s" "dead \<Longrightarrow> ld_chunks s = []" "finish_load s = (ls, msk)" "length (ld_mask s) = n"
    "on_gpu new = map handed_range ls"
    "mset (obtained new) + mset (map (fst \<circ> snd) ls) = mset (released new) + mset (load_objs s)"
proof -
  obtain ls h1 where l: "load_chunks api g e req (Inr cs) (replicate n False) h = (Inr (ls, msk), h1)"
    and o: "hand_over api g e ls h1 = (Inr (), h')"
    using assms(1,4) unfolding retrieve_def by (auto simp: then_do_Inr_iff ret_Inr_iff fail_Inr_iff split: if_splits)
  obtain h2 n2 where p: "process_tokens api g e req (Inr cs) (replicate n False) h = (Inr (ls, msk), h2)"
    and n2: "h1 = h2 @ n2" "silent n2"
    by (rule load_chunks_run [OF l assms(2,3)])
  obtain n1 s dead where n1: "h2 = h @ n1" "load_ok dead cs n1 s" "finish_load s = (ls, msk)" "length (ld_mask s) = n"
    "on_gpu n1 = []" "mset (obtained n1) = mset (released n1) + mset (load_objs s)" and dead: "dead \<Longrightarrow> ld_chunks s = []"
    by (rule process_tokens_run [OF p]) blast
  obtain n3 where n3: "h' = h1 @ n3" "released n3 = map (fst \<circ> snd) ls" "obtained n3 = []" "fetched n3 = []"
    "sent_direct n3 = []" "on_gpu n3 = map handed_range ls"
    using hand_over_run [OF o assms(3)] by blast
  have "load_ok dead cs (n1 @ n2 @ n3) s" by (rule load_ok_mono [OF n1(2)]) auto
  then show thesis
    using that [of "n1 @ n2 @ n3" dead s ls] dead n1 n2 n3 by (simp add: silent_def add_ac)
qed

section \<open>What the mask means\<close>

text \<open>The token database: chunks are not empty, start at a token and do not overlap.\<close>

definition chunks_ordered :: "'k span list \<Rightarrow> bool" where
  "chunks_ordered cs \<longleftrightarrow>
     sorted_wrt (\<lambda>(a, b, k) (a', b', k'). b \<le> a') cs \<and> list_all (\<lambda>(a, b, k). 0 \<le> a \<and> a < b) cs"

lemma chunks_ordered_before:
  assumes "chunks_ordered cs" "(a, b, k) \<in> set cs" "(a', b', k') \<in> set cs" "a < a'"
  shows "b \<le> a'"
proof -
  have sizes: "a < b" "a' < b'" using assms(1-3) by (auto simp: chunks_ordered_def list_all_iff)
  obtain i j where ij: "i < length cs" "cs ! i = (a, b, k)" "j < length cs" "cs ! j = (a', b', k')"
    using assms(2,3) by (metis in_set_conv_nth)
  have sorted: "sorted_wrt (\<lambda>(a, b, k) (a', b', k'). b \<le> a') cs" using assms(1) by (simp add: chunks_ordered_def)
  show ?thesis
  proof (cases i j rule: linorder_cases)
    case less
    then show ?thesis using sorted_wrt_nth_less [OF sorted less ij(3)] ij by simp
  next
    case equal
    then show ?thesis using ij assms(4) by simp
  next
    case greater
    then have "b' \<le> a" using sorted_wrt_nth_less [OF sorted greater ij(1)] ij by simp
    then show ?thesis using sizes assms(4) by simp
  qed
qed

lemma finish_load_None: "ld_failed s = None \<Longrightarrow> finish_load s = (ls, msk) \<longleftrightarrow> ls = ld_chunks s \<and> msk = ld_mask s"
  by (auto simp: finish_load_def)

lemma finish_load_Some:
  "ld_failed s = Some f \<Longrightarrow> finish_load s = (ls, msk) \<longleftrightarrow>
     ls = filter (\<lambda>(k, x, a, b). b < f) (ld_chunks s) \<and> msk = clear_from f (ld_mask s)"
  by (auto simp: finish_load_def)

text \<open>
  C4: Every token that a retrieval reports as retrieved has been delivered: it belongs to a chunk of the
  request that a backend has transferred directly, or whose object, fetched under the chunk's key, was
  handed to the connector for exactly the tokens of the chunk. The one exception needs a failure: the
  chunk that ends where a chunk begins that a backend was asked for and did not deliver, and from
  which on nothing is reported, is itself reported although it is dropped, since the
  filter compares its end with \<^verbatim>\<open><\<close>.
\<close>

theorem retrieved_tokens_delivered:
  assumes "retrieve api g e n req (Inr cs) h = (Inr msk, h @ new)" "\<not> is_passive e" "\<not> e_async e"
    and "chunks_ordered cs" "i < n" "msk ! i"
  shows "\<exists>a b k. (a, b, k) \<in> set cs \<and> a \<le> int i \<and> int i < b \<and>
    (k \<in> set (sent_direct new) \<or>
     (\<exists>x. (k, x) \<in> set (fetched new) \<and> (x, a, b) \<in> set (on_gpu new)) \<or>
     ((\<exists>b' k'. (b, b', k') \<in> set cs \<and> k' \<in> set (missed new)) \<and> (\<forall>j < n. b \<le> int j \<longrightarrow> \<not> msk ! j)))"
proof -
  have healthy: "is_healthy e"
  proof (rule ccontr)
    assume "\<not> is_healthy e"
    then have "msk = replicate n False" using assms(1) by (simp add: retrieve_def ret_def)
    then show False using assms(5,6) by simp
  qed
  obtain new' s ls dead where r: "h @ new = h @ new'" "load_ok dead cs new' s" "dead \<Longrightarrow> ld_chunks s = []"
    "finish_load s = (ls, msk)" "length (ld_mask s) = n" "on_gpu new' = map handed_range ls"
    by (rule retrieve_run [OF assms(1-3) healthy]) blast
  have ok: "load_ok dead cs new s" and gpu: "on_gpu new = map handed_range ls" using r(1,2,6) by simp_all
  have handed: "\<exists>x. (k, x) \<in> set (fetched new) \<and> (x, a, b) \<in> set (on_gpu new)"
    if "(Some k, x, a, b) \<in> set ls" "set ls \<subseteq> set (ld_chunks s)" for k x a b
  proof -
    have "(k, x) \<in> set (fetched new)" using ok that unfolding load_ok_def by fastforce
    moreover have "(x, a, b) \<in> set (on_gpu new)" using that(1) gpu by (force simp: handed_range_def)
    ultimately show ?thesis by blast
  qed
  show ?thesis
  proof (cases "ld_failed s")
    case None
    then have "ls = ld_chunks s" "msk = ld_mask s" using r(4) finish_load_None by blast+
    moreover have "covered cs new (ld_chunks s) i" using ok assms(5,6) r(5) calculation(2) unfolding load_ok_def by blast
    ultimately show ?thesis using handed unfolding covered_def by blast
  next
    case (Some f)
    then have fl: "ls = filter (\<lambda>(k, x, a, b). b < f) (ld_chunks s)" "msk = clear_from f (ld_mask s)"
      using r(4) finish_load_Some by blast+
    have i: "ld_mask s ! i" "int i < f" using assms(5,6) r(5) fl(2) by simp_all
    obtain b' k' where f: "(f, b', k') \<in> set cs" "dead \<or> k' \<in> set (missed new)" using ok Some unfolding load_ok_def by blast
    have "covered cs new (ld_chunks s) i" using ok i(1) assms(5) r(5) unfolding load_ok_def by blast
    then obtain a b k where c: "(a, b, k) \<in> set cs" "a \<le> int i" "int i < b"
      "k \<in> set (sent_direct new) \<or> (\<exists>x. (Some k, x, a, b) \<in> set (ld_chunks s))"
      unfolding covered_def by blast
    have "b \<le> f" by (rule chunks_ordered_before [OF assms(4) c(1) f(1)]) (use c(2) i(2) in simp)
    then consider "k \<in> set (sent_direct new)" | x where "(Some k, x, a, b) \<in> set ls" | "b = f" "ld_chunks s \<noteq> []"
      using c(4) fl(1) by fastforce
    then show ?thesis
    proof cases
      case 2
      moreover have "set ls \<subseteq> set (ld_chunks s)" using fl(1) by simp
      ultimately show ?thesis using handed c(1-3) by blast
    next
      case 3
      have "\<forall>j < n. f \<le> int j \<longrightarrow> \<not> msk ! j" using fl(2) r(5) by simp
      moreover have "k' \<in> set (missed new)" using f(2) r(3) 3(2) by blast
      ultimately show ?thesis using c(1-3) f(1) 3(1) by blast
    qed (use c in blast)
  qed
qed

text \<open>
  C20: A retrieval never releases an object twice, and if every backend delivers what it was asked for, however
  short the prefix that was found, it releases every object it has fetched; after a failed
  delivery some are kept, those of chunks it has dropped.
\<close>

theorem retrieved_objects_released:
  assumes "retrieve api g e n req (Inr cs) h = (Inr msk, h @ new)" "\<not> is_passive e" "\<not> e_async e"
  shows "mset (released new) \<subseteq># mset (obtained new) \<and>
    (missed new = [] \<longrightarrow> mset (released new) = mset (obtained new))"
proof (cases "is_healthy e")
  case False
  then have "new = []" using assms(1) by (simp add: retrieve_def ret_def)
  then show ?thesis by simp
next
  case True
  obtain new' s ls dead where r: "h @ new = h @ new'" "load_ok dead cs new' s" "dead \<Longrightarrow> ld_chunks s = []"
    "finish_load s = (ls, msk)"
    "mset (obtained new') + mset (map (fst \<circ> snd) ls) = mset (released new') + mset (load_objs s)"
    by (rule retrieve_run [OF assms(1-3) True]) blast
  have bal: "mset (obtained new) + mset (map (fst \<circ> snd) ls) = mset (released new) + mset (load_objs s)"
    using r(1,5) by simp
  show ?thesis
  proof (cases "ld_failed s")
    case None
    then have "ls = ld_chunks s" using r(4) finish_load_None by blast
    then show ?thesis using bal by (simp add: load_objs_def)
  next
    case (Some f)
    then have fl: "ls = filter (\<lambda>(k, x, a, b). b < f) (ld_chunks s)" using r(4) finish_load_Some by blast
    have "mset ls \<subseteq># mset (ld_chunks s)" unfolding fl by simp
    then have "mset (map (fst \<circ> snd) ls) \<subseteq># mset (load_objs s)" unfolding load_objs_def mset_map by (rule image_mset_subseteq_mono)
    then have "mset (released new) \<subseteq># mset (obtained new)"
      using bal by (metis add_le_cancel_right mset_subset_eq_mono_add subset_mset.dual_order.refl subset_mset.add_le_cancel_right)
    moreover have "mset (released new) = mset (obtained new)" if "missed new = []"
    proof -
      have dead using r(1,2) Some that unfolding load_ok_def by auto
      then have "ld_chunks s = []" "ls = []" using r(3) fl by simp_all
      then show ?thesis using bal by (simp add: load_objs_def)
    qed
    ultimately show ?thesis by blast
  qed
qed

section \<open>Examples\<close>

text \<open>
  Four chunks of two tokens, two of them in the CPU cache and two in the XDS backend; \<open>bad\<close> are the keys
  that a backend announces but does not deliver.
\<close>

definition partial_api :: "nat set \<Rightarrow> (nat, nat, nat, unit) api" where
  "partial_api bad =
     demo_api\<lparr>re_batched_get := (\<lambda>h b ks. Inr (map (\<lambda>k. if demo_holds b k \<and> k \<notin> bad then Some k else None) ks))\<rparr>"

definition demo_spans :: "nat span list" where
  "demo_spans = [(0, 2, 0), (2, 4, 1), (4, 6, 3), (6, 8, 4)]"

lemmas demo_retrieve_defs =
  retrieve_def load_chunks_def process_tokens_def block_mapping_for_def get_block_mapping_def get_active_storage_backends_def
  active_backend_def load_location_def load_direct_def manager_supports_direct_io_def manager_direct_get_def
  manager_batched_get_def wants_write_back_def local_cpu_def finish_load_def fail_at_def deliver_def hand_over_def finish_chunk_def
  call_above_def is_healthy_def is_passive_def mark_def clear_from_def ref_count_down_def dict_put_def
  demo_engine_def demo_manager_def demo_connector_def partial_api_def demo_api_def demo_holds_def demo_spans_def
  then_do_def ask_def ret_def fail_def load_by_defs fallback_def List.map_filter_simps

lemma demo_retrieve:
  "\<exists>new. retrieve (partial_api {}) demo_connector demo_engine 8 None (Inr demo_spans) [] = (Inr (replicate 8 True), new) \<and>
     on_gpu new = [(0, 0, 2), (1, 2, 4), (3, 4, 6), (4, 6, 8)] \<and> released new = [0, 1, 3, 4]"
  by (simp add: demo_retrieve_defs eval_nat_numeral Let_def)

theorem retrieved_tokens_delivered_witness:
  "\<exists>new. retrieve (partial_api {}) demo_connector demo_engine 8 None (Inr demo_spans) [] = (Inr (replicate 8 True), [] @ new) \<and>
     (\<exists>a b k. (a, b, k) \<in> set demo_spans \<and> a \<le> 5 \<and> 5 < b \<and>
       (k \<in> set (sent_direct new) \<or> (\<exists>x. (k, x) \<in> set (fetched new) \<and> (x, a, b) \<in> set (on_gpu new)) \<or>
        ((\<exists>b' k'. (b, b', k') \<in> set demo_spans \<and> k' \<in> set (missed new)) \<and> (\<forall>j < 8. b \<le> int j \<longrightarrow> \<not> replicate 8 True ! j))))"
proof -
  obtain new where r: "retrieve (partial_api {}) demo_connector demo_engine 8 None (Inr demo_spans) [] = (Inr (replicate 8 True), [] @ new)"
    using demo_retrieve by auto
  have e: "\<not> is_passive demo_engine" "\<not> e_async demo_engine" by (simp_all add: is_passive_def demo_engine_def)
  have "chunks_ordered demo_spans" by (simp add: chunks_ordered_def demo_spans_def)
  from retrieved_tokens_delivered [OF r e this, of 5] r show ?thesis by auto
qed

lemma demo_partial_hit:
  "\<exists>new. retrieve (partial_api {}) demo_connector demo_engine 6 None (Inr [(0, 2, 0), (2, 4, 1), (4, 6, 9)]) [] =
       (Inr [True, True, True, True, False, False], new) \<and> released new = [0, 1] \<and> missed new = []"
  by (simp add: demo_retrieve_defs missed_by_def absent_def eval_nat_numeral Let_def)

theorem retrieved_objects_released_witness:
  "\<exists>new. retrieve (partial_api {}) demo_connector demo_engine 6 None (Inr [(0, 2, 0), (2, 4, 1), (4, 6, 9)]) [] =
       (Inr [True, True, True, True, False, False], [] @ new) \<and> mset (obtained new) = {#0, 1#}"
proof -
  obtain new where r: "retrieve (partial_api {}) demo_connector demo_engine 6 None (Inr [(0, 2, 0), (2, 4, 1), (4, 6, 9)]) [] =
       (Inr [True, True, True, True, False, False], [] @ new)"
    and rel: "released new = [0, 1]" "missed new = []" using demo_partial_hit by auto
  have e: "\<not> is_passive demo_engine" "\<not> e_async demo_engine" by (simp_all add: is_passive_def demo_engine_def)
  from retrieved_objects_released [OF r e] rel r show ?thesis by auto
qed

text \<open>
  When two locations fail, the returned mask is not a prefix: the cut is made at the largest start of a failed
  chunk. Here the second and the fourth chunk cannot be loaded, yet the mask reports the first and the
  third, and the third, which ends at the cut, was neither delivered nor is its object released.
\<close>

theorem failed_locations_leave_hole:
  "\<exists>new. retrieve (partial_api {1, 4}) demo_connector demo_engine 8 None (Inr demo_spans) [] =
       (Inr [True, True, False, False, True, True, False, False], new) \<and>
     on_gpu new = [(0, 0, 2)] \<and> sent_direct new = [] \<and> obtained new = [0, 3] \<and> released new = [0]"
  by (simp add: demo_retrieve_defs eval_nat_numeral Let_def)

end
