(* ===== verification/Engine_Lookup.thy ===== *)
theory Engine_Lookup
  imports Engine_Retrieve
begin

text \<open>
  Look-ups of the cache engine and what they pin: the number that is returned, the pins that are recorded
  and given back, and the objects of an asynchronous load.
\<close>

section \<open>Look-ups\<close>

lemma hit_end_eq: "hit_end n cs r = (if n = 0 \<or> cs = [] then r else fst (snd (cs ! (min n (length cs) - 1))))"
proof (induction n cs r rule: hit_end.induct)
  case (3 n c cs r)
  then show ?case by (cases n; cases cs) (auto simp: nth_Cons' min_def)
qed simp_all

lemma in_concat_pieces: "concat (map snd d) = xs \<Longrightarrow> x \<in> set xs \<Longrightarrow> \<exists>n piece. (n, piece) \<in> set d \<and> x \<in> set piece"
  by fastforce

lemma touch_run:
  assumes "touch_caches api m h = (Inr u, h')"
  shows "\<exists>bs. h' = h @ map (\<lambda>b. Touch b (Inr ())) bs"
proof -
  let ?bs = "located m (Some [LocalCPU, ''LocalDiskBackend'', ''XdsBackend''])"
  have "h' = h @ concat (map (\<lambda>b. [Touch b (Inr ())]) ?bs)"
    by (rule do_each_pieces [OF assms [unfolded touch_caches_def]]) (simp add: ask_def)
  then have "h' = h @ map (\<lambda>b. Touch b (Inr ())) ?bs" by (simp add: concat_map_singleton)
  then show ?thesis by blast
qed

text \<open>A plain look-up that returns: what it has found, what it has recorded, and its trace.\<close>

lemma lookup_run:
  assumes "lookup api g e given (cs, None) search_range r pin h = ((Inr res, e'), h')"
    and "is_healthy e" "\<not> e_layerwise e" "e_manager e = Some m"
  obtains n mapping h1 bs where
    "manager_batched_contains api m (map (snd \<circ> snd) cs)
       (case search_range of None \<Rightarrow> e_retrieve_locations e | Some s \<Rightarrow> Some s) pin h = (Inr (n, mapping), h1)"
    "h' = h1 @ map (\<lambda>b. Touch b (Inr ())) bs" "res = hit_end n cs 0"
    "pin \<and> mapping \<noteq> [] \<Longrightarrow> \<exists>lid. r = Some lid \<and> e' = e\<lparr>e_lookup_pins := dict_put lid mapping (e_lookup_pins e)\<rparr>"
    "\<not> (pin \<and> mapping \<noteq> []) \<Longrightarrow> e' = e"
proof -
  let ?sr = "case search_range of None \<Rightarrow> e_retrieve_locations e | Some s \<Rightarrow> Some s"
  obtain res1 pins h1 where c: "lookup_chunks api m ?sr r pin cs (e_lookup_pins e) h = ((res1, pins), h1)"
    by (metis prod.exhaust)
  have t: "(if pin then
       (case touch_caches api m h1 of
          (Inl x, h2) \<Rightarrow> ((Inl x, e\<lparr>e_lookup_pins := pins\<rparr>), h2)
        | (Inr _, h2) \<Rightarrow> ((res1, e\<lparr>e_lookup_pins := pins\<rparr>), h2))
     else ((res1, e\<lparr>e_lookup_pins := pins\<rparr>), h1)) = ((Inr res, e'), h')"
    using assms c by (simp add: lookup_def Let_def split: if_splits)
  then have res1: "res1 = Inr res" and e': "e' = e\<lparr>e_lookup_pins := pins\<rparr>"
    and "\<exists>bs. h' = h1 @ map (\<lambda>b. Touch b (Inr ())) bs"
    using touch_run by (auto split: if_splits prod.splits sum.splits)
  then obtain bs where bs: "h' = h1 @ map (\<lambda>b. Touch b (Inr ())) bs" by blast
  obtain n mapping where b: "manager_batched_contains api m (map (snd \<circ> snd) cs) ?sr pin h = (Inr (n, mapping), h1)"
    and rec: "(if pin \<and> mapping \<noteq> [] then
            (case r of
               None \<Rightarrow> ((Inl (AssertionError ''lookup_id is required when pin is True''), e_lookup_pins e), h1)
             | Some lid \<Rightarrow> ((Inr (hit_end n cs 0), dict_put lid mapping (e_lookup_pins e)), h1))
          else ((Inr (hit_end n cs 0), e_lookup_pins e), h1)) = ((Inr res, pins), h1)"
    using c res1 unfolding lookup_chunks_def
    by (cases "manager_batched_contains api m (map (snd \<circ> snd) cs) ?sr pin h";
        cases "fst (manager_batched_contains api m (map (snd \<circ> snd) cs) ?sr pin h)")
      (auto split: if_splits option.splits)
  show thesis
  proof (rule that [OF b bs])
    show "res = hit_end n cs 0" using rec by (auto split: if_splits option.splits)
    show "\<exists>lid. r = Some lid \<and> e' = e\<lparr>e_lookup_pins := dict_put lid mapping (e_lookup_pins e)\<rparr>" if "pin \<and> mapping \<noteq> []"
      using rec e' that by (auto split: option.splits)
    show "e' = e" if "\<not> (pin \<and> mapping \<noteq> [])" using rec e' that by auto
  qed
qed

text \<open>
  C14: A look-up that is not layer-wise and returns yields the end of a prefix of the chunks that are all held by active
  backends in its range; if it pins any, the entry of its id is then exactly the keys of that prefix, whatever was
  recorded before, for the release at the end of the request.
\<close>

theorem lookup_finds_prefix:
  assumes "\<And>h b xs p c. re_batched_contains api h b xs p = Inr c \<Longrightarrow> c \<le> length xs \<and> list_all (holds b) (take c xs)"
    and "is_healthy e" "\<not> e_layerwise e" "e_manager e = Some m" "distinct (map fst (m_backends m))"
    and "lookup api g e given (cs, None) search_range r pin h = ((Inr res, e'), h')"
  shows "\<exists>n \<le> length cs. res = (if n = 0 then 0 else fst (snd (cs ! (n - 1)))) \<and>
    (\<forall>i < n. \<exists>name b. active_backend m None (case search_range of None \<Rightarrow> e_retrieve_locations e | Some s \<Rightarrow> Some s) name \<and>
       map_of (m_backends m) name = Some b \<and> holds b (snd (snd (cs ! i)))) \<and>
    (pin \<and> 0 < n \<longrightarrow> (\<exists>lid d. r = Some lid \<and> map_of (e_lookup_pins e') lid = Some d \<and>
       concat (map snd d) = take n (map (snd \<circ> snd) cs)))"
proof -
  let ?sr = "case search_range of None \<Rightarrow> e_retrieve_locations e | Some s \<Rightarrow> Some s"
  let ?ks = "map (snd \<circ> snd) cs"
  obtain n mapping h1 bs where b: "manager_batched_contains api m ?ks ?sr pin h = (Inr (n, mapping), h1)"
    and res: "res = hit_end n cs 0"
    and rec: "pin \<and> mapping \<noteq> [] \<Longrightarrow> \<exists>lid. r = Some lid \<and> e' = e\<lparr>e_lookup_pins := dict_put lid mapping (e_lookup_pins e)\<rparr>"
    by (rule lookup_run [OF assms(6,2-4)]) blast
  have mp: "mapped_prefix holds (get_active_storage_backends m None ?sr) ?ks n mapping"
    by (rule batched_contains_mapped [OF _ assms(5) b]) (rule assms(1))
  then have n: "n \<le> length cs" and cat: "concat (map snd mapping) = take n ?ks" by (simp_all add: mapped_prefix_def)
  have held: "\<exists>name b. active_backend m None ?sr name \<and> map_of (m_backends m) name = Some b \<and> holds b (snd (snd (cs ! i)))"
    if "i < n" for i
  proof -
    have "?ks ! i \<in> set (take n ?ks)" using that n by (metis in_set_conv_nth length_map length_take min.absorb2 nth_take)
    then obtain name piece where p: "(name, piece) \<in> set mapping" "?ks ! i \<in> set piece" using cat by (metis in_concat_pieces)
    then obtain b where "(name, b) \<in> set (get_active_storage_backends m None ?sr)" "list_all (holds b) piece"
      using mp unfolding mapped_prefix_def by blast
    then have "active_backend m None ?sr name \<and> map_of (m_backends m) name = Some b" "holds b (snd (snd (cs ! i)))"
      using active_backends_named [OF assms(5)] p(2) that n by (auto simp: list_all_iff)
    then show ?thesis by blast
  qed
  have "\<exists>lid d. r = Some lid \<and> map_of (e_lookup_pins e') lid = Some d \<and> concat (map snd d) = take n ?ks" if pn: "pin \<and> 0 < n"
  proof -
    have "mapping \<noteq> []" using cat pn n by (cases cs) auto
    then obtain lid where "r = Some lid" "e' = e\<lparr>e_lookup_pins := dict_put lid mapping (e_lookup_pins e)\<rparr>"
      using rec pn by blast
    then show ?thesis using cat by (simp add: dict_simps)
  qed
  moreover have "res = (if n = 0 then 0 else fst (snd (cs ! (n - 1))))"
    using res n by (auto simp: hit_end_eq min_def)
  ultimately show ?thesis using n held by blast
qed

section \<open>Pins\<close>

definition pinned_by :: "('b, 'k, 'o, 'q) call \<Rightarrow> ('b \<times> 'k) list" where
  "pinned_by c =
     (case c of
        Batched_contains b ks True (Inr n) \<Rightarrow> map (Pair b) (take n ks)
      | Contains b k True (Inr True) \<Rightarrow> [(b, k)]
      | _ \<Rightarrow> [])"

definition unpinned_by :: "('b, 'k, 'o, 'q) call \<Rightarrow> ('b \<times> 'k) list" where
  "unpinned_by c = (case c of Unpin_key b k (Inr _) \<Rightarrow> [(b, k)] | _ \<Rightarrow> [])"

definition pinned :: "('b, 'k, 'o, 'q) call list \<Rightarrow> ('b \<times> 'k) list" where "pinned h = concat (map pinned_by h)"
definition unpinned :: "('b, 'k, 'o, 'q) call list \<Rightarrow> ('b \<times> 'k) list" where "unpinned h = concat (map unpinned_by h)"

lemmas pin_defs = pinned_by_def unpinned_by_def

lemma pin_simps [simp]:
  "pinned (xs @ ys) = pinned xs @ pinned ys" "unpinned (xs @ ys) = unpinned xs @ unpinned ys"
  "pinned (c # cs) = pinned_by c @ pinned cs" "unpinned (c # cs) = unpinned_by c @ unpinned cs"
  "pinned [] = []" "unpinned [] = []"
  by (simp_all add: pinned_def unpinned_def)

lemma pin_touch [simp]: "pinned (map (\<lambda>b. Touch b (Inr ())) bs) = []"
  by (simp add: pinned_def pin_defs comp_def)

text \<open>The keys of a mapping at their backends.\<close>

definition at_backends :: "(string \<times> 'b) list \<Rightarrow> (string \<times> 'k list) list \<Rightarrow> ('b \<times> 'k) list" where
  "at_backends table d = concat (map (\<lambda>(n, ks). map (Pair (the (map_of table n))) ks) d)"

lemma at_backends_simps [simp]:
  "at_backends table [] = []" "at_backends table (d1 @ d2) = at_backends table d1 @ at_backends table d2"
  "at_backends table ((n, ks) # d) = map (Pair (the (map_of table n))) ks @ at_backends table d"
  by (simp_all add: at_backends_def)

lemma prefix_loop_pins:
  assumes "prefix_loop api True wanted bs ks hits mapping h = (Inr (n, mapping'), h')"
    and "PD \<notin> fst ` set bs" "distinct (map fst bs)" "fst ` set bs \<inter> fst ` set mapping = {}"
    and "\<forall>(name, b) \<in> set bs. map_of table name = Some b"
  shows "\<exists>new more. h' = h @ new \<and> mapping' = mapping @ more \<and> pinned new = at_backends table more \<and>
    fst ` set more \<subseteq> fst ` set bs"
  using assms
proof (induction bs arbitrary: ks hits mapping h)
  case Nil
  then show ?case by (auto simp: ret_def)
next
  case (Cons nb bs)
  obtain m b where nb: "nb = (m, b)" by force
  have names: "m \<noteq> PD" "PD \<notin> fst ` set bs" "distinct (map fst bs)" "m \<notin> fst ` set bs"
    using Cons.prems(2,3) nb by auto
  have b: "map_of table m = Some b" and table: "\<forall>(name, b) \<in> set bs. map_of table name = Some b"
    using Cons.prems(5) nb by auto
  obtain found where f: "re_batched_contains api h b ks True = Inr found"
    using Cons.prems(1) names(1) unfolding nb prefix_loop_Cons by (auto split: sum.splits)
  let ?c = "Batched_contains b ks True (Inr found)"
  have c: "pinned_by ?c = map (Pair b) (take found ks)" by (simp add: pin_defs)
  have rest: "prefix_round api True wanted m bs ks hits mapping found (h @ [?c]) = (Inr (n, mapping'), h')"
    using Cons.prems(1) f names(1) unfolding nb prefix_loop_Cons by simp
  show ?case
  proof (cases "found = 0")
    case True
    then have "prefix_loop api True wanted bs ks hits mapping (h @ [?c]) = (Inr (n, mapping'), h')"
      using rest by (simp add: prefix_round_def)
    from Cons.IH [OF this names(2,3) _ table] Cons.prems(4) nb obtain new more where
      "h' = (h @ [?c]) @ new" "mapping' = mapping @ more" "pinned new = at_backends table more" "fst ` set more \<subseteq> fst ` set bs"
      by auto
    then show ?thesis using True c nb by (intro exI [of _ "?c # new"] exI [of _ more]) auto
  next
    case False
    let ?mp = "dict_put m (take found ks) mapping"
    have fresh: "m \<notin> fst ` set mapping" using Cons.prems(4) nb by simp
    have mp: "?mp = mapping @ [(m, take found ks)]" using fresh by (simp add: dict_put_def)
    show ?thesis
    proof (cases "hits + found = wanted")
      case True
      then show ?thesis
        using rest False c b mp nb by (intro exI [of _ "[?c]"] exI [of _ "[(m, take found ks)]"]) (auto simp: prefix_round_def ret_def)
    next
      case wanted: False
      then have run: "prefix_loop api True wanted bs (drop found ks) (hits + found) ?mp (h @ [?c]) = (Inr (n, mapping'), h')"
        using rest False by (simp add: prefix_round_def)
      have "fst ` set bs \<inter> fst ` set ?mp = {}" using Cons.prems(4) names(4) nb mp by auto
      from Cons.IH [OF run names(2,3) this table] obtain new more where
        "h' = (h @ [?c]) @ new" "mapping' = ?mp @ more" "pinned new = at_backends table more" "fst ` set more \<subseteq> fst ` set bs"
        by blast
      then show ?thesis
        using c b mp nb by (intro exI [of _ "?c # new"] exI [of _ "(m, take found ks) # more"]) auto
    qed
  qed
qed

lemma filter_key:
  assumes "distinct (map fst xs)" "map_of xs n = Some b"
  shows "map snd (filter (\<lambda>(m, b). m = n) xs) = [b]"
  using assms
proof (induction xs)
  case (Cons x xs)
  obtain m c where x: "x = (m, c)" by force
  show ?case
  proof (cases "m = n")
    case True
    then have "filter (\<lambda>(m, b). m = n) xs = []" using Cons.prems(1) x by (force simp: filter_empty_conv)
    then show ?thesis using True Cons.prems(2) x by simp
  qed (use Cons x in auto)
qed simp

lemma concat_singletons: "concat (map (\<lambda>x. [f x]) xs) = map f xs"
  by (induction xs) simp_all

lemma unpin_location_run:
  assumes "batched_unpin api m ks (Some [n]) h = (Inr u, h')" "map_of (m_backends m) n = Some b"
    and "distinct (map fst (m_backends m))"
  shows "h' = h @ map (\<lambda>k. Unpin_key b k (Inr ())) ks"
proof -
  have "located m (Some [n]) = [b]"
    using filter_key [OF assms(3,2)] by (simp add: located_def in_locations_def)
  then have "do_each (\<lambda>k. ask (\<lambda>h. re_unpin api h b k) (Unpin_key b k)) ks h = (Inr (), h')"
    using assms(1) by (auto simp: batched_unpin_def run_iffs)
  then have "h' = h @ concat (map (\<lambda>k. [Unpin_key b k (Inr ())]) ks)"
    by (rule do_each_pieces) (simp add: ask_def)
  then show ?thesis by (simp add: concat_singletons)
qed

lemma unpinned_keys: "unpinned (map (\<lambda>k. Unpin_key b k (Inr ())) ks) = map (Pair b) ks"
  by (induction ks) (simp_all add: pin_defs)

lemma unpin_locations_run:
  assumes "unpin_locations api m d h = (Inr u, h')" "fst ` set d \<subseteq> fst ` set (m_backends m)"
    and "distinct (map fst (m_backends m))"
  shows "\<exists>new. h' = h @ new \<and> unpinned new = at_backends (m_backends m) d"
  using assms
proof (induction d arbitrary: h)
  case Nil
  then show ?case by (simp add: ret_def)
next
  case (Cons nk d)
  obtain n ks where nk: "nk = (n, ks)" by force
  obtain h1 where one: "batched_unpin api m ks (Some [n]) h = (Inr (), h1)"
    and rest: "unpin_locations api m d h1 = (Inr u, h')"
    using Cons.prems(1) nk by (auto simp: then_do_Inr_iff)
  have "n \<in> fst ` set (m_backends m)" using Cons.prems(2) nk by simp
  then obtain b where b: "map_of (m_backends m) n = Some b" by (meson map_of_eq_None_iff option.exhaust)
  have h1: "h1 = h @ map (\<lambda>k. Unpin_key b k (Inr ())) ks" by (rule unpin_location_run [OF one b Cons.prems(3)])
  from Cons.IH [OF rest _ Cons.prems(3)] Cons.prems(2) obtain new where
    "h' = h1 @ new" "unpinned new = at_backends (m_backends m) d" by auto
  then show ?case
    using h1 b nk by (intro exI [of _ "map (\<lambda>k. Unpin_key b k (Inr ())) ks @ new"]) (simp add: unpinned_keys)
qed

lemma drop_objects_run:
  "\<exists>new. drop_objects g xs h = h @ new \<and> unpinned new = [] \<and> ((\<forall>h x. \<exists>u. g_unpin g h x = Inr u) \<longrightarrow> released new = xs)"
proof (induction xs arbitrary: h)
  case (Cons x xs)
  let ?c = "Above (Unpin_object x (g_unpin g h x)) # (case g_unpin g h x of Inl _ \<Rightarrow> [] | Inr _ \<Rightarrow> [Ref_down x])"
  from Cons.IH [of "h @ ?c"] obtain new where "drop_objects g xs (h @ ?c) = (h @ ?c) @ new" "unpinned new = []"
    "(\<forall>h x. \<exists>u. g_unpin g h x = Inr u) \<longrightarrow> released new = xs" by blast
  moreover have "\<exists>u. g_unpin g h x = Inr u \<Longrightarrow> released ?c = [x]" "unpinned ?c = []"
    by (auto simp: pin_defs split: sum.splits)
  ultimately show ?case by (intro exI [of _ "?c @ new"]) (simp only: drop_objects.simps pin_simps trace_appends append_assoc, simp)
qed simp

lemma cleanup_run: "\<exists>new. cleanup_memory_objs g r h = (Inr (), h @ new) \<and> unpinned new = []"
proof (cases "\<exists>results. g_status g h r = Finished \<and> g_future g h r = Inr (Inr results)")
  case True
  then obtain results where f: "g_status g h r = Finished" "g_future g h r = Inr (Inr results)" by blast
  obtain new where "drop_objects g (map snd (concat results)) (h @ [Above (Pop_event r)]) = (h @ [Above (Pop_event r)]) @ new"
    "unpinned new = []"
    using drop_objects_run [of g "map snd (concat results)" "h @ [Above (Pop_event r)]"] by blast
  then show ?thesis
    using f by (intro exI [of _ "Above (Pop_event r) # new"]) (simp add: cleanup_memory_objs_def pin_defs)
next
  case False
  then have "cleanup_memory_objs g r h = (Inr (), h) \<or> cleanup_memory_objs g r h = (Inr (), h @ [Above (Pop_event r)])"
    by (auto simp: cleanup_memory_objs_def split: sum.splits)
  then show ?thesis by (auto simp: pin_defs)
qed

text \<open>
  C10: What a look-up has pinned that is not layer-wise, returns, and uses an id without recorded pins is
  unpinned when the look-up is given back, key by key and at the same backends, and nothing else
  is, whatever was called in between; afterwards the id is forgotten. (The manager has no PD backend,
  which is never pinned but would be unpinned; layer-wise look-ups do leak pins, see
  \<open>layer_lookup_leaks_pin\<close>.)
\<close>

theorem pins_given_back:
  assumes "is_healthy e" "\<not> e_layerwise e" "e_manager e = Some m" "distinct (map fst (m_backends m))"
    and "PD \<notin> fst ` set (m_backends m)" "map_of (e_lookup_pins e) lid = None"
    and "lookup api g e given (cs, None) search_range (Some lid) True h = ((Inr res, e1), h @ new1)"
    and "lookup_unpin api g e1 lid h2 = ((Inr (), e2), h2 @ new2)"
  shows "unpinned new2 = pinned new1 \<and> map_of (e_lookup_pins e2) lid = None"
proof -
  let ?sr = "case search_range of None \<Rightarrow> e_retrieve_locations e | Some s \<Rightarrow> Some s"
  let ?bs = "get_active_storage_backends m None ?sr"
  obtain n mapping h1 bs where b: "manager_batched_contains api m (map (snd \<circ> snd) cs) ?sr True h = (Inr (n, mapping), h1)"
    and h1: "h @ new1 = h1 @ map (\<lambda>b. Touch b (Inr ())) bs"
    and rec: "True \<and> mapping \<noteq> [] \<Longrightarrow> \<exists>l. Some lid = Some l \<and> e1 = e\<lparr>e_lookup_pins := dict_put l mapping (e_lookup_pins e)\<rparr>"
    and none: "\<not> (True \<and> mapping \<noteq> []) \<Longrightarrow> e1 = e"
    by (rule lookup_run [OF assms(7,1-3)]) blast
  have sub: "set ?bs \<subseteq> set (m_backends m)" by (auto simp: get_active_storage_backends_def)
  have pd: "PD \<notin> fst ` set ?bs" using sub assms(5) by blast
  have dist: "distinct (map fst ?bs)"
    using assms(4) by (simp add: get_active_storage_backends_def distinct_map_filter)
  have table: "\<forall>(name, b) \<in> set ?bs. map_of (m_backends m) name = Some b"
    using active_backends_named [OF assms(4)] by blast
  note loop = prefix_loop_pins [OF b [unfolded manager_batched_contains_def] pd dist _ table]
  obtain new where new: "h1 = h @ new" "pinned new = at_backends (m_backends m) mapping" "fst ` set mapping \<subseteq> fst ` set ?bs"
    using loop by (simp only: append_Nil list.set image_empty Int_empty_right simp_thms) blast
  have new1: "pinned new1 = at_backends (m_backends m) mapping" using h1 new(1,2) by simp
  show ?thesis
  proof (cases "mapping = []")
    case True
    then have "e1 = e" using none by simp
    moreover obtain drop where "cleanup_memory_objs g lid h2 = (Inr (), h2 @ drop)" "unpinned drop = []"
      using cleanup_run by blast
    ultimately have "unpinned new2 = []" "e2 = e"
      using assms(6,8) by (auto simp: lookup_unpin_def split: if_splits)
    then show ?thesis using new1 True assms(6) by simp
  next
    case False
    then have e1: "e1 = e\<lparr>e_lookup_pins := dict_put lid mapping (e_lookup_pins e)\<rparr>" using rec by blast
    obtain x h3 where u: "unpin_locations api m mapping h2 = (x, h3)" by force
    have x: "x = Inr ()" "h3 = h2 @ new2" and e2: "e2 = e1\<lparr>e_lookup_pins := dict_del lid (e_lookup_pins e1)\<rparr>"
      using assms(3,8) u e1 by (simp_all add: lookup_unpin_def dict_simps)
    have u': "unpin_locations api m mapping h2 = (Inr (), h2 @ new2)" using u x by simp
    have "fst ` set mapping \<subseteq> fst ` set (m_backends m)" using new(3) image_mono [OF sub, of fst] by (rule order_trans)
    from unpin_locations_run [OF u' this assms(4)] have "unpinned new2 = at_backends (m_backends m) mapping" by simp
    then show ?thesis using new1 e2 by (simp add: dict_simps)
  qed
qed

section \<open>Asynchronous loads\<close>

lemma dict_put_new: "k \<notin> fst ` set d \<Longrightarrow> dict_put k v d = d @ [(k, v)]"
  by (simp add: dict_put_def)

lemma dict_of_distinct:
  assumes "distinct (map fst (d @ items))"
  shows "foldl (\<lambda>d (k, v). dict_put k v d) d items = d @ items"
  using assms
proof (induction items arbitrary: d)
  case (Cons i items)
  obtain k v where i: "i = (k, v)" by force
  then have "dict_put k v d = d @ [(k, v)]" using Cons.prems by (intro dict_put_new) auto
  moreover have "distinct (map fst ((d @ [(k, v)]) @ items))" using Cons.prems i by simp
  ultimately show ?case using Cons.IH [of "d @ [(k, v)]"] i by simp
qed simp

text \<open>Every object of the dictionary is used by one chunk or by none.\<close>

lemma async_take_split:
  assumes "async_take objs cs taken msk = (taken', msk')" "distinct (map fst objs)" "distinct (map (snd \<circ> snd) cs)"
    and "\<forall>(a, b, k) \<in> set cs. Some k \<notin> fst ` set taken"
    and "mset (map (fst \<circ> snd) taken) + mset (map snd (filter (\<lambda>(k, x). Some k \<notin> fst ` set taken) objs)) = mset (map snd objs)"
  shows "mset (map (fst \<circ> snd) taken') + mset (map snd (filter (\<lambda>(k, x). Some k \<notin> fst ` set taken') objs)) = mset (map snd objs)"
  using assms
proof (induction objs cs taken msk rule: async_take.induct)
  case (2 objs a b k cs taken msk)
  show ?case
  proof (cases "map_of objs k")
    case None
    then show ?thesis using "2.prems"(1,5) by simp
  next
    case (Some x)
    let ?t = "taken @ [(Some k, x, a, b)]"
    have fresh: "Some k \<notin> fst ` set taken" using "2.prems"(4) by simp
    have one: "filter (\<lambda>(k', y). k' = k) objs = [(k, x)]"
      using Some "2.prems"(2)
    proof (induction objs)
      case (Cons o' objs)
      then show ?case by (cases o') (force simp: filter_empty_conv split: if_splits)
    qed simp
    have "filter (\<lambda>(k', y). Some k' \<notin> fst ` set ?t) objs = filter (\<lambda>(k', y). k' \<noteq> k) (filter (\<lambda>(k', y). Some k' \<notin> fst ` set taken) objs)"
      by (auto simp: filter_filter intro!: filter_cong)
    moreover have "filter (\<lambda>(k', y). k' = k) (filter (\<lambda>(k', y). Some k' \<notin> fst ` set taken) objs) = [(k, x)]"
    proof -
      have "filter (\<lambda>(k', y). k' = k) (filter (\<lambda>(k', y). Some k' \<notin> fst ` set taken) objs) =
          filter (\<lambda>(k', y). Some k' \<notin> fst ` set taken) (filter (\<lambda>(k', y). k' = k) objs)"
        by (simp add: filter_filter case_prod_unfold conj_commute)
      then show ?thesis using one fresh by simp
    qed
    ultimately have "mset (filter (\<lambda>(k', y). Some k' \<notin> fst ` set taken) objs) =
        {#(k, x)#} + mset (filter (\<lambda>(k', y). Some k' \<notin> fst ` set ?t) objs)"
      using multiset_partition [of "mset (filter (\<lambda>(k', y). Some k' \<notin> fst ` set taken) objs)" "\<lambda>(k', y). k' = k"]
      by (metis (no_types, lifting) case_prod_unfold filter_cong mset.simps mset_filter add_mset_add_single add.commute)
    then have balance: "mset (map (fst \<circ> snd) ?t) + mset (map snd (filter (\<lambda>(k', y). Some k' \<notin> fst ` set ?t) objs)) = mset (map snd objs)"
      using "2.prems"(5) by (simp add: ac_simps comp_def)
    have "k \<notin> (snd \<circ> snd) ` set cs" using "2.prems"(3) by simp
    then have "\<forall>(a, b, k') \<in> set cs. k' \<noteq> k" by (force simp: image_iff)
    moreover have "\<forall>(a, b, k) \<in> set cs. Some k \<notin> fst ` set taken" using "2.prems"(4) by simp
    ultimately have later: "\<forall>(a, b, k) \<in> set cs. Some k \<notin> fst ` set ?t" by (simp add: case_prod_unfold)
    have run: "async_take objs cs ?t (mark a b msk) = (taken', msk')" using "2.prems"(1) Some by simp
    have keys: "distinct (map (snd \<circ> snd) cs)" using "2.prems"(3) by (simp add: comp_def)
    show ?thesis by (rule "2.IH" [OF Some run "2.prems"(2) keys later balance])
  qed
qed simp

lemma async_process_run:
  assumes "async_process_tokens g (Some r) (Inr cs) msk h = (Inr (ls, msk'), h')"
    and "g_future g h r = Inr (Inr results)" "distinct (map fst (concat results))" "distinct (map (snd \<circ> snd) cs)"
  shows "\<exists>xs. h' = h @ map Ref_down xs \<and> mset (map (fst \<circ> snd) ls) + mset xs = mset (map snd (concat results))"
proof -
  let ?objs = "concat results"
  have d: "dict_of ?objs = ?objs"
    using dict_of_distinct [of "[]" ?objs] assms(3) by (simp add: dict_of_def)
  obtain taken m1 where t: "async_take ?objs cs [] msk = (taken, m1)" by force
  let ?unused = "map snd (filter (\<lambda>(k, x). Some k \<notin> fst ` set taken) ?objs)"
  have run: "then_do (do_each ref_count_down ?unused) (\<lambda>_. ret (taken, m1)) h = (Inr (ls, msk'), h')"
    using assms(1,2) t d by (simp add: async_process_tokens_def)
  then have "taken = ls" "h' = h @ map Ref_down ?unused"
    unfolding then_do_Inr_iff release_loop ret_Inr_iff by simp_all
  moreover have "mset (map (fst \<circ> snd) taken) + mset ?unused = mset (map snd ?objs)"
    by (rule async_take_split [OF t assms(3,4)]) simp_all
  ultimately show ?thesis by (intro exI [of _ ?unused]) simp
qed

lemma async_finish_chunk: "e_async e \<Longrightarrow> mute (finish_chunk api e c)"
  unfolding finish_chunk_def
  by (cases c; cases "e_manager e"; cases "fst c") (simp_all add: mute_intros mute_manager_remove)

lemma async_hand_over:
  assumes "hand_over api g e ls h = (Inr u, h')" "e_async e"
  shows "\<exists>new. h' = h @ new \<and> released new = [] \<and> on_gpu new = map handed_range ls"
proof (cases "ls = []")
  case True
  then show ?thesis using assms(1) by (simp add: hand_over_def then_do_def ret_def)
next
  case False
  let ?objs = "map (fst \<circ> snd) ls" and ?starts = "map (fst \<circ> snd \<circ> snd) ls" and ?ends = "map (snd \<circ> snd \<circ> snd) ls"
  let ?c = "Above (To_gpu ?objs ?starts ?ends (Inr ()))"
  have run: "do_each (finish_chunk api e) ls (h @ [?c]) = (Inr u, h')"
    using assms(1) False by (auto simp: hand_over_def call_above_def run_iffs Let_def)
  have mute: "mute (do_each (finish_chunk api e) ls)" by (intro mute_intros async_finish_chunk assms(2))
  obtain new where "h' = (h @ [?c]) @ new" "silent new" by (rule muteE [OF mute run])
  moreover have "on_gpu_by ?c = map handed_range ls"
    unfolding load_by_defs call.case upper_call.case sum.case by (rule zip_ranges)
  ultimately show ?thesis by (intro exI [of _ "?c # new"]) (simp add: silent_def)
qed

text \<open>
  An asynchronous load hands each object it has got either to the connector or back to the storage. But the end of
  the request releases all of them once more, used or not: the event keeps the objects that the
  retrieval has already given back, so these are released twice.
\<close>

theorem async_objects_released:
  assumes "retrieve api g e n (Some r) (Inr cs) h = (Inr msk, h @ new1)"
    and "is_healthy e" "e_async e" "\<not> e_only_first e" "map_of (e_lookup_pins e) r = None"
    and "\<And>h. g_future g h r = Inr (Inr results)" "\<And>h x. g_unpin g h x = Inr ()" "g_status g h2 r = Finished"
    and "distinct (map fst (concat results))" "distinct (map (snd \<circ> snd) cs)"
    and "lookup_unpin api g e r h2 = ((res, e'), h2 @ new2)"
  shows "mset (map fst (on_gpu new1)) + mset (released new1) = mset (map snd (concat results)) \<and>
    released new2 = map snd (concat results)"
proof
  have active: "\<not> is_passive e" using assms(4) by (simp add: is_passive_def)
  obtain ls h1 where l: "load_chunks api g e (Some r) (Inr cs) (replicate n False) h = (Inr (ls, msk), h1)"
    and o: "hand_over api g e ls h1 = (Inr (), h @ new1)"
    using assms(1,2) unfolding retrieve_def by (auto simp: then_do_Inr_iff ret_Inr_iff fail_Inr_iff split: if_splits)
  have "async_process_tokens g (Some r) (Inr cs) (replicate n False) h = (Inr (ls, msk), h1)"
    using l active assms(3,4) unfolding load_chunks_def by (auto simp: then_do_Inr_iff ret_Inr_iff)
  from async_process_run [OF this assms(6,9,10)] obtain xs where xs: "h1 = h @ map Ref_down xs"
    "mset (map (fst \<circ> snd) ls) + mset xs = mset (map snd (concat results))" by blast
  obtain n3 where n3: "h @ new1 = h1 @ n3" "released n3 = []" "on_gpu n3 = map handed_range ls"
    using async_hand_over [OF o assms(3)] by blast
  have "new1 = map Ref_down xs @ n3" using xs(1) n3(1) by simp
  then have "map fst (on_gpu new1) = map (fst \<circ> snd) ls" "released new1 = xs"
    using n3(2,3) by (simp_all add: handed_range_def)
  then show "mset (map fst (on_gpu new1)) + mset (released new1) = mset (map snd (concat results))"
    using xs(2) by (simp only:)
  let ?c = "Above (Pop_event r)"
  obtain new where new: "drop_objects g (map snd (concat results)) (h2 @ [?c]) = (h2 @ [?c]) @ new"
    "(\<forall>h x. \<exists>u. g_unpin g h x = Inr u) \<longrightarrow> released new = map snd (concat results)"
    using drop_objects_run [of g "map snd (concat results)" "h2 @ [?c]"] by blast
  have "h2 @ new2 = (h2 @ [?c]) @ new"
    using assms(5,6,8,11) new(1) by (simp add: lookup_unpin_def cleanup_memory_objs_def)
  moreover have "released new = map snd (concat results)" using new(2) assms(7) by blast
  ultimately show "released new2 = map snd (concat results)" by simp
qed

section \<open>Examples\<close>

lemmas demo_lookup_defs =
  lookup_def lookup_chunks_def lookup_unpin_def manager_batched_contains_def get_active_storage_backends_def active_backend_def
  touch_caches_def located_def in_locations_def is_healthy_def batched_unpin_def demo_engine_def demo_manager_def
  demo_holds_def dict_put_def Let_def dict_del_def then_do_def ask_def ret_def pin_defs

lemma demo_answers:
  "re_touch demo_api h b = Inr ()" "re_unpin demo_api h b k = Inr ()"
  by (simp_all add: demo_api_def)

definition demo_request :: "nat span list" where
  "demo_request = [(0, 2, 0), (2, 4, 1), (4, 6, 3), (6, 8, 9)]"

lemma demo_lookup:
  "\<exists>e1 new1. lookup demo_api demo_connector demo_engine True (demo_request, None) None (Some ''r'') True [] = ((Inr 6, e1), [] @ new1) \<and>
     pinned new1 = [(0, 0), (0, 1), (1, 3)] \<and> e1 = demo_engine\<lparr>e_lookup_pins := [(''r'', [(LocalCPU, [0, 1]), (''XdsBackend'', [3])])]\<rparr>"
  by (simp add: demo_lookup_defs demo_answers demo_request_def eval_nat_numeral)

lemma demo_unpin:
  "\<exists>e2 new2. lookup_unpin demo_api demo_connector
       (demo_engine\<lparr>e_lookup_pins := [(''r'', [(LocalCPU, [0, 1]), (''XdsBackend'', [3])])]\<rparr>) ''r'' [] = ((Inr (), e2), [] @ new2) \<and>
     length new2 = 3"
  by (simp add: demo_lookup_defs demo_answers)

theorem lookup_finds_prefix_witness:
  "\<exists>e1 h1. lookup demo_api demo_connector demo_engine True (demo_request, None) None (Some ''r'') True [] = ((Inr 6, e1), h1) \<and>
     (\<exists>lid d. Some ''r'' = Some lid \<and> map_of (e_lookup_pins e1) lid = Some d \<and> concat (map snd d) = [0, 1, 3])"
proof -
  obtain e1 h1 where r: "lookup demo_api demo_connector demo_engine True (demo_request, None) None (Some ''r'') True [] = ((Inr 6, e1), h1)"
    using demo_lookup by auto
  have e: "is_healthy demo_engine" "\<not> e_layerwise demo_engine" "e_manager demo_engine = Some demo_manager"
    "distinct (map fst (m_backends demo_manager))"
    by (simp_all add: is_healthy_def demo_engine_def demo_manager_def)
  have "\<exists>n \<le> length demo_request. 6 = (if n = 0 then 0 else fst (snd (demo_request ! (n - 1)))) \<and>
    (\<forall>i < n. \<exists>name b. active_backend demo_manager None
         (case None of None \<Rightarrow> e_retrieve_locations demo_engine | Some s \<Rightarrow> Some s) name \<and>
       map_of (m_backends demo_manager) name = Some b \<and> demo_holds b (snd (snd (demo_request ! i)))) \<and>
    (True \<and> 0 < n \<longrightarrow> (\<exists>lid d. Some ''r'' = Some lid \<and> map_of (e_lookup_pins e1) lid = Some d \<and>
       concat (map snd d) = take n (map (snd \<circ> snd) demo_request)))"
    by (rule lookup_finds_prefix [OF _ e r]) (rule demo_contains)
  then obtain n where n: "n \<le> length demo_request" "6 = (if n = 0 then 0 else fst (snd (demo_request ! (n - 1))))"
    "0 < n \<longrightarrow> (\<exists>lid d. Some ''r'' = Some lid \<and> map_of (e_lookup_pins e1) lid = Some d \<and>
       concat (map snd d) = take n (map (snd \<circ> snd) demo_request))"
    by blast
  have "n = 3" using n(1,2) by (auto simp: demo_request_def numeral_eq_Suc le_Suc_eq split: if_splits)
  then show ?thesis using n(3) r by (auto simp: demo_request_def numeral_eq_Suc)
qed

theorem pins_given_back_witness:
  "\<exists>e1 e2 new1 new2. lookup demo_api demo_connector demo_engine True (demo_request, None) None (Some ''r'') True [] = ((Inr 6, e1), [] @ new1) \<and>
     lookup_unpin demo_api demo_connector e1 ''r'' [] = ((Inr (), e2), [] @ new2) \<and> unpinned new2 = [(0, 0), (0, 1), (1, 3)]"
proof -
  obtain e1 new1 where l: "lookup demo_api demo_connector demo_engine True (demo_request, None) None (Some ''r'') True [] = ((Inr 6, e1), [] @ new1)"
    "pinned new1 = [(0, 0), (0, 1), (1, 3)]"
    and e1: "e1 = demo_engine\<lparr>e_lookup_pins := [(''r'', [(LocalCPU, [0, 1]), (''XdsBackend'', [3])])]\<rparr>"
    using demo_lookup by (elim exE conjE) (rule that)
  have "\<exists>e2 new2. lookup_unpin demo_api demo_connector e1 ''r'' [] = ((Inr (), e2), [] @ new2)"
    unfolding e1 using demo_unpin by blast
  then obtain e2 new2 where u: "lookup_unpin demo_api demo_connector e1 ''r'' [] = ((Inr (), e2), [] @ new2)" by blast
  have e: "is_healthy demo_engine" "\<not> e_layerwise demo_engine" "e_manager demo_engine = Some demo_manager"
    "distinct (map fst (m_backends demo_manager))" "PD \<notin> fst ` set (m_backends demo_manager)"
    "map_of (e_lookup_pins demo_engine) ''r'' = None"
    by (simp_all add: is_healthy_def demo_engine_def demo_manager_def)
  from pins_given_back [OF e l(1) u] l(2) have "unpinned new2 = [(0, 0), (0, 1), (1, 3)]" by simp
  then show ?thesis using l(1) u by blast
qed

text \<open>The asynchronous load of the connector's example: three objects, of which the first is used.\<close>

definition async_engine :: "(nat, nat) engine" where
  "async_engine = demo_engine\<lparr>e_async := True\<rparr>"

lemma demo_async:
  "\<exists>new1. retrieve demo_api demo_connector async_engine 4 (Some ''r'') (Inr [(0, 2, 0), (2, 4, 7)]) [] =
       (Inr [True, True, False, False], [] @ new1) \<and> on_gpu new1 = [(40, 0, 2)]"
  by (simp add: retrieve_def load_chunks_def async_process_tokens_def dict_of_def dict_put_def hand_over_def finish_chunk_def
      call_above_def is_healthy_def is_passive_def mark_def ref_count_down_def demo_engine_def async_engine_def demo_connector_def
      then_do_def ask_def ret_def load_by_defs eval_nat_numeral)

theorem async_objects_released_witness:
  "\<exists>new1 new2 e'. retrieve demo_api demo_connector async_engine 4 (Some ''r'') (Inr [(0, 2, 0), (2, 4, 7)]) [] =
       (Inr [True, True, False, False], [] @ new1) \<and>
     lookup_unpin demo_api demo_connector async_engine ''r'' [] = ((Inr (), e'), [] @ new2) \<and>
     mset (released new1) = {#43, 44#} \<and> released new2 = [40, 43, 44]"
proof -
  obtain new1 where r: "retrieve demo_api demo_connector async_engine 4 (Some ''r'') (Inr [(0, 2, 0), (2, 4, 7)]) [] =
       (Inr [True, True, False, False], [] @ new1)" "on_gpu new1 = [(40, 0, 2)]" using demo_async by blast
  obtain e' new2 where u: "lookup_unpin demo_api demo_connector async_engine ''r'' [] = ((Inr (), e'), [] @ new2)"
    by (simp add: lookup_unpin_def cleanup_memory_objs_def async_engine_def demo_engine_def demo_connector_def)
  have e: "is_healthy async_engine" "e_async async_engine" "\<not> e_only_first async_engine" "map_of (e_lookup_pins async_engine) ''r'' = None"
    by (simp_all add: is_healthy_def async_engine_def demo_engine_def)
  have g: "g_future demo_connector h ''r'' = Inr (Inr [[(0, 40)], [(3, 43), (4, 44)]])" "g_unpin demo_connector h x = Inr ()"
    "g_status demo_connector [] ''r'' = Finished" for h x
    by (simp_all add: demo_connector_def)
  have d: "distinct (map fst (concat [[(0 :: nat, 40 :: nat)], [(3, 43), (4, 44)]]))" "distinct (map (snd \<circ> snd) [(0, 2, 0), (2, 4, 7 :: nat)])"
    by simp_all
  from async_objects_released [OF r(1) e g d u] r(2) have "mset (released new1) = {#43, 44#}" "released new2 = [40, 43, 44]"
    by simp_all
  then show ?thesis using r(1) u by blast
qed

text \<open>
  With layer-wise caching the pins are not balanced: the layers of the first chunk that is not complete have
  been pinned by the look-up, but only complete chunks are recorded, so nothing ever unpins them.
\<close>

definition layer_api :: "(nat, nat, nat, unit) api" where
  "layer_api = demo_api\<lparr>re_batched_contains := (\<lambda>h b ks pin. Inr (if b = 0 then length (takeWhile (\<lambda>k. k < 11) ks) else 0))\<rparr>"

theorem layer_lookup_leaks_pin:
  "\<exists>e1 e2 new1 new2. lookup layer_api demo_connector (demo_engine\<lparr>e_layerwise := True\<rparr>) True ([(0, 2, 0), (2, 4, 1)], None) None
       (Some ''r'') True [] = ((Inr 2, e1), new1) \<and>
     lookup_unpin layer_api demo_connector e1 ''r'' [] = ((Inr (), e2), new2) \<and>
     pinned new1 = [(0, 0), (0, 1), (0, 10)] \<and> unpinned new2 = [(0, 0), (0, 1)] \<and> e_lookup_pins e2 = []"
  by (simp add: demo_lookup_defs layer_api_def demo_answers extend_pins_def pins_at_def demo_connector_def eval_nat_numeral upt_rec)

end
