(* ===== verification/Engine_Broadcast.thy ===== *)
theory Engine_Broadcast
  imports Engine_Lookup
begin

text \<open>
  The broadcast of a retrieval from the first rank to the others, and the table of engines of the
  builder.
\<close>

section \<open>Broadcast\<close>

definition spans_by :: "('b, 'k, 'o, 'q) call \<Rightarrow> (int \<times> int \<times> 'q) list" where
  "spans_by c = (case c of Above (Send_chunk a b q (Inr _)) \<Rightarrow> [(a, b, q)] | _ \<Rightarrow> [])"

definition data_by :: "('b, 'k, 'o, 'q) call \<Rightarrow> bytes list" where
  "data_by c = (case c of Above (Send_tensor d (Inr _)) \<Rightarrow> [d] | _ \<Rightarrow> [])"

definition sent_spans :: "('b, 'k, 'o, 'q) call list \<Rightarrow> (int \<times> int \<times> 'q) list" where
  "sent_spans h = concat (map spans_by h)"

definition sent_data :: "('b, 'k, 'o, 'q) call list \<Rightarrow> bytes list" where
  "sent_data h = concat (map data_by h)"

definition received :: "('b, 'k, 'o, 'q) call list \<Rightarrow> nat" where
  "received h = length (filter (\<lambda>c. case c of Above (Recv_chunk r) \<Rightarrow> True | _ \<Rightarrow> False) h)"

lemma broadcast_trace [simp]:
  "sent_spans [] = []" "sent_spans (c # cs) = spans_by c @ sent_spans cs" "sent_spans (xs @ ys) = sent_spans xs @ sent_spans ys"
  "sent_data [] = []" "sent_data (c # cs) = data_by c @ sent_data cs" "sent_data (xs @ ys) = sent_data xs @ sent_data ys"
  "received [] = 0" "received (xs @ ys) = received xs + received ys"
  "received (Above (Recv_chunk r) # cs) = Suc (received cs)" "received (Above (Recv_tensor q t) # cs) = received cs"
  "received (Above (Recv_count c') # cs) = received cs"
  by (simp_all add: sent_spans_def sent_data_def received_def)




definition mark_all :: "(int \<times> int \<times> 'q) list \<Rightarrow> bool list \<Rightarrow> bool list" where
  "mark_all spans msk = foldl (\<lambda>m (a, b, q). mark a b m) msk spans"

lemma length_mark_all [simp]: "length (mark_all spans msk) = length msk"
  by (induction spans arbitrary: msk) (auto simp: mark_all_def)






section \<open>Instances\<close>

definition builder_ok :: "('e, 'c, 'm) builder \<Rightarrow> bool" where
  "builder_ok bu \<longleftrightarrow> fst ` set (bu_configs bu) = fst ` set (bu_engines bu) \<and> fst ` set (bu_metadatas bu) = fst ` set (bu_engines bu)"

lemma builder_ok_create: "builder_ok bu \<Longrightarrow> builder_ok (snd (get_or_create i cfg meta fresh bu))"
  by (auto simp: builder_ok_def get_or_create_def dict_simps split: option.splits)

lemma builder_ok_destroy: "builder_ok bu \<Longrightarrow> builder_ok (fst (destroy close i bu h))"
  by (auto simp: builder_ok_def destroy_def dict_simps split: option.splits)

lemma get_after_create:
  assumes "get_or_create i cfg meta fresh bu = (Inr e, bu')"
  shows "builder_get i bu' = Some e"
  using assms by (auto simp: get_or_create_def builder_get_def dict_simps split: option.splits if_splits)

lemma create_twice:
  assumes "get_or_create i cfg meta fresh bu = (Inr e, bu')"
  shows "get_or_create i cfg meta fresh' bu' = (Inr e, bu')"
  using assms by (auto simp: get_or_create_def dict_simps split: option.splits if_splits)

lemma get_after_destroy: "builder_get i (fst (destroy close i bu h)) = None"
  by (simp add: destroy_def builder_get_def dict_simps split: option.splits)

end
