(* ===== verification/Engine_Layers.thy ===== *)
theory Engine_Layers
  imports Engine_Lookup
begin

text \<open>
  The layer-wise stores and retrievals of the cache engine (\<^verbatim>\<open>v1/cache_engine.py\<close>). They are generators: the
  serving engine resumes them once per layer, and between two resumptions other code runs.
\<close>

section \<open>Generators\<close>

text \<open>
  A suspended generator. Resuming it runs to the next \<^verbatim>\<open>yield\<close> (the value and the rest), to the end
  (\<open>None\<close>), or to an exception. \<open>next_of\<close> is Python's \<^verbatim>\<open>next\<close>: the end becomes a \<^verbatim>\<open>StopIteration\<close>, and a
  generator that has ended stays at its end.
\<close>

datatype ('y, 'c) generator = Gen (resume: "'c list \<Rightarrow> (exn + ('y \<times> ('y, 'c) generator) option) \<times> 'c list")

definition ended :: "('y, 'c) generator" where
  "ended = Gen (\<lambda>h. (Inr None, h))"

definition raising :: "exn \<Rightarrow> ('y, 'c) generator" where
  "raising x = Gen (\<lambda>h. (Inl x, h))"

definition yielding :: "'y \<Rightarrow> ('y, 'c) generator \<Rightarrow> ('y, 'c) generator" where
  "yielding y g = Gen (\<lambda>h. (Inr (Some (y, g)), h))"

definition running :: "('x, 'c) act \<Rightarrow> ('x \<Rightarrow> ('y, 'c) generator) \<Rightarrow> ('y, 'c) generator" where
  "running f k = Gen (\<lambda>h. case f h of (Inl x, h') \<Rightarrow> (Inl x, h') | (Inr v, h') \<Rightarrow> resume (k v) h')"

definition next_of :: "('y, 'c) generator \<Rightarrow> 'c list \<Rightarrow> ('y res \<times> ('y, 'c) generator) \<times> 'c list" where
  "next_of g h =
     (case resume g h of
        (Inl x, h') \<Rightarrow> ((Inl x, ended), h')
      | (Inr None, h') \<Rightarrow> ((Inl StopIteration, ended), h')
      | (Inr (Some (y, g')), h') \<Rightarrow> ((Inr y, g'), h'))"

text \<open>\<open>n\<close> calls of \<^verbatim>\<open>next\<close>, up to the first exception.\<close>

fun nexts :: "nat \<Rightarrow> ('y, 'c) generator \<Rightarrow> 'c list \<Rightarrow> ('y list res \<times> ('y, 'c) generator) \<times> 'c list" where
  "nexts 0 g h = ((Inr [], g), h)"
| "nexts (Suc n) g h =
     (case next_of g h of
        ((Inl x, g'), h') \<Rightarrow> ((Inl x, g'), h')
      | ((Inr y, g'), h') \<Rightarrow>
          (case nexts n g' h' of
             ((Inl x, g''), h'') \<Rightarrow> ((Inl x, g''), h'')
           | ((Inr ys, g''), h'') \<Rightarrow> ((Inr (y # ys), g''), h'')))"

lemma next_simps [simp]:
  "next_of ended h = ((Inl StopIteration, ended), h)"
  "next_of (raising x) h = ((Inl x, ended), h)"
  "next_of (yielding y g) h = ((Inr y, g), h)"
  by (simp_all add: next_of_def ended_def raising_def yielding_def)

lemma next_running:
  "next_of (running f k) h = (case f h of (Inl x, h') \<Rightarrow> ((Inl x, ended), h') | (Inr v, h') \<Rightarrow> next_of (k v) h')"
  by (simp add: next_of_def running_def split: sum.splits prod.splits)

lemma nexts_add:
  "nexts (m + n) g h =
     (case nexts m g h of
        ((Inl x, g'), h') \<Rightarrow> ((Inl x, g'), h')
      | ((Inr ys, g'), h') \<Rightarrow>
          (case nexts n g' h' of
             ((Inl x, g''), h'') \<Rightarrow> ((Inl x, g''), h'')
           | ((Inr zs, g''), h'') \<Rightarrow> ((Inr (ys @ zs), g''), h'')))"
proof (induction m arbitrary: g h)
  case 0
  then show ?case by (auto split: prod.splits sum.splits)
next
  case (Suc m)
  show ?case
  proof (cases "next_of g h")
    case (Pair r h1)
    obtain x g1 where "r = (x, g1)" by force
    then show ?thesis using Pair Suc [of g1 h1] by (auto split: prod.splits sum.splits)
  qed
qed

text \<open>A number of empty rounds.\<close>

fun idle :: "nat \<Rightarrow> 'y \<Rightarrow> ('y, 'c) generator \<Rightarrow> ('y, 'c) generator" where
  "idle 0 y g = g"
| "idle (Suc n) y g = yielding y (idle n y g)"

lemma nexts_idle [simp]: "nexts n (idle n y g) h = ((Inr (replicate n y), g), h)"
  by (induction n) simp_all

section \<open>Surroundings\<close>

text \<open>
  The connector's own generators: \<open>start\<close> is their creation with the first \<^verbatim>\<open>next\<close>. \<open>lw_ok\<close> is the check of
  its class, \<open>lw_await\<close> the result of a layer's load.
\<close>

record ('b, 'k, 'o, 'q) layer_connector =
  lw_ok :: bool
  lw_from_start :: "('b, 'k, 'o, 'q) call list \<Rightarrow> 'o list list \<Rightarrow> int list \<Rightarrow> int list \<Rightarrow> unit res"
  lw_from_next :: "('b, 'k, 'o, 'q) call list \<Rightarrow> unit res"
  lw_to_start :: "('b, 'k, 'o, 'q) call list \<Rightarrow> int list \<Rightarrow> int list \<Rightarrow> unit res"
  lw_to_send :: "('b, 'k, 'o, 'q) call list \<Rightarrow> 'o list \<Rightarrow> unit res"
  lw_to_next :: "('b, 'k, 'o, 'q) call list \<Rightarrow> unit res"
  lw_await :: "('b, 'k, 'o, 'q) call list \<Rightarrow> nat \<Rightarrow> 'o list res"

definition check_layerwise :: "('b, 'k, 'o, 'q) layer_connector \<Rightarrow> (unit, ('b, 'k, 'o, 'q) call) act" where
  "check_layerwise l = (if lw_ok l then ret () else fail (AssertionError ''layerwise gpu connector''))"

text \<open>\<^verbatim>\<open>[list(row) for row in zip(*xss)]\<close>.\<close>

definition py_zip :: "'a list list \<Rightarrow> 'a list list" where
  "py_zip xss = (if xss = [] then [] else map (\<lambda>i. map (\<lambda>xs. xs ! i) xss) [0..<Min (length ` set xss)])"

definition first_layer :: "'k list \<Rightarrow> ('k, 'c) act" where
  "first_layer ks = (case ks of [] \<Rightarrow> fail IndexError | k # _ \<Rightarrow> ret k)"

section \<open>Retrieval\<close>

text \<open>What a layer-wise retrieval yields: nothing, the number of tokens, or the mask.\<close>

datatype layer_yield = Nothing | Count nat | Mask "bool list"

text \<open>The chunks that are found, by their first layer, and the one location they are at.\<close>

record 'k layer_hits =
  lh_spans :: "(int \<times> int) list"
  lh_keys :: "'k list list"
  lh_mask :: "bool list"
  lh_location :: "string option"

fun find_layers ::
    "('b, 'k, 'o, 'q) api \<Rightarrow> ('b, 'k, 'o, 'q) connector \<Rightarrow> ('b, 'k) engine \<Rightarrow> 'b manager \<Rightarrow> 'k span list \<Rightarrow>
     'k layer_hits \<Rightarrow> ('k layer_hits, ('b, 'k, 'o, 'q) call) act" where
  "find_layers api g e m [] s = ret s"
| "find_layers api g e m ((a, b, k) # cs) s =
     then_do (first_layer (g_split g k (e_layers e)))
       (\<lambda>k0. then_do (manager_contains api m k0 (e_retrieve_locations e) False)
          (\<lambda>found. case found of
             None \<Rightarrow> ret s
           | Some loc \<Rightarrow>
               if loc = [] then ret s
               else if lh_location s \<noteq> None \<and> lh_location s \<noteq> Some loc
                 then fail (AssertionError ''All retrieved keys should be from the same location'')
               else find_layers api g e m cs
                 (s\<lparr>lh_spans := lh_spans s @ [(a, b)], lh_keys := lh_keys s @ [g_split g k (e_layers e)],
                    lh_mask := mark a b (lh_mask s), lh_location := Some loc\<rparr>)))"

text \<open>
  One round per layer: the load of the layer is started before the \<^verbatim>\<open>yield\<close>, awaited and sent to the connector
  after it. A generator that runs out of rows inside the loop is a \<^verbatim>\<open>RuntimeError\<close>.
\<close>

fun load_rounds ::
    "('b, 'k, 'o, 'q) api \<Rightarrow> ('b, 'k, 'o, 'q) layer_connector \<Rightarrow> 'b manager \<Rightarrow> string option \<Rightarrow> layer_yield \<Rightarrow> nat \<Rightarrow>
     'k list list \<Rightarrow> 'o list \<Rightarrow> ('o list \<Rightarrow> (layer_yield, ('b, 'k, 'o, 'q) call) generator) \<Rightarrow>
     (layer_yield, ('b, 'k, 'o, 'q) call) generator" where
  "load_rounds api l m loc y 0 todo got k = k got"
| "load_rounds api l m loc y (Suc n) [] got k = raising (RuntimeError ''generator raised StopIteration'')"
| "load_rounds api l m loc y (Suc n) (row # todo) got k =
     running (layerwise_batched_get api m loc row)
       (\<lambda>task. yielding y
          (running (call_above (\<lambda>h. lw_await l h task) (Await task))
             (\<lambda>objs. running (call_above (\<lambda>h. lw_to_send l h objs) (To_gpu_send objs))
                (\<lambda>_. load_rounds api l m loc Nothing n todo (got @ objs) k))))"

text \<open>The last two rounds: the connector's last layer is synchronised, then the mask is yielded.\<close>

definition last_rounds ::
    "('b, 'k, 'o, 'q) layer_connector \<Rightarrow> bool list \<Rightarrow> (layer_yield, ('b, 'k, 'o, 'q) call) generator" where
  "last_rounds l msk =
     yielding Nothing (running (call_above (lw_to_next l) To_gpu_next) (\<lambda>_. yielding (Mask msk) ended))"

definition retrieve_layer ::
    "('b, 'k, 'o, 'q) api \<Rightarrow> ('b, 'k, 'o, 'q) connector \<Rightarrow> ('b, 'k, 'o, 'q) layer_connector \<Rightarrow> ('b, 'k) engine \<Rightarrow> nat \<Rightarrow>
     'k span list res \<Rightarrow> (layer_yield, ('b, 'k, 'o, 'q) call) generator" where
  "retrieve_layer api g l e n chunks =
     (if \<not> is_healthy e then yielding (Mask (replicate n False)) ended
      else case e_manager e of
        None \<Rightarrow> raising (AssertionError ''storage_manager'')
      | Some m \<Rightarrow>
          if \<not> e_gpu e then raising (AssertionError ''gpu_connector is required for retrieve_layer operation'')
          else case chunks of
            Inl x \<Rightarrow> raising x
          | Inr cs \<Rightarrow>
              running (find_layers api g e m cs
                  \<lparr>lh_spans = [], lh_keys = [], lh_mask = replicate n False, lh_location = None\<rparr>)
                (\<lambda>s. if lh_keys s = [] then
                       idle (e_layers e) Nothing (yielding Nothing (raising (UnboundLocalError ''mem_obj_consumer'')))
                     else
                       running (check_layerwise l)
                         (\<lambda>_. running (call_above (\<lambda>h. lw_to_start l h (map fst (lh_spans s)) (map snd (lh_spans s)))
                                (To_gpu_start (map fst (lh_spans s)) (map snd (lh_spans s))))
                            (\<lambda>_. load_rounds api l m (lh_location s) (Count (length (filter id (lh_mask s)))) (e_layers e)
                                   (py_zip (lh_keys s)) []
                                   (\<lambda>got. running (do_each ref_count_down got) (\<lambda>_. last_rounds l (lh_mask s)))))))"

section \<open>Stores\<close>

text \<open>
  The chunks that are not stored yet get objects for all their layers, until there is no memory. (The KV
  events of layer-wise stores are left out.)
\<close>

record ('k, 'o) layer_batch =
  lb_starts :: "int list"
  lb_ends :: "int list"
  lb_keys :: "'k list list"
  lb_objs :: "'o list list"

fun allocate_layers ::
    "('b, 'k, 'o, 'q) api \<Rightarrow> ('b, 'k, 'o, 'q) connector \<Rightarrow> ('b, 'k) engine \<Rightarrow> 'b manager \<Rightarrow> 'k span list \<Rightarrow>
     ('k, 'o) layer_batch \<Rightarrow> (('k, 'o) layer_batch, ('b, 'k, 'o, 'q) call) act" where
  "allocate_layers api g e m [] s = ret s"
| "allocate_layers api g e m ((a, b, k) # cs) s =
     then_do (first_layer (g_split g k (e_layers e)))
       (\<lambda>k0. then_do (manager_contains api m k0 (e_retrieve_locations e) False)
          (\<lambda>found. if found \<noteq> None \<and> found \<noteq> Some [] then allocate_layers api g e m cs s
             else then_do (manager_batched_allocate api m (g_layer_layout g (b - a)) (e_layers e) True (e_force_wait e))
               (\<lambda>got. case got of
                  None \<Rightarrow> ret s
                | Some objs \<Rightarrow>
                    allocate_layers api g e m cs
                      (s\<lparr>lb_starts := lb_starts s @ [a], lb_ends := lb_ends s @ [b],
                         lb_keys := lb_keys s @ [g_split g k (e_layers e)], lb_objs := lb_objs s @ [objs]\<rparr>))))"

fun store_rounds ::
    "('b, 'k, 'o, 'q) api \<Rightarrow> ('b, 'k, 'o, 'q) layer_connector \<Rightarrow> ('b, 'k) engine \<Rightarrow> 'b manager \<Rightarrow> nat \<Rightarrow> ('k list) list \<Rightarrow>
     ('o list) list \<Rightarrow> (unit, ('b, 'k, 'o, 'q) call) generator \<Rightarrow> (unit, ('b, 'k, 'o, 'q) call) generator" where
  "store_rounds api l e m 0 todo objs k = k"
| "store_rounds api l e m (Suc n) todo objs k =
     yielding ()
       (running (call_above (lw_from_next l) From_gpu_next)
          (\<lambda>_. if todo = [] \<or> objs = [] then raising IndexError
             else running (batched_put api m (todo ! 0) (objs ! 0) None (e_store_location e) None)
               (\<lambda>_. store_rounds api l e m n (drop 1 todo) (drop 1 objs) k)))"

definition store_layer ::
    "('b, 'k, 'o, 'q) api \<Rightarrow> ('b, 'k, 'o, 'q) connector \<Rightarrow> ('b, 'k, 'o, 'q) layer_connector \<Rightarrow> ('b, 'k) engine \<Rightarrow>
     'k span list res \<Rightarrow> (unit, ('b, 'k, 'o, 'q) call) generator" where
  "store_layer api g l e chunks =
     (if \<not> is_healthy e then ended
      else case e_manager e of
        None \<Rightarrow> raising (AssertionError ''storage_manager'')
      | Some m \<Rightarrow>
          if \<not> e_gpu e then raising (AssertionError ''gpu_connector is required for store_layer operation'')
          else if engine_is_frozen e then idle (e_layers e) () ended
          else case chunks of
            Inl x \<Rightarrow> raising x
          | Inr cs \<Rightarrow>
              running (allocate_layers api g e m cs \<lparr>lb_starts = [], lb_ends = [], lb_keys = [], lb_objs = []\<rparr>)
                (\<lambda>s. if lb_keys s = [] then idle (e_layers e) () (yielding () ended)
                     else
                       running (check_layerwise l)
                         (\<lambda>_. running
                            (call_above (\<lambda>h. lw_from_start l h (py_zip (lb_objs s)) (lb_starts s) (lb_ends s))
                               (From_gpu_start (py_zip (lb_objs s)) (lb_starts s) (lb_ends s)))
                            (\<lambda>_. store_rounds api l e m (e_layers e) (py_zip (lb_keys s)) (py_zip (lb_objs s))
                                   (yielding () ended)))))"

end
