(* ===== verification/Layer_Connector.thy ===== *)
theory Layer_Connector
  imports Engine_Layers
begin

text \<open>
  The two generators of the paged layer-wise connector (\<^verbatim>\<open>VLLMPagedMemLayerwiseGPUConnector\<close> of
  \<^verbatim>\<open>v1/gpu_connector/gpu_connectors.py\<close>): how often they can be resumed, what each resumption does, and which
  exceptions it raises. Where a generator stands follows from the calls since it was made; one that
  has raised is at its end.
\<close>

section \<open>Where a generator stands\<close>

record transfer_run =
  tr_chunks :: nat
  tr_resumed :: nat
  tr_alive :: bool

definition resumed_with :: "unit res \<Rightarrow> transfer_run \<Rightarrow> transfer_run" where
  "resumed_with r t = t\<lparr>tr_resumed := tr_resumed t + 1, tr_alive := tr_alive t \<and> r = Inr ()\<rparr>"

definition load_step :: "transfer_run option \<Rightarrow> ('b, 'k, 'o, 'q) call \<Rightarrow> transfer_run option" where
  "load_step st c =
     (case c of
        Above (To_gpu_start starts ends r) \<Rightarrow>
          Some \<lparr>tr_chunks = min (length starts) (length ends), tr_resumed = 1, tr_alive = (r = Inr ())\<rparr>
      | Above (To_gpu_send objs r) \<Rightarrow> map_option (resumed_with r) st
      | Above (To_gpu_next r) \<Rightarrow> map_option (resumed_with r) st
      | _ \<Rightarrow> st)"

definition load_run :: "('b, 'k, 'o, 'q) call list \<Rightarrow> transfer_run option" where
  "load_run h = foldl load_step None h"

text \<open>Stores also keep the rows of objects that the generator was made with.\<close>

definition store_step ::
    "('o list list \<times> transfer_run) option \<Rightarrow> ('b, 'k, 'o, 'q) call \<Rightarrow> ('o list list \<times> transfer_run) option" where
  "store_step st c =
     (case c of
        Above (From_gpu_start rs starts ends r) \<Rightarrow>
          Some (rs, \<lparr>tr_chunks = min (length starts) (length ends), tr_resumed = 1, tr_alive = (r = Inr ())\<rparr>)
      | Above (From_gpu_next r) \<Rightarrow> map_option (\<lambda>(rs, t). (rs, resumed_with r t)) st
      | _ \<Rightarrow> st)"

definition store_run :: "('b, 'k, 'o, 'q) call list \<Rightarrow> ('o list list \<times> transfer_run) option" where
  "store_run h = foldl store_step None h"

section \<open>The connector\<close>

text \<open>
  What the generators find in their arguments (the caches, the slot mapping, \<^verbatim>\<open>sync\<close>), and the answers of
  torch, of the buffer's allocator and of the copy kernels.
\<close>

record ('b, 'k, 'o, 'q) paged =
  pg_layers :: nat
  pg_kvcaches :: bool
  pg_slots :: bool
  pg_sync :: bool
  pg_use_gpu :: bool
  pg_setup :: "('b, 'k, 'o, 'q) call list \<Rightarrow> unit res"
  pg_buffer :: "('b, 'k, 'o, 'q) call list \<Rightarrow> int list \<Rightarrow> int list \<Rightarrow> bool"
  pg_format :: "'o \<Rightarrow> bool"
  pg_tensor :: "'o \<Rightarrow> bool"
  pg_copy :: "('b, 'k, 'o, 'q) call list \<Rightarrow> nat \<Rightarrow> 'o \<Rightarrow> unit res"
  pg_kernel :: "('b, 'k, 'o, 'q) call list \<Rightarrow> nat \<Rightarrow> unit res"

text \<open>The part before the first \<^verbatim>\<open>yield\<close>, common to both.\<close>

definition paged_prepare ::
    "('b, 'k, 'o, 'q) paged \<Rightarrow> ('b, 'k, 'o, 'q) call list \<Rightarrow> int list \<Rightarrow> int list \<Rightarrow> unit res" where
  "paged_prepare p h starts ends =
     (if \<not> pg_kvcaches p then Inl (AssertionError ''kvcaches should be provided in kwargs or initialized beforehand.'')
      else if \<not> pg_slots p then Inl (ValueError '''slot_mapping' should be provided in kwargs.'')
      else if \<not> pg_sync p then Inl (ValueError '''sync' should be provided in kwargs.'')
      else (case pg_setup p h of
          Inl x \<Rightarrow> Inl x
        | Inr _ \<Rightarrow>
            if starts = [] \<or> ends = [] then Inl (RuntimeError ''torch.cat(): expected a non-empty list of Tensors'')
            else if pg_use_gpu p \<and> \<not> pg_buffer p h starts ends
              then Inl (AssertionError ''Failed to allocate GPU buffer in GPUConnector'')
            else Inr ()))"

text \<open>One layer of a load: the format of every object is checked before it is copied.\<close>

fun load_objects ::
    "('b, 'k, 'o, 'q) paged \<Rightarrow> ('b, 'k, 'o, 'q) call list \<Rightarrow> nat \<Rightarrow> 'o list \<Rightarrow> unit res" where
  "load_objects p h layer [] = (if pg_use_gpu p then pg_kernel p h layer else Inr ())"
| "load_objects p h layer (x # xs) =
     (if \<not> pg_format p x then Inl (AssertionError ''Expected memory format'')
      else case pg_copy p h layer x of Inl e \<Rightarrow> Inl e | Inr _ \<Rightarrow> load_objects p h layer xs)"

text \<open>
  A resumption of the load, with the objects of a layer or without. It yields once for the preparation and each
  layer and once after the last layer is synchronised; after that it is at its end.
\<close>

definition paged_load ::
    "('b, 'k, 'o, 'q) paged \<Rightarrow> ('b, 'k, 'o, 'q) call list \<Rightarrow> 'o list option \<Rightarrow> unit res" where
  "paged_load p h objs =
     (case load_run h of
        None \<Rightarrow> Inl StopIteration
      | Some t \<Rightarrow>
          if \<not> tr_alive t \<or> pg_layers p + 1 < tr_resumed t then Inl StopIteration
          else if tr_resumed t \<le> pg_layers p then
            (case objs of
               None \<Rightarrow> Inl (TypeError ''zip'')
             | Some xs \<Rightarrow> load_objects p h (tr_resumed t - 1) (take (tr_chunks t) xs))
          else Inr ())"

text \<open>A store runs one layer before every \<^verbatim>\<open>yield\<close> and yields once more at the end.\<close>

fun store_copies ::
    "('b, 'k, 'o, 'q) paged \<Rightarrow> ('b, 'k, 'o, 'q) call list \<Rightarrow> nat \<Rightarrow> 'o list \<Rightarrow> unit res" where
  "store_copies p h layer [] = Inr ()"
| "store_copies p h layer (x # xs) =
     (if \<not> pg_tensor p x then Inl (AssertionError ''tensor'')
      else case pg_copy p h layer x of Inl e \<Rightarrow> Inl e | Inr _ \<Rightarrow> store_copies p h layer xs)"

definition store_one_layer ::
    "('b, 'k, 'o, 'q) paged \<Rightarrow> ('b, 'k, 'o, 'q) call list \<Rightarrow> nat \<Rightarrow> 'o list list \<Rightarrow> nat \<Rightarrow> unit res" where
  "store_one_layer p h layer rs chunks =
     (if length rs \<le> layer then Inl IndexError
      else (case (if pg_use_gpu p then pg_kernel p h layer else Inr ()) of
          Inl x \<Rightarrow> Inl x
        | Inr _ \<Rightarrow> store_copies p h layer (take chunks (rs ! layer))))"

definition paged_store_start ::
    "('b, 'k, 'o, 'q) paged \<Rightarrow> ('b, 'k, 'o, 'q) call list \<Rightarrow> 'o list list \<Rightarrow> int list \<Rightarrow> int list \<Rightarrow> unit res" where
  "paged_store_start p h rs starts ends =
     (case paged_prepare p h starts ends of
        Inl x \<Rightarrow> Inl x
      | Inr _ \<Rightarrow>
          if pg_layers p = 0 then Inr () else store_one_layer p h 0 rs (min (length starts) (length ends)))"

definition paged_store_next :: "('b, 'k, 'o, 'q) paged \<Rightarrow> ('b, 'k, 'o, 'q) call list \<Rightarrow> unit res" where
  "paged_store_next p h =
     (case store_run h of
        None \<Rightarrow> Inl StopIteration
      | Some (rs, t) \<Rightarrow>
          if \<not> tr_alive t \<or> pg_layers p < tr_resumed t then Inl StopIteration
          else if tr_resumed t < pg_layers p then store_one_layer p h (tr_resumed t) rs (tr_chunks t)
          else Inr ())"

definition paged_layers ::
    "('b, 'k, 'o, 'q) paged \<Rightarrow> (('b, 'k, 'o, 'q) call list \<Rightarrow> nat \<Rightarrow> 'o list res) \<Rightarrow> ('b, 'k, 'o, 'q) layer_connector" where
  "paged_layers p await =
     \<lparr>lw_ok = True, lw_from_start = paged_store_start p, lw_from_next = paged_store_next p,
      lw_to_start = paged_prepare p, lw_to_send = (\<lambda>h objs. paged_load p h (Some objs)),
      lw_to_next = (\<lambda>h. paged_load p h None), lw_await = await\<rparr>"

section \<open>What the engine relies on\<close>

text \<open>
  The loads of \<open>n\<close> layers are answered: a generator can be made for a non-empty list of chunks, sent the objects
  of \<open>n\<close> layers and resumed once more; nothing is promised beyond that. The backend delivers.
\<close>

definition layers_answer ::
    "nat \<Rightarrow> ('b, 'k, 'o, 'q) api \<Rightarrow> ('b, 'k, 'o, 'q) layer_connector \<Rightarrow> bool" where
  "layers_answer n api l \<longleftrightarrow>
     lw_ok l \<and> (\<forall>h starts ends. starts \<noteq> [] \<longrightarrow> length ends = length starts \<longrightarrow> lw_to_start l h starts ends = Inr ()) \<and>
     (\<forall>h h0 i objs t. load_run h = Some t \<longrightarrow> tr_alive t \<longrightarrow> 0 < tr_resumed t \<longrightarrow> tr_resumed t \<le> n \<longrightarrow>
        lw_await l h0 i = Inr objs \<longrightarrow> lw_to_send l h objs = Inr ()) \<and>
     (\<forall>h t. load_run h = Some t \<longrightarrow> tr_alive t \<longrightarrow> tr_resumed t = n + 1 \<longrightarrow> lw_to_next l h = Inr ()) \<and>
     (\<forall>h i. \<exists>objs. lw_await l h i = Inr objs) \<and> (\<forall>h b r ks. \<exists>i. re_batched_get_later api h b r ks = Inr i)"

text \<open>
  The paged connector keeps this contract when torch, the allocator and the kernels do not fail and the
  objects that are loaded have its memory format.
\<close>

definition paged_ready :: "('b, 'k, 'o, 'q) paged \<Rightarrow> bool" where
  "paged_ready p \<longleftrightarrow> pg_kvcaches p \<and> pg_slots p \<and> pg_sync p \<and> (\<forall>h. pg_setup p h = Inr ()) \<and>
     (\<forall>h starts ends. pg_buffer p h starts ends) \<and> (\<forall>h i x. pg_copy p h i x = Inr ()) \<and> (\<forall>h i. pg_kernel p h i = Inr ())"

lemma load_objects_ok:
  assumes "paged_ready p" "list_all (pg_format p) xs"
  shows "load_objects p h i xs = Inr ()"
  using assms(2) by (induction xs) (use assms(1) in \<open>auto simp: paged_ready_def\<close>)

lemma paged_answers:
  assumes "paged_ready p" "\<And>h i. \<exists>objs. await h i = Inr objs \<and> list_all (pg_format p) objs"
    and "\<And>h b r ks. \<exists>i. re_batched_get_later api h b r ks = Inr i"
  shows "layers_answer (pg_layers p) api (paged_layers p await)"
proof -
  have fmt: "list_all (pg_format p) (take k objs)" if "await h i = Inr objs" for h i objs k
    using assms(2) [of h i] that by (auto simp: list_all_iff dest: in_set_takeD)
  have "paged_prepare p h starts ends = Inr ()" if "starts \<noteq> []" "length ends = length starts" for h starts ends
    using assms(1) that by (auto simp: paged_prepare_def paged_ready_def)
  moreover have "\<exists>objs. await h i = Inr objs" for h i using assms(2) by blast
  ultimately show ?thesis
    using assms(3) load_objects_ok [OF assms(1) fmt] by (auto simp: layers_answer_def paged_layers_def paged_load_def)
qed

text \<open>A call that is no resumption leaves the generator where it stands.\<close>

lemma load_run_Nil [simp]: "load_run [] = None"
  by (simp add: load_run_def)

lemma load_run_append [simp]: "load_run (h @ [c]) = load_step (load_run h) c"
  by (simp add: load_run_def)

lemma load_run_release [simp]: "load_run (h @ map Ref_down xs) = load_run h"
proof (induction xs rule: rev_induct)
  case (snoc x xs)
  then have "load_run ((h @ map Ref_down xs) @ [Ref_down x]) = load_run h"
    unfolding load_run_append by (simp add: load_step_def)
  then show ?case by simp
qed simp

text \<open>
  Resumed once too often the load is at its end: the protocol of the engine uses exactly the resumptions
  there are.
\<close>

lemma paged_load_ends:
  assumes "load_run h = Some t" "pg_layers p + 2 \<le> tr_resumed t"
  shows "paged_load p h objs = Inl StopIteration"
  using assms by (simp add: paged_load_def)

end
