(* ===== verification/Layer_Protocol.thy ===== *)
theory Layer_Protocol
  imports Layer_Connector
begin

text \<open>
  The protocol between the serving engine and the layer-wise generators: how often they can be resumed, what
  they yield, and what happens to the memory objects.
\<close>

section \<open>Running generators\<close>

definition prepend :: "'y list \<Rightarrow> ('y list res \<times> 'g) \<times> 'h \<Rightarrow> ('y list res \<times> 'g) \<times> 'h" where
  "prepend ys r = (case r of ((Inl x, g), h) \<Rightarrow> ((Inl x, g), h) | ((Inr zs, g), h) \<Rightarrow> ((Inr (ys @ zs), g), h))"

lemma prepend_simps [simp]:
  "prepend ys ((Inl x, g), h) = ((Inl x, g), h)" "prepend ys ((Inr zs, g), h) = ((Inr (ys @ zs), g), h)"
  "prepend [] r = r" "prepend xs (prepend ys r) = prepend (xs @ ys) r"
  by (auto simp: prepend_def split: prod.splits sum.splits)

lemma nexts_yielding [simp]: "nexts (Suc n) (yielding y g) h = prepend [y] (nexts n g h)"
  by (simp add: prepend_def split: prod.splits sum.splits)

lemma nexts_ended [simp]: "nexts (Suc n) ended h = ((Inl StopIteration, ended), h)"
  by simp

lemma nexts_raising [simp]: "nexts (Suc n) (raising x) h = ((Inl x, ended), h)"
  by simp

lemma nexts_running_ok: "f h = (Inr v, h') \<Longrightarrow> nexts (Suc n) (running f k) h = nexts (Suc n) (k v) h'"
  by (simp add: next_running)

lemma nexts_running_err: "f h = (Inl x, h') \<Longrightarrow> nexts (Suc n) (running f k) h = ((Inl x, ended), h')"
  by (simp add: next_running)

lemma nexts_running_InrD:
  assumes "nexts (Suc n) (running f k) h = ((Inr ys, g'), h')"
  obtains v h1 where "f h = (Inr v, h1)" "nexts (Suc n) (k v) h1 = ((Inr ys, g'), h')"
proof (cases "f h")
  case (Pair r h1)
  then show thesis
  proof (cases r)
    case (Inl x)
    then show thesis using assms nexts_running_err [of f h x h1 n k] Pair by simp
  next
    case (Inr v)
    then show thesis using assms that nexts_running_ok [of f h v h1 n k] Pair by simp
  qed
qed

lemma prepend_InrD: "prepend ys r = ((Inr zs, g), h) \<Longrightarrow> \<exists>ws. r = ((Inr ws, g), h) \<and> zs = ys @ ws"
  by (auto simp: prepend_def split: prod.splits sum.splits)

lemma nexts_idle_add: "nexts (n + m) (idle n y g) h = prepend (replicate n y) (nexts m g h)"
  unfolding nexts_add nexts_idle prepend_def by (auto split: prod.splits sum.splits)

declare nexts.simps(2) [simp del]

section \<open>Retrieval\<close>

definition awaited_by :: "('b, 'k, 'o, 'q) call \<Rightarrow> 'o list" where
  "awaited_by c = (case c of Above (Await t (Inr objs)) \<Rightarrow> objs | _ \<Rightarrow> [])"

definition awaited :: "('b, 'k, 'o, 'q) call list \<Rightarrow> 'o list" where "awaited h = concat (map awaited_by h)"

definition sent_by :: "('b, 'k, 'o, 'q) call \<Rightarrow> 'o list" where
  "sent_by c = (case c of Above (To_gpu_send objs (Inr _)) \<Rightarrow> objs | _ \<Rightarrow> [])"

definition sent_layers :: "('b, 'k, 'o, 'q) call list \<Rightarrow> 'o list" where "sent_layers h = concat (map sent_by h)"

lemma layer_trace [simp]:
  "awaited [] = []" "awaited (c # cs) = awaited_by c @ awaited cs" "awaited (xs @ ys) = awaited xs @ awaited ys"
  "sent_layers [] = []" "sent_layers (c # cs) = sent_by c @ sent_layers cs" "sent_layers (xs @ ys) = sent_layers xs @ sent_layers ys"
  by (simp_all add: awaited_def sent_layers_def)

lemma layer_trace_release [simp]: "awaited (map Ref_down xs) = []" "sent_layers (map Ref_down xs) = []"
  by (simp_all add: awaited_def sent_layers_def awaited_by_def sent_by_def comp_def)

lemma load_rounds_run:
  assumes "layers_answer layers api l" "map_of (m_backends m) loc = Some b" "length todo = n"
    and "load_run h = Some r" "tr_alive r" "0 < tr_resumed r" "tr_resumed r + n = layers + 1"
  shows "\<exists>objs new r'. (\<forall>p. nexts (n + Suc p) (load_rounds api l m (Some loc) y n todo got k) h =
      prepend (if n = 0 then [] else y # replicate (n - 1) Nothing) (nexts (Suc p) (k (got @ objs)) (h @ new))) \<and>
    awaited new = objs \<and> sent_layers new = objs \<and> released new = [] \<and>
    load_run (h @ new) = Some r' \<and> tr_alive r' \<and> tr_resumed r' = layers + 1"
  using assms(3-7)
proof (induction n arbitrary: todo got y h r)
  case 0
  then show ?case by (intro exI [of _ "[]"] exI [of _ r]) simp
next
  case (Suc n)
  obtain row rest where todo: "todo = row # rest" "length rest = n" using Suc.prems(1) by (cases todo) auto
  obtain t where t: "re_batched_get_later api h b ''fake_lookup_id'' row = Inr t"
    using assms(1) unfolding layers_answer_def by blast
  let ?c = "Batched_get_later b ''fake_lookup_id'' row None (Inr t)"
  obtain objs where objs: "lw_await l (h @ [?c]) t = Inr objs" using assms(1) unfolding layers_answer_def by blast
  let ?a = "Above (Await t (Inr objs))" and ?s = "Above (To_gpu_send objs (Inr ()))"
  let ?h = "h @ [?c, ?a, ?s]"
  have before: "load_run (h @ [?c, ?a]) = Some r"
    using Suc.prems(2) load_run_append [of "h @ [?c]" ?a] by (simp add: load_step_def)
  let ?r = "resumed_with (Inr ()) r"
  have after: "load_run ?h = Some ?r"
    using before load_run_append [of "h @ [?c, ?a]" ?s] by (simp add: load_step_def)
  have r: "tr_alive ?r" "0 < tr_resumed ?r" "tr_resumed ?r + n = layers + 1"
    using Suc.prems(3,5) by (simp_all add: resumed_with_def)
  have "tr_resumed r \<le> layers" using Suc.prems(5) by simp
  then have "lw_to_send l (h @ [?c, ?a]) objs = Inr ()"
    using assms(1) before Suc.prems(3,4) objs unfolding layers_answer_def by blast
  then have send: "call_above (\<lambda>h. lw_to_send l h objs) (To_gpu_send objs) (h @ [?c, ?a]) = (Inr (), ?h)"
    by (simp add: call_above_def ask_def)
  have get: "layerwise_batched_get api m (Some loc) row h = (Inr t, h @ [?c])"
    using assms(2) t by (simp add: layerwise_batched_get_def ask_def)
  have await: "call_above (\<lambda>h. lw_await l h t) (Await t) (h @ [?c]) = (Inr objs, h @ [?c, ?a])"
    using objs by (simp add: call_above_def ask_def)
  obtain objs' new r' where ih: "\<forall>p. nexts (n + Suc p) (load_rounds api l m (Some loc) Nothing n rest (got @ objs) k) ?h =
      prepend (if n = 0 then [] else Nothing # replicate (n - 1) Nothing) (nexts (Suc p) (k ((got @ objs) @ objs')) (?h @ new))"
    "awaited new = objs'" "sent_layers new = objs'" "released new = []"
    "load_run (?h @ new) = Some r'" "tr_alive r'" "tr_resumed r' = layers + 1"
    using Suc.IH [OF todo(2) after r] by blast
  have "nexts (Suc n + Suc p) (load_rounds api l m (Some loc) y (Suc n) todo got k) h =
      prepend (y # replicate n Nothing) (nexts (Suc p) (k (got @ objs @ objs')) (?h @ new))" for p
  proof -
    have "nexts (Suc (n + Suc p)) (load_rounds api l m (Some loc) y (Suc n) todo got k) h =
        prepend [y] (nexts (Suc (n + p)) (running (call_above (\<lambda>h. lw_await l h t) (Await t))
             (\<lambda>objs. running (call_above (\<lambda>h. lw_to_send l h objs) (To_gpu_send objs))
                (\<lambda>_. load_rounds api l m (Some loc) Nothing n rest (got @ objs) k))) (h @ [?c]))"
      unfolding todo(1) load_rounds.simps nexts_running_ok [where f = "layerwise_batched_get api m (Some loc) row", OF get] by simp
    also have "\<dots> = prepend [y] (nexts (n + Suc p) (load_rounds api l m (Some loc) Nothing n rest (got @ objs) k) ?h)"
      unfolding nexts_running_ok [where f = "call_above (\<lambda>h. lw_await l h t) (Await t)", OF await]
        nexts_running_ok [where f = "call_above (\<lambda>h. lw_to_send l h objs) (To_gpu_send objs)", OF send] by simp
    also have "\<dots> = prepend (y # replicate n Nothing) (nexts (Suc p) (k (got @ objs @ objs')) (?h @ new))"
      unfolding ih(1) [rule_format] by (cases n) simp_all
    finally show ?thesis by simp
  qed
  then show ?case
    using ih(2-7)
    by (intro exI [of _ "objs @ objs'"] exI [of _ "[?c, ?a, ?s] @ new"] exI [of _ r']) (simp add: awaited_by_def sent_by_def)
qed

lemma length_py_zip:
  assumes "xss \<noteq> []" "\<forall>xs \<in> set xss. length xs = n"
  shows "length (py_zip xss) = n"
proof -
  have "length ` set xss = {n}" using assms by (cases xss) auto
  then show ?thesis using assms(1) by (simp add: py_zip_def)
qed

text \<open>What the search for the chunks yields.\<close>

definition hits_ok :: "('b, 'k, 'o, 'q) connector \<Rightarrow> nat \<Rightarrow> 'b manager \<Rightarrow> 'k layer_hits \<Rightarrow> bool" where
  "hits_ok g layers m s \<longleftrightarrow>
     length (lh_spans s) = length (lh_keys s) \<and> (\<forall>ks \<in> set (lh_keys s). \<exists>k. ks = g_split g k layers) \<and>
     (lh_keys s \<noteq> [] \<longrightarrow> (\<exists>loc b. lh_location s = Some loc \<and> map_of (m_backends m) loc = Some b))"

lemma contains_loop_in:
  assumes "contains_loop api k pin bs h = (Inr (Some n), h')"
  shows "n \<in> fst ` set bs"
  using assms
proof (induction bs arbitrary: h)
  case (Cons nb bs)
  obtain m b where nb: "nb = (m, b)" by force
  show ?case
  proof (cases "re_contains api h b k (pin \<and> m \<noteq> PD)")
    case (Inl x)
    then show ?thesis using Cons.prems nb by (simp add: then_do_def ask_def)
  next
    case (Inr hit)
    then show ?thesis using Cons nb by (cases hit) (auto simp: then_do_def ask_def ret_def)
  qed
qed (simp add: ret_def)

lemma find_layers_ok:
  assumes "find_layers api g e m cs s h = (Inr s', h')" "hits_ok g (e_layers e) m s"
  shows "hits_ok g (e_layers e) m s'"
  using assms
proof (induction cs arbitrary: s h)
  case (Cons c cs)
  obtain a b k where c: "c = (a, b, k)" by (metis surj_pair)
  obtain k0 h0 found h1 where f: "manager_contains api m k0 (e_retrieve_locations e) False h0 = (Inr found, h1)"
    and rest: "(case found of
             None \<Rightarrow> ret s
           | Some loc \<Rightarrow>
               if loc = [] then ret s
               else if lh_location s \<noteq> None \<and> lh_location s \<noteq> Some loc
                 then fail (AssertionError ''All retrieved keys should be from the same location'')
               else find_layers api g e m cs
                 (s\<lparr>lh_spans := lh_spans s @ [(a, b)], lh_keys := lh_keys s @ [g_split g k (e_layers e)],
                    lh_mask := mark a b (lh_mask s), lh_location := Some loc\<rparr>)) h1 = (Inr s', h')"
    using Cons.prems(1) c by (auto simp: then_do_Inr_iff)
  show ?case
  proof (cases "found = None \<or> found = Some []")
    case True
    then show ?thesis using rest Cons.prems(2) by (auto simp: ret_def)
  next
    case False
    then obtain loc where loc: "found = Some loc" "loc \<noteq> []" by auto
    let ?s = "s\<lparr>lh_spans := lh_spans s @ [(a, b)], lh_keys := lh_keys s @ [g_split g k (e_layers e)],
                    lh_mask := mark a b (lh_mask s), lh_location := Some loc\<rparr>"
    have "loc \<in> fst ` set (get_active_storage_backends m None (e_retrieve_locations e))"
      using f loc(1) contains_loop_in unfolding manager_contains_def by fast
    then have "loc \<in> fst ` set (m_backends m)" by (auto simp: get_active_storage_backends_def)
    then obtain b' where "map_of (m_backends m) loc = Some b'" by (meson map_of_eq_None_iff option.exhaust)
    then have ok: "hits_ok g (e_layers e) m ?s" using Cons.prems(2) by (auto simp: hits_ok_def)
    have "find_layers api g e m cs ?s h1 = (Inr s', h')"
      using rest loc by (auto simp: fail_def split: if_splits)
    from Cons.IH [OF this ok] show ?thesis .
  qed
qed (simp add: ret_def)

definition no_hits :: "nat \<Rightarrow> 'k layer_hits" where
  "no_hits n = \<lparr>lh_spans = [], lh_keys = [], lh_mask = replicate n False, lh_location = None\<rparr>"

text \<open>
  A layer-wise retrieval with hits can be resumed exactly two times more often than there are layers: it yields
  the number of tokens, then nothing, and at the end the mask of the tokens; by then every object it
  has loaded was sent to the connector, layer by layer, and released once.
\<close>

lemma retrieve_layer_protocol:
  assumes "is_healthy e" "e_manager e = Some m" "e_gpu e" "0 < e_layers e" "layers_answer (e_layers e) api l"
    and "\<And>k n. length (g_split g k n) = n"
    and "find_layers api g e m cs (no_hits n) h = (Inr s, h1)" "lh_keys s \<noteq> []"
  shows "\<exists>new. nexts (e_layers e + 2) (retrieve_layer api g l e n (Inr cs)) h =
      ((Inr (Count (length (filter id (lh_mask s))) # replicate (e_layers e) Nothing @ [Mask (lh_mask s)]), ended), h1 @ new) \<and>
    sent_layers new = awaited new \<and> released new = awaited new"
proof -
  have ok: "hits_ok g (e_layers e) m s"
    by (rule find_layers_ok [OF assms(7)]) (simp add: hits_ok_def no_hits_def)
  then obtain loc b where loc: "lh_location s = Some loc" "map_of (m_backends m) loc = Some b"
    using assms(8) by (auto simp: hits_ok_def)
  have "\<forall>ks \<in> set (lh_keys s). length ks = e_layers e" using ok assms(6) by (auto simp: hits_ok_def)
  then have len: "length (py_zip (lh_keys s)) = e_layers e" by (rule length_py_zip [OF assms(8)])
  let ?starts = "map fst (lh_spans s)" and ?ends = "map snd (lh_spans s)"
  let ?y = "Count (length (filter id (lh_mask s)))"
  let ?c = "Above (To_gpu_start ?starts ?ends (Inr ()))"
  let ?k = "\<lambda>got. running (do_each ref_count_down got) (\<lambda>_. last_rounds l (lh_mask s))"
  have find: "find_layers api g e m cs \<lparr>lh_spans = [], lh_keys = [], lh_mask = replicate n False, lh_location = None\<rparr> h = (Inr s, h1)"
    using assms(7) by (simp add: no_hits_def)
  have check: "check_layerwise l h1 = (Inr (), h1)" using assms(5) by (simp add: check_layerwise_def layers_answer_def ret_def)
  have "lh_spans s \<noteq> []" using ok assms(8) by (auto simp: hits_ok_def)
  then have "lw_to_start l h1 ?starts ?ends = Inr ()" using assms(5) by (simp add: layers_answer_def)
  then have start: "call_above (\<lambda>h. lw_to_start l h ?starts ?ends) (To_gpu_start ?starts ?ends) h1 = (Inr (), h1 @ [?c])"
    by (simp add: call_above_def ask_def)
  obtain r where r: "load_run (h1 @ [?c]) = Some r" "tr_alive r" "0 < tr_resumed r" "tr_resumed r + e_layers e = e_layers e + 1"
    by (simp add: load_step_def)
  obtain objs new r' where run: "\<forall>p. nexts (e_layers e + Suc p) (load_rounds api l m (Some loc) ?y (e_layers e) (py_zip (lh_keys s)) [] ?k) (h1 @ [?c]) =
      prepend (if e_layers e = 0 then [] else ?y # replicate (e_layers e - 1) Nothing) (nexts (Suc p) (?k ([] @ objs)) ((h1 @ [?c]) @ new))"
    and new: "awaited new = objs" "sent_layers new = objs" "released new = []"
    and r': "load_run ((h1 @ [?c]) @ new) = Some r'" "tr_alive r'" "tr_resumed r' = e_layers e + 1"
    using load_rounds_run [OF assms(5) loc(2) len r] by blast
  let ?h2 = "(h1 @ [?c]) @ new @ map Ref_down objs"
  let ?d = "Above (To_gpu_next (Inr ()))"
  have "do_each ref_count_down objs ((h1 @ [?c]) @ new) = (Inr (), ?h2)" by (simp add: release_loop)
  then have "nexts (Suc 1) (?k ([] @ objs)) ((h1 @ [?c]) @ new) = nexts (Suc 1) (last_rounds l (lh_mask s)) ?h2"
    by (simp add: nexts_running_ok [where f = "do_each ref_count_down objs"])
  also have "load_run ?h2 = Some r'" using r'(1) load_run_release [of "(h1 @ [?c]) @ new" objs] by simp
  then have "lw_to_next l ?h2 = Inr ()" using assms(5) r'(2,3) by (simp add: layers_answer_def)
  then have "call_above (lw_to_next l) To_gpu_next ?h2 = (Inr (), ?h2 @ [?d])" by (simp add: call_above_def ask_def)
  then have "nexts (Suc 1) (last_rounds l (lh_mask s)) ?h2 = ((Inr [Nothing, Mask (lh_mask s)], ended), ?h2 @ [?d])"
    by (simp add: last_rounds_def nexts_running_ok [where f = "call_above (lw_to_next l) To_gpu_next"])
  finally have last: "nexts (Suc 1) (?k ([] @ objs)) ((h1 @ [?c]) @ new) = ((Inr [Nothing, Mask (lh_mask s)], ended), ?h2 @ [?d])" .
  have "nexts (e_layers e + Suc 1) (retrieve_layer api g l e n (Inr cs)) h =
      nexts (e_layers e + Suc 1) (load_rounds api l m (Some loc) ?y (e_layers e) (py_zip (lh_keys s)) [] ?k) (h1 @ [?c])"
    using assms(1-3,8) loc(1) unfolding retrieve_layer_def
    by (simp add: nexts_running_ok [where f = "find_layers api g e m cs \<lparr>lh_spans = [], lh_keys = [], lh_mask = replicate n False,
          lh_location = None\<rparr>", OF find] nexts_running_ok [where f = "check_layerwise l", OF check]
        nexts_running_ok [where f = "call_above (\<lambda>h. lw_to_start l h ?starts ?ends) (To_gpu_start ?starts ?ends)", OF start])
  also have "\<dots> = ((Inr (?y # replicate (e_layers e) Nothing @ [Mask (lh_mask s)]), ended), ?h2 @ [?d])"
    unfolding run [rule_format] last using assms(4) by (cases "e_layers e") (simp_all add: replicate_append_same)
  finally show ?thesis
    using new by (intro exI [of _ "[?c] @ new @ map Ref_down objs @ [?d]"]) (simp add: awaited_by_def sent_by_def)
qed

text \<open>
  Without a hit the protocol breaks: all rounds up to the last yield nothing, but the last one synchronises a
  generator of the connector that was never created, so the resumption that should deliver the
  mask raises an exception.
\<close>

lemma retrieve_layer_without_hits:
  assumes "is_healthy e" "e_manager e = Some m" "e_gpu e"
    and "find_layers api g e m cs (no_hits n) h = (Inr s, h1)" "lh_keys s = []"
  shows "nexts (e_layers e + 1) (retrieve_layer api g l e n (Inr cs)) h =
      ((Inr (replicate (e_layers e + 1) Nothing), raising (UnboundLocalError ''mem_obj_consumer'')), h1) \<and>
    nexts (e_layers e + 2) (retrieve_layer api g l e n (Inr cs)) h = ((Inl (UnboundLocalError ''mem_obj_consumer''), ended), h1)"
proof -
  let ?idle = "idle (e_layers e) Nothing (yielding Nothing (raising (UnboundLocalError ''mem_obj_consumer'')))"
  have find: "find_layers api g e m cs \<lparr>lh_spans = [], lh_keys = [], lh_mask = replicate n False, lh_location = None\<rparr> h = (Inr s, h1)"
    using assms(4) by (simp add: no_hits_def)
  have "nexts (e_layers e + Suc p) (retrieve_layer api g l e n (Inr cs)) h = nexts (e_layers e + Suc p) ?idle h1" for p
    using assms(1-3,5) unfolding retrieve_layer_def
    by (simp add: nexts_running_ok [where f = "find_layers api g e m cs \<lparr>lh_spans = [], lh_keys = [], lh_mask = replicate n False,
          lh_location = None\<rparr>", OF find])
  from this [of 0] this [of 1] show ?thesis
    by (simp add: nexts_idle_add [where m = "Suc 0", simplified] nexts_idle_add [where m = "Suc (Suc 0)", simplified]
        replicate_append_same)
qed

section \<open>Stores\<close>

definition allocated_by :: "('b, 'k, 'o, 'q) call \<Rightarrow> 'o list" where
  "allocated_by c = (case c of Batched_allocate b q n v w (Inr (Some objs)) \<Rightarrow> objs | _ \<Rightarrow> [])"

definition allocated :: "('b, 'k, 'o, 'q) call list \<Rightarrow> 'o list" where "allocated h = concat (map allocated_by h)"

lemma allocated_simps [simp]:
  "allocated [] = []" "allocated (c # cs) = allocated_by c @ allocated cs" "allocated (xs @ ys) = allocated xs @ allocated ys"
  by (simp_all add: allocated_def)

lemma contains_loop_run:
  assumes "contains_loop api k pin bs h = (r, h')"
  shows "\<exists>new. h' = h @ new \<and> allocated new = [] \<and> released new = [] \<and> handed_out new = []"
  using assms
proof (induction bs arbitrary: h)
  case (Cons nb bs)
  obtain m b where nb: "nb = (m, b)" by force
  let ?c = "Contains b k (pin \<and> m \<noteq> PD) (re_contains api h b k (pin \<and> m \<noteq> PD))"
  have c: "allocated [?c] = []" "released [?c] = []" "handed_out [?c] = []" by (simp_all add: allocated_by_def)
  show ?case
  proof (cases "re_contains api h b k (pin \<and> m \<noteq> PD) = Inr False")
    case True
    then have "contains_loop api k pin bs (h @ [?c]) = (r, h')" using Cons.prems nb by (simp add: then_do_def ask_def)
    from Cons.IH [OF this] obtain new where "h' = (h @ [?c]) @ new" "allocated new = []" "released new = []" "handed_out new = []"
      by blast
    then show ?thesis using c by (intro exI [of _ "?c # new"]) simp
  next
    case False
    then have "h' = h @ [?c]" using Cons.prems nb by (auto simp: then_do_def ask_def ret_def split: sum.splits if_splits)
    then show ?thesis using c by blast
  qed
qed (simp add: ret_def)

lemma first_layer_step: "then_do (first_layer ks) f h = (case ks of [] \<Rightarrow> (Inl IndexError, h) | k # _ \<Rightarrow> f k h)"
  by (simp add: first_layer_def then_do_def fail_def ret_def split: list.splits)

lemma first_layer_Cons: "ks = k0 # rest \<Longrightarrow> then_do (first_layer ks) f h = f k0 h"
  by (simp add: first_layer_step)

definition even_layers :: "nat \<Rightarrow> ('k, 'o) layer_batch \<Rightarrow> bool" where
  "even_layers n s \<longleftrightarrow> length (lb_keys s) = length (lb_objs s) \<and> (\<forall>ks \<in> set (lb_keys s). length ks = n) \<and>
     (\<forall>objs \<in> set (lb_objs s). length objs = n)"

lemma allocate_layers_run:
  assumes "allocate_layers api g e m cs s h = (Inr s', h')" "even_layers (e_layers e) s"
    and "\<And>k n. length (g_split g k n) = n"
    and "\<And>h b q n objs. re_batched_allocate api h b q n = Inr (Some objs) \<Longrightarrow> length objs = n"
  shows "even_layers (e_layers e) s' \<and>
    (\<exists>new objs. h' = h @ new \<and> lb_objs s' = lb_objs s @ objs \<and> allocated new = concat objs \<and> released new = [] \<and> handed_out new = [])"
  using assms(1,2)
proof (induction cs arbitrary: s h)
  case (Cons c cs)
  obtain a b k where c: "c = (a, b, k)" by (metis surj_pair)
  let ?q = "g_layer_layout g (b - a)"
  obtain k0 found h1 where f: "manager_contains api m k0 (e_retrieve_locations e) False h = (Inr found, h1)"
    and rest: "(if found \<noteq> None \<and> found \<noteq> Some [] then allocate_layers api g e m cs s
             else then_do (manager_batched_allocate api m ?q (e_layers e) True (e_force_wait e))
               (\<lambda>got. case got of
                  None \<Rightarrow> ret s
                | Some objs \<Rightarrow>
                    allocate_layers api g e m cs
                      (s\<lparr>lb_starts := lb_starts s @ [a], lb_ends := lb_ends s @ [b],
                         lb_keys := lb_keys s @ [g_split g k (e_layers e)], lb_objs := lb_objs s @ [objs]\<rparr>))) h1 = (Inr s', h')"
  proof (cases "g_split g k (e_layers e)")
    case Nil
    then show thesis using Cons.prems(1) by (simp add: c first_layer_step)
  next
    case (Cons k0 ks)
    note run = Cons.prems(1) [unfolded c allocate_layers.simps first_layer_Cons [OF Cons]]
    show thesis by (rule then_do_InrE [OF run]) (rule that)
  qed
  obtain n1 where n1: "h1 = h @ n1" "allocated n1 = []" "released n1 = []" "handed_out n1 = []"
    using contains_loop_run [OF f [unfolded manager_contains_def]] by blast
  show ?case
  proof (cases "found \<noteq> None \<and> found \<noteq> Some []")
    case True
    then have "allocate_layers api g e m cs s h1 = (Inr s', h')" using rest by simp
    from Cons.IH [OF this Cons.prems(2)] obtain n2 objs where "even_layers (e_layers e) s'" "h' = h1 @ n2"
      "lb_objs s' = lb_objs s @ objs" "allocated n2 = concat objs" "released n2 = []" "handed_out n2 = []" by blast
    then show ?thesis using n1 by (intro conjI exI [of _ "n1 @ n2"] exI [of _ objs]) simp_all
  next
    case False
    note rest' = rest [unfolded if_not_P [OF False]]
    obtain alloc where alloc: "m_allocator m = Some alloc"
      using rest' by (cases "m_allocator m") (auto simp: manager_batched_allocate_def then_do_def fail_def)
    obtain got where got: "re_batched_allocate api h1 alloc ?q (e_layers e) = Inr got"
      using rest' alloc
      by (cases "re_batched_allocate api h1 alloc ?q (e_layers e)") (auto simp: manager_batched_allocate_def then_do_def ask_def)
    let ?c = "Batched_allocate alloc ?q (e_layers e) True (e_force_wait e) (Inr got)"
    show ?thesis
    proof (cases got)
      case None
      then have "s' = s" "h' = h1 @ [?c]"
        using rest' alloc got by (auto simp: manager_batched_allocate_def then_do_def ask_def ret_def)
      then show ?thesis
        using None n1 Cons.prems(2) by (intro conjI exI [of _ "n1 @ [?c]"] exI [of _ "[]"]) (simp_all add: allocated_by_def)
    next
      case (Some objs)
      let ?s = "s\<lparr>lb_starts := lb_starts s @ [a], lb_ends := lb_ends s @ [b],
                         lb_keys := lb_keys s @ [g_split g k (e_layers e)], lb_objs := lb_objs s @ [objs]\<rparr>"
      have run: "allocate_layers api g e m cs ?s (h1 @ [?c]) = (Inr s', h')"
        using rest' alloc got Some by (simp add: manager_batched_allocate_def then_do_def ask_def)
      have "even_layers (e_layers e) ?s"
        using Cons.prems(2) assms(3) assms(4) [of h1 alloc ?q "e_layers e" objs] got Some by (auto simp: even_layers_def)
      from Cons.IH [OF run this] obtain n2 objs' where "even_layers (e_layers e) s'" "h' = (h1 @ [?c]) @ n2"
        "lb_objs s' = lb_objs ?s @ objs'" "allocated n2 = concat objs'" "released n2 = []" "handed_out n2 = []" by blast
      then show ?thesis
        using n1 Some
        by (intro conjI exI [of _ "n1 @ [?c] @ n2"] exI [of _ "objs # objs'"]) (simp_all add: allocated_by_def)
    qed
  qed
qed (auto simp: ret_def)

lemma mset_concat_rows: "mset (concat (map (\<lambda>i. f i # r i) is)) = mset (map f is) + mset (concat (map r is))"
  by (induction "is") simp_all

lemma concat_map_empty: "concat (map (\<lambda>i. []) is) = []"
  by (induction "is") simp_all

lemma mset_py_zip:
  assumes "xss \<noteq> []" "\<forall>xs \<in> set xss. length xs = n"
  shows "mset (concat (py_zip xss)) = mset (concat xss)"
proof -
  have "length ` set xss = {n}" using assms by (cases xss) auto
  then have "py_zip xss = map (\<lambda>i. map (\<lambda>xs. xs ! i) xss) [0..<n]" using assms(1) by (simp add: py_zip_def)
  moreover have "mset (concat (map (\<lambda>i. map (\<lambda>xs. xs ! i) yss) [0..<n])) = mset (concat yss)"
    if "\<forall>xs \<in> set yss. length xs = n" for yss
    using that
  proof (induction yss)
    case (Cons ys yss)
    have "map ((!) ys) [0..<n] = ys" using Cons.prems map_nth [of ys] by simp
    then show ?case using Cons mset_concat_rows [of "(!) ys" "\<lambda>i. map (\<lambda>xs. xs ! i) yss" "[0..<n]"] by simp
  qed (simp add: concat_map_empty)
  ultimately show ?thesis using assms(2) by simp
qed

text \<open>Every round puts the objects of its layer; the put releases them.\<close>

lemma store_rounds_run:
  assumes "nexts (Suc n) (store_rounds api l e m n todo objs (yielding () ended)) h = ((Inr ys, g'), h')"
    and "length todo = n" "length objs = n"
  shows "\<exists>new. h' = h @ new \<and> mset (released new) = mset (concat objs) + mset (handed_out new)"
  using assms
proof (induction n arbitrary: todo objs h ys)
  case 0
  then have "h' = h" by (simp add: nexts.simps(2))
  then show ?case using 0 by simp
next
  case (Suc n)
  obtain row rest where todo: "todo = row # rest" "length rest = n" using Suc.prems(2) by (cases todo) auto
  obtain xs xss where objs: "objs = xs # xss" "length xss = n" using Suc.prems(3) by (cases objs) auto
  let ?put = "batched_put api m row xs None (e_store_location e) None"
  let ?k = "store_rounds api l e m n rest xss (yielding () ended)"
  have "prepend [()] (nexts (Suc n) (running (call_above (lw_from_next l) From_gpu_next) (\<lambda>_. running ?put (\<lambda>_. ?k))) h) = ((Inr ys, g'), h')"
    using Suc.prems(1) by (simp add: todo(1) objs(1))
  then obtain ws where "nexts (Suc n) (running (call_above (lw_from_next l) From_gpu_next) (\<lambda>_. running ?put (\<lambda>_. ?k))) h = ((Inr ws, g'), h')"
    by (auto dest: prepend_InrD)
  then obtain h1 where f: "call_above (lw_from_next l) From_gpu_next h = (Inr (), h1)"
    and run1: "nexts (Suc n) (running ?put (\<lambda>_. ?k)) h1 = ((Inr ws, g'), h')"
    by (rule nexts_running_InrD) simp
  obtain h2 where p: "?put h1 = (Inr (), h2)" and run2: "nexts (Suc n) ?k h2 = ((Inr ws, g'), h')"
    by (rule nexts_running_InrD [OF run1]) simp
  let ?c = "Above (From_gpu_next (Inr ()))"
  have h1: "h1 = h @ [?c]" using f by (auto simp: call_above_def ask_def)
  from batched_put_run [OF p] obtain n1 where n1: "h2 = h1 @ n1" "mset (released n1) = mset xs + mset (handed_out n1)" by blast
  from Suc.IH [OF run2 todo(2) objs(2)] obtain n2 where n2: "h' = h2 @ n2"
    "mset (released n2) = mset (concat xss) + mset (handed_out n2)" by blast
  show ?case
    using n1 n2 h1 by (intro exI [of _ "[?c] @ n1 @ n2"]) (simp add: objs(1) ac_simps)
qed

definition no_layers :: "('k, 'o) layer_batch" where
  "no_layers = \<lparr>lb_starts = [], lb_ends = [], lb_keys = [], lb_objs = []\<rparr>"

text \<open>
  C16: A layer-wise store that is resumed to its end, once more often than there are layers, has released every
  object it has allocated, of all chunks and layers, and every copy made on the way, exactly once.
\<close>

theorem store_layer_releases:
  assumes "nexts (e_layers e + 1) (store_layer api g l e (Inr cs)) h = ((Inr ys, g'), h')"
    and "\<And>k n. length (g_split g k n) = n"
    and "\<And>h b q n objs. re_batched_allocate api h b q n = Inr (Some objs) \<Longrightarrow> length objs = n"
  shows "\<exists>alloc new. h' = h @ alloc @ new \<and> released alloc = [] \<and> handed_out alloc = [] \<and>
    mset (released new) = mset (allocated alloc) + mset (handed_out new)"
proof -
  have run: "nexts (Suc (e_layers e)) (store_layer api g l e (Inr cs)) h = ((Inr ys, g'), h')" using assms(1) by simp
  have healthy: "is_healthy e" using run by (cases "is_healthy e") (simp_all add: store_layer_def)
  obtain m where m: "e_manager e = Some m" using run healthy by (cases "e_manager e") (simp_all add: store_layer_def)
  have gpu: "e_gpu e" using run healthy m by (cases "e_gpu e") (simp_all add: store_layer_def)
  have "\<not> engine_is_frozen e"
  proof
    assume "engine_is_frozen e"
    then have "nexts (e_layers e + Suc 0) (idle (e_layers e) () ended) h = ((Inr ys, g'), h')"
      using run healthy m gpu by (simp add: store_layer_def)
    then show False unfolding nexts_idle_add by simp
  qed
  then obtain k where k: "nexts (Suc (e_layers e)) (running (allocate_layers api g e m cs no_layers) k) h = ((Inr ys, g'), h')"
    and kdef: "k = (\<lambda>s. if lb_keys s = [] then idle (e_layers e) () (yielding () ended)
         else running (check_layerwise l)
           (\<lambda>_. running (call_above (\<lambda>h. lw_from_start l h (py_zip (lb_objs s)) (lb_starts s) (lb_ends s))
                 (From_gpu_start (py_zip (lb_objs s)) (lb_starts s) (lb_ends s)))
              (\<lambda>_. store_rounds api l e m (e_layers e) (py_zip (lb_keys s)) (py_zip (lb_objs s)) (yielding () ended))))"
    using run healthy m gpu by (simp add: store_layer_def no_layers_def)
  obtain s h1 where a: "allocate_layers api g e m cs no_layers h = (Inr s, h1)"
    and ks: "nexts (Suc (e_layers e)) (k s) h1 = ((Inr ys, g'), h')" by (rule nexts_running_InrD [OF k])
  have "even_layers (e_layers e) (no_layers :: ('c, 'd) layer_batch)" by (simp add: even_layers_def no_layers_def)
  then have "even_layers (e_layers e) s \<and>
    (\<exists>new objs. h1 = h @ new \<and> lb_objs s = lb_objs no_layers @ objs \<and> allocated new = concat objs \<and> released new = [] \<and> handed_out new = [])"
    using allocate_layers_run [OF a] assms(2,3) by (auto simp: even_layers_def no_layers_def)
  then obtain alloc where even: "even_layers (e_layers e) s" and al: "h1 = h @ alloc" "allocated alloc = concat (lb_objs s)"
    "released alloc = []" "handed_out alloc = []" by (auto simp: no_layers_def)
  show ?thesis
  proof (cases "lb_keys s = []")
    case True
    then have "lb_objs s = []" using even by (simp add: even_layers_def)
    moreover have "nexts (e_layers e + Suc 0) (idle (e_layers e) () (yielding () ended)) h1 = ((Inr ys, g'), h')"
      using ks True by (simp add: kdef)
    then have "h' = h1" unfolding nexts_idle_add by simp
    ultimately show ?thesis using al by (intro exI [of _ alloc] exI [of _ "[]"]) simp
  next
    case False
    let ?rows = "py_zip (lb_objs s)"
    have ne: "lb_objs s \<noteq> []" using False even by (auto simp: even_layers_def)
    have len: "length (py_zip (lb_keys s)) = e_layers e" "length ?rows = e_layers e"
      using even False ne by (auto simp: even_layers_def intro!: length_py_zip)
    have "nexts (Suc (e_layers e)) (running (check_layerwise l)
           (\<lambda>_. running (call_above (\<lambda>h. lw_from_start l h ?rows (lb_starts s) (lb_ends s))
                 (From_gpu_start ?rows (lb_starts s) (lb_ends s)))
              (\<lambda>_. store_rounds api l e m (e_layers e) (py_zip (lb_keys s)) ?rows (yielding () ended)))) h1 = ((Inr ys, g'), h')"
      using ks False by (simp add: kdef)
    then obtain h2 where c: "check_layerwise l h1 = (Inr (), h2)"
      and run2: "nexts (Suc (e_layers e)) (running (call_above (\<lambda>h. lw_from_start l h ?rows (lb_starts s) (lb_ends s))
                 (From_gpu_start ?rows (lb_starts s) (lb_ends s)))
              (\<lambda>_. store_rounds api l e m (e_layers e) (py_zip (lb_keys s)) ?rows (yielding () ended))) h2 = ((Inr ys, g'), h')"
      by (rule nexts_running_InrD) simp
    have h2: "h2 = h1" using c by (auto simp: check_layerwise_def ret_def fail_def split: if_splits)
    obtain h3 where f: "call_above (\<lambda>h. lw_from_start l h ?rows (lb_starts s) (lb_ends s)) (From_gpu_start ?rows (lb_starts s) (lb_ends s)) h2 = (Inr (), h3)"
      and run3: "nexts (Suc (e_layers e)) (store_rounds api l e m (e_layers e) (py_zip (lb_keys s)) ?rows (yielding () ended)) h3 = ((Inr ys, g'), h')"
      by (rule nexts_running_InrD [OF run2]) simp
    let ?c = "Above (From_gpu_start ?rows (lb_starts s) (lb_ends s) (Inr ()))"
    have h3: "h3 = h1 @ [?c]" using f h2 by (auto simp: call_above_def ask_def)
    from store_rounds_run [OF run3 len] obtain new where new: "h' = h3 @ new"
      "mset (released new) = mset (concat ?rows) + mset (handed_out new)" by blast
    have "mset (concat ?rows) = mset (concat (lb_objs s))"
      using even by (intro mset_py_zip [OF ne, of "e_layers e"]) (simp add: even_layers_def)
    then show ?thesis using al h3 new by (intro exI [of _ alloc] exI [of _ "?c # new"]) simp
  qed
qed

text \<open>
  In freeze mode the store yields once less often than its callers resume it: the resumption that
  ends the step raises a \<^verbatim>\<open>StopIteration\<close>, although the rounds are there to avoid it.
\<close>

lemma frozen_store_layer_stops_early:
  assumes "is_healthy e" "e_gpu e" "engine_is_frozen e"
  shows "nexts (e_layers e) (store_layer api g l e chunks) h = ((Inr (replicate (e_layers e) ()), ended), h) \<and>
    nexts (e_layers e + 1) (store_layer api g l e chunks) h = ((Inl StopIteration, ended), h)"
proof -
  obtain m where "e_manager e = Some m" using assms(3) by (cases "e_manager e") (simp_all add: engine_is_frozen_def)
  then have "store_layer api g l e chunks = idle (e_layers e) () ended" using assms by (simp add: store_layer_def)
  then show ?thesis using nexts_idle_add [of "e_layers e" 1 "()" ended h] by simp
qed

section \<open>Examples\<close>

text \<open>Two layers; the first chunk is in the CPU cache, the second nowhere.\<close>

definition demo_paged :: "(nat, nat, nat, unit) paged" where
  "demo_paged =
     \<lparr>pg_layers = 2, pg_kvcaches = True, pg_slots = True, pg_sync = True, pg_use_gpu = True, pg_setup = (\<lambda>h. Inr ()),
      pg_buffer = (\<lambda>h starts ends. True), pg_format = (\<lambda>x. x \<noteq> 0), pg_tensor = (\<lambda>x. True),
      pg_copy = (\<lambda>h i x. Inr ()), pg_kernel = (\<lambda>h i. Inr ())\<rparr>"

definition demo_layers :: "(nat, nat, nat, unit) layer_connector" where
  "demo_layers = paged_layers demo_paged (\<lambda>h t. Inr [t + 50])"

definition demo_layer_store_api :: "(nat, nat, nat, unit) api" where
  "demo_layer_store_api = demo_api\<lparr>re_batched_allocate := (\<lambda>h b q n. Inr (Some (map (\<lambda>i. 200 + i) [0..<n])))\<rparr>"

lemma demo_engine_facts:
  "is_healthy demo_engine" "e_manager demo_engine = Some demo_manager" "e_gpu demo_engine" "e_layers demo_engine = 2"
  by (simp_all add: is_healthy_def demo_engine_def)

lemma demo_split: "length (g_split demo_connector k n) = n"
  by (simp add: demo_connector_def)

lemma demo_layers_answer: "layers_answer (e_layers demo_engine) demo_api demo_layers"
proof -
  have "layers_answer (pg_layers demo_paged) demo_api demo_layers"
    unfolding demo_layers_def by (rule paged_answers) (simp_all add: demo_paged_def paged_ready_def demo_api_def)
  then show ?thesis by (simp add: demo_engine_facts demo_paged_def)
qed

lemmas demo_find_defs =
  first_layer_def manager_contains_def get_active_storage_backends_def active_backend_def demo_manager_def demo_holds_def
  demo_engine_def demo_connector_def demo_api_def then_do_def ask_def ret_def mark_def no_hits_def

lemma demo_find:
  "\<exists>h1. find_layers demo_api demo_connector demo_engine demo_manager [(0, 2, 0), (2, 4, 1)] (no_hits 4) [] =
     (Inr \<lparr>lh_spans = [(0, 2)], lh_keys = [[0, 1]], lh_mask = [True, True, False, False], lh_location = Some LocalCPU\<rparr>, h1)"
  by (simp add: demo_find_defs eval_nat_numeral upt_rec)

lemma demo_find_nothing:
  "\<exists>h1. find_layers demo_api demo_connector demo_engine demo_manager [(0, 2, 1)] (no_hits 2) [] = (Inr (no_hits 2), h1)"
  by (simp add: demo_find_defs eval_nat_numeral upt_rec)

lemma demo_store_layers:
  "\<exists>g' h'. nexts 3 (store_layer demo_layer_store_api demo_connector demo_layers demo_engine (Inr [(0, 2, 0), (2, 4, 1)])) [] =
     ((Inr [(), (), ()], g'), h')"
  by (simp add: store_layer_def is_healthy_def engine_is_frozen_def is_frozen_def manager_batched_allocate_def check_layerwise_def
      call_above_def py_zip_def demo_layers_def paged_layers_def paged_store_start_def paged_store_next_def paged_prepare_def
      store_one_layer_def demo_paged_def store_run_def store_step_def resumed_with_def demo_layer_store_api_def demo_find_defs nexts.simps(2) next_running
      batched_put_def objects_for_def submit_to_def allocate_and_copy_objects_def ref_count_down_def dict_put_def
      dict_objects_def Let_def eval_nat_numeral upt_rec)

theorem store_layer_releases_witness:
  "\<exists>g' alloc new. nexts 3 (store_layer demo_layer_store_api demo_connector demo_layers demo_engine (Inr [(0, 2, 0), (2, 4, 1)])) [] =
     ((Inr [(), (), ()], g'), alloc @ new) \<and> mset (released new) = mset (allocated alloc) + mset (handed_out new)"
proof -
  obtain g' h' where r: "nexts 3 (store_layer demo_layer_store_api demo_connector demo_layers demo_engine (Inr [(0, 2, 0), (2, 4, 1)])) [] =
     ((Inr [(), (), ()], g'), h')" using demo_store_layers by blast
  have r3: "nexts (e_layers demo_engine + 1)
      (store_layer demo_layer_store_api demo_connector demo_layers demo_engine (Inr [(0, 2, 0), (2, 4, 1)])) [] = ((Inr [(), (), ()], g'), h')"
    using r by (simp add: demo_engine_facts)
  have "\<exists>alloc new. h' = [] @ alloc @ new \<and> released alloc = [] \<and> handed_out alloc = [] \<and>
      mset (released new) = mset (allocated alloc) + mset (handed_out new)"
    by (rule store_layer_releases [OF r3 demo_split]) (auto simp: demo_layer_store_api_def)
  then obtain alloc new where "h' = [] @ alloc @ new"
    "mset (released new) = mset (allocated alloc) + mset (handed_out new)" by blast
  then show ?thesis using r by auto
qed

end
