(* ===== verification/Vllm_Layers.thy ===== *)
theory Vllm_Layers
  imports Vllm_Worker Layer_Protocol
begin

text \<open>
  The layer-wise side of the worker of the vLLM adapter (\<^verbatim>\<open>integration/vllm/vllm_v1_adapter.py\<close>): it drives
  the generators of the cache engine, two rounds when the load starts and one per attention layer, and
  one store round per layer and one at the end of the step.
\<close>

section \<open>Loads\<close>

text \<open>
  The generators that are running, and the current layer. \<open>blend\<close> is the call of LMCache's blender, which
  takes the place of a load if blending is enabled; \<open>mk\<close> makes the generator of a request, the engine's \<open>retrieve_layer\<close> or \<open>store_layer\<close> with its arguments.
\<close>

record 'c layer_worker =
  wk_retrievers :: "(layer_yield, 'c) generator list"
  wk_current :: nat
  wk_storers :: "(string \<times> (unit, 'c) generator) list"

text \<open>The first two rounds of a generator.\<close>

definition begin_load ::
    "(layer_yield, 'c) generator \<Rightarrow> 'c layer_worker \<Rightarrow> 'c list \<Rightarrow> (unit res \<times> 'c layer_worker) \<times> 'c list" where
  "begin_load g w h =
     (case nexts 2 g h of
        ((Inl x, g'), h') \<Rightarrow> ((Inl x, w), h')
      | ((Inr ys, g'), h') \<Rightarrow> ((Inr (), w\<lparr>wk_retrievers := wk_retrievers w @ [g']\<rparr>), h'))"

fun begin_loads ::
    "'v adapter \<Rightarrow> ('v load_call \<Rightarrow> (unit, 'c) act) \<Rightarrow> ('v load_call \<Rightarrow> (layer_yield, 'c) generator) \<Rightarrow> 'v req_meta list \<Rightarrow> 'c layer_worker \<Rightarrow> 'c list \<Rightarrow>
     (unit res \<times> 'c layer_worker) \<times> 'c list" where
  "begin_loads a blend mk [] w h = ((Inr (), w), h)"
| "begin_loads a blend mk (r # rs) w h =
     (case rm_load r of
        None \<Rightarrow> begin_loads a blend mk rs w h
      | Some spec \<Rightarrow>
          if \<not> ls_can_load spec then begin_loads a blend mk rs w h
          else (case load_call_of a r spec of
            Inl x \<Rightarrow> ((Inl x, w), h)
          | Inr call \<Rightarrow>
              if a_blending a then
                (case blend call h of
                   (Inl x, h') \<Rightarrow> ((Inl x, w), h')
                 | (Inr _, h') \<Rightarrow> begin_loads a blend mk rs w h')
              else (case begin_load (mk call) w h of
                 ((Inl x, w'), h') \<Rightarrow> ((Inl x, w'), h')
               | ((Inr _, w'), h') \<Rightarrow> begin_loads a blend mk rs w' h')))"

definition start_layer_loads ::
    "'v adapter \<Rightarrow> ('v load_call \<Rightarrow> (unit, 'c) act) \<Rightarrow> ('v load_call \<Rightarrow> (layer_yield, 'c) generator) \<Rightarrow> 'v req_meta list \<Rightarrow> 'c layer_worker \<Rightarrow> 'c list \<Rightarrow>
     (unit res \<times> 'c layer_worker) \<times> 'c list" where
  "start_layer_loads a blend mk rs w h = begin_loads a blend mk rs (w\<lparr>wk_retrievers := [], wk_current := 0\<rparr>) h"

text \<open>One round of every generator; in the last layer each has to yield something.\<close>

fun round_each ::
    "bool \<Rightarrow> (layer_yield, 'c) generator list \<Rightarrow> 'c list \<Rightarrow> (unit res \<times> (layer_yield, 'c) generator list) \<times> 'c list" where
  "round_each final [] h = ((Inr (), []), h)"
| "round_each final (g # gs) h =
     (case next_of g h of
        ((Inl x, g'), h') \<Rightarrow> ((Inl x, g' # gs), h')
      | ((Inr y, g'), h') \<Rightarrow>
          if final \<and> y = Nothing then ((Inl (AssertionError ''ret_token_mask''), g' # gs), h')
          else (case round_each final gs h' of ((r, gs'), h'') \<Rightarrow> ((r, g' # gs'), h'')))"

definition wait_for_layer_load :: "nat \<Rightarrow> 'c layer_worker \<Rightarrow> 'c list \<Rightarrow> (unit res \<times> 'c layer_worker) \<times> 'c list" where
  "wait_for_layer_load layers w h =
     (case round_each (wk_current w + 1 = layers) (wk_retrievers w) h of
        ((Inl x, gs), h') \<Rightarrow> ((Inl x, w\<lparr>wk_retrievers := gs\<rparr>), h')
      | ((Inr _, gs), h') \<Rightarrow>
          ((Inr (), w\<lparr>wk_retrievers := gs, wk_current := (if gs = [] then wk_current w else wk_current w + 1)\<rparr>), h'))"

text \<open>The calls of a forward pass: one per layer, up to the first exception.\<close>

fun repeat_call ::
    "nat \<Rightarrow> ('w \<Rightarrow> 'c list \<Rightarrow> (unit res \<times> 'w) \<times> 'c list) \<Rightarrow> 'w \<Rightarrow> 'c list \<Rightarrow> (unit res \<times> 'w) \<times> 'c list" where
  "repeat_call 0 f w h = ((Inr (), w), h)"
| "repeat_call (Suc n) f w h =
     (case f w h of
        ((Inl x, w'), h') \<Rightarrow> ((Inl x, w'), h')
      | ((Inr _, w'), h') \<Rightarrow> repeat_call n f w' h')"

section \<open>Saves\<close>

text \<open>
  The arguments of a layer-wise store, or \<open>None\<close> if there is nothing to store. A producer stores from the
  start, without looking at the save specification.
\<close>

definition layer_store_call :: "'v adapter \<Rightarrow> 'v req_meta \<Rightarrow> 'v store_call option res" where
  "layer_store_call a r =
     (if length (rm_slots r) \<noteq> length (rm_tokens r) then Inl (AssertionError ''slot_mapping'')
      else
        let call = (\<lambda>skip. \<lparr>sc_tokens = rm_tokens r, sc_mask = mask_from skip (length (rm_tokens r)), sc_slots = rm_slots r,
                     sc_offset = skip, sc_disagg = None, sc_configs = None, sc_id = rm_id r\<rparr>)
        in if a_role a = ''kv_producer'' then Inr (Some (call 0))
           else (case rm_save r of
             None \<Rightarrow> Inl (AssertionError ''save_spec'')
           | Some s \<Rightarrow>
               if sv_skip s = int (length (rm_tokens r)) then Inr None
               else Inr (Some (call (align_down (sv_skip s) (a_chunk a))))))"

definition save_round ::
    "string \<Rightarrow> (unit, 'c) generator \<Rightarrow> 'c layer_worker \<Rightarrow> 'c list \<Rightarrow> (unit res \<times> 'c layer_worker) \<times> 'c list" where
  "save_round i g w h =
     (case next_of g h of ((r, g'), h') \<Rightarrow>
        ((case r of Inl x \<Rightarrow> Inl x | Inr _ \<Rightarrow> Inr (), w\<lparr>wk_storers := dict_put i g' (wk_storers w)\<rparr>), h'))"

fun save_layer_each ::
    "'v adapter \<Rightarrow> ('v store_call \<Rightarrow> (unit, 'c) generator) \<Rightarrow> 'v req_meta list \<Rightarrow> 'c layer_worker \<Rightarrow> 'c list \<Rightarrow>
     (unit res \<times> 'c layer_worker) \<times> 'c list" where
  "save_layer_each a mk [] w h = ((Inr (), w), h)"
| "save_layer_each a mk (r # rs) w h =
     (if (case rm_save r of None \<Rightarrow> True | Some s \<Rightarrow> \<not> sv_can s) \<and> a_role a \<noteq> ''kv_producer'' then save_layer_each a mk rs w h
      else case (case map_of (wk_storers w) (rm_id r) of
             Some g \<Rightarrow> Inr (Some g)
           | None \<Rightarrow> (case layer_store_call a r of
               Inl x \<Rightarrow> Inl x
             | Inr None \<Rightarrow> Inr None
             | Inr (Some call) \<Rightarrow> Inr (Some (mk call)))) of
        Inl x \<Rightarrow> ((Inl x, w), h)
      | Inr None \<Rightarrow> save_layer_each a mk rs w h
      | Inr (Some g) \<Rightarrow>
          (case save_round (rm_id r) g w h of
             ((Inl x, w'), h') \<Rightarrow> ((Inl x, w'), h')
           | ((Inr _, w'), h') \<Rightarrow> save_layer_each a mk rs w' h'))"

definition save_kv_layer ::
    "'v adapter \<Rightarrow> ('v store_call \<Rightarrow> (unit, 'c) generator) \<Rightarrow> 'v req_meta list \<Rightarrow> 'c layer_worker \<Rightarrow> 'c list \<Rightarrow>
     (unit res \<times> 'c layer_worker) \<times> 'c list" where
  "save_kv_layer a mk rs w h = (if a_role a = ''kv_consumer'' then ((Inr (), w), h) else save_layer_each a mk rs w h)"

text \<open>The end of the step: the last round of each store, then the pins of its look-up are given back.\<close>

fun finish_saves ::
    "(string \<Rightarrow> 'e \<Rightarrow> 'c list \<Rightarrow> (unit res \<times> 'e) \<times> 'c list) \<Rightarrow> 'v req_meta list \<Rightarrow> 'c layer_worker \<times> 'e \<Rightarrow> 'c list \<Rightarrow>
     (unit res \<times> 'c layer_worker \<times> 'e) \<times> 'c list" where
  "finish_saves unpin [] we h = ((Inr (), we), h)"
| "finish_saves unpin (r # rs) (w, e) h =
     (let w' = w\<lparr>wk_storers := dict_del (rm_id r) (wk_storers w)\<rparr> in
      case (case map_of (wk_storers w) (rm_id r) of
              None \<Rightarrow> (Inr (), h)
            | Some g \<Rightarrow> (case next_of g h of ((Inl x, g'), h') \<Rightarrow> (Inl x, h') | ((Inr _, g'), h') \<Rightarrow> (Inr (), h'))) of
        (Inl x, h1) \<Rightarrow> ((Inl x, w', e), h1)
      | (Inr _, h1) \<Rightarrow>
          (case unpin (rm_id r) e h1 of
             ((Inl x, e'), h2) \<Rightarrow> ((Inl x, w', e'), h2)
           | ((Inr _, e'), h2) \<Rightarrow> finish_saves unpin rs (w', e') h2))"

definition wait_for_layer_saves ::
    "'v adapter \<Rightarrow> (string \<Rightarrow> 'e \<Rightarrow> 'c list \<Rightarrow> (unit res \<times> 'e) \<times> 'c list) \<Rightarrow> 'v req_meta list \<Rightarrow> 'c layer_worker \<times> 'e \<Rightarrow> 'c list \<Rightarrow>
     (unit res \<times> 'c layer_worker \<times> 'e) \<times> 'c list" where
  "wait_for_layer_saves a unpin rs we h = (if a_role a = ''kv_consumer'' then ((Inr (), we), h) else finish_saves unpin rs we h)"

section \<open>A forward pass\<close>


text \<open>If the generator raises on the way, so do the waits.\<close>

lemma waits_raise:
  assumes "nexts n g h = ((Inr ys, g'), h')" "next_of g' h' = ((Inl x, g''), h'')" "wk_retrievers w = [g]"
    and "wk_current w + Suc n = layers"
  shows "\<exists>w'. repeat_call (Suc n) (wait_for_layer_load layers) w h = ((Inl x, w'), h'')"
  using assms
proof (induction n arbitrary: g h ys w)
  case 0
  then show ?case by (simp add: wait_for_layer_load_def)
next
  case (Suc n)
  obtain r g1 h1 where step: "next_of g h = ((r, g1), h1)" by (metis prod.exhaust)
  obtain y where y: "r = Inr y" using Suc.prems(1) step by (cases r) (simp_all add: nexts.simps(2))
  obtain zs where rest: "nexts n g1 h1 = ((Inr zs, g'), h')"
    using Suc.prems(1) step y by (auto simp: nexts.simps(2) split: prod.splits sum.splits)
  have "wk_current w + 1 \<noteq> layers" using Suc.prems(4) by simp
  let ?w = "w\<lparr>wk_retrievers := [g1], wk_current := wk_current w + 1\<rparr>"
  have "wait_for_layer_load layers w h = ((Inr (), ?w), h1)"
    using step y Suc.prems(3) \<open>wk_current w + 1 \<noteq> layers\<close> by (simp add: wait_for_layer_load_def)
  moreover from Suc.IH [OF rest Suc.prems(2), of ?w] Suc.prems(4) obtain w' where
    "repeat_call (Suc n) (wait_for_layer_load layers) ?w h1 = ((Inl x, w'), h'')" by auto
  ultimately show ?case by simp
qed

text \<open>Before the last layer every wait returns if the generator yields.\<close>

lemma waits_before:
  assumes "nexts n g h = ((Inr ys, g'), h')" "wk_retrievers w = [g]" "wk_current w + n < layers" "k \<le> n"
  shows "\<exists>w' h''. repeat_call k (wait_for_layer_load layers) w h = ((Inr (), w'), h'')"
  using assms
proof (induction k arbitrary: n g h ys w)
  case 0
  then show ?case by simp
next
  case (Suc k)
  obtain n1 where n: "n = Suc n1" using Suc.prems(4) by (cases n) auto
  obtain r g1 h1 where step: "next_of g h = ((r, g1), h1)" by (metis prod.exhaust)
  obtain y where y: "r = Inr y" using Suc.prems(1) step n by (cases r) (simp_all add: nexts.simps(2))
  obtain zs where rest: "nexts n1 g1 h1 = ((Inr zs, g'), h')"
    using Suc.prems(1) step y n by (auto simp: nexts.simps(2) split: prod.splits sum.splits)
  let ?w = "w\<lparr>wk_retrievers := [g1], wk_current := wk_current w + 1\<rparr>"
  have "wk_current w + 1 \<noteq> layers" using Suc.prems(3) n by simp
  then have "wait_for_layer_load layers w h = ((Inr (), ?w), h1)"
    using step y Suc.prems(2) by (simp add: wait_for_layer_load_def)
  moreover have "wk_current ?w + n1 < layers" "k \<le> n1" using Suc.prems(3,4) n by simp_all
  then obtain w' h'' where "repeat_call k (wait_for_layer_load layers) ?w h1 = ((Inr (), w'), h'')"
    using Suc.IH [OF rest, of ?w] by auto
  ultimately show ?case by simp
qed

lemma begin_loads_one:
  assumes "rm_load r = Some spec" "ls_can_load spec" "load_call_of a r spec = Inr call" "\<not> a_blending a"
    and "nexts 2 (mk call) h = ((Inr ys, g'), h')"
  shows "start_layer_loads a blend mk [r] w h = ((Inr (), w\<lparr>wk_retrievers := [g'], wk_current := 0\<rparr>), h')"
  using assms by (simp add: start_layer_loads_def begin_load_def)

section \<open>Concrete requests\<close>


definition demo_load_nothing :: "bool load_call \<Rightarrow> (layer_yield, (nat, nat, nat, unit) call) generator" where
  "demo_load_nothing call = retrieve_layer demo_api demo_connector demo_layers demo_engine 2 (Inr [(0, 2, 1)])"

definition demo_save :: "bool store_call \<Rightarrow> (unit, (nat, nat, nat, unit) call) generator" where
  "demo_save call = store_layer demo_layer_store_api demo_connector demo_layers (engine_freeze True demo_engine) (Inr [(0, 2, 0)])"

definition no_generators :: "'c layer_worker" where
  "no_generators = \<lparr>wk_retrievers = [], wk_current = 0, wk_storers = []\<rparr>"

lemma demo_load_call:
  "\<exists>spec call. rm_load demo_meta = Some spec \<and> ls_can_load spec \<and> load_call_of demo_adapter demo_meta spec = Inr call"
  by (simp add: load_call_of_def demo_meta_def Let_def)

definition demo_save_meta :: "bool req_meta" where
  "demo_save_meta = demo_meta\<lparr>rm_save := Some \<lparr>sv_skip = 0, sv_can = True\<rparr>\<rparr>"

lemma demo_save_call:
  "\<exists>sv call. rm_save demo_save_meta = Some sv \<and> sv_can sv \<and> layer_store_call demo_adapter demo_save_meta = Inr (Some call)"
  by (simp add: layer_store_call_def demo_save_meta_def demo_meta_def demo_adapter_def Let_def)


lemma demo_frozen:
  "is_healthy (engine_freeze True demo_engine)" "e_gpu (engine_freeze True demo_engine)"
  "engine_is_frozen (engine_freeze True demo_engine)" "e_layers (engine_freeze True demo_engine) = 2"
  by (simp_all add: is_healthy_def engine_freeze_def engine_is_frozen_def is_frozen_def set_freeze_def demo_engine_def)

section \<open>What a step of the worker gives\<close>



text \<open>
  C37: A layer-wise load without a hit ends in an exception in the last layer of the forward pass: the start of the
  load and the waits of all layers before it return, and the wait of the last one raises.
\<close>

theorem load_without_hits_raises:
  assumes "rm_load r = Some spec" "ls_can_load spec" "load_call_of a r spec = Inr call" "\<not> a_blending a"
    and "mk call = retrieve_layer api g l e n (Inr cs)"
    and "is_healthy e" "e_manager e = Some m" "e_gpu e" "0 < e_layers e"
    and "find_layers api g e m cs (no_hits n) h = (Inr s, h1)" "lh_keys s = []"
  shows "\<exists>w1 h2. start_layer_loads a blend mk [r] w h = ((Inr (), w1), h2) \<and>
    (\<forall>k < e_layers e. \<exists>w' h'. repeat_call k (wait_for_layer_load (e_layers e)) w1 h2 = ((Inr (), w'), h')) \<and>
    (\<exists>w2. repeat_call (e_layers e) (wait_for_layer_load (e_layers e)) w1 h2 = ((Inl (UnboundLocalError ''mem_obj_consumer''), w2), h1))"
proof -
  let ?g = "retrieve_layer api g l e n (Inr cs)" and ?x = "UnboundLocalError ''mem_obj_consumer''"
  obtain k where k: "e_layers e = Suc k" using assms(9) by (cases "e_layers e") auto
  have "nexts (e_layers e + 1) ?g h = ((Inr (replicate (e_layers e + 1) Nothing), raising ?x), h1)"
    using retrieve_layer_without_hits [OF assms(6-8,10,11)] by blast
  then have "nexts (2 + k) ?g h = ((Inr (replicate (2 + k) Nothing), raising ?x), h1)" using k by simp
  then obtain ys g1 h2 zs where first: "nexts 2 ?g h = ((Inr ys, g1), h2)" and later: "nexts k g1 h2 = ((Inr zs, raising ?x), h1)"
    unfolding nexts_add by (auto split: prod.splits sum.splits)
  let ?w = "w\<lparr>wk_retrievers := [g1], wk_current := 0\<rparr>"
  have "next_of (raising ?x) h1 = ((Inl ?x, ended), h1)" by simp
  from waits_raise [OF later this, of ?w "e_layers e"] k obtain w2 where
    "repeat_call (e_layers e) (wait_for_layer_load (e_layers e)) ?w h2 = ((Inl ?x, w2), h1)" by auto
  moreover have "\<exists>w' h'. repeat_call i (wait_for_layer_load (e_layers e)) ?w h2 = ((Inr (), w'), h')" if "i < e_layers e" for i
    by (rule waits_before [OF later]) (use that k in simp_all)
  moreover have "start_layer_loads a blend mk [r] w h = ((Inr (), ?w), h2)"
    by (rule begin_loads_one [OF assms(1-4)]) (use first assms(5) in simp)
  ultimately show ?thesis by blast
qed

theorem load_without_hits_raises_witness:
  "\<exists>w1 h2 w2 h3. start_layer_loads demo_adapter (\<lambda>call. ret ()) demo_load_nothing [demo_meta] no_generators [] = ((Inr (), w1), h2) \<and>
    repeat_call 2 (wait_for_layer_load 2) w1 h2 = ((Inl (UnboundLocalError ''mem_obj_consumer''), w2), h3)"
proof -
  obtain spec call where c: "rm_load demo_meta = Some spec" "ls_can_load spec" "load_call_of demo_adapter demo_meta spec = Inr call"
    "\<not> a_blending demo_adapter"
    using demo_load_call by (auto simp: demo_adapter_def)
  obtain h1 where f: "find_layers demo_api demo_connector demo_engine demo_manager [(0, 2, 1)] (no_hits 2) [] = (Inr (no_hits 2), h1)"
    using demo_find_nothing by blast
  have "0 < e_layers demo_engine" "lh_keys (no_hits 2) = []" by (simp_all add: demo_engine_facts no_hits_def)
  from load_without_hits_raises [where blend = "\<lambda>call. ret ()" and mk = demo_load_nothing and w = no_generators, OF c demo_load_nothing_def
      demo_engine_facts(1-3) this(1) f this(2)]
  show ?thesis by (auto simp: demo_engine_facts)
qed

section \<open>Saving in freeze mode\<close>

lemma frozen_rounds:
  assumes "a_role a \<noteq> ''kv_consumer''" "rm_save r = Some sv" "sv_can sv"
    and "map_of (wk_storers w) (rm_id r) = Some (idle n () ended)"
  shows "\<exists>w'. repeat_call n (save_kv_layer a mk [r]) w h = ((Inr (), w'), h) \<and> map_of (wk_storers w') (rm_id r) = Some ended"
  using assms(4)
proof (induction n arbitrary: w)
  case 0
  then show ?case by simp
next
  case (Suc n)
  let ?w = "w\<lparr>wk_storers := dict_put (rm_id r) (idle n () ended) (wk_storers w)\<rparr>"
  have "save_kv_layer a mk [r] w h = ((Inr (), ?w), h)"
    using assms(1-3) Suc.prems by (simp add: save_kv_layer_def save_round_def)
  moreover from Suc.IH [of ?w] obtain w' where "repeat_call n (save_kv_layer a mk [r]) ?w h = ((Inr (), w'), h)"
    "map_of (wk_storers w') (rm_id r) = Some ended" by (auto simp: dict_simps)
  ultimately show ?case by simp
qed

text \<open>
  C38: A layer-wise save to a frozen engine breaks the step: the calls for the layers return, but the wait at
  the end of the step raises a \<^verbatim>\<open>StopIteration\<close> before the pins of the request are given
  back.
\<close>

theorem frozen_save_breaks_step:
  assumes "a_role a \<noteq> ''kv_consumer''" "rm_save r = Some sv" "sv_can sv" "layer_store_call a r = Inr (Some call)"
    and "map_of (wk_storers w) (rm_id r) = None"
    and "mk call = store_layer api g l e chunks" "is_healthy e" "e_gpu e" "engine_is_frozen e" "0 < e_layers e"
  shows "\<exists>w1 w2. repeat_call (e_layers e) (save_kv_layer a mk [r]) w h = ((Inr (), w1), h) \<and>
    wait_for_layer_saves a (\<lambda>i e. lookup_unpin api g e i) [r] (w1, e) h = ((Inl StopIteration, w2, e), h)"
proof -
  obtain k where k: "e_layers e = Suc k" using assms(10) by (cases "e_layers e") auto
  obtain m where "e_manager e = Some m" using assms(9) by (cases "e_manager e") (simp_all add: engine_is_frozen_def)
  then have mk: "mk call = idle (Suc k) () ended" using assms(6-9) k by (simp add: store_layer_def)
  let ?w = "w\<lparr>wk_storers := dict_put (rm_id r) (idle k () ended) (wk_storers w)\<rparr>"
  have "save_kv_layer a mk [r] w h = ((Inr (), ?w), h)"
    using assms(1-5) mk by (simp add: save_kv_layer_def save_round_def)
  moreover have "map_of (wk_storers ?w) (rm_id r) = Some (idle k () ended)" by (simp add: dict_simps)
  then obtain w1 where "repeat_call k (save_kv_layer a mk [r]) ?w h = ((Inr (), w1), h)"
    and w1: "map_of (wk_storers w1) (rm_id r) = Some ended"
    using frozen_rounds [OF assms(1-3)] by blast
  ultimately have "repeat_call (e_layers e) (save_kv_layer a mk [r]) w h = ((Inr (), w1), h)" using k by simp
  moreover have "\<exists>w2. wait_for_layer_saves a (\<lambda>i e. lookup_unpin api g e i) [r] (w1, e) h = ((Inl StopIteration, w2, e), h)"
    using assms(1) w1 by (simp add: wait_for_layer_saves_def Let_def)
  ultimately show ?thesis by blast
qed

theorem frozen_save_breaks_step_witness:
  "\<exists>w1 w2. repeat_call 2 (save_kv_layer demo_adapter demo_save [demo_save_meta]) no_generators [] = ((Inr (), w1), []) \<and>
    wait_for_layer_saves demo_adapter (\<lambda>i e. lookup_unpin demo_layer_store_api demo_connector e i) [demo_save_meta]
      (w1, engine_freeze True demo_engine) [] = ((Inl StopIteration, w2, engine_freeze True demo_engine), [])"
proof -
  obtain sv call where c: "rm_save demo_save_meta = Some sv" "sv_can sv" "layer_store_call demo_adapter demo_save_meta = Inr (Some call)"
    using demo_save_call by blast
  have "a_role demo_adapter \<noteq> ''kv_consumer''" "map_of (wk_storers no_generators) (rm_id demo_save_meta) = None"
    "0 < e_layers (engine_freeze True demo_engine)"
    by (simp_all add: demo_adapter_def no_generators_def demo_frozen)
  from frozen_save_breaks_step [where mk = demo_save and h = "[]", OF this(1) c this(2) demo_save_def demo_frozen(1-3) this(3)]
  show ?thesis by (simp add: demo_frozen)
qed

end
