(* ===== verification/Spec2Isabelle.thy ===== *)
theory Spec2Isabelle
  imports Disk_Header Layer_Plans Driver_Guard Xds_Lifecycle Vllm_Coverage
    Storage_Puts Storage_Lifecycle Storage_Prefetch Weighted_Semaphore
    Engine_Store Engine_Retrieve Engine_Lookup Engine_Broadcast Layer_Protocol Vllm_Layers
begin

text \<open>
  Verification library for LMCache-HCU, the HCU port of the LMCache key-value cache for language-model
  serving: chunks of KV memory go to cache files and come back, through a DMA driver, through staging
  buffers or through plain files. Source paths below are relative to \<^verbatim>\<open>src/lmcache_hcu/\<close>.

  \<^bold>\<open>How the parts interact.\<close> The serving engine hands slot mappings to the planners
  (\<^verbatim>\<open>v1/storage_backend/direct_io.py\<close>), which turn token ranges into descriptors of block runs or byte
  segments. The XDS backend (\<^verbatim>\<open>v1/storage_backend/xds_backend.py\<close>) validates a descriptor, registers its
  memory with the driver (\<^verbatim>\<open>v1/hipfile.py\<close>), and moves the bytes between KV memory and a cache file whose
  header is the checksummed metadata of \<^verbatim>\<open>v1/storage_backend/block_first_disk.py\<close>. Above the files it keeps
  an index with a quota, an eviction policy, pins and reservations. The storage manager
  (\<^verbatim>\<open>v1/storage_backend/storage_manager.py\<close>) routes look-ups, stores and loads over this and other backends;
  the cache engine (\<^verbatim>\<open>v1/cache_engine.py\<close>) cuts requests into chunks, moves them between the GPU connector
  and the manager, and keeps what look-ups have pinned; the vLLM connector (\<^verbatim>\<open>integration/vllm/vllm_v1_adapter.py\<close>) decides what is loaded and saved.

  \<^bold>\<open>Theories.\<close>
    \<^item> \<open>Hcu_Prelude\<close>: slices, ranges, insertion-ordered dictionaries (\<open>dict_put\<close>, \<open>dict_del\<close>, \<open>dict_sum\<close>),
      lists of guarded errors (\<open>first_error\<close>), the exceptions \<open>exn\<close> and results \<open>'a res\<close>.
    \<^item> \<open>Py_Hash\<close>, \<open>Py_Text\<close>, \<open>Py_Json\<close>: what the source uses of Python's library: CRC-32, SHA-256, little-endian
      fields, decimal and percent encoding, JSON of flat objects; each with its inverse.
    \<^item> \<open>Disk_Layout\<close>, \<open>Disk_Metadata\<close>, \<open>Disk_Header\<close>: \<^verbatim>\<open>block_first_disk.py\<close>: alignment, the two layouts of a
      tensor and their conversions, the metadata record with its creation and checks, the 4 KiB header.
    \<^item> \<open>Direct_Io\<close>: descriptors and their validation; \<open>Block_Plans\<close> and \<open>Layer_Plans\<close>: the three planners of
      \<^verbatim>\<open>direct_io.py\<close>. A plan is right when every uncached token of the file goes to the slot the engine
      mapped it to, once, and nothing else is written.
    \<^item> \<open>Hip_File\<close>: the driver state of \<^verbatim>\<open>hipfile.py\<close> with reference-counted registrations, the pools of
      \<^verbatim>\<open>memory_management.py\<close> and the direct registrations of the backend.
    \<^item> \<open>Hyfile_Io\<close>: reads and writes of \<^verbatim>\<open>HyFileDDS\<close> with their CPU fallback, over a world of memory, files and
      driver answers; the locale \<open>storage_interface\<close> is what the transfers rely on, interpreted on them.
      \<open>Driver_Guard\<close>: the reader-writer guard as a step relation over threads.
    \<^item> \<open>Os_Files\<close>, \<open>Xds_Sidecar\<close>, \<open>Xds_Files\<close>, \<open>Xds_Config\<close>: temporary files and atomic replacement, the legacy
      sidecar, every way the backend writes and reads a cache file, the decisions of its constructor.
    \<^item> \<open>Xds_Transfer\<close>, \<open>Direct_Delivery\<close>: direct stores and retrieves, the edge buffer of a partly cached block,
      and their composition with the planners.
    \<^item> \<open>Xds_Index\<close>, \<open>Xds_Accounting\<close>, \<open>Xds_Lifecycle\<close>: the index and all its operations with the start-up scan of
      the directory tree, the accounting invariant operation by operation, the step relation over whole
      calls with the properties of all its runs, and what a scan finds of a published file.
    \<^item> \<open>Vllm_Tracker\<close>, \<open>Vllm_Scheduler\<close>, \<open>Vllm_Worker\<close>, \<open>Vllm_Coverage\<close>: the connector of
      \<^verbatim>\<open>integration/vllm/vllm_v1_adapter.py\<close>: the tracker of a request and its metadata, the scheduler side,
      the loads and saves of the workers, and the step relation of the scheduler side with what is counted as
      saved in all its runs.
    \<^item> \<open>Call_Trace\<close>: computations that call other components, on the trace of the calls and their answers.
      \<open>Storage_Backends\<close>, \<open>Storage_Manager\<close>, \<open>Storage_Prefetch\<close>, \<open>Weighted_Semaphore\<close>:
      \<^verbatim>\<open>v1/storage_backend/storage_manager.py\<close>: the table of backends, the routing of every operation, the
      asynchronous look-up, the semaphore. \<open>Storage_Routing\<close>, \<open>Storage_Puts\<close>, \<open>Storage_Lifecycle\<close>: what the
      routing guarantees; the locale \<open>prefix_tier\<close> is the contract of a backend's look-up, interpreted on the
      index of the XDS backend.
    \<^item> \<open>Cache_Engine\<close>: \<^verbatim>\<open>v1/cache_engine.py\<close> without its layer-wise side: the engine's state and every operation on
      it, the broadcast between ranks, the table of instances. \<open>Engine_Store\<close>, \<open>Engine_Retrieve\<close>,
      \<open>Engine_Lookup\<close>, \<open>Engine_Broadcast\<close>: what its operations guarantee. \<open>Engine_Layers\<close>: generators as values
      and the two layer-wise ones of the engine; \<open>Layer_Connector\<close>: the two generators of the paged layer-wise
      GPU connector (\<^verbatim>\<open>v1/gpu_connector/gpu_connectors.py\<close>) that they resume, with their numbers of yields and
      their errors; \<open>Layer_Protocol\<close>: what the engine's generators yield, send and release;
      \<open>Vllm_Layers\<close>: the calls of the vLLM connector that resume them.

  \<^bold>\<open>Lemma groups.\<close> Codecs: round trips and soundness of what is accepted. Planners: faithfulness, totality
  on valid input, and that complete blocks are always planned directly. Files: atomicity under any
  answers of the operating system and the driver, and round trips on a quiet one. Direct transfers: a
  specification on memory (\<open>retrieved\<close>) that the transfer refines, and what it means for tokens. Driver:
  balance of reference counts, mutual exclusion and absence of lost wakeups. Index: accounting under
  quota, eviction, look-ups, rollback and restart. Connector: what is counted as saved was stored, what the
  look-up announces can be confirmed, what a load misses is reported. Manager: a look-up maps a prefix, a
  store releases every object once and keeps keys and copies together, a prefetch answers with the
  delivered prefix, the shutdown keeps allocators that others still use, the semaphore stays within its budget.
  Engine: tokens reported as retrieved were delivered, what is stored under a key was filled from its chunk,
  objects are released once and pins given back, ranks receive what the first one sends, and a layer-wise
  load or store runs to its end, or breaks the step without hits or in freeze mode.

  \<^bold>\<open>Conventions.\<close> Python integers are \<open>int\<close>, bytes are \<open>8 word\<close>, dictionaries keep their insertion order,
  exceptions are values of \<open>exn\<close> whose texts are shortened. There is no fuel: loops are structural or have
  a measure (row splitting by remaining rows, eviction by the entries left). Answers of the operating
  system, the driver and the copy engine are consumed from lists in the world, so that every property
  that quantifies over worlds covers every failure pattern. Torch's data types and the eviction policy
  are parameters, with their documented behaviour as named hypotheses (\<open>torch_api_ok\<close>, \<open>policy_ok\<close>).

  The engine is modelled over the trace of its calls, with the answers of the GPU connector, the event
  manager, the broadcast and the other components as functions of the calls before; the chunks that the
  token database makes of a request are an argument. Look-ups take the chunks that a database yields
  before it raises; in stores and retrievals a database that raises after some chunks is not
  distinguished from one that raises at once. A generator is a value that is resumed on a trace.

  \<^bold>\<open>Atomicity.\<close> The driver guard, the semaphore and the scheduler side are modelled step by step. A call of
  the XDS index is one step: overlapping calls are not interleaved inside a call, although without a
  quota the source adds to the counter outside its lock.

  \<^bold>\<open>Not modelled.\<close> The start-up of the vLLM connector, the construction of the engine's allocators and the
  GPU connectors other than the two generators orchestrate third-party code (LMCache, vLLM, torch streams); the KV events of layer-wise
  stores and the check logging of the engine do not influence the data; the observability module and the profiling
  counters do not influence the data; the GDS backend repeats the older file formats of the XDS backend;
  JSON documents in a header that the writer cannot have made are only refused; the start-up scan runs its
  threads one after the other and takes the listing of the tree as an argument; logging, patches and
  continuous-integration scripts are glue.
\<close>

end
